(* ===== verification/Prelude.thy ===== *)
theory Prelude
  imports Main "HOL-Library.Word" "HOL-Library.AList" "HOL-Library.Code_Target_Nat"
begin

text \<open>
  Shared vocabulary of the development: the machine integers and strings of the Rust code, the
  error type of \<^verbatim>\<open>crates/core/src/error.rs\<close>, the parts of Rust's standard library
  that several components use (string splitting, byte encodings, hash sets kept as duplicate-free
  lists) and the generic lemmas about them.
\<close>

unbundle bit_operations_syntax

section \<open>Types\<close>

type_synonym u8 = "8 word"
type_synonym u16 = "16 word"
type_synonym u32 = "32 word"
type_synonym u64 = "64 word"

text \<open>\<open>Ustr\<close> (an interned immutable string) and \<open>String\<close> are both byte strings.\<close>

type_synonym ustr = string

named_theorems store_simps \<open>field updates and lookups of the component states\<close>
named_theorems inv_intros \<open>preservation of the component invariants\<close>

section \<open>Errors (error.rs, user.rs)\<close>

datatype pam_error =
    UserNotFound
  | AccountLocked
  | AccountExpired
  | PasswordExpired
  | AuthenticationFailed
  | MaxRetriesExceeded
  | SessionError string
  | InternalError string

text \<open>The \<open>System\<close> variant carries an errno of the \<open>nix\<close> crate, kept as an integer.\<close>

datatype core_error =
    ParseError string
  | MissingField string
  | TypeMismatch string string
  | MissingSchema string
  | DependencyCycle "string list"
  | RuntimeStopped
  | PermissionDenied
  | DoubleKey
  | UnknownError
  | AuthFailed string
  | MetadataNotFound string
  | MissingInstances string
  | InvalidState string
  | EventBusError string
  | PersistenceError string
  | DuplicatePermissions u16 string
  | PamErr pam_error
  | Custom string
  | System int
  | IoError string
  | NotFound string

type_synonym 'a result = "core_error + 'a"

section \<open>Options and results\<close>

fun ok_or :: "'e \<Rightarrow> 'a option \<Rightarrow> 'e + 'a" where
  "ok_or e None = Inl e"
| "ok_or e (Some x) = Inr x"

lemma ok_or_Inr [simp]: "ok_or e x = Inr y \<longleftrightarrow> x = Some y"
  by (cases x) auto

lemma ok_or_Inl [simp]: "ok_or e x = Inl e' \<longleftrightarrow> x = None \<and> e = e'"
  by (cases x) auto

text \<open>
  A short-circuiting \<open>iter().any(..)\<close> whose predicate may run out of fuel: the first element
  that answers \<open>true\<close> ends the search, an element that does not return makes the whole
  search not return.
\<close>

fun any_opt :: "('a \<Rightarrow> bool option) \<Rightarrow> 'a list \<Rightarrow> bool option" where
  "any_opt f [] = Some False"
| "any_opt f (x # xs) =
     (case f x of None \<Rightarrow> None | Some True \<Rightarrow> Some True | Some False \<Rightarrow> any_opt f xs)"

fun all_opt :: "('a \<Rightarrow> bool option) \<Rightarrow> 'a list \<Rightarrow> bool option" where
  "all_opt f [] = Some True"
| "all_opt f (x # xs) =
     (case f x of None \<Rightarrow> None | Some False \<Rightarrow> Some False | Some True \<Rightarrow> all_opt f xs)"

text \<open>\<open>a || b\<close> with the right operand evaluated only when the left one is false.\<close>

fun or_opt :: "bool option \<Rightarrow> bool option \<Rightarrow> bool option" where
  "or_opt None b = None"
| "or_opt (Some True) b = Some True"
| "or_opt (Some False) b = b"

lemma any_opt_cong [fundef_cong]:
  "xs = ys \<Longrightarrow> (\<And>x. x \<in> set ys \<Longrightarrow> f x = g x) \<Longrightarrow> any_opt f xs = any_opt g ys"
proof (induction xs arbitrary: ys)
  case (Cons x xs)
  then show ?case by (auto split: option.splits bool.splits)
qed simp

lemma all_opt_cong [fundef_cong]:
  "xs = ys \<Longrightarrow> (\<And>x. x \<in> set ys \<Longrightarrow> f x = g x) \<Longrightarrow> all_opt f xs = all_opt g ys"
proof (induction xs arbitrary: ys)
  case (Cons x xs)
  then show ?case by (auto split: option.splits bool.splits)
qed simp

lemma any_opt_total:
  "(\<And>x. x \<in> set xs \<Longrightarrow> f x = Some (g x)) \<Longrightarrow> any_opt f xs = Some (\<exists>x \<in> set xs. g x)"
  by (induction xs) (auto split: bool.splits)

lemma all_opt_total:
  "(\<And>x. x \<in> set xs \<Longrightarrow> f x = Some (g x)) \<Longrightarrow> all_opt f xs = Some (\<forall>x \<in> set xs. g x)"
  by (induction xs) (auto split: bool.splits)

lemma or_opt_Some [simp]: "or_opt (Some a) (Some b) = Some (a \<or> b)"
  by (cases a) auto

section \<open>Hash sets as duplicate-free lists\<close>

text \<open>
  A \<open>HashSet\<close> that the code iterates over is the list of its elements in iteration order;
  which order that is, the library leaves open, and no result below depends on it.
\<close>

definition hs_insert :: "'a \<Rightarrow> 'a list \<Rightarrow> 'a list" where
  "hs_insert x s = (if x \<in> set s then s else s @ [x])"

definition hs_remove :: "'a \<Rightarrow> 'a list \<Rightarrow> 'a list" where
  "hs_remove x s = filter (\<lambda>y. y \<noteq> x) s"

lemma set_hs_insert [simp]: "set (hs_insert x s) = insert x (set s)"
  by (auto simp: hs_insert_def)

lemma set_hs_remove [simp]: "set (hs_remove x s) = set s - {x}"
  by (auto simp: hs_remove_def)

lemma distinct_hs_insert [simp]: "distinct (hs_insert x s) = distinct s"
  by (auto simp: hs_insert_def)

lemma distinct_hs_remove [simp]: "distinct s \<Longrightarrow> distinct (hs_remove x s)"
  by (auto simp: hs_remove_def)

section \<open>Strings\<close>

text \<open>\<open>str::split\<close> on one character: always at least one piece.\<close>

fun split_char :: "char \<Rightarrow> string \<Rightarrow> string list" where
  "split_char c [] = [[]]"
| "split_char c (x # xs) =
     (if x = c then [] # split_char c xs
      else (case split_char c xs of [] \<Rightarrow> [[x]] | p # ps \<Rightarrow> (x # p) # ps))"

text \<open>\<open>str::split_once\<close> and \<open>str::rsplit_once\<close> on one character.\<close>

fun split_once :: "char \<Rightarrow> string \<Rightarrow> (string \<times> string) option" where
  "split_once c [] = None"
| "split_once c (x # xs) =
     (if x = c then Some ([], xs)
      else map_option (\<lambda>(a, b). (x # a, b)) (split_once c xs))"

definition rsplit_once :: "char \<Rightarrow> string \<Rightarrow> (string \<times> string) option" where
  "rsplit_once c s = map_option (\<lambda>(a, b). (rev b, rev a)) (split_once c (rev s))"

text \<open>\<open>str::splitn\<close>: at most \<open>n\<close> pieces, the last one holding the rest.\<close>

fun splitn :: "nat \<Rightarrow> char \<Rightarrow> string \<Rightarrow> string list" where
  "splitn 0 c s = []"
| "splitn (Suc 0) c s = [s]"
| "splitn (Suc (Suc n)) c s =
     (case split_once c s of None \<Rightarrow> [s] | Some (a, b) \<Rightarrow> a # splitn (Suc n) c b)"

text \<open>\<open>str::rsplitn\<close>: the same from the right, last piece first.\<close>

definition rsplitn :: "nat \<Rightarrow> char \<Rightarrow> string \<Rightarrow> string list" where
  "rsplitn n c s = map rev (splitn n c (rev s))"

definition starts_with :: "string \<Rightarrow> string \<Rightarrow> bool" where
  "starts_with p s \<longleftrightarrow> take (length p) s = p"

definition strip_prefix :: "string \<Rightarrow> string \<Rightarrow> string option" where
  "strip_prefix p s = (if starts_with p s then Some (drop (length p) s) else None)"

text \<open>
  \<open>char::is_whitespace\<close> and \<open>str::trim\<close>. A string is its UTF-8 bytes: white space is one
  byte of ASCII, or two or three bytes from U+0085 on. \<open>ws_len\<close> is the length of the white space
  character a string begins with, or, for \<open>rev\<close> and the reversed string, of the one it ends with.
\<close>

definition is_ws :: "char \<Rightarrow> bool" where
  "is_ws c \<longleftrightarrow> c \<in> {CHR '' '', CHR 0x09, CHR 0x0A, CHR 0x0B, CHR 0x0C, CHR 0x0D}"

definition wide_ws :: "string \<Rightarrow> bool" where
  "wide_ws s \<longleftrightarrow> (case s of
       [a, b] \<Rightarrow> a = CHR 0xC2 \<and> b \<in> {CHR 0x85, CHR 0xA0}
     | [a, b, c] \<Rightarrow>
         a = CHR 0xE1 \<and> b = CHR 0x9A \<and> c = CHR 0x80
         \<or> a = CHR 0xE2 \<and> b = CHR 0x80 \<and> c \<in> {CHR 0x80, CHR 0x81, CHR 0x82, CHR 0x83, CHR 0x84, CHR 0x85, CHR 0x86, CHR 0x87,
              CHR 0x88, CHR 0x89, CHR 0x8A, CHR 0xA8, CHR 0xA9, CHR 0xAF}
         \<or> a = CHR 0xE2 \<and> b = CHR 0x81 \<and> c = CHR 0x9F
         \<or> a = CHR 0xE3 \<and> b = CHR 0x80 \<and> c = CHR 0x80
     | _ \<Rightarrow> False)"

definition ws_len :: "(string \<Rightarrow> string) \<Rightarrow> string \<Rightarrow> nat" where
  "ws_len f s = (case s of [] \<Rightarrow> 0
     | c # _ \<Rightarrow> if is_ws c then 1 else if \<not> digit7 c then 0
         else if wide_ws (f (take 2 s)) then 2 else if wide_ws (f (take 3 s)) then 3 else 0)"

lemma ws_len_Nil [simp]: "ws_len f [] = 0"
  by (simp add: ws_len_def)

function strip_ws :: "(string \<Rightarrow> string) \<Rightarrow> string \<Rightarrow> string" where
  "strip_ws f s = (if ws_len f s = 0 then s else strip_ws f (drop (ws_len f s) s))"
  by pat_completeness auto
termination by (relation "measure (\<lambda>(f, s). length s)") (auto intro!: diff_less simp: length_greater_0_conv [symmetric] simp del: length_greater_0_conv intro: Suc_leI)

declare strip_ws.simps [simp del]

definition trim :: "string \<Rightarrow> string" where
  "trim s = rev (strip_ws rev (rev (strip_ws id s)))"

text \<open>A string whose ends are no white space stays as it is, and the other way round.\<close>

definition visible :: "char \<Rightarrow> bool" where
  "visible c \<longleftrightarrow> \<not> is_ws c \<and> \<not> digit7 c"

lemma ws_len_visible [simp]: "visible c \<Longrightarrow> ws_len f (c # s) = 0"
  by (simp add: ws_len_def visible_def)

lemma ws_len_hd: "ws_len f s = 0 \<Longrightarrow> s \<noteq> [] \<Longrightarrow> \<not> is_ws (hd s)"
  by (cases s) (auto simp: ws_len_def)

lemma strip_ws_none: "ws_len f s = 0 \<Longrightarrow> strip_ws f s = s"
  by (subst strip_ws.simps) simp

lemma strip_ws_length: "length (strip_ws f s) \<le> length s - ws_len f s"
proof (induction f s rule: strip_ws.induct)
  case (1 f s)
  then show ?case by (subst strip_ws.simps) auto
qed

lemma trim_id: "ws_len id s = 0 \<Longrightarrow> ws_len rev (rev s) = 0 \<Longrightarrow> trim s = s"
  by (simp add: trim_def strip_ws_none)

lemma trim_visible: "s \<noteq> [] \<Longrightarrow> visible (hd s) \<Longrightarrow> visible (last s) \<Longrightarrow> trim s = s"
  by (rule trim_id) (metis list.collapse ws_len_visible hd_rev rev_is_Nil_conv)+

lemma trimmed_ends: "trim s = s \<Longrightarrow> ws_len id s = 0 \<and> ws_len rev (rev s) = 0"
proof -
  assume t: "trim s = s"
  have n: "ws_len f x = 0" if "length x \<le> length (strip_ws f x)" for f x
    using strip_ws_length [of f x] that by (cases x) auto
  have "length s = length (strip_ws rev (rev (strip_ws id s)))" using arg_cong [OF t, of length] by (simp add: trim_def)
  then have "length s \<le> length (strip_ws id s)" using strip_ws_length [of rev "rev (strip_ws id s)"] by simp
  then have 1: "ws_len id s = 0" by (rule n)
  with t have "rev (strip_ws rev (rev s)) = s" by (simp add: trim_def strip_ws_none)
  then have "length (rev s) = length (strip_ws rev (rev s))" by (metis length_rev)
  with 1 n [of "rev s" rev] show ?thesis by simp
qed

lemma wide_ws_high: "wide_ws s \<Longrightarrow> c \<in> set s \<Longrightarrow> digit7 c"
  by (auto simp: wide_ws_def split: list.splits)

lemma ws_len_before:
  assumes "s \<noteq> []" "ws_len f s = 0" "\<not> digit7 c" "\<And>x. set (f x) = set x"
  shows "ws_len f (s @ c # r) = 0"
proof (cases "is_ws (hd s) \<or> \<not> digit7 (hd s)")
  case False
  have wide: "\<not> wide_ws (f x)" if "c \<in> set x" for x using wide_ws_high [of "f x" c] assms(3,4) that by auto
  have take: "take n (s @ c # r) = take n s \<or> c \<in> set (take n (s @ c # r))" for n
    by (cases "n \<le> length s") (auto simp: take_Cons')
  have "\<not> wide_ws (f (take n (s @ c # r)))" if "n \<in> {2, 3}" for n
    using take [of n] wide [of "take n (s @ c # r)"] assms(1,2) False that by (cases s) (auto simp: ws_len_def split: if_splits)
  from this [of 2] this [of 3] have w: "\<not> wide_ws (f (take 2 (s @ c # r)))" "\<not> wide_ws (f (take 3 (s @ c # r)))" by blast+
  obtain a l where s: "s @ c # r = a # l" "a = hd s" using assms(1) by (cases s) auto
  show ?thesis using w False unfolding s(1) s(2) [symmetric] by (simp add: ws_len_def del: take_Suc_Cons take_Cons_numeral)
qed (use assms ws_len_hd [OF assms(2,1)] in \<open>cases s; simp add: ws_len_def\<close>)

definition lines :: "string \<Rightarrow> string list" where
  "lines s =
     (let ps = split_char (CHR 0x0A) s;
          strip = (\<lambda>l. if l \<noteq> [] \<and> last l = CHR 0x0D then butlast l else l)
      in map strip (if last ps = [] then butlast ps else ps))"

text \<open>Decimal digits, and \<open>str::parse\<close> for unsigned and signed integers of a given bound.\<close>

definition digit_val :: "char \<Rightarrow> nat option" where
  "digit_val c = (let n = of_char c :: nat in if 48 \<le> n \<and> n \<le> 57 then Some (n - 48) else None)"

fun parse_digits :: "nat \<Rightarrow> string \<Rightarrow> nat option" where
  "parse_digits acc [] = Some acc"
| "parse_digits acc (c # cs) =
     (case digit_val c of None \<Rightarrow> None | Some d \<Rightarrow> parse_digits (10 * acc + d) cs)"

definition parse_uint :: "nat \<Rightarrow> string \<Rightarrow> nat option" where
  "parse_uint bound s =
     (let ds = (case s of c # cs \<Rightarrow> if c = CHR ''+'' then cs else s | [] \<Rightarrow> s)
      in if ds = [] then None
         else (case parse_digits 0 ds of
                 None \<Rightarrow> None | Some n \<Rightarrow> if n < bound then Some n else None))"

definition parse_u16 :: "string \<Rightarrow> u16 option" where
  "parse_u16 s = map_option of_nat (parse_uint (2 ^ 16) s)"

definition parse_u32 :: "string \<Rightarrow> u32 option" where
  "parse_u32 s = map_option of_nat (parse_uint (2 ^ 32) s)"

definition parse_i64 :: "string \<Rightarrow> int option" where
  "parse_i64 s =
     (case s of
        c # cs \<Rightarrow>
          if c = CHR ''-'' then
            (if cs \<noteq> [] \<and> hd cs \<noteq> CHR ''+''
             then map_option (\<lambda>n. - int n) (parse_uint (2 ^ 63 + 1) cs) else None)
          else map_option int (parse_uint (2 ^ 63) s)
      | [] \<Rightarrow> None)"

text \<open>\<open>to_string\<close> of an unsigned integer.\<close>

fun show_nat :: "nat \<Rightarrow> string" where
  "show_nat n =
     (if n < 10 then [char_of (48 + n)] else show_nat (n div 10) @ [char_of (48 + n mod 10)])"

declare show_nat.simps [simp del]

lemma split_once_None: "split_once c s = None \<longleftrightarrow> c \<notin> set s"
  by (induction s) auto

lemma split_once_notin [simp]: "c \<notin> set s \<Longrightarrow> split_once c s = None"
  by (simp add: split_once_None)

lemma split_once_append [simp]: "c \<notin> set a \<Longrightarrow> split_once c (a @ c # b) = Some (a, b)"
  by (induction a) auto

lemma split_once_SomeD: "split_once c s = Some (a, b) \<Longrightarrow> s = a @ c # b \<and> c \<notin> set a"
  by (induction s arbitrary: a b) (auto split: if_splits)

lemma rsplit_once_append [simp]: "c \<notin> set b \<Longrightarrow> rsplit_once c (a @ c # b) = Some (a, b)"
  by (simp add: rsplit_once_def)

section \<open>Byte encodings\<close>

text \<open>
  \<open>le_bytes k n\<close> is the \<open>k\<close>-byte little-endian encoding of \<open>n\<close>; \<open>le_value\<close>
  reads it back. The big-endian ones are their mirror images.
\<close>

fun le_bytes :: "nat \<Rightarrow> nat \<Rightarrow> u8 list" where
  "le_bytes 0 n = []"
| "le_bytes (Suc k) n = of_nat n # le_bytes k (n div 256)"

fun le_value :: "u8 list \<Rightarrow> nat" where
  "le_value [] = 0"
| "le_value (b # bs) = unat b + 256 * le_value bs"

definition be_bytes :: "nat \<Rightarrow> nat \<Rightarrow> u8 list" where
  "be_bytes k n = rev (le_bytes k n)"

definition be_value :: "u8 list \<Rightarrow> nat" where
  "be_value bs = le_value (rev bs)"

lemma length_le_bytes [simp]: "length (le_bytes k n) = k"
  by (induction k arbitrary: n) auto

lemma length_be_bytes [simp]: "length (be_bytes k n) = k"
  by (simp add: be_bytes_def)

lemma le_value_le_bytes: "le_value (le_bytes k n) = n mod 256 ^ k"
proof (induction k arbitrary: n)
  case (Suc k)
  have "unat (of_nat n :: u8) = n mod 256"
    by (simp add: unat_of_nat)
  then show ?case
    using Suc by (simp add: mod_mult2_eq)
qed simp

lemma le_round [simp]: "n < 256 ^ k \<Longrightarrow> le_value (le_bytes k n) = n"
  by (simp add: le_value_le_bytes)

lemma be_round [simp]: "n < 256 ^ k \<Longrightarrow> be_value (be_bytes k n) = n"
  by (simp add: be_value_def be_bytes_def)

lemma le_value_bound: "le_value bs < 256 ^ length bs"
proof (induction bs)
  case (Cons b bs)
  have "unat b < 256" using unsigned_less [where w = b] by simp
  with Cons show ?case by simp
qed simp

definition u16_to_le :: "u16 \<Rightarrow> u8 list" where "u16_to_le w = le_bytes 2 (unat w)"
definition u16_from_le :: "u8 list \<Rightarrow> u16" where "u16_from_le bs = of_nat (le_value bs)"
definition u32_to_le :: "u32 \<Rightarrow> u8 list" where "u32_to_le w = le_bytes 4 (unat w)"
definition u32_from_le :: "u8 list \<Rightarrow> u32" where "u32_from_le bs = of_nat (le_value bs)"
definition u32_to_be :: "u32 \<Rightarrow> u8 list" where "u32_to_be w = be_bytes 4 (unat w)"
definition u32_from_be :: "u8 list \<Rightarrow> u32" where "u32_from_be bs = of_nat (be_value bs)"

lemma unat_u16_lt: "unat (w :: u16) < 65536"
  using unsigned_less [where w = w] by simp

lemma unat_u32_lt: "unat (w :: u32) < 4294967296"
  using unsigned_less [where w = w] by simp

lemma u16_le_round [simp]: "u16_from_le (u16_to_le w) = w"
  using unat_u16_lt [of w] by (simp add: u16_from_le_def u16_to_le_def)

lemma u32_le_round [simp]: "u32_from_le (u32_to_le w) = w"
  using unat_u32_lt [of w] by (simp add: u32_from_le_def u32_to_le_def)

lemma u32_be_round [simp]: "u32_from_be (u32_to_be w) = w"
  using unat_u32_lt [of w] by (simp add: u32_from_be_def u32_to_be_def)

lemma length_u16_to_le [simp]: "length (u16_to_le w) = 2"
  by (simp add: u16_to_le_def)

lemma length_u32_to_le [simp]: "length (u32_to_le w) = 4"
  by (simp add: u32_to_le_def)

lemma length_u32_to_be [simp]: "length (u32_to_be w) = 4"
  by (simp add: u32_to_be_def)

lemma key_neq_of_notin: "k \<notin> f ` set xs \<Longrightarrow> x \<in> set xs \<Longrightarrow> f x \<noteq> k"
  by (auto simp: image_iff)

section \<open>Association lists\<close>

text \<open>A \<open>HashMap\<close> that is iterated over is an association list with distinct keys.\<close>

abbreviation keys_distinct :: "('k \<times> 'v) list \<Rightarrow> bool" where
  "keys_distinct al \<equiv> distinct (map fst al)"

lemma map_of_update [simp]: "map_of (AList.update k v al) = (map_of al)(k \<mapsto> v)"
  by (rule AList.update_conv')

lemma map_of_delete [simp]: "map_of (AList.delete k al) = (map_of al)(k := None)"
  by (rule AList.delete_conv')

lemma keys_distinct_update [simp]: "keys_distinct al \<Longrightarrow> keys_distinct (AList.update k v al)"
  by (rule AList.distinct_update)

lemma keys_distinct_delete [simp]: "keys_distinct al \<Longrightarrow> keys_distinct (AList.delete k al)"
  by (rule AList.distinct_delete)

end
