(* ===== verification/ScopedNames.thy ===== *)
theory ScopedNames
  imports Prelude
begin

text \<open>
  Unit addressing, \<^verbatim>\<open>crates/core/src/utils.rs\<close>: the forms of the \<open>rslvns!\<close> macro
  that build and take apart \<open>group:name@scope\<close>, \<open>parse_scoped_name\<close>,
  \<open>compose_scoped_name\<close> and \<open>normalize_uaddr\<close>.
\<close>

section \<open>Operations\<close>

record scoped_name =
  sn_parent :: ustr
  sn_child :: ustr
  sn_scope :: ustr

text \<open>\<open>rslvns!(p, c)\<close>\<close>

definition rslvns_join :: "string \<Rightarrow> string \<Rightarrow> string" where
  "rslvns_join p c = p @ '':'' @ c"

text \<open>\<open>rslvns!(scp p, c)\<close>: add the scope unless the name already carries one.\<close>

definition rslvns_scp :: "string \<Rightarrow> string \<Rightarrow> string" where
  "rslvns_scp p c = (if CHR ''@'' \<in> set c then c else c @ ''@'' @ p)"

text \<open>\<open>rslvns!(snorm path)\<close>: everything before the first at-sign.\<close>

definition rslvns_snorm :: "string \<Rightarrow> string" where
  "rslvns_snorm path = (case splitn 2 (CHR ''@'') path of [] \<Rightarrow> [] | p # _ \<Rightarrow> p)"

text \<open>\<open>rslvns!(res path)\<close>: \<open>(parent, child, scope)\<close>; a missing scope is ``static''.\<close>

definition rslvns_res :: "string \<Rightarrow> string \<times> string \<times> string" where
  "rslvns_res path =
     (let scoped_parts = splitn 2 (CHR ''@'') path;
          name = (case scoped_parts of n # _ \<Rightarrow> n | [] \<Rightarrow> []);
          scope = (case scoped_parts of _ # s # _ \<Rightarrow> s | _ \<Rightarrow> ''static'');
          parts = rsplitn 3 (CHR '':'') name;
          child = (case parts of c # _ \<Rightarrow> c | [] \<Rightarrow> []);
          parent = (case parts of _ # p # _ \<Rightarrow> p | _ \<Rightarrow> [])
      in (parent, child, scope))"

definition parse_scoped_name :: "string \<Rightarrow> scoped_name" where
  "parse_scoped_name path =
     (case rslvns_res path of (parent, child, scope) \<Rightarrow>
        \<lparr>sn_parent = parent, sn_child = child, sn_scope = scope\<rparr>)"

definition compose_scoped_name :: "string \<Rightarrow> string \<Rightarrow> string option \<Rightarrow> string" where
  "compose_scoped_name parent child scope =
     (case scope of
        Some s \<Rightarrow> if s \<noteq> [] \<and> s \<noteq> ''static'' then parent @ '':'' @ child @ ''@'' @ s
                  else parent @ '':'' @ child
      | None \<Rightarrow> parent @ '':'' @ child)"

definition normalize_uaddr :: "ustr \<Rightarrow> string \<Rightarrow> ustr" where
  "normalize_uaddr addr prefix =
     (if starts_with prefix addr
      then (case strip_prefix prefix addr of Some r \<Rightarrow> r | None \<Rightarrow> [])
      else addr)"

section \<open>Facts the registry and the flow matcher share\<close>

lemma splitn_2_at:
  "splitn 2 c s = (case split_once c s of None \<Rightarrow> [s] | Some (a, b) \<Rightarrow> [a, b])"
  by (simp add: numeral_2_eq_2 split: option.splits prod.splits)

lemma splitn_3:
  "splitn 3 c s =
     (case split_once c s of None \<Rightarrow> [s]
      | Some (a, b) \<Rightarrow> (case split_once c b of None \<Rightarrow> [a, b] | Some (d, e) \<Rightarrow> [a, d, e]))"
  by (simp add: numeral_3_eq_3 split: option.splits prod.splits)

lemma rslvns_snorm_no_at [simp]: "CHR ''@'' \<notin> set s \<Longrightarrow> rslvns_snorm s = s"
  by (simp add: rslvns_snorm_def splitn_2_at)

lemma rslvns_snorm_at [simp]: "CHR ''@'' \<notin> set a \<Longrightarrow> rslvns_snorm (a @ CHR ''@'' # s) = a"
  by (simp add: rslvns_snorm_def splitn_2_at)

text \<open>An address with one colon resolves to its two halves.\<close>

lemma rsplitn_3_pair:
  assumes "CHR '':'' \<notin> set p" and "CHR '':'' \<notin> set c"
  shows "rsplitn 3 (CHR '':'') (p @ CHR '':'' # c) = [c, p]"
proof -
  have "split_once (CHR '':'') (rev c @ CHR '':'' # rev p) = Some (rev c, rev p)"
    using assms by simp
  then show ?thesis using assms by (simp add: rsplitn_def splitn_3)
qed

lemma rslvns_res_static:
  assumes "CHR '':'' \<notin> set p" "CHR '':'' \<notin> set c" "CHR ''@'' \<notin> set p" "CHR ''@'' \<notin> set c"
  shows "rslvns_res (p @ CHR '':'' # c) = (p, c, ''static'')"
  using assms rsplitn_3_pair [OF assms(1,2)] by (simp add: rslvns_res_def splitn_2_at)

lemma rslvns_res_scoped:
  assumes "CHR '':'' \<notin> set p" "CHR '':'' \<notin> set c" "CHR ''@'' \<notin> set p" "CHR ''@'' \<notin> set c"
  shows "rslvns_res (p @ CHR '':'' # c @ CHR ''@'' # s) = (p, c, s)"
proof -
  have "split_once (CHR ''@'') ((p @ CHR '':'' # c) @ CHR ''@'' # s) = Some (p @ CHR '':'' # c, s)"
    using assms by (intro split_once_append) auto
  then show ?thesis
    using rsplitn_3_pair [OF assms(1,2)] by (simp add: rslvns_res_def splitn_2_at)
qed

lemma rslvns_scp_idem: "rslvns_scp q (rslvns_scp p c) = rslvns_scp p c"
  by (simp add: rslvns_scp_def)

end
