(* ===== verification/UserStore.thy ===== *)
theory UserStore
  imports Prelude
begin

text \<open>
  The account database, \<^verbatim>\<open>crates/core/src/user.rs\<close>: the passwd, shadow and group parsers,
  the binary permission file \<open>rperms\<close>, \<open>UserStore::load\<close> and its lookups, and
  \<open>write_perms_with_overlay\<close>, which writes the permission file back. The operating system's
  files are a record of read functions.
\<close>

section \<open>Data\<close>

record user_record =
  ur_username :: ustr
  ur_uid :: u32
  ur_gid :: u32
  ur_gecos :: string
  ur_home :: string
  ur_shell :: string
  ur_permissions :: "u16 list"

record shadow_entry =
  sh_username :: ustr
  sh_password_hash :: string
  sh_last_changed :: "int option"
  sh_min_days :: "int option"
  sh_max_days :: "int option"
  sh_warn_days :: "int option"
  sh_inactive_days :: "int option"
  sh_expire_date :: "int option"

record group_entry =
  ge_name :: ustr
  ge_gid :: u32
  ge_members :: "ustr list"
  ge_permissions :: "u16 list"

record user_store =
  us_users :: "user_record list"
  us_shadows :: "shadow_entry list"
  us_groups :: "group_entry list"
  us_name_index :: "ustr \<rightharpoonup> nat"
  us_uid_index :: "u32 \<rightharpoonup> nat"

definition us_default :: user_store where
  "us_default = \<lparr>us_users = [], us_shadows = [], us_groups = [],
     us_name_index = Map.empty, us_uid_index = Map.empty\<rparr>"

section \<open>Line parsers\<close>

definition from_passwd_line :: "string \<Rightarrow> user_record option" where
  "from_passwd_line line =
     (let parts = splitn 7 (CHR '':'') line
      in if length parts < 7 then None
         else (case parse_u32 (parts ! 2) of
                 None \<Rightarrow> None
               | Some uid \<Rightarrow>
                   (case parse_u32 (parts ! 3) of
                      None \<Rightarrow> None
                    | Some gid \<Rightarrow>
                        Some \<lparr>ur_username = parts ! 0, ur_uid = uid, ur_gid = gid,
                              ur_gecos = parts ! 4, ur_home = parts ! 5, ur_shell = parts ! 6,
                              ur_permissions = []\<rparr>)))"

definition shadow_parse_opt :: "string \<Rightarrow> int option" where
  "shadow_parse_opt s = (if s = [] then None else parse_i64 s)"

definition from_shadow_line :: "string \<Rightarrow> shadow_entry option" where
  "from_shadow_line line =
     (let parts = splitn 9 (CHR '':'') line
      in if length parts < 8 then None
         else Some \<lparr>sh_username = parts ! 0, sh_password_hash = parts ! 1,
                    sh_last_changed = shadow_parse_opt (parts ! 2),
                    sh_min_days = shadow_parse_opt (parts ! 3),
                    sh_max_days = shadow_parse_opt (parts ! 4),
                    sh_warn_days = shadow_parse_opt (parts ! 5),
                    sh_inactive_days = shadow_parse_opt (parts ! 6),
                    sh_expire_date = shadow_parse_opt (parts ! 7)\<rparr>)"

definition from_group_line :: "string \<Rightarrow> group_entry option" where
  "from_group_line line =
     (let parts = splitn 4 (CHR '':'') line
      in if length parts < 4 then None
         else (case parse_u32 (parts ! 2) of
                 None \<Rightarrow> None
               | Some gid \<Rightarrow>
                   Some \<lparr>ge_name = parts ! 0, ge_gid = gid,
                         ge_members = map trim (filter (\<lambda>s. s \<noteq> []) (split_char (CHR '','') (parts ! 3))),
                         ge_permissions = []\<rparr>))"

definition is_system_user :: "user_record \<Rightarrow> bool" where
  "is_system_user u \<longleftrightarrow> unat (ur_uid u) < 1000"

section \<open>The permission file\<close>

text \<open>
  \<open>read_exact\<close> on a cursor: the next \<open>n\<close> bytes and the rest, or the standard library's
  end-of-file error.
\<close>

definition read_exact :: "nat \<Rightarrow> u8 list \<Rightarrow> (u8 list \<times> u8 list) result" where
  "read_exact n bs =
     (if length bs < n then Inl (Custom ''failed to fill whole buffer'')
      else Inr (take n bs, drop n bs))"

text \<open>The inner loop of \<open>load\<close>: \<open>count\<close> permission ids of two bytes each.\<close>

fun read_perm_ids :: "nat \<Rightarrow> u8 list \<Rightarrow> (u16 list \<times> u8 list) result" where
  "read_perm_ids 0 bs = Inr ([], bs)"
| "read_perm_ids (Suc n) bs =
     (case read_exact 2 bs of
        Inl e \<Rightarrow> Inl e
      | Inr (p, bs') \<Rightarrow>
          (case read_perm_ids n bs' of
             Inl e \<Rightarrow> Inl e
           | Inr (ps, bs'') \<Rightarrow> Inr (u16_from_le p # ps, bs'')))"

text \<open>One record of the file: tag, id, count, ids.\<close>

definition read_perm_block :: "u8 list \<Rightarrow> ((bool \<times> u32 \<times> u16 list) \<times> u8 list) result" where
  "read_perm_block bs =
     (case read_exact 1 bs of
        Inl e \<Rightarrow> Inl e
      | Inr (t, bs1) \<Rightarrow>
          (case read_exact 4 bs1 of
             Inl e \<Rightarrow> Inl e
           | Inr (id_buf, bs2) \<Rightarrow>
               (case read_exact 2 bs2 of
                  Inl e \<Rightarrow> Inl e
                | Inr (count_buf, bs3) \<Rightarrow>
                    (case read_perm_ids (unat (u16_from_le count_buf)) bs3 of
                       Inl e \<Rightarrow> Inl e
                     | Inr (perms, bs4) \<Rightarrow>
                         Inr ((t ! 0 = 0, u32_from_le id_buf, perms), bs4)))))"

lemma read_perm_ids_length:
  "read_perm_ids n bs = Inr (ps, bs') \<Longrightarrow> length bs' \<le> length bs"
proof (induction n arbitrary: bs ps bs')
  case (Suc n)
  then show ?case
    by (fastforce simp: read_exact_def split: sum.splits prod.splits if_splits)
qed simp

lemma read_perm_block_shorter:
  "read_perm_block bs = Inr (blk, bs') \<Longrightarrow> length bs' < length bs"
  by (auto simp: read_perm_block_def read_exact_def dest!: read_perm_ids_length
      split: sum.splits prod.splits if_splits)

type_synonym perm_map = "u32 \<rightharpoonup> u16 list"

text \<open>The outer loop of \<open>load\<close>: later records of the same id replace earlier ones.\<close>

function load_rperms :: "u8 list \<Rightarrow> perm_map \<Rightarrow> perm_map \<Rightarrow> (perm_map \<times> perm_map) result" where
  "load_rperms bs um gm =
     (if bs = [] then Inr (um, gm)
      else (case read_perm_block bs of
              Inl e \<Rightarrow> Inl e
            | Inr ((is_user, rid, perms), bs') \<Rightarrow>
                if is_user then load_rperms bs' (um(rid \<mapsto> perms)) gm
                else load_rperms bs' um (gm(rid \<mapsto> perms))))"
  by pat_completeness auto
termination
  by (relation "measure (\<lambda>(bs, um, gm). length bs)") (auto dest: read_perm_block_shorter)

declare load_rperms.simps [simp del]

section \<open>Loading\<close>

record os_files =
  of_exists :: "string \<Rightarrow> bool"
  of_read :: "string \<Rightarrow> string + u8 list"
  of_read_to_string :: "string \<Rightarrow> string + string"

definition skip_line :: "string \<Rightarrow> bool" where
  "skip_line line \<longleftrightarrow> line = [] \<or> starts_with ''#'' line"

text \<open>One line of passwd. The permissions of a uid go to its first record only.\<close>

definition load_passwd_line :: "string \<Rightarrow> user_store \<times> perm_map \<Rightarrow> user_store \<times> perm_map" where
  "load_passwd_line raw = (\<lambda>(st, um).
     let line = trim raw in
     if skip_line line then (st, um)
     else (case from_passwd_line line of
             None \<Rightarrow> (st, um)
           | Some user \<Rightarrow>
               let idx = length (us_users st);
                   user' = (case um (ur_uid user) of
                              Some perms \<Rightarrow> user\<lparr>ur_permissions := perms\<rparr> | None \<Rightarrow> user)
               in (st\<lparr>us_name_index := (us_name_index st)(ur_username user \<mapsto> idx),
                      us_uid_index := (us_uid_index st)(ur_uid user \<mapsto> idx),
                      us_users := us_users st @ [user']\<rparr>,
                   um(ur_uid user := None))))"

definition load_shadow_line :: "string \<Rightarrow> user_store \<Rightarrow> user_store" where
  "load_shadow_line raw st =
     (let line = trim raw in
      if skip_line line then st
      else (case from_shadow_line line of
              None \<Rightarrow> st
            | Some entry \<Rightarrow> st\<lparr>us_shadows := us_shadows st @ [entry]\<rparr>))"

definition load_group_line :: "string \<Rightarrow> user_store \<times> perm_map \<Rightarrow> user_store \<times> perm_map" where
  "load_group_line raw = (\<lambda>(st, gm).
     let line = trim raw in
     if skip_line line then (st, gm)
     else (case from_group_line line of
             None \<Rightarrow> (st, gm)
           | Some entry \<Rightarrow>
               let entry' = (case gm (ge_gid entry) of
                               Some perms \<Rightarrow> entry\<lparr>ge_permissions := perms\<rparr> | None \<Rightarrow> entry)
               in (st\<lparr>us_groups := us_groups st @ [entry']\<rparr>, gm(ge_gid entry := None))))"

definition us_load :: "os_files \<Rightarrow> string \<Rightarrow> string \<Rightarrow> string \<Rightarrow> string \<Rightarrow> user_store result" where
  "us_load fs passwd_path shadow_path group_path perms_path =
     (case (if of_exists fs perms_path
            then (case of_read fs perms_path of
                    Inl e \<Rightarrow> Inl (Custom (''failed to read '' @ passwd_path @ '': '' @ e))
                  | Inr bs \<Rightarrow> load_rperms bs Map.empty Map.empty)
            else Inr (Map.empty, Map.empty)) of
        Inl e \<Rightarrow> Inl e
      | Inr (user_perms, group_perms) \<Rightarrow>
          (case of_read_to_string fs passwd_path of
             Inl e \<Rightarrow> Inl (Custom (''failed to read '' @ passwd_path @ '': '' @ e))
           | Inr passwd \<Rightarrow>
               let st1 = fst (fold load_passwd_line (lines passwd) (us_default, user_perms));
                   st2 = (case of_read_to_string fs shadow_path of
                            Inl _ \<Rightarrow> st1
                          | Inr shadow \<Rightarrow> fold load_shadow_line (lines shadow) st1)
               in (case of_read_to_string fs group_path of
                     Inl _ \<Rightarrow> Inr st2
                   | Inr grp \<Rightarrow>
                       Inr (fst (fold load_group_line (lines grp) (st2, group_perms))))))"

section \<open>Lookups\<close>

text \<open>
  The code indexes \<open>users[idx]\<close> and would panic on an index outside the vector; the store
  invariant below shows that no index is.
\<close>

definition lookup_by_name :: "user_store \<Rightarrow> string \<Rightarrow> user_record option" where
  "lookup_by_name st name =
     (case us_name_index st name of
        None \<Rightarrow> None
      | Some i \<Rightarrow> if i < length (us_users st) then Some (us_users st ! i) else None)"

definition lookup_by_uid :: "user_store \<Rightarrow> u32 \<Rightarrow> user_record option" where
  "lookup_by_uid st uid =
     (case us_uid_index st uid of
        None \<Rightarrow> None
      | Some i \<Rightarrow> if i < length (us_users st) then Some (us_users st ! i) else None)"

definition us_group :: "user_store \<Rightarrow> u32 \<Rightarrow> group_entry option" where
  "us_group st gid = find (\<lambda>g. ge_gid g = gid) (us_groups st)"

definition group_by_name :: "user_store \<Rightarrow> string \<Rightarrow> group_entry option" where
  "group_by_name st name = find (\<lambda>g. ge_name g = name) (us_groups st)"

definition shadow_for :: "user_store \<Rightarrow> string \<Rightarrow> shadow_entry option" where
  "shadow_for st username = find (\<lambda>s. sh_username s = username) (us_shadows st)"

fun groups_for_members :: "ustr \<Rightarrow> group_entry list \<Rightarrow> ustr list \<Rightarrow> ustr list" where
  "groups_for_members username [] result = result"
| "groups_for_members username (g # gs) result =
     groups_for_members username gs
       (if username \<in> set (ge_members g) \<and> ge_name g \<notin> set result
        then result @ [ge_name g] else result)"

definition groups_for :: "user_store \<Rightarrow> user_record \<Rightarrow> ustr list" where
  "groups_for st user =
     groups_for_members (ur_username user) (us_groups st)
       (case find (\<lambda>g. ge_gid g = ur_gid user) (us_groups st) of
          Some primary \<Rightarrow> [ge_name primary] | None \<Rightarrow> [])"

definition user_in_group :: "user_store \<Rightarrow> user_record \<Rightarrow> string \<Rightarrow> bool" where
  "user_in_group st user group_name \<longleftrightarrow> group_name \<in> set (groups_for st user)"

section \<open>Writing the permission file\<close>

type_synonym overlay = "u32 \<rightharpoonup> u16 set"

definition overlay_get :: "overlay \<Rightarrow> u32 \<Rightarrow> u16 set" where
  "overlay_get ov i = (case ov i of Some s \<Rightarrow> s | None \<Rightarrow> {})"

text \<open>The \<open>BTreeSet\<close> of the code: the ids in ascending order.\<close>

definition effective_perms :: "u16 list \<Rightarrow> u16 set \<Rightarrow> u16 set \<Rightarrow> u16 list" where
  "effective_perms perms grants revokes = sorted_list_of_set ((set perms - revokes) \<union> grants)"

definition perm_block :: "u8 \<Rightarrow> string \<Rightarrow> string \<Rightarrow> u32 \<Rightarrow> u16 list \<Rightarrow> u8 list result" where
  "perm_block tag kind name rid effective =
     (if effective = [] then Inr []
      else if length effective < 65536
      then Inr (tag # u32_to_le rid @ u16_to_le (of_nat (length effective))
                @ concat (map u16_to_le effective))
      else Inl (Custom (''too many permissions for '' @ kind @ '' '' @ name @ '' (''
                        @ show_nat (unat rid) @ '')'')))"

fun perm_blocks :: "('a \<Rightarrow> u8 list result) \<Rightarrow> 'a list \<Rightarrow> u8 list result" where
  "perm_blocks f [] = Inr []"
| "perm_blocks f (x # xs) =
     (case f x of
        Inl e \<Rightarrow> Inl e
      | Inr b \<Rightarrow> (case perm_blocks f xs of Inl e \<Rightarrow> Inl e | Inr bs \<Rightarrow> Inr (b @ bs)))"

definition user_effective :: "overlay \<Rightarrow> overlay \<Rightarrow> user_record \<Rightarrow> u16 list" where
  "user_effective grants revokes u =
     effective_perms (ur_permissions u) (overlay_get grants (ur_uid u))
       (overlay_get revokes (ur_uid u))"

definition group_effective :: "overlay \<Rightarrow> overlay \<Rightarrow> group_entry \<Rightarrow> u16 list" where
  "group_effective grants revokes g =
     effective_perms (ge_permissions g) (overlay_get grants (ge_gid g))
       (overlay_get revokes (ge_gid g))"

definition perms_blob ::
  "user_store \<Rightarrow> overlay \<Rightarrow> overlay \<Rightarrow> overlay \<Rightarrow> overlay \<Rightarrow> u8 list result" where
  "perms_blob st user_grants user_revokes group_grants group_revokes =
     (case perm_blocks (\<lambda>u. perm_block 0 ''user'' (ur_username u) (ur_uid u)
                               (user_effective user_grants user_revokes u)) (us_users st) of
        Inl e \<Rightarrow> Inl e
      | Inr ub \<Rightarrow>
          (case perm_blocks (\<lambda>g. perm_block 1 ''group'' (ge_name g) (ge_gid g)
                                    (group_effective group_grants group_revokes g)) (us_groups st) of
             Inl e \<Rightarrow> Inl e
           | Inr gb \<Rightarrow> Inr (ub @ gb)))"

text \<open>The file write itself is the operating system's: a function that may fail.\<close>

definition us_write_perms_with_overlay ::
  "(string \<Rightarrow> u8 list \<Rightarrow> string + unit) \<Rightarrow> user_store \<Rightarrow> string \<Rightarrow>
   overlay \<Rightarrow> overlay \<Rightarrow> overlay \<Rightarrow> overlay \<Rightarrow> unit result" where
  "us_write_perms_with_overlay fs_write st perms_path ug ur gg gr =
     (case perms_blob st ug ur gg gr of
        Inl e \<Rightarrow> Inl e
      | Inr buf \<Rightarrow>
          (case fs_write perms_path buf of
             Inl e \<Rightarrow> Inl (Custom (''failed to write '' @ perms_path @ '': '' @ e))
           | Inr _ \<Rightarrow> Inr ()))"

section \<open>The permission file round trip\<close>

lemma read_exact_append [simp]: "length a = n \<Longrightarrow> read_exact n (a @ b) = Inr (a, b)"
  by (simp add: read_exact_def)

lemma read_perm_ids_concat:
  "read_perm_ids (length ps) (concat (map u16_to_le ps) @ rest) = Inr (ps, rest)"
  by (induction ps) auto

lemma unat_of_nat_u16 [simp]: "n < 65536 \<Longrightarrow> unat (of_nat n :: u16) = n"
  by (simp add: unat_of_nat)

lemma read_perm_block_perm_block:
  assumes "perm_block tag kind name i eff = Inr b" and "eff \<noteq> []"
  shows "read_perm_block (b @ rest) = Inr ((tag = 0, i, eff), rest)"
proof -
  from assms have len: "length eff < 65536"
    and b: "b = tag # u32_to_le i @ u16_to_le (of_nat (length eff)) @ concat (map u16_to_le eff)"
    by (auto simp: perm_block_def split: if_splits)
  have "read_exact 1 (tag # xs) = Inr ([tag], xs)" for xs
    by (simp add: read_exact_def)
  with len show ?thesis
    by (simp add: b read_perm_block_def read_perm_ids_concat)
qed

lemma perm_block_nonempty:
  "perm_block tag kind name i eff = Inr b \<Longrightarrow> b = [] \<longleftrightarrow> eff = []"
  by (auto simp: perm_block_def split: if_splits)

lemma load_rperms_Nil [simp]: "load_rperms [] um gm = Inr (um, gm)"
  by (simp add: load_rperms.simps)

lemma load_rperms_block:
  assumes "perm_block tag kind name i eff = Inr b"
  shows "load_rperms (b @ rest) um gm =
    (if eff = [] then load_rperms rest um gm
     else if tag = 0 then load_rperms rest (um(i \<mapsto> eff)) gm
     else load_rperms rest um (gm(i \<mapsto> eff)))"
proof (cases "eff = []")
  case True
  with assms show ?thesis by (simp add: perm_block_def)
next
  case False
  with assms have "b \<noteq> []" by (simp add: perm_block_nonempty)
  with assms False show ?thesis
    by (subst load_rperms.simps) (simp add: read_perm_block_perm_block)
qed

text \<open>What a run of blocks adds to a map: the non-empty entries, later ones replacing earlier.\<close>

fun blocks_map :: "('a \<Rightarrow> u32) \<Rightarrow> ('a \<Rightarrow> u16 list) \<Rightarrow> 'a list \<Rightarrow> perm_map \<Rightarrow> perm_map" where
  "blocks_map key eff [] m = m"
| "blocks_map key eff (x # xs) m =
     blocks_map key eff xs (if eff x = [] then m else m(key x \<mapsto> eff x))"

lemma load_rperms_user_blocks:
  "perm_blocks (\<lambda>u. perm_block 0 kind (nm u) (key u) (eff u)) xs = Inr bs \<Longrightarrow>
   load_rperms (bs @ rest) um gm = load_rperms rest (blocks_map key eff xs um) gm"
proof (induction xs arbitrary: bs um)
  case (Cons x xs)
  from Cons.prems obtain b bs' where b: "perm_block 0 kind (nm x) (key x) (eff x) = Inr b"
    and bs': "perm_blocks (\<lambda>u. perm_block 0 kind (nm u) (key u) (eff u)) xs = Inr bs'"
    and "bs = b @ bs'"
    by (auto split: sum.splits)
  then show ?case
    by (simp add: load_rperms_block [OF b] Cons.IH [OF bs'] del: fun_upd_apply)
qed simp

lemma load_rperms_group_blocks:
  "perm_blocks (\<lambda>u. perm_block 1 kind (nm u) (key u) (eff u)) xs = Inr bs \<Longrightarrow>
   load_rperms (bs @ rest) um gm = load_rperms rest um (blocks_map key eff xs gm)"
proof (induction xs arbitrary: bs gm)
  case (Cons x xs)
  from Cons.prems obtain b bs' where b: "perm_block 1 kind (nm x) (key x) (eff x) = Inr b"
    and bs': "perm_blocks (\<lambda>u. perm_block 1 kind (nm u) (key u) (eff u)) xs = Inr bs'"
    and "bs = b @ bs'"
    by (auto split: sum.splits)
  then show ?case
    by (simp add: load_rperms_block [OF b] Cons.IH [OF bs'] del: fun_upd_apply)
qed simp

lemma load_rperms_perms_blob:
  assumes "perms_blob st ug ur gg gr = Inr bytes"
  shows "load_rperms bytes Map.empty Map.empty =
    Inr (blocks_map ur_uid (user_effective ug ur) (us_users st) Map.empty,
         blocks_map ge_gid (group_effective gg gr) (us_groups st) Map.empty)"
proof -
  from assms obtain ub gb where
    ub: "perm_blocks (\<lambda>u. perm_block 0 ''user'' (ur_username u) (ur_uid u)
                            (user_effective ug ur u)) (us_users st) = Inr ub"
    and gb: "perm_blocks (\<lambda>g. perm_block 1 ''group'' (ge_name g) (ge_gid g)
                            (group_effective gg gr g)) (us_groups st) = Inr gb"
    and "bytes = ub @ gb"
    by (auto simp: perms_blob_def split: sum.splits)
  then show ?thesis
    using load_rperms_user_blocks [OF ub] load_rperms_group_blocks [OF gb, where rest = "[]"]
    by simp
qed

lemma blocks_map_notin:
  "k \<notin> key ` set xs \<Longrightarrow> blocks_map key eff xs m k = m k"
  by (induction xs arbitrary: m) auto

lemma blocks_map_in:
  assumes "distinct (map key xs)" and "x \<in> set xs"
  shows "blocks_map key eff xs m (key x) = (if eff x = [] then m (key x) else Some (eff x))"
  using assms
proof (induction xs arbitrary: m)
  case (Cons y ys)
  show ?case
  proof (cases "x = y")
    case True
    with Cons.prems have "key x \<notin> key ` set ys" by auto
    with True show ?thesis by (simp add: blocks_map_notin)
  next
    case False
    with Cons.prems have "x \<in> set ys" and "key x \<noteq> key y"
      by (auto dest: key_neq_of_notin)
    with Cons show ?thesis by simp
  qed
qed simp

section \<open>What loading does to the records\<close>

definition parse_passwd_raw :: "string \<Rightarrow> user_record option" where
  "parse_passwd_raw raw =
     (if skip_line (trim raw) then None else from_passwd_line (trim raw))"

definition parse_group_raw :: "string \<Rightarrow> group_entry option" where
  "parse_group_raw raw =
     (if skip_line (trim raw) then None else from_group_line (trim raw))"

definition with_uperms :: "perm_map \<Rightarrow> user_record \<Rightarrow> user_record" where
  "with_uperms um u =
     (case um (ur_uid u) of Some p \<Rightarrow> u\<lparr>ur_permissions := p\<rparr> | None \<Rightarrow> u)"

definition with_gperms :: "perm_map \<Rightarrow> group_entry \<Rightarrow> group_entry" where
  "with_gperms gm g =
     (case gm (ge_gid g) of Some p \<Rightarrow> g\<lparr>ge_permissions := p\<rparr> | None \<Rightarrow> g)"

lemma with_uperms_uid [simp]: "ur_uid (with_uperms um u) = ur_uid u"
  by (simp add: with_uperms_def split: option.splits)

lemma with_uperms_name [simp]: "ur_username (with_uperms um u) = ur_username u"
  by (simp add: with_uperms_def split: option.splits)

lemma with_gperms_gid [simp]: "ge_gid (with_gperms gm g) = ge_gid g"
  by (simp add: with_gperms_def split: option.splits)

lemma load_passwd_line_eq:
  "load_passwd_line raw (st, um) =
     (case parse_passwd_raw raw of
        None \<Rightarrow> (st, um)
      | Some u \<Rightarrow>
          (st\<lparr>us_name_index := (us_name_index st)(ur_username u \<mapsto> length (us_users st)),
              us_uid_index := (us_uid_index st)(ur_uid u \<mapsto> length (us_users st)),
              us_users := us_users st @ [with_uperms um u]\<rparr>, um(ur_uid u := None)))"
  by (simp add: load_passwd_line_def parse_passwd_raw_def with_uperms_def Let_def
      split: option.splits)

lemma load_group_line_eq:
  "load_group_line raw (st, gm) =
     (case parse_group_raw raw of
        None \<Rightarrow> (st, gm)
      | Some g \<Rightarrow>
          (st\<lparr>us_groups := us_groups st @ [with_gperms gm g]\<rparr>, gm(ge_gid g := None)))"
  by (simp add: load_group_line_def parse_group_raw_def with_gperms_def Let_def
      split: option.splits)

lemma parse_passwd_raw_perms: "parse_passwd_raw raw = Some u \<Longrightarrow> ur_permissions u = []"
  by (auto simp: parse_passwd_raw_def from_passwd_line_def Let_def
      split: if_splits option.splits)

lemma parse_group_raw_perms: "parse_group_raw raw = Some g \<Longrightarrow> ge_permissions g = []"
  by (auto simp: parse_group_raw_def from_group_line_def Let_def
      split: if_splits option.splits)

text \<open>
  The whole passwd loop: with pairwise different uids every record receives what the permission
  map holds for its uid, and the indexes do not depend on the permissions at all.
\<close>

lemma with_uperms_upd_other:
  "ur_uid u \<noteq> k \<Longrightarrow> with_uperms (um(k := x)) u = with_uperms um u"
  by (simp add: with_uperms_def)

lemma with_gperms_upd_other:
  "ge_gid g \<noteq> k \<Longrightarrow> with_gperms (gm(k := x)) g = with_gperms gm g"
  by (simp add: with_gperms_def)

lemma load_passwd_fold_users:
  assumes "distinct (map ur_uid (List.map_filter parse_passwd_raw ls))"
  shows "us_users (fst (fold load_passwd_line ls (st, um))) =
    us_users st @ map (with_uperms um) (List.map_filter parse_passwd_raw ls)"
  using assms
proof (induction ls arbitrary: st um)
  case (Cons l ls)
  show ?case
  proof (cases "parse_passwd_raw l")
    case None
    with Cons show ?thesis by (simp add: load_passwd_line_eq map_filter_simps)
  next
    case (Some u)
    with Cons.prems have "distinct (map ur_uid (List.map_filter parse_passwd_raw ls))"
      and "ur_uid u \<notin> ur_uid ` set (List.map_filter parse_passwd_raw ls)"
      by (simp_all add: map_filter_simps)
    moreover from this(2)
    have "map (with_uperms (um(ur_uid u := None))) (List.map_filter parse_passwd_raw ls)
        = map (with_uperms um) (List.map_filter parse_passwd_raw ls)"
      by (intro map_cong refl with_uperms_upd_other) (auto dest: key_neq_of_notin)
    ultimately show ?thesis
      using Some Cons.IH by (simp add: load_passwd_line_eq map_filter_simps)
  qed
qed (simp add: map_filter_simps)

lemma load_group_fold_groups:
  assumes "distinct (map ge_gid (List.map_filter parse_group_raw ls))"
  shows "us_groups (fst (fold load_group_line ls (st, gm))) =
    us_groups st @ map (with_gperms gm) (List.map_filter parse_group_raw ls)"
  using assms
proof (induction ls arbitrary: st gm)
  case (Cons l ls)
  show ?case
  proof (cases "parse_group_raw l")
    case None
    with Cons show ?thesis by (simp add: load_group_line_eq map_filter_simps)
  next
    case (Some g)
    with Cons.prems have "distinct (map ge_gid (List.map_filter parse_group_raw ls))"
      and "ge_gid g \<notin> ge_gid ` set (List.map_filter parse_group_raw ls)"
      by (simp_all add: map_filter_simps)
    moreover from this(2)
    have "map (with_gperms (gm(ge_gid g := None))) (List.map_filter parse_group_raw ls)
        = map (with_gperms gm) (List.map_filter parse_group_raw ls)"
      by (intro map_cong refl with_gperms_upd_other) (auto dest: key_neq_of_notin)
    ultimately show ?thesis
      using Some Cons.IH by (simp add: load_group_line_eq map_filter_simps)
  qed
qed (simp add: map_filter_simps)

text \<open>The uids, indexes and everything but the permissions are the same for any map.\<close>

definition same_skeleton :: "user_store \<Rightarrow> user_store \<Rightarrow> bool" where
  "same_skeleton a b \<longleftrightarrow>
     map ur_uid (us_users a) = map ur_uid (us_users b) \<and>
     map ge_gid (us_groups a) = map ge_gid (us_groups b) \<and>
     us_shadows a = us_shadows b \<and> us_name_index a = us_name_index b \<and>
     us_uid_index a = us_uid_index b"

lemma same_skeleton_length: "same_skeleton a b \<Longrightarrow> length (us_users a) = length (us_users b)"
  by (metis same_skeleton_def length_map)

lemma same_skeleton_passwd:
  "same_skeleton a b \<Longrightarrow>
   same_skeleton (fst (fold load_passwd_line ls (a, um))) (fst (fold load_passwd_line ls (b, um')))"
proof (induction ls arbitrary: a b um um')
  case (Cons l ls)
  show ?case
  proof (cases "parse_passwd_raw l")
    case None
    with Cons show ?thesis by (simp add: load_passwd_line_eq)
  next
    case (Some u)
    with Cons.prems show ?thesis
      using same_skeleton_length [OF Cons.prems]
      by (simp add: load_passwd_line_eq, intro Cons.IH) (simp add: same_skeleton_def)
  qed
qed simp

lemma same_skeleton_shadow:
  "same_skeleton a b \<Longrightarrow>
   same_skeleton (fold load_shadow_line ls a) (fold load_shadow_line ls b)"
proof (induction ls arbitrary: a b)
  case (Cons l ls)
  from Cons.prems have "same_skeleton (load_shadow_line l a) (load_shadow_line l b)"
    by (cases "from_shadow_line (trim l)") (simp_all add: load_shadow_line_def same_skeleton_def Let_def)
  then show ?case by (simp add: Cons.IH)
qed simp

lemma same_skeleton_group:
  "same_skeleton a b \<Longrightarrow>
   same_skeleton (fst (fold load_group_line ls (a, gm))) (fst (fold load_group_line ls (b, gm')))"
proof (induction ls arbitrary: a b gm gm')
  case (Cons l ls)
  show ?case
  proof (cases "parse_group_raw l")
    case None
    with Cons show ?thesis by (simp add: load_group_line_eq)
  next
    case (Some g)
    with Cons.prems show ?thesis
      by (simp add: load_group_line_eq, intro Cons.IH) (simp add: same_skeleton_def)
  qed
qed simp

lemma load_passwd_fold_uids:
  "map ur_uid (us_users (fst (fold load_passwd_line ls (st, um)))) =
   map ur_uid (us_users st) @ map ur_uid (List.map_filter parse_passwd_raw ls)"
  by (induction ls arbitrary: st um)
    (auto simp: load_passwd_line_eq map_filter_simps split: option.splits)

lemma load_group_fold_gids:
  "map ge_gid (us_groups (fst (fold load_group_line ls (st, gm)))) =
   map ge_gid (us_groups st) @ map ge_gid (List.map_filter parse_group_raw ls)"
  by (induction ls arbitrary: st gm)
    (auto simp: load_group_line_eq map_filter_simps split: option.splits)

lemma load_shadow_fold_frame [simp]:
  "us_users (fold load_shadow_line ls st) = us_users st"
  "us_groups (fold load_shadow_line ls st) = us_groups st"
  by (induction ls arbitrary: st)
    (auto simp: load_shadow_line_def Let_def split: option.splits)

lemma load_group_fold_frame [simp]:
  "us_users (fst (fold load_group_line ls (st, gm))) = us_users st"
  by (induction ls arbitrary: st gm) (auto simp: load_group_line_eq split: option.splits)

lemma load_passwd_fold_frame [simp]:
  "us_groups (fst (fold load_passwd_line ls (st, um))) = us_groups st"
  by (induction ls arbitrary: st um) (auto simp: load_passwd_line_eq split: option.splits)

lemma parsed_perms:
  "u \<in> set (List.map_filter parse_passwd_raw ls) \<Longrightarrow> ur_permissions u = []"
  "g \<in> set (List.map_filter parse_group_raw ls) \<Longrightarrow> ge_permissions g = []"
  by (auto simp: List.map_filter_def dest: parse_passwd_raw_perms parse_group_raw_perms)

lemma with_uperms_reload_one:
  assumes "ur_permissions p = []"
    and "M (ur_uid p) = (if eff (with_uperms um p) = [] then None else Some (eff (with_uperms um p)))"
  shows "with_uperms M p = (with_uperms um p)\<lparr>ur_permissions := eff (with_uperms um p)\<rparr>"
  using assms
  by (cases "um (ur_uid p)"; cases "eff (with_uperms um p) = []") (simp_all add: with_uperms_def)

lemma with_gperms_reload_one:
  assumes "ge_permissions p = []"
    and "M (ge_gid p) = (if eff (with_gperms gm p) = [] then None else Some (eff (with_gperms gm p)))"
  shows "with_gperms M p = (with_gperms gm p)\<lparr>ge_permissions := eff (with_gperms gm p)\<rparr>"
  using assms
  by (cases "gm (ge_gid p)"; cases "eff (with_gperms gm p) = []") (simp_all add: with_gperms_def)

lemma with_uperms_reload:
  assumes "distinct (map ur_uid ps)" and "\<And>p. p \<in> set ps \<Longrightarrow> ur_permissions p = []"
  shows "map (with_uperms (blocks_map ur_uid eff (map (with_uperms um) ps) Map.empty)) ps =
    map (\<lambda>u. u\<lparr>ur_permissions := eff u\<rparr>) (map (with_uperms um) ps)"
proof -
  let ?us = "map (with_uperms um) ps"
  have d: "distinct (map ur_uid ?us)" using assms(1) by (simp add: comp_def)
  have "with_uperms (blocks_map ur_uid eff ?us Map.empty) p =
      (with_uperms um p)\<lparr>ur_permissions := eff (with_uperms um p)\<rparr>" if "p \<in> set ps" for p
    using blocks_map_in [OF d, of "with_uperms um p" eff Map.empty] that assms(2) [OF that]
    by (intro with_uperms_reload_one) simp_all
  then show ?thesis by simp
qed

lemma with_gperms_reload:
  assumes "distinct (map ge_gid ps)" and "\<And>p. p \<in> set ps \<Longrightarrow> ge_permissions p = []"
  shows "map (with_gperms (blocks_map ge_gid eff (map (with_gperms gm) ps) Map.empty)) ps =
    map (\<lambda>g. g\<lparr>ge_permissions := eff g\<rparr>) (map (with_gperms gm) ps)"
proof -
  let ?gs = "map (with_gperms gm) ps"
  have d: "distinct (map ge_gid ?gs)" using assms(1) by (simp add: comp_def)
  have "with_gperms (blocks_map ge_gid eff ?gs Map.empty) p =
      (with_gperms gm p)\<lparr>ge_permissions := eff (with_gperms gm p)\<rparr>" if "p \<in> set ps" for p
    using blocks_map_in [OF d, of "with_gperms gm p" eff Map.empty] that assms(2) [OF that]
    by (intro with_gperms_reload_one) simp_all
  then show ?thesis by simp
qed

text \<open>
  Loading, split into the two parts the files decide: the permission maps, and the store they
  produce from the three text files.
\<close>

definition load_texts :: "string \<Rightarrow> string option \<Rightarrow> string option \<Rightarrow> perm_map \<Rightarrow> perm_map \<Rightarrow> user_store" where
  "load_texts passwd shadow group_text um gm =
     (let st1 = fst (fold load_passwd_line (lines passwd) (us_default, um));
          st2 = (case shadow of None \<Rightarrow> st1 | Some s \<Rightarrow> fold load_shadow_line (lines s) st1)
      in (case group_text of None \<Rightarrow> st2
          | Some g \<Rightarrow> fst (fold load_group_line (lines g) (st2, gm))))"

definition text_opt :: "string + string \<Rightarrow> string option" where
  "text_opt r = (case r of Inl _ \<Rightarrow> None | Inr t \<Rightarrow> Some t)"

lemma us_load_eq:
  "us_load fs pw sh gr pm = Inr st \<longleftrightarrow>
     (\<exists>um gm passwd. of_read_to_string fs pw = Inr passwd \<and>
        (if of_exists fs pm
         then \<exists>bs. of_read fs pm = Inr bs \<and> load_rperms bs Map.empty Map.empty = Inr (um, gm)
         else um = Map.empty \<and> gm = Map.empty) \<and>
        st = load_texts passwd (text_opt (of_read_to_string fs sh))
               (text_opt (of_read_to_string fs gr)) um gm)"
  by (auto simp: us_load_def load_texts_def text_opt_def Let_def
      split: sum.splits if_splits)

lemma load_texts_users:
  assumes "distinct (map ur_uid (us_users (load_texts passwd shadow group_text um gm)))"
  shows "distinct (map ur_uid (List.map_filter parse_passwd_raw (lines passwd)))"
    and "us_users (load_texts passwd shadow group_text um gm) =
      map (with_uperms um) (List.map_filter parse_passwd_raw (lines passwd))"
proof -
  have us: "us_users (load_texts passwd shadow group_text um gm) =
      us_users (fst (fold load_passwd_line (lines passwd) (us_default, um)))"
    by (simp add: load_texts_def Let_def split: option.splits)
  with assms show *: "distinct (map ur_uid (List.map_filter parse_passwd_raw (lines passwd)))"
    by (simp add: load_passwd_fold_uids us_default_def)
  then show "us_users (load_texts passwd shadow group_text um gm) =
      map (with_uperms um) (List.map_filter parse_passwd_raw (lines passwd))"
    by (simp add: us load_passwd_fold_users us_default_def)
qed

definition parsed_groups :: "string option \<Rightarrow> group_entry list" where
  "parsed_groups group_text =
     (case group_text of None \<Rightarrow> [] | Some g \<Rightarrow> List.map_filter parse_group_raw (lines g))"

lemma load_texts_groups:
  assumes "distinct (map ge_gid (us_groups (load_texts passwd shadow group_text um gm)))"
  shows "distinct (map ge_gid (parsed_groups group_text))"
    and "us_groups (load_texts passwd shadow group_text um gm) =
      map (with_gperms gm) (parsed_groups group_text)"
proof -
  have st2: "us_groups (case shadow of None \<Rightarrow> st1 | Some s \<Rightarrow> fold load_shadow_line (lines s) st1)
      = us_groups st1" for st1
    by (simp split: option.splits)
  from assms show *: "distinct (map ge_gid (parsed_groups group_text))"
    by (auto simp: load_texts_def parsed_groups_def Let_def load_group_fold_gids
        split: option.splits)
  then show "us_groups (load_texts passwd shadow group_text um gm) =
      map (with_gperms gm) (parsed_groups group_text)"
    by (auto simp: load_texts_def parsed_groups_def Let_def load_group_fold_groups st2
        us_default_def split: option.splits)
qed

lemma load_texts_skeleton:
  "same_skeleton (load_texts passwd shadow group_text um gm)
     (load_texts passwd shadow group_text um' gm')"
proof -
  have refl: "same_skeleton us_default us_default" by (simp add: same_skeleton_def)
  show ?thesis
    by (auto simp: load_texts_def Let_def split: option.splits
        intro!: same_skeleton_group same_skeleton_shadow same_skeleton_passwd refl)
qed

lemma parsed_groups_perms: "g \<in> set (parsed_groups gt) \<Longrightarrow> ge_permissions g = []"
  by (cases gt) (auto simp: parsed_groups_def dest: parsed_perms)

lemma us_load_rewritten:
  assumes "us_load fs pw sh gr pm = Inr st"
    and "distinct (map ur_uid (us_users st))" and "distinct (map ge_gid (us_groups st))"
    and "perms_blob st ug ur gg grv = Inr bytes"
    and "of_read_to_string fs' = of_read_to_string fs"
    and "of_exists fs' pm" and "of_read fs' pm = Inr bytes"
  shows "us_load fs' pw sh gr pm =
    Inr (st\<lparr>us_users := map (\<lambda>u. u\<lparr>ur_permissions := user_effective ug ur u\<rparr>) (us_users st),
            us_groups := map (\<lambda>g. g\<lparr>ge_permissions := group_effective gg grv g\<rparr>) (us_groups st)\<rparr>)"
proof -
  from assms(1) obtain um gm passwd where pwd: "of_read_to_string fs pw = Inr passwd"
    and st: "st = load_texts passwd (text_opt (of_read_to_string fs sh))
               (text_opt (of_read_to_string fs gr)) um gm"
    by (auto simp: us_load_eq)
  let ?um = "blocks_map ur_uid (user_effective ug ur) (us_users st) Map.empty"
  let ?gm = "blocks_map ge_gid (group_effective gg grv) (us_groups st) Map.empty"
  let ?st = "load_texts passwd (text_opt (of_read_to_string fs sh))
               (text_opt (of_read_to_string fs gr)) ?um ?gm"
  have load: "us_load fs' pw sh gr pm = Inr ?st"
    using assms(5-7) pwd load_rperms_perms_blob [OF assms(4)] by (auto simp: us_load_eq)
  have skel: "same_skeleton ?st st" by (simp add: st load_texts_skeleton)
  let ?ps = "List.map_filter parse_passwd_raw (lines passwd)"
  let ?gs = "parsed_groups (text_opt (of_read_to_string fs gr))"
  have du: "distinct (map ur_uid ?ps)" and us: "us_users st = map (with_uperms um) ?ps"
    using load_texts_users assms(2) by (simp_all add: st)
  have dg: "distinct (map ge_gid ?gs)" and gs: "us_groups st = map (with_gperms gm) ?gs"
    using load_texts_groups assms(3) by (simp_all add: st)
  have "us_users ?st = map (with_uperms ?um) ?ps"
    using load_texts_users(2) skel assms(2) by (simp add: same_skeleton_def)
  also have "\<dots> = map (\<lambda>u. u\<lparr>ur_permissions := user_effective ug ur u\<rparr>) (us_users st)"
    unfolding us by (rule with_uperms_reload [OF du parsed_perms(1)])
  finally have users: "us_users ?st = \<dots>" .
  have "us_groups ?st = map (with_gperms ?gm) ?gs"
    using load_texts_groups(2) skel assms(3) by (simp add: same_skeleton_def)
  also have "\<dots> = map (\<lambda>g. g\<lparr>ge_permissions := group_effective gg grv g\<rparr>) (us_groups st)"
    unfolding gs by (rule with_gperms_reload [OF dg parsed_groups_perms])
  finally have groups: "us_groups ?st = \<dots>" .
  show ?thesis
    using skel unfolding load
    by (auto simp: same_skeleton_def users [symmetric] groups [symmetric])
qed

text \<open>
  The permission file round trip. A store is loaded, the run-time grants and revokes are
  written back with \<open>write_perms_with_overlay\<close>, and the store is loaded again from the same
  text files: with pairwise different uids and gids, the new store has exactly the old records,
  each with the effective permissions \<open>(stored - revoked) + granted\<close> in ascending order, and
  the same shadow entries and indexes.
\<close>

theorem rperms_write_reload:
  assumes "us_load fs pw sh gr pm = Inr st"
    and "distinct (map ur_uid (us_users st))" and "distinct (map ge_gid (us_groups st))"
    and "perms_blob st ug ur gg grv = Inr bytes"
    and "of_read_to_string fs' = of_read_to_string fs"
    and "of_exists fs' pm" and "of_read fs' pm = Inr bytes"
  shows "us_load fs' pw sh gr pm =
    Inr (st\<lparr>us_users := map (\<lambda>u. u\<lparr>ur_permissions := user_effective ug ur u\<rparr>) (us_users st),
            us_groups := map (\<lambda>g. g\<lparr>ge_permissions := group_effective gg grv g\<rparr>) (us_groups st)\<rparr>)"
  using assms by (rule us_load_rewritten)

section \<open>The indexes\<close>

text \<open>An index of a store answers, and in bounds, with the last record that has the key.\<close>

definition index_ok :: "('k \<rightharpoonup> nat) \<Rightarrow> ('a \<Rightarrow> 'k) \<Rightarrow> 'a list \<Rightarrow> bool" where
  "index_ok ix key xs \<longleftrightarrow>
     (\<forall>k. case ix k of
            None \<Rightarrow> find (\<lambda>x. key x = k) (rev xs) = None
          | Some i \<Rightarrow> i < length xs \<and> find (\<lambda>x. key x = k) (rev xs) = Some (xs ! i))"

definition us_indexed :: "user_store \<Rightarrow> bool" where
  "us_indexed st \<longleftrightarrow> index_ok (us_name_index st) ur_username (us_users st) \<and>
                     index_ok (us_uid_index st) ur_uid (us_users st)"

lemma index_ok_empty [inv_intros]: "index_ok Map.empty key []"
  by (simp add: index_ok_def)

lemma index_ok_snoc [inv_intros]:
  assumes "index_ok ix key xs" and "key x = k"
  shows "index_ok (ix(k \<mapsto> length xs)) key (xs @ [x])"
  unfolding index_ok_def
proof
  fix k'
  from assms(1) have "case ix k' of
      None \<Rightarrow> find (\<lambda>x. key x = k') (rev xs) = None
    | Some i \<Rightarrow> i < length xs \<and> find (\<lambda>x. key x = k') (rev xs) = Some (xs ! i)"
    by (simp add: index_ok_def)
  then show "case (ix(k \<mapsto> length xs)) k' of
      None \<Rightarrow> find (\<lambda>x. key x = k') (rev (xs @ [x])) = None
    | Some i \<Rightarrow> i < length (xs @ [x]) \<and>
        find (\<lambda>x. key x = k') (rev (xs @ [x])) = Some ((xs @ [x]) ! i)"
    using assms(2) by (cases "ix k'") (auto simp: nth_append)
qed

lemma us_indexed_passwd_line: "us_indexed st \<Longrightarrow> us_indexed (fst (load_passwd_line l (st, um)))"
  by (auto simp: load_passwd_line_eq us_indexed_def intro!: index_ok_snoc split: option.splits)

lemma us_indexed_passwd:
  "us_indexed st \<Longrightarrow> us_indexed (fst (fold load_passwd_line ls (st, um)))"
proof (induction ls arbitrary: st um)
  case (Cons l ls)
  from us_indexed_passwd_line [OF Cons.prems, of l um] show ?case
    using Cons.IH [of "fst (load_passwd_line l (st, um))" "snd (load_passwd_line l (st, um))"]
    by simp
qed simp

lemma us_indexed_shadow: "us_indexed st \<Longrightarrow> us_indexed (fold load_shadow_line ls st)"
proof (induction ls arbitrary: st)
  case (Cons l ls)
  from Cons.prems have "us_indexed (load_shadow_line l st)"
    by (auto simp: load_shadow_line_def us_indexed_def Let_def split: option.splits)
  then show ?case by (simp add: Cons.IH)
qed simp

lemma load_group_fold_indexes [simp]:
  "us_name_index (fst (fold load_group_line ls (st, gm))) = us_name_index st"
  "us_uid_index (fst (fold load_group_line ls (st, gm))) = us_uid_index st"
  by (induction ls arbitrary: st gm) (auto simp: load_group_line_eq split: option.splits)

lemma us_indexed_group: "us_indexed st \<Longrightarrow> us_indexed (fst (fold load_group_line ls (st, gm)))"
  by (simp add: us_indexed_def)

lemma us_indexed_load_texts: "us_indexed (load_texts passwd shadow group_text um gm)"
proof -
  have "us_indexed us_default"
    by (simp add: us_indexed_def us_default_def index_ok_empty)
  then show ?thesis
    by (auto simp: load_texts_def Let_def split: option.splits
        intro!: us_indexed_group us_indexed_shadow us_indexed_passwd)
qed

lemma index_ok_lookup:
  "index_ok ix key xs \<Longrightarrow>
   (case ix k of None \<Rightarrow> None | Some i \<Rightarrow> if i < length xs then Some (xs ! i) else None)
     = find (\<lambda>x. key x = k) (rev xs)"
  by (cases "ix k") (force simp: index_ok_def dest: spec [of _ k])+

lemma index_ok_bound: "index_ok ix key xs \<Longrightarrow> ran ix \<subseteq> {..<length xs}"
  by (force simp: index_ok_def ran_def split: option.splits)

lemma us_load_indexed: "us_load fs pw sh gr pm = Inr st \<Longrightarrow> us_indexed st"
  by (auto simp: us_load_eq us_indexed_load_texts)

text \<open>
  The indexes of a loaded store never point outside the user vector, so neither lookup can
  panic, and both answer with the last passwd record of that name or uid.
\<close>

theorem us_load_lookup:
  assumes "us_load fs pw sh gr pm = Inr st"
  shows "ran (us_name_index st) \<subseteq> {..<length (us_users st)} \<and>
    ran (us_uid_index st) \<subseteq> {..<length (us_users st)} \<and>
    lookup_by_name st name = find (\<lambda>u. ur_username u = name) (rev (us_users st)) \<and>
    lookup_by_uid st uid = find (\<lambda>u. ur_uid u = uid) (rev (us_users st))"
proof -
  from us_load_indexed [OF assms]
  have n: "index_ok (us_name_index st) ur_username (us_users st)"
    and u: "index_ok (us_uid_index st) ur_uid (us_users st)"
    by (simp_all add: us_indexed_def)
  show ?thesis
    using index_ok_bound [OF n] index_ok_bound [OF u]
      index_ok_lookup [OF n, of name] index_ok_lookup [OF u, of uid]
    by (simp add: lookup_by_name_def lookup_by_uid_def)
qed

section \<open>A concrete system\<close>

text \<open>A one-user system with a permission file, on which the theorems are exercised.\<close>

definition demo_files :: os_files where
  "demo_files = \<lparr>of_exists = (\<lambda>p. p = ''/p''),
     of_read = (\<lambda>p. Inr [0, 232, 3, 0, 0, 1, 0, 7, 0]),
     of_read_to_string = (\<lambda>p. if p = ''/u'' then Inr ''ann:x:1000:100::/:/s''
                              else if p = ''/g'' then Inr ''adm:x:100:ann''
                              else Inl ''absent'')\<rparr>"

definition demo_store :: user_store where
  "demo_store = projr (us_load demo_files ''/u'' ''/s'' ''/g'' ''/p'')"

lemma demo_load: "us_load demo_files ''/u'' ''/s'' ''/g'' ''/p'' = Inr demo_store"
proof -
  have "\<not> isl (us_load demo_files ''/u'' ''/s'' ''/g'' ''/p'')" by code_simp
  then show ?thesis by (simp add: demo_store_def)
qed

theorem us_load_lookup_witness:
  "map_option ur_uid (lookup_by_name demo_store ''ann'') = Some 1000"
proof -
  have "find (\<lambda>u. ur_username u = ''ann'') (rev (us_users demo_store)) = Some (hd (us_users demo_store))
      \<and> ur_uid (hd (us_users demo_store)) = 1000"
    by code_simp
  then show ?thesis using us_load_lookup [OF demo_load, of "''ann''" 0] by simp
qed

definition demo_files' :: os_files where
  "demo_files' = demo_files\<lparr>of_read := (\<lambda>p. Inr [0, 232, 3, 0, 0, 2, 0, 5, 0, 9, 0])\<rparr>"

theorem rperms_write_reload_witness:
  "us_load demo_files' ''/u'' ''/s'' ''/g'' ''/p'' =
     Inr (demo_store\<lparr>us_users := map (\<lambda>u. u\<lparr>ur_permissions := [5, 9]\<rparr>) (us_users demo_store)\<rparr>)"
proof -
  let ?ug = "[1000 \<mapsto> {5, 9}] :: overlay" and ?ur = "[1000 \<mapsto> {7}] :: overlay"
  let ?no = "Map.empty :: overlay"
  have blob: "perms_blob demo_store ?ug ?ur ?no ?no = Inr [0, 232, 3, 0, 0, 2, 0, 5, 0, 9, 0]"
    by code_simp
  have "map (\<lambda>u. u\<lparr>ur_permissions := user_effective ?ug ?ur u\<rparr>) (us_users demo_store)
      = map (\<lambda>u. u\<lparr>ur_permissions := [5, 9]\<rparr>) (us_users demo_store)" by code_simp
  moreover have "map (\<lambda>g. g\<lparr>ge_permissions := group_effective ?no ?no g\<rparr>) (us_groups demo_store)
      = us_groups demo_store" by code_simp
  moreover have "distinct (map ur_uid (us_users demo_store))" by code_simp
  moreover have "distinct (map ge_gid (us_groups demo_store))" by code_simp
  ultimately show ?thesis
    using rperms_write_reload [OF demo_load _ _ blob, of demo_files']
    by (simp add: demo_files'_def demo_files_def)
qed

end
