(* ===== verification/Pam.thy ===== *)
theory Pam
  imports UserStore
begin

text \<open>
  Authentication and sessions, the PAM part of \<^verbatim>\<open>crates/core/src/user.rs\<close>: shadow
  checks, \<open>verify_password\<close>, \<open>PamHandle\<close> with its lockouts and sessions, and runs of
  its operations. The three password hash libraries are parameters. Clock readings are arguments:
  \<open>Instant\<close> values and durations are nanoseconds as natural numbers, days are integers.
\<close>

section \<open>Shadow checks\<close>

definition is_locked :: "shadow_entry \<Rightarrow> bool" where
  "is_locked e \<longleftrightarrow> sh_password_hash e = [] \<or> starts_with ''!'' (sh_password_hash e)
                   \<or> starts_with ''*'' (sh_password_hash e)"

definition is_expired :: "int \<Rightarrow> shadow_entry \<Rightarrow> bool" where
  "is_expired today e =
     (case sh_expire_date e of
        Some expire \<Rightarrow> expire > 0 \<and> today \<ge> expire
      | None \<Rightarrow> False)"

text \<open>\<open>last + max\<close> is 64-bit signed arithmetic, which wraps in a release build.\<close>

definition i64_add :: "int \<Rightarrow> int \<Rightarrow> int" where
  "i64_add a b = sint (word_of_int (a + b) :: u64)"

definition password_expired :: "int \<Rightarrow> shadow_entry \<Rightarrow> bool" where
  "password_expired today e =
     (case (sh_last_changed e, sh_max_days e) of
        (Some l, Some m) \<Rightarrow> if m > 0 then today \<ge> i64_add l m else False
      | _ \<Rightarrow> False)"

section \<open>Password verification\<close>

record 'h hashers =
  hc_sha512_check :: "string \<Rightarrow> string \<Rightarrow> bool"
  hc_sha256_check :: "string \<Rightarrow> string \<Rightarrow> bool"
  hc_yescrypt_parse :: "string \<Rightarrow> 'h option"
  hc_yescrypt_verify :: "string \<Rightarrow> 'h \<Rightarrow> bool"

definition verify_password :: "'h hashers \<Rightarrow> string \<Rightarrow> string \<Rightarrow> bool" where
  "verify_password hc password hash =
     (if hash = [] \<or> hash = ''!'' \<or> hash = ''*'' \<or> hash = ''!!'' then False
      else if starts_with ''$6$'' hash then hc_sha512_check hc password hash
      else if starts_with ''$5$'' hash then hc_sha256_check hc password hash
      else if starts_with ''$y$'' hash then
        (case hc_yescrypt_parse hc hash of
           Some parsed \<Rightarrow> hc_yescrypt_verify hc password parsed
         | None \<Rightarrow> False)
      else False)"

section \<open>The handle\<close>

record pam_session =
  ss_id :: u64
  ss_username :: string
  ss_tty :: string
  ss_started_at :: nat

record lockout_state =
  lo_failed_attempts :: u32
  lo_last_failure :: "nat option"

record pam_config =
  pc_max_retries :: u32
  pc_lockout_duration :: nat

definition pc_default :: pam_config where
  "pc_default = \<lparr>pc_max_retries = 5, pc_lockout_duration = 60 * 10 ^ 9\<rparr>"

text \<open>
  The handle, together with the process-wide counter \<open>SESSION_ID_COUNTER\<close> its sessions draw
  their ids from.
\<close>

record pam_handle =
  ph_store :: user_store
  ph_config :: pam_config
  ph_sessions :: "(u64 \<times> pam_session) list"
  ph_lockouts :: "string \<rightharpoonup> lockout_state"
  ph_session_counter :: u64

definition ph_with_config :: "user_store \<Rightarrow> pam_config \<Rightarrow> pam_handle" where
  "ph_with_config st cfg = \<lparr>ph_store = st, ph_config = cfg, ph_sessions = [],
     ph_lockouts = Map.empty, ph_session_counter = 1\<rparr>"

definition ph_new :: "user_store \<Rightarrow> pam_handle" where
  "ph_new st = ph_with_config st pc_default"

definition check_lockout :: "pam_handle \<Rightarrow> nat \<Rightarrow> string \<Rightarrow> pam_error + unit" where
  "check_lockout h now username =
     (case ph_lockouts h username of
        Some s \<Rightarrow>
          if lo_failed_attempts s \<ge> pc_max_retries (ph_config h) then
            (case lo_last_failure s of
               Some l \<Rightarrow>
                 if now - l < pc_lockout_duration (ph_config h) then Inl MaxRetriesExceeded
                 else Inr ()
             | None \<Rightarrow> Inr ())
          else Inr ()
      | None \<Rightarrow> Inr ())"

definition record_failure :: "pam_handle \<Rightarrow> nat \<Rightarrow> string \<Rightarrow> pam_handle" where
  "record_failure h now username =
     (let s = (case ph_lockouts h username of
                 Some s \<Rightarrow> s
               | None \<Rightarrow> \<lparr>lo_failed_attempts = 0, lo_last_failure = None\<rparr>)
      in h\<lparr>ph_lockouts := (ph_lockouts h)
             (username \<mapsto> s\<lparr>lo_failed_attempts := lo_failed_attempts s + 1,
                            lo_last_failure := Some now\<rparr>)\<rparr>)"

definition clear_lockout :: "pam_handle \<Rightarrow> string \<Rightarrow> pam_handle" where
  "clear_lockout h username = h\<lparr>ph_lockouts := (ph_lockouts h)(username := None)\<rparr>"

text \<open>The lockout check and the failure record each read the clock.\<close>

definition pam_authenticate ::
  "'h hashers \<Rightarrow> pam_handle \<Rightarrow> nat \<Rightarrow> nat \<Rightarrow> string \<Rightarrow> string \<Rightarrow>
   (pam_error + user_record) \<times> pam_handle" where
  "pam_authenticate hc h now now' username password =
     (case check_lockout h now username of
        Inl e \<Rightarrow> (Inl e, h)
      | Inr _ \<Rightarrow>
          (case lookup_by_name (ph_store h) username of
             None \<Rightarrow> (Inl UserNotFound, h)
           | Some user \<Rightarrow>
               (case shadow_for (ph_store h) username of
                  None \<Rightarrow> (Inl UserNotFound, h)
                | Some shadow \<Rightarrow>
                    if is_locked shadow then (Inl AccountLocked, h)
                    else if \<not> verify_password hc password (sh_password_hash shadow)
                    then (Inl AuthenticationFailed, record_failure h now' username)
                    else (Inr user, clear_lockout h username))))"

definition pam_authenticate_auto :: "pam_handle \<Rightarrow> string \<Rightarrow> pam_error + user_record" where
  "pam_authenticate_auto h username =
     (case lookup_by_name (ph_store h) username of
        None \<Rightarrow> Inl UserNotFound
      | Some user \<Rightarrow>
          (case shadow_for (ph_store h) username of
             None \<Rightarrow> Inl UserNotFound
           | Some shadow \<Rightarrow> if is_locked shadow then Inl AccountLocked else Inr user))"

definition pam_acct_mgmt :: "pam_handle \<Rightarrow> int \<Rightarrow> string \<Rightarrow> pam_error + unit" where
  "pam_acct_mgmt h today username =
     (case shadow_for (ph_store h) username of
        None \<Rightarrow> Inl UserNotFound
      | Some shadow \<Rightarrow>
          if is_locked shadow then Inl AccountLocked
          else if is_expired today shadow then Inl AccountExpired
          else if password_expired today shadow then Inl PasswordExpired
          else Inr ())"

definition pam_open_session ::
  "pam_handle \<Rightarrow> nat \<Rightarrow> string \<Rightarrow> string \<Rightarrow> (pam_error + pam_session) \<times> pam_handle" where
  "pam_open_session h now username tty =
     (case lookup_by_name (ph_store h) username of
        None \<Rightarrow> (Inl UserNotFound, h)
      | Some _ \<Rightarrow>
          let sid = ph_session_counter h;
              s = \<lparr>ss_id = sid, ss_username = username, ss_tty = tty, ss_started_at = now\<rparr>
          in (Inr s, h\<lparr>ph_session_counter := sid + 1,
                       ph_sessions := AList.update sid s (ph_sessions h)\<rparr>))"

definition pam_close_session :: "pam_handle \<Rightarrow> u64 \<Rightarrow> (pam_error + unit) \<times> pam_handle" where
  "pam_close_session h sid =
     (case map_of (ph_sessions h) sid of
        None \<Rightarrow> (Inl (SessionError ''session not found''), h)
      | Some _ \<Rightarrow> (Inr (), h\<lparr>ph_sessions := AList.delete sid (ph_sessions h)\<rparr>))"

definition sessions_for :: "pam_handle \<Rightarrow> string \<Rightarrow> pam_session list" where
  "sessions_for h username =
     filter (\<lambda>s. ss_username s = username) (map snd (ph_sessions h))"

definition has_active_session :: "pam_handle \<Rightarrow> string \<Rightarrow> bool" where
  "has_active_session h username \<longleftrightarrow> list_ex (\<lambda>s. ss_username s = username) (map snd (ph_sessions h))"

section \<open>Runs of operations\<close>

datatype pam_op =
    OpAuth string string nat nat
  | OpAuto string
  | OpAcct string int
  | OpOpen string string nat
  | OpClose u64

datatype pam_out =
    OutUser "pam_error + user_record"
  | OutUnit "pam_error + unit"
  | OutSession "pam_error + pam_session"

fun pam_step :: "'h hashers \<Rightarrow> pam_op \<Rightarrow> pam_handle \<Rightarrow> pam_out \<times> pam_handle" where
  "pam_step hc (OpAuth u pw t t') h = apfst OutUser (pam_authenticate hc h t t' u pw)"
| "pam_step hc (OpAuto u) h = (OutUser (pam_authenticate_auto h u), h)"
| "pam_step hc (OpAcct u today) h = (OutUnit (pam_acct_mgmt h today u), h)"
| "pam_step hc (OpOpen u tty t) h = apfst OutSession (pam_open_session h t u tty)"
| "pam_step hc (OpClose sid) h = apfst OutUnit (pam_close_session h sid)"

fun pam_run :: "'h hashers \<Rightarrow> pam_op list \<Rightarrow> pam_handle \<Rightarrow> pam_out list \<times> pam_handle" where
  "pam_run hc [] h = ([], h)"
| "pam_run hc (p # ps) h =
     (let (r, h') = pam_step hc p h; (rs, h'') = pam_run hc ps h' in (r # rs, h''))"

section \<open>Lockout\<close>

lemma record_failure_sel [store_simps]:
  "ph_store (record_failure h t u) = ph_store h"
  "ph_config (record_failure h t u) = ph_config h"
  "ph_sessions (record_failure h t u) = ph_sessions h"
  "ph_session_counter (record_failure h t u) = ph_session_counter h"
  "v \<noteq> u \<Longrightarrow> ph_lockouts (record_failure h t u) v = ph_lockouts h v"
  by (simp_all add: record_failure_def Let_def)

lemma clear_lockout_sel [store_simps]:
  "ph_store (clear_lockout h u) = ph_store h"
  "ph_config (clear_lockout h u) = ph_config h"
  "ph_sessions (clear_lockout h u) = ph_sessions h"
  "ph_session_counter (clear_lockout h u) = ph_session_counter h"
  "ph_lockouts (clear_lockout h u) v = (if v = u then None else ph_lockouts h v)"
  by (simp_all add: clear_lockout_def)

lemma pam_authenticate_frame [store_simps]:
  "ph_store (snd (pam_authenticate hc h t t' u pw)) = ph_store h"
  "ph_config (snd (pam_authenticate hc h t t' u pw)) = ph_config h"
  "ph_sessions (snd (pam_authenticate hc h t t' u pw)) = ph_sessions h"
  "ph_session_counter (snd (pam_authenticate hc h t t' u pw)) = ph_session_counter h"
  "v \<noteq> u \<Longrightarrow> ph_lockouts (snd (pam_authenticate hc h t t' u pw)) v = ph_lockouts h v"
  by (simp_all add: pam_authenticate_def store_simps split: sum.splits option.splits)

lemma pam_authenticate_failed:
  "pam_authenticate hc h t t' u pw = (Inl AuthenticationFailed, h') \<Longrightarrow>
   check_lockout h t u = Inr () \<and> h' = record_failure h t' u"
  by (auto simp: pam_authenticate_def check_lockout_def
      split: sum.splits option.splits if_splits)

lemma pam_authenticate_refused:
  "pam_authenticate hc h t t' u pw = (Inl e, h') \<Longrightarrow> e \<noteq> AuthenticationFailed \<Longrightarrow> h' = h"
  by (auto simp: pam_authenticate_def split: sum.splits option.splits if_splits)

lemma pam_step_config [store_simps]: "ph_config (snd (pam_step hc p h)) = ph_config h"
  by (cases p) (simp_all add: store_simps pam_open_session_def pam_close_session_def Let_def
      split: option.splits)

definition auth_of :: "string \<Rightarrow> pam_op \<Rightarrow> bool" where
  "auth_of u p = (case p of OpAuth v _ _ _ \<Rightarrow> v = u | _ \<Rightarrow> False)"

lemma pam_step_other_lockout:
  "\<not> auth_of u p \<Longrightarrow> ph_lockouts (snd (pam_step hc p h)) u = ph_lockouts h u"
  by (cases p) (simp_all add: auth_of_def store_simps pam_open_session_def pam_close_session_def
      Let_def split: option.splits)

text \<open>The clock readings of the attempts on an account, and how many of them failed.\<close>

definition auth_times :: "string \<Rightarrow> pam_op \<Rightarrow> nat set" where
  "auth_times u p = (case p of OpAuth v _ t t' \<Rightarrow> if v = u then {t, t'} else {} | _ \<Rightarrow> {})"

fun auth_failures :: "string \<Rightarrow> pam_op list \<Rightarrow> pam_out list \<Rightarrow> nat" where
  "auth_failures u (p # ps) (r # rs) =
     (if auth_of u p \<and> r = OutUser (Inl AuthenticationFailed) then 1 else 0) + auth_failures u ps rs"
| "auth_failures u _ _ = 0"

fun let_in :: "pam_out \<Rightarrow> bool" where
  "let_in (OutUser (Inr _)) = True"
| "let_in _ = False"

fun auth_succeeds :: "string \<Rightarrow> pam_op list \<Rightarrow> pam_out list \<Rightarrow> bool" where
  "auth_succeeds u (p # ps) (r # rs) =
     ((auth_of u p \<and> let_in r) \<or> auth_succeeds u ps rs)"
| "auth_succeeds u _ _ = False"

text \<open>
  The lockout entry of an account counts its failures inside a window: it is absent, or its last
  failure is in the window and its count is at most the number of attempts let through.
\<close>

definition lockout_count :: "pam_handle \<Rightarrow> string \<Rightarrow> nat" where
  "lockout_count h u = (case ph_lockouts h u of None \<Rightarrow> 0 | Some s \<Rightarrow> unat (lo_failed_attempts s))"

definition lockout_ok :: "nat \<Rightarrow> pam_handle \<Rightarrow> string \<Rightarrow> bool" where
  "lockout_ok T h u \<longleftrightarrow>
     (\<forall>s. ph_lockouts h u = Some s \<longrightarrow>
        (\<exists>t. lo_last_failure s = Some t \<and> T \<le> t \<and> t < T + pc_lockout_duration (ph_config h))) \<and>
     lockout_count h u \<le> max 1 (unat (pc_max_retries (ph_config h)))"

lemma lockout_record:
  assumes "lockout_ok T h u" and "check_lockout h t u = Inr ()"
    and "T \<le> t" and "t < T + pc_lockout_duration (ph_config h)"
    and "T \<le> t'" and "t' < T + pc_lockout_duration (ph_config h)"
  shows "lockout_ok T (record_failure h t' u) u"
    and "lockout_count (record_failure h t' u) u = Suc (lockout_count h u)"
proof -
  have lt: "lockout_count h u < max 1 (unat (pc_max_retries (ph_config h)))"
  proof (cases "ph_lockouts h u")
    case None
    then show ?thesis by (simp add: lockout_count_def)
  next
    case (Some s)
    with assms show ?thesis
      by (auto simp: lockout_ok_def check_lockout_def lockout_count_def word_le_nat_alt
          split: if_splits)
  qed
  have "max 1 (unat (pc_max_retries (ph_config h))) < 2 ^ 32"
    using unat_u32_lt [of "pc_max_retries (ph_config h)"] by simp
  with lt have "lockout_count h u + 1 < 2 ^ 32" by linarith
  then show count: "lockout_count (record_failure h t' u) u = Suc (lockout_count h u)"
    by (cases "ph_lockouts h u")
      (simp_all add: lockout_count_def record_failure_def Let_def unat_word_ariths)
  show "lockout_ok T (record_failure h t' u) u"
    using lt count assms(5,6)
    by (auto simp: lockout_ok_def record_failure_sel) (auto simp: record_failure_def Let_def)
qed

lemma lockout_step:
  assumes "pam_step hc p h = (r, h')" and "lockout_ok T h u"
    and "\<forall>t \<in> auth_times u p. T \<le> t \<and> t < T + pc_lockout_duration (ph_config h)"
    and "\<not> (auth_of u p \<and> let_in r)"
  shows "lockout_ok T h' u \<and>
    lockout_count h' u = lockout_count h u +
      (if auth_of u p \<and> r = OutUser (Inl AuthenticationFailed) then 1 else 0)"
proof (cases "auth_of u p")
  case False
  have "ph_lockouts h' u = ph_lockouts h u" and "ph_config h' = ph_config h"
    using pam_step_other_lockout [OF False, of hc h] pam_step_config [of hc p h] assms(1) by auto
  with False assms(2) show ?thesis by (simp add: lockout_ok_def lockout_count_def)
next
  case True
  then obtain pw t t' where p: "p = OpAuth u pw t t'"
    by (auto simp: auth_of_def split: pam_op.splits)
  with assms(1,4) True obtain e where auth: "pam_authenticate hc h t t' u pw = (Inl e, h')"
    and r: "r = OutUser (Inl e)"
    by (cases "pam_authenticate hc h t t' u pw"; cases "fst (pam_authenticate hc h t t' u pw)") auto
  show ?thesis
  proof (cases "e = AuthenticationFailed")
    case True
    with pam_authenticate_failed [of hc h t t' u pw h'] auth assms(2,3) p r show ?thesis
      using lockout_record [of T h u t t'] by (auto simp: auth_times_def auth_of_def)
  next
    case False
    with pam_authenticate_refused [OF auth] assms(2) r show ?thesis by simp
  qed
qed

lemma lockout_run:
  assumes "pam_run hc ps h = (rs, h')" and "lockout_ok T h u"
    and "\<forall>p \<in> set ps. \<forall>t \<in> auth_times u p. T \<le> t \<and> t < T + pc_lockout_duration (ph_config h)"
    and "\<not> auth_succeeds u ps rs"
  shows "lockout_ok T h' u \<and> lockout_count h' u = lockout_count h u + auth_failures u ps rs"
  using assms
proof (induction ps arbitrary: h rs)
  case (Cons p ps)
  from Cons.prems(1) obtain r h1 rs1 where s: "pam_step hc p h = (r, h1)"
    and run: "pam_run hc ps h1 = (rs1, h')" and rs: "rs = r # rs1"
    by (auto split: prod.splits)
  have cfg: "ph_config h1 = ph_config h" using pam_step_config [of hc p h] s by simp
  from lockout_step [OF s Cons.prems(2)] Cons.prems(3,4) rs
  have 1: "lockout_ok T h1 u" and 2: "lockout_count h1 u = lockout_count h u +
      (if auth_of u p \<and> r = OutUser (Inl AuthenticationFailed) then 1 else 0)"
    by auto
  from Cons.IH [OF run 1] Cons.prems(3,4) cfg rs
  have "lockout_ok T h' u \<and> lockout_count h' u = lockout_count h1 u + auth_failures u ps rs1"
    by auto
  with 2 rs show ?case by simp
qed simp

lemma pam_run_config: "pam_run hc ps h = (rs, h') \<Longrightarrow> ph_config h' = ph_config h"
proof (induction ps arbitrary: h rs)
  case (Cons p ps)
  then show ?case
    using pam_step_config [of hc p h] by (auto split: prod.splits)
qed simp

text \<open>The failures of an account since it was last let in.\<close>

fun failures_since :: "string \<Rightarrow> nat \<Rightarrow> pam_op list \<Rightarrow> pam_out list \<Rightarrow> nat" where
  "failures_since u n (p # ps) (r # rs) =
     failures_since u
       (if \<not> auth_of u p then n else if let_in r then 0 else if r = OutUser (Inl AuthenticationFailed) then n + 1 else n)
       ps rs"
| "failures_since u n _ _ = n"

lemma count_record_failure:
  "lockout_count (record_failure h t u) u mod 2 ^ 32 = Suc (lockout_count h u) mod 2 ^ 32"
proof -
  have "unat (x + 1) = Suc (unat x) mod 2 ^ 32" for x :: u32 by (simp add: unat_word_ariths(1))
  then show ?thesis by (cases "ph_lockouts h u") (simp_all add: lockout_count_def record_failure_def Let_def)
qed

lemma count_step:
  assumes "pam_step hc p h = (r, h')"
  shows "lockout_count h' u mod 2 ^ 32 =
    (if \<not> auth_of u p then lockout_count h u else if let_in r then 0
     else if r = OutUser (Inl AuthenticationFailed) then lockout_count h u + 1 else lockout_count h u) mod 2 ^ 32"
proof (cases "auth_of u p")
  case False
  then show ?thesis using pam_step_other_lockout [OF False, of hc h] assms by (simp add: lockout_count_def)
next
  case True
  then obtain pw t t' where p: "p = OpAuth u pw t t'" by (auto simp: auth_of_def split: pam_op.splits)
  obtain x where x: "pam_authenticate hc h t t' u pw = (x, h')" and r: "r = OutUser x"
    using assms p by (cases "pam_authenticate hc h t t' u pw") auto
  show ?thesis
  proof (cases x)
    case (Inl e)
    then show ?thesis
      using True x r pam_authenticate_failed [of hc h t t' u pw h'] pam_authenticate_refused [of hc h t t' u pw e h']
        count_record_failure [of h t' u]
      by (cases "e = AuthenticationFailed") auto
  next
    case (Inr user)
    then have "h' = clear_lockout h u"
      using x by (auto simp: pam_authenticate_def split: sum.splits option.splits if_splits)
    then show ?thesis using Inr True r by (simp add: lockout_count_def clear_lockout_sel)
  qed
qed

lemma failures_since_mod:
  "n mod 2 ^ 32 = m mod 2 ^ 32 \<Longrightarrow> failures_since u n ps rs mod 2 ^ 32 = failures_since u m ps rs mod 2 ^ 32"
proof (induction u n ps rs arbitrary: m rule: failures_since.induct)
  case (1 u n p ps r rs)
  have "(n + 1) mod 2 ^ 32 = (m + 1) mod 2 ^ 32" using "1.prems" mod_add_cong by blast
  then show ?case unfolding failures_since.simps using "1.prems" by (intro "1.IH") simp
qed simp_all

lemma count_run:
  "pam_run hc ps h = (rs, h') \<Longrightarrow>
   lockout_count h' u mod 2 ^ 32 = failures_since u (lockout_count h u) ps rs mod 2 ^ 32"
proof (induction ps arbitrary: h rs)
  case (Cons p ps)
  from Cons.prems obtain r h1 rs1 where s: "pam_step hc p h = (r, h1)"
    and run: "pam_run hc ps h1 = (rs1, h')" and rs: "rs = r # rs1"
    by (auto split: prod.splits)
  have "lockout_count h' u mod 2 ^ 32 = failures_since u (lockout_count h1 u) ps rs1 mod 2 ^ 32" by (rule Cons.IH [OF run])
  also have "\<dots> = failures_since u (lockout_count h u) (p # ps) rs mod 2 ^ 32"
    unfolding rs failures_since.simps by (rule failures_since_mod) (rule count_step [OF s])
  finally show ?case .
qed simp

text \<open>
  C21. Brute force is bounded. After any sequence of operations from a handle without an entry for the
  account, its counter is the number of failed password checks since it was last let in, modulo the 32 bits
  of the counter. If the attempts all read the clock inside a window of one lockout duration and none of them
  succeeds, the counter is the number of all failures, and at most \<open>max_retries\<close> of the attempts (one, if
  that is zero) get as far as a password check; the others are refused before the password is looked at.
\<close>

theorem pam_lockout_bound:
  assumes "pam_run hc ps h = (rs, h')" and "ph_lockouts h u = None"
  shows "lockout_count h' u = failures_since u 0 ps rs mod 2 ^ 32 \<and>
    ((\<forall>p \<in> set ps. \<forall>t \<in> auth_times u p. T \<le> t \<and> t < T + pc_lockout_duration (ph_config h)) \<and>
       \<not> auth_succeeds u ps rs \<longrightarrow>
     lockout_count h' u = auth_failures u ps rs \<and> auth_failures u ps rs \<le> max 1 (unat (pc_max_retries (ph_config h))))"
proof (intro conjI impI)
  have z: "lockout_count h u = 0" using assms(2) by (simp add: lockout_count_def)
  have "lockout_count h' u < 2 ^ 32" by (simp add: lockout_count_def unat_u32_lt split: option.split)
  then show "lockout_count h' u = failures_since u 0 ps rs mod 2 ^ 32" using count_run [OF assms(1), of u] z by simp
  assume w: "(\<forall>p \<in> set ps. \<forall>t \<in> auth_times u p. T \<le> t \<and> t < T + pc_lockout_duration (ph_config h)) \<and>
    \<not> auth_succeeds u ps rs"
  have cfg: "ph_config h' = ph_config h" by (rule pam_run_config [OF assms(1)])
  have "lockout_ok T h u" using assms(2) by (simp add: lockout_ok_def lockout_count_def)
  from lockout_run [OF assms(1) this] w z cfg
  show "lockout_count h' u = auth_failures u ps rs" "auth_failures u ps rs \<le> max 1 (unat (pc_max_retries (ph_config h)))"
    by (simp_all add: lockout_ok_def)
qed

section \<open>Authentication\<close>

text \<open>The password is the one of the shadow entry, under one of the three supported schemes.\<close>

definition password_of :: "'h hashers \<Rightarrow> shadow_entry \<Rightarrow> string \<Rightarrow> bool" where
  "password_of hc sh pw \<longleftrightarrow>
     (let hash = sh_password_hash sh in
      starts_with ''$6$'' hash \<and> hc_sha512_check hc pw hash \<or>
      starts_with ''$5$'' hash \<and> hc_sha256_check hc pw hash \<or>
      starts_with ''$y$'' hash \<and> (\<exists>p. hc_yescrypt_parse hc hash = Some p \<and> hc_yescrypt_verify hc pw p))"

lemma verify_password_of: "verify_password hc pw (sh_password_hash sh) \<longleftrightarrow> password_of hc sh pw"
proof -
  have "starts_with p hash \<Longrightarrow> p \<noteq> [] \<Longrightarrow> hash \<noteq> [] \<and> hd hash = hd p" for p hash :: string
    by (cases p; cases hash) (auto simp: starts_with_def)
  from this [of "''$6$''" "sh_password_hash sh"] this [of "''$5$''" "sh_password_hash sh"] this [of "''$y$''" "sh_password_hash sh"]
  have scheme: "starts_with ''$6$'' (sh_password_hash sh) \<or> starts_with ''$5$'' (sh_password_hash sh) \<or> starts_with ''$y$'' (sh_password_hash sh) \<Longrightarrow>
      \<not> (sh_password_hash sh = [] \<or> sh_password_hash sh = ''!'' \<or> sh_password_hash sh = ''*'' \<or> sh_password_hash sh = ''!!'')" by auto
  have one: "starts_with ''$6$'' hash \<Longrightarrow> \<not> starts_with ''$5$'' hash \<and> \<not> starts_with ''$y$'' hash"
    "starts_with ''$5$'' hash \<Longrightarrow> \<not> starts_with ''$y$'' hash" for hash
    by (auto simp: starts_with_def)
  show "verify_password hc pw (sh_password_hash sh) \<longleftrightarrow> password_of hc sh pw"
    using scheme one [of "sh_password_hash sh"] unfolding verify_password_def password_of_def Let_def
    by (cases "starts_with ''$6$'' (sh_password_hash sh)"; cases "starts_with ''$5$'' (sh_password_hash sh)";
        cases "starts_with ''$y$'' (sh_password_hash sh)"; cases "hc_yescrypt_parse hc (sh_password_hash sh)") simp_all
qed

definition no_account :: "pam_handle \<Rightarrow> string \<Rightarrow> bool" where
  "no_account h u \<longleftrightarrow> lookup_by_name (ph_store h) u = None \<or> shadow_for (ph_store h) u = None"

text \<open>
  C1. Who gets in, and what an attempt leaves behind. \<open>pam_authenticate\<close> answers with a user exactly when
  the account is below the attempt limit, its passwd record and its shadow entry exist, the shadow entry is not
  locked and the password is right; the record is the looked-up one and the failures of the account are
  forgotten. It answers that authentication failed exactly when only the password is wrong; then one more
  failure is counted, at the time of the second reading of the clock. Any other answer is one of three, each for
  its own reason, and changes nothing. Whether the account or password has expired is not looked at here.
\<close>

theorem pam_authenticate_iff:
  "(pam_authenticate hc h t t' u pw = (Inr user, h') \<longleftrightarrow>
      check_lockout h t u = Inr () \<and> lookup_by_name (ph_store h) u = Some user \<and>
      (\<exists>sh. shadow_for (ph_store h) u = Some sh \<and> \<not> is_locked sh \<and> password_of hc sh pw) \<and>
      h' = h\<lparr>ph_lockouts := (ph_lockouts h)(u := None)\<rparr>) \<and>
   (pam_authenticate hc h t t' u pw = (Inl e, h') \<longleftrightarrow>
      (case e of
         AuthenticationFailed \<Rightarrow>
           check_lockout h t u = Inr () \<and> lookup_by_name (ph_store h) u \<noteq> None \<and>
           (\<exists>sh. shadow_for (ph_store h) u = Some sh \<and> \<not> is_locked sh \<and> \<not> password_of hc sh pw) \<and>
           h' = h\<lparr>ph_lockouts := (ph_lockouts h)(u \<mapsto>
             \<lparr>lo_failed_attempts = (case ph_lockouts h u of None \<Rightarrow> 0 | Some l \<Rightarrow> lo_failed_attempts l) + 1, lo_last_failure = Some t'\<rparr>)\<rparr>
       | MaxRetriesExceeded \<Rightarrow> check_lockout h t u = Inl MaxRetriesExceeded \<and> h' = h
       | UserNotFound \<Rightarrow> check_lockout h t u = Inr () \<and> no_account h u \<and> h' = h
       | AccountLocked \<Rightarrow>
           check_lockout h t u = Inr () \<and> lookup_by_name (ph_store h) u \<noteq> None \<and>
           (\<exists>sh. shadow_for (ph_store h) u = Some sh \<and> is_locked sh) \<and> h' = h
       | _ \<Rightarrow> False))"
proof -
  have lock: "check_lockout h t u = Inr () \<or> check_lockout h t u = Inl MaxRetriesExceeded"
    by (auto simp: check_lockout_def split: option.splits if_splits)
  have cl: "clear_lockout h u = h\<lparr>ph_lockouts := (ph_lockouts h)(u := None)\<rparr>" by (simp add: clear_lockout_def)
  have lo: "a\<lparr>lo_failed_attempts := x, lo_last_failure := y\<rparr> = \<lparr>lo_failed_attempts = x, lo_last_failure = y\<rparr>" for a :: lockout_state and x y
    by (cases a) simp
  have rf: "record_failure h t' u = h\<lparr>ph_lockouts := (ph_lockouts h)(u \<mapsto>
      \<lparr>lo_failed_attempts = (case ph_lockouts h u of None \<Rightarrow> 0 | Some l \<Rightarrow> lo_failed_attempts l) + 1, lo_last_failure = Some t'\<rparr>)\<rparr>"
    by (cases "ph_lockouts h u") (simp_all add: record_failure_def lo)
  show ?thesis
    unfolding pam_authenticate_def verify_password_of cl [symmetric] rf [symmetric] no_account_def
    using lock by (auto split: pam_error.split option.splits if_splits)
qed

section \<open>Sessions\<close>

fun opened :: "pam_out list \<Rightarrow> pam_session list" where
  "opened [] = []"
| "opened (OutSession (Inr s) # rs) = s # opened rs"
| "opened (_ # rs) = opened rs"

fun closed_ids :: "pam_op list \<Rightarrow> pam_out list \<Rightarrow> u64 list" where
  "closed_ids (OpClose sid # ps) (OutUnit (Inr x) # rs) = sid # closed_ids ps rs"
| "closed_ids (_ # ps) (_ # rs) = closed_ids ps rs"
| "closed_ids _ _ = []"

definition sessions_wf :: "pam_handle \<Rightarrow> bool" where
  "sessions_wf h \<longleftrightarrow> keys_distinct (ph_sessions h) \<and>
     (\<forall>k s. (k, s) \<in> set (ph_sessions h) \<longrightarrow>
        ss_id s = k \<and> unat k < unat (ph_session_counter h))"

lemma sessions_wf_snd:
  assumes "sessions_wf h"
  shows "s \<in> snd ` set (ph_sessions h) \<longleftrightarrow> (ss_id s, s) \<in> set (ph_sessions h)"
proof
  assume "s \<in> snd ` set (ph_sessions h)"
  then obtain k where "(k, s) \<in> set (ph_sessions h)" by auto
  moreover from this assms have "ss_id s = k" unfolding sessions_wf_def by blast
  ultimately show "(ss_id s, s) \<in> set (ph_sessions h)" by simp
next
  assume "(ss_id s, s) \<in> set (ph_sessions h)"
  then show "s \<in> snd ` set (ph_sessions h)" by (rule image_eqI [rotated]) simp
qed

lemma set_update_fresh:
  "k \<notin> fst ` set al \<Longrightarrow> set (AList.update k v al) = insert (k, v) (set al)"
  by (induction al) auto

lemma set_delete: "set (AList.delete k al) = {(i, v) \<in> set al. i \<noteq> k}"
  by (auto simp: AList.delete_eq)

lemma sessions_open:
  assumes "sessions_wf h" and "unat (ph_session_counter h) + 1 < 2 ^ 64"
    and "pam_open_session h t u tty = (r, h')"
  shows "sessions_wf h' \<and> unat (ph_session_counter h') \<le> unat (ph_session_counter h) + 1 \<and>
    (case r of
       Inl e \<Rightarrow> h' = h
     | Inr s \<Rightarrow> ss_id s = ph_session_counter h \<and> ss_username s = u \<and>
         unat (ph_session_counter h') = unat (ph_session_counter h) + 1 \<and>
         snd ` set (ph_sessions h') = insert s (snd ` set (ph_sessions h)))"
proof -
  let ?c = "ph_session_counter h"
  have suc: "unat (?c + 1) = unat ?c + 1" using assms(2) by (simp add: unat_word_ariths)
  have fresh: "?c \<notin> fst ` set (ph_sessions h)"
  proof
    assume "?c \<in> fst ` set (ph_sessions h)"
    then obtain s where "(?c, s) \<in> set (ph_sessions h)" by auto
    with assms(1) have "unat ?c < unat ?c" unfolding sessions_wf_def by blast
    then show False by simp
  qed
  show ?thesis
    using assms(1,3) suc
    by (auto simp: pam_open_session_def Let_def sessions_wf_def set_update_fresh [OF fresh]
        less_Suc_eq split: option.splits)
qed

lemma sessions_close:
  assumes "sessions_wf h" and "pam_close_session h sid = (r, h')"
  shows "sessions_wf h' \<and> ph_session_counter h' = ph_session_counter h \<and>
    (case r of
       Inl e \<Rightarrow> h' = h
     | Inr _ \<Rightarrow> unat sid < unat (ph_session_counter h) \<and>
         snd ` set (ph_sessions h') = {s \<in> snd ` set (ph_sessions h). ss_id s \<noteq> sid})"
proof (cases "map_of (ph_sessions h) sid")
  case None
  with assms show ?thesis by (auto simp: pam_close_session_def)
next
  case (Some s)
  then have mem: "(sid, s) \<in> set (ph_sessions h)" by (rule map_of_SomeD)
  from Some assms(2) have h': "r = Inr ()" "h' = h\<lparr>ph_sessions := AList.delete sid (ph_sessions h)\<rparr>"
    by (auto simp: pam_close_session_def)
  with assms(1) have wf: "sessions_wf h'" by (auto simp: sessions_wf_def set_delete)
  have "snd ` set (ph_sessions h') = {s \<in> snd ` set (ph_sessions h). ss_id s \<noteq> sid}"
    using sessions_wf_snd [OF wf] sessions_wf_snd [OF assms(1)] h'
    by (auto simp: set_delete set_eq_iff)
  with wf h' mem assms(1) show ?thesis by (auto simp: sessions_wf_def)
qed

text \<open>One step of any kind, in the vocabulary of the outputs.\<close>

lemma sessions_step:
  assumes "sessions_wf h" and "unat (ph_session_counter h) + 1 < 2 ^ 64"
    and "pam_step hc p h = (r, h')"
  shows "sessions_wf h' \<and> unat (ph_session_counter h) \<le> unat (ph_session_counter h') \<and>
    unat (ph_session_counter h') \<le> unat (ph_session_counter h) + 1 \<and>
    (\<forall>s \<in> set (opened [r]). ss_id s = ph_session_counter h \<and>
       unat (ph_session_counter h') = unat (ph_session_counter h) + 1) \<and>
    (\<forall>i \<in> set (closed_ids [p] [r]). unat i < unat (ph_session_counter h)) \<and>
    snd ` set (ph_sessions h') =
      {s \<in> snd ` set (ph_sessions h) \<union> set (opened [r]). ss_id s \<notin> set (closed_ids [p] [r])}"
proof (cases p)
  case (OpAuth u pw t t')
  have "ph_sessions h' = ph_sessions h" "ph_session_counter h' = ph_session_counter h"
    using assms(3) pam_authenticate_frame(3,4) [of hc h t t' u pw]
    by (cases "pam_authenticate hc h t t' u pw"; simp add: OpAuth)+
  moreover have "opened [r] = []"
    using assms(3) OpAuth by (cases "pam_authenticate hc h t t' u pw") auto
  ultimately show ?thesis using OpAuth assms by (auto simp: sessions_wf_def)
next
  case (OpOpen u tty t)
  with assms(3) obtain x where "pam_open_session h t u tty = (x, h')" and "r = OutSession x"
    by (cases "pam_open_session h t u tty") auto
  with sessions_open [OF assms(1,2) this(1)] OpOpen show ?thesis
    by (cases x) auto
next
  case (OpClose sid)
  with assms(3) obtain x where "pam_close_session h sid = (x, h')" and "r = OutUnit x"
    by (cases "pam_close_session h sid") auto
  with sessions_close [OF assms(1) this(1)] OpClose show ?thesis
    by (cases x) auto
qed (use assms in auto)

lemma opened_Cons: "opened (r # rs) = opened [r] @ opened rs"
  by (cases "(r # rs)" rule: opened.cases) auto

lemma closed_ids_Cons: "closed_ids (p # ps) (r # rs) = closed_ids [p] [r] @ closed_ids ps rs"
  by (cases "(p # ps, r # rs)" rule: closed_ids.cases) auto

lemma opened_single: "opened [r] = [] \<or> (\<exists>s. opened [r] = [s])"
  by (cases "[r]" rule: opened.cases) auto

lemma sessions_run:
  assumes "pam_run hc ps h = (rs, h')" and "sessions_wf h"
    and "unat (ph_session_counter h) + length ps < 2 ^ 64"
  shows "sessions_wf h' \<and>
    (\<forall>s \<in> set (opened rs). unat (ph_session_counter h) \<le> unat (ss_id s)) \<and>
    distinct (map ss_id (opened rs)) \<and>
    snd ` set (ph_sessions h') =
      {s \<in> snd ` set (ph_sessions h) \<union> set (opened rs). ss_id s \<notin> set (closed_ids ps rs)}"
  using assms
proof (induction ps arbitrary: h rs)
  case (Cons p ps)
  from Cons.prems(1) obtain r h1 rs1 where s: "pam_step hc p h = (r, h1)"
    and run: "pam_run hc ps h1 = (rs1, h')" and rs: "rs = r # rs1"
    by (auto split: prod.splits)
  let ?c = "unat (ph_session_counter h)" and ?c1 = "unat (ph_session_counter h1)"
  from Cons.prems(3) have "?c + 1 < 2 ^ 64" by simp
  from sessions_step [OF Cons.prems(2) this s]
  have wf1: "sessions_wf h1" and cc: "?c \<le> ?c1" and c1: "?c1 \<le> ?c + 1"
    and op: "\<And>s. s \<in> set (opened [r]) \<Longrightarrow> unat (ss_id s) = ?c \<and> ?c1 = ?c + 1"
    and cl: "\<And>i. i \<in> set (closed_ids [p] [r]) \<Longrightarrow> unat i < ?c"
    and set1: "snd ` set (ph_sessions h1) = {s \<in> snd ` set (ph_sessions h) \<union> set (opened [r]).
        ss_id s \<notin> set (closed_ids [p] [r])}"
    by (elim conjE, (assumption | simp)+)+
  from c1 Cons.prems(3) have "?c1 + length ps < 2 ^ 64" by simp
  from Cons.IH [OF run wf1 this] have wf': "sessions_wf h'"
    and ge1: "\<And>s. s \<in> set (opened rs1) \<Longrightarrow> ?c1 \<le> unat (ss_id s)"
    and dist1: "distinct (map ss_id (opened rs1))"
    and set': "snd ` set (ph_sessions h') = {s \<in> snd ` set (ph_sessions h1) \<union> set (opened rs1).
        ss_id s \<notin> set (closed_ids ps rs1)}"
    by blast+
  have ge: "?c \<le> unat (ss_id x)" if "x \<in> set (opened rs)" for x
    using that op [of x] ge1 [of x] cc by (auto simp: rs opened_Cons [of r rs1])
  have disj: "ss_id x \<noteq> ss_id y" if "x \<in> set (opened [r])" "y \<in> set (opened rs1)" for x y
    using op [OF that(1)] ge1 [OF that(2)] by auto
  have dist: "distinct (map ss_id (opened rs))"
    using opened_single [of r] disj dist1 by (force simp: rs opened_Cons [of r rs1])
  have keep: "ss_id x \<notin> set (closed_ids [p] [r])" if "x \<in> set (opened rs1)" for x
    using cl [of "ss_id x"] ge1 [OF that] cc by auto
  have "snd ` set (ph_sessions h') =
      {s \<in> snd ` set (ph_sessions h) \<union> set (opened rs). ss_id s \<notin> set (closed_ids (p # ps) rs)}"
    unfolding set' set1 rs opened_Cons [of r rs1] closed_ids_Cons [of p ps r rs1] set_append
    using keep by blast
  with wf' ge dist show ?case by blast
qed simp

text \<open>
  C40. Sessions. Over any run of fewer than \<open>2^64 - 1\<close> operations from a fresh handle, the ids
  handed out are pairwise different and never zero, and the open sessions at the end are exactly
  the sessions opened whose id no successful close has named.
\<close>

theorem pam_sessions_exact:
  assumes "pam_run hc ps (ph_with_config st cfg) = (rs, h)" and "length ps < 2 ^ 64 - 1"
  shows "distinct (map ss_id (opened rs)) \<and> 0 \<notin> ss_id ` set (opened rs) \<and>
    (\<forall>u. set (sessions_for h u) =
       {s \<in> set (opened rs). ss_id s \<notin> set (closed_ids ps rs) \<and> ss_username s = u})"
proof -
  have "sessions_wf (ph_with_config st cfg)"
    and "unat (ph_session_counter (ph_with_config st cfg)) + length ps < 2 ^ 64"
    using assms(2) by (simp_all add: ph_with_config_def sessions_wf_def)
  from sessions_run [OF assms(1) this]
  show ?thesis
    by (auto simp: sessions_for_def ph_with_config_def set_eq_iff)
qed

section \<open>A concrete handle\<close>

definition demo_hashers :: "string hashers" where
  "demo_hashers = \<lparr>hc_sha512_check = (\<lambda>p h. p = ''pw''), hc_sha256_check = (\<lambda>p h. False),
     hc_yescrypt_parse = Some, hc_yescrypt_verify = (\<lambda>p h. False)\<rparr>"

definition demo_shadow_files :: os_files where
  "demo_shadow_files = demo_files\<lparr>of_read_to_string :=
     (\<lambda>p. if p = ''/s'' then Inr ''ann:$6$x:::::::'' else of_read_to_string demo_files p)\<rparr>"

definition demo_handle :: pam_handle where
  "demo_handle = ph_new (projr (us_load demo_shadow_files ''/u'' ''/s'' ''/g'' ''/p''))"

definition demo_attack :: "pam_op list" where
  "demo_attack = map (\<lambda>i. OpAuth ''ann'' ''guess'' i i) [0, 1, 2, 3, 4, 5, 6]"

theorem pam_lockout_bound_witness:
  "auth_failures ''ann'' demo_attack (fst (pam_run demo_hashers demo_attack demo_handle)) \<le> 5 \<and>
   auth_failures ''ann'' demo_attack (fst (pam_run demo_hashers demo_attack demo_handle)) = 5"
proof -
  have "\<forall>p \<in> set demo_attack. \<forall>t \<in> auth_times ''ann'' p.
      0 \<le> t \<and> t < 0 + pc_lockout_duration (ph_config demo_handle)" by code_simp
  moreover have "\<not> auth_succeeds ''ann'' demo_attack (fst (pam_run demo_hashers demo_attack demo_handle))"
    by code_simp
  moreover have "max 1 (unat (pc_max_retries (ph_config demo_handle))) = 5"
    "ph_lockouts demo_handle ''ann'' = None" by code_simp+
  ultimately have "auth_failures ''ann'' demo_attack (fst (pam_run demo_hashers demo_attack demo_handle)) \<le> 5"
    using pam_lockout_bound [of demo_hashers demo_attack demo_handle _ _ "''ann''" 0]
    by (metis surjective_pairing)
  moreover have "auth_failures ''ann'' demo_attack
      (fst (pam_run demo_hashers demo_attack demo_handle)) = 5" by code_simp
  ultimately show ?thesis by simp
qed

definition demo_visit :: "pam_op list" where
  "demo_visit = [OpOpen ''ann'' ''tty1'' 0, OpOpen ''ann'' ''tty2'' 1, OpClose 1, OpClose 9]"

theorem pam_sessions_exact_witness:
  "distinct (map ss_id (opened (fst (pam_run demo_hashers demo_visit demo_handle)))) \<and>
   map ss_id (opened (fst (pam_run demo_hashers demo_visit demo_handle))) = [1, 2] \<and>
   set (sessions_for (snd (pam_run demo_hashers demo_visit demo_handle)) ''ann'') =
     {\<lparr>ss_id = 2, ss_username = ''ann'', ss_tty = ''tty2'', ss_started_at = 1\<rparr>}"
proof -
  let ?run = "pam_run demo_hashers demo_visit demo_handle"
  have "ph_with_config (ph_store demo_handle) (ph_config demo_handle) = demo_handle"
    by (simp add: demo_handle_def ph_new_def ph_with_config_def)
  then have run: "pam_run demo_hashers demo_visit
      (ph_with_config (ph_store demo_handle) (ph_config demo_handle)) = (fst ?run, snd ?run)" by simp
  have "length demo_visit < 2 ^ 64 - 1" by code_simp
  note exact = pam_sessions_exact [OF run this]
  have op: "opened (fst ?run) =
      [\<lparr>ss_id = 1, ss_username = ''ann'', ss_tty = ''tty1'', ss_started_at = 0\<rparr>,
       \<lparr>ss_id = 2, ss_username = ''ann'', ss_tty = ''tty2'', ss_started_at = 1\<rparr>]" by code_simp
  have cl: "closed_ids demo_visit (fst ?run) = [1]" by code_simp
  from exact have "set (sessions_for (snd ?run) ''ann'') =
      {s \<in> set (opened (fst ?run)). ss_id s \<notin> set (closed_ids demo_visit (fst ?run)) \<and>
         ss_username s = ''ann''}" by blast
  also have "\<dots> = {\<lparr>ss_id = 2, ss_username = ''ann'', ss_tty = ''tty2'', ss_started_at = 1\<rparr>}"
    unfolding op cl by (simp add: set_eq_iff conj_disj_distribR cong: conj_cong)
  finally show ?thesis unfolding op by simp
qed

end
