(* ===== verification/Permissions.thy ===== *)
theory Permissions
  imports UserStore
begin

text \<open>
  The permission store, \<^verbatim>\<open>crates/core/src/permissions.rs\<close>, and the IPC handler that
  grants and revokes at run time, \<^verbatim>\<open>crates/primitives/src/permissions.rs\<close>. Permission
  links make the two membership tests recursive, so they run on fuel and answer \<open>None\<close> when
  it is used up; a \<open>HashSet\<close> of links is a list, whose order no result depends on.
\<close>

section \<open>Data\<close>

record perm_inner =
  pi_uid_grants :: overlay
  pi_uid_revokes :: overlay
  pi_gid_grants :: overlay
  pi_gid_revokes :: overlay
  pi_links :: "u16 \<rightharpoonup> u16 list"
  pi_groups :: "u16 \<rightharpoonup> ustr"

record perm_store =
  ps_inner :: perm_inner
  ps_by_id :: "(u16 \<times> ustr) list"
  ps_by_name :: "ustr \<rightharpoonup> u16"
  ps_users :: user_store

datatype perm_expr =
    PAll
  | PAny "perm_expr list"
  | PExact "perm_expr list"
  | PGroup ustr
  | PPerm u16
  | PRootOnly

definition ps_new :: "user_store \<Rightarrow> perm_store" where
  "ps_new users = \<lparr>ps_inner = \<lparr>pi_uid_grants = Map.empty, pi_uid_revokes = Map.empty,
       pi_gid_grants = Map.empty, pi_gid_revokes = Map.empty,
       pi_links = Map.empty, pi_groups = Map.empty\<rparr>,
     ps_by_id = [], ps_by_name = Map.empty, ps_users = users\<rparr>"

definition ps_exists :: "perm_store \<Rightarrow> ustr \<Rightarrow> bool" where
  "ps_exists ps name \<longleftrightarrow> ps_by_name ps name \<noteq> None"

definition from_name :: "perm_store \<Rightarrow> ustr \<Rightarrow> u16 option" where
  "from_name ps name = (if name = ''any'' then Some 0 else ps_by_name ps name)"

section \<open>Membership\<close>

fun group_has :: "nat \<Rightarrow> perm_store \<Rightarrow> u32 \<Rightarrow> u16 \<Rightarrow> bool option" where
  "group_has 0 ps gid perm = None"
| "group_has (Suc n) ps gid perm =
     (case us_group (ps_users ps) gid of
        None \<Rightarrow> Some False
      | Some g \<Rightarrow>
          if perm \<in> overlay_get (pi_gid_revokes (ps_inner ps)) gid then Some False
          else or_opt
            (Some (perm \<in> set (ge_permissions g) \<or>
                   perm \<in> overlay_get (pi_gid_grants (ps_inner ps)) gid))
            (case pi_links (ps_inner ps) perm of
               None \<Rightarrow> Some False
             | Some l \<Rightarrow> any_opt (group_has n ps gid) l))"

fun user_has :: "nat \<Rightarrow> perm_store \<Rightarrow> u32 \<Rightarrow> u16 \<Rightarrow> bool option" where
  "user_has 0 ps uid perm = None"
| "user_has (Suc n) ps uid perm =
     (if uid = 0 \<or> perm = 0 then Some True
      else
        (case lookup_by_uid (ps_users ps) uid of
           None \<Rightarrow> Some False
         | Some user \<Rightarrow>
             let groups = groups_for (ps_users ps) user in
             if (case pi_groups (ps_inner ps) perm of None \<Rightarrow> False | Some gs \<Rightarrow> gs \<in> set groups)
             then Some True
             else if perm \<in> overlay_get (pi_uid_revokes (ps_inner ps)) uid then Some False
             else or_opt
               (or_opt
                 (Some (perm \<in> set (ur_permissions user) \<or>
                        perm \<in> overlay_get (pi_uid_grants (ps_inner ps)) uid))
                 (any_opt (\<lambda>x. case group_by_name (ps_users ps) x of
                                 None \<Rightarrow> Some False
                               | Some g \<Rightarrow> group_has n ps (ge_gid g) perm) groups))
               (case pi_links (ps_inner ps) perm of
                  None \<Rightarrow> Some False
                | Some l \<Rightarrow> any_opt (user_has n ps uid) l)))"

fun eval_expr :: "nat \<Rightarrow> perm_store \<Rightarrow> u32 \<Rightarrow> ustr list \<Rightarrow> perm_expr \<Rightarrow> bool option" where
  "eval_expr n ps uid groups PAll = Some True"
| "eval_expr n ps uid groups (PPerm p) = user_has n ps uid p"
| "eval_expr n ps uid groups (PGroup name) = Some (name \<in> set groups)"
| "eval_expr n ps uid groups (PAny es) = any_opt (eval_expr n ps uid groups) es"
| "eval_expr n ps uid groups (PExact es) = all_opt (eval_expr n ps uid groups) es"
| "eval_expr n ps uid groups PRootOnly = Some (uid = 0)"

definition user_check :: "nat \<Rightarrow> perm_store \<Rightarrow> u32 \<Rightarrow> perm_expr \<Rightarrow> bool option" where
  "user_check n ps uid e =
     (if uid = 0 then Some True
      else (case lookup_by_uid (ps_users ps) uid of
              None \<Rightarrow> Some False
            | Some user \<Rightarrow> eval_expr n ps uid (groups_for (ps_users ps) user) e))"

section \<open>Links, groups, grants\<close>

definition link_perm :: "u16 \<Rightarrow> u16 \<Rightarrow> perm_store \<Rightarrow> perm_store" where
  "link_perm perm parent ps =
     (let inner = ps_inner ps in
      if (case pi_links inner parent of None \<Rightarrow> False | Some k \<Rightarrow> perm \<in> set k) then ps
      else ps\<lparr>ps_inner := inner\<lparr>pi_links := (pi_links inner)(perm \<mapsto>
               hs_insert parent (case pi_links inner perm of None \<Rightarrow> [] | Some l \<Rightarrow> l))\<rparr>\<rparr>)"

definition or_group :: "u16 \<Rightarrow> ustr \<Rightarrow> perm_store \<Rightarrow> perm_store" where
  "or_group perm grp ps =
     ps\<lparr>ps_inner := (ps_inner ps)\<lparr>pi_groups := (pi_groups (ps_inner ps))(perm \<mapsto> grp)\<rparr>\<rparr>"

text \<open>\<open>entry(i).or_default()\<close> followed by an insert or a remove.\<close>

definition ov_insert :: "u32 \<Rightarrow> u16 \<Rightarrow> overlay \<Rightarrow> overlay" where
  "ov_insert i p ov = ov(i \<mapsto> insert p (overlay_get ov i))"

definition ov_remove :: "u32 \<Rightarrow> u16 \<Rightarrow> overlay \<Rightarrow> overlay" where
  "ov_remove i p ov = ov(i \<mapsto> overlay_get ov i - {p})"

definition grant_user :: "u32 \<Rightarrow> u16 \<Rightarrow> perm_store \<Rightarrow> perm_store" where
  "grant_user uid perm ps =
     ps\<lparr>ps_inner := (ps_inner ps)
          \<lparr>pi_uid_revokes := ov_remove uid perm (pi_uid_revokes (ps_inner ps)),
           pi_uid_grants := ov_insert uid perm (pi_uid_grants (ps_inner ps))\<rparr>\<rparr>"

definition grant_group :: "u32 \<Rightarrow> u16 \<Rightarrow> perm_store \<Rightarrow> perm_store" where
  "grant_group gid perm ps =
     ps\<lparr>ps_inner := (ps_inner ps)
          \<lparr>pi_gid_revokes := ov_remove gid perm (pi_gid_revokes (ps_inner ps)),
           pi_gid_grants := ov_insert gid perm (pi_gid_grants (ps_inner ps))\<rparr>\<rparr>"

definition ungrant_user :: "u32 \<Rightarrow> u16 \<Rightarrow> perm_store \<Rightarrow> perm_store" where
  "ungrant_user uid perm ps =
     ps\<lparr>ps_inner := (ps_inner ps)
          \<lparr>pi_uid_grants := ov_remove uid perm (pi_uid_grants (ps_inner ps)),
           pi_uid_revokes := ov_insert uid perm (pi_uid_revokes (ps_inner ps))\<rparr>\<rparr>"

definition ungrant_group :: "u32 \<Rightarrow> u16 \<Rightarrow> perm_store \<Rightarrow> perm_store" where
  "ungrant_group gid perm ps =
     ps\<lparr>ps_inner := (ps_inner ps)
          \<lparr>pi_gid_grants := ov_remove gid perm (pi_gid_grants (ps_inner ps)),
           pi_gid_revokes := ov_insert gid perm (pi_gid_revokes (ps_inner ps))\<rparr>\<rparr>"

definition ps_write_perms :: "(string \<Rightarrow> u8 list \<Rightarrow> string + unit) \<Rightarrow> perm_store \<Rightarrow> string \<Rightarrow> unit result" where
  "ps_write_perms fs_write ps path =
     us_write_perms_with_overlay fs_write (ps_users ps) path
       (pi_uid_grants (ps_inner ps)) (pi_uid_revokes (ps_inner ps))
       (pi_gid_grants (ps_inner ps)) (pi_gid_revokes (ps_inner ps))"

section \<open>Registration and listing\<close>

definition new_perm :: "ustr \<Rightarrow> u16 \<Rightarrow> perm_store \<Rightarrow> u16 result \<times> perm_store" where
  "new_perm name pid ps =
     (case map_of (ps_by_id ps) pid of
        Some old \<Rightarrow> (Inl (DuplicatePermissions pid old), ps)
      | None \<Rightarrow> (Inr pid, ps\<lparr>ps_by_id := AList.update pid name (ps_by_id ps),
                            ps_by_name := (ps_by_name ps)(name \<mapsto> pid)\<rparr>))"

definition reg_perm :: "u16 \<Rightarrow> ustr \<Rightarrow> perm_store \<Rightarrow> unit result \<times> perm_store" where
  "reg_perm pid name ps =
     (case map_of (ps_by_id ps) pid of
        Some old \<Rightarrow> (Inl (DuplicatePermissions pid old), ps)
      | None \<Rightarrow> (Inr (), ps\<lparr>ps_by_id := AList.update pid name (ps_by_id ps),
                           ps_by_name := (ps_by_name ps)(name \<mapsto> pid)\<rparr>))"

text \<open>
  The lazy \<open>map\<close> of \<open>all\<close> takes each name out of the table as it passes, and
  \<open>collect\<close> keeps the last pair of an id.
\<close>

fun take_names :: "u16 list \<Rightarrow> (u16 \<times> ustr) list \<Rightarrow> (u16 \<times> ustr) list \<Rightarrow> (u16 \<times> ustr) list" where
  "take_names [] names acc = acc"
| "take_names (x # xs) names acc =
     take_names xs (AList.delete x names)
       (AList.update x (case map_of names x of None \<Rightarrow> ''unknown'' | Some n \<Rightarrow> n) acc)"

text \<open>A grant set is visited in ascending order here; the code's order is unspecified.\<close>

definition listed_perms :: "u16 list \<Rightarrow> u16 set \<Rightarrow> u16 set \<Rightarrow> u16 list" where
  "listed_perms perms grants revokes =
     filter (\<lambda>x. x \<notin> revokes) (perms @ sorted_list_of_set grants)"

definition with_or_group :: "perm_store \<Rightarrow> u16 \<times> ustr \<Rightarrow> u16 \<times> ustr \<times> ustr option" where
  "with_or_group ps = (\<lambda>(i, n). (i, n, pi_groups (ps_inner ps) i))"

definition ps_all :: "perm_store \<Rightarrow> u32 option \<Rightarrow> bool \<Rightarrow> (u16 \<times> ustr \<times> ustr option) list result" where
  "ps_all ps subject grp =
     (case (subject, grp) of
        (Some uid, False) \<Rightarrow>
          (case lookup_by_uid (ps_users ps) uid of
             None \<Rightarrow> Inl (NotFound (''user '' @ show_nat (unat uid)))
           | Some u \<Rightarrow>
               Inr (map (with_or_group ps) (take_names
                     (listed_perms (ur_permissions u)
                        (overlay_get (pi_uid_grants (ps_inner ps)) uid)
                        (overlay_get (pi_uid_revokes (ps_inner ps)) uid)) (ps_by_id ps) [])))
      | (Some gid, True) \<Rightarrow>
          (case us_group (ps_users ps) gid of
             None \<Rightarrow> Inl (NotFound (''group '' @ show_nat (unat gid)))
           | Some g \<Rightarrow>
               Inr (map (with_or_group ps) (take_names
                     (listed_perms (ge_permissions g)
                        (overlay_get (pi_gid_grants (ps_inner ps)) gid)
                        (overlay_get (pi_gid_revokes (ps_inner ps)) gid)) (ps_by_id ps) [])))
      | (None, _) \<Rightarrow> Inr (map (with_or_group ps) (ps_by_id ps)))"

section \<open>The IPC handlers\<close>

record perm_payload =
  pp_subject :: string
  pp_permission :: string
  pp_group :: bool

text \<open>
  \<open>grant_ungrant_ipc\<close>: the payload as the IPC layer decodes it, or its decoding error. The
  overlay keeps the change when writing the permission file fails.
\<close>

definition grant_ungrant_ipc ::
  "(string \<Rightarrow> u8 list \<Rightarrow> string + unit) \<Rightarrow> string \<Rightarrow> string + perm_payload \<Rightarrow> bool \<Rightarrow>
   perm_store \<Rightarrow> string result \<times> perm_store" where
  "grant_ungrant_ipc fs_write path parsed grant ps =
     (case parsed of
        Inl e \<Rightarrow> (Inl (Custom e), ps)
      | Inr pl \<Rightarrow>
          (case (case parse_u16 (pp_permission pl) of
                   Some i \<Rightarrow> Some i | None \<Rightarrow> from_name ps (pp_permission pl)) of
             None \<Rightarrow> (Inl (NotFound (''permission '' @ pp_permission pl)), ps)
           | Some perm \<Rightarrow>
               (case (if pp_group pl
                      then (case group_by_name (ps_users ps) (pp_subject pl) of
                              None \<Rightarrow> Inl (NotFound (''group '' @ pp_subject pl))
                            | Some g \<Rightarrow> Inr ((if grant then grant_group else ungrant_group)
                                             (ge_gid g) perm ps))
                      else (case lookup_by_name (ps_users ps) (pp_subject pl) of
                              None \<Rightarrow> Inl (NotFound (''user '' @ pp_subject pl))
                            | Some u \<Rightarrow> Inr ((if grant then grant_user else ungrant_user)
                                             (ur_uid u) perm ps))) of
                  Inl e \<Rightarrow> (Inl e, ps)
                | Inr ps' \<Rightarrow>
                    (case ps_write_perms fs_write ps' path of
                       Inl e \<Rightarrow> (Inl e, ps')
                     | Inr _ \<Rightarrow> (Inr (''Permission changed for '' @ pp_subject pl), ps')))))"

section \<open>Runs of store operations\<close>

datatype perm_op =
    OGrantUser u32 u16
  | OUngrantUser u32 u16
  | OGrantGroup u32 u16
  | OUngrantGroup u32 u16
  | OLink u16 u16
  | OOrGroup u16 ustr
  | ONewPerm ustr u16
  | ORegPerm u16 ustr

fun perm_step :: "perm_op \<Rightarrow> perm_store \<Rightarrow> perm_store" where
  "perm_step (OGrantUser i p) ps = grant_user i p ps"
| "perm_step (OUngrantUser i p) ps = ungrant_user i p ps"
| "perm_step (OGrantGroup i p) ps = grant_group i p ps"
| "perm_step (OUngrantGroup i p) ps = ungrant_group i p ps"
| "perm_step (OLink p q) ps = link_perm p q ps"
| "perm_step (OOrGroup p g) ps = or_group p g ps"
| "perm_step (ONewPerm n p) ps = snd (new_perm n p ps)"
| "perm_step (ORegPerm p n) ps = snd (reg_perm p n ps)"

text \<open>Which overlay entry an operation sets, and to what, for users and for groups.\<close>

fun user_kind :: "perm_op \<Rightarrow> (bool \<times> u32 \<times> u16) option" where
  "user_kind (OGrantUser i p) = Some (True, i, p)"
| "user_kind (OUngrantUser i p) = Some (False, i, p)"
| "user_kind _ = None"

fun group_kind :: "perm_op \<Rightarrow> (bool \<times> u32 \<times> u16) option" where
  "group_kind (OGrantGroup i p) = Some (True, i, p)"
| "group_kind (OUngrantGroup i p) = Some (False, i, p)"
| "group_kind _ = None"

text \<open>The last word of a run on an entry.\<close>

fun last_word :: "('o \<Rightarrow> (bool \<times> u32 \<times> u16) option) \<Rightarrow> 'o list \<Rightarrow> u32 \<Rightarrow> u16 \<Rightarrow> bool option" where
  "last_word kind [] i p = None"
| "last_word kind (x # xs) i p =
     (case last_word kind xs i p of
        Some b \<Rightarrow> Some b
      | None \<Rightarrow> (case kind x of
                   Some (b, j, q) \<Rightarrow> if j = i \<and> q = p then Some b else None
                 | None \<Rightarrow> None))"

lemma last_word_snoc:
  "last_word kind (xs @ [x]) i p =
     (case kind x of
        Some (b, j, q) \<Rightarrow> if j = i \<and> q = p then Some b else last_word kind xs i p
      | None \<Rightarrow> last_word kind xs i p)"
  by (induction xs) (auto split: option.splits prod.splits)

subsection \<open>The overlay contract\<close>

text \<open>
  What users and groups share: a pair of overlays that every operation either leaves alone or
  sets in one entry, adding to one side and removing from the other.
\<close>

locale grant_overlay =
  fixes grants :: "'s \<Rightarrow> u32 \<Rightarrow> u16 set"
    and revokes :: "'s \<Rightarrow> u32 \<Rightarrow> u16 set"
    and step :: "'o \<Rightarrow> 's \<Rightarrow> 's"
    and kind :: "'o \<Rightarrow> (bool \<times> u32 \<times> u16) option"
  assumes step_grant: "kind x = Some (True, i, p) \<Longrightarrow>
      grants (step x s) = (grants s)(i := insert p (grants s i)) \<and>
      revokes (step x s) = (revokes s)(i := revokes s i - {p})"
    and step_revoke: "kind x = Some (False, i, p) \<Longrightarrow>
      grants (step x s) = (grants s)(i := grants s i - {p}) \<and>
      revokes (step x s) = (revokes s)(i := insert p (revokes s i))"
    and step_other: "kind x = None \<Longrightarrow> grants (step x s) = grants s \<and> revokes (step x s) = revokes s"
begin

lemma step_cases:
  "p \<in> grants (step x s) i \<longleftrightarrow>
     (case kind x of Some (b, j, q) \<Rightarrow> if j = i \<and> q = p then b else p \<in> grants s i
      | None \<Rightarrow> p \<in> grants s i)"
  "p \<in> revokes (step x s) i \<longleftrightarrow>
     (case kind x of Some (b, j, q) \<Rightarrow> if j = i \<and> q = p then \<not> b else p \<in> revokes s i
      | None \<Rightarrow> p \<in> revokes s i)"
proof -
  have "(p \<in> grants (step x s) i \<longleftrightarrow>
     (case kind x of Some (b, j, q) \<Rightarrow> if j = i \<and> q = p then b else p \<in> grants s i
      | None \<Rightarrow> p \<in> grants s i)) \<and>
    (p \<in> revokes (step x s) i \<longleftrightarrow>
     (case kind x of Some (b, j, q) \<Rightarrow> if j = i \<and> q = p then \<not> b else p \<in> revokes s i
      | None \<Rightarrow> p \<in> revokes s i))"
  proof (cases "kind x")
    case None
    then show ?thesis by (simp add: step_other)
  next
    case (Some k)
    then obtain b j q where "kind x = Some (b, j, q)" by (cases k) auto
    then show ?thesis
      by (cases b) (auto simp: step_grant [of x j q s] step_revoke [of x j q s])
  qed
  then show "p \<in> grants (step x s) i \<longleftrightarrow>
     (case kind x of Some (b, j, q) \<Rightarrow> if j = i \<and> q = p then b else p \<in> grants s i
      | None \<Rightarrow> p \<in> grants s i)"
    and "p \<in> revokes (step x s) i \<longleftrightarrow>
     (case kind x of Some (b, j, q) \<Rightarrow> if j = i \<and> q = p then \<not> b else p \<in> revokes s i
      | None \<Rightarrow> p \<in> revokes s i)"
    by blast+
qed

lemma run_cases:
  "p \<in> grants (fold step xs s) i \<longleftrightarrow>
     (case last_word kind xs i p of Some b \<Rightarrow> b | None \<Rightarrow> p \<in> grants s i)"
  "p \<in> revokes (fold step xs s) i \<longleftrightarrow>
     (case last_word kind xs i p of Some b \<Rightarrow> \<not> b | None \<Rightarrow> p \<in> revokes s i)"
  by (induction xs arbitrary: s) (auto simp: step_cases split: option.splits)

lemma run_disjoint:
  "grants s i \<inter> revokes s i = {} \<Longrightarrow> grants (fold step xs s) i \<inter> revokes (fold step xs s) i = {}"
  by (auto simp: run_cases disjoint_iff split: option.splits)

lemma run_effective:
  assumes "grants s i = {}" and "revokes s i = {}"
  shows "p \<in> (base - revokes (fold step xs s) i) \<union> grants (fold step xs s) i \<longleftrightarrow>
    (case last_word kind xs i p of Some b \<Rightarrow> b | None \<Rightarrow> p \<in> base)"
  using assms by (auto simp: run_cases split: option.splits)

end

definition user_grants :: "perm_store \<Rightarrow> u32 \<Rightarrow> u16 set" where
  "user_grants ps i = overlay_get (pi_uid_grants (ps_inner ps)) i"
definition user_revokes :: "perm_store \<Rightarrow> u32 \<Rightarrow> u16 set" where
  "user_revokes ps i = overlay_get (pi_uid_revokes (ps_inner ps)) i"
definition group_grants :: "perm_store \<Rightarrow> u32 \<Rightarrow> u16 set" where
  "group_grants ps i = overlay_get (pi_gid_grants (ps_inner ps)) i"
definition group_revokes :: "perm_store \<Rightarrow> u32 \<Rightarrow> u16 set" where
  "group_revokes ps i = overlay_get (pi_gid_revokes (ps_inner ps)) i"

lemma overlay_get_insert [simp]:
  "overlay_get (ov_insert i p ov) j = (if j = i then insert p (overlay_get ov i) else overlay_get ov j)"
  by (simp add: overlay_get_def ov_insert_def)

lemma overlay_get_remove [simp]:
  "overlay_get (ov_remove i p ov) j = (if j = i then overlay_get ov i - {p} else overlay_get ov j)"
  by (simp add: overlay_get_def ov_remove_def)

lemma overlay_get_empty [simp]: "overlay_get Map.empty i = {}"
  by (simp add: overlay_get_def)

lemmas perm_op_defs = grant_user_def ungrant_user_def grant_group_def ungrant_group_def
  link_perm_def or_group_def new_perm_def reg_perm_def

interpretation uov: grant_overlay user_grants user_revokes perm_step user_kind
proof
  fix x s i p
  show "user_kind x = Some (True, i, p) \<Longrightarrow>
      user_grants (perm_step x s) = (user_grants s)(i := insert p (user_grants s i)) \<and>
      user_revokes (perm_step x s) = (user_revokes s)(i := user_revokes s i - {p})"
    by (cases x) (auto simp: user_grants_def user_revokes_def perm_op_defs fun_eq_iff)
  show "user_kind x = Some (False, i, p) \<Longrightarrow>
      user_grants (perm_step x s) = (user_grants s)(i := user_grants s i - {p}) \<and>
      user_revokes (perm_step x s) = (user_revokes s)(i := insert p (user_revokes s i))"
    by (cases x) (auto simp: user_grants_def user_revokes_def perm_op_defs fun_eq_iff)
  show "user_kind x = None \<Longrightarrow>
      user_grants (perm_step x s) = user_grants s \<and> user_revokes (perm_step x s) = user_revokes s"
    by (cases x) (auto simp: user_grants_def user_revokes_def perm_op_defs fun_eq_iff Let_def
        split: option.splits)
qed

interpretation gov: grant_overlay group_grants group_revokes perm_step group_kind
proof
  fix x s i p
  show "group_kind x = Some (True, i, p) \<Longrightarrow>
      group_grants (perm_step x s) = (group_grants s)(i := insert p (group_grants s i)) \<and>
      group_revokes (perm_step x s) = (group_revokes s)(i := group_revokes s i - {p})"
    by (cases x) (auto simp: group_grants_def group_revokes_def perm_op_defs fun_eq_iff)
  show "group_kind x = Some (False, i, p) \<Longrightarrow>
      group_grants (perm_step x s) = (group_grants s)(i := group_grants s i - {p}) \<and>
      group_revokes (perm_step x s) = (group_revokes s)(i := insert p (group_revokes s i))"
    by (cases x) (auto simp: group_grants_def group_revokes_def perm_op_defs fun_eq_iff)
  show "group_kind x = None \<Longrightarrow>
      group_grants (perm_step x s) = group_grants s \<and> group_revokes (perm_step x s) = group_revokes s"
    by (cases x) (auto simp: group_grants_def group_revokes_def perm_op_defs fun_eq_iff Let_def
        split: option.splits)
qed

section \<open>What membership means\<close>

definition links_of :: "perm_store \<Rightarrow> u16 \<Rightarrow> u16 list" where
  "links_of ps p = (case pi_links (ps_inner ps) p of None \<Rightarrow> [] | Some l \<Rightarrow> l)"

lemma links_of_any:
  "(case pi_links (ps_inner ps) p of None \<Rightarrow> Some False | Some l \<Rightarrow> any_opt f l) =
   any_opt f (links_of ps p)"
  by (simp add: links_of_def split: option.splits)

definition in_or_group :: "perm_store \<Rightarrow> user_record \<Rightarrow> u16 \<Rightarrow> bool" where
  "in_or_group ps user p \<longleftrightarrow>
     (case pi_groups (ps_inner ps) p of None \<Rightarrow> False
      | Some gs \<Rightarrow> gs \<in> set (groups_for (ps_users ps) user))"

text \<open>
  The abstract reading of the two tests: what is derivable from direct permissions, run-time
  grants, group membership and links, without any account of how it is searched for.
\<close>

inductive group_holds :: "perm_store \<Rightarrow> u32 \<Rightarrow> u16 \<Rightarrow> bool" for ps gid where
  gh_direct: "us_group (ps_users ps) gid = Some g \<Longrightarrow> p \<notin> group_revokes ps gid \<Longrightarrow>
    p \<in> set (ge_permissions g) \<union> group_grants ps gid \<Longrightarrow> group_holds ps gid p"
| gh_link: "us_group (ps_users ps) gid = Some g \<Longrightarrow> p \<notin> group_revokes ps gid \<Longrightarrow>
    q \<in> set (links_of ps p) \<Longrightarrow> group_holds ps gid q \<Longrightarrow> group_holds ps gid p"

inductive user_holds :: "perm_store \<Rightarrow> u32 \<Rightarrow> u16 \<Rightarrow> bool" for ps uid where
  uh_root: "uid = 0 \<or> p = 0 \<Longrightarrow> user_holds ps uid p"
| uh_or_group: "lookup_by_uid (ps_users ps) uid = Some user \<Longrightarrow> in_or_group ps user p \<Longrightarrow>
    user_holds ps uid p"
| uh_direct: "lookup_by_uid (ps_users ps) uid = Some user \<Longrightarrow> p \<notin> user_revokes ps uid \<Longrightarrow>
    p \<in> set (ur_permissions user) \<union> user_grants ps uid \<Longrightarrow> user_holds ps uid p"
| uh_group: "lookup_by_uid (ps_users ps) uid = Some user \<Longrightarrow> p \<notin> user_revokes ps uid \<Longrightarrow>
    x \<in> set (groups_for (ps_users ps) user) \<Longrightarrow> group_by_name (ps_users ps) x = Some g \<Longrightarrow>
    group_holds ps (ge_gid g) p \<Longrightarrow> user_holds ps uid p"
| uh_link: "lookup_by_uid (ps_users ps) uid = Some user \<Longrightarrow> p \<notin> user_revokes ps uid \<Longrightarrow>
    q \<in> set (links_of ps p) \<Longrightarrow> user_holds ps uid q \<Longrightarrow> user_holds ps uid p"

inductive_simps group_holds_iff: "group_holds ps gid p"
inductive_simps user_holds_iff: "user_holds ps uid p"

fun expr_holds :: "perm_store \<Rightarrow> u32 \<Rightarrow> ustr list \<Rightarrow> perm_expr \<Rightarrow> bool" where
  "expr_holds ps uid groups PAll = True"
| "expr_holds ps uid groups (PPerm p) = user_holds ps uid p"
| "expr_holds ps uid groups (PGroup name) = (name \<in> set groups)"
| "expr_holds ps uid groups (PAny es) = (\<exists>e \<in> set es. expr_holds ps uid groups e)"
| "expr_holds ps uid groups (PExact es) = (\<forall>e \<in> set es. expr_holds ps uid groups e)"
| "expr_holds ps uid groups PRootOnly = (uid = 0)"

lemma any_opt_SomeD:
  "any_opt f xs = Some b \<Longrightarrow> b \<longleftrightarrow> (\<exists>x \<in> set xs. f x = Some True)"
  "any_opt f xs = Some False \<Longrightarrow> x \<in> set xs \<Longrightarrow> f x = Some False"
  by (induction xs) (auto split: option.splits bool.splits)

lemma any_opt_None_iff: "(\<And>x. x \<in> set xs \<Longrightarrow> f x \<noteq> None) \<Longrightarrow> any_opt f xs \<noteq> None"
  by (induction xs) (auto split: option.splits bool.splits)

lemma any_opt_sound:
  assumes "any_opt f xs = Some b" and "\<And>x c. x \<in> set xs \<Longrightarrow> f x = Some c \<Longrightarrow> c \<longleftrightarrow> P x"
  shows "b \<longleftrightarrow> (\<exists>x \<in> set xs. P x)"
proof (cases b)
  case True
  with any_opt_SomeD(1) [OF assms(1)] assms(2) show ?thesis by blast
next
  case False
  with assms(1) have "f x = Some False" if "x \<in> set xs" for x
    using any_opt_SomeD(2) [of f xs x] that by simp
  with False assms(2) show ?thesis by blast
qed

lemma or_opt_SomeD:
  "or_opt x y = Some b \<Longrightarrow> x = Some True \<and> b \<or> x = Some False \<and> y = Some b"
  by (cases "(x, y)" rule: or_opt.cases) auto

lemma group_has_sound:
  "group_has n ps gid p = Some b \<Longrightarrow> b \<longleftrightarrow> group_holds ps gid p"
proof (induction n arbitrary: p b)
  case (Suc n)
  show ?case
  proof (cases "us_group (ps_users ps) gid")
    case None
    with Suc.prems show ?thesis by (subst group_holds_iff) simp
  next
    case (Some g)
    show ?thesis
    proof (cases "p \<in> group_revokes ps gid")
      case True
      with Suc.prems Some show ?thesis
        by (subst group_holds_iff) (simp add: group_revokes_def)
    next
      case False
      with Suc.prems Some have "or_opt (Some (p \<in> set (ge_permissions g) \<union> group_grants ps gid))
          (any_opt (group_has n ps gid) (links_of ps p)) = Some b"
        by (simp add: group_revokes_def group_grants_def links_of_any)
      from or_opt_SomeD [OF this] have
        "b \<longleftrightarrow> p \<in> set (ge_permissions g) \<union> group_grants ps gid \<or>
           (\<exists>q \<in> set (links_of ps p). group_holds ps gid q)"
        using any_opt_sound [of "group_has n ps gid" "links_of ps p" b "group_holds ps gid"] Suc.IH
        by auto
      with Some False show ?thesis by (subst group_holds_iff) auto
    qed
  qed
qed simp

text \<open>The group part of the search: which groups of the user hold the permission.\<close>

abbreviation group_probe :: "nat \<Rightarrow> perm_store \<Rightarrow> u16 \<Rightarrow> ustr \<Rightarrow> bool option" where
  "group_probe n ps p x \<equiv> (case group_by_name (ps_users ps) x of
     None \<Rightarrow> Some False | Some g \<Rightarrow> group_has n ps (ge_gid g) p)"

definition group_member :: "perm_store \<Rightarrow> u16 \<Rightarrow> ustr \<Rightarrow> bool" where
  "group_member ps p x \<longleftrightarrow>
     (\<exists>g. group_by_name (ps_users ps) x = Some g \<and> group_holds ps (ge_gid g) p)"

lemma group_probe_sound: "group_probe n ps p x = Some b \<Longrightarrow> b \<longleftrightarrow> group_member ps p x"
  by (auto simp: group_member_def dest: group_has_sound split: option.splits)

lemma user_has_Suc:
  "user_has (Suc n) ps uid p =
     (if uid = 0 \<or> p = 0 then Some True
      else (case lookup_by_uid (ps_users ps) uid of
              None \<Rightarrow> Some False
            | Some user \<Rightarrow>
                if in_or_group ps user p then Some True
                else if p \<in> user_revokes ps uid then Some False
                else or_opt (or_opt (Some (p \<in> set (ur_permissions user) \<union> user_grants ps uid))
                       (any_opt (group_probe n ps p) (groups_for (ps_users ps) user)))
                     (any_opt (user_has n ps uid) (links_of ps p))))"
  by (simp add: in_or_group_def user_revokes_def user_grants_def links_of_any Let_def
      split: option.splits)

declare user_has.simps(2) [simp del]

lemma user_has_sound:
  "user_has n ps uid p = Some b \<Longrightarrow> b \<longleftrightarrow> user_holds ps uid p"
proof (induction n arbitrary: p b)
  case (Suc n)
  show ?case
  proof (cases "uid = 0 \<or> p = 0 \<or> lookup_by_uid (ps_users ps) uid = None")
    case True
    with Suc.prems show ?thesis by (subst user_holds_iff) (auto simp: user_has_Suc)
  next
    case False
    then obtain user where u: "lookup_by_uid (ps_users ps) uid = Some user"
      and nz: "uid \<noteq> 0" "p \<noteq> 0" by auto
    show ?thesis
    proof (cases "in_or_group ps user p \<or> p \<in> user_revokes ps uid")
      case True
      with Suc.prems u nz show ?thesis
        by (subst user_holds_iff) (auto simp: user_has_Suc split: if_splits)
    next
      case False
      let ?direct = "p \<in> set (ur_permissions user) \<union> user_grants ps uid"
      let ?groups = "groups_for (ps_users ps) user"
      from False Suc.prems u nz have
        "or_opt (or_opt (Some ?direct) (any_opt (group_probe n ps p) ?groups))
           (any_opt (user_has n ps uid) (links_of ps p)) = Some b"
        by (simp add: user_has_Suc)
      then have "b \<longleftrightarrow> ?direct \<or> (\<exists>x \<in> set ?groups. group_member ps p x) \<or>
          (\<exists>q \<in> set (links_of ps p). user_holds ps uid q)"
        using any_opt_sound [of "group_probe n ps p" ?groups _ "group_member ps p"]
          any_opt_sound [of "user_has n ps uid" "links_of ps p" b "user_holds ps uid"]
          Suc.IH group_probe_sound
        by (auto dest!: or_opt_SomeD)
      with False u nz show ?thesis
        by (subst user_holds_iff) (auto simp: group_member_def)
    qed
  qed
qed simp

section \<open>Termination on acyclic links\<close>

definition link_rel :: "perm_store \<Rightarrow> (u16 \<times> u16) set" where
  "link_rel ps = {(q, p). q \<in> set (links_of ps p)}"

definition link_rank :: "perm_store \<Rightarrow> u16 \<Rightarrow> nat" where
  "link_rank ps p = card {q. (q, p) \<in> (link_rel ps)\<^sup>+}"

lemma link_rank_less:
  assumes "acyclic (link_rel ps)" and "q \<in> set (links_of ps p)"
  shows "link_rank ps q < link_rank ps p"
  unfolding link_rank_def
proof (rule psubset_card_mono)
  have qp: "(q, p) \<in> link_rel ps" using assms(2) by (simp add: link_rel_def)
  then have "{x. (x, q) \<in> (link_rel ps)\<^sup>+} \<subseteq> {x. (x, p) \<in> (link_rel ps)\<^sup>+}"
    by (auto intro: trancl_into_trancl)
  moreover have "(q, q) \<notin> (link_rel ps)\<^sup>+" using assms(1) by (simp add: acyclic_def)
  ultimately show "{x. (x, q) \<in> (link_rel ps)\<^sup>+} \<subset> {x. (x, p) \<in> (link_rel ps)\<^sup>+}"
    using qp by blast
qed simp

lemma link_rank_bound:
  assumes "acyclic (link_rel ps)"
  shows "link_rank ps p < 65536"
proof -
  have "(p, p) \<notin> (link_rel ps)\<^sup>+" using assms by (simp add: acyclic_def)
  then have "{q. (q, p) \<in> (link_rel ps)\<^sup>+} \<subset> UNIV" by blast
  then have "link_rank ps p < card (UNIV :: u16 set)"
    unfolding link_rank_def by (intro psubset_card_mono) simp_all
  then show ?thesis by (simp add: card_word)
qed

lemma or_opt_None: "or_opt a b = None \<longleftrightarrow> a = None \<or> a = Some False \<and> b = None"
  by (cases "(a, b)" rule: or_opt.cases) auto

lemma or_opt_not_None: "a \<noteq> None \<Longrightarrow> b \<noteq> None \<Longrightarrow> or_opt a b \<noteq> None"
  by (cases a; cases b) auto

lemma group_has_returns:
  assumes "acyclic (link_rel ps)"
  shows "link_rank ps p < n \<Longrightarrow> group_has n ps gid p \<noteq> None"
proof (induction n arbitrary: p)
  case (Suc n)
  have "any_opt (group_has n ps gid) (links_of ps p) \<noteq> None"
    using Suc link_rank_less [OF assms, of _ p] by (intro any_opt_None_iff) fastforce
  then show ?case
    by (auto simp: links_of_any split: option.splits dest: or_opt_not_None [rotated])
qed simp

lemma user_has_returns:
  assumes "acyclic (link_rel ps)"
  shows "link_rank ps p + 1 < n \<Longrightarrow> user_has n ps uid p \<noteq> None"
proof (induction n arbitrary: p)
  case (Suc n)
  have "any_opt (user_has n ps uid) (links_of ps p) \<noteq> None"
    using Suc link_rank_less [OF assms, of _ p] by (intro any_opt_None_iff) fastforce
  moreover have "any_opt (group_probe n ps p) xs \<noteq> None" for xs
    using Suc.prems group_has_returns [OF assms, of p n]
    by (intro any_opt_None_iff) (auto split: option.splits)
  ultimately show ?case
    by (auto simp: user_has_Suc or_opt_None simp del: not_None_eq split: option.splits)
qed simp

lemma user_has_eq:
  assumes "acyclic (link_rel ps)" and "65536 < n"
  shows "user_has n ps uid p = Some (user_holds ps uid p)"
  using user_has_returns [OF assms(1), of p n uid] link_rank_bound [OF assms(1), of p] assms(2)
    user_has_sound [of n ps uid p]
  by (cases "user_has n ps uid p") auto

text \<open>
  C16. Permission checks are correct and end. When the permission links have no cycle, fuel
  65537 is always enough (there are 65536 permission ids), and \<open>user_check\<close> of an expression
  answers exactly what the expression means over the derivable permissions: root may do
  everything, an unknown uid nothing, and otherwise the expression is read over
  \<open>user_holds\<close>, whose rules are direct or granted permissions, the permission's own group,
  the permissions of the user's groups, and links, each cut off by a revoke.
\<close>

theorem user_check_correct:
  assumes "acyclic (link_rel ps)" and "65536 < n"
  shows "user_check n ps uid e =
    Some (uid = 0 \<or> (\<exists>user. lookup_by_uid (ps_users ps) uid = Some user \<and>
            expr_holds ps uid (groups_for (ps_users ps) user) e))"
proof -
  have "eval_expr n ps uid groups e = Some (expr_holds ps uid groups e)" for groups
    by (induction e rule: perm_expr.induct)
      (simp_all add: user_has_eq [OF assms] any_opt_total all_opt_total)
  then show ?thesis by (auto simp: user_check_def split: option.splits)
qed

definition no_two_cycle :: "perm_store \<Rightarrow> bool" where
  "no_two_cycle ps \<longleftrightarrow>
     (\<forall>p q. p \<noteq> q \<longrightarrow> \<not> (q \<in> set (links_of ps p) \<and> p \<in> set (links_of ps q)))"

lemma links_of_link:
  "links_of (link_perm perm parent ps) p =
     (if p = perm \<and> perm \<notin> set (links_of ps parent) then hs_insert parent (links_of ps perm)
      else links_of ps p)"
  by (auto simp: links_of_def link_perm_def Let_def split: option.splits)

lemma links_of_other:
  "(\<And>p q. x \<noteq> OLink p q) \<Longrightarrow> links_of (perm_step x ps) = links_of ps"
  by (cases x) (auto simp: links_of_def perm_op_defs fun_eq_iff split: option.splits)

lemma no_two_cycle_step: "no_two_cycle ps \<Longrightarrow> no_two_cycle (perm_step x ps)"
proof (cases "\<exists>p q. x = OLink p q")
  case True
  then obtain p q where "x = OLink p q" by blast
  then show "no_two_cycle ps \<Longrightarrow> no_two_cycle (perm_step x ps)"
    by (auto simp: no_two_cycle_def links_of_link)
next
  case False
  then show "no_two_cycle ps \<Longrightarrow> no_two_cycle (perm_step x ps)"
    using links_of_other [of x ps] by (simp add: no_two_cycle_def)
qed

text \<open>
  Whatever operations a store goes through, no two different permissions are ever linked
  to each other both ways: the guard of \<open>link\<close> refuses the second direction.
\<close>

theorem link_no_two_cycle: "no_two_cycle (fold perm_step xs (ps_new users))"
proof -
  have "no_two_cycle ps \<Longrightarrow> no_two_cycle (fold perm_step xs ps)" for ps
    by (induction xs arbitrary: ps) (simp_all add: no_two_cycle_step)
  moreover have "no_two_cycle (ps_new users)"
    by (simp add: no_two_cycle_def links_of_def ps_new_def)
  ultimately show ?thesis .
qed

section \<open>Longer cycles\<close>

text \<open>
  The guard looks one link back only. On a set of permissions that link into the set first,
  none of which the user has directly, through a group or by the permission's own group, the
  search never returns: in the code, unbounded recursion.
\<close>

definition link_trap :: "perm_store \<Rightarrow> u32 \<Rightarrow> u16 set \<Rightarrow> bool" where
  "link_trap ps uid S \<longleftrightarrow> uid \<noteq> 0 \<and>
     (\<exists>user. lookup_by_uid (ps_users ps) uid = Some user \<and>
        groups_for (ps_users ps) user = [] \<and>
        (\<forall>p \<in> S. p \<noteq> 0 \<and> p \<notin> user_revokes ps uid \<and> \<not> in_or_group ps user p \<and>
           p \<notin> set (ur_permissions user) \<union> user_grants ps uid \<and>
           (\<exists>q qs. links_of ps p = q # qs \<and> q \<in> S)))"

lemma link_trap_diverges: "link_trap ps uid S \<Longrightarrow> p \<in> S \<Longrightarrow> user_has n ps uid p = None"
proof (induction n arbitrary: p)
  case (Suc n)
  from Suc.prems obtain user q qs where "lookup_by_uid (ps_users ps) uid = Some user"
    and "groups_for (ps_users ps) user = []" and "uid \<noteq> 0" "p \<noteq> 0" "p \<notin> user_revokes ps uid"
    and "\<not> in_or_group ps user p" "p \<notin> set (ur_permissions user) \<union> user_grants ps uid"
    and "links_of ps p = q # qs" "q \<in> S"
    unfolding link_trap_def by blast
  with Suc.IH [OF Suc.prems(1), of q] show ?case by (simp add: user_has_Suc)
qed simp

text \<open>
  A cycle of three links passes the guard, and from then on asking whether a user without
  groups and without the permissions has one of them never returns, whatever the fuel.
\<close>

theorem link_three_cycle_diverges:
  assumes "lookup_by_uid users uid = Some user" and "groups_for users user = []"
    and "uid \<noteq> 0" and "set (ur_permissions user) \<inter> {a, b, c} = {}"
    and "distinct [0, a, b, c]"
  shows "user_has n (fold perm_step [OLink a b, OLink b c, OLink c a] (ps_new users)) uid a = None"
proof -
  let ?ps = "fold perm_step [OLink a b, OLink b c, OLink c a] (ps_new users)"
  have "links_of (ps_new users) = (\<lambda>_. [])" by (auto simp: links_of_def ps_new_def)
  then have l: "links_of ?ps a = [b]" "links_of ?ps b = [c]" "links_of ?ps c = [a]"
    using assms(5) by (auto simp: links_of_link hs_insert_def)
  have frame: "ps_users (link_perm p q ps) = ps_users ps"
    "pi_groups (ps_inner (link_perm p q ps)) = pi_groups (ps_inner ps)"
    "user_grants (link_perm p q ps) = user_grants ps"
    "user_revokes (link_perm p q ps) = user_revokes ps" for p q ps
    by (auto simp: link_perm_def Let_def user_grants_def user_revokes_def fun_eq_iff
        split: option.splits)
  have "user_grants (ps_new users) i = {}" "user_revokes (ps_new users) i = {}"
    "ps_users (ps_new users) = users" "pi_groups (ps_inner (ps_new users)) = Map.empty" for i
    by (simp_all add: ps_new_def user_grants_def user_revokes_def)
  then have "link_trap ?ps uid {a, b, c}"
    using assms l by (auto simp: link_trap_def frame in_or_group_def)
  then show ?thesis by (rule link_trap_diverges) simp
qed

section \<open>Grants and revokes\<close>

lemma set_effective_perms: "set (effective_perms l a b) = (set l - b) \<union> a"
  by (simp add: effective_perms_def)

lemma fresh_overlays:
  "user_grants (ps_new users) i = {}" "user_revokes (ps_new users) i = {}"
  "group_grants (ps_new users) i = {}" "group_revokes (ps_new users) i = {}"
  by (simp_all add: ps_new_def user_grants_def user_revokes_def group_grants_def group_revokes_def)

lemma perm_run_user_effective:
  "p \<in> set (user_effective (pi_uid_grants (ps_inner (fold perm_step xs (ps_new users))))
              (pi_uid_revokes (ps_inner (fold perm_step xs (ps_new users)))) u) \<longleftrightarrow>
   (case last_word user_kind xs (ur_uid u) p of Some b \<Rightarrow> b | None \<Rightarrow> p \<in> set (ur_permissions u))"
  using uov.run_effective [OF fresh_overlays(1,2), of p "set (ur_permissions u)" xs users "ur_uid u"]
  by (simp add: set_effective_perms user_effective_def user_grants_def user_revokes_def)

lemma perm_run_group_effective:
  "p \<in> set (group_effective (pi_gid_grants (ps_inner (fold perm_step xs (ps_new users))))
              (pi_gid_revokes (ps_inner (fold perm_step xs (ps_new users)))) g) \<longleftrightarrow>
   (case last_word group_kind xs (ge_gid g) p of Some b \<Rightarrow> b | None \<Rightarrow> p \<in> set (ge_permissions g))"
  using gov.run_effective [OF fresh_overlays(3,4), of p "set (ge_permissions g)" xs users "ge_gid g"]
  by (simp add: set_effective_perms group_effective_def group_grants_def group_revokes_def)

text \<open>
  What reaches the permission file. After any sequence of store operations, a permission is
  among the effective ones that are written for a user exactly when the last grant or revoke of
  that permission to that user was a grant, or, when there was none, when the user had it at
  start; the same for groups, and user operations never touch group entries nor the reverse.
\<close>

theorem perm_run_effective:
  "(p \<in> set (user_effective (pi_uid_grants (ps_inner (fold perm_step xs (ps_new users))))
               (pi_uid_revokes (ps_inner (fold perm_step xs (ps_new users)))) u) \<longleftrightarrow>
      (case last_word user_kind xs (ur_uid u) p of Some b \<Rightarrow> b | None \<Rightarrow> p \<in> set (ur_permissions u))) \<and>
    (p \<in> set (group_effective (pi_gid_grants (ps_inner (fold perm_step xs (ps_new users))))
               (pi_gid_revokes (ps_inner (fold perm_step xs (ps_new users)))) g) \<longleftrightarrow>
      (case last_word group_kind xs (ge_gid g) p of Some b \<Rightarrow> b | None \<Rightarrow> p \<in> set (ge_permissions g)))"
  by (intro conjI perm_run_user_effective perm_run_group_effective)

text \<open>
  A grant and a revoke to a user take effect at once and whatever the links, with the one
  step of fuel the test itself takes: after a grant the user has the permission, and after a
  revoke he has it only if it is permission 0 or he is in the permission's own group.
\<close>

theorem grant_revoke_effect:
  assumes "uid \<noteq> 0" and "lookup_by_uid (ps_users ps) uid = Some user"
  shows "user_has (Suc n) (grant_user uid p ps) uid p = Some True \<and>
    user_has (Suc n) (ungrant_user uid p ps) uid p = Some (p = 0 \<or> in_or_group ps user p)"
  using assms
  by (simp add: user_has_Suc grant_user_def ungrant_user_def in_or_group_def user_revokes_def
      user_grants_def split: option.splits)

section \<open>Registration and listing\<close>

definition names_agree :: "perm_store \<Rightarrow> bool" where
  "names_agree ps \<longleftrightarrow> keys_distinct (ps_by_id ps) \<and>
     (\<forall>n i. ps_by_name ps n = Some i \<longrightarrow> map_of (ps_by_id ps) i = Some n)"

lemma names_agree_step: "names_agree ps \<Longrightarrow> names_agree (perm_step x ps)"
  by (cases x) (auto simp: names_agree_def perm_op_defs Let_def simp del: map_of_eq_Some_iff
      split: option.splits if_splits)

text \<open>
  A permission name resolves to the reserved id 0 for \<open>any\<close> and otherwise only to an id
  that was registered under exactly that name; an id keeps the first name it was given.
\<close>

theorem from_name_registered:
  assumes "from_name (fold perm_step xs (ps_new users)) name = Some i"
  shows "(name = ''any'' \<and> i = 0) \<or>
    (map_of (ps_by_id (fold perm_step xs (ps_new users))) i = Some name \<and>
     map_of (ps_by_id (fold perm_step (xs @ ys) (ps_new users))) i = Some name)"
proof -
  have run: "names_agree ps \<Longrightarrow> names_agree (fold perm_step xs ps)" for xs ps
    by (induction xs arbitrary: ps) (simp_all add: names_agree_step)
  have "names_agree (ps_new users)" by (simp add: names_agree_def ps_new_def)
  note agree = run [OF this, of xs]
  have keep: "map_of (ps_by_id ps) i = Some name \<Longrightarrow>
      map_of (ps_by_id (perm_step x ps)) i = Some name" for x ps
    by (cases x) (auto simp: perm_op_defs Let_def split: option.splits)
  have "map_of (ps_by_id ps) i = Some name \<Longrightarrow>
      map_of (ps_by_id (fold perm_step ys ps)) i = Some name" for ps
    by (induction ys arbitrary: ps) (simp_all add: keep)
  with agree assms show ?thesis
    by (auto simp: from_name_def names_agree_def simp del: map_of_eq_Some_iff split: if_splits)
qed

lemma take_names_map:
  "map_of (take_names xs names acc) i =
     (if i \<notin> set xs then map_of acc i
      else if 1 < count_list xs i then Some ''unknown''
      else Some (case map_of names i of None \<Rightarrow> ''unknown'' | Some n \<Rightarrow> n))"
proof (induction xs arbitrary: names acc)
  case (Cons x xs)
  then show ?case by (auto simp: count_list_0_iff split: option.splits)
qed simp

lemma take_names_keys: "keys_distinct acc \<Longrightarrow> keys_distinct (take_names xs names acc)"
  by (induction xs arbitrary: names acc) simp_all

lemma count_list_distinct_if: "distinct xs \<Longrightarrow> count_list xs i = (if i \<in> set xs then 1 else 0)"
  by (induction xs) auto

lemma count_list_filter: "P i \<Longrightarrow> count_list (filter P xs) i = count_list xs i"
  by (induction xs) auto

text \<open>
  What \<open>show permission\<close> lists for a user: each id in the stored permissions or the
  grants and not in the revokes exactly once, with its group. Its name is the registered one, but
  an id that occurs more than once on the way (stored twice, or stored and granted) is listed as
  \<open>unknown\<close>: the first occurrence takes the name out of the table and the last one is kept.
\<close>

theorem ps_all_user:
  assumes "lookup_by_uid (ps_users ps) uid = Some u" and "ps_all ps (Some uid) False = Inr rs"
  shows "distinct (map fst rs) \<and>
    ((i, n, g) \<in> set rs \<longleftrightarrow>
       i \<in> (set (ur_permissions u) \<union> user_grants ps uid) - user_revokes ps uid \<and>
       g = pi_groups (ps_inner ps) i \<and>
       n = (if 1 < count_list (ur_permissions u) i + (if i \<in> user_grants ps uid then 1 else 0)
            then ''unknown''
            else case map_of (ps_by_id ps) i of None \<Rightarrow> ''unknown'' | Some n \<Rightarrow> n))"
proof -
  let ?l = "listed_perms (ur_permissions u) (user_grants ps uid) (user_revokes ps uid)"
  let ?t = "take_names ?l (ps_by_id ps) []"
  have rs: "rs = map (with_or_group ps) ?t"
    using assms by (simp add: ps_all_def user_grants_def user_revokes_def)
  have d: "keys_distinct ?t" by (simp add: take_names_keys)
  have "fst \<circ> with_or_group ps = fst" by (auto simp: with_or_group_def fun_eq_iff)
  with d rs have "distinct (map fst rs)" by simp
  moreover have "(i, n, g) \<in> set rs \<longleftrightarrow> map_of ?t i = Some n \<and> g = pi_groups (ps_inner ps) i"
    using d by (force simp: rs with_or_group_def)
  moreover have "i \<notin> user_revokes ps uid \<Longrightarrow> count_list ?l i =
      count_list (ur_permissions u) i + (if i \<in> user_grants ps uid then 1 else 0)"
    by (simp add: listed_perms_def count_list_filter count_list_distinct_if)
  moreover have "set ?l = (set (ur_permissions u) \<union> user_grants ps uid) - user_revokes ps uid"
    by (auto simp: listed_perms_def)
  ultimately show ?thesis by (auto simp: take_names_map)
qed

section \<open>From a grant to the next start\<close>

definition write_file :: "os_files \<Rightarrow> string \<Rightarrow> u8 list \<Rightarrow> os_files" where
  "write_file fs path bytes = fs\<lparr>of_exists := (\<lambda>p. p = path \<or> of_exists fs p),
     of_read := (\<lambda>p. if p = path then Inr bytes else of_read fs p)\<rparr>"

lemma ps_users_run [simp]: "ps_users (fold perm_step xs ps) = ps_users ps"
proof (induction xs arbitrary: ps)
  case (Cons x xs)
  have "ps_users (perm_step x ps) = ps_users ps"
    by (cases x) (auto simp: perm_op_defs Let_def split: option.splits)
  with Cons show ?case by simp
qed simp

lemma ps_users_step: "ps_users (perm_step x ps) = ps_users ps"
  using ps_users_run [of "[x]" ps] by simp

text \<open>What a successful call over IPC has done: the entry of the subject is set, and the file written.\<close>

lemma grant_ipc_done:
  assumes "grant_ungrant_ipc fs_write path (Inr pl) b ps = (Inr m, ps')"
  shows "\<exists>p bytes. (parse_u16 (pp_permission pl) = Some p \<or> from_name ps (pp_permission pl) = Some p) \<and>
    (if pp_group pl
     then \<exists>g. group_by_name (ps_users ps) (pp_subject pl) = Some g \<and>
       ps' = perm_step (if b then OGrantGroup (ge_gid g) p else OUngrantGroup (ge_gid g) p) ps
     else \<exists>u. lookup_by_name (ps_users ps) (pp_subject pl) = Some u \<and>
       ps' = perm_step (if b then OGrantUser (ur_uid u) p else OUngrantUser (ur_uid u) p) ps) \<and>
    fs_write path bytes = Inr () \<and>
    perms_blob (ps_users ps') (pi_uid_grants (ps_inner ps')) (pi_uid_revokes (ps_inner ps'))
      (pi_gid_grants (ps_inner ps')) (pi_gid_revokes (ps_inner ps')) = Inr bytes"
  using assms
  by (auto simp: grant_ungrant_ipc_def ps_write_perms_def us_write_perms_with_overlay_def
      split: sum.splits option.splits if_splits)

lemma find_map_option: "(\<And>x. P (f x) = P x) \<Longrightarrow> find P (map f xs) = map_option f (find P xs)"
  by (induction xs) simp_all

lemma find_in: "find P xs = Some x \<Longrightarrow> x \<in> set xs"
  by (induction xs) (auto split: if_splits)

lemma find_key: "distinct (map k xs) \<Longrightarrow> x \<in> set xs \<Longrightarrow> find (\<lambda>y. k y = k x) xs = Some x"
  by (induction xs) auto

lemma loaded_by_uid:
  assumes "us_load fs pw sh gr pm = Inr st" "distinct (map ur_uid (us_users st))" "lookup_by_name st name = Some u"
  shows "lookup_by_uid st (ur_uid u) = Some u"
proof -
  have "u \<in> set (us_users st)" using assms(3) by (auto simp: lookup_by_name_def split: option.splits if_splits)
  moreover have "distinct (map ur_uid (rev (us_users st)))" using assms(2) by (simp add: rev_map [symmetric])
  ultimately have "find (\<lambda>y. ur_uid y = ur_uid u) (rev (us_users st)) = Some u" by (intro find_key) simp_all
  with us_load_lookup [OF assms(1), of name "ur_uid u"] show ?thesis by simp
qed

lemma named_group:
  "distinct (map ge_gid (us_groups st)) \<Longrightarrow> group_by_name st name = Some g \<Longrightarrow> us_group st (ge_gid g) = Some g"
  by (auto simp: us_group_def group_by_name_def dest!: find_in intro!: find_key)

text \<open>In the store the live call leaves, and in one that was just loaded.\<close>

lemma live_user:
  assumes "lookup_by_uid (ps_users ps) (ur_uid u) = Some u"
  shows "user_has (Suc n) (perm_step (if b then OGrantUser (ur_uid u) p else OUngrantUser (ur_uid u) p) ps) (ur_uid u) p =
    Some (b \<or> ur_uid u = 0 \<or> p = 0 \<or> in_or_group ps u p)"
  using assms by (auto simp: user_has_Suc grant_user_def ungrant_user_def in_or_group_def user_revokes_def user_grants_def
      split: option.splits)

lemma live_group:
  assumes "us_group (ps_users ps) (ge_gid g) = Some g"
  shows "group_has (Suc n) (perm_step (if b then OGrantGroup (ge_gid g) p else OUngrantGroup (ge_gid g) p) ps) (ge_gid g) p = Some b"
  using assms by (simp add: grant_group_def ungrant_group_def)

lemma fresh_group: "group_has (Suc n) (ps_new st) gid p = Some (\<exists>g. us_group st gid = Some g \<and> p \<in> set (ge_permissions g))"
  by (simp add: ps_new_def split: option.split)

definition held_by_group :: "user_store \<Rightarrow> user_record \<Rightarrow> u16 \<Rightarrow> bool" where
  "held_by_group st u p \<longleftrightarrow>
     (\<exists>x \<in> set (groups_for st u). case group_by_name st x of Some g \<Rightarrow> p \<in> set (ge_permissions g) | None \<Rightarrow> False)"

lemma any_opt_decided: "(\<And>x. x \<in> set xs \<Longrightarrow> f x = Some (P x)) \<Longrightarrow> any_opt f xs = Some (\<exists>x \<in> set xs. P x)"
  by (induction xs) (auto split: bool.split)

lemma fresh_user:
  assumes "distinct (map ge_gid (us_groups st))" "lookup_by_uid st uid = Some u"
  shows "user_has (Suc (Suc n)) (ps_new st) uid p = Some (uid = 0 \<or> p = 0 \<or> p \<in> set (ur_permissions u) \<or> held_by_group st u p)"
proof -
  have "group_probe (Suc n) (ps_new st) p x = Some (case group_by_name st x of Some g \<Rightarrow> p \<in> set (ge_permissions g) | None \<Rightarrow> False)" for x
    using named_group [OF assms(1), of x] by (auto simp: fresh_group simp del: group_has.simps split: option.split) (simp_all add: ps_new_def)
  then have "any_opt (group_probe (Suc n) (ps_new st) p) (groups_for st u) = Some (held_by_group st u p)"
    unfolding held_by_group_def by (intro any_opt_decided)
  moreover have "ps_users (ps_new st) = st" "in_or_group (ps_new st) u p = False" "links_of (ps_new st) p = []"
    by (simp_all add: ps_new_def in_or_group_def links_of_def)
  ultimately show ?thesis using assms(2) fresh_overlays [of st uid] by (simp add: user_has_Suc)
qed

text \<open>The store that is loaded from the file the overlays are written to.\<close>

definition reloaded :: "user_store \<Rightarrow> perm_store \<Rightarrow> user_store" where
  "reloaded st ps = st\<lparr>
     us_users := map (\<lambda>u. u\<lparr>ur_permissions := user_effective (pi_uid_grants (ps_inner ps)) (pi_uid_revokes (ps_inner ps)) u\<rparr>) (us_users st),
     us_groups := map (\<lambda>g. g\<lparr>ge_permissions := group_effective (pi_gid_grants (ps_inner ps)) (pi_gid_revokes (ps_inner ps)) g\<rparr>) (us_groups st)\<rparr>"

lemma reloaded_lookups:
  "lookup_by_name (reloaded st ps) name = map_option (\<lambda>u. u\<lparr>ur_permissions :=
     user_effective (pi_uid_grants (ps_inner ps)) (pi_uid_revokes (ps_inner ps)) u\<rparr>) (lookup_by_name st name)"
  "lookup_by_uid (reloaded st ps) uid = map_option (\<lambda>u. u\<lparr>ur_permissions :=
     user_effective (pi_uid_grants (ps_inner ps)) (pi_uid_revokes (ps_inner ps)) u\<rparr>) (lookup_by_uid st uid)"
  "group_by_name (reloaded st ps) name = map_option (\<lambda>g. g\<lparr>ge_permissions :=
     group_effective (pi_gid_grants (ps_inner ps)) (pi_gid_revokes (ps_inner ps)) g\<rparr>) (group_by_name st name)"
  "map ge_gid (us_groups (reloaded st ps)) = map ge_gid (us_groups st)"
  by (simp_all add: reloaded_def lookup_by_name_def lookup_by_uid_def group_by_name_def find_map_option comp_def split: option.split)

lemma group_change_kept:
  assumes "distinct (map ge_gid (us_groups st))" "group_by_name st name = Some g"
    "ps' = perm_step (if b then OGrantGroup (ge_gid g) p else OUngrantGroup (ge_gid g) p) (fold perm_step xs (ps_new st))"
  shows "\<exists>g'. group_by_name (reloaded st ps') name = Some g' \<and> (p \<in> set (ge_permissions g') \<longleftrightarrow> b) \<and>
    (\<forall>n. group_has (Suc n) ps' (ge_gid g) p = Some b \<and> group_has (Suc n) (ps_new (reloaded st ps')) (ge_gid g) p = Some b)"
proof -
  let ?g = "g\<lparr>ge_permissions := group_effective (pi_gid_grants (ps_inner ps')) (pi_gid_revokes (ps_inner ps')) g\<rparr>"
  have run: "ps' = fold perm_step (xs @ [if b then OGrantGroup (ge_gid g) p else OUngrantGroup (ge_gid g) p]) (ps_new st)"
    using assms(3) by simp
  have g': "group_by_name (reloaded st ps') name = Some ?g" using assms(2) by (simp add: reloaded_lookups)
  have p: "p \<in> set (ge_permissions ?g) \<longleftrightarrow> b"
    unfolding run using perm_run_group_effective [of p _ st g] by (simp add: last_word_snoc del: fold_append)
  have "us_group (ps_users (fold perm_step xs (ps_new st))) (ge_gid g) = Some g"
    using named_group [OF assms(1,2)] by (simp add: ps_new_def)
  then have "group_has (Suc n) ps' (ge_gid g) p = Some b" for n unfolding assms(3) by (rule live_group)
  moreover have "us_group (reloaded st ps') (ge_gid g) = Some ?g"
    using named_group [OF _ g'] assms(1) by (simp add: reloaded_lookups)
  then have "group_has (Suc n) (ps_new (reloaded st ps')) (ge_gid g) p = Some b" for n using p by (simp only: fresh_group) simp
  ultimately show ?thesis using g' p by blast
qed

lemma user_change_kept:
  assumes "lookup_by_uid st (ur_uid u) = Some u" "lookup_by_name st name = Some u" "distinct (map ge_gid (us_groups st))"
    "ps' = perm_step (if b then OGrantUser (ur_uid u) p else OUngrantUser (ur_uid u) p) (fold perm_step xs (ps_new st))"
  shows "\<exists>u'. lookup_by_name (reloaded st ps') name = Some u' \<and> (p \<in> set (ur_permissions u') \<longleftrightarrow> b) \<and>
    (\<forall>n. user_has (Suc n) ps' (ur_uid u) p = Some (b \<or> ur_uid u = 0 \<or> p = 0 \<or> in_or_group ps' u p)) \<and>
    (\<forall>n. user_has (Suc (Suc n)) (ps_new (reloaded st ps')) (ur_uid u) p =
       Some (b \<or> ur_uid u = 0 \<or> p = 0 \<or> held_by_group (reloaded st ps') u' p))"
proof -
  let ?ps = "fold perm_step xs (ps_new st)"
  let ?u = "u\<lparr>ur_permissions := user_effective (pi_uid_grants (ps_inner ps')) (pi_uid_revokes (ps_inner ps')) u\<rparr>"
  have run: "ps' = fold perm_step (xs @ [if b then OGrantUser (ur_uid u) p else OUngrantUser (ur_uid u) p]) (ps_new st)"
    using assms(4) by simp
  have p: "p \<in> set (ur_permissions ?u) \<longleftrightarrow> b"
    unfolding run using perm_run_user_effective [of p _ st u] by (simp add: last_word_snoc del: fold_append)
  have u: "lookup_by_uid (ps_users ?ps) (ur_uid u) = Some u" using assms(1) by (simp add: ps_new_def)
  have "in_or_group ps' u p = in_or_group ?ps u p"
    unfolding assms(4) by (auto simp: in_or_group_def grant_user_def ungrant_user_def split: option.splits)
  then have "user_has (Suc n) ps' (ur_uid u) p = Some (b \<or> ur_uid u = 0 \<or> p = 0 \<or> in_or_group ps' u p)" for n
    using live_user [OF u, of n b p] by (simp add: assms(4))
  moreover have "user_has (Suc (Suc n)) (ps_new (reloaded st ps')) (ur_uid u) p =
      Some (b \<or> ur_uid u = 0 \<or> p = 0 \<or> held_by_group (reloaded st ps') ?u p)" for n
    using fresh_user [of "reloaded st ps'" "ur_uid u" ?u n p] assms(1,3) p by (auto simp: reloaded_lookups)
  ultimately show ?thesis using assms(2) p by (intro exI [of _ ?u]) (simp add: reloaded_lookups)
qed

text \<open>
  C39. A permission change made over IPC is in force at once, and what is left of it after a restart.
  The store is loaded, goes through any run of operations, and then a grant or a revoke for a user or a
  group comes in and succeeds. In the store it leaves, the group has the permission after a grant and
  not after a revoke; a user has it after a grant, and after a revoke only as root, for permission 0, or
  by the permission's own group. Some bytes were written to the permission file; loading the same text
  files with them gives a store in which the record of the subject has the permission after a grant and
  not after a revoke, and so has the group. The user has it after a grant, and after a revoke if he is
  root, for permission 0, or if one of his groups has it: while the system runs a revoke also takes away
  what a group gives, and that is lost with the restart. Users and groups must have pairwise different ids.
\<close>

theorem grant_ipc_reload:
  assumes "us_load fs pw sh gr pm = Inr st"
    and "distinct (map ur_uid (us_users st))" and "distinct (map ge_gid (us_groups st))"
    and "grant_ungrant_ipc fs_write pm (Inr pl) b (fold perm_step xs (ps_new st)) = (Inr m, ps')"
  shows "\<exists>p bytes st'. fs_write pm bytes = Inr () \<and>
    (parse_u16 (pp_permission pl) = Some p \<or>
     from_name (fold perm_step xs (ps_new st)) (pp_permission pl) = Some p) \<and>
    us_load (write_file fs pm bytes) pw sh gr pm = Inr st' \<and>
    (if pp_group pl
     then \<exists>g g'. group_by_name st (pp_subject pl) = Some g \<and> group_by_name st' (pp_subject pl) = Some g' \<and>
       (p \<in> set (ge_permissions g') \<longleftrightarrow> b) \<and>
       (\<forall>n. group_has (Suc n) ps' (ge_gid g) p = Some b \<and> group_has (Suc n) (ps_new st') (ge_gid g) p = Some b)
     else \<exists>u u'. lookup_by_name st (pp_subject pl) = Some u \<and> lookup_by_name st' (pp_subject pl) = Some u' \<and>
       (p \<in> set (ur_permissions u') \<longleftrightarrow> b) \<and>
       (\<forall>n. user_has (Suc n) ps' (ur_uid u) p = Some (b \<or> ur_uid u = 0 \<or> p = 0 \<or> in_or_group ps' u p)) \<and>
       (\<forall>n. user_has (Suc (Suc n)) (ps_new st') (ur_uid u) p =
          Some (b \<or> ur_uid u = 0 \<or> p = 0 \<or> held_by_group st' u' p)))"
proof -
  let ?ps = "fold perm_step xs (ps_new st)"
  have users: "ps_users ?ps = st" by (simp add: ps_new_def)
  from grant_ipc_done [OF assms(4)] obtain p bytes where
    p: "parse_u16 (pp_permission pl) = Some p \<or> from_name ?ps (pp_permission pl) = Some p"
    and act: "if pp_group pl
     then \<exists>g. group_by_name st (pp_subject pl) = Some g \<and> ps' = perm_step (if b then OGrantGroup (ge_gid g) p else OUngrantGroup (ge_gid g) p) ?ps
     else \<exists>u. lookup_by_name st (pp_subject pl) = Some u \<and> ps' = perm_step (if b then OGrantUser (ur_uid u) p else OUngrantUser (ur_uid u) p) ?ps"
    and w: "fs_write pm bytes = Inr ()"
    and blob: "perms_blob (ps_users ps') (pi_uid_grants (ps_inner ps')) (pi_uid_revokes (ps_inner ps'))
      (pi_gid_grants (ps_inner ps')) (pi_gid_revokes (ps_inner ps')) = Inr bytes"
    unfolding users by blast
  let ?st = "reloaded st ps'"
  have "ps_users ps' = st" using act users ps_users_step by (metis (full_types))
  with blob have load: "us_load (write_file fs pm bytes) pw sh gr pm = Inr ?st"
    unfolding reloaded_def by (intro us_load_rewritten [OF assms(1-3)]) (simp_all add: write_file_def)
  show ?thesis
  proof (cases "pp_group pl")
    case True
    with act obtain g where g: "group_by_name st (pp_subject pl) = Some g"
      and ps': "ps' = perm_step (if b then OGrantGroup (ge_gid g) p else OUngrantGroup (ge_gid g) p) ?ps" by auto
    show ?thesis using group_change_kept [OF assms(3) g ps'] True g p w load
      by (intro exI [of _ p] exI [of _ bytes] exI [of _ ?st]) (simp del: group_has.simps)
  next
    case False
    with act obtain u where u: "lookup_by_name st (pp_subject pl) = Some u"
      and ps': "ps' = perm_step (if b then OGrantUser (ur_uid u) p else OUngrantUser (ur_uid u) p) ?ps" by auto
    show ?thesis
      using user_change_kept [OF loaded_by_uid [OF assms(1,2) u] u assms(3) ps'] False u p w load
      by (intro exI [of _ p] exI [of _ bytes] exI [of _ ?st]) simp
  qed
qed

section \<open>A concrete store\<close>

definition demo_perms :: perm_store where
  "demo_perms = fold perm_step [OLink 5 7, ORegPerm 5 ''five'', ORegPerm 7 ''seven''] (ps_new demo_store)"

lemma demo_perms_acyclic: "acyclic (link_rel demo_perms)"
proof -
  have "links_of demo_perms = (links_of (ps_new demo_store))(5 := [7])"
    by (auto simp: demo_perms_def links_of_def perm_op_defs ps_new_def hs_insert_def fun_eq_iff)
  also have "links_of (ps_new demo_store) = (\<lambda>_. [])" by (auto simp: links_of_def ps_new_def)
  finally have "link_rel demo_perms = {(7, 5)}" by (auto simp: link_rel_def split: if_splits)
  moreover have "acyclic ({} :: (u16 \<times> u16) set)" by (simp add: acyclic_def)
  ultimately show ?thesis by simp
qed

theorem user_check_correct_witness:
  "user_check 65537 demo_perms 1000 (PPerm 5) = Some True \<and> user_holds demo_perms 1000 5"
proof -
  have "user_check 65537 demo_perms 1000 (PPerm 5) = Some True" by code_simp
  then show ?thesis
    using user_check_correct [OF demo_perms_acyclic, of 65537 1000 "PPerm 5"] by simp
qed

definition solo_store :: user_store where
  "solo_store = \<lparr>us_users = [\<lparr>ur_username = ''bob'', ur_uid = 1001, ur_gid = 100, ur_gecos = [],
       ur_home = ''/'', ur_shell = ''/s'', ur_permissions = []\<rparr>],
     us_shadows = [], us_groups = [], us_name_index = [''bob'' \<mapsto> 0],
     us_uid_index = [1001 \<mapsto> 0]\<rparr>"

theorem link_three_cycle_diverges_witness:
  "user_has 1000 (fold perm_step [OLink 1 2, OLink 2 3, OLink 3 1] (ps_new solo_store)) 1001 1 = None"
  by (rule link_three_cycle_diverges [of _ _ "hd (us_users solo_store)"])
    (simp_all add: solo_store_def lookup_by_uid_def groups_for_def)

theorem grant_revoke_effect_witness:
  "user_has 1 (grant_user 1000 9 demo_perms) 1000 9 = Some True \<and>
   user_has 1 (ungrant_user 1000 7 demo_perms) 1000 7 = Some False"
proof -
  have u: "lookup_by_uid (ps_users demo_perms) 1000 = Some (hd (us_users demo_store))" by code_simp
  have "\<not> in_or_group demo_perms (hd (us_users demo_store)) 7" by code_simp
  then show ?thesis
    using grant_revoke_effect [OF _ u, of 0 9] grant_revoke_effect [OF _ u, of 0 7] by simp
qed

theorem from_name_registered_witness:
  "from_name (fold perm_step [ORegPerm 5 ''five''] (ps_new demo_store)) ''five'' = Some 5 \<and>
   map_of (ps_by_id (fold perm_step ([ORegPerm 5 ''five''] @ [ORegPerm 5 ''six'']) (ps_new demo_store))) 5
     = Some ''five''"
proof -
  have "from_name (fold perm_step [ORegPerm 5 ''five''] (ps_new demo_store)) ''five'' = Some 5"
    by code_simp
  from this from_name_registered [OF this, of "[ORegPerm 5 ''six'']"] show ?thesis by simp
qed

theorem ps_all_user_witness:
  "ps_all (grant_user 1000 7 demo_perms) (Some 1000) False = Inr [(7, ''unknown'', None)] \<and>
   7 \<in> user_grants (grant_user 1000 7 demo_perms) 1000"
proof -
  let ?ps = "grant_user 1000 7 demo_perms"
  have u: "lookup_by_uid (ps_users ?ps) 1000 = Some (hd (us_users demo_store))" by code_simp
  have all: "ps_all ?ps (Some 1000) False = Inr [(7, ''unknown'', None)]" by code_simp
  show ?thesis using all ps_all_user [OF u all, of 7 "''unknown''" None]
    by (simp add: user_grants_def grant_user_def)
qed

theorem grant_ipc_reload_witness:
  "\<exists>bytes st' u u'. us_load (write_file demo_files ''/p'' bytes) ''/u'' ''/s'' ''/g'' ''/p'' = Inr st' \<and>
     lookup_by_name demo_store ''ann'' = Some u \<and> lookup_by_name st' ''ann'' = Some u' \<and> 9 \<in> set (ur_permissions u') \<and>
     user_has 2 (ps_new st') (ur_uid u) 9 = Some True"
proof -
  let ?pl = "\<lparr>pp_subject = ''ann'', pp_permission = ''9'', pp_group = False\<rparr>"
  let ?r = "grant_ungrant_ipc (\<lambda>_ _. Inr ()) ''/p'' (Inr ?pl) True (fold perm_step [] (ps_new demo_store))"
  have "fst ?r = Inr ''Permission changed for ann''" by code_simp
  then have r: "?r = (Inr ''Permission changed for ann'', snd ?r)" by (metis prod.collapse)
  have d: "distinct (map ur_uid (us_users demo_store))" "distinct (map ge_gid (us_groups demo_store))"
    by code_simp+
  have p: "parse_u16 ''9'' = Some 9" by code_simp
  have n: "from_name (fold perm_step [] (ps_new demo_store)) ''9'' = None" by code_simp
  from grant_ipc_reload [OF demo_load d r] p n show ?thesis by (auto simp: numeral_2_eq_2) blast
qed

end
