(* ===== verification/Resources.thy ===== *)
theory Resources
  imports Prelude
begin

text \<open>
  The descriptors the event loop watches: \<^verbatim>\<open>crates/core/src/resources.rs\<close> and the
  parts of \<open>EventLoop::run\<close> in \<^verbatim>\<open>crates/init/src/pump.rs\<close> that bring the epoll set
  in line with them and that read an event back. Descriptors are 32-bit words read as signed; the
  four descriptor sets are lists, since the loop iterates over two of them.
\<close>

type_synonym i32 = "32 word"

section \<open>Resources\<close>

datatype fd_loc = Owned nat | Timer nat

text \<open>An action names a runtime and a message; its payload constructor stays a parameter type.\<close>

record 'p resource_action =
  ra_runtime :: ustr
  ra_action :: ustr
  ra_payload :: "'p option"

record 'p resources =
  rs_actions :: "i32 \<rightharpoonup> 'p resource_action"
  rs_fd :: "i32 \<rightharpoonup> fd_loc"
  rs_flags :: "i32 \<rightharpoonup> u32"
  rs_unwatched :: "i32 list"
  rs_watched :: "i32 list"
  rs_removed :: "i32 list"
  rs_paused :: "i32 list"

definition rs_default :: "'p resources" where
  "rs_default = \<lparr>rs_actions = Map.empty, rs_fd = Map.empty, rs_flags = Map.empty,
     rs_unwatched = [], rs_watched = [], rs_removed = [], rs_paused = []\<rparr>"

definition epollin :: u32 where "epollin = 1"

definition register_resource :: "i32 \<Rightarrow> 'p resources \<Rightarrow> 'p resources" where
  "register_resource res rs =
     (if res \<notin> set (rs_watched rs) then rs\<lparr>rs_unwatched := hs_insert res (rs_unwatched rs)\<rparr> else rs)"

definition rs_watch :: "i32 \<Rightarrow> 'p resources \<Rightarrow> 'p resources" where
  "rs_watch res rs = rs\<lparr>rs_unwatched := hs_remove res (rs_unwatched rs),
                        rs_watched := hs_insert res (rs_watched rs)\<rparr>"

definition rs_action :: "i32 \<Rightarrow> 'p resource_action \<Rightarrow> 'p resources \<Rightarrow> 'p resources" where
  "rs_action res act rs = register_resource res (rs\<lparr>rs_actions := (rs_actions rs)(res \<mapsto> act)\<rparr>)"

definition rs_pause :: "i32 \<Rightarrow> 'p resources \<Rightarrow> 'p resources" where
  "rs_pause res rs =
     (if res \<in> set (rs_watched rs)
      then rs\<lparr>rs_watched := hs_remove res (rs_watched rs),
              rs_removed := hs_insert res (rs_removed rs),
              rs_paused := hs_insert res (rs_paused rs)\<rparr>
      else rs)"

definition rs_resume :: "i32 \<Rightarrow> 'p resources \<Rightarrow> 'p resources" where
  "rs_resume res rs =
     (if res \<in> set (rs_paused rs)
      then register_resource res (rs\<lparr>rs_paused := hs_remove res (rs_paused rs),
                                     rs_removed := hs_remove res (rs_removed rs)\<rparr>)
      else rs)"

definition rs_is_paused :: "i32 \<Rightarrow> 'p resources \<Rightarrow> bool" where
  "rs_is_paused res rs \<longleftrightarrow> res \<in> set (rs_paused rs)"

definition rs_clear_removed :: "i32 \<Rightarrow> 'p resources \<Rightarrow> 'p resources" where
  "rs_clear_removed res rs = rs\<lparr>rs_removed := hs_remove res (rs_removed rs)\<rparr>"

definition rs_own :: "i32 \<Rightarrow> fd_loc \<Rightarrow> 'p resources \<Rightarrow> 'p resources" where
  "rs_own res f rs = rs\<lparr>rs_fd := (rs_fd rs)(res \<mapsto> f)\<rparr>"

definition rs_terminate :: "i32 \<Rightarrow> 'p resources \<Rightarrow> 'p resources" where
  "rs_terminate res rs =
     (let rs1 = rs\<lparr>rs_unwatched := hs_remove res (rs_unwatched rs)\<rparr>;
          rs2 = (if res \<in> set (rs_watched rs1)
                 then rs1\<lparr>rs_watched := hs_remove res (rs_watched rs1),
                          rs_removed := hs_insert res (rs_removed rs1),
                          rs_flags := (rs_flags rs1)(res := None)\<rparr>
                 else rs1)
      in rs2\<lparr>rs_actions := (rs_actions rs2)(res := None)\<rparr>)"

definition rs_remove_full :: "i32 \<Rightarrow> 'p resources \<Rightarrow> 'p resources" where
  "rs_remove_full res rs = rs\<lparr>rs_removed := hs_remove res (rs_removed rs),
                              rs_fd := (rs_fd rs)(res := None)\<rparr>"

definition rs_flags_of :: "i32 \<Rightarrow> 'p resources \<Rightarrow> u32" where
  "rs_flags_of res rs = (case rs_flags rs res of None \<Rightarrow> epollin | Some x \<Rightarrow> x)"

definition rs_flag :: "i32 \<Rightarrow> u32 \<Rightarrow> 'p resources \<Rightarrow> 'p resources" where
  "rs_flag res fl rs = rs\<lparr>rs_flags := (rs_flags rs)(res \<mapsto> fl)\<rparr>"

section \<open>The event loop's use of epoll\<close>

text \<open>
  The kernel's epoll set maps a descriptor to its flags and event data. Adding a present
  descriptor reports \<open>EEXIST\<close>; adding any other may fail for reasons of the kernel's own,
  which \<open>fails\<close> says. Deleting an absent one reports an error that is only logged.
\<close>

type_synonym epoll = "i32 \<rightharpoonup> u32 \<times> u64"

definition event_data :: "i32 \<Rightarrow> u64" where
  "event_data fd = scast fd + 100"

definition sync_removed :: "i32 \<Rightarrow> 'p resources \<times> epoll \<Rightarrow> 'p resources \<times> epoll" where
  "sync_removed fd = (\<lambda>(rs, ep).
     (if \<not> rs_is_paused fd rs then rs_remove_full fd rs else rs_clear_removed fd rs, ep(fd := None)))"

definition sync_unwatched :: "(i32 \<Rightarrow> bool) \<Rightarrow> i32 \<Rightarrow> 'p resources \<times> epoll \<Rightarrow> 'p resources \<times> epoll" where
  "sync_unwatched fails fd = (\<lambda>(rs, ep).
     if ep fd \<noteq> None then (rs_watch fd rs, ep)
     else if fails fd then (rs, ep)
     else (rs_watch fd rs, ep(fd \<mapsto> (rs_flags_of fd rs, event_data fd))))"

definition pump_sync :: "(i32 \<Rightarrow> bool) \<Rightarrow> 'p resources \<times> epoll \<Rightarrow> 'p resources \<times> epoll" where
  "pump_sync fails s =
     (let s1 = fold sync_removed (rs_removed (fst s)) s
      in fold (sync_unwatched fails) (rs_unwatched (fst s1)) s1)"

text \<open>What the loop does with one event, by its data.\<close>

datatype 'p pump_effect =
    ResetNotifier
  | ReapOnce
  | TimerTick
  | Dispatch "'p resource_action" i32
  | NoEffect

definition pump_event :: "'p resources \<Rightarrow> u64 \<Rightarrow> 'p pump_effect" where
  "pump_event rs d =
     (if d = 0 then ResetNotifier
      else if d = 1 then ReapOnce
      else if d = 2 then TimerTick
      else if d \<ge> 100 then
        (let fd = ucast (d - 100) :: i32 in
         case rs_actions rs fd of Some act \<Rightarrow> Dispatch act fd | None \<Rightarrow> NoEffect)
      else NoEffect)"

section \<open>Runs\<close>

datatype 'p res_op =
    RRegister i32
  | RAction i32 "'p resource_action"
  | RPause i32
  | RResume i32
  | ROwn i32 fd_loc
  | RTerminate i32
  | RFlag i32 u32
  | RSync "i32 \<Rightarrow> bool"

fun res_step :: "'p res_op \<Rightarrow> 'p resources \<times> epoll \<Rightarrow> 'p resources \<times> epoll" where
  "res_step (RRegister fd) (rs, ep) = (register_resource fd rs, ep)"
| "res_step (RAction fd act) (rs, ep) = (rs_action fd act rs, ep)"
| "res_step (RPause fd) (rs, ep) = (rs_pause fd rs, ep)"
| "res_step (RResume fd) (rs, ep) = (rs_resume fd rs, ep)"
| "res_step (ROwn fd f) (rs, ep) = (rs_own fd f rs, ep)"
| "res_step (RTerminate fd) (rs, ep) = (rs_terminate fd rs, ep)"
| "res_step (RFlag fd fl) (rs, ep) = (rs_flag fd fl rs, ep)"
| "res_step (RSync fails) s = pump_sync fails s"

section \<open>The two loops of a synchronisation\<close>

lemma hs_remove_notin [simp]: "x \<notin> set s \<Longrightarrow> hs_remove x s = s"
  by (auto simp: hs_remove_def filter_id_conv)

lemma register_resource_sel [store_simps]:
  "rs_actions (register_resource fd rs) = rs_actions rs"
  "rs_fd (register_resource fd rs) = rs_fd rs"
  "rs_flags (register_resource fd rs) = rs_flags rs"
  "rs_watched (register_resource fd rs) = rs_watched rs"
  "rs_removed (register_resource fd rs) = rs_removed rs"
  "rs_paused (register_resource fd rs) = rs_paused rs"
  "set (rs_unwatched (register_resource fd rs)) =
     (if fd \<in> set (rs_watched rs) then set (rs_unwatched rs) else insert fd (set (rs_unwatched rs)))"
  by (simp_all add: register_resource_def)

lemma sync_removed_fold:
  "fold sync_removed xs (rs, ep) = (rs', ep') \<Longrightarrow>
     rs_actions rs' = rs_actions rs \<and> rs_flags rs' = rs_flags rs \<and>
     rs_unwatched rs' = rs_unwatched rs \<and> rs_watched rs' = rs_watched rs \<and>
     rs_paused rs' = rs_paused rs \<and> set (rs_removed rs') = set (rs_removed rs) - set xs \<and>
     rs_fd rs' = (\<lambda>fd. if fd \<in> set xs \<and> fd \<notin> set (rs_paused rs) then None else rs_fd rs fd) \<and>
     ep' = (\<lambda>fd. if fd \<in> set xs then None else ep fd)"
proof (induction xs arbitrary: rs ep)
  case (Cons x xs)
  obtain rs1 ep1 where s: "sync_removed x (rs, ep) = (rs1, ep1)" by fastforce
  from Cons.prems have "fold sync_removed xs (rs1, ep1) = (rs', ep')" by (simp add: s)
  from Cons.IH [OF this] s show ?case
    by (auto simp: sync_removed_def rs_is_paused_def rs_remove_full_def rs_clear_removed_def
        fun_eq_iff split: if_splits)
qed auto

lemma sync_unwatched_fold:
  "fold (sync_unwatched fails) xs (rs, ep) = (rs', ep') \<Longrightarrow>
     rs_actions rs' = rs_actions rs \<and> rs_flags rs' = rs_flags rs \<and> rs_fd rs' = rs_fd rs \<and>
     rs_removed rs' = rs_removed rs \<and> rs_paused rs' = rs_paused rs \<and>
     set (rs_watched rs') = set (rs_watched rs) \<union> {fd \<in> set xs. ep fd \<noteq> None \<or> \<not> fails fd} \<and>
     set (rs_unwatched rs') = set (rs_unwatched rs) - {fd \<in> set xs. ep fd \<noteq> None \<or> \<not> fails fd} \<and>
     ep' = (\<lambda>fd. if fd \<in> set xs \<and> ep fd = None \<and> \<not> fails fd
                 then Some (rs_flags_of fd rs, event_data fd) else ep fd)"
proof (induction xs arbitrary: rs ep)
  case (Cons x xs)
  obtain rs1 ep1 where s: "sync_unwatched fails x (rs, ep) = (rs1, ep1)" by fastforce
  from Cons.prems have "fold (sync_unwatched fails) xs (rs1, ep1) = (rs', ep')" by (simp add: s)
  note IH = Cons.IH [OF this]
  show ?case
  proof (cases "ep x \<noteq> None \<or> fails x")
    case True
    with IH s show ?thesis
      by (auto simp: sync_unwatched_def rs_watch_def rs_flags_of_def fun_eq_iff split: if_splits)
  next
    case False
    with s have "rs1 = rs_watch x rs" "ep1 = ep(x \<mapsto> (rs_flags_of x rs, event_data x))"
      by (auto simp: sync_unwatched_def)
    with IH False show ?thesis
      by (auto simp: rs_watch_def rs_flags_of_def fun_eq_iff)
  qed
qed auto

text \<open>A whole synchronisation, as one equation per field.\<close>

lemma pump_sync_fields:
  assumes "pump_sync fails (rs, ep) = (rs', ep')"
  defines "ep1 \<equiv> (\<lambda>fd. if fd \<in> set (rs_removed rs) then None else ep fd)"
  shows "rs_actions rs' = rs_actions rs" and "rs_flags rs' = rs_flags rs"
    and "rs_paused rs' = rs_paused rs" and "rs_removed rs' = []"
    and "rs_fd rs' = (\<lambda>fd. if fd \<in> set (rs_removed rs) \<and> fd \<notin> set (rs_paused rs)
                          then None else rs_fd rs fd)"
    and "set (rs_watched rs') = set (rs_watched rs) \<union>
           {fd \<in> set (rs_unwatched rs). ep1 fd \<noteq> None \<or> \<not> fails fd}"
    and "set (rs_unwatched rs') = {fd \<in> set (rs_unwatched rs). ep1 fd = None \<and> fails fd}"
    and "ep' = (\<lambda>fd. if fd \<in> set (rs_unwatched rs) \<and> ep1 fd = None \<and> \<not> fails fd
                    then Some (rs_flags_of fd rs, event_data fd) else ep1 fd)"
proof -
  obtain rs1 ep1' where 1: "fold sync_removed (rs_removed rs) (rs, ep) = (rs1, ep1')" by fastforce
  with assms(1) have 2: "fold (sync_unwatched fails) (rs_unwatched rs1) (rs1, ep1') = (rs', ep')"
    by (simp add: pump_sync_def Let_def)
  note A = sync_removed_fold [OF 1] and B = sync_unwatched_fold [OF 2]
  have e: "ep1' = ep1" using A by (simp add: ep1_def)
  have f: "rs_flags_of fd rs1 = rs_flags_of fd rs" for fd using A by (simp add: rs_flags_of_def)
  show "rs_actions rs' = rs_actions rs" "rs_flags rs' = rs_flags rs" "rs_paused rs' = rs_paused rs"
    "rs_fd rs' = (\<lambda>fd. if fd \<in> set (rs_removed rs) \<and> fd \<notin> set (rs_paused rs)
                          then None else rs_fd rs fd)"
    "set (rs_watched rs') = set (rs_watched rs) \<union>
       {fd \<in> set (rs_unwatched rs). ep1 fd \<noteq> None \<or> \<not> fails fd}"
    using A B e by simp_all
  have "set (rs_removed rs') = {}" using A B by simp
  then show "rs_removed rs' = []" by simp
  show "set (rs_unwatched rs') = {fd \<in> set (rs_unwatched rs). ep1 fd = None \<and> fails fd}"
    using A B e by auto
  show "ep' = (\<lambda>fd. if fd \<in> set (rs_unwatched rs) \<and> ep1 fd = None \<and> \<not> fails fd
                    then Some (rs_flags_of fd rs, event_data fd) else ep1 fd)"
    using A B e f by (simp add: fun_eq_iff)
qed

section \<open>The invariant\<close>

definition res_ok :: "'p resources \<times> epoll \<Rightarrow> bool" where
  "res_ok s \<longleftrightarrow>
     set (rs_watched (fst s)) \<inter> set (rs_unwatched (fst s)) = {} \<and>
     set (rs_watched (fst s)) \<inter> set (rs_removed (fst s)) = {} \<and>
     set (rs_watched (fst s)) \<subseteq> dom (snd s) \<and>
     (\<forall>fd fl d. snd s fd = Some (fl, d) \<longrightarrow> d = event_data fd)"

lemma res_ok_sync: 
  assumes "res_ok (rs, ep)"
  shows "res_ok (pump_sync fails (rs, ep))"
proof -
  obtain rs' ep' where s: "pump_sync fails (rs, ep) = (rs', ep')" by fastforce
  note F = pump_sync_fields [OF s]
  from assms have w: "\<And>fd. fd \<in> set (rs_watched rs) \<Longrightarrow>
      fd \<notin> set (rs_unwatched rs) \<and> fd \<notin> set (rs_removed rs) \<and> ep fd \<noteq> None"
    and d: "\<And>fd fl d. ep fd = Some (fl, d) \<Longrightarrow> d = event_data fd"
    by (auto simp: res_ok_def)
  have "set (rs_watched rs') \<inter> set (rs_unwatched rs') = {}"
    unfolding F(6,7) using w by auto
  moreover have "set (rs_watched rs') \<subseteq> dom ep'"
    unfolding F(6,8) using w by (auto simp: dom_def)
  moreover have "\<forall>fd fl d. ep' fd = Some (fl, d) \<longrightarrow> d = event_data fd"
    unfolding F(8) using d by auto
  ultimately show ?thesis by (simp add: s res_ok_def F(4))
qed

lemma res_ok_step: "res_ok s \<Longrightarrow> res_ok (res_step x s)"
proof (cases x)
  case (RSync fails)
  then show "res_ok s \<Longrightarrow> res_ok (res_step x s)"
    by (cases s) (simp add: res_ok_sync)
qed (cases s; auto simp: res_ok_def store_simps rs_action_def rs_pause_def rs_resume_def rs_own_def
    rs_terminate_def rs_flag_def Let_def)+

lemma res_ok_run: "res_ok s \<Longrightarrow> res_ok (fold res_step xs s)"
  by (induction xs arbitrary: s) (simp_all add: res_ok_step)

lemma res_ok_start: "res_ok (rs_default, Map.empty)"
  by (simp add: res_ok_def rs_default_def)

section \<open>Events\<close>

lemma event_data_decode: "ucast (event_data fd - 100) = fd"
proof -
  have "(ucast (scast fd :: u64) :: i32) = fd"
  proof (rule bit_word_eqI)
    fix n
    assume "n < LENGTH(32)"
    then have "min 31 n = n" by simp
    with \<open>n < LENGTH(32)\<close> show "bit (ucast (scast fd :: u64) :: i32) n \<longleftrightarrow> bit fd n"
      by (simp add: bit_unsigned_iff bit_signed_iff)
  qed
  then show ?thesis by (simp add: event_data_def)
qed

lemma event_data_ge:
  assumes "0 \<le> sint fd"
  shows "100 \<le> event_data fd"
proof -
  have lt: "sint fd < 2 ^ 31" using sint_lt [of fd] by simp
  have "uint (scast fd :: u64) = sint fd mod 2 ^ 64"
    by (simp only: scast_eq uint_word_of_int) simp
  with assms lt have "uint (scast fd :: u64) = sint fd" by simp
  moreover have "uint (event_data fd) = (uint (scast fd :: u64) + 100) mod 2 ^ 64"
    by (simp only: event_data_def uint_word_ariths) simp
  ultimately have "uint (event_data fd) = sint fd + 100" using assms lt by simp
  then show ?thesis using assms by (simp add: word_le_def)
qed

lemma pump_event_data:
  assumes "0 \<le> sint fd"
  shows "pump_event rs (event_data fd) =
    (case rs_actions rs fd of Some act \<Rightarrow> Dispatch act fd | None \<Rightarrow> NoEffect)"
proof -
  from event_data_ge [OF assms] have "\<not> event_data fd < 100" by simp
  then have "event_data fd \<noteq> 0" "event_data fd \<noteq> 1" "event_data fd \<noteq> 2" by auto
  then show ?thesis
    using event_data_ge [OF assms] event_data_decode [of fd]
    by (simp add: pump_event_def Let_def)
qed

section \<open>Properties\<close>

text \<open>
  The descriptor sets stay consistent. After any sequence of operations and
  synchronisations, whatever epoll refuses: a watched descriptor is neither waiting to be watched
  nor waiting to be removed, it is in the epoll set, and an event the kernel reports for it leads
  to exactly the action that is registered for it, or to nothing.
\<close>

theorem watched_fd_dispatch:
  assumes "fold res_step xs (rs_default, Map.empty) = (rs, ep)"
    and "fd \<in> set (rs_watched rs)" and "0 \<le> sint fd"
  shows "fd \<notin> set (rs_unwatched rs) \<and> fd \<notin> set (rs_removed rs) \<and>
    (\<exists>fl d. ep fd = Some (fl, d) \<and>
       pump_event rs d = (case rs_actions rs fd of Some act \<Rightarrow> Dispatch act fd | None \<Rightarrow> NoEffect))"
proof -
  have ok: "res_ok (rs, ep)"
    using res_ok_run [OF res_ok_start, of xs] assms(1) by simp
  with assms(2) have sets: "fd \<notin> set (rs_unwatched rs)" "fd \<notin> set (rs_removed rs)" "fd \<in> dom ep"
    by (auto simp: res_ok_def)
  then obtain fl d where ep: "ep fd = Some (fl, d)" by auto
  with ok have "d = event_data fd" by (simp add: res_ok_def)
  with sets ep pump_event_data [OF assms(3), of rs] show ?thesis by blast
qed

text \<open>
  Synchronisation does what it is for. Nothing is left to remove, and a descriptor that was
  waiting to be watched is watched afterwards exactly when it stayed in the epoll set or could be
  added; the epoll set then lacks every removed descriptor that was not registered anew.
\<close>

theorem pump_sync_effect:
  assumes "pump_sync fails (rs, ep) = (rs', ep')"
  shows "rs_removed rs' = [] \<and>
    (\<forall>fd. fd \<in> set (rs_removed rs) - set (rs_unwatched rs) \<longrightarrow> ep' fd = None) \<and>
    (fd \<in> set (rs_unwatched rs) \<longrightarrow>
      (fd \<in> set (rs_watched rs') \<longleftrightarrow>
        fd \<in> set (rs_watched rs) \<or> fd \<notin> set (rs_removed rs) \<and> ep fd \<noteq> None \<or> \<not> fails fd))"
  using pump_sync_fields [OF assms] by auto

text \<open>
  A terminated descriptor is silent: until an action is registered for it again, no event
  with its data has any effect, even if the kernel still reports one.
\<close>

theorem terminated_silent:
  fixes s :: "'p resources \<times> epoll"
  assumes "0 \<le> sint fd" and "\<And>act. RAction fd act \<notin> set xs"
  shows "pump_event (fst (fold res_step (RTerminate fd # xs) s)) (event_data fd) = NoEffect"
proof -
  have step: "rs_actions (fst (res_step x s)) fd = None"
    if "rs_actions (fst s) fd = None" "\<And>act. x \<noteq> RAction fd act" for x and s :: "'p resources \<times> epoll"
  proof (cases x)
    case (RSync fails)
    obtain rs' ep' where "pump_sync fails s = (rs', ep')" by fastforce
    with that(1) RSync show ?thesis
      using pump_sync_fields(1) [of fails "fst s" "snd s" rs' ep'] by simp
  qed (use that in \<open>cases s; auto simp: store_simps rs_action_def rs_pause_def rs_resume_def
      rs_own_def rs_terminate_def rs_flag_def Let_def\<close>)+
  have "rs_actions (fst (fold res_step xs s)) fd = None"
    if "rs_actions (fst s) fd = None" for s :: "'p resources \<times> epoll"
    using assms(2) that
  proof (induction xs arbitrary: s)
    case (Cons x xs)
    from Cons.prems(1) have "x \<noteq> RAction fd act" "RAction fd act \<notin> set xs" for act by auto
    with Cons.IH [of "res_step x s"] step [of s x] Cons.prems(2) show ?case by simp
  qed simp
  moreover have "rs_actions (fst (res_step (RTerminate fd) s)) fd = None"
    by (cases s) (simp add: rs_terminate_def Let_def)
  ultimately show ?thesis by (simp add: pump_event_data [OF assms(1)])
qed

text \<open>
  Releasing. A watched descriptor that is not paused and is terminated is gone after the next
  synchronisation: it is out of the epoll set and the handle the store owned for it is dropped.
\<close>

theorem terminate_releases:
  assumes "res_ok (rs, ep)" and "fd \<in> set (rs_watched rs)" and "fd \<notin> set (rs_paused rs)"
    and "pump_sync fails (rs_terminate fd rs, ep) = (rs', ep')"
  shows "ep' fd = None \<and> rs_fd rs' fd = None \<and> rs_actions rs' fd = None \<and>
    fd \<notin> set (rs_watched rs') \<union> set (rs_unwatched rs')"
  using pump_sync_fields [OF assms(4)] assms(2,3) by (auto simp: rs_terminate_def Let_def)

lemma sync_keeps_paused:
  "fd \<in> set (rs_paused (fst s)) \<Longrightarrow> rs_fd (fst s) fd = Some f \<Longrightarrow>
   rs_fd (fst (fold res_step (map RSync hs) s)) fd = Some f"
proof (induction hs arbitrary: s)
  case (Cons h hs)
  obtain rs ep rs' ep' where s: "s = (rs, ep)" and p: "pump_sync h (rs, ep) = (rs', ep')"
    by (metis surj_pair)
  show ?case
    using Cons.IH [of "(rs', ep')"] Cons.prems pump_sync_fields(3,5) [OF p] by (simp add: s p)
qed simp

lemma sync_keeps_unlisted:
  "fd \<notin> set (rs_removed (fst s)) \<union> set (rs_unwatched (fst s)) \<Longrightarrow>
   snd (fold res_step (map RSync hs) s) fd = snd s fd"
proof (induction hs arbitrary: s)
  case (Cons h hs)
  obtain rs ep rs' ep' where s: "s = (rs, ep)" and p: "pump_sync h (rs, ep) = (rs', ep')"
    by (metis surj_pair)
  show ?case
    using Cons.IH [of "(rs', ep')"] Cons.prems pump_sync_fields(4,7,8) [OF p] by (simp add: s p)
qed simp

text \<open>
  The pause mark outlives the descriptor. Pausing a watched descriptor, letting the loop
  run, and terminating it never releases its handle, whatever synchronisations follow; and
  pausing, resuming and terminating it between two synchronisations leaves it in the epoll set.
\<close>

theorem paused_terminate_leaks:
  assumes "res_ok (rs, ep)" and "fd \<in> set (rs_watched rs)" and "rs_fd rs fd = Some f"
  shows "rs_fd (fst (fold res_step ([RPause fd, RSync g, RTerminate fd] @ map RSync hs) (rs, ep))) fd = Some f
    \<and> snd (fold res_step ([RPause fd, RResume fd, RTerminate fd] @ map RSync hs) (rs, ep)) fd = ep fd
    \<and> ep fd \<noteq> None"
proof -
  obtain rs1 ep1 where p: "pump_sync g (rs_pause fd rs, ep) = (rs1, ep1)" by fastforce
  have "rs_fd (rs_terminate fd rs1) fd = Some f" "fd \<in> set (rs_paused (rs_terminate fd rs1))"
    using assms(2,3) pump_sync_fields(3,5) [OF p]
    by (simp_all add: rs_pause_def rs_terminate_def Let_def)
  then have 1: "rs_fd (fst (fold res_step (map RSync hs) (rs_terminate fd rs1, ep1))) fd = Some f"
    using sync_keeps_paused [of fd "(rs_terminate fd rs1, ep1)" f hs] by simp
  let ?rs2 = "rs_terminate fd (rs_resume fd (rs_pause fd rs))"
  from assms(1,2) have "fd \<notin> set (rs_removed rs)" "ep fd \<noteq> None" by (auto simp: res_ok_def)
  then have "fd \<notin> set (rs_removed ?rs2) \<union> set (rs_unwatched ?rs2)"
    using assms(2) by (auto simp: rs_pause_def rs_resume_def rs_terminate_def
        register_resource_def Let_def)
  then have "snd (fold res_step (map RSync hs) (?rs2, ep)) fd = ep fd"
    using sync_keeps_unlisted [of fd "(?rs2, ep)" hs] by simp
  with 1 p \<open>ep fd \<noteq> None\<close> show ?thesis by simp
qed

section \<open>A concrete loop\<close>

definition demo_ops :: "unit res_op list" where
  "demo_ops = [RAction 5 \<lparr>ra_runtime = ''sockets'', ra_action = ''activity'', ra_payload = None\<rparr>,
     ROwn 5 (Owned 5), RSync (\<lambda>_. False)]"

definition demo_loop :: "unit resources \<times> epoll" where
  "demo_loop = fold res_step demo_ops (rs_default, Map.empty)"

lemma demo_loop_ok: "res_ok demo_loop"
  unfolding demo_loop_def by (rule res_ok_run [OF res_ok_start])

lemma demo_loop_facts:
  "rs_watched (fst demo_loop) = [5]" "rs_paused (fst demo_loop) = []"
  "rs_fd (fst demo_loop) 5 = Some (Owned 5)" by code_simp+

theorem watched_fd_dispatch_witness:
  "\<exists>fl d. snd demo_loop 5 = Some (fl, d) \<and> pump_event (fst demo_loop) d =
     Dispatch \<lparr>ra_runtime = ''sockets'', ra_action = ''activity'', ra_payload = None\<rparr> 5"
proof -
  have "rs_actions (fst demo_loop) 5 =
      Some \<lparr>ra_runtime = ''sockets'', ra_action = ''activity'', ra_payload = None\<rparr>" by code_simp
  then show ?thesis
    using watched_fd_dispatch [of demo_ops "fst demo_loop" "snd demo_loop" 5] demo_loop_facts
    by (simp add: demo_loop_def)
qed

theorem pump_sync_effect_witness:
  "rs_removed (fst (pump_sync (\<lambda>_. False) (rs_terminate 5 (fst demo_loop), snd demo_loop))) = []"
  using pump_sync_effect [of "\<lambda>_. False" "rs_terminate 5 (fst demo_loop)" "snd demo_loop"]
  by (metis prod.collapse)

theorem terminated_silent_witness:
  "pump_event (fst (fold res_step (RTerminate 5 # [RSync (\<lambda>_. False)]) demo_loop)) (event_data 5) = NoEffect"
  by (rule terminated_silent) simp_all

theorem terminate_releases_witness:
  "snd (pump_sync (\<lambda>_. False) (rs_terminate 5 (fst demo_loop), snd demo_loop)) 5 = None"
  using terminate_releases [of "fst demo_loop" "snd demo_loop" 5 "\<lambda>_. False"
      "fst (pump_sync (\<lambda>_. False) (rs_terminate 5 (fst demo_loop), snd demo_loop))"
      "snd (pump_sync (\<lambda>_. False) (rs_terminate 5 (fst demo_loop), snd demo_loop))"]
    demo_loop_ok demo_loop_facts by simp

theorem paused_terminate_leaks_witness:
  "rs_fd (fst (fold res_step ([RPause 5, RSync (\<lambda>_. False), RTerminate 5] @ map RSync []) demo_loop)) 5
     = Some (Owned 5)"
  using paused_terminate_leaks [of "fst demo_loop" "snd demo_loop" 5 "Owned 5" "\<lambda>_. False" "[]"]
    demo_loop_ok demo_loop_facts by simp

end
