(* ===== verification/Registry.thy ===== *)
theory Registry
  imports ScopedNames
begin

text \<open>
  Metadata and instances: \<^verbatim>\<open>crates/core/src/metadata.rs\<close> and
  \<^verbatim>\<open>crates/core/src/registry.rs\<close>. A \<open>TypeId\<close> is a natural number and a
  \<open>Box<dyn Any>\<close> carries the one it was made with, so that downcasts are tests; a model type
  has two, its own and its metadata's. Item values \<open>'i\<close>, instance values \<open>'x\<close> and TOML
  values \<open>'v\<close> are type parameters; the TOML crate's decoders are arguments.
\<close>

section \<open>Metadata (metadata.rs)\<close>

record model_type =
  mt_id :: nat
  mt_meta :: nat

record metadata_descriptor =
  de_description :: "string option"
  de_type :: "ustr option"
  de_tags :: "ustr list"
  de_options :: "ustr \<rightharpoonup> string"

datatype 'i any_value =
    AnyItems nat "'i list"
  | AnyDescriptor metadata_descriptor

definition descriptor_type :: nat where "descriptor_type = 0"

fun downcast_items :: "nat \<Rightarrow> 'i any_value \<Rightarrow> 'i list option" where
  "downcast_items t (AnyItems t' xs) = (if t = t' then Some xs else None)"
| "downcast_items t (AnyDescriptor d) = None"

fun downcast_descriptor :: "'i any_value \<Rightarrow> metadata_descriptor option" where
  "downcast_descriptor (AnyDescriptor d) = Some d"
| "downcast_descriptor (AnyItems t xs) = None"

text \<open>The groups of \<open>values\<close> are iterated over, so they are an association list.\<close>

record ('v, 'i) metadata =
  me_name :: ustr
  me_name_to_type :: "ustr \<rightharpoonup> nat"
  me_parsers :: "nat \<rightharpoonup> ('v \<Rightarrow> 'i any_value result)"
  me_values :: "(ustr \<times> (nat \<rightharpoonup> 'i any_value)) list"

definition me_new :: "ustr \<Rightarrow> ('v, 'i) metadata" where
  "me_new name = \<lparr>me_name = name, me_name_to_type = Map.empty, me_parsers = Map.empty, me_values = []\<rparr>"

definition me_descriptor :: "('v \<Rightarrow> metadata_descriptor result) \<Rightarrow> ustr \<Rightarrow> ('v, 'i) metadata \<Rightarrow> ('v, 'i) metadata" where
  "me_descriptor decode name m =
     m\<lparr>me_name_to_type := (me_name_to_type m)(name \<mapsto> descriptor_type),
       me_parsers := (me_parsers m)(descriptor_type \<mapsto>
         (\<lambda>v. case decode v of Inl e \<Rightarrow> Inl e | Inr d \<Rightarrow> Inr (AnyDescriptor d)))\<rparr>"

definition me_of :: "('v \<Rightarrow> 'i list result) \<Rightarrow> model_type \<Rightarrow> ustr \<Rightarrow> ('v, 'i) metadata \<Rightarrow> ('v, 'i) metadata" where
  "me_of decode t name m =
     m\<lparr>me_name_to_type := (me_name_to_type m)(name \<mapsto> mt_meta t),
       me_parsers := (me_parsers m)(mt_meta t \<mapsto>
         (\<lambda>v. case decode v of Inl e \<Rightarrow> Inl e | Inr xs \<Rightarrow> Inr (AnyItems (mt_meta t) xs)))\<rparr>"

definition group_values :: "ustr \<Rightarrow> ('v, 'i) metadata \<Rightarrow> nat \<rightharpoonup> 'i any_value" where
  "group_values grp m = (case map_of (me_values m) grp of None \<Rightarrow> Map.empty | Some vs \<Rightarrow> vs)"

definition me_insert_value :: "ustr \<Rightarrow> 'v \<Rightarrow> ustr \<Rightarrow> ('v, 'i) metadata \<Rightarrow> unit result \<times> ('v, 'i) metadata" where
  "me_insert_value name v grp m =
     (case me_name_to_type m name of
        None \<Rightarrow> (Inl (MissingField name), m)
      | Some t \<Rightarrow>
          (case me_parsers m t of
             None \<Rightarrow> (Inl (MissingField name), m)
           | Some parser \<Rightarrow>
               (case parser v of
                  Inl e \<Rightarrow> (Inl e, m)
                | Inr parsed \<Rightarrow>
                    (Inr (), m\<lparr>me_values := AList.update grp ((group_values grp m)(t \<mapsto> parsed))
                                             (me_values m)\<rparr>))))"

fun me_collect_table :: "(ustr \<times> 'v) list \<Rightarrow> ustr \<Rightarrow> ('v, 'i) metadata \<Rightarrow> unit result \<times> ('v, 'i) metadata" where
  "me_collect_table [] grp m = (Inr (), m)"
| "me_collect_table ((key, val) # table) grp m =
     (if me_name_to_type m key \<noteq> None
      then (case me_insert_value key val grp m of
              (Inl e, m') \<Rightarrow> (Inl e, m')
            | (Inr _, m') \<Rightarrow> me_collect_table table grp m')
      else me_collect_table table grp m)"

definition me_collect_value ::
  "('v \<Rightarrow> (ustr \<times> 'v) list option) \<Rightarrow> 'v \<Rightarrow> ustr \<Rightarrow> ('v, 'i) metadata \<Rightarrow> unit result \<times> ('v, 'i) metadata" where
  "me_collect_value as_table v grp m =
     (case as_table v of
        None \<Rightarrow> (Inl (ParseError ''root must be table''), m)
      | Some table \<Rightarrow> me_collect_table table grp m)"

definition me_from_toml ::
  "(string \<Rightarrow> 'v result) \<Rightarrow> ('v \<Rightarrow> (ustr \<times> 'v) list option) \<Rightarrow> string \<Rightarrow> ustr \<Rightarrow>
   ('v, 'i) metadata \<Rightarrow> unit result \<times> ('v, 'i) metadata" where
  "me_from_toml from_str as_table toml grp m =
     (case from_str toml of Inl e \<Rightarrow> (Inl e, m) | Inr v \<Rightarrow> me_collect_value as_table v grp m)"

definition me_has_group :: "ustr \<Rightarrow> ('v, 'i) metadata \<Rightarrow> bool" where
  "me_has_group grp m \<longleftrightarrow> map_of (me_values m) grp \<noteq> None"

definition me_insert :: "model_type \<Rightarrow> ustr \<Rightarrow> 'i \<Rightarrow> ('v, 'i) metadata \<Rightarrow> ('v, 'i) metadata" where
  "me_insert t grp value m =
     (let grouped = group_values grp m;
          items = (case grouped (mt_meta t) of
                     None \<Rightarrow> []
                   | Some v \<Rightarrow> (case downcast_items (mt_meta t) v of None \<Rightarrow> [] | Some xs \<Rightarrow> xs))
      in m\<lparr>me_values := AList.update grp (grouped(mt_meta t \<mapsto> AnyItems (mt_meta t) (items @ [value])))
                          (me_values m)\<rparr>)"

definition get_in_group :: "model_type \<Rightarrow> ustr \<Rightarrow> ('v, 'i) metadata \<Rightarrow> 'i list option" where
  "get_in_group t grp m =
     (case map_of (me_values m) grp of
        None \<Rightarrow> None
      | Some vs \<Rightarrow> (case vs (mt_meta t) of None \<Rightarrow> None | Some v \<Rightarrow> downcast_items (mt_meta t) v))"

definition get_descriptor :: "ustr \<Rightarrow> ('v, 'i) metadata \<Rightarrow> metadata_descriptor option" where
  "get_descriptor grp m =
     (case map_of (me_values m) grp of
        None \<Rightarrow> None
      | Some vs \<Rightarrow> (case vs descriptor_type of None \<Rightarrow> None | Some v \<Rightarrow> downcast_descriptor v))"

definition me_groups :: "('v, 'i) metadata \<Rightarrow> ustr list" where
  "me_groups m = map fst (me_values m)"

section \<open>The metadata registry\<close>

record ('v, 'i) metadata_registry =
  mr_metadata :: "(ustr \<times> ('v, 'i) metadata) list"
  mr_indexes :: "(nat \<times> (ustr \<rightharpoonup> nat)) list"
  mr_stoppers :: "nat \<rightharpoonup> string \<times> string"

definition mr_default :: "('v, 'i) metadata_registry" where
  "mr_default = \<lparr>mr_metadata = [], mr_indexes = [], mr_stoppers = Map.empty\<rparr>"

definition has_metadata :: "('v, 'i) metadata_registry \<Rightarrow> ustr \<Rightarrow> bool" where
  "has_metadata mr k \<longleftrightarrow> map_of (mr_metadata mr) k \<noteq> None"

definition resolve_metadata_key :: "('v, 'i) metadata_registry \<Rightarrow> ustr \<Rightarrow> string \<Rightarrow> ustr" where
  "resolve_metadata_key mr metadata full_name =
     (let scope = sn_scope (parse_scoped_name full_name);
          fallback = (if has_metadata mr metadata then metadata
                      else if has_metadata mr scope then scope else metadata)
      in if metadata = ''*'' then
           (if has_metadata mr scope then scope
            else if has_metadata mr ''units'' then ''units''
            else if has_metadata mr ''static'' then ''static''
            else (case mr_metadata mr of (first, _) # _ \<Rightarrow> first | [] \<Rightarrow> fallback))
         else fallback)"

definition insert_metadata :: "('v, 'i) metadata \<Rightarrow> ('v, 'i) metadata_registry \<Rightarrow> ('v, 'i) metadata_registry" where
  "insert_metadata m mr = mr\<lparr>mr_metadata := AList.update (me_name m) m (mr_metadata mr)\<rparr>"

definition load_group_from_toml ::
  "(string \<Rightarrow> 'v result) \<Rightarrow> ('v \<Rightarrow> (ustr \<times> 'v) list option) \<Rightarrow> ('v, 'i) metadata \<Rightarrow> ustr \<Rightarrow> string \<Rightarrow>
   ('v, 'i) metadata_registry \<Rightarrow> unit result \<times> ('v, 'i) metadata \<times> ('v, 'i) metadata_registry" where
  "load_group_from_toml from_str as_table m grp source mr =
     (case me_from_toml from_str as_table source grp m of
        (Inl e, m') \<Rightarrow> (Inl e, m', mr)
      | (Inr _, m') \<Rightarrow> (Inr (), m', mr\<lparr>mr_indexes := []\<rparr>))"

definition group_items :: "('v, 'i) metadata_registry \<Rightarrow> model_type \<Rightarrow> ustr \<Rightarrow> ustr \<Rightarrow> 'i list option" where
  "group_items mr t metadata grp =
     (if metadata = ''*''
      then Some (concat (map (\<lambda>(_, m). case get_in_group t grp m of None \<Rightarrow> [] | Some xs \<Rightarrow> xs)
                   (mr_metadata mr)))
      else (case map_of (mr_metadata mr) metadata of
              None \<Rightarrow> None
            | Some m \<Rightarrow> get_in_group t grp m))"

definition mr_has_group :: "('v, 'i) metadata_registry \<Rightarrow> ustr \<Rightarrow> ustr \<Rightarrow> bool" where
  "mr_has_group mr metadata grp =
     (case map_of (mr_metadata mr) metadata of None \<Rightarrow> False | Some m \<Rightarrow> me_has_group grp m)"

definition grouped_items :: "model_type \<Rightarrow> ('v, 'i) metadata \<Rightarrow> (ustr \<times> 'i) list" where
  "grouped_items t m =
     concat (map (\<lambda>grp. case get_in_group t grp m of None \<Rightarrow> [] | Some xs \<Rightarrow> map (Pair grp) xs)
       (me_groups m))"

definition mr_items :: "('v, 'i) metadata_registry \<Rightarrow> model_type \<Rightarrow> ustr \<Rightarrow> (ustr \<times> 'i) list option" where
  "mr_items mr t metadata =
     (if metadata = ''*'' then Some (concat (map (\<lambda>(_, m). grouped_items t m) (mr_metadata mr)))
      else map_option (grouped_items t) (map_of (mr_metadata mr) metadata))"

definition mr_all_items :: "('v, 'i) metadata_registry \<Rightarrow> model_type \<Rightarrow> (ustr \<times> (ustr \<times> 'i) list) list" where
  "mr_all_items mr t = map (\<lambda>(u, m). (u, grouped_items t m)) (mr_metadata mr)"

definition mr_all_groups :: "('v, 'i) metadata_registry \<Rightarrow> (ustr \<times> ustr list) list" where
  "mr_all_groups mr = map (\<lambda>(u, m). (u, me_groups m)) (mr_metadata mr)"

text \<open>\<open>ensure_index_for_type\<close>; \<open>nm\<close> is \<open>NamedItem::name\<close>.\<close>

definition index_group :: "('i \<Rightarrow> string) \<Rightarrow> ustr \<Rightarrow> 'i list \<Rightarrow> (ustr \<rightharpoonup> nat) \<Rightarrow> ustr \<rightharpoonup> nat" where
  "index_group nm grp xs ix =
     fold (\<lambda>(idx, item) ix. ix(rslvns_join grp (nm item) \<mapsto> idx)) (enumerate 0 xs) ix"

definition ensure_index_for_type ::
  "('i \<Rightarrow> string) \<Rightarrow> model_type \<Rightarrow> ustr \<Rightarrow> ('v, 'i) metadata_registry \<Rightarrow> unit result \<times> ('v, 'i) metadata_registry" where
  "ensure_index_for_type nm t metadata mr =
     (case map_of (mr_metadata mr) metadata of
        None \<Rightarrow> (Inl (MetadataNotFound metadata), mr)
      | Some m \<Rightarrow>
          let ix0 = (case map_of (mr_indexes mr) (mt_id t) of None \<Rightarrow> Map.empty | Some ix \<Rightarrow> ix);
              ix = fold (\<lambda>grp ix. case get_in_group t grp m of
                                    None \<Rightarrow> ix | Some xs \<Rightarrow> index_group nm grp xs ix) (me_groups m) ix0
          in (Inr (), mr\<lparr>mr_indexes := AList.update (mt_id t) ix (mr_indexes mr)\<rparr>))"

definition mr_lookup :: "('i \<Rightarrow> string) \<Rightarrow> ('v, 'i) metadata_registry \<Rightarrow> model_type \<Rightarrow> ustr \<Rightarrow> ustr \<Rightarrow> 'i option" where
  "mr_lookup nm mr t metadata full_name =
     (let metadata = resolve_metadata_key mr metadata full_name;
          (grp, item_name, _) = rslvns_res full_name
      in (case group_items mr t metadata grp of
            None \<Rightarrow> None
          | Some xs \<Rightarrow> find (\<lambda>item. nm item = item_name) xs))"

definition mr_find :: "('i \<Rightarrow> string) \<Rightarrow> ('v, 'i) metadata_registry \<Rightarrow> model_type \<Rightarrow> ustr \<Rightarrow> ustr \<Rightarrow> 'i option" where
  "mr_find nm mr t metadata full_name =
     (let metadata = resolve_metadata_key mr metadata full_name;
          (grp, _, _) = rslvns_res full_name
      in (case map_of (mr_indexes mr) (mt_id t) of
            None \<Rightarrow> None
          | Some ix \<Rightarrow>
              (case ix full_name of
                 Some idx \<Rightarrow>
                   (case group_items mr t metadata grp of
                      None \<Rightarrow> None
                    | Some xs \<Rightarrow> if idx < length xs then Some (xs ! idx) else None)
               | None \<Rightarrow> mr_lookup nm mr t metadata full_name)))"

fun find_some :: "('a \<Rightarrow> 'b option) \<Rightarrow> 'a list \<Rightarrow> 'b option" where
  "find_some f [] = None"
| "find_some f (x # xs) = (case f x of Some y \<Rightarrow> Some y | None \<Rightarrow> find_some f xs)"

definition lookup_in_any_group ::
  "('i \<Rightarrow> string) \<Rightarrow> ('v, 'i) metadata_registry \<Rightarrow> model_type \<Rightarrow> ustr \<Rightarrow> string \<Rightarrow> 'i option" where
  "lookup_in_any_group nm mr t metadata item_name =
     (case map_of (mr_metadata mr) metadata of
        None \<Rightarrow> None
      | Some m \<Rightarrow>
          find_some (\<lambda>grp. mr_lookup nm mr t metadata (rslvns_join grp item_name)) (me_groups m))"

definition mr_remove_metadata :: "ustr \<Rightarrow> ('v, 'i) metadata_registry \<Rightarrow> bool \<times> ('v, 'i) metadata_registry" where
  "mr_remove_metadata metadata mr =
     (let removed = has_metadata mr metadata;
          mr' = mr\<lparr>mr_metadata := AList.delete metadata (mr_metadata mr)\<rparr>
      in (removed, if removed then mr'\<lparr>mr_indexes := []\<rparr> else mr'))"

definition mr_stopper :: "model_type \<Rightarrow> string \<Rightarrow> string \<Rightarrow> ('v, 'i) metadata_registry \<Rightarrow> ('v, 'i) metadata_registry" where
  "mr_stopper t runtime action mr = mr\<lparr>mr_stoppers := (mr_stoppers mr)(mt_id t \<mapsto> (runtime, action))\<rparr>"

definition mr_descriptor :: "('v, 'i) metadata_registry \<Rightarrow> ustr \<Rightarrow> ustr \<Rightarrow> metadata_descriptor option" where
  "mr_descriptor mr metadata grp =
     (case map_of (mr_metadata mr) metadata of None \<Rightarrow> None | Some m \<Rightarrow> get_descriptor grp m)"

section \<open>Instances\<close>

text \<open>An instance is a boxed value with the type it was boxed at.\<close>

type_synonym 'x boxed = "nat \<times> 'x"
type_synonym 'x instance_map = "ustr \<rightharpoonup> 'x boxed list"

definition downcast :: "nat \<Rightarrow> 'x boxed \<Rightarrow> 'x option" where
  "downcast t b = (if fst b = t then Some (snd b) else None)"

definition instance_mismatch :: core_error where
  "instance_mismatch = TypeMismatch ''instance'' ''unkown''"

definition resolved_metadata_and_full_name ::
  "('v, 'i) metadata_registry \<Rightarrow> ustr \<Rightarrow> ustr \<Rightarrow> ustr \<times> ustr" where
  "resolved_metadata_and_full_name mr metadata name =
     (let resolved = resolve_metadata_key mr metadata name in (resolved, rslvns_scp resolved name))"

text \<open>
  The methods that return a reference return the value it points to; \<open>mk\<close> is the caller's
  constructor. The entry of the name is created before the constructor may fail.
\<close>

definition instantiate ::
  "('i \<Rightarrow> string) \<Rightarrow> ('v, 'i) metadata_registry \<Rightarrow> model_type \<Rightarrow> ustr \<Rightarrow> ustr \<Rightarrow> ('i \<Rightarrow> 'x result) \<Rightarrow>
   'x instance_map \<Rightarrow> 'x result \<times> 'x instance_map" where
  "instantiate nm mr t metadata name mk inst =
     (let (md, full_name) = resolved_metadata_and_full_name mr metadata name in
      case (if CHR '':'' \<in> set name then mr_find nm mr t md name
            else lookup_in_any_group nm mr t md name) of
        None \<Rightarrow> (Inl (MetadataNotFound md), inst)
      | Some item \<Rightarrow>
          let entry = (case inst full_name of None \<Rightarrow> [] | Some l \<Rightarrow> l) in
          (case mk item of
             Inl e \<Rightarrow> (Inl e, inst(full_name \<mapsto> entry))
           | Inr x \<Rightarrow> (Inr x, inst(full_name \<mapsto> entry @ [(mt_id t, x)]))))"

definition instantiate_one ::
  "('i \<Rightarrow> string) \<Rightarrow> ('v, 'i) metadata_registry \<Rightarrow> model_type \<Rightarrow> ustr \<Rightarrow> ustr \<Rightarrow> ('i \<Rightarrow> 'x result) \<Rightarrow>
   'x instance_map \<Rightarrow> 'x result \<times> 'x instance_map" where
  "instantiate_one nm mr t metadata name mk inst =
     (let (md, full_name) = resolved_metadata_and_full_name mr metadata name in
      case inst full_name of
        None \<Rightarrow> instantiate nm mr t md name mk inst
      | Some [] \<Rightarrow> instantiate nm mr t md name mk inst
      | Some (b # _) \<Rightarrow>
          (case downcast (mt_id t) b of
             None \<Rightarrow> (Inl instance_mismatch, inst)
           | Some x \<Rightarrow> (Inr x, inst)))"

definition instances_of ::
  "('v, 'i) metadata_registry \<Rightarrow> model_type \<Rightarrow> ustr \<Rightarrow> ustr \<Rightarrow> 'x instance_map \<Rightarrow> 'x list result" where
  "instances_of mr t metadata name inst =
     (let full_name = snd (resolved_metadata_and_full_name mr metadata name) in
      case inst full_name of
        None \<Rightarrow> Inl (MissingInstances full_name)
      | Some l \<Rightarrow> Inr (List.map_filter (downcast (mt_id t)) l))"

definition uninstantiate ::
  "('v, 'i) metadata_registry \<Rightarrow> model_type \<Rightarrow> ustr \<Rightarrow> ustr \<Rightarrow> 'x instance_map \<Rightarrow>
   'x list result \<times> 'x instance_map" where
  "uninstantiate mr t metadata name inst =
     (let full_name = snd (resolved_metadata_and_full_name mr metadata name) in
      case inst full_name of
        None \<Rightarrow> (Inl (MissingInstances full_name), inst)
      | Some l \<Rightarrow> (Inr (List.map_filter (downcast (mt_id t)) l), inst(full_name := None)))"

definition uninstantiate_one ::
  "('v, 'i) metadata_registry \<Rightarrow> model_type \<Rightarrow> ustr \<Rightarrow> ustr \<Rightarrow> 'x instance_map \<Rightarrow>
   'x result \<times> 'x instance_map" where
  "uninstantiate_one mr t metadata name inst =
     (case uninstantiate mr t metadata name inst of
        (Inl e, inst') \<Rightarrow> (Inl e, inst')
      | (Inr xs, inst') \<Rightarrow> (if xs = [] then Inl UnknownError else Inr (last xs), inst'))"

definition as_one ::
  "('v, 'i) metadata_registry \<Rightarrow> model_type \<Rightarrow> ustr \<Rightarrow> ustr \<Rightarrow> 'x instance_map \<Rightarrow> 'x result" where
  "as_one mr t metadata name inst =
     (let full_name = snd (resolved_metadata_and_full_name mr metadata name) in
      case inst full_name of
        None \<Rightarrow> Inl (MissingInstances full_name)
      | Some l \<Rightarrow>
          if l = [] then Inl (MissingInstances full_name)
          else ok_or instance_mismatch (downcast (mt_id t) (last l)))"

text \<open>Writing through \<open>as_one_mut\<close>: the last instance is replaced.\<close>

definition as_one_update ::
  "('v, 'i) metadata_registry \<Rightarrow> model_type \<Rightarrow> ustr \<Rightarrow> ustr \<Rightarrow> ('x \<Rightarrow> 'x) \<Rightarrow> 'x instance_map \<Rightarrow>
   'x result \<times> 'x instance_map" where
  "as_one_update mr t metadata name f inst =
     (case as_one mr t metadata name inst of
        Inl e \<Rightarrow> (Inl e, inst)
      | Inr x \<Rightarrow>
          let full_name = snd (resolved_metadata_and_full_name mr metadata name) in
          (Inr (f x), inst(full_name := map_option (\<lambda>l. butlast l @ [(mt_id t, f x)]) (inst full_name))))"

definition singleton_of :: "nat \<Rightarrow> ustr \<Rightarrow> 'x instance_map \<Rightarrow> 'x option" where
  "singleton_of t key inst =
     (case inst key of
        None \<Rightarrow> None
      | Some [] \<Rightarrow> None
      | Some (b # _) \<Rightarrow> downcast t b)"

text \<open>A type mismatch panics, which is \<open>None\<close>.\<close>

definition singleton_or_insert_with ::
  "nat \<Rightarrow> ustr \<Rightarrow> 'x \<Rightarrow> 'x instance_map \<Rightarrow> ('x \<times> 'x instance_map) option" where
  "singleton_or_insert_with t key init inst =
     (let entry = (case inst key of None \<Rightarrow> [] | Some l \<Rightarrow> l);
          entry' = (if entry = [] then [(t, init)] else entry)
      in (case downcast t (hd entry') of None \<Rightarrow> None | Some x \<Rightarrow> Some (x, inst(key \<mapsto> entry'))))"

text \<open>
  \<open>singleton_handle\<close> on any number of keys, each with the type expected there: the lists are
  taken out of the map one by one, the closure works on their first elements and on the rest of
  the map, and the lists are put back. An early return leaves out what was taken.
\<close>

fun take_lists :: "(ustr \<times> nat) list \<Rightarrow> 'x instance_map \<Rightarrow> 'x boxed list list result \<times> 'x instance_map" where
  "take_lists [] inst = (Inr [], inst)"
| "take_lists ((k, t) # ks) inst =
     (case inst k of
        None \<Rightarrow> (Inl (MissingField k), inst)
      | Some l \<Rightarrow>
          (case take_lists ks (inst(k := None)) of
             (Inl e, inst') \<Rightarrow> (Inl e, inst')
           | (Inr ls, inst') \<Rightarrow> (Inr (l # ls), inst')))"

text \<open>A mismatch names the macro's type parameter: \<open>A\<close>, \<open>B\<close> and so on.\<close>

fun first_values :: "nat \<Rightarrow> (ustr \<times> nat) list \<Rightarrow> 'x boxed list list \<Rightarrow> 'x list result" where
  "first_values n ((k, t) # ks) (l # ls) =
     (case l of
        [] \<Rightarrow> Inl (MissingField k)
      | b # _ \<Rightarrow>
          (case downcast t b of
             None \<Rightarrow> Inl (TypeMismatch k [char_of (65 + n)])
           | Some x \<Rightarrow>
               (case first_values (Suc n) ks ls of Inl e \<Rightarrow> Inl e | Inr xs \<Rightarrow> Inr (x # xs))))"
| "first_values _ _ _ = Inr []"

fun put_lists :: "(ustr \<times> nat) list \<Rightarrow> 'x boxed list list \<Rightarrow> 'x list \<Rightarrow> 'x instance_map \<Rightarrow> 'x instance_map" where
  "put_lists ((k, t) # ks) (l # ls) (x # xs) inst = put_lists ks ls xs (inst(k \<mapsto> (t, x) # tl l))"
| "put_lists _ _ _ inst = inst"

definition singleton_handle ::
  "(ustr \<times> nat) list \<Rightarrow> ('x instance_map \<Rightarrow> 'x list \<Rightarrow> 'r result \<times> 'x instance_map \<times> 'x list) \<Rightarrow>
   'x instance_map \<Rightarrow> 'r result \<times> 'x instance_map" where
  "singleton_handle keys f inst =
     (if \<not> distinct (map fst keys) then (Inl DoubleKey, inst)
      else (case take_lists keys inst of
              (Inl e, inst1) \<Rightarrow> (Inl e, inst1)
            | (Inr ls, inst1) \<Rightarrow>
                (case first_values 0 keys ls of
                   Inl e \<Rightarrow> (Inl e, inst1)
                 | Inr xs \<Rightarrow>
                     (case f inst1 xs of (r, inst2, ys) \<Rightarrow> (r, put_lists keys ls ys inst2)))))"

section \<open>Fresh indexes\<close>

lemma parse_scope_join:
  assumes "CHR '':'' \<notin> set g" "CHR '':'' \<notin> set c" "CHR ''@'' \<notin> set g" "CHR ''@'' \<notin> set c"
  shows "rslvns_res (rslvns_join g c) = (g, c, ''static'')"
  using rslvns_res_static [OF assms] by (simp add: rslvns_join_def)

lemma resolve_present:
  "metadata \<noteq> ''*'' \<Longrightarrow> has_metadata mr metadata \<Longrightarrow> resolve_metadata_key mr metadata n = metadata"
  by (simp add: resolve_metadata_key_def Let_def)

lemma index_group_origin:
  "index_group nm grp xs ix k = Some idx \<Longrightarrow>
   ix k = Some idx \<or> (idx < length xs \<and> k = rslvns_join grp (nm (xs ! idx)))"
proof -
  have "fold (\<lambda>(idx, item) ix. ix(rslvns_join grp (nm item) \<mapsto> idx)) (enumerate n xs) ix k = Some idx \<Longrightarrow>
      ix k = Some idx \<or> (n \<le> idx \<and> idx < n + length xs \<and> k = rslvns_join grp (nm (xs ! (idx - n))))" for n
  proof (induction xs arbitrary: n ix)
    case (Cons x xs)
    from Cons.IH [of "Suc n" "ix(rslvns_join grp (nm x) \<mapsto> n)"] Cons.prems show ?case
      by (auto split: if_splits simp: nth_Cons' Suc_diff_le)
  qed simp
  from this [of 0] show "index_group nm grp xs ix k = Some idx \<Longrightarrow>
      ix k = Some idx \<or> (idx < length xs \<and> k = rslvns_join grp (nm (xs ! idx)))"
    by (simp add: index_group_def)
qed

text \<open>Every entry of an index built from nothing points to an item of that name.\<close>

lemma index_origin:
  "fold (\<lambda>grp ix. case get_in_group t grp m of None \<Rightarrow> ix | Some xs \<Rightarrow> index_group nm grp xs ix) gs ix k
     = Some idx \<Longrightarrow>
   ix k = Some idx \<or> (\<exists>grp \<in> set gs. \<exists>xs. get_in_group t grp m = Some xs \<and> idx < length xs \<and>
     k = rslvns_join grp (nm (xs ! idx)))"
proof (induction gs arbitrary: ix)
  case (Cons g gs)
  show ?case
  proof (cases "get_in_group t g m")
    case None
    with Cons show ?thesis by auto
  next
    case (Some xs)
    with Cons.prems Cons.IH [of "index_group nm g xs ix"] index_group_origin [of nm g xs ix k idx]
    show ?thesis by auto
  qed
qed simp

text \<open>The names a unit file may use: no separator in a group or item name, no name twice.\<close>

definition names_ok :: "('i \<Rightarrow> string) \<Rightarrow> model_type \<Rightarrow> ('v, 'i) metadata \<Rightarrow> bool" where
  "names_ok nm t m \<longleftrightarrow>
     (\<forall>grp \<in> set (me_groups m). CHR '':'' \<notin> set grp \<and> CHR ''@'' \<notin> set grp \<and>
        (\<forall>xs. get_in_group t grp m = Some xs \<longrightarrow> distinct (map nm xs) \<and>
           (\<forall>x \<in> set xs. CHR '':'' \<notin> set (nm x) \<and> CHR ''@'' \<notin> set (nm x))))"

lemma find_distinct_name:
  "distinct (map nm xs) \<Longrightarrow> x \<in> set xs \<Longrightarrow> find (\<lambda>y. nm y = nm x) xs = Some x"
  by (induction xs) (auto dest: key_neq_of_notin)

lemma lookup_item:
  assumes "map_of (mr_metadata mr) md = Some m" and "md \<noteq> ''*''" and "names_ok nm t m"
    and "grp \<in> set (me_groups m)" and "get_in_group t grp m = Some xs" and "x \<in> set xs"
  shows "mr_lookup nm mr t md (rslvns_join grp (nm x)) = Some x"
proof -
  have ok: "CHR '':'' \<notin> set grp" "CHR ''@'' \<notin> set grp" "CHR '':'' \<notin> set (nm x)" "CHR ''@'' \<notin> set (nm x)"
    "distinct (map nm xs)"
    using assms(3-6) by (auto simp: names_ok_def)
  then show ?thesis
    using assms(1,2,5) find_distinct_name [OF ok(5) assms(6)]
    by (simp add: mr_lookup_def resolve_present has_metadata_def group_items_def parse_scope_join)
qed

text \<open>
  An index built for one metadata is a pure optimisation. Right after
  \<open>ensure_index_for_type\<close> on a registry that had none for the model, \<open>find\<close> in that
  metadata answers for every name what the linear \<open>lookup\<close> answers, and each item is found
  under its full name; group and item names must be free of separators and not repeat.
\<close>

theorem find_eq_lookup:
  assumes "map_of (mr_metadata mr) md = Some m" and "md \<noteq> ''*''" and "names_ok nm t m"
    and "map_of (mr_indexes mr) (mt_id t) = None"
    and "ensure_index_for_type nm t md mr = (r, mr')"
  shows "r = Inr () \<and> mr_find nm mr' t md full_name = mr_lookup nm mr' t md full_name \<and>
    (grp \<in> set (me_groups m) \<and> get_in_group t grp m = Some xs \<and> x \<in> set xs \<longrightarrow>
     mr_find nm mr' t md (rslvns_join grp (nm x)) = Some x)"
proof -
  let ?ix = "fold (\<lambda>grp ix. case get_in_group t grp m of None \<Rightarrow> ix | Some xs \<Rightarrow> index_group nm grp xs ix)
      (me_groups m) Map.empty"
  from assms(1,4,5) have r: "r = Inr ()"
    and mr': "mr' = mr\<lparr>mr_indexes := AList.update (mt_id t) ?ix (mr_indexes mr)\<rparr>"
    by (auto simp: ensure_index_for_type_def Let_def)
  have md: "map_of (mr_metadata mr') md = Some m" by (simp add: mr' assms(1))
  have eq: "mr_find nm mr' t md k = mr_lookup nm mr' t md k" for k
  proof (cases "?ix k")
    case None
    then show ?thesis
      using md assms(2)
      by (simp add: mr_find_def mr' Let_def resolve_present has_metadata_def split: prod.splits)
  next
    case (Some idx)
    from index_origin [OF Some] obtain g ys where g: "g \<in> set (me_groups m)"
      and ys: "get_in_group t g m = Some ys" and idx: "idx < length ys"
      and k: "k = rslvns_join g (nm (ys ! idx))" by auto
    have "CHR '':'' \<notin> set g" "CHR ''@'' \<notin> set g" "CHR '':'' \<notin> set (nm (ys ! idx))"
      "CHR ''@'' \<notin> set (nm (ys ! idx))"
      using assms(3) g ys idx by (auto simp: names_ok_def)
    then have "mr_find nm mr' t md k = Some (ys ! idx)"
      using Some md assms(2) ys idx
      by (simp add: mr_find_def mr' Let_def resolve_present has_metadata_def k parse_scope_join
          group_items_def)
    with lookup_item [OF md assms(2,3) g ys, of "ys ! idx"] idx k show ?thesis by simp
  qed
  with r lookup_item [OF md assms(2,3)] show ?thesis by auto
qed

section \<open>Singletons\<close>

lemma take_lists_ok:
  "distinct (map fst keys) \<Longrightarrow> \<forall>k \<in> fst ` set keys. inst k \<noteq> None \<Longrightarrow>
   take_lists keys inst = (Inr (map (\<lambda>(k, t). the (inst k)) keys),
     (\<lambda>k. if k \<in> fst ` set keys then None else inst k))"
proof (induction keys arbitrary: inst)
  case (Cons a keys)
  obtain k t where a: "a = (k, t)" by fastforce
  from Cons.prems a obtain l where l: "inst k = Some l" by auto
  from Cons.prems a have nk: "k \<notin> fst ` set keys" and d: "distinct (map fst keys)" by auto
  have p: "\<forall>k' \<in> fst ` set keys. (inst(k := None)) k' \<noteq> None"
    using Cons.prems(2) nk by auto
  have "map (\<lambda>(k', t). the ((inst(k := None)) k')) keys = map (\<lambda>(k', t). the (inst k')) keys"
    using nk by (auto simp: image_iff)
  with Cons.IH [OF d p] l have "take_lists (a # keys) inst = (Inr (map (\<lambda>(k, t). the (inst k)) (a # keys)),
      (\<lambda>j. if j \<in> fst ` set keys then None else (inst(k := None)) j))"
    by (simp add: a del: fun_upd_apply)
  then show ?case by (auto simp: a fun_eq_iff)
qed (simp add: fun_eq_iff)

lemma first_values_ok:
  "\<forall>(k, t) \<in> set keys. \<exists>x l. inst k = Some ((t, x) # l) \<Longrightarrow>
   first_values n keys (map (\<lambda>(k, t). the (inst k)) keys) =
     Inr (map (\<lambda>(k, t). snd (hd (the (inst k)))) keys)"
  by (induction keys arbitrary: n) (auto simp: downcast_def)

lemma put_lists_other:
  "k \<notin> fst ` set keys \<Longrightarrow> put_lists keys ls xs inst k = inst k"
proof (induction keys ls xs inst rule: put_lists.induct)
  case (1 k' t ks l ls x xs inst)
  from 1(2) have "k \<notin> fst ` set ks" "k \<noteq> k'" by auto
  with 1(1) show ?case by (simp del: fun_upd_apply) simp
qed auto

lemma put_lists_key:
  "distinct (map fst keys) \<Longrightarrow> length ls = length keys \<Longrightarrow> length xs = length keys \<Longrightarrow>
   i < length keys \<Longrightarrow>
   put_lists keys ls xs inst (fst (keys ! i)) = Some ((snd (keys ! i), xs ! i) # tl (ls ! i))"
proof (induction keys ls xs inst arbitrary: i rule: put_lists.induct)
  case (1 k t ks l ls x xs inst)
  show ?case
  proof (cases i)
    case 0
    with 1(2) show ?thesis by (simp add: put_lists_other)
  next
    case (Suc j)
    with 1 show ?thesis by (simp del: fun_upd_apply)
  qed
qed auto

text \<open>
  \<open>singleton_handle\<close> with every key present and of its type: the closure sees the first
  value of each key and a map without those keys; afterwards every key holds the value the
  closure left, in front of its untouched other instances, and everything else is as the closure
  left it, whether it succeeded or not.
\<close>

theorem singleton_handle_restores:
  assumes "distinct (map fst keys)" and "\<forall>(k, t) \<in> set keys. \<exists>x l. inst k = Some ((t, x) # l)"
    and "f (\<lambda>k. if k \<in> fst ` set keys then None else inst k)
           (map (\<lambda>(k, t). snd (hd (the (inst k)))) keys) = (r, inst2, ys)"
    and "length ys = length keys"
  shows "\<exists>inst'. singleton_handle keys f inst = (r, inst') \<and>
    (\<forall>k. k \<notin> fst ` set keys \<longrightarrow> inst' k = inst2 k) \<and>
    (\<forall>i < length keys. inst' (fst (keys ! i)) =
       Some ((snd (keys ! i), ys ! i) # tl (the (inst (fst (keys ! i))))))"
proof -
  let ?ls = "map (\<lambda>(k, t). the (inst k)) keys"
  have present: "\<forall>k \<in> fst ` set keys. inst k \<noteq> None" using assms(2) by fastforce
  have "singleton_handle keys f inst = (r, put_lists keys ?ls ys inst2)"
    using assms(1,3)
    by (simp add: singleton_handle_def take_lists_ok [OF assms(1) present] first_values_ok [OF assms(2)])
  moreover have "put_lists keys ?ls ys inst2 (fst (keys ! i)) =
      Some ((snd (keys ! i), ys ! i) # tl (the (inst (fst (keys ! i)))))" if "i < length keys" for i
    using put_lists_key [OF assms(1), of ?ls ys i inst2] assms(4) that
    by (simp add: case_prod_beta)
  ultimately show ?thesis using put_lists_other by blast
qed

text \<open>
  When a later key is absent, the ones taken before it are not put back: the call fails and
  the singletons of the earlier keys are gone.
\<close>

theorem singleton_handle_loses:
  assumes "a \<noteq> b" and "inst a = Some l" and "inst b = None"
  shows "singleton_handle [(a, t), (b, u)] f inst = (Inl (MissingField b), inst(a := None))"
  using assms by (simp add: singleton_handle_def)

section \<open>Instances of two models under one name\<close>

definition instance_list :: "ustr \<Rightarrow> 'x instance_map \<Rightarrow> 'x boxed list" where
  "instance_list k inst = (case inst k of None \<Rightarrow> [] | Some l \<Rightarrow> l)"

lemma instantiate_ok:
  "instantiate nm mr t md name mk inst = (Inr x, inst') \<Longrightarrow>
   inst' = inst(snd (resolved_metadata_and_full_name mr md name) \<mapsto>
     instance_list (snd (resolved_metadata_and_full_name mr md name)) inst @ [(mt_id t, x)])"
  by (auto simp: instantiate_def instance_list_def Let_def
      split: prod.splits option.splits sum.splits if_splits)

lemma map_filter_append [simp]: "List.map_filter f (xs @ ys) = List.map_filter f xs @ List.map_filter f ys"
  by (simp add: List.map_filter_def)

text \<open>
  The instance map is keyed by name alone. When an instance of one model and then one of
  another are made under the same name, the first can no longer be reached with \<open>as_one\<close>,
  and \<open>uninstantiate\<close> of the first model also drops the second's instance.
\<close>

theorem instances_share_name:
  assumes "mt_id t \<noteq> mt_id u"
    and "instantiate nm mr t md name mk inst = (Inr x, inst1)"
    and "instantiate nm mr u md name mk' inst1 = (Inr y, inst2)"
  shows "as_one mr u md name inst2 = Inr y \<and> as_one mr t md name inst2 = Inl instance_mismatch \<and>
    uninstantiate mr t md name inst2 =
      (Inr (List.map_filter (downcast (mt_id t))
              (instance_list (snd (resolved_metadata_and_full_name mr md name)) inst) @ [x]),
       inst2(snd (resolved_metadata_and_full_name mr md name) := None))"
  using assms(1) instantiate_ok [OF assms(2)] instantiate_ok [OF assms(3)]
  by (simp add: as_one_def uninstantiate_def downcast_def instance_list_def map_filter_simps Let_def)

section \<open>A concrete registry\<close>

definition demo_model :: model_type where "demo_model = \<lparr>mt_id = 1, mt_meta = 2\<rparr>"

definition demo_metadata :: "ustr \<Rightarrow> string list \<Rightarrow> (unit, string) metadata" where
  "demo_metadata scope names = fold (\<lambda>n. me_insert demo_model ''web'' n) names (me_new scope)"

definition demo_registry :: "(unit, string) metadata_registry" where
  "demo_registry = insert_metadata (demo_metadata ''dyn'' [''b''])
     (insert_metadata (demo_metadata ''static'' [''a'', ''b'']) mr_default)"

text \<open>
  The index keeps one position per name for all metadata together. With \<open>web:b\<close> the
  second item of the static units and the first of a dynamic scope, indexing both, as the unit
  loader does for every scope, makes \<open>find\<close> in the static units return item \<open>a\<close> for
  \<open>web:b\<close>, where \<open>lookup\<close> returns \<open>b\<close>.
\<close>

theorem index_crosses_scopes:
  "let mr = snd (ensure_index_for_type id demo_model ''dyn''
              (snd (ensure_index_for_type id demo_model ''static'' demo_registry)))
   in mr_find id mr demo_model ''*'' ''web:b'' = Some ''a'' \<and>
      mr_lookup id mr demo_model ''*'' ''web:b'' = Some ''b''"
  by code_simp

theorem find_eq_lookup_witness:
  "mr_find id (snd (ensure_index_for_type id demo_model ''static'' demo_registry)) demo_model
     ''static'' (rslvns_join ''web'' ''b'') = Some ''b''"
proof -
  let ?m = "demo_metadata ''static'' [''a'', ''b'']"
  have m: "map_of (mr_metadata demo_registry) ''static'' = Some ?m"
    by (simp add: demo_registry_def insert_metadata_def demo_metadata_def me_insert_def me_new_def
        mr_default_def Let_def)
  have g: "me_groups ?m = [''web'']" "get_in_group demo_model ''web'' ?m = Some [''a'', ''b'']"
    by code_simp+
  then have "names_ok id demo_model ?m" by (simp add: names_ok_def)
  moreover have "map_of (mr_indexes demo_registry) (mt_id demo_model) = None"
    by (simp add: demo_registry_def insert_metadata_def mr_default_def)
  ultimately show ?thesis
    using find_eq_lookup [OF m _ _ _ surjective_pairing, of id demo_model "[]" "''web''" "[''a'', ''b'']" "''b''"] g
    by simp
qed

definition demo_instances :: "nat instance_map" where
  "demo_instances = [''pam'' \<mapsto> [(1, 10)], ''perm'' \<mapsto> [(2, 20), (2, 21)]]"

theorem singleton_handle_restores_witness:
  "\<exists>inst'. singleton_handle [(''pam'', 1), (''perm'', 2)] (\<lambda>inst xs. (Inr (sum_list xs), inst, map Suc xs))
      demo_instances = (Inr 30, inst') \<and> inst' ''perm'' = Some [(2, 21), (2, 21)]"
proof -
  have "\<exists>inst'. singleton_handle [(''pam'', 1), (''perm'', 2)]
        (\<lambda>inst xs. (Inr (sum_list xs), inst, map Suc xs)) demo_instances = (Inr 30, inst') \<and>
      (\<forall>k. k \<notin> fst ` set [(''pam'', 1 :: nat), (''perm'', 2)] \<longrightarrow>
         inst' k = (\<lambda>k. if k \<in> fst ` set [(''pam'', 1 :: nat), (''perm'', 2)] then None
                        else demo_instances k) k) \<and>
      (\<forall>i < length [(''pam'', 1 :: nat), (''perm'', 2)].
         inst' (fst ([(''pam'', 1 :: nat), (''perm'', 2)] ! i)) =
         Some ((snd ([(''pam'', 1), (''perm'', 2)] ! i), [11, 21] ! i) #
           tl (the (demo_instances (fst ([(''pam'', 1 :: nat), (''perm'', 2)] ! i))))))"
    by (rule singleton_handle_restores) (simp_all add: demo_instances_def)
  then show ?thesis by (fastforce simp: demo_instances_def dest: spec [of _ 1])
qed

theorem singleton_handle_loses_witness:
  "singleton_handle [(''pam'', 1), (''gone'', 2)] (\<lambda>inst xs. (Inr (), inst, xs)) demo_instances
     = (Inl (MissingField ''gone''), demo_instances(''pam'' := None))"
  by (rule singleton_handle_loses) (simp_all add: demo_instances_def)

theorem instances_share_name_witness:
  "\<exists>inst2 :: nat instance_map. as_one demo_registry demo_model ''static'' ''b'' inst2 = Inl instance_mismatch"
proof -
  let ?u = "\<lparr>mt_id = 3, mt_meta = 2\<rparr>"
  let ?i = "instantiate id demo_registry demo_model ''static'' ''b'' (\<lambda>_. Inr 1) Map.empty :: nat result \<times> nat instance_map"
  let ?j = "instantiate id demo_registry ?u ''static'' ''b'' (\<lambda>_. Inr 2) (snd ?i)"
  have "fst ?i = Inr 1" by code_simp
  then have i: "?i = (Inr 1, snd ?i)" by (metis prod.collapse)
  have "fst ?j = Inr 2" by code_simp
  then have j: "?j = (Inr 2, snd ?j)" by (metis prod.collapse)
  have "mt_id demo_model \<noteq> mt_id ?u" by (simp add: demo_model_def)
  from instances_share_name [OF this i j] show ?thesis by blast
qed

end
