(* ===== verification/Events.thy ===== *)
theory Events
  imports Prelude
begin

text \<open>
  The event bus and the lifecycle queue, \<^verbatim>\<open>crates/core/src/events.rs\<close> and
  \<^verbatim>\<open>crates/core/src/lifecycle.rs\<close>. A bus keeps, per event type, the senders of the
  subscribers' channels; a channel is a queue in a store, absent once its receiver is dropped.
  What both share, first in first out, is the locale \<open>fifo\<close>.
\<close>

section \<open>First in, first out\<close>

locale fifo =
  fixes push :: "'a \<Rightarrow> 'q \<Rightarrow> 'q"
    and pop :: "'q \<Rightarrow> ('a \<times> 'q) option"
    and content :: "'q \<Rightarrow> 'a list"
  assumes push_content: "content (push x q) = content q @ [x]"
    and pop_None: "pop q = None \<longleftrightarrow> content q = []"
    and pop_Some: "pop q = Some (x, q') \<Longrightarrow> content q = x # content q'"
begin

lemma push_all: "content (fold push xs q) = content q @ xs"
  by (induction xs arbitrary: q) (simp_all add: push_content)

text \<open>Popping as often as there are elements gives them back in order and leaves none.\<close>

lemma pop_all:
  "(\<And>q. drain q = (case pop q of None \<Rightarrow> [] | Some (x, q') \<Rightarrow> x # drain q')) \<Longrightarrow> drain q = content q"
proof (induction "content q" arbitrary: q)
  case Nil
  then show ?case using pop_None [of q] by simp
next
  case (Cons x xs)
  then obtain y q' where p: "pop q = Some (y, q')" using pop_None [of q] by (cases "pop q") auto
  from pop_Some [OF p] Cons.hyps(2) have "xs = content q'" "y = x" by auto
  from Cons.hyps(1) [OF this(1) Cons.prems] p pop_Some [OF p] Cons.prems [of q] show ?case by simp
qed

lemma push_pop: "content q = [] \<Longrightarrow> \<exists>q'. pop (push x q) = Some (x, q') \<and> content q' = []"
  using push_content [of x q] pop_None [of "push x q"] pop_Some [of "push x q"]
  by (cases "pop (push x q)") fastforce+

end

section \<open>The lifecycle queue\<close>

datatype lifecycle_action = ReloadUnits | SoftReboot | Reboot | Shutdown

type_synonym lifecycle_queue = "lifecycle_action list"

definition lq_request :: "lifecycle_action \<Rightarrow> lifecycle_queue \<Rightarrow> lifecycle_queue" where
  "lq_request act q = q @ [act]"

definition lq_next :: "lifecycle_queue \<Rightarrow> (lifecycle_action \<times> lifecycle_queue) option" where
  "lq_next q = (case q of [] \<Rightarrow> None | x # xs \<Rightarrow> Some (x, xs))"

interpretation lq: fifo lq_request lq_next "\<lambda>q. q"
  by unfold_locales (auto simp: lq_request_def lq_next_def split: list.splits)

section \<open>The event bus\<close>

text \<open>The event types of the system.\<close>

datatype flow_action = Apply | Revert
datatype flow_event_type = Facet | Impulse
datatype service_event_kind = Started | Exited "32 word" | Stopped | Failed
datatype user_event_kind = UserLogin | UserLogout
datatype login_action = Login | Logout

record 'ev event_bus =
  eb_channels :: "nat \<rightharpoonup> nat list"
  eb_store :: "nat \<rightharpoonup> 'ev list"
  eb_next :: nat
  eb_notifier :: "nat option"

text \<open>The notifier is its eventfd's count of pending notifications.\<close>

definition eb_new :: "nat option \<Rightarrow> 'ev event_bus" where
  "eb_new notifier = \<lparr>eb_channels = Map.empty, eb_store = Map.empty, eb_next = 0, eb_notifier = notifier\<rparr>"

definition eb_senders :: "nat \<Rightarrow> 'ev event_bus \<Rightarrow> nat list" where
  "eb_senders t bus = (case eb_channels bus t of None \<Rightarrow> [] | Some l \<Rightarrow> l)"

definition eb_subscribe :: "nat \<Rightarrow> 'ev event_bus \<Rightarrow> nat \<times> 'ev event_bus" where
  "eb_subscribe t bus =
     (let c = eb_next bus in
      (c, bus\<lparr>eb_channels := (eb_channels bus)(t \<mapsto> eb_senders t bus @ [c]),
              eb_store := (eb_store bus)(c \<mapsto> []), eb_next := Suc c\<rparr>))"

definition chan_send :: "'ev \<Rightarrow> nat \<Rightarrow> (nat \<rightharpoonup> 'ev list) \<Rightarrow> bool \<times> (nat \<rightharpoonup> 'ev list)" where
  "chan_send ev c store =
     (case store c of None \<Rightarrow> (False, store) | Some q \<Rightarrow> (True, store(c \<mapsto> q @ [ev])))"

text \<open>\<open>retain\<close> visits the senders in order and keeps those whose send succeeds.\<close>

fun retain_send :: "'ev \<Rightarrow> nat list \<Rightarrow> (nat \<rightharpoonup> 'ev list) \<Rightarrow> nat list \<times> (nat \<rightharpoonup> 'ev list)" where
  "retain_send ev [] store = ([], store)"
| "retain_send ev (c # cs) store =
     (let (ok, store') = chan_send ev c store; (kept, store'') = retain_send ev cs store'
      in (if ok then c # kept else kept, store''))"

definition eb_emit :: "nat \<Rightarrow> 'ev \<Rightarrow> 'ev event_bus \<Rightarrow> 'ev event_bus" where
  "eb_emit t ev bus =
     (case eb_channels bus t of
        None \<Rightarrow> bus
      | Some senders \<Rightarrow>
          let (kept, store) = retain_send ev senders (eb_store bus)
          in bus\<lparr>eb_channels := (eb_channels bus)(t \<mapsto> kept), eb_store := store,
                 eb_notifier := map_option Suc (eb_notifier bus)\<rparr>)"

text \<open>Dropping a subscription drops the receiver.\<close>

definition eb_drop :: "nat \<Rightarrow> 'ev event_bus \<Rightarrow> 'ev event_bus" where
  "eb_drop c bus = bus\<lparr>eb_store := (eb_store bus)(c := None)\<rparr>"

definition eb_try_recv :: "nat \<Rightarrow> 'ev event_bus \<Rightarrow> 'ev option \<times> 'ev event_bus" where
  "eb_try_recv c bus =
     (case eb_store bus c of
        Some (ev # q) \<Rightarrow> (Some ev, bus\<lparr>eb_store := (eb_store bus)(c \<mapsto> q)\<rparr>)
      | _ \<Rightarrow> (None, bus))"

text \<open>\<open>drain\<close>: receive until nothing is there. It stops because the queue gets shorter.\<close>

function eb_drain :: "nat \<Rightarrow> 'ev event_bus \<Rightarrow> 'ev list \<times> 'ev event_bus" where
  "eb_drain c bus =
     (case eb_try_recv c bus of
        (None, bus') \<Rightarrow> ([], bus')
      | (Some ev, bus') \<Rightarrow> (let (evs, bus'') = eb_drain c bus' in (ev # evs, bus'')))"
  by pat_completeness auto
termination
  by (relation "measure (\<lambda>(c, bus). case eb_store bus c of None \<Rightarrow> 0 | Some q \<Rightarrow> length q)")
    (auto simp: eb_try_recv_def split: option.splits list.splits)

declare eb_drain.simps [simp del]

datatype 'ev bus_op = BEmit nat 'ev | BSubscribe nat | BDrop nat

fun bus_step :: "'ev bus_op \<Rightarrow> 'ev event_bus \<Rightarrow> 'ev event_bus" where
  "bus_step (BEmit t ev) bus = eb_emit t ev bus"
| "bus_step (BSubscribe t) bus = snd (eb_subscribe t bus)"
| "bus_step (BDrop c) bus = eb_drop c bus"

section \<open>Delivery\<close>

lemma retain_send_spec:
  "distinct cs \<Longrightarrow> retain_send ev cs store = (kept, store') \<Longrightarrow>
   kept = filter (\<lambda>c. store c \<noteq> None) cs \<and>
   store' = (\<lambda>c. if c \<in> set cs then map_option (\<lambda>q. q @ [ev]) (store c) else store c)"
proof (induction cs arbitrary: store kept store')
  case (Cons c cs)
  obtain ok s1 where s: "chan_send ev c store = (ok, s1)" by fastforce
  obtain k s2 where r: "retain_send ev cs s1 = (k, s2)" by fastforce
  have s1: "ok \<longleftrightarrow> store c \<noteq> None" "s1 = store(c := map_option (\<lambda>q. q @ [ev]) (store c))"
    using s by (auto simp: chan_send_def split: option.splits)
  have "filter (\<lambda>d. s1 d \<noteq> None) cs = filter (\<lambda>d. store d \<noteq> None) cs"
    using Cons.prems(1) by (intro filter_cong) (auto simp: s1)
  then have k: "k = filter (\<lambda>d. store d \<noteq> None) cs"
    and s2: "s2 = (\<lambda>d. if d \<in> set cs then map_option (\<lambda>q. q @ [ev]) (s1 d) else s1 d)"
    using Cons.IH [OF _ r] Cons.prems(1) by auto
  have out: "kept = (if ok then c # k else k)" "store' = s2" using Cons.prems(2) s r by auto
  have "store' = (\<lambda>d. if d \<in> set (c # cs) then map_option (\<lambda>q. q @ [ev]) (store d) else store d)"
    unfolding out(2) s2 s1(2) using Cons.prems(1) by (intro ext) auto
  moreover have "kept = filter (\<lambda>c. store c \<noteq> None) (c # cs)"
    unfolding out(1) k s1(1) by simp
  ultimately show ?case by blast
qed auto

text \<open>
  The bus invariant: a channel belongs to one list, once, and its number was handed out; so a
  send reaches each live subscriber of the type exactly once.
\<close>

definition bus_ok :: "'ev event_bus \<Rightarrow> bool" where
  "bus_ok bus \<longleftrightarrow>
     (\<forall>t. distinct (eb_senders t bus)) \<and>
     (\<forall>t u c. c \<in> set (eb_senders t bus) \<longrightarrow> c \<in> set (eb_senders u bus) \<longrightarrow> t = u) \<and>
     (\<forall>t. \<forall>c \<in> set (eb_senders t bus). c < eb_next bus) \<and>
     (\<forall>c. eb_store bus c \<noteq> None \<longrightarrow> c < eb_next bus)"

lemma eb_emit_senders:
  assumes "bus_ok bus"
  shows "eb_senders u (eb_emit t ev bus) =
      (if u = t then filter (\<lambda>c. eb_store bus c \<noteq> None) (eb_senders t bus) else eb_senders u bus)"
    and "eb_store (eb_emit t ev bus) c =
      (if c \<in> set (eb_senders t bus) then map_option (\<lambda>q. q @ [ev]) (eb_store bus c) else eb_store bus c)"
    and "eb_next (eb_emit t ev bus) = eb_next bus"
proof -
  obtain kept store where r: "retain_send ev (eb_senders t bus) (eb_store bus) = (kept, store)"
    by fastforce
  have "distinct (eb_senders t bus)" using assms by (simp add: bus_ok_def)
  note spec = retain_send_spec [OF this r]
  show "eb_senders u (eb_emit t ev bus) =
      (if u = t then filter (\<lambda>c. eb_store bus c \<noteq> None) (eb_senders t bus) else eb_senders u bus)"
    using r spec by (auto simp: eb_emit_def eb_senders_def split: option.splits prod.splits)
  show "eb_store (eb_emit t ev bus) c =
      (if c \<in> set (eb_senders t bus) then map_option (\<lambda>q. q @ [ev]) (eb_store bus c) else eb_store bus c)"
    using r spec by (auto simp: eb_emit_def eb_senders_def split: option.splits prod.splits)
  show "eb_next (eb_emit t ev bus) = eb_next bus"
    by (auto simp: eb_emit_def split: option.splits prod.splits)
qed

lemma eb_subscribe_senders:
  "eb_senders u (snd (eb_subscribe t bus)) =
      (if u = t then eb_senders t bus @ [eb_next bus] else eb_senders u bus)"
  by (simp add: eb_subscribe_def eb_senders_def Let_def)

lemma bus_ok_step: "bus_ok bus \<Longrightarrow> bus_ok (bus_step x bus)"
proof (cases x)
  case (BEmit t ev)
  then show "bus_ok bus \<Longrightarrow> bus_ok (bus_step x bus)"
    by (auto simp: bus_ok_def [of "eb_emit t ev bus"] eb_emit_senders)
      (auto simp: bus_ok_def split: if_splits)
next
  case (BSubscribe t)
  show "bus_ok bus \<Longrightarrow> bus_ok (bus_step x bus)"
    unfolding BSubscribe bus_step.simps bus_ok_def [of "snd (eb_subscribe t bus)"]
      eb_subscribe_senders
    by (auto simp: bus_ok_def eb_subscribe_def Let_def less_Suc_eq split: if_splits)
next
  case (BDrop c)
  then show "bus_ok bus \<Longrightarrow> bus_ok (bus_step x bus)"
    by (auto simp: bus_ok_def eb_drop_def eb_senders_def)
qed

text \<open>
  What a subscriber has received after a run: the events of its type emitted since, in order,
  as long as it is not dropped.
\<close>

fun emitted :: "nat \<Rightarrow> 'ev bus_op list \<Rightarrow> 'ev list" where
  "emitted t [] = []"
| "emitted t (BEmit u ev # xs) = (if u = t then ev # emitted t xs else emitted t xs)"
| "emitted t (_ # xs) = emitted t xs"

lemma emitted_run:
  "bus_ok bus \<Longrightarrow> c \<in> set (eb_senders t bus) \<Longrightarrow> eb_store bus c = Some q \<Longrightarrow> BDrop c \<notin> set xs \<Longrightarrow>
   c \<in> set (eb_senders t (fold bus_step xs bus)) \<and>
   eb_store (fold bus_step xs bus) c = Some (q @ emitted t xs)"
proof (induction xs arbitrary: bus q)
  case (Cons x xs)
  note ok = bus_ok_step [OF Cons.prems(1), of x]
  show ?case
  proof (cases x)
    case (BEmit u ev)
    have uniq: "c \<in> set (eb_senders u bus) \<Longrightarrow> u = t" using Cons.prems(1,2) by (auto simp: bus_ok_def)
    show ?thesis
    proof (cases "u = t")
      case True
      with Cons.IH [OF ok, of "q @ [ev]"] Cons.prems BEmit show ?thesis
        by (simp add: eb_emit_senders)
    next
      case False
      with uniq have "c \<notin> set (eb_senders u bus)" by blast
      with False Cons.IH [OF ok, of q] Cons.prems BEmit show ?thesis
        by (simp add: eb_emit_senders)
    qed
  next
    case (BSubscribe u)
    have "c < eb_next bus" using Cons.prems(1,3) by (auto simp: bus_ok_def)
    moreover from this Cons.prems(3) have "eb_store (snd (eb_subscribe u bus)) c = Some q"
      by (simp add: eb_subscribe_def Let_def)
    moreover from Cons.prems(2) have "c \<in> set (eb_senders t (snd (eb_subscribe u bus)))"
      by (auto simp: eb_subscribe_senders)
    ultimately show ?thesis
      using Cons.IH [OF ok, of q] Cons.prems(4) BSubscribe by simp
  next
    case (BDrop d)
    with Cons.IH [OF ok, of q] Cons.prems show ?thesis
      by (auto simp: eb_drop_def eb_senders_def)
  qed
qed simp

lemma eb_drain_eq:
  "eb_drain c bus = (case eb_store bus c of
      None \<Rightarrow> ([], bus)
    | Some [] \<Rightarrow> ([], bus)
    | Some q \<Rightarrow> (q, bus\<lparr>eb_store := (eb_store bus)(c \<mapsto> [])\<rparr>))"
proof (induction c bus rule: eb_drain.induct)
  case (1 c bus)
  show ?case
  proof (cases "eb_store bus c")
    case None
    then show ?thesis by (subst eb_drain.simps) (simp add: eb_try_recv_def)
  next
    case (Some q)
    show ?thesis
    proof (cases q)
      case Nil
      with Some show ?thesis by (subst eb_drain.simps) (simp add: eb_try_recv_def)
    next
      case (Cons ev evs)
      let ?bus' = "bus\<lparr>eb_store := (eb_store bus)(c \<mapsto> evs)\<rparr>"
      have r: "eb_try_recv c bus = (Some ev, ?bus')" using Some Cons by (simp add: eb_try_recv_def)
      from 1 [OF r [symmetric] refl] have "eb_drain c ?bus' = (evs, bus\<lparr>eb_store := (eb_store bus)(c \<mapsto> [])\<rparr>)"
        by (cases evs) simp_all
      then show ?thesis using Some Cons r by (subst eb_drain.simps) simp
    qed
  qed
qed

lemma subscribed_queue:
  assumes "fold bus_step before (eb_new notifier) = bus" and "eb_subscribe t bus = (c, bus1)" and "BDrop c \<notin> set after"
  shows "eb_store (fold bus_step after bus1) c = Some (emitted t after)"
proof -
  have "bus_ok b \<Longrightarrow> bus_ok (fold bus_step xs b)" for xs and b :: "'a event_bus"
    by (induction xs arbitrary: b) (simp_all add: bus_ok_step)
  moreover have "bus_ok (eb_new notifier :: 'a event_bus)"
    by (simp add: bus_ok_def eb_new_def eb_senders_def)
  ultimately have "bus_ok bus" using assms(1) by blast
  from bus_ok_step [OF this, of "BSubscribe t"] assms(2) have ok: "bus_ok bus1" by simp
  have "c \<in> set (eb_senders t bus1)" "eb_store bus1 c = Some []"
    using assms(2) by (auto simp: eb_subscribe_def eb_senders_def Let_def)
  from emitted_run [OF ok this assms(3)] show ?thesis by simp
qed

text \<open>
  Every subscriber gets every event. From a new bus, after any operations, a subscription
  that is not dropped drains to exactly the events of its type emitted after it was made, in
  the order of emission, whatever other subscribers come, go or die in between; a second drain
  gives nothing.
\<close>

theorem subscriber_gets_all:
  assumes "fold bus_step before (eb_new notifier) = bus" and "eb_subscribe t bus = (c, bus1)"
    and "BDrop c \<notin> set after"
  shows "fst (eb_drain c (fold bus_step after bus1)) = emitted t after \<and>
    fst (eb_drain c (snd (eb_drain c (fold bus_step after bus1)))) = []"
  using subscribed_queue [OF assms] by (simp add: eb_drain_eq split: list.splits)

theorem subscriber_gets_all_witness:
  "fst (eb_drain 0 (fold bus_step [BEmit 1 ''a'', BSubscribe 1, BDrop 1, BEmit 2 ''x'', BEmit 1 ''b'']
      (snd (eb_subscribe 1 (eb_new None))))) = [''a'', ''b'']"
  using subscriber_gets_all [of "[]" None "eb_new None" 1 0 "snd (eb_subscribe 1 (eb_new None))"
      "[BEmit 1 ''a'', BSubscribe 1, BDrop 1, BEmit 2 ''x'', BEmit 1 ''b'']"]
  by (simp add: eb_subscribe_def eb_new_def Let_def)

end
