(* ===== verification/Runtime.thy ===== *)
theory Runtime
  imports Events "HOL-Library.Monad_Syntax" "HOL-Library.Multiset"
begin

text \<open>
  The dispatcher, \<^verbatim>\<open>crates/core/src/runtime.rs\<close>, with the runtime scopes of
  \<^verbatim>\<open>crates/core/src/context.rs\<close>. A runtime is a state \<open>'s\<close> and what it does with a
  message is a trait implementation: a function of the call's context that also says what the
  runtime dispatches while it runs. \<open>flush_context\<close> is a loop that handlers can keep busy for
  ever, so not returning is the value \<open>None\<close>.
\<close>

section \<open>Runtime scopes (context.rs)\<close>

text \<open>A scope holds one value per type, by type id.\<close>

type_synonym 'v runtime_scope = "nat \<rightharpoonup> 'v"

definition scope_insert :: "nat \<Rightarrow> 'v \<Rightarrow> 'v runtime_scope \<Rightarrow> 'v runtime_scope" where
  "scope_insert t v sc = sc(t \<mapsto> v)"

definition scope_extend :: "'v runtime_scope \<Rightarrow> 'v runtime_scope \<Rightarrow> 'v runtime_scope" where
  "scope_extend sc other = sc ++ other"

record 'v runtime_scopes =
  rsc_scopes :: "string \<rightharpoonup> 'v runtime_scope"
  rsc_globals :: "('v runtime_scope \<Rightarrow> 'v runtime_scope) list"
  rsc_globals_applied :: "string set"

definition rsc_default :: "'v runtime_scopes" where
  "rsc_default = \<lparr>rsc_scopes = Map.empty, rsc_globals = [], rsc_globals_applied = {}\<rparr>"

definition scope_or_default :: "string \<Rightarrow> 'v runtime_scopes \<Rightarrow> 'v runtime_scope" where
  "scope_or_default rid rs = (case rsc_scopes rs rid of None \<Rightarrow> Map.empty | Some sc \<Rightarrow> sc)"

definition rsc_insert :: "string \<Rightarrow> nat \<Rightarrow> 'v \<Rightarrow> 'v runtime_scopes \<Rightarrow> 'v runtime_scopes" where
  "rsc_insert rid t v rs =
     rs\<lparr>rsc_scopes := (rsc_scopes rs)(rid \<mapsto> scope_insert t v (scope_or_default rid rs))\<rparr>"

definition rsc_take_scope :: "string \<Rightarrow> 'v runtime_scopes \<Rightarrow> 'v runtime_scope option \<times> 'v runtime_scopes" where
  "rsc_take_scope rid rs = (rsc_scopes rs rid, rs\<lparr>rsc_scopes := (rsc_scopes rs)(rid := None)\<rparr>)"

definition take_or_build_scope :: "string \<Rightarrow> 'v runtime_scopes \<Rightarrow> 'v runtime_scope \<times> 'v runtime_scopes" where
  "take_or_build_scope rid rs =
     (let sc = scope_or_default rid rs;
          rs1 = rs\<lparr>rsc_scopes := (rsc_scopes rs)(rid := None)\<rparr>
      in if rid \<in> rsc_globals_applied rs then (sc, rs1)
         else (fold (\<lambda>g sc. g sc) (rsc_globals rs) sc,
               rs1\<lparr>rsc_globals_applied := insert rid (rsc_globals_applied rs)\<rparr>))"

definition put_scope :: "string \<Rightarrow> 'v runtime_scope \<Rightarrow> 'v runtime_scopes \<Rightarrow> 'v runtime_scopes" where
  "put_scope rid sc rs = rs\<lparr>rsc_scopes := (rsc_scopes rs)(rid \<mapsto> sc)\<rparr>"

definition insert_scope :: "string \<Rightarrow> 'v runtime_scope \<Rightarrow> 'v runtime_scopes \<Rightarrow> 'v runtime_scopes" where
  "insert_scope rid sc rs =
     rs\<lparr>rsc_scopes := (rsc_scopes rs)(rid \<mapsto> scope_extend (scope_or_default rid rs) sc)\<rparr>"

definition add_global :: "('v runtime_scope \<Rightarrow> 'v runtime_scope) \<Rightarrow> 'v runtime_scopes \<Rightarrow> 'v runtime_scopes" where
  "add_global g rs = rs\<lparr>rsc_globals := rsc_globals rs @ [g]\<rparr>"

section \<open>Payloads\<close>

text \<open>A payload maps names to boxed values, here pairs of a type id and a value.\<close>

type_synonym 'a runtime_payload = "ustr \<rightharpoonup> nat \<times> 'a"

definition rp_insert :: "ustr \<Rightarrow> nat \<Rightarrow> 'a \<Rightarrow> 'a runtime_payload \<Rightarrow> 'a runtime_payload" where
  "rp_insert name t x p = p(name \<mapsto> (t, x))"

definition rp_insert_opt :: "ustr \<Rightarrow> nat \<Rightarrow> 'a option \<Rightarrow> 'a runtime_payload \<Rightarrow> 'a runtime_payload" where
  "rp_insert_opt name t x p = (case x of Some v \<Rightarrow> rp_insert name t v p | None \<Rightarrow> p)"

text \<open>The error text also lists the keys, which are left out here.\<close>

definition rp_get :: "ustr \<Rightarrow> nat \<Rightarrow> 'a runtime_payload \<Rightarrow> 'a result \<times> 'a runtime_payload" where
  "rp_get name t p =
     (let missing = InvalidState (''Missing required field '' @ name @ '' in dispatch'') in
      case p name of
        None \<Rightarrow> (Inl missing, p)
      | Some (u, x) \<Rightarrow> if u = t then (Inr x, p(name := None)) else (Inl missing, p))"

section \<open>The engine\<close>

record 'p dispatch_cmd =
  dc_runtime_id :: string
  dc_action :: string
  dc_payload :: 'p
  dc_context_id :: nat
  dc_reply :: "nat option"

datatype ('p, 'v) runtime_command =
    RegisterScopes nat "'v runtime_scopes"
  | Dispatch "'p dispatch_cmd"
  | StopRuntime

record ('v, 'e) context_state =
  cs_scopes :: "'v runtime_scopes"
  cs_event_bus :: 'e
  cs_lifecycle :: lifecycle_queue

text \<open>Only \<open>Dispatch\<close> commands are ever queued. A reply channel is a number.\<close>

record ('s, 'p, 'v, 'e, 'i) runtime_engine =
  re_runtimes :: "string \<rightharpoonup> 's"
  re_contexts :: "nat \<rightharpoonup> ('v, 'e) context_state"
  re_queue :: "'p dispatch_cmd list"
  re_instances :: 'i
  re_stopped :: bool
  re_event_bus :: "'e option"
  re_replies :: "(nat \<times> 'p result) list"

definition start_runtime :: "('s \<Rightarrow> string) \<Rightarrow> 's list \<Rightarrow> 'i \<Rightarrow> ('s, 'p, 'v, 'e, 'i) runtime_engine" where
  "start_runtime rid runtimes inst =
     \<lparr>re_runtimes = fold (\<lambda>r m. m(rid r \<mapsto> r)) runtimes Map.empty, re_contexts = Map.empty,
      re_queue = [], re_instances = inst, re_stopped = False, re_event_bus = None, re_replies = []\<rparr>"

text \<open>\<open>RuntimeHandle::send\<close>; \<open>new_bus\<close> is \<open>EventBus::new\<close> with the engine's notifier.\<close>

definition rt_send ::
  "'e \<Rightarrow> ('p, 'v) runtime_command \<Rightarrow> ('s, 'p, 'v, 'e, 'i) runtime_engine \<Rightarrow>
   unit result \<times> ('s, 'p, 'v, 'e, 'i) runtime_engine" where
  "rt_send new_bus cmd en =
     (if re_stopped en then (Inl RuntimeStopped, en)
      else case cmd of
        RegisterScopes cid scopes \<Rightarrow>
          let bus = (case re_event_bus en of Some b \<Rightarrow> b | None \<Rightarrow> new_bus) in
          (Inr (), en\<lparr>re_event_bus := Some bus,
                      re_contexts := (re_contexts en)(cid \<mapsto>
                        \<lparr>cs_scopes = scopes, cs_event_bus = bus, cs_lifecycle = []\<rparr>)\<rparr>)
      | StopRuntime \<Rightarrow> (Inr (), en\<lparr>re_stopped := True, re_queue := []\<rparr>)
      | Dispatch d \<Rightarrow> (Inr (), en\<lparr>re_queue := re_queue en @ [d]\<rparr>))"

definition rt_dispatch ::
  "'e \<Rightarrow> string \<Rightarrow> string \<Rightarrow> 'p \<Rightarrow> nat \<Rightarrow> ('s, 'p, 'v, 'e, 'i) runtime_engine \<Rightarrow>
   unit result \<times> ('s, 'p, 'v, 'e, 'i) runtime_engine" where
  "rt_dispatch new_bus target action payload cid en =
     rt_send new_bus (Dispatch \<lparr>dc_runtime_id = target, dc_action = action, dc_payload = payload,
       dc_context_id = cid, dc_reply = None\<rparr>) en"

definition rt_register_scopes ::
  "'e \<Rightarrow> nat \<Rightarrow> 'v runtime_scopes \<Rightarrow> ('s, 'p, 'v, 'e, 'i) runtime_engine \<Rightarrow>
   unit result \<times> ('s, 'p, 'v, 'e, 'i) runtime_engine" where
  "rt_register_scopes new_bus cid scopes en = rt_send new_bus (RegisterScopes cid scopes) en"

definition next_lifecycle_action ::
  "nat \<Rightarrow> ('s, 'p, 'v, 'e, 'i) runtime_engine \<Rightarrow>
   lifecycle_action option \<times> ('s, 'p, 'v, 'e, 'i) runtime_engine" where
  "next_lifecycle_action cid en =
     (case re_contexts en cid of
        None \<Rightarrow> (None, en)
      | Some cs \<Rightarrow>
          (case lq_next (cs_lifecycle cs) of
             None \<Rightarrow> (None, en)
           | Some (act, q) \<Rightarrow>
               (Some act, en\<lparr>re_contexts := (re_contexts en)(cid \<mapsto> cs\<lparr>cs_lifecycle := q\<rparr>)\<rparr>)))"

definition with_instances ::
  "('i \<Rightarrow> 'a \<times> 'i) \<Rightarrow> ('s, 'p, 'v, 'e, 'i) runtime_engine \<Rightarrow>
   'a result \<times> ('s, 'p, 'v, 'e, 'i) runtime_engine" where
  "with_instances f en =
     (if re_stopped en then (Inl RuntimeStopped, en)
      else (case f (re_instances en) of (x, inst) \<Rightarrow> (Inr x, en\<lparr>re_instances := inst\<rparr>)))"

section \<open>Handling one command\<close>

text \<open>What a handler works on, and what it sends through its \<open>RuntimeDispatcher\<close>.\<close>

record ('v, 'e, 'i, 'r) call_ctx =
  cc_scope :: "'v runtime_scope"
  cc_event_bus :: 'e
  cc_lifecycle :: lifecycle_queue
  cc_instances :: 'i
  cc_resources :: 'r

type_synonym ('s, 'p, 'v, 'e, 'i, 'r) handler =
  "string \<Rightarrow> 's \<Rightarrow> string \<Rightarrow> 'p \<Rightarrow> ('v, 'e, 'i, 'r) call_ctx \<Rightarrow>
   'p option result \<times> 's \<times> ('v, 'e, 'i, 'r) call_ctx \<times> (string \<times> string \<times> 'p) list"

text \<open>The first queued command of a context, and the queue without it.\<close>

fun take_command :: "nat \<Rightarrow> 'p dispatch_cmd list \<Rightarrow> ('p dispatch_cmd \<times> 'p dispatch_cmd list) option" where
  "take_command cid [] = None"
| "take_command cid (d # ds) =
     (if dc_context_id d = cid then Some (d, ds)
      else map_option (\<lambda>(x, xs). (x, d # xs)) (take_command cid ds))"

text \<open>The dispatches of a handler enter the queue while it runs.\<close>

definition sent_by :: "nat \<Rightarrow> (string \<times> string \<times> 'p) list \<Rightarrow> 'p dispatch_cmd list" where
  "sent_by cid sent = map (\<lambda>(target, action, payload). \<lparr>dc_runtime_id = target, dc_action = action,
     dc_payload = payload, dc_context_id = cid, dc_reply = None\<rparr>) sent"

text \<open>What a waiting caller is sent; without a caller an error is only logged.\<close>

definition reply_of :: "'p option result \<Rightarrow> 'p result" where
  "reply_of r = (case r of
     Inr (Some msg) \<Rightarrow> Inr msg | Inr None \<Rightarrow> Inl (InvalidState ''No response'') | Inl e \<Rightarrow> Inl e)"

text \<open>
  One round of the loop after its command \<open>d\<close> is out of the queue. The runtime is taken out of
  the table first; when the context is unknown the early return leaves it out.
\<close>

definition handle_command ::
  "('s, 'p, 'v, 'e, 'i, 'r) handler \<Rightarrow> 'e \<Rightarrow> 'i \<Rightarrow> 'p dispatch_cmd \<Rightarrow> 'r \<Rightarrow> ('s, 'p, 'v, 'e, 'i) runtime_engine \<Rightarrow>
   unit result \<times> 'r \<times> ('s, 'p, 'v, 'e, 'i) runtime_engine" where
  "handle_command handle new_bus new_inst d res en =
     (let cid = dc_context_id d; rid = dc_runtime_id d in
      if re_stopped en then (Inl RuntimeStopped, res, en)
      else (case re_runtimes en rid of
        None \<Rightarrow> (Inr (), res, en)
      | Some rt \<Rightarrow>
          let en1 = en\<lparr>re_runtimes := (re_runtimes en)(rid := None)\<rparr> in
          (case re_contexts en1 cid of
             None \<Rightarrow> (Inl (InvalidState (''runtime context '' @ show_nat cid @ '' not registered'')), res, en1)
           | Some cs \<Rightarrow>
               let (sc, scopes) = take_or_build_scope rid (cs_scopes cs);
                   en2 = en1\<lparr>re_contexts := (re_contexts en1)(cid \<mapsto>
                           \<lparr>cs_scopes = scopes, cs_event_bus = new_bus, cs_lifecycle = []\<rparr>),
                         re_instances := new_inst\<rparr>;
                   (result, rt', cc, sent) = handle rid rt (dc_action d) (dc_payload d)
                     \<lparr>cc_scope = sc, cc_event_bus = cs_event_bus cs, cc_lifecycle = cs_lifecycle cs,
                      cc_instances = re_instances en, cc_resources = res\<rparr>;
                   en3 = en2\<lparr>re_queue := re_queue en2 @ sent_by cid sent,
                         re_replies := (case dc_reply d of
                             Some ch \<Rightarrow> re_replies en2 @ [(ch, reply_of result)]
                           | None \<Rightarrow> re_replies en2)\<rparr>;
                   en4 = en3\<lparr>re_runtimes := (re_runtimes en3)(rid \<mapsto> rt'),
                         re_instances := cc_instances cc,
                         re_contexts := (re_contexts en3)(cid \<mapsto>
                           \<lparr>cs_scopes = put_scope rid (cc_scope cc) scopes,
                            cs_event_bus = cc_event_bus cc, cs_lifecycle = cc_lifecycle cc\<rparr>)\<rparr>
               in (Inr (), cc_resources cc, en4))))"

partial_function (option) flush_context ::
  "('s, 'p, 'v, 'e, 'i, 'r) handler \<Rightarrow> 'e \<Rightarrow> 'i \<Rightarrow> nat \<Rightarrow> 'r \<Rightarrow> ('s, 'p, 'v, 'e, 'i) runtime_engine \<Rightarrow>
   (unit result \<times> 'r \<times> ('s, 'p, 'v, 'e, 'i) runtime_engine) option" where
  "flush_context handle new_bus new_inst cid res en =
     (case take_command cid (re_queue en) of
        None \<Rightarrow> Some (Inr (), res, en)
      | Some (d, queue) \<Rightarrow>
          (case handle_command handle new_bus new_inst d res (en\<lparr>re_queue := queue\<rparr>) of
             (Inl e, res', en') \<Rightarrow> Some (Inl e, res', en')
           | (Inr _, res', en') \<Rightarrow> flush_context handle new_bus new_inst cid res' en'))"

section \<open>The queue\<close>

lemma take_command_None: "take_command cid ds = None \<longleftrightarrow> (\<forall>d \<in> set ds. dc_context_id d \<noteq> cid)"
  by (induction ds) auto

lemma take_command_Some:
  "take_command cid ds = Some (d, ds') \<Longrightarrow>
   dc_context_id d = cid \<and> filter (\<lambda>x. dc_context_id x = cid) ds = d # filter (\<lambda>x. dc_context_id x = cid) ds' \<and>
   filter (\<lambda>x. dc_context_id x \<noteq> cid) ds' = filter (\<lambda>x. dc_context_id x \<noteq> cid) ds"
  by (induction ds arbitrary: d ds') (auto split: if_splits)

lemma sent_by_context [simp]:
  "filter (\<lambda>x. dc_context_id x \<noteq> cid) (sent_by cid sent) = []"
  "filter (\<lambda>x. dc_context_id x = cid) (sent_by cid sent) = sent_by cid sent"
  by (auto simp: sent_by_def filter_empty_conv filter_id_conv)

lemma sent_by_no_reply: "d \<in> set (sent_by cid sent) \<Longrightarrow> dc_reply d = None"
  by (auto simp: sent_by_def)

text \<open>What one handled command changes, on each branch.\<close>

lemma handle_command_cases:
  assumes "handle_command handle nb ni d res en = (r, res', en')"
  obtains (stopped) "re_stopped en" "r = Inl RuntimeStopped" "res' = res" "en' = en"
  | (unknown) "\<not> re_stopped en" "re_runtimes en (dc_runtime_id d) = None" "r = Inr ()" "res' = res" "en' = en"
  | (lost) rt where "\<not> re_stopped en" "re_runtimes en (dc_runtime_id d) = Some rt"
      "re_contexts en (dc_context_id d) = None"
      "r = Inl (InvalidState (''runtime context '' @ show_nat (dc_context_id d) @ '' not registered''))"
      "res' = res" "en' = en\<lparr>re_runtimes := (re_runtimes en)(dc_runtime_id d := None)\<rparr>"
  | (handled) rt cs cc result rt' cc' sent cs' where
      "\<not> re_stopped en" "re_runtimes en (dc_runtime_id d) = Some rt"
      "re_contexts en (dc_context_id d) = Some cs"
      "handle (dc_runtime_id d) rt (dc_action d) (dc_payload d) cc = (result, rt', cc', sent)"
      "cc_instances cc = re_instances en" "cc_resources cc = res"
      "r = Inr ()" "res' = cc_resources cc'"
      "en' = en\<lparr>re_runtimes := (re_runtimes en)(dc_runtime_id d \<mapsto> rt'),
             re_contexts := (re_contexts en)(dc_context_id d \<mapsto> cs'),
             re_queue := re_queue en @ sent_by (dc_context_id d) sent,
             re_instances := cc_instances cc',
             re_replies := (case dc_reply d of
               Some ch \<Rightarrow> re_replies en @ [(ch, reply_of result)] | None \<Rightarrow> re_replies en)\<rparr>"
proof (cases "re_stopped en")
  case True
  with assms have "r = Inl RuntimeStopped" "res' = res" "en' = en"
    by (simp_all add: handle_command_def Let_def)
  with True show ?thesis by (rule stopped)
next
  case False
  show ?thesis
  proof (cases "re_runtimes en (dc_runtime_id d)")
    case None
    with False assms have "r = Inr ()" "res' = res" "en' = en"
      by (simp_all add: handle_command_def Let_def)
    with False None show ?thesis by (rule unknown)
  next
    case (Some rt)
    show ?thesis
    proof (cases "re_contexts en (dc_context_id d)")
      case None
      with False Some assms have
        "r = Inl (InvalidState (''runtime context '' @ show_nat (dc_context_id d) @ '' not registered''))"
        "res' = res" "en' = en\<lparr>re_runtimes := (re_runtimes en)(dc_runtime_id d := None)\<rparr>"
        by (simp_all add: handle_command_def Let_def)
      with False Some None show ?thesis by (rule lost)
    next
      case ctx: (Some cs)
      obtain sc scopes where t: "take_or_build_scope (dc_runtime_id d) (cs_scopes cs) = (sc, scopes)"
        by fastforce
      let ?cc = "\<lparr>cc_scope = sc, cc_event_bus = cs_event_bus cs, cc_lifecycle = cs_lifecycle cs,
                  cc_instances = re_instances en, cc_resources = res\<rparr>"
      obtain result rt' cc' sent where
        h: "handle (dc_runtime_id d) rt (dc_action d) (dc_payload d) ?cc = (result, rt', cc', sent)"
        by (metis prod_cases4)
      let ?cs = "\<lparr>cs_scopes = put_scope (dc_runtime_id d) (cc_scope cc') scopes,
          cs_event_bus = cc_event_bus cc', cs_lifecycle = cc_lifecycle cc'\<rparr>"
      from assms False Some ctx t h have out: "r = Inr ()" "res' = cc_resources cc'"
        "en' = en\<lparr>re_runtimes := (re_runtimes en)(dc_runtime_id d \<mapsto> rt'),
             re_contexts := (re_contexts en)(dc_context_id d \<mapsto> ?cs),
             re_queue := re_queue en @ sent_by (dc_context_id d) sent,
             re_instances := cc_instances cc',
             re_replies := (case dc_reply d of
               Some ch \<Rightarrow> re_replies en @ [(ch, reply_of result)] | None \<Rightarrow> re_replies en)\<rparr>"
        by (cases "dc_reply d"; auto simp: handle_command_def Let_def)+
      show ?thesis by (rule handled [OF False Some ctx h _ _ out]) simp_all
    qed
  qed
qed

lemma handle_command_frame:
  assumes "handle_command handle nb ni d res en = (Inr u, res', en')"
  shows "re_stopped en' = re_stopped en" and "dom (re_runtimes en') = dom (re_runtimes en)"
    and "\<exists>sent. re_queue en' = re_queue en @ sent_by (dc_context_id d) sent"
    and "c \<noteq> dc_context_id d \<Longrightarrow> re_contexts en' c = re_contexts en c"
    and "map fst (re_replies en') = map fst (re_replies en) @
      (case dc_reply d of Some ch \<Rightarrow> if dc_runtime_id d \<in> dom (re_runtimes en) then [ch] else [] | None \<Rightarrow> [])"
proof -
  have nil: "\<exists>sent. re_queue en = re_queue en @ sent_by (dc_context_id d) sent"
    by (rule exI [of _ "[]"]) (simp add: sent_by_def)
  from assms show "re_stopped en' = re_stopped en" "dom (re_runtimes en') = dom (re_runtimes en)"
    "\<exists>sent. re_queue en' = re_queue en @ sent_by (dc_context_id d) sent"
    "c \<noteq> dc_context_id d \<Longrightarrow> re_contexts en' c = re_contexts en c"
    "map fst (re_replies en') = map fst (re_replies en) @
      (case dc_reply d of Some ch \<Rightarrow> if dc_runtime_id d \<in> dom (re_runtimes en) then [ch] else [] | None \<Rightarrow> [])"
    by (cases rule: handle_command_cases; use nil in \<open>auto split: option.splits\<close>)+
qed

section \<open>What flushing guarantees\<close>

abbreviation mine :: "nat \<Rightarrow> 'p dispatch_cmd list \<Rightarrow> 'p dispatch_cmd list" where
  "mine cid \<equiv> filter (\<lambda>d. dc_context_id d = cid)"

abbreviation others :: "nat \<Rightarrow> 'p dispatch_cmd list \<Rightarrow> 'p dispatch_cmd list" where
  "others cid \<equiv> filter (\<lambda>d. dc_context_id d \<noteq> cid)"

text \<open>The reply channels a queue still owes an answer, given which runtimes exist.\<close>

definition owed :: "string set \<Rightarrow> 'p dispatch_cmd list \<Rightarrow> nat list" where
  "owed known ds = concat (map (\<lambda>d. case dc_reply d of
     Some ch \<Rightarrow> if dc_runtime_id d \<in> known then [ch] else [] | None \<Rightarrow> []) ds)"

lemma owed_sent_by [simp]: "owed known (sent_by cid sent) = []"
  by (auto simp: owed_def sent_by_def)

lemma owed_append [simp]: "owed known (xs @ ys) = owed known xs @ owed known ys"
  by (simp add: owed_def)

lemma owed_Cons: "owed known (d # ds) = (case dc_reply d of
     Some ch \<Rightarrow> if dc_runtime_id d \<in> known then [ch] else [] | None \<Rightarrow> []) @ owed known ds"
  by (simp add: owed_def)

definition flush_ok :: "nat \<Rightarrow> ('s, 'p, 'v, 'e, 'i) runtime_engine \<Rightarrow> ('s, 'p, 'v, 'e, 'i) runtime_engine \<Rightarrow> bool" where
  "flush_ok cid en en' \<longleftrightarrow>
     mine cid (re_queue en') = [] \<and> re_queue en' = others cid (re_queue en) \<and>
     re_stopped en' = re_stopped en \<and> dom (re_runtimes en') = dom (re_runtimes en) \<and>
     (\<forall>c. c \<noteq> cid \<longrightarrow> re_contexts en' c = re_contexts en c) \<and>
     map fst (re_replies en') =
       map fst (re_replies en) @ owed (dom (re_runtimes en)) (mine cid (re_queue en))"

lemma flush_round:
  assumes "take_command cid (re_queue en) = Some (d, queue)"
    and "handle_command handle nb ni d res (en\<lparr>re_queue := queue\<rparr>) = (Inr u, res1, en1)"
    and "flush_ok cid en1 en'"
  shows "flush_ok cid en en'"
proof -
  note t = take_command_Some [OF assms(1)] and f = handle_command_frame [OF assms(2)]
  from f(3) obtain sent where q: "re_queue en1 = queue @ sent_by cid sent" using t by auto
  have "owed (dom (re_runtimes en1)) (mine cid (re_queue en1)) =
      owed (dom (re_runtimes en)) (mine cid queue)"
    using f(2) by (simp add: q)
  then have "map fst (re_replies en') =
      map fst (re_replies en) @ owed (dom (re_runtimes en)) (mine cid (re_queue en))"
    using assms(3) f(5) t by (simp add: flush_ok_def owed_Cons split: option.splits)
  moreover have "others cid (re_queue en1) = others cid (re_queue en)" using t by (simp add: q)
  ultimately show ?thesis using assms(3) f(1,2,4) t by (simp add: flush_ok_def)
qed

definition flush_result_ok :: "nat \<Rightarrow> ('s, 'p, 'v, 'e, 'i) runtime_engine \<Rightarrow>
    unit result \<times> 'r \<times> ('s, 'p, 'v, 'e, 'i) runtime_engine \<Rightarrow> bool" where
  "flush_result_ok cid en y = (case y of (Inr _, _, en') \<Rightarrow> flush_ok cid en en' | _ \<Rightarrow> True)"

lemma flush_context_ok:
  assumes "flush_context handle nb ni cid res en = Some y"
  shows "flush_result_ok cid en y"
proof (rule flush_context.raw_induct [OF _ assms], goal_cases)
  case (1 f handle nb ni cid res en y)
  show ?case
  proof (cases "take_command cid (re_queue en)")
    case None
    then have "mine cid (re_queue en) = []" "others cid (re_queue en) = re_queue en"
      by (simp_all add: take_command_None filter_empty_conv filter_id_conv)
    with 1(2) None show ?thesis by (auto simp: flush_result_ok_def flush_ok_def owed_def)
  next
    case (Some p)
    then obtain d queue where t: "take_command cid (re_queue en) = Some (d, queue)" by (cases p) auto
    obtain r res1 en1 where h: "handle_command handle nb ni d res (en\<lparr>re_queue := queue\<rparr>) = (r, res1, en1)"
      by (metis prod_cases3)
    show ?thesis
    proof (cases r)
      case (Inl e)
      with 1(2) t h show ?thesis by (auto simp: flush_result_ok_def)
    next
      case (Inr u)
      with 1(2) t h have "f handle nb ni cid res1 en1 = Some y" by simp
      from 1(1) [OF this] flush_round [OF t h [unfolded Inr]] show ?thesis
        by (auto simp: flush_result_ok_def split: sum.splits prod.splits)
    qed
  qed
qed

text \<open>
  What a completed flush has done. When \<open>flush_context\<close> returns normally, no command of
  its context is left and the commands of other contexts are exactly as they were, in order; no
  runtime was lost, no other context was touched, and the callers waiting for an answer got one
  each in the order of the queue, except those that named an unknown runtime. This holds whatever
  the handlers do, including dispatching further commands.
\<close>

theorem flush_context_complete:
  assumes "flush_context handle nb ni cid res en = Some (Inr u, res', en')"
  shows "(\<forall>d \<in> set (re_queue en'). dc_context_id d \<noteq> cid) \<and>
    re_queue en' = filter (\<lambda>d. dc_context_id d \<noteq> cid) (re_queue en) \<and>
    dom (re_runtimes en') = dom (re_runtimes en) \<and>
    (\<forall>c. c \<noteq> cid \<longrightarrow> re_contexts en' c = re_contexts en c) \<and>
    map fst (re_replies en') = map fst (re_replies en) @
      owed (dom (re_runtimes en)) (filter (\<lambda>d. dc_context_id d = cid) (re_queue en))"
  using flush_context_ok [OF assms]
  by (auto simp: flush_result_ok_def flush_ok_def)

section \<open>What the runtimes are given\<close>

text \<open>
  A handler that also notes, with the resources, which messages it was called with and what it
  dispatched in turn.
\<close>

type_synonym 'p call_log = "((string \<times> string \<times> 'p) \<times> (string \<times> string \<times> 'p) list) list"

definition recording :: "('s, 'p, 'v, 'e, 'i, 'r) handler \<Rightarrow> ('s, 'p, 'v, 'e, 'i, 'r \<times> 'p call_log) handler" where
  "recording handle rid rt act p cc =
     (case handle rid rt act p \<lparr>cc_scope = cc_scope cc, cc_event_bus = cc_event_bus cc, cc_lifecycle = cc_lifecycle cc,
             cc_instances = cc_instances cc, cc_resources = fst (cc_resources cc)\<rparr> of
        (result, rt', cc', sent) \<Rightarrow>
          (result, rt', \<lparr>cc_scope = cc_scope cc', cc_event_bus = cc_event_bus cc', cc_lifecycle = cc_lifecycle cc',
             cc_instances = cc_instances cc', cc_resources = (cc_resources cc', snd (cc_resources cc) @ [((rid, act, p), sent)])\<rparr>, sent))"

definition message_of :: "'p dispatch_cmd \<Rightarrow> string \<times> string \<times> 'p" where
  "message_of d = (dc_runtime_id d, dc_action d, dc_payload d)"

lemma message_of_sent [simp]: "map message_of (sent_by cid sent) = sent"
  by (induction sent) (auto simp: sent_by_def message_of_def)

text \<open>One round with the recording handler: the same, and one entry for a command that was handled.\<close>

lemma handle_command_recording:
  assumes "handle_command handle nb ni d res en = (r, res', en')"
  shows "\<exists>log. handle_command (recording handle) nb ni d (res, L) en = (r, (res', L @ log), en') \<and>
    (r = Inr () \<longrightarrow> (\<exists>sent. re_queue en' = re_queue en @ sent_by (dc_context_id d) sent \<and>
       (if dc_runtime_id d \<in> dom (re_runtimes en) then log = [(message_of d, sent)] else log = [] \<and> sent = [])))"
proof (cases "re_stopped en \<or> re_runtimes en (dc_runtime_id d) = None \<or> re_contexts en (dc_context_id d) = None")
  case True
  then show ?thesis using assms by (intro exI [of _ "[]"]) (auto simp: handle_command_def Let_def sent_by_def split: option.splits)
next
  case False
  then obtain rt cs where k: "\<not> re_stopped en" "re_runtimes en (dc_runtime_id d) = Some rt" "re_contexts en (dc_context_id d) = Some cs"
    by auto
  obtain sc scopes where t: "take_or_build_scope (dc_runtime_id d) (cs_scopes cs) = (sc, scopes)" by fastforce
  obtain result rt' cc' sent where h: "handle (dc_runtime_id d) rt (dc_action d) (dc_payload d)
      \<lparr>cc_scope = sc, cc_event_bus = cs_event_bus cs, cc_lifecycle = cs_lifecycle cs,
       cc_instances = re_instances en, cc_resources = res\<rparr> = (result, rt', cc', sent)"
    by (metis prod_cases4)
  show ?thesis
    using assms k t h
    by (intro exI [of _ "[(message_of d, sent)]"] conjI impI exI [of _ sent])
      (auto simp: handle_command_def recording_def message_of_def Let_def dom_def)
qed

lemma flush_context_recording:
  assumes "flush_context handle nb ni cid res en = Some y"
  shows "\<forall>L u res' en'. y = (Inr u, res', en') \<longrightarrow>
    (\<exists>log. flush_context (recording handle) nb ni cid (res, L) en = Some (Inr u, (res', L @ log), en') \<and>
       map fst log = filter (\<lambda>(rid, _). rid \<in> dom (re_runtimes en))
         (map message_of (mine cid (re_queue en)) @ concat (map snd log)))"
proof (rule flush_context.raw_induct [OF _ assms], goal_cases)
  case (1 f handle nb ni cid res en y)
  show ?case
  proof (intro allI impI)
    fix L u res' en' assume y: "y = (Inr u, res', en')"
    show "\<exists>log. flush_context (recording handle) nb ni cid (res, L) en = Some (Inr u, (res', L @ log), en') \<and>
       map fst log = filter (\<lambda>(rid, _). rid \<in> dom (re_runtimes en))
         (map message_of (mine cid (re_queue en)) @ concat (map snd log))"
    proof (cases "take_command cid (re_queue en)")
      case None
      then have "mine cid (re_queue en) = []" by (simp add: take_command_None filter_empty_conv)
      with 1(2) None y show ?thesis by (intro exI [of _ "[]"]) (simp add: flush_context.simps)
    next
      case (Some p)
      then obtain d queue where t: "take_command cid (re_queue en) = Some (d, queue)" by (cases p) auto
      obtain r res1 en1 where h: "handle_command handle nb ni d res (en\<lparr>re_queue := queue\<rparr>) = (r, res1, en1)"
        by (metis prod_cases3)
      with 1(2) t y have r: "r = Inr ()" and rest: "f handle nb ni cid res1 en1 = Some y"
        by (auto split: sum.splits)
      from handle_command_recording [OF h, of L] r obtain log1 sent where
        h': "handle_command (recording handle) nb ni d (res, L) (en\<lparr>re_queue := queue\<rparr>) = (Inr (), (res1, L @ log1), en1)"
        and q: "re_queue en1 = queue @ sent_by (dc_context_id d) sent"
        and log1: "if dc_runtime_id d \<in> dom (re_runtimes en) then log1 = [(message_of d, sent)] else log1 = [] \<and> sent = []"
        by auto
      note c = take_command_Some [OF t]
      have rt: "dom (re_runtimes en1) = dom (re_runtimes en)"
        using handle_command_frame(2) [OF h [unfolded r]] by simp
      from 1(1) [OF rest] y obtain log2 where
        f2: "flush_context (recording handle) nb ni cid (res1, L @ log1) en1 = Some (Inr u, (res', (L @ log1) @ log2), en')"
        and l2: "map fst log2 = filter (\<lambda>(rid, _). rid \<in> dom (re_runtimes en1))
          (map message_of (mine cid (re_queue en1)) @ concat (map snd log2))" by blast
      have "flush_context (recording handle) nb ni cid (res, L) en = Some (Inr u, (res', L @ (log1 @ log2)), en')"
        using t h' f2 by (subst flush_context.simps) simp
      moreover have "map fst (log1 @ log2) = filter (\<lambda>(rid, _). rid \<in> dom (re_runtimes en))
          (map message_of (mine cid (re_queue en)) @ concat (map snd (log1 @ log2)))"
        using log1 l2 c by (auto simp: q rt message_of_def split: if_splits)
      ultimately show ?thesis by blast
    qed
  qed
qed

section \<open>Termination\<close>

text \<open>Handlers pass work downwards when each message they dispatch ranks below the one they handle.\<close>

definition cmd_rank :: "(string \<Rightarrow> string \<Rightarrow> 'p \<Rightarrow> nat) \<Rightarrow> 'p dispatch_cmd \<Rightarrow> nat" where
  "cmd_rank rank d = rank (dc_runtime_id d) (dc_action d) (dc_payload d)"

definition passes_down :: "(string \<Rightarrow> string \<Rightarrow> 'p \<Rightarrow> nat) \<Rightarrow> ('s, 'p, 'v, 'e, 'i, 'r) handler \<Rightarrow> bool" where
  "passes_down rank handle \<longleftrightarrow>
     (\<forall>rid rt act p cc. \<forall>(target, act', p') \<in> set (snd (snd (snd (handle rid rt act p cc)))).
        rank target act' p' < rank rid act p)"

lemma flush_context_returns:
  assumes "passes_down rank handle"
  shows "flush_context handle nb ni cid res en \<noteq> None"
proof (induction "mset (map (cmd_rank rank) (mine cid (re_queue en)))" arbitrary: res en
    rule: wf_induct_rule [OF wf_mult [OF wf_less_than]])
  case 1
  show ?case
  proof (cases "take_command cid (re_queue en)")
    case None
    then show ?thesis by (subst flush_context.simps) simp
  next
    case (Some p)
    then obtain d queue where t: "take_command cid (re_queue en) = Some (d, queue)" by (cases p) auto
    obtain r res1 en1 where h: "handle_command handle nb ni d res (en\<lparr>re_queue := queue\<rparr>) = (r, res1, en1)"
      by (metis prod_cases3)
    note q = take_command_Some [OF t]
    show ?thesis
    proof (cases r)
      case (Inl e)
      with t h show ?thesis by (subst flush_context.simps) simp
    next
      case (Inr u)
      obtain sent where sent: "re_queue en1 = queue @ sent_by cid sent"
        and low: "\<forall>(target, act, p) \<in> set sent. rank target act p < cmd_rank rank d"
        using h unfolding Inr
      proof (cases rule: handle_command_cases)
        case unknown
        then show ?thesis using that [of "[]"] by (simp add: sent_by_def)
      next
        case (handled rt cs cc result rt' cc' sent cs')
        have "\<forall>(target, act, p) \<in> set (snd (snd (snd (handle (dc_runtime_id d) rt (dc_action d) (dc_payload d) cc)))).
            rank target act p < rank (dc_runtime_id d) (dc_action d) (dc_payload d)"
          using assms unfolding passes_down_def by blast
        with handled(4) have "\<forall>(target, act, p) \<in> set sent. rank target act p < cmd_rank rank d"
          by (simp add: cmd_rank_def)
        with handled(9) q show ?thesis using that [of sent] by simp
      qed auto
      have "(mset (map (cmd_rank rank) (mine cid (re_queue en1))),
          mset (map (cmd_rank rank) (mine cid (re_queue en)))) \<in> mult less_than"
      proof -
        have "\<forall>k \<in># mset (map (cmd_rank rank) (sent_by cid sent)). \<exists>j \<in># {#cmd_rank rank d#}. (k, j) \<in> less_than"
          using low by (auto simp: sent_by_def cmd_rank_def)
        from one_step_implies_mult [OF _ this, of "mset (map (cmd_rank rank) (mine cid queue))"]
        show ?thesis using q by (simp add: sent)
      qed
      from 1 [OF this, of res1] have "flush_context handle nb ni cid res1 en1 \<noteq> None" .
      with t h Inr show ?thesis by (subst flush_context.simps) simp
    qed
  qed
qed

lemma handle_command_normal:
  assumes "handle_command handle nb ni d res en = (r, res', en')"
    and "\<not> re_stopped en" and "re_contexts en (dc_context_id d) \<noteq> None"
  shows "r = Inr () \<and> \<not> re_stopped en' \<and> re_contexts en' (dc_context_id d) \<noteq> None"
  using assms by (cases rule: handle_command_cases) auto

lemma flush_context_normal:
  assumes "flush_context handle nb ni cid res en = Some y"
  shows "\<not> re_stopped en \<and> re_contexts en cid \<noteq> None \<longrightarrow> fst y = Inr ()"
proof (rule flush_context.raw_induct [OF _ assms], goal_cases)
  case (1 f handle nb ni cid res en y)
  show ?case
  proof (cases "take_command cid (re_queue en)")
    case None
    with 1(2) show ?thesis by auto
  next
    case (Some p)
    then obtain d queue where t: "take_command cid (re_queue en) = Some (d, queue)" by (cases p) auto
    obtain r res1 en1 where h: "handle_command handle nb ni d res (en\<lparr>re_queue := queue\<rparr>) = (r, res1, en1)"
      by (metis prod_cases3)
    show ?thesis
    proof
      assume "\<not> re_stopped en \<and> re_contexts en cid \<noteq> None"
      with handle_command_normal [OF h] take_command_Some [OF t]
      have n: "r = Inr ()" "\<not> re_stopped en1 \<and> re_contexts en1 cid \<noteq> None" by auto
      with 1(2) t h have "f handle nb ni cid res1 en1 = Some y" by simp
      from 1(1) [OF this] n(2) show "fst y = Inr ()" by blast
    qed
  qed
qed

text \<open>
  A flush ends when handlers only pass work downwards: if every message a handler dispatches
  ranks below the message it handles, \<open>flush_context\<close> returns, and when the engine is running
  and knows the context of the flush it returns normally.
\<close>

theorem flush_context_terminates:
  assumes "passes_down rank handle"
  shows "\<exists>y. flush_context handle nb ni cid res en = Some y \<and>
    (\<not> re_stopped en \<and> re_contexts en cid \<noteq> None \<longrightarrow> fst y = Inr ())"
proof -
  from flush_context_returns [OF assms, of nb ni cid res en] obtain y where
    y: "flush_context handle nb ni cid res en = Some y" by auto
  from y flush_context_normal [OF y] show ?thesis by blast
qed

text \<open>
  C18. Nothing that is dispatched is lost. When handlers only pass work downwards, the engine runs and
  knows the context, a flush returns normally, no command of the context is left, the commands of other contexts are
  as they were, and the messages the runtimes were called with are exactly those that were queued for the context,
  followed by those the called runtimes dispatched in turn, each once and in that order; only messages to
  runtimes that do not exist are dropped. Noting the calls does not change the outcome.
\<close>

theorem flush_hands_over_all:
  assumes "passes_down rank handle" and "\<not> re_stopped en" and "re_contexts en cid \<noteq> None"
  shows "\<exists>res' en' log. flush_context handle nb ni cid res en = Some (Inr (), res', en') \<and>
    flush_context (recording handle) nb ni cid (res, []) en = Some (Inr (), (res', log), en') \<and>
    map fst log = filter (\<lambda>(rid, act, p). re_runtimes en rid \<noteq> None)
      (map message_of (filter (\<lambda>d. dc_context_id d = cid) (re_queue en)) @ concat (map snd log)) \<and>
    re_queue en' = filter (\<lambda>d. dc_context_id d \<noteq> cid) (re_queue en) \<and>
    dom (re_runtimes en') = dom (re_runtimes en)"
proof -
  from flush_context_returns [OF assms(1), of nb ni cid res en] obtain y where
    y: "flush_context handle nb ni cid res en = Some y" by auto
  with flush_context_normal [OF y] assms(2,3) obtain res' en' where f: "y = (Inr (), res', en')" by (cases y) auto
  from flush_context_recording [OF y] f obtain log where
    "flush_context (recording handle) nb ni cid (res, []) en = Some (Inr (), (res', log), en')"
    "map fst log = filter (\<lambda>(rid, act, p). re_runtimes en rid \<noteq> None)
      (map message_of (mine cid (re_queue en)) @ concat (map snd log))"
    by (force simp: dom_def case_prod_unfold)
  moreover have "flush_ok cid en en'" using flush_context_ok [OF y] f by (simp add: flush_result_ok_def)
  ultimately show ?thesis using y f by (auto simp: flush_ok_def)
qed

text \<open>
  A command for a context that was never registered costs the engine its runtime: the flush
  stops with an error, the runtime is no longer in the table, and any later command for it is
  dropped without being handled.
\<close>

theorem unregistered_context_loses_runtime:
  assumes "take_command cid (re_queue en) = Some (d, queue)" and "\<not> re_stopped en"
    and "re_runtimes en (dc_runtime_id d) = Some rt" and "re_contexts en cid = None"
  shows "\<exists>en'. flush_context handle nb ni cid res en =
      Some (Inl (InvalidState (''runtime context '' @ show_nat cid @ '' not registered'')), res, en') \<and>
    re_runtimes en' (dc_runtime_id d) = None \<and>
    (dc_runtime_id d' = dc_runtime_id d \<longrightarrow>
       handle_command handle nb ni d' res en' = (Inr (), res, en'))"
proof -
  have "dc_context_id d = cid" using take_command_Some [OF assms(1)] by simp
  then show ?thesis
    using assms by (subst flush_context.simps) (simp add: handle_command_def Let_def)
qed

text \<open>
  Stopping is final. After a \<open>Stop\<close> command the queue is empty and every further command
  is refused without any effect; a flush of any context then does nothing.
\<close>

theorem stop_is_final:
  assumes "rt_send nb StopRuntime en = (Inr u, en1)"
  shows "re_queue en1 = [] \<and> rt_send nb' cmd en1 = (Inl RuntimeStopped, en1) \<and>
    flush_context handle nb ni cid res en1 = Some (Inr (), res, en1)"
proof -
  from assms have "re_stopped en1" "re_queue en1 = []"
    by (auto simp: rt_send_def split: if_splits)
  then show ?thesis by (subst flush_context.simps) (simp add: rt_send_def)
qed

section \<open>A concrete engine\<close>

definition demo_handler :: "(unit, nat, unit, unit, unit, unit) handler" where
  "demo_handler rid rt act p cc = (Inr (Some (p + 1)), rt, cc,
     if act = ''start'' then [(''b'', ''ping'', p)] else [])"

definition demo_engine :: "(unit, nat, unit, unit, unit) runtime_engine" where
  "demo_engine = \<lparr>re_runtimes = [''a'' \<mapsto> (), ''b'' \<mapsto> ()],
     re_contexts = [1 \<mapsto> \<lparr>cs_scopes = rsc_default, cs_event_bus = (), cs_lifecycle = []\<rparr>],
     re_queue = [\<lparr>dc_runtime_id = ''a'', dc_action = ''start'', dc_payload = 3, dc_context_id = 1, dc_reply = Some 7\<rparr>,
                 \<lparr>dc_runtime_id = ''b'', dc_action = ''ping'', dc_payload = 5, dc_context_id = 2, dc_reply = None\<rparr>,
                 \<lparr>dc_runtime_id = ''b'', dc_action = ''ping'', dc_payload = 4, dc_context_id = 1, dc_reply = Some 8\<rparr>],
     re_instances = (), re_stopped = False, re_event_bus = None, re_replies = []\<rparr>"

declare flush_context.simps [code]

theorem flush_context_complete_witness:
  "map_option (\<lambda>(r, res, en). (r, map fst (re_replies en), length (re_queue en)))
     (flush_context demo_handler () () 1 () demo_engine) = Some (Inr (), [7, 8], 1)"
proof -
  obtain res' en' where f: "flush_context demo_handler () () 1 () demo_engine = Some (Inr (), res', en')"
  proof -
    have "map_option fst (flush_context demo_handler () () 1 () demo_engine) = Some (Inr ())" by code_simp
    then show ?thesis using that by (metis (no_types, lifting) map_option_eq_Some prod.collapse)
  qed
  have "dom (re_runtimes demo_engine) = {''a'', ''b''}" by (auto simp: demo_engine_def)
  then show ?thesis using flush_context_complete [OF f] f by (simp add: demo_engine_def owed_def)
qed

theorem flush_context_terminates_witness:
  "\<exists>res en. flush_context demo_handler () () 1 () demo_engine = Some (Inr (), res, en)"
proof -
  have "passes_down (\<lambda>target act p. if act = ''start'' then 1 else 0) demo_handler"
    by (simp add: passes_down_def demo_handler_def)
  from flush_context_terminates [OF this, of "()" "()" 1 "()" demo_engine] show ?thesis
    by (auto simp: demo_engine_def)
qed

theorem flush_hands_over_all_witness:
  "map_option (\<lambda>(r, (res, log), en). map fst log) (flush_context (recording demo_handler) () () 1 ((), []) demo_engine) =
     Some [(''a'', ''start'', 3), (''b'', ''ping'', 4), (''b'', ''ping'', 3)]"
proof -
  have d: "passes_down (\<lambda>target act p. if act = ''start'' then 1 else 0) demo_handler"
    by (simp add: passes_down_def demo_handler_def)
  from flush_hands_over_all [OF d, of demo_engine 1 "()" "()" "()"] obtain res' en' log where
    "flush_context (recording demo_handler) () () 1 ((), []) demo_engine = Some (Inr (), (res', log), en')"
    by (auto simp: demo_engine_def)
  moreover have "map_option (\<lambda>(r, (res, log), en). map fst log) (flush_context (recording demo_handler) () () 1 ((), []) demo_engine) =
     Some [(''a'', ''start'', 3), (''b'', ''ping'', 4), (''b'', ''ping'', 3)]" by code_simp
  ultimately show ?thesis by simp
qed

theorem unregistered_context_loses_runtime_witness:
  "\<exists>en. flush_context demo_handler () () 2 () demo_engine =
     Some (Inl (InvalidState (''runtime context '' @ show_nat 2 @ '' not registered'')), (), en) \<and>
     re_runtimes en ''b'' = None"
  using unregistered_context_loses_runtime [of 2 demo_engine _ _ "()" demo_handler "()" "()" "()"]
  by (fastforce simp: demo_engine_def)

theorem stop_is_final_witness:
  "re_queue (snd (rt_send () StopRuntime demo_engine)) = []"
  using stop_is_final [of "()" demo_engine "()" "snd (rt_send () StopRuntime demo_engine)"]
  by (simp add: rt_send_def demo_engine_def)

end
