(* ===== verification/Orchestrator.thy ===== *)
theory Orchestrator
  imports Prelude
begin

text \<open>
  Boot planning, \<^verbatim>\<open>crates/core/src/orchestrator.rs\<close>: which orchestrators take part in
  a boot cycle and phase, in which order (Kahn's algorithm over their declared dependencies), and
  running them. What an orchestrator does is a trait implementation, kept as functions on a
  world \<open>'w\<close> (metadata, instances, runtime, resources and the orchestrators' own state) and on
  a scope builder \<open>'b\<close>.
\<close>

section \<open>Data\<close>

datatype boot_cycle = PreBoot | Collect | RuntimeCycle | PostRuntime | Pump

datatype boot_phase = StartPhase | EndPhase

record ('w, 'b) orchestrator =
  oc_id :: string
  oc_depends_on :: "string list"
  oc_cycle :: "boot_cycle list"
  oc_phase :: boot_phase
  oc_build_scope :: "'b \<Rightarrow> unit result \<times> 'b"
  oc_preload :: "nat \<Rightarrow> 'w \<Rightarrow> unit result \<times> 'w"
  oc_run :: "nat \<Rightarrow> 'w \<Rightarrow> unit result \<times> 'w"

definition conflicting_cycles :: "boot_cycle list \<Rightarrow> bool" where
  "conflicting_cycles cs \<longleftrightarrow> RuntimeCycle \<in> set cs \<and> PostRuntime \<in> set cs"

section \<open>The plan\<close>

definition conflict_error :: "string \<Rightarrow> core_error" where
  "conflict_error oid = InvalidState (''orchestrator `'' @ oid @
     ''` has conflicting cycles Runtime and PostRuntime'')"

fun select_from :: "nat \<Rightarrow> ('w, 'b) orchestrator list \<Rightarrow> boot_cycle \<Rightarrow> boot_phase \<Rightarrow> nat list result" where
  "select_from idx [] cycle phase = Inr []"
| "select_from idx (item # items) cycle phase =
     (if conflicting_cycles (oc_cycle item)
      then Inl (conflict_error (oc_id item))
      else (case select_from (Suc idx) items cycle phase of
              Inl e \<Rightarrow> Inl e
            | Inr sel \<Rightarrow>
                Inr (if cycle \<in> set (oc_cycle item) \<and> oc_phase item = phase
                     then idx # sel else sel)))"

text \<open>The three tables: \<open>deps\<close>, \<open>indegree\<close> and \<open>id_to_idx\<close>.\<close>

type_synonym dep_map = "nat \<rightharpoonup> nat list"
type_synonym indegree = "(nat \<times> nat) list"

definition or_default :: "'k \<Rightarrow> ('k \<rightharpoonup> 'v list) \<Rightarrow> 'v list" where
  "or_default k m = (case m k of None \<Rightarrow> [] | Some l \<Rightarrow> l)"

definition id_table :: "('w, 'b) orchestrator list \<Rightarrow> nat list \<Rightarrow> string \<rightharpoonup> nat" where
  "id_table items sel = fold (\<lambda>idx m. m(oc_id (items ! idx) \<mapsto> idx)) sel Map.empty"

definition add_edge :: "nat \<Rightarrow> nat \<Rightarrow> dep_map \<times> indegree \<Rightarrow> dep_map \<times> indegree" where
  "add_edge d idx = (\<lambda>(deps, ind).
     (deps(d \<mapsto> or_default d deps @ [idx]),
      AList.update idx ((case map_of ind idx of None \<Rightarrow> 0 | Some n \<Rightarrow> n) + 1) ind))"

definition add_dependency :: "(string \<rightharpoonup> nat) \<Rightarrow> nat \<Rightarrow> string \<Rightarrow> dep_map \<times> indegree \<Rightarrow> dep_map \<times> indegree" where
  "add_dependency ids idx dep_id g =
     (case ids dep_id of None \<Rightarrow> g | Some d \<Rightarrow> add_edge d idx g)"

definition build_graph :: "('w, 'b) orchestrator list \<Rightarrow> nat list \<Rightarrow> dep_map \<times> indegree" where
  "build_graph items sel =
     fold (\<lambda>idx. fold (add_dependency (id_table items sel) idx) (oc_depends_on (items ! idx))) sel
       (fold (\<lambda>idx m. m(idx \<mapsto> [])) sel Map.empty, fold (\<lambda>idx. AList.update idx 0) sel [])"

text \<open>
  The inner loop over \<open>nexts\<close>. The decrement of an unsigned 0 would panic (or wrap), which is
  \<open>None\<close> here; the correctness theorem shows that it never happens.
\<close>

fun relax :: "nat list \<Rightarrow> indegree \<Rightarrow> nat list \<Rightarrow> (indegree \<times> nat list) option" where
  "relax [] ind queue = Some (ind, queue)"
| "relax (x # xs) ind queue =
     (case map_of ind x of
        None \<Rightarrow> relax xs ind queue
      | Some 0 \<Rightarrow> None
      | Some (Suc k) \<Rightarrow>
          relax xs (AList.update x k ind) (if k = 0 then queue @ [x] else queue))"

lemma sum_list_update:
  "map_of ind x = Some (Suc k) \<Longrightarrow>
   Suc (sum_list (map snd (AList.update x k ind))) = sum_list (map snd ind)"
  by (induction ind) auto

lemma relax_measure:
  "relax xs ind queue = Some (ind', queue') \<Longrightarrow>
   2 * sum_list (map snd ind') + length queue' \<le> 2 * sum_list (map snd ind) + length queue"
proof (induction xs arbitrary: ind queue)
  case (Cons x xs)
  show ?case
  proof (cases "map_of ind x")
    case None
    with Cons show ?thesis by simp
  next
    case (Some m)
    with Cons.prems obtain k where k: "m = Suc k" by (cases m) auto
    with Cons.prems Some have "relax xs (AList.update x k ind)
        (if k = 0 then queue @ [x] else queue) = Some (ind', queue')" by simp
    from Cons.IH [OF this] sum_list_update [of ind x k] Some k show ?thesis
      by (auto split: if_splits)
  qed
qed simp

function kahn :: "dep_map \<Rightarrow> indegree \<Rightarrow> nat list \<Rightarrow> nat list \<Rightarrow> nat list option" where
  "kahn deps ind queue order =
     (case queue of
        [] \<Rightarrow> Some order
      | node # queue' \<Rightarrow>
          (case relax (or_default node deps) ind queue' of
             None \<Rightarrow> None
           | Some (ind', queue'') \<Rightarrow> kahn deps ind' queue'' (order @ [node])))"
  by pat_completeness auto
termination
  by (relation "measure (\<lambda>(deps, ind, queue, order). 2 * sum_list (map snd ind) + length queue)")
    (auto dest: relax_measure)

declare kahn.simps [simp del]

text \<open>The outer option is the panic of the inner loop, the result is the code's.\<close>

definition planned_indexes ::
  "('w, 'b) orchestrator list \<Rightarrow> boot_cycle \<Rightarrow> boot_phase \<Rightarrow> nat list result option" where
  "planned_indexes items cycle phase =
     (case select_from 0 items cycle phase of
        Inl e \<Rightarrow> Some (Inl e)
      | Inr selected \<Rightarrow>
          let (deps, indegree) = build_graph items selected;
              queue = filter (\<lambda>idx. (case map_of indegree idx of None \<Rightarrow> 0 | Some n \<Rightarrow> n) = 0) selected
          in (case kahn deps indegree queue [] of
                None \<Rightarrow> None
              | Some order \<Rightarrow>
                  if length order \<noteq> length selected
                  then Some (Inl (DependencyCycle (map (\<lambda>idx. oc_id (items ! idx)) selected)))
                  else Some (Inr (if phase = EndPhase then rev order else order))))"

section \<open>Running a cycle\<close>

text \<open>A loop of fallible steps with \<open>?\<close>: the first error ends it.\<close>

fun run_all :: "('s \<Rightarrow> unit result \<times> 's) list \<Rightarrow> 's \<Rightarrow> unit result \<times> 's" where
  "run_all [] s = (Inr (), s)"
| "run_all (f # fs) s =
     (case f s of (Inl e, s') \<Rightarrow> (Inl e, s') | (Inr _, s') \<Rightarrow> run_all fs s')"

definition at_index ::
  "('w, 'b) orchestrator list \<Rightarrow> (('w, 'b) orchestrator \<Rightarrow> 's \<Rightarrow> unit result \<times> 's) \<Rightarrow> nat \<Rightarrow> 's \<Rightarrow> unit result \<times> 's" where
  "at_index items f idx s =
     (if idx < length items then f (items ! idx) s
      else (Inl (InvalidState ''orchestrator index out of bounds''), s))"

definition run_cycle_phase ::
  "('w, 'b) orchestrator list \<Rightarrow> boot_cycle \<Rightarrow> boot_phase \<Rightarrow> nat \<Rightarrow> 'w \<Rightarrow> (unit result \<times> 'w) option" where
  "run_cycle_phase items cycle phase context_id w =
     (case planned_indexes items cycle phase of
        None \<Rightarrow> None
      | Some (Inl e) \<Rightarrow> Some (Inl e, w)
      | Some (Inr plan) \<Rightarrow>
          Some (run_all (map (at_index items (\<lambda>item. if cycle = Collect then oc_preload item context_id
                                              else oc_run item context_id)) plan) w))"

definition build_scope_cycle_phase ::
  "('w, 'b) orchestrator list \<Rightarrow> boot_cycle \<Rightarrow> boot_phase \<Rightarrow> 'b \<Rightarrow> (unit result \<times> 'b) option" where
  "build_scope_cycle_phase items cycle phase b =
     (case planned_indexes items cycle phase of
        None \<Rightarrow> None
      | Some (Inl e) \<Rightarrow> Some (Inl e, b)
      | Some (Inr plan) \<Rightarrow> Some (run_all (map (at_index items oc_build_scope) plan) b))"

section \<open>The graph that is built\<close>

text \<open>One pair per declared dependency that names a selected orchestrator.\<close>

definition dep_edges :: "('w, 'b) orchestrator list \<Rightarrow> nat list \<Rightarrow> (nat \<times> nat) list" where
  "dep_edges items sel =
     concat (map (\<lambda>idx. map (\<lambda>d. (d, idx))
       (List.map_filter (id_table items sel) (oc_depends_on (items ! idx)))) sel)"

definition indeg :: "(nat \<times> nat) list \<Rightarrow> nat set \<Rightarrow> nat \<Rightarrow> nat" where
  "indeg es D i = length (filter (\<lambda>(a, b). b = i \<and> a \<notin> D) es)"

definition graph_of :: "nat list \<Rightarrow> (nat \<times> nat) list \<Rightarrow> dep_map \<times> indegree \<Rightarrow> bool" where
  "graph_of sel es g \<longleftrightarrow>
     (\<forall>d. or_default d (fst g) = map snd (filter (\<lambda>(a, b). a = d) es)) \<and>
     (\<forall>i. map_of (snd g) i = (if i \<in> set sel then Some (indeg es {} i) else None))"

lemma graph_of_edge:
  "graph_of sel es g \<Longrightarrow> i \<in> set sel \<Longrightarrow> graph_of sel (es @ [(d, i)]) (add_edge d i g)"
  by (cases g) (auto simp: graph_of_def add_edge_def or_default_def indeg_def)

lemma graph_of_dependencies:
  "graph_of sel es g \<Longrightarrow> i \<in> set sel \<Longrightarrow>
   graph_of sel (es @ map (\<lambda>d. (d, i)) (List.map_filter ids ds)) (fold (add_dependency ids i) ds g)"
proof (induction ds arbitrary: es g)
  case (Cons x ds)
  show ?case
  proof (cases "ids x")
    case None
    with Cons show ?thesis by (simp add: add_dependency_def map_filter_simps)
  next
    case (Some d)
    from Cons.IH [OF graph_of_edge [OF Cons.prems, of d] Cons.prems(2)] Some show ?thesis
      by (simp add: add_dependency_def map_filter_simps)
  qed
qed (simp add: map_filter_simps)

lemma graph_of_rows:
  "graph_of sel es g \<Longrightarrow> set is \<subseteq> set sel \<Longrightarrow>
   graph_of sel (es @ concat (map (\<lambda>i. map (\<lambda>d. (d, i)) (List.map_filter ids (dep i))) is))
     (fold (\<lambda>i. fold (add_dependency ids i) (dep i)) is g)"
proof (induction "is" arbitrary: es g)
  case (Cons i "is")
  from Cons.prems have "i \<in> set sel" "set is \<subseteq> set sel" by auto
  from Cons.IH [OF graph_of_dependencies [OF Cons.prems(1) this(1), of ids "dep i"] this(2)]
  show ?case by simp
qed simp

lemma build_graph_edges: "graph_of sel (dep_edges items sel) (build_graph items sel)"
proof -
  have d: "or_default i (fold (\<lambda>idx m. m(idx \<mapsto> [])) is m) = (if i \<in> set is then [] else or_default i m)"
    for i "is" and m :: dep_map
    by (induction "is" arbitrary: m) (auto simp: or_default_def)
  have n: "map_of (fold (\<lambda>idx. AList.update idx 0) is al) i =
      (if i \<in> set is then Some 0 else map_of al i)" for i "is" and al :: indegree
    by (induction "is" arbitrary: al) auto
  have "graph_of sel [] (fold (\<lambda>idx m. m(idx \<mapsto> [])) sel Map.empty,
      fold (\<lambda>idx. AList.update idx 0) sel [])"
    by (simp add: graph_of_def d n indeg_def) (simp add: or_default_def)
  from graph_of_rows [OF this subset_refl, of "id_table items sel" "\<lambda>i. oc_depends_on (items ! i)"]
  show ?thesis by (simp add: build_graph_def dep_edges_def)
qed

section \<open>Kahn's algorithm\<close>

text \<open>
  The invariant between two rounds: with the emitted nodes \<open>order\<close>, every indegree counts
  the edges from nodes not yet emitted, the emitted and queued nodes are exactly those of
  indegree 0, and each emitted node comes after all the nodes it depends on.
\<close>

definition topo :: "(nat \<times> nat) list \<Rightarrow> nat list \<Rightarrow> bool" where
  "topo es order \<longleftrightarrow> (\<forall>k < length order. \<forall>d. (d, order ! k) \<in> set es \<longrightarrow> d \<in> set (take k order))"

definition kahn_inv :: "nat list \<Rightarrow> (nat \<times> nat) list \<Rightarrow> indegree \<Rightarrow> nat list \<Rightarrow> nat list \<Rightarrow> bool" where
  "kahn_inv sel es ind queue order \<longleftrightarrow>
     distinct (order @ queue) \<and>
     (\<forall>i. map_of ind i = (if i \<in> set sel then Some (indeg es (set order) i) else None)) \<and>
     (\<forall>i. i \<in> set (order @ queue) \<longleftrightarrow> i \<in> set sel \<and> indeg es (set order) i = 0) \<and>
     topo es order"

text \<open>The same in the middle of the inner loop, with \<open>xs\<close> still to relax.\<close>

definition relax_inv ::
  "nat list \<Rightarrow> (nat \<times> nat) list \<Rightarrow> indegree \<Rightarrow> nat list \<Rightarrow> nat list \<Rightarrow> nat list \<Rightarrow> bool" where
  "relax_inv sel es ind queue order xs \<longleftrightarrow>
     distinct (order @ queue) \<and>
     (\<forall>i. map_of ind i =
        (if i \<in> set sel then Some (indeg es (set order) i + count_list xs i) else None)) \<and>
     (\<forall>i. i \<in> set (order @ queue) \<longleftrightarrow>
        i \<in> set sel \<and> indeg es (set order) i = 0 \<and> i \<notin> set xs)"

lemma relax_correct:
  "relax_inv sel es ind queue order xs \<Longrightarrow> set xs \<subseteq> set sel \<Longrightarrow>
   \<exists>ind' queue'. relax xs ind queue = Some (ind', queue') \<and> relax_inv sel es ind' queue' order []"
proof (induction xs arbitrary: ind queue)
  case (Cons x xs)
  let ?k = "indeg es (set order) x + count_list xs x"
  from Cons.prems have x: "map_of ind x = Some (Suc ?k)" by (auto simp: relax_inv_def)
  let ?q = "if ?k = 0 then queue @ [x] else queue"
  from Cons.prems(1) have nx: "x \<notin> set (order @ queue)" by (auto simp: relax_inv_def)
  have "relax_inv sel es (AList.update x ?k ind) ?q order xs"
    unfolding relax_inv_def
  proof (intro conjI allI)
    show "distinct (order @ ?q)" using Cons.prems(1) nx by (auto simp: relax_inv_def)
    show "map_of (AList.update x ?k ind) i =
        (if i \<in> set sel then Some (indeg es (set order) i + count_list xs i) else None)" for i
      using Cons.prems by (auto simp: relax_inv_def)
    show "i \<in> set (order @ ?q) \<longleftrightarrow> i \<in> set sel \<and> indeg es (set order) i = 0 \<and> i \<notin> set xs" for i
      using Cons.prems nx by (auto simp: relax_inv_def count_list_0_iff)
  qed
  from Cons.IH [OF this] Cons.prems(2) x show ?case by simp
qed (simp add: relax_inv_def)

lemma indeg_insert:
  "n \<notin> D \<Longrightarrow> indeg es D i =
     indeg es (insert n D) i + count_list (map snd (filter (\<lambda>(a, b). a = n) es)) i"
  by (induction es) (auto simp: indeg_def)

lemma indeg_zero: "indeg es D i = 0 \<longleftrightarrow> (\<forall>d. (d, i) \<in> set es \<longrightarrow> d \<in> D)"
  by (auto simp: indeg_def filter_empty_conv)

lemma kahn_round:
  assumes "kahn_inv sel es ind (n # queue) order" and "graph_of sel es (deps, ind0)"
    and "snd ` set es \<subseteq> set sel"
  shows "\<exists>ind' queue'. relax (or_default n deps) ind queue = Some (ind', queue') \<and>
    kahn_inv sel es ind' queue' (order @ [n])"
proof -
  let ?xs = "map snd (filter (\<lambda>(a, b). a = n) es)"
  have xs: "or_default n deps = ?xs" using assms(2) by (simp add: graph_of_def)
  have nin: "n \<notin> set order" "n \<in> set sel" "indeg es (set order) n = 0"
    using assms(1) by (auto simp: kahn_inv_def)
  have split: "indeg es (set order) i = indeg es (insert n (set order)) i + count_list ?xs i" for i
    by (rule indeg_insert [OF nin(1)])
  have "relax_inv sel es ind queue (order @ [n]) ?xs"
    unfolding relax_inv_def
  proof (intro conjI allI)
    show "distinct ((order @ [n]) @ queue)" using assms(1) by (auto simp: kahn_inv_def)
    show "map_of ind i = (if i \<in> set sel
        then Some (indeg es (set (order @ [n])) i + count_list ?xs i) else None)" for i
      using assms(1) split [of i] by (simp add: kahn_inv_def)
    show "i \<in> set ((order @ [n]) @ queue) \<longleftrightarrow>
        i \<in> set sel \<and> indeg es (set (order @ [n])) i = 0 \<and> i \<notin> set ?xs" for i
      using assms(1) split [of i] by (auto simp: kahn_inv_def count_list_0_iff)
  qed
  from relax_correct [OF this] assms(3) obtain ind' queue' where
    r: "relax ?xs ind queue = Some (ind', queue')"
    and inv: "relax_inv sel es ind' queue' (order @ [n]) []" by fastforce
  have "topo es (order @ [n])"
    using assms(1) nin(3)
    by (auto simp: topo_def kahn_inv_def indeg_zero nth_append less_Suc_eq)
  with inv r show ?thesis by (simp add: kahn_inv_def relax_inv_def xs)
qed

lemma kahn_correct:
  "graph_of sel es (deps, ind0) \<Longrightarrow> snd ` set es \<subseteq> set sel \<Longrightarrow> kahn_inv sel es ind queue order \<Longrightarrow>
    \<exists>order' ind'. kahn deps ind queue order = Some order' \<and> kahn_inv sel es ind' [] order'"
proof (induction deps ind queue order rule: kahn.induct)
  case (1 deps ind queue order)
  show ?case
  proof (cases queue)
    case Nil
    then have "kahn deps ind queue order = Some order" by (simp add: kahn.simps [of deps ind "[]"])
    with 1(4) Nil show ?thesis by blast
  next
    case (Cons n queue')
    from kahn_round [of sel es ind n queue' order deps ind0] 1(2-4) Cons obtain ind' queue''
      where r: "relax (or_default n deps) ind queue' = Some (ind', queue'')"
        and inv: "kahn_inv sel es ind' queue'' (order @ [n])" by auto
    from 1(1) [OF Cons r refl 1(2,3) inv] show ?thesis
      by (subst kahn.simps) (simp add: Cons r)
  qed
qed

lemma kahn_start:
  assumes "graph_of sel es (deps, ind)" and "distinct sel"
  shows "kahn_inv sel es ind
    (filter (\<lambda>idx. (case map_of ind idx of None \<Rightarrow> 0 | Some n \<Rightarrow> n) = 0) sel) []"
  using assms by (auto simp: kahn_inv_def graph_of_def topo_def)

text \<open>All nodes are emitted exactly when the edges have no cycle.\<close>

lemma topo_acyclic:
  assumes "topo es order" and "distinct order" and "snd ` set es \<subseteq> set order"
  shows "acyclic (set es)"
proof -
  let ?pos = "\<lambda>i. the (map_of (zip order [0..<length order]) i)"
  have pos: "?pos (order ! k) = k" if "k < length order" for k
    using map_of_zip_nth [of order "[0..<length order]" k] that assms(2) by simp
  have "?pos d < ?pos i" if e: "(d, i) \<in> set es" for d i
  proof -
    from e assms(3) obtain k where k: "k < length order" "i = order ! k"
      by (force simp: in_set_conv_nth)
    with e assms(1) have "d \<in> set (take k order)" by (auto simp: topo_def)
    then obtain j where "j < k" "d = order ! j" by (auto simp: in_set_conv_nth)
    with k show ?thesis by (simp add: pos)
  qed
  then have "\<And>a b. (a, b) \<in> set es \<Longrightarrow> - int (?pos b) < - int (?pos a)" by simp
  then show ?thesis by (rule acyclicI_order)
qed

lemma kahn_complete:
  assumes "kahn_inv sel es ind [] order" and "acyclic (set es)" and "fst ` set es \<subseteq> set sel"
  shows "set order = set sel"
proof (rule ccontr)
  assume "set order \<noteq> set sel"
  moreover have "set order \<subseteq> set sel" using assms(1) by (auto simp: kahn_inv_def)
  ultimately have "set sel - set order \<noteq> {}" by blast
  moreover have "wf (set es)" using assms(2) by (simp add: finite_acyclic_wf)
  ultimately obtain i where i: "i \<in> set sel - set order"
    and min: "\<And>d. (d, i) \<in> set es \<Longrightarrow> d \<notin> set sel - set order"
    by (metis wfE_min' )
  from i assms(1) have "indeg es (set order) i \<noteq> 0" by (auto simp: kahn_inv_def)
  then obtain d where "(d, i) \<in> set es" "d \<notin> set order" by (auto simp: indeg_zero)
  with min assms(3) show False by force
qed

section \<open>Correctness of the plan\<close>

definition takes_part :: "boot_cycle \<Rightarrow> boot_phase \<Rightarrow> ('w, 'b) orchestrator \<Rightarrow> bool" where
  "takes_part cycle phase item \<longleftrightarrow> cycle \<in> set (oc_cycle item) \<and> oc_phase item = phase"

definition selection :: "('w, 'b) orchestrator list \<Rightarrow> boot_cycle \<Rightarrow> boot_phase \<Rightarrow> nat list" where
  "selection items cycle phase =
     map fst (filter (\<lambda>(i, item). takes_part cycle phase item) (enumerate 0 items))"

lemma select_from_eq:
  "\<forall>item \<in> set items. \<not> conflicting_cycles (oc_cycle item) \<Longrightarrow>
   select_from n items cycle phase =
     Inr (map fst (filter (\<lambda>(i, item). takes_part cycle phase item) (enumerate n items)))"
  by (induction items arbitrary: n) (auto simp: takes_part_def)

lemma select_from_conflict:
  "\<exists>item \<in> set items. conflicting_cycles (oc_cycle item) \<Longrightarrow>
   \<exists>item \<in> set items. conflicting_cycles (oc_cycle item) \<and>
     select_from n items cycle phase = Inl (conflict_error (oc_id item))"
proof (induction items arbitrary: n)
  case (Cons a items)
  show ?case
  proof (cases "conflicting_cycles (oc_cycle a)")
    case False
    with Cons.prems Cons.IH [of "Suc n"] False show ?thesis by auto
  qed simp
qed simp

lemma distinct_selection: "distinct (selection items cycle phase)"
proof -
  have "distinct (map fst (enumerate 0 items))" by simp
  then show ?thesis unfolding selection_def by (rule distinct_map_filter)
qed

lemma id_table_range: "id_table items sel x = Some d \<Longrightarrow> d \<in> set sel"
proof -
  have "fold (\<lambda>idx m. m(oc_id (items ! idx) \<mapsto> idx)) is m x = Some d \<Longrightarrow> d \<in> set is \<or> m x = Some d"
    for "is" m
  proof (induction "is" arbitrary: m)
    case (Cons a "is")
    from Cons.IH [of "m(oc_id (items ! a) \<mapsto> a)"] Cons.prems show ?case
      by (auto split: if_splits)
  qed simp
  from this [of sel Map.empty] show "id_table items sel x = Some d \<Longrightarrow> d \<in> set sel"
    by (simp add: id_table_def)
qed

lemma dep_edges_nodes:
  "fst ` set (dep_edges items sel) \<subseteq> set sel" "snd ` set (dep_edges items sel) \<subseteq> set sel"
  by (auto simp: dep_edges_def List.map_filter_def dest: id_table_range)

lemma planned_indexes_eq:
  assumes "\<forall>item \<in> set items. \<not> conflicting_cycles (oc_cycle item)"
  shows "if acyclic (set (dep_edges items (selection items cycle phase)))
    then \<exists>order. planned_indexes items cycle phase =
           Some (Inr (if phase = EndPhase then rev order else order)) \<and>
         distinct order \<and> set order = set (selection items cycle phase) \<and>
         topo (dep_edges items (selection items cycle phase)) order
    else planned_indexes items cycle phase =
           Some (Inl (DependencyCycle (map (\<lambda>idx. oc_id (items ! idx)) (selection items cycle phase))))"
proof -
  let ?sel = "selection items cycle phase"
  let ?es = "dep_edges items ?sel"
  have sel: "select_from 0 items cycle phase = Inr ?sel"
    using select_from_eq [OF assms] by (simp add: selection_def)
  obtain deps ind where g: "build_graph items ?sel = (deps, ind)" by fastforce
  then have graph: "graph_of ?sel ?es (deps, ind)" using build_graph_edges [of ?sel items] by simp
  let ?q = "filter (\<lambda>idx. (case map_of ind idx of None \<Rightarrow> 0 | Some n \<Rightarrow> n) = 0) ?sel"
  from kahn_correct [OF graph dep_edges_nodes(2) kahn_start [OF graph distinct_selection]]
  obtain order ind' where k: "kahn deps ind ?q [] = Some order"
    and inv: "kahn_inv ?sel ?es ind' [] order" by blast
  then have d: "distinct order" and sub: "set order \<subseteq> set ?sel" and t: "topo ?es order"
    by (auto simp: kahn_inv_def)
  have len: "length order = length ?sel \<longleftrightarrow> set order = set ?sel"
    using d distinct_selection [of items cycle phase] sub
    by (metis List.finite_set card_subset_eq distinct_card)
  have eq: "planned_indexes items cycle phase =
      (if set order \<noteq> set ?sel
       then Some (Inl (DependencyCycle (map (\<lambda>idx. oc_id (items ! idx)) ?sel)))
       else Some (Inr (if phase = EndPhase then rev order else order)))"
    by (simp add: planned_indexes_def sel g k len)
  show ?thesis
  proof (cases "acyclic (set ?es)")
    case True
    with kahn_complete [OF inv True dep_edges_nodes(1)] eq d t show ?thesis by auto
  next
    case False
    with topo_acyclic [OF t d] dep_edges_nodes(2) [of items ?sel]
    have "set order \<noteq> set ?sel" by auto
    with eq False show ?thesis by simp
  qed
qed

text \<open>In a topological order every edge goes forward.\<close>

lemma topo_forward:
  assumes "topo es order" and "distinct order" and "i < length order" "j < length order"
    and "(order ! i, order ! j) \<in> set es"
  shows "i < j"
proof -
  from assms have "order ! i \<in> set (take j order)" by (auto simp: topo_def)
  then obtain k where "k < j" "order ! i = order ! k" using assms(4) by (auto simp: in_set_conv_nth)
  with assms show ?thesis by (simp add: nth_eq_iff_index_eq)
qed

lemma topo_backward:
  assumes "topo es order" and "distinct order" and "i < length order" "j < length order"
    and "(rev order ! i, rev order ! j) \<in> set es"
  shows "j < i"
proof -
  from assms(3,4) have "length order - Suc i < length order" "length order - Suc j < length order" by auto
  from topo_forward [OF assms(1,2) this] assms(3-5) show ?thesis by (simp add: rev_nth)
qed

lemma set_selection: "set (selection items cycle phase) = {i. i < length items \<and> takes_part cycle phase (items ! i)}"
  by (force simp: selection_def in_set_enumerate_eq)

text \<open>
  C17. Boot planning is right. When no orchestrator claims both the Runtime and the PostRuntime
  cycle, planning never panics. If the dependencies among the orchestrators of a cycle and phase
  are acyclic, the plan lists exactly those orchestrators, each once, every dependency before its
  dependents in a start phase and after them in an end phase. Otherwise planning fails with
  \<open>DependencyCycle\<close> on the ids of all of them.
\<close>

theorem planned_indexes_correct:
  assumes "\<forall>item \<in> set items. \<not> conflicting_cycles (oc_cycle item)"
  shows "if acyclic (set (dep_edges items (selection items cycle phase)))
    then \<exists>plan. planned_indexes items cycle phase = Some (Inr plan) \<and> distinct plan \<and>
      set plan = {i. i < length items \<and> cycle \<in> set (oc_cycle (items ! i)) \<and> oc_phase (items ! i) = phase} \<and>
      (\<forall>i < length plan. \<forall>j < length plan.
         (plan ! i, plan ! j) \<in> set (dep_edges items (selection items cycle phase)) \<longrightarrow>
         (if phase = EndPhase then j < i else i < j))
    else planned_indexes items cycle phase =
      Some (Inl (DependencyCycle (map (\<lambda>idx. oc_id (items ! idx)) (selection items cycle phase))))"
proof (cases "acyclic (set (dep_edges items (selection items cycle phase)))")
  case True
  with planned_indexes_eq [OF assms, of cycle phase] obtain order where
    o: "planned_indexes items cycle phase = Some (Inr (if phase = EndPhase then rev order else order))"
       "distinct order" "set order = set (selection items cycle phase)"
       "topo (dep_edges items (selection items cycle phase)) order" by auto
  with True topo_forward [OF o(4,2)] topo_backward [OF o(4,2)] show ?thesis
    by (auto simp: set_selection takes_part_def)
next
  case False
  with planned_indexes_eq [OF assms, of cycle phase] show ?thesis by simp
qed

section \<open>A concrete store\<close>

definition demo_orch :: "string \<Rightarrow> string list \<Rightarrow> boot_phase \<Rightarrow> (string list, unit) orchestrator" where
  "demo_orch i ds ph = \<lparr>oc_id = i, oc_depends_on = ds, oc_cycle = [Collect, RuntimeCycle], oc_phase = ph,
     oc_build_scope = (\<lambda>b. (Inr (), b)), oc_preload = (\<lambda>c w. (Inr (), w @ [i])),
     oc_run = (\<lambda>c w. (Inr (), w @ [i]))\<rparr>"

definition demo_orchs :: "(string list, unit) orchestrator list" where
  "demo_orchs = [demo_orch ''services'' [''units'', ''mounts''] StartPhase, demo_orch ''mounts'' [''units''] StartPhase,
     demo_orch ''units'' [] StartPhase]"

text \<open>The plan of the demo store is the one the theorem promises: units, mounts, services.\<close>

theorem planned_indexes_correct_witness:
  "planned_indexes demo_orchs RuntimeCycle StartPhase = Some (Inr [2, 1, 0]) \<and>
   set [2, 1, 0 :: nat] = {i. i < length demo_orchs \<and> RuntimeCycle \<in> set (oc_cycle (demo_orchs ! i)) \<and>
     oc_phase (demo_orchs ! i) = StartPhase}"
proof -
  have p: "planned_indexes demo_orchs RuntimeCycle StartPhase = Some (Inr [2, 1, 0])" by code_simp
  have ok: "\<forall>item \<in> set demo_orchs. \<not> conflicting_cycles (oc_cycle item)" by code_simp
  from planned_indexes_correct [OF ok, of RuntimeCycle StartPhase] p show ?thesis
    by (auto split: if_splits)
qed

end
