(* ===== verification/Boot.thy ===== *)
theory Boot
  imports Registry Runtime Orchestrator
begin

text \<open>
  The boot engine, \<^verbatim>\<open>crates/core/src/boot.rs\<close>: it allocates context ids, lets the
  orchestrators of each cycle and phase build scopes and run, and flushes the dispatches they made.
  The world of the orchestrators is the metadata registry, the instances, the runtime engine, the
  resources and whatever state the orchestrators keep themselves. Runtimes are the handler
  argument of \<open>Runtime\<close>, here given the metadata too.
\<close>

section \<open>State\<close>

definition usize_max :: nat where "usize_max = 18446744073709551615"

record ('w, 'b) boot_engine =
  be_orchestrators :: "('w, 'b) orchestrator list"
  be_next_context_id :: nat
  be_persistent :: "nat list"

definition be_default :: "('w, 'b) boot_engine" where
  "be_default = \<lparr>be_orchestrators = [], be_next_context_id = 1, be_persistent = []\<rparr>"

text \<open>\<open>wd_own\<close> is the state inside the orchestrators, \<open>wd_reload_static\<close> the flag of the registry.\<close>

record ('md, 'i, 'en, 'r, 'o) world =
  wd_metadata :: 'md
  wd_instances :: 'i
  wd_runtime :: 'en
  wd_resources :: 'r
  wd_own :: 'o
  wd_reload_static :: bool

type_synonym ('u, 't, 's, 'p, 'v, 'e, 'i, 'r, 'o) boot_world =
  "(('u, 't) metadata_registry, 'i, ('s, 'p, 'v, 'e, 'i) runtime_engine, 'r, 'o) world"

text \<open>What the boot engine is given: the runtimes, a new event bus and an empty instance map.\<close>

record ('md, 's, 'p, 'v, 'e, 'i, 'r) boot_env =
  bv_handle :: "'md \<Rightarrow> ('s, 'p, 'v, 'e, 'i, 'r) handler"
  bv_new_bus :: 'e
  bv_new_instances :: 'i

definition alloc_context_id :: "('w, 'b) boot_engine \<Rightarrow> nat \<times> ('w, 'b) boot_engine" where
  "alloc_context_id be =
     (be_next_context_id be, be\<lparr>be_next_context_id := min usize_max (be_next_context_id be + 1)\<rparr>)"

definition primary_context_id :: "('w, 'b) boot_engine \<Rightarrow> nat option" where
  "primary_context_id be = (case be_persistent be of [] \<Rightarrow> None | c # _ \<Rightarrow> Some c)"

section \<open>One cycle and phase\<close>

text \<open>
  Steps may not return (\<open>None\<close>) and may fail. \<open>and_then\<close> is \<open>?\<close>: an error ends the
  function with the state reached.
\<close>

type_synonym 's run = "(unit result \<times> 's) option"

definition and_then :: "'s run \<Rightarrow> ('s \<Rightarrow> 's run) \<Rightarrow> 's run" where
  "and_then m f = (case m of None \<Rightarrow> None | Some (Inl e, s) \<Rightarrow> Some (Inl e, s) | Some (Inr _, s) \<Rightarrow> f s)"

fun steps :: "('s \<Rightarrow> 's run) list \<Rightarrow> 's \<Rightarrow> 's run" where
  "steps [] s = Some (Inr (), s)"
| "steps (f # fs) s = and_then (f s) (steps fs)"

definition flush_world ::
  "(('u, 't) metadata_registry, 's, 'p, 'v, 'e, 'i, 'r) boot_env \<Rightarrow> nat \<Rightarrow>
   ('u, 't, 's, 'p, 'v, 'e, 'i, 'r, 'o) boot_world \<Rightarrow> ('u, 't, 's, 'p, 'v, 'e, 'i, 'r, 'o) boot_world run" where
  "flush_world env cid w =
     map_option (\<lambda>(r, res, en). (r, w\<lparr>wd_resources := res, wd_runtime := en\<rparr>))
       (flush_context (bv_handle env (wd_metadata w)) (bv_new_bus env) (bv_new_instances env) cid
         (wd_resources w) (wd_runtime w))"

text \<open>\<open>build_scope\<close> works on the orchestrators' own state and on the scopes being built.\<close>

type_synonym ('u, 't, 's, 'p, 'v, 'e, 'i, 'r, 'o) boot_state =
  "(('u, 't, 's, 'p, 'v, 'e, 'i, 'r, 'o) boot_world, 'o \<times> 'v runtime_scopes) boot_engine \<times>
   ('u, 't, 's, 'p, 'v, 'e, 'i, 'r, 'o) boot_world"

definition build_scopes ::
  "(('u, 't) metadata_registry, 's, 'p, 'v, 'e, 'i, 'r) boot_env \<Rightarrow> boot_cycle \<Rightarrow> boot_phase \<Rightarrow> nat \<Rightarrow>
   (('u, 't, 's, 'p, 'v, 'e, 'i, 'r, 'o) boot_world, 'o \<times> 'v runtime_scopes) orchestrator list \<Rightarrow>
   ('u, 't, 's, 'p, 'v, 'e, 'i, 'r, 'o) boot_world \<Rightarrow> ('u, 't, 's, 'p, 'v, 'e, 'i, 'r, 'o) boot_world run" where
  "build_scopes env cycle phase cid items w =
     (case build_scope_cycle_phase items cycle phase (wd_own w, rsc_default) of
        None \<Rightarrow> None
      | Some (Inl e, own, _) \<Rightarrow> Some (Inl e, w\<lparr>wd_own := own\<rparr>)
      | Some (Inr _, own, scopes) \<Rightarrow>
          (case rt_register_scopes (bv_new_bus env) cid scopes (wd_runtime w) of
             (r, en) \<Rightarrow> Some (r, w\<lparr>wd_own := own, wd_runtime := en\<rparr>)))"

definition context_cycle ::
  "(('u, 't) metadata_registry, 's, 'p, 'v, 'e, 'i, 'r) boot_env \<Rightarrow> boot_cycle \<Rightarrow> boot_phase \<Rightarrow> nat \<Rightarrow>
   (('u, 't, 's, 'p, 'v, 'e, 'i, 'r, 'o) boot_world, 'o \<times> 'v runtime_scopes) orchestrator list \<Rightarrow>
   ('u, 't, 's, 'p, 'v, 'e, 'i, 'r, 'o) boot_world \<Rightarrow> ('u, 't, 's, 'p, 'v, 'e, 'i, 'r, 'o) boot_world run" where
  "context_cycle env cycle phase cid items w =
     and_then (build_scopes env cycle phase cid items w) (\<lambda>w.
     and_then (run_cycle_phase items cycle phase cid w) (flush_world env cid))"

text \<open>The body of the loops of \<open>run\<close> and \<open>reload_units_collection\<close>, on a fresh context.\<close>

definition boot_cycle_phase ::
  "(('u, 't) metadata_registry, 's, 'p, 'v, 'e, 'i, 'r) boot_env \<Rightarrow> boot_cycle \<Rightarrow> boot_phase \<Rightarrow>
   ('u, 't, 's, 'p, 'v, 'e, 'i, 'r, 'o) boot_state \<Rightarrow> ('u, 't, 's, 'p, 'v, 'e, 'i, 'r, 'o) boot_state run" where
  "boot_cycle_phase env cycle phase = (\<lambda>(be, w).
     let (cid, be1) = alloc_context_id be in
     map_option (\<lambda>(r, w'). (r,
         if r = Inr () \<and> cycle = RuntimeCycle \<and> phase = StartPhase
         then be1\<lparr>be_persistent := be_persistent be1 @ [cid]\<rparr> else be1, w'))
       (context_cycle env cycle phase cid (be_orchestrators be) w))"

section \<open>The operations\<close>

definition pre_boot ::
  "(('w, 'b) orchestrator list) \<Rightarrow> 'w \<Rightarrow> 'w run" where
  "pre_boot items = steps (map (\<lambda>phase. run_cycle_phase items PreBoot phase 0) [StartPhase, EndPhase])"

definition boot_run ::
  "(('u, 't) metadata_registry, 's, 'p, 'v, 'e, 'i, 'r) boot_env \<Rightarrow>
   ('u, 't, 's, 'p, 'v, 'e, 'i, 'r, 'o) boot_state \<Rightarrow> ('u, 't, 's, 'p, 'v, 'e, 'i, 'r, 'o) boot_state run" where
  "boot_run env = (\<lambda>(be, w).
     steps [boot_cycle_phase env Collect StartPhase, boot_cycle_phase env Collect EndPhase,
            boot_cycle_phase env RuntimeCycle StartPhase, boot_cycle_phase env RuntimeCycle EndPhase,
            boot_cycle_phase env PostRuntime StartPhase, boot_cycle_phase env PostRuntime EndPhase]
       (be\<lparr>be_persistent := []\<rparr>, w))"

definition pump_context ::
  "(('u, 't) metadata_registry, 's, 'p, 'v, 'e, 'i, 'r) boot_env \<Rightarrow>
   (('u, 't, 's, 'p, 'v, 'e, 'i, 'r, 'o) boot_world, 'o \<times> 'v runtime_scopes) orchestrator list \<Rightarrow> nat \<Rightarrow> boot_phase \<Rightarrow>
   ('u, 't, 's, 'p, 'v, 'e, 'i, 'r, 'o) boot_world \<Rightarrow> ('u, 't, 's, 'p, 'v, 'e, 'i, 'r, 'o) boot_world run" where
  "pump_context env items cid phase w =
     and_then (run_cycle_phase items Pump phase cid w) (flush_world env cid)"

definition pump_once ::
  "(('u, 't) metadata_registry, 's, 'p, 'v, 'e, 'i, 'r) boot_env \<Rightarrow>
   ('u, 't, 's, 'p, 'v, 'e, 'i, 'r, 'o) boot_state \<Rightarrow> ('u, 't, 's, 'p, 'v, 'e, 'i, 'r, 'o) boot_state run" where
  "pump_once env = (\<lambda>(be, w).
     map_option (\<lambda>(r, w'). (r, be, w'))
       (steps (concat (map (\<lambda>cid. map (pump_context env (be_orchestrators be) cid) [StartPhase, EndPhase])
                 (be_persistent be))) w))"

text \<open>
  The removals of a reload: every metadata scope (but \<open>static\<close>, unless its reload was asked
  for) has its stoppers dispatched, once per indexed type, and is removed. \<open>box_name\<close> boxes a
  \<open>Ustr\<close> for a payload.
\<close>

definition dispatch_stopper ::
  "'e \<Rightarrow> (ustr \<Rightarrow> nat \<times> 'a) \<Rightarrow> nat \<Rightarrow> ustr \<Rightarrow> (nat \<rightharpoonup> string \<times> string) \<Rightarrow> nat \<Rightarrow>
   ('s, 'a runtime_payload, 'v, 'e, 'i) runtime_engine \<Rightarrow> ('s, 'a runtime_payload, 'v, 'e, 'i) runtime_engine" where
  "dispatch_stopper new_bus box_name cid name stoppers t en =
     (case stoppers t of
        None \<Rightarrow> en
      | Some (r, a) \<Rightarrow>
          snd (rt_dispatch new_bus r a (rp_insert ''scope'' (fst (box_name name)) (snd (box_name name)) Map.empty)
                 cid en))"

definition remove_scope ::
  "'e \<Rightarrow> (ustr \<Rightarrow> nat \<times> 'a) \<Rightarrow> nat \<Rightarrow> nat list \<Rightarrow> ustr \<Rightarrow>
   ('u, 't, 's, 'a runtime_payload, 'v, 'e, 'i, 'r, 'o) boot_world \<Rightarrow>
   ('u, 't, 's, 'a runtime_payload, 'v, 'e, 'i, 'r, 'o) boot_world" where
  "remove_scope new_bus box_name cid types name w =
     w\<lparr>wd_runtime := fold (dispatch_stopper new_bus box_name cid name (mr_stoppers (wd_metadata w))) types
                       (wd_runtime w),
       wd_metadata := snd (mr_remove_metadata name (wd_metadata w))\<rparr>"

definition reload_removals ::
  "'e \<Rightarrow> (ustr \<Rightarrow> nat \<times> 'a) \<Rightarrow> nat \<Rightarrow> ('u, 't, 's, 'a runtime_payload, 'v, 'e, 'i, 'r, 'o) boot_world \<Rightarrow>
   ('u, 't, 's, 'a runtime_payload, 'v, 'e, 'i, 'r, 'o) boot_world" where
  "reload_removals new_bus box_name cid w =
     (let names = map fst (mr_metadata (wd_metadata w));
          to_remove = (if wd_reload_static w then names else filter (\<lambda>n. n \<noteq> ''static'') names);
          types = map fst (mr_indexes (wd_metadata w))
      in fold (remove_scope new_bus box_name cid types) to_remove (w\<lparr>wd_reload_static := False\<rparr>))"

definition reload_units_collection ::
  "(('u, 't) metadata_registry, 's, 'a runtime_payload, 'v, 'e, 'i, 'r) boot_env \<Rightarrow> (ustr \<Rightarrow> nat \<times> 'a) \<Rightarrow>
   ('u, 't, 's, 'a runtime_payload, 'v, 'e, 'i, 'r, 'o) boot_state \<Rightarrow>
   ('u, 't, 's, 'a runtime_payload, 'v, 'e, 'i, 'r, 'o) boot_state run" where
  "reload_units_collection env box_name = (\<lambda>(be, w).
     steps (map (boot_cycle_phase env Collect) [StartPhase, EndPhase])
       (be, reload_removals (bv_new_bus env) box_name
              (case primary_context_id be of None \<Rightarrow> 0 | Some c \<Rightarrow> c) w))"

section \<open>Steps\<close>

lemma and_then_ok:
  "and_then m f = Some (Inr u, s') \<longleftrightarrow> (\<exists>s. m = Some (Inr (), s) \<and> f s = Some (Inr u, s'))"
  by (auto simp: and_then_def split: option.splits sum.splits)

lemma and_then_returns: "m \<noteq> None \<Longrightarrow> (\<And>s. f s \<noteq> None) \<Longrightarrow> and_then m f \<noteq> None"
  by (auto simp: and_then_def split: option.splits sum.splits)

lemma steps_returns: "(\<And>f s. f \<in> set fs \<Longrightarrow> f s \<noteq> None) \<Longrightarrow> steps fs s \<noteq> None"
proof (induction fs arbitrary: s)
  case (Cons f fs)
  then show ?case unfolding steps.simps by (intro and_then_returns) simp_all
qed simp

lemma run_all_rel:
  assumes "\<And>s. R s s" and "\<And>s t v. R s t \<Longrightarrow> R t v \<Longrightarrow> R s v"
    and "\<And>f s r t. f \<in> set fs \<Longrightarrow> f s = (r, t) \<Longrightarrow> R s t"
  shows "run_all fs s = (r, t) \<Longrightarrow> R s t"
  using assms(3)
proof (induction fs arbitrary: s)
  case Nil
  then show ?case using assms(1) by simp
next
  case (Cons f fs)
  obtain r1 s1 where f: "f s = (r1, s1)" by fastforce
  with Cons.prems(2) [of f] have R1: "R s s1" by simp
  show ?case
  proof (cases r1)
    case (Inl e)
    with Cons.prems(1) f R1 show ?thesis by auto
  next
    case (Inr u)
    with Cons.prems(1) f have "run_all fs s1 = (r, t)" by simp
    then have "R s1 t"
    proof (rule Cons.IH)
      fix g u q v assume "g \<in> set fs" "g u = (q, v)"
      then show "R u v" using Cons.prems(2) [of g] by simp
    qed
    with R1 show ?thesis by (rule assms(2))
  qed
qed

lemma planned_indexes_returns: "planned_indexes items cycle phase \<noteq> None"
proof (cases "\<exists>item \<in> set items. conflicting_cycles (oc_cycle item)")
  case True
  from select_from_conflict [OF this, of 0 cycle phase] show ?thesis
    by (auto simp: planned_indexes_def)
next
  case False
  with planned_indexes_eq [of items cycle phase] show ?thesis by (auto split: if_splits)
qed

lemma run_cycle_phase_returns: "run_cycle_phase items cycle phase cid w \<noteq> None"
  using planned_indexes_returns [of items cycle phase]
  by (auto simp: run_cycle_phase_def split: sum.splits)

lemma build_scopes_returns: "build_scopes env cycle phase cid items w \<noteq> None"
proof -
  have "build_scope_cycle_phase items cycle phase b \<noteq> None" for b
    using planned_indexes_returns [of items cycle phase]
    by (auto simp: build_scope_cycle_phase_def simp del: not_None_eq split: sum.splits option.splits)
  then show ?thesis by (auto simp: build_scopes_def split: sum.splits option.splits prod.splits)
qed

lemma flush_world_returns: "passes_down rank (bv_handle env (wd_metadata w)) \<Longrightarrow> flush_world env cid w \<noteq> None"
  using flush_context_returns [of rank "bv_handle env (wd_metadata w)"] by (simp add: flush_world_def)

lemma context_cycle_returns:
  "(\<And>md. passes_down rank (bv_handle env md)) \<Longrightarrow> context_cycle env cycle phase cid items w \<noteq> None"
  unfolding context_cycle_def
  by (intro and_then_returns build_scopes_returns run_cycle_phase_returns flush_world_returns)

lemma boot_cycle_phase_returns:
  assumes "\<And>md. passes_down rank (bv_handle env md)"
  shows "boot_cycle_phase env cycle phase s \<noteq> None"
  using context_cycle_returns [where env = env, OF assms]
  by (cases s) (simp add: boot_cycle_phase_def alloc_context_id_def)

text \<open>
  Booting, pumping and reloading return. When the runtimes' handlers only dispatch messages of
  lower rank than the one they handle, none of the boot engine's operations can hang or panic,
  whatever the orchestrators are and do.
\<close>

theorem boot_returns:
  assumes "\<And>md. passes_down rank (bv_handle env md)"
  shows "boot_run env s \<noteq> None \<and> pump_once env s \<noteq> None \<and>
    reload_units_collection env box_name s \<noteq> None \<and> pre_boot items w \<noteq> None"
proof (intro conjI)
  have ret: "\<forall>f \<in> set fs. \<exists>c p. f = boot_cycle_phase env c p \<Longrightarrow> steps fs s \<noteq> None" for fs s
    by (rule steps_returns) (metis boot_cycle_phase_returns [where env = env, OF assms])
  show "boot_run env s \<noteq> None"
    unfolding boot_run_def by (cases s, simp only: split, rule ret) auto
  show "reload_units_collection env box_name s \<noteq> None"
    unfolding reload_units_collection_def
    by (cases s, simp only: split, rule ret) auto
  have "pump_context env is cid phase w' \<noteq> None" for "is" cid phase w'
    unfolding pump_context_def
    by (intro and_then_returns run_cycle_phase_returns flush_world_returns [OF assms])
  then have "steps (concat (map (\<lambda>cid. map (pump_context env is cid) [StartPhase, EndPhase]) cs)) w' \<noteq> None"
    for "is" cs w' by (intro steps_returns) auto
  then show "pump_once env s \<noteq> None" by (cases s) (simp add: pump_once_def)
  show "pre_boot items w \<noteq> None"
    unfolding pre_boot_def list.map steps.simps
    by (intro and_then_returns run_cycle_phase_returns) simp
qed

section \<open>Contexts\<close>

lemma boot_cycle_phase_ok:
  assumes "boot_cycle_phase env cycle phase (be, w) = Some (Inr u, be', w')"
  shows "be_orchestrators be' = be_orchestrators be"
    and "be_next_context_id be' = min usize_max (be_next_context_id be + 1)"
    and "be_persistent be' = be_persistent be @
      (if cycle = RuntimeCycle \<and> phase = StartPhase then [be_next_context_id be] else [])"
    and "context_cycle env cycle phase (be_next_context_id be) (be_orchestrators be) w = Some (Inr u, w')"
  using assms by (auto simp: boot_cycle_phase_def alloc_context_id_def split: if_splits)

text \<open>The states a successful boot passes through.\<close>

lemma boot_run_ok:
  assumes "boot_run env (be, w) = Some (Inr u, be', w')" and "be_next_context_id be + 6 \<le> usize_max"
  obtains w1 w2 w3 w4 w5 where
    "context_cycle env Collect StartPhase (be_next_context_id be) (be_orchestrators be) w = Some (Inr (), w1)"
    "context_cycle env Collect EndPhase (be_next_context_id be + 1) (be_orchestrators be) w1 = Some (Inr (), w2)"
    "context_cycle env RuntimeCycle StartPhase (be_next_context_id be + 2) (be_orchestrators be) w2 = Some (Inr (), w3)"
    "context_cycle env RuntimeCycle EndPhase (be_next_context_id be + 3) (be_orchestrators be) w3 = Some (Inr (), w4)"
    "context_cycle env PostRuntime StartPhase (be_next_context_id be + 4) (be_orchestrators be) w4 = Some (Inr (), w5)"
    "context_cycle env PostRuntime EndPhase (be_next_context_id be + 5) (be_orchestrators be) w5 = Some (Inr (), w')"
    "be' = be\<lparr>be_next_context_id := be_next_context_id be + 6, be_persistent := [be_next_context_id be + 2]\<rparr>"
proof -
  let ?be = "be\<lparr>be_persistent := []\<rparr>"
  from assms(1) obtain b1 w1 b2 w2 b3 w3 b4 w4 b5 w5 where
    c: "boot_cycle_phase env Collect StartPhase (?be, w) = Some (Inr (), b1, w1)"
      "boot_cycle_phase env Collect EndPhase (b1, w1) = Some (Inr (), b2, w2)"
      "boot_cycle_phase env RuntimeCycle StartPhase (b2, w2) = Some (Inr (), b3, w3)"
      "boot_cycle_phase env RuntimeCycle EndPhase (b3, w3) = Some (Inr (), b4, w4)"
      "boot_cycle_phase env PostRuntime StartPhase (b4, w4) = Some (Inr (), b5, w5)"
      "boot_cycle_phase env PostRuntime EndPhase (b5, w5) = Some (Inr (), be', w')"
    by (auto simp: boot_run_def and_then_ok)
  note k = c [THEN boot_cycle_phase_ok(1)] c [THEN boot_cycle_phase_ok(2)] c [THEN boot_cycle_phase_ok(3)]
  from assms(2) have e: "be' = be\<lparr>be_next_context_id := be_next_context_id be + 6,
      be_persistent := [be_next_context_id be + 2]\<rparr>"
    using k by (cases be', cases be) (simp add: min_def)
  have n: "be_next_context_id b1 = be_next_context_id be + 1" "be_next_context_id b2 = be_next_context_id be + 2"
    "be_next_context_id b3 = be_next_context_id be + 3" "be_next_context_id b4 = be_next_context_id be + 4"
    "be_next_context_id b5 = be_next_context_id be + 5"
    using k assms(2) by simp_all
  have o: "be_orchestrators b1 = be_orchestrators be" "be_orchestrators b2 = be_orchestrators be"
    "be_orchestrators b3 = be_orchestrators be" "be_orchestrators b4 = be_orchestrators be"
    "be_orchestrators b5 = be_orchestrators be"
    using c [THEN boot_cycle_phase_ok(1)] by simp_all
  show ?thesis
    by (rule that [OF _ c(2) [THEN boot_cycle_phase_ok(4), unfolded n o]
          c(3) [THEN boot_cycle_phase_ok(4), unfolded n o] c(4) [THEN boot_cycle_phase_ok(4), unfolded n o]
          c(5) [THEN boot_cycle_phase_ok(4), unfolded n o] c(6) [THEN boot_cycle_phase_ok(4), unfolded n o] e])
      (use c(1) [THEN boot_cycle_phase_ok(4)] in simp)
qed

text \<open>
  The contexts of a boot. A successful boot uses six fresh context ids, one per cycle and
  phase; the third, of the start of the Runtime cycle, becomes the only persistent context, the
  one whose pump cycle runs from then on, whatever contexts an earlier boot had.
\<close>

theorem boot_run_contexts:
  assumes "boot_run env (be, w) = Some (Inr u, be', w')" and "be_next_context_id be + 6 \<le> usize_max"
  shows "be_next_context_id be' = be_next_context_id be + 6 \<and>
    be_persistent be' = [be_next_context_id be + 2] \<and>
    primary_context_id be' = Some (be_next_context_id be + 2) \<and>
    be_orchestrators be' = be_orchestrators be"
  by (rule boot_run_ok [OF assms]) (simp add: primary_context_id_def)

section \<open>Nothing stays queued\<close>

text \<open>Orchestrators reach the engine through \<open>OrchestratorContext::dispatch\<close>, on their context.\<close>

definition queued :: "('u, 't, 's, 'p, 'v, 'e, 'i, 'r, 'o) boot_world \<Rightarrow> 'p dispatch_cmd list" where
  "queued w = re_queue (wd_runtime w)"

definition queue_grows :: "nat \<Rightarrow> ('u, 't, 's, 'p, 'v, 'e, 'i, 'r, 'o) boot_world \<Rightarrow>
    ('u, 't, 's, 'p, 'v, 'e, 'i, 'r, 'o) boot_world \<Rightarrow> bool" where
  "queue_grows cid w w' \<longleftrightarrow> others cid (queued w') = others cid (queued w)"

definition own_context ::
  "(('u, 't, 's, 'p, 'v, 'e, 'i, 'r, 'o) boot_world, 'b) orchestrator \<Rightarrow> bool" where
  "own_context item \<longleftrightarrow> (\<forall>cid w. queue_grows cid w (snd (oc_run item cid w)) \<and>
     queue_grows cid w (snd (oc_preload item cid w)))"

lemma run_cycle_phase_queue:
  assumes "\<forall>item \<in> set items. own_context item" and "run_cycle_phase items cycle phase cid w = Some (r, w')"
  shows "queue_grows cid w w'"
proof (cases "\<exists>plan. planned_indexes items cycle phase = Some (Inr plan)")
  case True
  then obtain plan where "planned_indexes items cycle phase = Some (Inr plan)" by blast
  with assms(2) have r: "run_all (map (at_index items (\<lambda>item. if cycle = Collect then oc_preload item cid
      else oc_run item cid)) plan) w = (r, w')" by (simp add: run_cycle_phase_def)
  show ?thesis
  proof (rule run_all_rel [OF _ _ _ r])
    fix f s q t
    assume "f \<in> set (map (at_index items (\<lambda>item. if cycle = Collect then oc_preload item cid
      else oc_run item cid)) plan)" and "f s = (q, t)"
    then show "queue_grows cid s t"
      using assms(1) unfolding own_context_def
      by (auto simp: at_index_def queue_grows_def split: if_splits dest!: nth_mem) (metis snd_conv)+
  qed (simp_all add: queue_grows_def)
next
  case False
  with assms(2) have "w' = w" by (auto simp: run_cycle_phase_def split: option.splits sum.splits)
  then show ?thesis by (simp add: queue_grows_def)
qed

lemma build_scopes_queue: "build_scopes env cycle phase cid items w = Some (r, w') \<Longrightarrow> queued w' = queued w"
  by (auto simp: build_scopes_def queued_def rt_register_scopes_def rt_send_def Let_def
      split: option.splits sum.splits prod.splits if_splits)

lemma context_cycle_queue:
  assumes "\<forall>item \<in> set items. own_context item"
    and "context_cycle env cycle phase cid items w = Some (Inr u, w')"
  shows "queued w' = others cid (queued w)"
proof -
  from assms(2) obtain w1 w2 where b: "build_scopes env cycle phase cid items w = Some (Inr (), w1)"
    and r: "run_cycle_phase items cycle phase cid w1 = Some (Inr (), w2)"
    and f: "flush_world env cid w2 = Some (Inr u, w')"
    by (auto simp: context_cycle_def and_then_ok)
  from f obtain res en where "flush_context (bv_handle env (wd_metadata w2)) (bv_new_bus env)
      (bv_new_instances env) cid (wd_resources w2) (wd_runtime w2) = Some (Inr u, res, en)"
    and w': "w' = w2\<lparr>wd_resources := res, wd_runtime := en\<rparr>"
    by (auto simp: flush_world_def)
  from flush_context_ok [OF this(1)] w' have "queued w' = others cid (queued w2)"
    by (simp add: flush_result_ok_def flush_ok_def queued_def)
  with run_cycle_phase_queue [OF assms(1) r] build_scopes_queue [OF b] show ?thesis
    by (simp add: queue_grows_def)
qed

text \<open>
  A boot leaves no work behind. When the orchestrators dispatch on the context they are given,
  a successful boot leaves no command of its six contexts queued, those its runtimes sent in turn
  included: the queue holds what it held before for other contexts, in the same order.
\<close>

theorem boot_run_handles_all:
  assumes "boot_run env (be, w) = Some (Inr u, be', w')" and "be_next_context_id be + 6 \<le> usize_max"
    and "\<forall>item \<in> set (be_orchestrators be). own_context item"
  shows "re_queue (wd_runtime w') =
    filter (\<lambda>d. dc_context_id d < be_next_context_id be \<or> be_next_context_id be' \<le> dc_context_id d)
      (re_queue (wd_runtime w))"
proof (rule boot_run_ok [OF assms(1,2)])
  fix w1 w2 w3 w4 w5
  assume c: "context_cycle env Collect StartPhase (be_next_context_id be) (be_orchestrators be) w = Some (Inr (), w1)"
    "context_cycle env Collect EndPhase (be_next_context_id be + 1) (be_orchestrators be) w1 = Some (Inr (), w2)"
    "context_cycle env RuntimeCycle StartPhase (be_next_context_id be + 2) (be_orchestrators be) w2 = Some (Inr (), w3)"
    "context_cycle env RuntimeCycle EndPhase (be_next_context_id be + 3) (be_orchestrators be) w3 = Some (Inr (), w4)"
    "context_cycle env PostRuntime StartPhase (be_next_context_id be + 4) (be_orchestrators be) w4 = Some (Inr (), w5)"
    "context_cycle env PostRuntime EndPhase (be_next_context_id be + 5) (be_orchestrators be) w5 = Some (Inr (), w')"
    and be': "be' = be\<lparr>be_next_context_id := be_next_context_id be + 6, be_persistent := [be_next_context_id be + 2]\<rparr>"
  note q = c [THEN context_cycle_queue [OF assms(3)]]
  have "queued w' = filter (\<lambda>d. dc_context_id d < be_next_context_id be \<or> be_next_context_id be + 6 \<le> dc_context_id d) (queued w)"
    by (simp add: q, rule filter_cong) auto
  then show ?thesis by (simp add: queued_def be')
qed

section \<open>A conflict stops the boot\<close>

lemma planned_indexes_conflict:
  assumes "\<exists>item \<in> set items. conflicting_cycles (oc_cycle item)"
  obtains item where "item \<in> set items" "conflicting_cycles (oc_cycle item)"
    "\<And>cycle phase. planned_indexes items cycle phase = Some (Inl (conflict_error (oc_id item)))"
proof -
  have same: "select_from n items cycle phase = Inl e \<Longrightarrow> select_from n' items cycle' phase' = Inl e"
    if "\<exists>item \<in> set items. conflicting_cycles (oc_cycle item)" for items :: "('a, 'b) orchestrator list"
      and n n' cycle cycle' phase phase' e
    using that
  proof (induction items arbitrary: n n')
    case (Cons a items)
    show ?case
    proof (cases "conflicting_cycles (oc_cycle a)")
      case False
      with Cons.prems Cons.IH [of "Suc n" "Suc n'"] show ?thesis by (auto split: sum.splits)
    qed (use Cons.prems in simp)
  qed simp
  from select_from_conflict [OF assms, of 0 PreBoot StartPhase] obtain item where
    i: "item \<in> set items" "conflicting_cycles (oc_cycle item)"
      "select_from 0 items PreBoot StartPhase = Inl (conflict_error (oc_id item))" by blast
  show ?thesis
    by (rule that [OF i(1,2)]) (simp add: planned_indexes_def same [OF assms i(3)])
qed

text \<open>
  A conflicting declaration stops everything. If some orchestrator claims both the Runtime and
  the PostRuntime cycle, pre-boot and boot fail with an error naming such an orchestrator, and
  neither lets any orchestrator run or changes the world.
\<close>

theorem boot_conflict_stops:
  assumes "\<exists>item \<in> set (be_orchestrators be). conflicting_cycles (oc_cycle item)"
  shows "\<exists>item \<in> set (be_orchestrators be). \<exists>be'. conflicting_cycles (oc_cycle item) \<and>
    boot_run env (be, w) = Some (Inl (conflict_error (oc_id item)), be', w) \<and> be_persistent be' = [] \<and>
    pre_boot (be_orchestrators be) w = Some (Inl (conflict_error (oc_id item)), w)"
proof -
  obtain item where i: "item \<in> set (be_orchestrators be)" "conflicting_cycles (oc_cycle item)"
    and p: "\<And>cycle phase. planned_indexes (be_orchestrators be) cycle phase =
      Some (Inl (conflict_error (oc_id item)))" by (rule planned_indexes_conflict [OF assms]) blast
  have b: "build_scope_cycle_phase (be_orchestrators be) cycle phase s = Some (Inl (conflict_error (oc_id item)), s)"
    for cycle phase s by (simp add: build_scope_cycle_phase_def p)
  have "\<exists>be'. boot_run env (be, w) = Some (Inl (conflict_error (oc_id item)), be', w) \<and> be_persistent be' = []"
    by (simp add: boot_run_def boot_cycle_phase_def alloc_context_id_def context_cycle_def build_scopes_def
        b and_then_def)
  moreover have "pre_boot (be_orchestrators be) w = Some (Inl (conflict_error (oc_id item)), w)"
    by (simp add: pre_boot_def run_cycle_phase_def p and_then_def)
  ultimately show ?thesis using i by blast
qed

section \<open>Reloading\<close>

text \<open>The stopper commands of one scope, and the metadata left when some scopes are removed.\<close>

definition stopper_cmds ::
  "(ustr \<Rightarrow> nat \<times> 'a) \<Rightarrow> nat \<Rightarrow> nat list \<Rightarrow> (nat \<rightharpoonup> string \<times> string) \<Rightarrow> ustr \<Rightarrow> 'a runtime_payload dispatch_cmd list" where
  "stopper_cmds box_name cid types stoppers name =
     map (\<lambda>(r, a). \<lparr>dc_runtime_id = r, dc_action = a, dc_payload = [''scope'' \<mapsto> box_name name],
                  dc_context_id = cid, dc_reply = None\<rparr>)
       (List.map_filter stoppers types)"

lemma dispatch_stoppers:
  "\<not> re_stopped en \<Longrightarrow>
   fold (dispatch_stopper nb box_name cid name stoppers) types en =
     en\<lparr>re_queue := re_queue en @ stopper_cmds box_name cid types stoppers name\<rparr>"
  by (induction types arbitrary: en)
    (auto simp: stopper_cmds_def dispatch_stopper_def rt_dispatch_def rt_send_def rp_insert_def
      map_filter_simps split: option.splits)

lemma delete_filter: "AList.delete k al = filter (\<lambda>(k', _). k' \<noteq> k) al"
  by (induction al) (auto simp: AList.delete_eq)

lemma map_of_filter_out: "map_of (filter (\<lambda>(k, _). k \<notin> G) al) k = (if k \<in> G then None else map_of al k)"
  by (induction al) auto

lemma map_fst_filter: "map fst (filter (\<lambda>(k, _). P k) al) = filter P (map fst al)"
  by (induction al) auto

lemma remove_scopes:
  assumes "\<not> re_stopped (wd_runtime w)" and "distinct names" and "set names \<subseteq> fst ` set (mr_metadata (wd_metadata w))"
  shows "fold (remove_scope nb box_name cid types) names w =
    w\<lparr>wd_runtime := (wd_runtime w)\<lparr>re_queue := re_queue (wd_runtime w) @
         concat (map (stopper_cmds box_name cid types (mr_stoppers (wd_metadata w))) names)\<rparr>,
      wd_metadata := (wd_metadata w)\<lparr>
         mr_metadata := filter (\<lambda>(k, _). k \<notin> set names) (mr_metadata (wd_metadata w)),
         mr_indexes := (if names = [] then mr_indexes (wd_metadata w) else [])\<rparr>\<rparr>"
  using assms
proof (induction names arbitrary: w)
  case Nil
  then show ?case by (simp add: case_prod_unfold)
next
  case (Cons n names)
  let ?w = "remove_scope nb box_name cid types n w"
  have has: "has_metadata (wd_metadata w) n"
    using Cons.prems(3) by (auto simp: has_metadata_def map_of_eq_None_iff image_iff)
  then have w: "?w = w\<lparr>wd_runtime := (wd_runtime w)\<lparr>re_queue := re_queue (wd_runtime w) @
         stopper_cmds box_name cid types (mr_stoppers (wd_metadata w)) n\<rparr>,
      wd_metadata := (wd_metadata w)\<lparr>mr_metadata := filter (\<lambda>(k, _). k \<noteq> n) (mr_metadata (wd_metadata w)),
         mr_indexes := []\<rparr>\<rparr>"
    using Cons.prems(1) by (simp add: remove_scope_def dispatch_stoppers mr_remove_metadata_def delete_filter Let_def)
  have "set names \<subseteq> fst ` set (mr_metadata (wd_metadata ?w))"
    using Cons.prems(2,3) by (force simp: w)
  from Cons.IH [OF _ _ this] Cons.prems(1,2) show ?case
    by (simp add: w case_prod_unfold conj_commute)
qed

text \<open>
  What a reload removes. With the engine running, every metadata scope except \<open>static\<close> goes,
  \<open>static\<close> too when its reload was requested, and the request is cleared. Before it goes, each
  scope has the stopper of every indexed type dispatched with its name, on the primary context,
  behind everything already queued. The indexes go with the first scope removed.
\<close>

theorem reload_removals_effect:
  assumes "\<not> re_stopped (wd_runtime w)" and "keys_distinct (mr_metadata (wd_metadata w))"
  shows "let md = wd_metadata w;
      gone = filter (\<lambda>n. n \<noteq> ''static'' \<or> wd_reload_static w) (map fst (mr_metadata md));
      w' = reload_removals nb box_name cid w
    in map fst (mr_metadata (wd_metadata w')) =
         (if wd_reload_static w then [] else filter (\<lambda>n. n = ''static'') (map fst (mr_metadata md))) \<and>
       (\<forall>k. map_of (mr_metadata (wd_metadata w')) k =
          (if k \<in> set gone then None else map_of (mr_metadata md) k)) \<and>
       re_queue (wd_runtime w') = re_queue (wd_runtime w) @
         concat (map (stopper_cmds box_name cid (map fst (mr_indexes md)) (mr_stoppers md)) gone) \<and>
       mr_indexes (wd_metadata w') = (if gone = [] then mr_indexes md else []) \<and>
       \<not> wd_reload_static w'"
proof -
  let ?md = "mr_metadata (wd_metadata w)"
  define G where "G = filter (\<lambda>n. n \<noteq> ''static'' \<or> wd_reload_static w) (map fst ?md)"
  have "(if wd_reload_static w then map fst ?md else filter (\<lambda>n. n \<noteq> ''static'') (map fst ?md)) = G"
    by (auto simp: G_def filter_id_conv)
  then have r: "reload_removals nb box_name cid w =
      fold (remove_scope nb box_name cid (map fst (mr_indexes (wd_metadata w)))) G (w\<lparr>wd_reload_static := False\<rparr>)"
    by (simp add: reload_removals_def)
  have "map fst (filter (\<lambda>(k, _). k \<notin> set G) ?md) = filter (\<lambda>k. k \<notin> set G) (map fst ?md)"
    by (rule map_fst_filter)
  also have "\<dots> = (if wd_reload_static w then [] else filter (\<lambda>n. n = ''static'') (map fst ?md))"
    by (auto simp: G_def filter_empty_conv intro!: filter_cong)
  finally have names: "map fst (filter (\<lambda>(k, _). k \<notin> set G) ?md) =
      (if wd_reload_static w then [] else filter (\<lambda>n. n = ''static'') (map fst ?md))" .
  have "fold (remove_scope nb box_name cid (map fst (mr_indexes (wd_metadata w)))) G (w\<lparr>wd_reload_static := False\<rparr>) =
      (w\<lparr>wd_reload_static := False\<rparr>)\<lparr>wd_runtime := (wd_runtime w)\<lparr>re_queue := re_queue (wd_runtime w) @
         concat (map (stopper_cmds box_name cid (map fst (mr_indexes (wd_metadata w))) (mr_stoppers (wd_metadata w))) G)\<rparr>,
      wd_metadata := (wd_metadata w)\<lparr>mr_metadata := filter (\<lambda>(k, _). k \<notin> set G) ?md,
         mr_indexes := (if G = [] then mr_indexes (wd_metadata w) else [])\<rparr>\<rparr>"
    using remove_scopes [of "w\<lparr>wd_reload_static := False\<rparr>" G nb box_name cid "map fst (mr_indexes (wd_metadata w))"] assms
    by (auto simp: G_def)
  then show ?thesis unfolding Let_def r G_def [symmetric] by (simp add: names map_of_filter_out)
qed

section \<open>A concrete boot\<close>

type_synonym demo_world = "(unit, unit, unit, nat runtime_payload, unit, unit, unit, unit, unit) boot_world"

text \<open>An orchestrator that pings a runtime, a runtime that answers pings with a pong.\<close>

definition demo_service :: "boot_cycle list \<Rightarrow> (demo_world, unit \<times> unit runtime_scopes) orchestrator" where
  "demo_service cs = \<lparr>oc_id = ''services'', oc_depends_on = [], oc_cycle = cs, oc_phase = StartPhase,
     oc_build_scope = (\<lambda>b. (Inr (), b)), oc_preload = (\<lambda>c w. (Inr (), w)),
     oc_run = (\<lambda>c w. (Inr (), w\<lparr>wd_runtime := snd (rt_dispatch () ''flow'' ''ping'' Map.empty c (wd_runtime w))\<rparr>))\<rparr>"

definition demo_env :: "((unit, unit) metadata_registry, unit, nat runtime_payload, unit, unit, unit, unit) boot_env" where
  "demo_env = \<lparr>bv_handle = (\<lambda>md rid rt act p cc. (Inr None, rt, cc,
       if act = ''ping'' then [(rid, ''pong'', p)] else [])),
     bv_new_bus = (), bv_new_instances = ()\<rparr>"

definition demo_start :: demo_world where
  "demo_start = \<lparr>wd_metadata = \<lparr>mr_metadata = [(''static'', me_new ''static''), (''units'', me_new ''units'')],
       mr_indexes = [(4, Map.empty)], mr_stoppers = [4 \<mapsto> (''services'', ''stop_scope'')]\<rparr>,
     wd_instances = (),
     wd_runtime = start_runtime (\<lambda>_. ''flow'') [()] (), wd_resources = (), wd_own = (), wd_reload_static = False\<rparr>"

definition demo_boot :: "boot_cycle list \<Rightarrow> (demo_world, unit \<times> unit runtime_scopes) boot_engine" where
  "demo_boot cs = be_default\<lparr>be_orchestrators := [demo_service cs]\<rparr>"

lemma demo_env_passes_down: "passes_down (\<lambda>target act p. if act = ''ping'' then 1 else 0) (bv_handle demo_env md)"
  by (simp add: passes_down_def demo_env_def)

lemma demo_own_context: "own_context (demo_service cs)"
  by (simp add: own_context_def queue_grows_def demo_service_def queued_def rt_dispatch_def rt_send_def)

lemma demo_run_ok: "map_option fst (boot_run demo_env (demo_boot [RuntimeCycle], demo_start)) = Some (Inr ())"
  by code_simp

lemma demo_run:
  obtains be' w' where "boot_run demo_env (demo_boot [RuntimeCycle], demo_start) = Some (Inr (), be', w')"
  using demo_run_ok by (metis (no_types, lifting) map_option_eq_Some prod.collapse)

theorem boot_returns_witness:
  "pump_once demo_env (demo_boot [Pump]\<lparr>be_persistent := [1]\<rparr>, demo_start) \<noteq> None"
  by (rule boot_returns [where env = demo_env, OF demo_env_passes_down, THEN conjunct2, THEN conjunct1])

theorem boot_run_contexts_witness:
  "map_option (\<lambda>(r, be', w'). (be_persistent be', primary_context_id be'))
     (boot_run demo_env (demo_boot [RuntimeCycle], demo_start)) = Some ([3], Some 3)"
proof (rule demo_run)
  fix be' w' assume b: "boot_run demo_env (demo_boot [RuntimeCycle], demo_start) = Some (Inr (), be', w')"
  have "be_next_context_id (demo_boot [RuntimeCycle]) + 6 \<le> usize_max" by code_simp
  from boot_run_contexts [OF b this] b show ?thesis by (simp add: demo_boot_def be_default_def)
qed

theorem boot_run_handles_all_witness:
  "map_option (\<lambda>(r, be', w'). re_queue (wd_runtime w'))
     (boot_run demo_env (demo_boot [RuntimeCycle], demo_start)) = Some []"
proof (rule demo_run)
  fix be' w' assume b: "boot_run demo_env (demo_boot [RuntimeCycle], demo_start) = Some (Inr (), be', w')"
  have n: "be_next_context_id (demo_boot [RuntimeCycle]) + 6 \<le> usize_max" by code_simp
  have o: "\<forall>item \<in> set (be_orchestrators (demo_boot [RuntimeCycle])). own_context item"
    by (simp add: demo_boot_def demo_own_context)
  have "re_queue (wd_runtime demo_start) = []" by (simp add: demo_start_def start_runtime_def)
  with boot_run_handles_all [OF b n o] b show ?thesis by simp
qed

theorem boot_conflict_stops_witness:
  "\<exists>be'. boot_run demo_env (demo_boot [RuntimeCycle, PostRuntime], demo_start) =
     Some (Inl (conflict_error ''services''), be', demo_start)"
proof -
  have "\<exists>item \<in> set (be_orchestrators (demo_boot [RuntimeCycle, PostRuntime])). conflicting_cycles (oc_cycle item)"
    by (simp add: demo_boot_def demo_service_def conflicting_cycles_def)
  from boot_conflict_stops [OF this, of demo_env demo_start] show ?thesis
    by (auto simp: demo_boot_def demo_service_def)
qed

theorem reload_removals_effect_witness:
  "map fst (mr_metadata (wd_metadata (reload_removals () (\<lambda>u. (0, length u)) 3 demo_start))) = [''static''] \<and>
   map dc_action (re_queue (wd_runtime (reload_removals () (\<lambda>u. (0, length u)) 3 demo_start))) = [''stop_scope'']"
proof -
  have "\<not> re_stopped (wd_runtime demo_start)" "keys_distinct (mr_metadata (wd_metadata demo_start))"
    by (simp_all add: demo_start_def start_runtime_def)
  from reload_removals_effect [OF this, of "()" "\<lambda>u. (0, length u)" 3] show ?thesis
    by (simp add: Let_def demo_start_def start_runtime_def stopper_cmds_def map_filter_simps)
qed

end
