(* ===== verification/LogRecord.thy ===== *)
theory LogRecord
  imports Prelude
begin

text \<open>
  The system log: records as \<^verbatim>\<open>crates/core/src/logging.rs\<close> encodes and writes them
  in rotating segments, and as \<^verbatim>\<open>crates/cli/src/applets/syslogs.rs\<close> decodes, follows and
  filters them. The checksum (\<open>crc32fast\<close>) and the entry codec (\<open>bincode\<close>) are arguments
  of the definitions.
\<close>

section \<open>Entries and queries\<close>

datatype log_level = Trace | Debug | Info | Warn | Error | Fatal

record log_entry =
  le_timestamp :: u64
  le_level :: log_level
  le_target :: string
  le_message :: string
  le_fields :: "string \<rightharpoonup> string"

fun level_rank :: "log_level \<Rightarrow> nat" where
  "level_rank Trace = 0"
| "level_rank Debug = 1"
| "level_rank Info = 2"
| "level_rank Warn = 3"
| "level_rank Error = 4"
| "level_rank Fatal = 5"

record log_query =
  q_exact :: bool
  q_level :: "log_level option"
  q_target :: "string option"
  q_message :: "string option"
  q_since :: "u64 option"
  q_fields :: "(string \<times> string) list"

text \<open>\<open>str::contains\<close>.\<close>

fun str_contains :: "string \<Rightarrow> string \<Rightarrow> bool" where
  "str_contains [] p = (p = [])"
| "str_contains (c # cs) p = (starts_with p (c # cs) \<or> str_contains cs p)"

definition query_matches :: "log_query \<Rightarrow> log_entry \<Rightarrow> bool" where
  "query_matches q entry =
     (if (case q_level q of
            Some min_level \<Rightarrow>
              (if q_exact q then le_level entry = min_level
               else level_rank (le_level entry) < level_rank min_level)
          | None \<Rightarrow> False) then False
      else if (case q_target q of Some t \<Rightarrow> \<not> str_contains (le_target entry) t | None \<Rightarrow> False) then False
      else if (case q_message q of Some m \<Rightarrow> \<not> str_contains (le_message entry) m | None \<Rightarrow> False) then False
      else if (case q_since q of Some since \<Rightarrow> le_timestamp entry < since | None \<Rightarrow> False) then False
      else list_all (\<lambda>(k, v). le_fields entry k = Some v) (q_fields q))"

fun parse_fields :: "string list \<Rightarrow> string + (string \<times> string) list" where
  "parse_fields [] = Inr []"
| "parse_fields (field # rest) =
     (case split_once (CHR ''='') field of
        None \<Rightarrow> Inl (''invalid --field value '' @ [CHR 0x27] @ field @ [CHR 0x27] @ '', expected KEY=VALUE'')
      | Some (k, v) \<Rightarrow>
          if trim k = [] then
            Inl (''invalid --field value '' @ [CHR 0x27] @ field @ [CHR 0x27] @ '', key cannot be empty'')
          else (case parse_fields rest of Inl e \<Rightarrow> Inl e | Inr fs \<Rightarrow> Inr ((trim k, v) # fs)))"

definition build_log_query ::
  "log_level option \<Rightarrow> string option \<Rightarrow> string option \<Rightarrow> u64 option \<Rightarrow> string list \<Rightarrow> bool \<Rightarrow>
   string + log_query" where
  "build_log_query level target message since raw_fields exact =
     (case parse_fields raw_fields of
        Inl e \<Rightarrow> Inl e
      | Inr fs \<Rightarrow> Inr \<lparr>q_exact = exact, q_level = level, q_target = target, q_message = message,
                       q_since = since, q_fields = fs\<rparr>)"

definition resolve_since :: "(string + u64) \<Rightarrow> u64 option \<Rightarrow> bool \<Rightarrow> string + u64 option" where
  "resolve_since boot_start since current =
     (if \<not> current then Inr since
      else (case boot_start of
              Inl e \<Rightarrow> Inl e
            | Inr b \<Rightarrow> Inr (Some (case since of Some s \<Rightarrow> max s b | None \<Rightarrow> b))))"

section \<open>Encoding\<close>

definition rlog_magic :: u32 where "rlog_magic = 0x524C4F47"

definition encode_record :: "(u8 list \<Rightarrow> u32) \<Rightarrow> ('e \<Rightarrow> string + u8 list) \<Rightarrow> 'e \<Rightarrow> string + u8 list" where
  "encode_record crc enc entry =
     (case enc entry of
        Inl e \<Rightarrow> Inl e
      | Inr payload \<Rightarrow>
          let payload_len = (of_nat (length payload) :: u32);
              total_len = 4 + payload_len + 4
          in Inr (u32_to_be rlog_magic @ u32_to_be total_len @ u32_to_be payload_len @ payload @
                  u32_to_be (crc payload)))"

section \<open>Decoding\<close>

definition sub_bytes :: "nat \<Rightarrow> nat \<Rightarrow> u8 list \<Rightarrow> u8 list" where
  "sub_bytes a b xs = take (b - a) (drop a xs)"

text \<open>One round of the loop of \<open>decode_records\<close>: stop, advance one byte, or a whole frame.\<close>

datatype frame_scan = ScanStop | ScanSkip | ScanFrame "u8 list" nat

definition scan_frame :: "(u8 list \<Rightarrow> u32) \<Rightarrow> u8 list \<Rightarrow> nat \<Rightarrow> frame_scan" where
  "scan_frame crc data cursor =
     (if \<not> cursor + 8 \<le> length data then ScanStop
      else if u32_from_be (sub_bytes cursor (cursor + 4) data) \<noteq> rlog_magic then ScanSkip
      else
        let total_len = unat (u32_from_be (sub_bytes (cursor + 4) (cursor + 8) data));
            frame_end = cursor + 8 + total_len
        in if frame_end > length data then ScanStop
           else if total_len < 8 then ScanSkip
           else
             let payload_len = unat (u32_from_be (sub_bytes (cursor + 8) (cursor + 12) data))
             in if 4 + payload_len + 4 \<noteq> total_len then ScanSkip
                else
                  let payload_start = cursor + 12;
                      payload_end = payload_start + payload_len;
                      payload = sub_bytes payload_start payload_end data
                  in if crc payload \<noteq> u32_from_be (sub_bytes payload_end (payload_end + 4) data)
                     then ScanSkip else ScanFrame payload frame_end)"

lemma scan_frame_advances: "scan_frame crc data cursor = ScanFrame p e \<Longrightarrow> cursor < e \<and> e \<le> length data"
  by (auto simp: scan_frame_def Let_def split: if_splits)

lemma scan_skip_bound: "scan_frame crc data cursor = ScanSkip \<Longrightarrow> cursor < length data"
  by (auto simp: scan_frame_def Let_def split: if_splits)

function decode_loop ::
  "(u8 list \<Rightarrow> u32) \<Rightarrow> (u8 list \<Rightarrow> 'e option) \<Rightarrow> u8 list \<Rightarrow> nat \<Rightarrow> 'e list \<Rightarrow> 'e list \<times> nat" where
  "decode_loop crc dec data cursor entries =
     (case scan_frame crc data cursor of
        ScanStop \<Rightarrow> (entries, cursor)
      | ScanSkip \<Rightarrow> decode_loop crc dec data (cursor + 1) entries
      | ScanFrame payload frame_end \<Rightarrow>
          decode_loop crc dec data frame_end
            (case dec payload of Some entry \<Rightarrow> entries @ [entry] | None \<Rightarrow> entries))"
  by pat_completeness auto
termination
  by (relation "measure (\<lambda>(crc, dec, data, cursor, entries). length data - cursor)")
    (auto dest: scan_frame_advances scan_skip_bound)

declare decode_loop.simps [simp del]

definition decode_records :: "(u8 list \<Rightarrow> u32) \<Rightarrow> (u8 list \<Rightarrow> 'e option) \<Rightarrow> u8 list \<Rightarrow> 'e list \<times> nat" where
  "decode_records crc dec data = decode_loop crc dec data 0 []"

section \<open>Reading\<close>

record tail_cursor =
  tc_offset :: nat
  tc_carry :: "u8 list"

definition tc_default :: tail_cursor where "tc_default = \<lparr>tc_offset = 0, tc_carry = []\<rparr>"

text \<open>\<open>file\<close> is the file's content, \<open>None\<close> when it cannot be opened or read.\<close>

definition read_incremental ::
  "(u8 list \<Rightarrow> u32) \<Rightarrow> (u8 list \<Rightarrow> 'e option) \<Rightarrow> u8 list option \<Rightarrow> tail_cursor \<Rightarrow> 'e list \<times> tail_cursor" where
  "read_incremental crc dec file cursor =
     (case file of
        None \<Rightarrow> ([], cursor)
      | Some content \<Rightarrow>
          let cursor = (if length content < tc_offset cursor then tc_default else cursor);
              appended = drop (tc_offset cursor) content
          in if appended = [] then ([], cursor)
             else
               let merged = tc_carry cursor @ appended;
                   (entries, consumed) = decode_records crc dec merged
               in (entries, \<lparr>tc_offset = tc_offset cursor + length appended, tc_carry = drop consumed merged\<rparr>))"

text \<open>\<open>segments\<close>: the files of \<open>list_segments\<close>, in its order.\<close>

definition read_entries_once ::
  "(u8 list \<Rightarrow> u32) \<Rightarrow> (u8 list \<Rightarrow> 'e option) \<Rightarrow> ('e \<Rightarrow> bool) \<Rightarrow> u8 list option list \<Rightarrow> nat \<Rightarrow> 'e list" where
  "read_entries_once crc dec matches segments limit =
     (let found = filter matches (concat (map (\<lambda>f. case f of None \<Rightarrow> [] | Some bytes \<Rightarrow>
                    fst (decode_records crc dec bytes)) segments))
      in if length found > limit then drop (length found - limit) found else found)"

section \<open>Writing\<close>

datatype log_path = Segment nat | Fallback | DevNull

text \<open>
  \<open>lg_buf\<close> is what the \<open>BufWriter\<close> holds back. The 64-bit counters are natural numbers; they
  count bytes written to one segment and segments.
\<close>

record logger =
  lg_segment_id :: nat
  lg_written :: nat
  lg_path :: log_path
  lg_buf :: "u8 list"
  lg_files :: "log_path \<Rightarrow> u8 list"

text \<open>Whether the writes and the flushes of one round succeed.\<close>

record log_io =
  io_write :: bool
  io_flush :: bool

definition open_segment :: "(log_path \<Rightarrow> bool) \<Rightarrow> nat \<Rightarrow> log_path" where
  "open_segment can_open i =
     (if can_open (Segment i) then Segment i else if can_open Fallback then Fallback else DevNull)"

definition logger_start :: "(log_path \<Rightarrow> bool) \<Rightarrow> (log_path \<Rightarrow> u8 list) \<Rightarrow> logger" where
  "logger_start can_open disk =
     \<lparr>lg_segment_id = 1, lg_written = 0, lg_path = open_segment can_open 1, lg_buf = [], lg_files = disk\<rparr>"

definition flush_buf :: "bool \<Rightarrow> logger \<Rightarrow> logger" where
  "flush_buf ok lg =
     (if ok then lg\<lparr>lg_buf := [],
                  lg_files := (if lg_path lg = DevNull then lg_files lg
                               else (lg_files lg)(lg_path lg := lg_files lg (lg_path lg) @ lg_buf lg))\<rparr>
      else lg)"

definition rotate :: "nat \<Rightarrow> (log_path \<Rightarrow> bool) \<Rightarrow> log_io \<Rightarrow> logger \<Rightarrow> logger" where
  "rotate segment_max_bytes can_open io lg =
     (if segment_max_bytes \<le> lg_written lg
      then (flush_buf (io_flush io) lg)\<lparr>lg_segment_id := lg_segment_id lg + 1,
             lg_path := open_segment can_open (lg_segment_id lg + 1), lg_written := 0, lg_buf := []\<rparr>
      else lg)"

text \<open>The loop of \<open>logger_loop\<close> on one received entry.\<close>

definition logger_step ::
  "(u8 list \<Rightarrow> u32) \<Rightarrow> ('e \<Rightarrow> string + u8 list) \<Rightarrow> nat \<Rightarrow> (log_path \<Rightarrow> bool) \<Rightarrow> log_io \<Rightarrow> 'e \<Rightarrow> logger \<Rightarrow> logger" where
  "logger_step crc enc segment_max_bytes can_open io entry lg =
     (case encode_record crc enc entry of
        Inl e \<Rightarrow> rotate segment_max_bytes can_open io lg
      | Inr bytes \<Rightarrow>
          if \<not> io_write io then lg
          else rotate segment_max_bytes can_open io
                 (flush_buf (io_flush io)
                   (lg\<lparr>lg_buf := lg_buf lg @ bytes, lg_written := lg_written lg + length bytes\<rparr>)))"

section \<open>The scanner\<close>

lemma length_encode_record:
  "encode_record crc enc e = Inr bs \<Longrightarrow> enc e = Inr p \<Longrightarrow> length bs = 16 + length p"
  by (auto simp: encode_record_def Let_def)

lemma sub_bytes_append: "b \<le> length xs \<Longrightarrow> sub_bytes a b (xs @ ys) = sub_bytes a b xs"
  by (simp add: sub_bytes_def)

lemma sub_bytes_drop: "sub_bytes a b (drop k xs) = sub_bytes (a + k) (b + k) xs"
  by (simp add: sub_bytes_def add.commute)

text \<open>A round that does not stop reads nothing beyond its frame, so more data does not change it.\<close>

lemma scan_frame_append:
  "scan_frame crc xs c \<noteq> ScanStop \<Longrightarrow> scan_frame crc (xs @ ys) c = scan_frame crc xs c"
  by (auto simp: scan_frame_def Let_def sub_bytes_append split: if_splits)

fun shift_scan :: "nat \<Rightarrow> frame_scan \<Rightarrow> frame_scan" where
  "shift_scan k (ScanFrame p e) = ScanFrame p (e + k)"
| "shift_scan k s = s"

lemma scan_frame_drop:
  "k \<le> length xs \<Longrightarrow> scan_frame crc xs (c + k) = shift_scan k (scan_frame crc (drop k xs) c)"
  by (auto simp: scan_frame_def Let_def sub_bytes_drop ac_simps split: if_splits)

lemma decode_loop_append:
  "decode_loop crc dec (xs @ ys) c es =
   (case decode_loop crc dec xs c es of (es', c') \<Rightarrow> decode_loop crc dec (xs @ ys) c' es')"
proof (induction crc dec xs c es rule: decode_loop.induct)
  case (1 crc dec xs c es)
  show ?case
  proof (cases "scan_frame crc xs c")
    case ScanStop
    then show ?thesis by (simp add: decode_loop.simps [of crc dec xs])
  next
    case ScanSkip
    with scan_frame_append [of crc xs c ys] have "scan_frame crc (xs @ ys) c = ScanSkip" by simp
    with ScanSkip 1(1) show ?thesis
      by (subst (1) decode_loop.simps, subst (2) decode_loop.simps) simp
  next
    case (ScanFrame p e)
    with scan_frame_append [of crc xs c ys] have "scan_frame crc (xs @ ys) c = ScanFrame p e" by simp
    with ScanFrame 1(2) show ?thesis
      by (subst (1) decode_loop.simps, subst (2) decode_loop.simps) simp
  qed
qed

lemma decode_loop_shift:
  "k \<le> length xs \<Longrightarrow> decode_loop crc dec xs (c + k) (pre @ es) =
   (case decode_loop crc dec (drop k xs) c es of (es', c') \<Rightarrow> (pre @ es', c' + k))"
proof (induction crc dec "drop k xs" c es rule: decode_loop.induct)
  case (1 crc dec c es)
  note sc = scan_frame_drop [OF 1(3), of crc c]
  show ?case
  proof (cases "scan_frame crc (drop k xs) c")
    case ScanStop
    with sc show ?thesis by (simp add: decode_loop.simps)
  next
    case ScanSkip
    with sc 1(1) [OF ScanSkip 1(3)] show ?thesis
      by (subst (1) decode_loop.simps, subst (2) decode_loop.simps) simp
  next
    case (ScanFrame p e)
    with sc 1(2) [OF ScanFrame 1(3)] show ?thesis
      by (subst (1) decode_loop.simps, subst (2) decode_loop.simps) (auto split: option.splits)
  qed
qed

lemma decode_loop_bound: "c \<le> length xs \<Longrightarrow> snd (decode_loop crc dec xs c es) \<le> length xs"
proof (induction crc dec xs c es rule: decode_loop.induct)
  case (1 crc dec xs c es)
  show ?case
  proof (cases "scan_frame crc xs c")
    case ScanSkip
    from scan_skip_bound [OF ScanSkip] have "c + 1 \<le> length xs" by simp
    with 1(1) [OF ScanSkip] ScanSkip show ?thesis by (subst decode_loop.simps) simp
  next
    case (ScanFrame p e)
    with 1(2) [OF ScanFrame] scan_frame_advances [OF ScanFrame] show ?thesis
      by (subst decode_loop.simps) simp
  qed (use 1(3) in \<open>simp add: decode_loop.simps\<close>)
qed

text \<open>Decoding is resumable: decode a prefix, then what it left over followed by the rest.\<close>

lemma decode_records_append:
  "decode_records crc dec (xs @ ys) =
   (let (es, c) = decode_records crc dec xs;
        (es', c') = decode_records crc dec (drop c xs @ ys) in (es @ es', c + c'))"
proof -
  obtain es c where d: "decode_loop crc dec xs 0 [] = (es, c)" by fastforce
  with decode_loop_bound [of 0 xs crc dec "[]"] have c: "c \<le> length xs" by simp
  from decode_loop_append [of crc dec xs ys 0 "[]"] d
  have "decode_loop crc dec (xs @ ys) 0 [] = decode_loop crc dec (xs @ ys) (0 + c) (es @ [])" by simp
  also have "\<dots> = (case decode_loop crc dec (drop c (xs @ ys)) 0 [] of (es', c') \<Rightarrow> (es @ es', c' + c))"
    using c by (intro decode_loop_shift) simp
  finally show ?thesis using c by (simp add: decode_records_def d add.commute split: prod.splits)
qed

section \<open>Following a growing file\<close>

text \<open>The poll of a file after each of the given chunks was appended to it.\<close>

fun poll_chunks ::
  "(u8 list \<Rightarrow> u32) \<Rightarrow> (u8 list \<Rightarrow> 'e option) \<Rightarrow> u8 list \<Rightarrow> u8 list list \<Rightarrow> tail_cursor \<Rightarrow> 'e list list \<times> tail_cursor" where
  "poll_chunks crc dec content [] cursor = ([], cursor)"
| "poll_chunks crc dec content (chunk # chunks) cursor =
     (let (es, cursor1) = read_incremental crc dec (Some (content @ chunk)) cursor;
          (ess, cursor2) = poll_chunks crc dec (content @ chunk) chunks cursor1
      in (es # ess, cursor2))"

definition cursor_at :: "(u8 list \<Rightarrow> u32) \<Rightarrow> (u8 list \<Rightarrow> 'e option) \<Rightarrow> u8 list \<Rightarrow> tail_cursor" where
  "cursor_at crc dec content =
     \<lparr>tc_offset = length content, tc_carry = drop (snd (decode_records crc dec content)) content\<rparr>"

lemma read_incremental_chunk:
  "\<exists>es. read_incremental crc dec (Some (content @ chunk)) (cursor_at crc dec content) =
     (es, cursor_at crc dec (content @ chunk)) \<and>
   fst (decode_records crc dec (content @ chunk)) = fst (decode_records crc dec content) @ es"
proof (cases "chunk = []")
  case True
  then show ?thesis by (simp add: read_incremental_def cursor_at_def)
next
  case False
  obtain es c where d: "decode_records crc dec content = (es, c)" by fastforce
  obtain es' c' where d': "decode_records crc dec (drop c content @ chunk) = (es', c')" by fastforce
  have "c \<le> length content"
    using decode_loop_bound [of 0 content crc dec "[]"] d by (simp add: decode_records_def)
  with False d d' decode_records_append [of crc dec content chunk] show ?thesis
    by (auto simp: read_incremental_def cursor_at_def Let_def drop_append add.commute)
qed

lemma poll_chunks_eq:
  "poll_chunks crc dec content chunks (cursor_at crc dec content) = (ess, cursor') \<Longrightarrow>
   fst (decode_records crc dec (content @ concat chunks)) =
     fst (decode_records crc dec content) @ concat ess"
proof (induction chunks arbitrary: content ess)
  case (Cons chunk chunks)
  from read_incremental_chunk [of crc dec content chunk] obtain es where
    r: "read_incremental crc dec (Some (content @ chunk)) (cursor_at crc dec content) =
        (es, cursor_at crc dec (content @ chunk))"
      "fst (decode_records crc dec (content @ chunk)) = fst (decode_records crc dec content) @ es" by blast
  from Cons.prems r(1) obtain ess' where
    "poll_chunks crc dec (content @ chunk) chunks (cursor_at crc dec (content @ chunk)) = (ess', cursor')"
    "ess = es # ess'" by (auto simp: Let_def split: prod.splits)
  with Cons.IH [of "content @ chunk" ess'] r(2) show ?case by simp
qed simp

text \<open>
  C22. Following a log loses and repeats nothing. However the bytes of a file arrive, in whatever
  chunks and whether or not they are well-formed records, the polls of a tail that started at an
  empty file emit, taken together and in order, exactly the entries that decoding the whole file
  once would give.
\<close>

theorem tail_exactly_once:
  "concat (fst (poll_chunks crc dec [] chunks tc_default)) = fst (decode_records crc dec (concat chunks))"
proof -
  have "decode_records crc dec [] = ([], 0)"
    by (simp add: decode_records_def decode_loop.simps scan_frame_def)
  then have "tc_default = cursor_at crc dec []" by (simp add: tc_default_def cursor_at_def)
  with poll_chunks_eq [of crc dec "[]" chunks] \<open>decode_records crc dec [] = ([], 0)\<close> show ?thesis
    by (metis append_Nil fst_conv prod.collapse)
qed

section \<open>Round trip\<close>

text \<open>A codec that reads back what it wrote, with payloads short enough for the length fields.\<close>

definition good_codec :: "('e \<Rightarrow> string + u8 list) \<Rightarrow> (u8 list \<Rightarrow> 'e option) \<Rightarrow> 'e \<Rightarrow> bool" where
  "good_codec enc dec e \<longleftrightarrow>
     (\<exists>p. enc e = Inr p \<and> dec p = Some e \<and> length p + 8 < 2 ^ 32)"

lemma sub_bytes_at: "sub_bytes (length pre) (length pre + length xs) (pre @ xs @ ys) = xs"
  by (simp add: sub_bytes_def)

lemma sub_bytes_here: "length pre = a \<Longrightarrow> length pre + length xs = b \<Longrightarrow> sub_bytes a b (pre @ xs @ ys) = xs"
  using sub_bytes_at by auto

lemma encode_record_frame:
  assumes "encode_record crc enc e = Inr bs" and "good_codec enc dec e"
  obtains p where "dec p = Some e" "length bs = 16 + length p"
    "u32_from_be (sub_bytes 0 4 bs) = rlog_magic"
    "unat (u32_from_be (sub_bytes 4 8 bs)) = 8 + length p"
    "unat (u32_from_be (sub_bytes 8 12 bs)) = length p"
    "sub_bytes 12 (12 + length p) bs = p"
    "u32_from_be (sub_bytes (12 + length p) (16 + length p) bs) = crc p"
proof -
  from assms(2) obtain p where p: "enc e = Inr p" "dec p = Some e" "length p + 8 < 2 ^ 32"
    by (auto simp: good_codec_def)
  let ?m = "u32_to_be rlog_magic" and ?t = "u32_to_be (4 + of_nat (length p) + 4)"
    and ?l = "u32_to_be (of_nat (length p))" and ?c = "u32_to_be (crc p)"
  from assms(1) p(1) have bs: "bs = ?m @ ?t @ ?l @ p @ ?c"
    by (simp add: encode_record_def Let_def)
  have len: "unat (of_nat (length p) :: u32) = length p"
    using p(3) by (simp add: unat_of_nat)
  have "(4 + of_nat (length p) + 4 :: u32) = of_nat (8 + length p)" by simp
  then have tot: "unat (4 + of_nat (length p) + 4 :: u32) = 8 + length p"
    using p(3) by (simp only: unat_of_nat) simp
  show ?thesis
  proof (rule that [OF p(2)])
    show "length bs = 16 + length p" by (simp add: bs)
    show "u32_from_be (sub_bytes 0 4 bs) = rlog_magic"
      using sub_bytes_here [of "[]" 0 ?m 4 "?t @ ?l @ p @ ?c"] by (simp add: bs)
    show "unat (u32_from_be (sub_bytes 4 8 bs)) = 8 + length p"
      using sub_bytes_here [of ?m 4 ?t 8 "?l @ p @ ?c"] tot by (simp add: bs)
    show "unat (u32_from_be (sub_bytes 8 12 bs)) = length p"
      using sub_bytes_here [of "?m @ ?t" 8 ?l 12 "p @ ?c"] len by (simp add: bs)
    show "sub_bytes 12 (12 + length p) bs = p"
      using sub_bytes_here [of "?m @ ?t @ ?l" 12 p "12 + length p" ?c] by (simp add: bs)
    show "u32_from_be (sub_bytes (12 + length p) (16 + length p) bs) = crc p"
      using sub_bytes_here [of "?m @ ?t @ ?l @ p" "12 + length p" ?c "16 + length p" "[]"] by (simp add: bs)
  qed
qed

lemma scan_encoded:
  assumes "encode_record crc enc e = Inr bs" and "good_codec enc dec e"
  shows "\<exists>p. dec p = Some e \<and> scan_frame crc (bs @ ys) 0 = ScanFrame p (length bs)"
proof (rule encode_record_frame [OF assms])
  fix p
  assume p: "dec p = Some e" "length bs = 16 + length p"
    "u32_from_be (sub_bytes 0 4 bs) = rlog_magic"
    "unat (u32_from_be (sub_bytes 4 8 bs)) = 8 + length p"
    "unat (u32_from_be (sub_bytes 8 12 bs)) = length p"
    "sub_bytes 12 (12 + length p) bs = p"
    "u32_from_be (sub_bytes (12 + length p) (16 + length p) bs) = crc p"
  have "scan_frame crc bs 0 = ScanFrame p (length bs)"
    using p by (simp add: scan_frame_def Let_def)
  with scan_frame_append [of crc bs 0 ys] p(1) show ?thesis by auto
qed

text \<open>A record cut short stops the scanner where it begins.\<close>

lemma scan_partial:
  assumes "encode_record crc enc e = Inr (part @ missing)" and "good_codec enc dec e" and "missing \<noteq> []"
  shows "scan_frame crc part 0 = ScanStop"
proof (cases "8 \<le> length part")
  case True
  show ?thesis
  proof (rule encode_record_frame [OF assms(1,2)])
    fix p
    assume "length (part @ missing) = 16 + length p"
      "u32_from_be (sub_bytes 0 4 (part @ missing)) = rlog_magic"
      "unat (u32_from_be (sub_bytes 4 8 (part @ missing))) = 8 + length p"
    with True assms(3) show ?thesis
      by (cases missing) (simp_all add: scan_frame_def Let_def sub_bytes_append)
  qed
qed (simp add: scan_frame_def)

lemma decode_records_frame:
  assumes "scan_frame crc (bs @ ys) 0 = ScanFrame p (length bs)" and "dec p = Some e"
  shows "decode_records crc dec (bs @ ys) =
    (case decode_records crc dec ys of (es, c) \<Rightarrow> (e # es, length bs + c))"
proof -
  have "decode_records crc dec (bs @ ys) = decode_loop crc dec (bs @ ys) (0 + length bs) ([e] @ [])"
    unfolding decode_records_def by (subst decode_loop.simps) (simp add: assms)
  also have "\<dots> = (case decode_loop crc dec ys 0 [] of (es, c) \<Rightarrow> ([e] @ es, c + length bs))"
    by (subst decode_loop_shift) simp_all
  finally show ?thesis by (simp add: decode_records_def add.commute)
qed

lemma decode_encoded:
  "map (encode_record crc enc) es = map Inr bss \<Longrightarrow> \<forall>e \<in> set es. good_codec enc dec e \<Longrightarrow>
   decode_records crc dec (concat bss @ ys) =
   (case decode_records crc dec ys of (es', c) \<Rightarrow> (es @ es', length (concat bss) + c))"
proof (induction es arbitrary: bss)
  case (Cons e es)
  then obtain bs bss' where b: "bss = bs # bss'" "encode_record crc enc e = Inr bs"
    "map (encode_record crc enc) es = map Inr bss'" by (cases bss) auto
  from scan_encoded [OF b(2), of dec "concat bss' @ ys"] Cons.prems(2) obtain p where
    p: "scan_frame crc (bs @ concat bss' @ ys) 0 = ScanFrame p (length bs)" "dec p = Some e" by auto
  from decode_records_frame [where bs = bs and ys = "concat bss' @ ys" and p = p and dec = dec and e = e, OF p] Cons.IH [OF b(3)] Cons.prems(2) show ?case
    by (auto simp: b(1) split: prod.splits)
qed (simp split: prod.splits)

text \<open>
  The log can be read back, also while it is being written. Decoding a sequence of encoded
  records followed by the beginning of one more gives back the entries of the complete ones in
  order, and reports as consumed exactly the bytes of the complete ones.
\<close>

theorem log_stream_roundtrip:
  assumes "map (encode_record crc enc) es = map Inr bss" and "\<forall>e \<in> set (es @ [e']). good_codec enc dec e"
    and "encode_record crc enc e' = Inr (part @ missing)" and "missing \<noteq> []"
  shows "decode_records crc dec (concat bss @ part) = (es, length (concat bss))"
proof -
  have "decode_records crc dec part = ([], 0)"
    using scan_partial [where dec = dec, OF assms(3) _ assms(4)] assms(2)
    by (simp add: decode_records_def decode_loop.simps)
  with decode_encoded [OF assms(1)] assms(2) show ?thesis by simp
qed

text \<open>
  One damaged length field hides the rest of the file. A frame that begins with the magic number
  and whose length field reaches beyond the end of the file stops the decoder there: nothing that
  comes after it is decoded, however many intact records that is.
\<close>

theorem corrupt_length_hides_rest:
  assumes "length total_len = 4" and "length rest < unat (u32_from_be total_len)"
  shows "decode_records crc dec (u32_to_be rlog_magic @ total_len @ rest) = ([], 0)"
proof -
  let ?data = "u32_to_be rlog_magic @ total_len @ rest"
  have "sub_bytes 0 4 ?data = u32_to_be rlog_magic" "sub_bytes 4 8 ?data = total_len"
    using sub_bytes_here [of "[]" 0 "u32_to_be rlog_magic" 4 "total_len @ rest"]
      sub_bytes_here [of "u32_to_be rlog_magic" 4 total_len 8 rest] assms(1) by simp_all
  with assms show ?thesis
    by (simp add: decode_records_def decode_loop.simps scan_frame_def Let_def)
qed

section \<open>Segments\<close>

definition io_ok :: log_io where "io_ok = \<lparr>io_write = True, io_flush = True\<rparr>"

definition record_bytes :: "(u8 list \<Rightarrow> u32) \<Rightarrow> ('e \<Rightarrow> string + u8 list) \<Rightarrow> 'e \<Rightarrow> u8 list" where
  "record_bytes crc enc e = (case encode_record crc enc e of Inl _ \<Rightarrow> [] | Inr bs \<Rightarrow> bs)"

definition segment_files :: "logger \<Rightarrow> u8 list option list" where
  "segment_files lg = map (\<lambda>i. Some (lg_files lg (Segment i))) [1..<Suc (lg_segment_id lg)]"

text \<open>The files hold the entries logged, cut into one group per segment.\<close>

definition logged :: "(u8 list \<Rightarrow> u32) \<Rightarrow> ('e \<Rightarrow> string + u8 list) \<Rightarrow> nat \<Rightarrow> 'e list \<Rightarrow> 'e list list \<Rightarrow> logger \<Rightarrow> bool" where
  "logged crc enc max_bytes es gs lg \<longleftrightarrow>
     concat gs = es \<and> lg_segment_id lg = length gs \<and> gs \<noteq> [] \<and>
     segment_files lg = map (\<lambda>g. Some (concat (map (record_bytes crc enc) g))) gs \<and>
     (\<forall>i > lg_segment_id lg. lg_files lg (Segment i) = []) \<and>
     lg_path lg = Segment (lg_segment_id lg) \<and> lg_buf lg = [] \<and>
     lg_written lg = length (concat (map (record_bytes crc enc) (last gs))) \<and>
     lg_written lg < max_bytes \<and>
     (\<forall>g \<in> set (butlast gs). g \<noteq> [] \<and> max_bytes \<le> length (concat (map (record_bytes crc enc) g)) \<and>
        length (concat (map (record_bytes crc enc) (butlast g))) < max_bytes)"

lemma logged_start:
  "0 < max_bytes \<Longrightarrow> logged crc enc max_bytes [] [[]] (logger_start (\<lambda>_. True) (\<lambda>_. []))"
  by (simp add: logged_def logger_start_def open_segment_def segment_files_def)

lemma segment_files_last:
  assumes "segment_files lg = map (\<lambda>g. Some (f g)) gs" and "gs \<noteq> []" and "lg_segment_id lg = length gs"
  shows "lg_files lg (Segment (length gs)) = f (last gs)"
    and "map (\<lambda>i. Some (lg_files lg (Segment i))) [1..<length gs] = map (\<lambda>g. Some (f g)) (butlast gs)"
proof -
  obtain gs' g where g: "gs = gs' @ [g]" using assms(2) by (cases gs rule: rev_cases) auto
  have "[1..<Suc (length gs)] = [1..<length gs] @ [length gs]" using g by simp
  with assms(1,3) g show "lg_files lg (Segment (length gs)) = f (last gs)"
    "map (\<lambda>i. Some (lg_files lg (Segment i))) [1..<length gs] = map (\<lambda>g. Some (f g)) (butlast gs)"
    by (simp_all add: segment_files_def)
qed

lemma logged_step:
  assumes "logged crc enc m es gs lg" and "encode_record crc enc e = Inr bs" and "0 < m"
  shows "\<exists>gs'. logged crc enc m (es @ [e]) gs' (logger_step crc enc m (\<lambda>_. True) io_ok e lg)"
proof -
  note l = assms(1) [unfolded logged_def]
  have rb: "record_bytes crc enc e = bs" using assms(2) by (simp add: record_bytes_def)
  let ?n = "length gs" and ?f = "\<lambda>g. concat (map (record_bytes crc enc) g)"
  obtain gi g where g: "gs = gi @ [g]" using l by (cases gs rule: rev_cases) auto
  have files: "lg_files lg (Segment ?n) = ?f g"
    "map (\<lambda>i. Some (lg_files lg (Segment i))) [1..<?n] = map (\<lambda>g. Some (?f g)) gi"
    using segment_files_last [of lg ?f gs] l g by simp_all
  let ?lg = "lg\<lparr>lg_written := lg_written lg + length bs,
      lg_files := (lg_files lg)(Segment ?n := ?f g @ bs)\<rparr>"
  have files': "map (\<lambda>i. Some (if i = ?n then ?f g @ bs else lg_files lg (Segment i))) [1..<?n] =
      map (\<lambda>g. Some (?f g)) gi"
    by (subst files(2) [symmetric], rule map_cong) auto
  have step: "logger_step crc enc m (\<lambda>_. True) io_ok e lg =
      (if m \<le> lg_written lg + length bs
       then ?lg\<lparr>lg_segment_id := ?n + 1, lg_path := Segment (?n + 1), lg_written := 0\<rparr> else ?lg)"
    using l assms(2) files(1)
    by (simp add: logger_step_def io_ok_def flush_buf_def rotate_def open_segment_def)
  show ?thesis
  proof (cases "m \<le> lg_written lg + length bs")
    case True
    have "logged crc enc m (es @ [e]) (gi @ [g @ [e], []]) (logger_step crc enc m (\<lambda>_. True) io_ok e lg)"
      using l True files' assms(3)
      by (auto simp: step logged_def segment_files_def g rb butlast_append)
    then show ?thesis ..
  next
    case False
    have "logged crc enc m (es @ [e]) (gi @ [g @ [e]]) (logger_step crc enc m (\<lambda>_. True) io_ok e lg)"
      using l False files' by (auto simp: step logged_def segment_files_def g rb)
    then show ?thesis ..
  qed
qed

lemma logged_run:
  assumes "0 < m" and "\<forall>e \<in> set es. \<exists>bs. encode_record crc enc e = Inr bs"
  shows "\<exists>gs. logged crc enc m es gs
    (fold (logger_step crc enc m (\<lambda>_. True) io_ok) es (logger_start (\<lambda>_. True) (\<lambda>_. [])))"
  using assms(2)
proof (induction es rule: rev_induct)
  case Nil
  then show ?case using logged_start [OF assms(1)] by auto
next
  case (snoc e es)
  then obtain gs bs where "logged crc enc m es gs
      (fold (logger_step crc enc m (\<lambda>_. True) io_ok) es (logger_start (\<lambda>_. True) (\<lambda>_. [])))"
    "encode_record crc enc e = Inr bs" by auto
  from logged_step [OF this assms(1)] show ?case by simp
qed

lemma decode_group:
  assumes "\<forall>e \<in> set es. good_codec enc dec e"
  shows "fst (decode_records crc dec (concat (map (record_bytes crc enc) es) @ ys)) =
    es @ fst (decode_records crc dec ys)"
proof -
  have "\<forall>e \<in> set es. encode_record crc enc e = Inr (record_bytes crc enc e)"
    using assms by (auto simp: good_codec_def encode_record_def record_bytes_def Let_def)
  then have "map (encode_record crc enc) es = map Inr (map (record_bytes crc enc) es)" by simp
  from decode_encoded [OF this assms] show ?thesis by (simp split: prod.splits)
qed

lemma decode_empty [simp]: "decode_records crc dec [] = ([], 0)"
  by (simp add: decode_records_def decode_loop.simps scan_frame_def)

text \<open>
  C38. What is logged can be queried. When files can be opened and written, a fresh logger with any
  positive segment size followed by a query over its segments gives exactly the matching entries
  that were logged, in order, or the last \<open>limit\<close> of them; a closed segment has reached the
  segment size and would not have without its last record.
\<close>

theorem logged_is_read_back:
  assumes "0 < max_bytes" and "\<forall>e \<in> set es. good_codec enc dec e"
  shows "let lg = fold (logger_step crc enc max_bytes (\<lambda>_. True) io_ok) es (logger_start (\<lambda>_. True) (\<lambda>_. []))
    in read_entries_once crc dec matches (segment_files lg) limit =
         drop (length (filter matches es) - limit) (filter matches es) \<and>
       lg_written lg < max_bytes \<and>
       (\<forall>i \<in> {1..<lg_segment_id lg}. max_bytes \<le> length (lg_files lg (Segment i)))"
proof -
  let ?lg = "fold (logger_step crc enc max_bytes (\<lambda>_. True) io_ok) es (logger_start (\<lambda>_. True) (\<lambda>_. []))"
  have "\<forall>e \<in> set es. \<exists>bs. encode_record crc enc e = Inr bs"
    using assms(2) by (auto simp: good_codec_def encode_record_def Let_def)
  from logged_run [OF assms(1) this] obtain gs where l: "logged crc enc max_bytes es gs ?lg" by blast
  note l' = l [unfolded logged_def]
  have "\<forall>g \<in> set gs. fst (decode_records crc dec (concat (map (record_bytes crc enc) g))) = g"
    using decode_group [of _ enc dec crc "[]"] l' assms(2) by auto
  then have "concat (map (\<lambda>f. case f of None \<Rightarrow> [] | Some bytes \<Rightarrow> fst (decode_records crc dec bytes))
      (segment_files ?lg)) = concat gs"
    using l' by (simp add: comp_def cong: map_cong)
  moreover have "max_bytes \<le> length (lg_files ?lg (Segment i))" if "1 \<le> i" "i < lg_segment_id ?lg" for i
  proof -
    have f: "map (\<lambda>i. Some (lg_files ?lg (Segment i))) [1..<length gs] =
        map (\<lambda>g. Some (concat (map (record_bytes crc enc) g))) (butlast gs)"
      using segment_files_last(2) [of ?lg "\<lambda>g. concat (map (record_bytes crc enc) g)" gs] l' by blast
    from that l' have i: "i - 1 < length (butlast gs)" "[1..<length gs] ! (i - 1) = i" by auto
    from arg_cong [OF f, of "\<lambda>xs. xs ! (i - 1)"] i that l'
    have "lg_files ?lg (Segment i) = concat (map (record_bytes crc enc) (butlast gs ! (i - 1)))" by simp
    moreover have "butlast gs ! (i - 1) \<in> set (butlast gs)" using i(1) by (rule nth_mem)
    ultimately show ?thesis using l' by simp
  qed
  ultimately show ?thesis using l' by (auto simp: read_entries_once_def Let_def)
qed

text \<open>
  A restarted logger writes into the past. A logger that starts on files of an earlier run begins
  again at segment 1, so its first entry is appended there and is read before every entry of the
  later segments; among the last entries of a query the new one need not be.
\<close>

theorem restart_writes_first_segment:
  assumes "\<forall>g \<in> set gs. \<forall>e \<in> set g. good_codec enc dec e" and "good_codec enc dec e" and "gs \<noteq> []"
    and "\<forall>i < length gs. disk (Segment (i + 1)) = concat (map (record_bytes crc enc) (gs ! i))"
  shows "let lg = logger_step crc enc max_bytes (\<lambda>_. True) io_ok e (logger_start (\<lambda>_. True) disk)
    in concat (map (\<lambda>i. fst (decode_records crc dec (lg_files lg (Segment i)))) [1..<Suc (length gs)]) =
       hd gs @ [e] @ concat (tl gs)"
proof -
  obtain g gs' where g: "gs = g # gs'" using assms(3) by (cases gs) auto
  have rb: "encode_record crc enc e = Inr (record_bytes crc enc e)"
    using assms(2) by (auto simp: good_codec_def encode_record_def record_bytes_def Let_def)
  let ?lg = "logger_step crc enc max_bytes (\<lambda>_. True) io_ok e (logger_start (\<lambda>_. True) disk)"
  have "lg_files ?lg = disk(Segment 1 := disk (Segment 1) @ record_bytes crc enc e)"
    by (auto simp: logger_step_def rb logger_start_def open_segment_def flush_buf_def rotate_def io_ok_def)
  then have f: "lg_files ?lg (Segment (i + 1)) =
      concat (map (record_bytes crc enc) (if i = 0 then g @ [e] else gs ! i))" if "i < length gs" for i
    using assms(4) that g by auto
  have "map (\<lambda>i. fst (decode_records crc dec (lg_files ?lg (Segment i)))) [1..<Suc (length gs)] = (g @ [e]) # gs'"
  proof (rule nth_equalityI)
    fix i assume "i < length (map (\<lambda>i. fst (decode_records crc dec (lg_files ?lg (Segment i)))) [1..<Suc (length gs)])"
    then have i: "i < length gs" by (simp del: upt_Suc)
    have "\<forall>x \<in> set (if i = 0 then g @ [e] else gs ! i). good_codec enc dec x"
      using assms(1,2) g i nth_mem [OF i] by auto
    from decode_group [OF this, of crc "[]"] f [OF i] i
    show "map (\<lambda>i. fst (decode_records crc dec (lg_files ?lg (Segment i)))) [1..<Suc (length gs)] ! i =
        ((g @ [e]) # gs') ! i"
      by (cases i) (simp_all add: g nth_append del: upt_Suc)
  qed (simp add: g del: upt_Suc)
  then show ?thesis by (simp add: Let_def g del: upt_Suc)
qed

section \<open>Queries\<close>

text \<open>
  Exact level queries are inverted. A query for exactly one level and nothing else matches every
  entry except those of that level, so its result and that of a correct filter are disjoint and
  together make up the whole log.
\<close>

theorem exact_level_inverted:
  "query_matches \<lparr>q_exact = True, q_level = Some lvl, q_target = None, q_message = None, q_since = None,
     q_fields = []\<rparr> entry \<longleftrightarrow> le_level entry \<noteq> lvl"
  by (simp add: query_matches_def)

section \<open>A concrete codec\<close>

definition demo_enc :: "u8 \<Rightarrow> string + u8 list" where "demo_enc e = Inr [e, 0x52]"

definition demo_dec :: "u8 list \<Rightarrow> u8 option" where
  "demo_dec p = (case p of e # _ \<Rightarrow> Some e | [] \<Rightarrow> None)"

definition demo_crc :: "u8 list \<Rightarrow> u32" where "demo_crc p = of_nat (sum_list (map unat p))"

lemma demo_codec: "good_codec demo_enc demo_dec e"
  by (simp add: good_codec_def demo_enc_def demo_dec_def)

theorem log_stream_roundtrip_witness:
  "decode_records demo_crc demo_dec
     (concat [record_bytes demo_crc demo_enc 1, record_bytes demo_crc demo_enc 2] @
      take 9 (record_bytes demo_crc demo_enc 3)) =
   ([1, 2], length (record_bytes demo_crc demo_enc 1 @ record_bytes demo_crc demo_enc 2))"
proof -
  have e: "encode_record demo_crc demo_enc x = Inr (record_bytes demo_crc demo_enc x)" for x
    by (simp add: record_bytes_def encode_record_def demo_enc_def)
  have "length (record_bytes demo_crc demo_enc 3) = 18"
    using length_encode_record [OF e, of 3 "[3, 0x52]"] by (simp add: demo_enc_def)
  then have "drop 9 (record_bytes demo_crc demo_enc 3) \<noteq> []" by simp
  with log_stream_roundtrip [of demo_crc demo_enc "[1, 2]"
      "[record_bytes demo_crc demo_enc 1, record_bytes demo_crc demo_enc 2]" 3 demo_dec "take 9 (record_bytes demo_crc demo_enc 3)"
      "drop 9 (record_bytes demo_crc demo_enc 3)"] show ?thesis
    by (simp add: e demo_codec)
qed

theorem corrupt_length_hides_rest_witness:
  "decode_records demo_crc demo_dec (u32_to_be rlog_magic @ [0x7F, 0, 0, 0] @
     record_bytes demo_crc demo_enc 1) = ([], 0)"
  by (rule corrupt_length_hides_rest) code_simp+

theorem logged_is_read_back_witness:
  "(let lg = fold (logger_step demo_crc demo_enc 30 (\<lambda>_. True) io_ok) [1, 2, 3, 4] (logger_start (\<lambda>_. True) (\<lambda>_. []))
    in read_entries_once demo_crc demo_dec (\<lambda>e. e \<noteq> 2) (segment_files lg) 2) = [3, 4]"
  using logged_is_read_back [of 30 "[1, 2, 3, 4]" demo_enc demo_dec demo_crc "\<lambda>e. e \<noteq> 2" 2]
  by (simp add: Let_def demo_codec)

theorem restart_writes_first_segment_witness:
  "concat (map (\<lambda>i. fst (decode_records demo_crc demo_dec (lg_files
     (logger_step demo_crc demo_enc 30 (\<lambda>_. True) io_ok 9 (logger_start (\<lambda>_. True)
       (\<lambda>p. if p = Segment 1 then record_bytes demo_crc demo_enc 1
            else if p = Segment 2 then record_bytes demo_crc demo_enc 2 else []))) (Segment i))))
     [1..<Suc (length [[1 :: u8], [2]])]) = [1, 9, 2]"
  using restart_writes_first_segment [of "[[1], [2]]" demo_enc demo_dec 9
    "\<lambda>p. if p = Segment 1 then record_bytes demo_crc demo_enc 1
            else if p = Segment 2 then record_bytes demo_crc demo_enc 2 else []" demo_crc 30]
  by (simp add: Let_def demo_codec less_Suc_eq del: upt_Suc)

end
