(* ===== verification/Persistence.thy ===== *)
theory Persistence
  imports Prelude
begin

text \<open>
  The state snapshot, \<^verbatim>\<open>crates/core/src/persistence.rs\<close>: its encoding with magic number,
  version and checksum, the write through a temporary file, the writer thread and loading. The
  checksum (\<open>crc32fast\<close>) and the codec (\<open>bincode\<close>) are arguments. The disk keeps, beside
  the bytes of a file, whether they were synced, so that a power failure can be stated.
\<close>

section \<open>Encoding\<close>

type_synonym state_snapshot = "string \<rightharpoonup> u8 list list"

definition snapshot_magic :: "u8 list" where "snapshot_magic = [0x52, 0x49, 0x4E, 0x44]"

definition snapshot_version :: u16 where "snapshot_version = 1"

definition encode_snapshot ::
  "(u8 list \<Rightarrow> u32) \<Rightarrow> (state_snapshot \<Rightarrow> string + u8 list) \<Rightarrow> state_snapshot \<Rightarrow> u8 list result" where
  "encode_snapshot crc enc snapshot =
     (case enc snapshot of
        Inl e \<Rightarrow> Inl (PersistenceError (''encode failed: '' @ e))
      | Inr payload \<Rightarrow>
          Inr (snapshot_magic @ u16_to_le snapshot_version @ u32_to_le (crc payload) @ payload))"

definition decode_snapshot ::
  "(u8 list \<Rightarrow> u32) \<Rightarrow> (u8 list \<Rightarrow> string + state_snapshot) \<Rightarrow> u8 list \<Rightarrow> state_snapshot result" where
  "decode_snapshot crc dec content =
     (if length content < 10 then Inl (PersistenceError ''decode failed: snapshot too small'')
      else if take 4 content \<noteq> snapshot_magic then Inl (PersistenceError ''decode failed: invalid snapshot magic'')
      else let version = u16_from_le [content ! 4, content ! 5] in
        if version \<noteq> snapshot_version
        then Inl (PersistenceError (''decode failed: unsupported snapshot version '' @ show_nat (unat version)))
        else
          let expected = u32_from_le [content ! 6, content ! 7, content ! 8, content ! 9];
              payload = drop 10 content
          in if expected \<noteq> crc payload then Inl (PersistenceError ''decode failed: snapshot checksum mismatch'')
             else (case dec payload of
                     Inl e \<Rightarrow> Inl (PersistenceError (''decode failed: '' @ e))
                   | Inr snapshot \<Rightarrow> Inr snapshot))"

section \<open>The disk\<close>

record disk_file =
  df_bytes :: "u8 list"
  df_synced :: bool

text \<open>
  The state file, the temporary file, after a rename whose directory was not synced yet what
  the state file was before, and the directory itself: it may be missing, or new, when its own entry in the
  directory above has not been synced, or there to stay.
\<close>

datatype dir_state = NoDir | NewDir | KeptDir

record state_disk =
  sd_main :: "disk_file option"
  sd_tmp :: "disk_file option"
  sd_undo :: "disk_file option option"
  sd_dir :: dir_state

datatype persist_op = CreateDirs | CreateTmp | WriteTmp "u8 list" | SyncTmp | RenameTmp | OpenParent | SyncParent

fun apply_op :: "persist_op \<Rightarrow> state_disk \<Rightarrow> state_disk" where
  "apply_op CreateDirs d = (if sd_dir d = NoDir then d\<lparr>sd_dir := NewDir\<rparr> else d)"
| "apply_op CreateTmp d = d\<lparr>sd_tmp := Some \<lparr>df_bytes = [], df_synced = False\<rparr>\<rparr>"
| "apply_op (WriteTmp bs) d =
     d\<lparr>sd_tmp := map_option (\<lambda>f. \<lparr>df_bytes = df_bytes f @ bs, df_synced = False\<rparr>) (sd_tmp d)\<rparr>"
| "apply_op SyncTmp d = d\<lparr>sd_tmp := map_option (df_synced_update (\<lambda>_. True)) (sd_tmp d)\<rparr>"
| "apply_op RenameTmp d = d\<lparr>sd_main := sd_tmp d, sd_tmp := None, sd_undo := Some (sd_main d)\<rparr>"
| "apply_op OpenParent d = d"
| "apply_op SyncParent d = d\<lparr>sd_undo := None\<rparr>"

fun op_error :: "persist_op \<Rightarrow> string" where
  "op_error CreateDirs = ''create dir failed: ''"
| "op_error CreateTmp = ''create tmp failed: ''"
| "op_error (WriteTmp bs) = ''write failed: ''"
| "op_error SyncTmp = ''sync failed: ''"
| "op_error RenameTmp = ''rename failed: ''"
| "op_error OpenParent = ''open parent dir failed: ''"
| "op_error SyncParent = ''sync parent dir failed: ''"

text \<open>A failed operation changes nothing, but a failed write may have written a part.\<close>

type_synonym faults = "persist_op \<Rightarrow> (string \<times> nat) option"

definition failed_op :: "persist_op \<Rightarrow> nat \<Rightarrow> state_disk \<Rightarrow> state_disk" where
  "failed_op oper k d = (case oper of WriteTmp bs \<Rightarrow> apply_op (WriteTmp (take k bs)) d | _ \<Rightarrow> d)"

fun run_ops :: "faults \<Rightarrow> persist_op list \<Rightarrow> state_disk \<Rightarrow> unit result \<times> state_disk" where
  "run_ops faults [] d = (Inr (), d)"
| "run_ops faults (oper # ops) d =
     (case faults oper of
        Some (e, k) \<Rightarrow> (Inl (PersistenceError (op_error oper @ e)), failed_op oper k d)
      | None \<Rightarrow> run_ops faults ops (apply_op oper d))"

text \<open>\<open>has_parent\<close>: whether the path has a parent directory.\<close>

definition sync_parent_dir :: "bool \<Rightarrow> persist_op list" where
  "sync_parent_dir has_parent = (if has_parent then [OpenParent, SyncParent] else [])"

definition write_snapshot ::
  "(u8 list \<Rightarrow> u32) \<Rightarrow> (state_snapshot \<Rightarrow> string + u8 list) \<Rightarrow> bool \<Rightarrow> faults \<Rightarrow> state_snapshot \<Rightarrow> state_disk \<Rightarrow>
   unit result \<times> state_disk" where
  "write_snapshot crc enc has_parent faults snapshot d =
     (case encode_snapshot crc enc snapshot of
        Inl e \<Rightarrow> (Inl e, d)
      | Inr encoded \<Rightarrow>
          run_ops faults ((if has_parent then [CreateDirs] else []) @
            [CreateTmp, WriteTmp encoded, SyncTmp, RenameTmp] @ sync_parent_dir has_parent) d)"

text \<open>\<open>open_err\<close> and \<open>read_err\<close> are the errors of opening and reading the state file, if any.\<close>

definition load_snapshot ::
  "(u8 list \<Rightarrow> u32) \<Rightarrow> (u8 list \<Rightarrow> string + state_snapshot) \<Rightarrow> string option \<Rightarrow> string option \<Rightarrow> state_disk \<Rightarrow>
   state_snapshot result" where
  "load_snapshot crc dec open_err read_err d =
     (case sd_main d of
        None \<Rightarrow> Inr Map.empty
      | Some f \<Rightarrow>
          (case open_err of
             Some e \<Rightarrow> Inl (PersistenceError (''open failed: '' @ e))
           | None \<Rightarrow>
               (case read_err of
                  Some e \<Rightarrow> Inl (PersistenceError (''read failed: '' @ e))
                | None \<Rightarrow> decode_snapshot crc dec (df_bytes f))))"

section \<open>The writer thread\<close>

datatype persist_command = SaveSnapshot state_snapshot | ShutdownWriter

fun writer_loop ::
  "(u8 list \<Rightarrow> u32) \<Rightarrow> (state_snapshot \<Rightarrow> string + u8 list) \<Rightarrow> bool \<Rightarrow> faults \<Rightarrow> persist_command list \<Rightarrow>
   state_disk \<Rightarrow> state_disk" where
  "writer_loop crc enc has_parent faults [] d = d"
| "writer_loop crc enc has_parent faults (SaveSnapshot s # cmds) d =
     writer_loop crc enc has_parent faults cmds (snd (write_snapshot crc enc has_parent faults s d))"
| "writer_loop crc enc has_parent faults (ShutdownWriter # cmds) d = d"

section \<open>Decoding what was encoded\<close>

lemma u16_from_le_pair: "u16_to_le w = [a, b] \<Longrightarrow> u16_from_le [a, b] = w"
  using u16_le_round [of w] by simp

lemma le_bytes_value: "length bs = k \<Longrightarrow> le_bytes k (le_value bs) = bs"
proof (induction bs arbitrary: k)
  case (Cons b bs)
  have z: "(256 :: u8) = 0" by (rule unsigned_word_eqI) simp
  have "(of_nat (unat b + 256 * le_value bs) :: u8) = b"
    by (simp only: of_nat_add of_nat_mult of_nat_numeral z mult_zero_left add_0_right) simp
  moreover have "unat b < 256" using unsigned_less [where w = b] by simp
  then have "(unat b + 256 * le_value bs) div 256 = le_value bs" by simp
  ultimately show ?case using Cons by auto
qed simp

lemma u32_to_le_from: "length bs = 4 \<Longrightarrow> u32_to_le (u32_from_le bs) = bs"
  using le_value_bound [of bs] le_bytes_value [of bs 4]
  by (simp add: u32_to_le_def u32_from_le_def unat_of_nat)

lemma u16_to_le_from: "length bs = 2 \<Longrightarrow> u16_to_le (u16_from_le bs) = bs"
  using le_value_bound [of bs] le_bytes_value [of bs 2]
  by (simp add: u16_to_le_def u16_from_le_def unat_of_nat)

lemma two_bytes: "length xs = 2 \<Longrightarrow> \<exists>a b. xs = [a, b]"
  by (auto simp: numeral_eq_Suc length_Suc_conv)

lemma four_bytes: "length xs = 4 \<Longrightarrow> \<exists>a b c d. xs = [a, b, c, d]"
  by (auto simp: numeral_eq_Suc length_Suc_conv)

lemma ten_bytes: "10 \<le> length xs \<Longrightarrow>
    xs = take 4 xs @ [xs ! 4, xs ! 5] @ [xs ! 6, xs ! 7, xs ! 8, xs ! 9] @ drop 10 xs"
  by (auto simp: numeral_eq_Suc Suc_le_length_iff)

text \<open>A well-formed file is decoded.\<close>

lemma decode_well_formed:
  assumes "dec payload = Inr s"
  shows "decode_snapshot crc dec (snapshot_magic @ u16_to_le snapshot_version @ u32_to_le (crc payload) @ payload) = Inr s"
proof -
  obtain v0 v1 where v: "u16_to_le snapshot_version = [v0, v1]"
    using two_bytes [OF length_u16_to_le] by blast
  obtain c0 c1 c2 c3 where k: "u32_to_le (crc payload) = [c0, c1, c2, c3]"
    using four_bytes [OF length_u32_to_le] by blast
  have "u16_from_le [v0, v1] = snapshot_version" "u32_from_le [c0, c1, c2, c3] = crc payload"
    unfolding v [symmetric] k [symmetric] by simp_all
  then show ?thesis by (simp add: decode_snapshot_def v k assms snapshot_magic_def)
qed

text \<open>
  What decoding accepts. A snapshot file is accepted exactly when it is the magic number, version
  1, the checksum of the payload and a payload the codec decodes, in this order; every other content
  is an error.
\<close>

theorem decode_snapshot_iff:
  "decode_snapshot crc dec content = Inr s \<longleftrightarrow>
   (\<exists>payload. content = snapshot_magic @ u16_to_le snapshot_version @ u32_to_le (crc payload) @ payload \<and>
     dec payload = Inr s)"
proof
  assume "decode_snapshot crc dec content = Inr s"
  then have c: "10 \<le> length content" "take 4 content = snapshot_magic"
    "u16_from_le [content ! 4, content ! 5] = snapshot_version"
    "u32_from_le [content ! 6, content ! 7, content ! 8, content ! 9] = crc (drop 10 content)"
    "dec (drop 10 content) = Inr s"
    by (auto simp: decode_snapshot_def Let_def split: if_splits sum.splits)
  have w: "u16_to_le snapshot_version = [content ! 4, content ! 5]"
    using u16_to_le_from [of "[content ! 4, content ! 5]"] c(3) by simp
  have k: "u32_to_le (crc (drop 10 content)) = [content ! 6, content ! 7, content ! 8, content ! 9]"
    using u32_to_le_from [of "[content ! 6, content ! 7, content ! 8, content ! 9]"] c(4) by simp
  from ten_bytes [OF c(1)] have "content = snapshot_magic @ u16_to_le snapshot_version @
      u32_to_le (crc (drop 10 content)) @ drop 10 content" by (simp only: c(2) w k)
  with c(5) show "\<exists>payload. content = snapshot_magic @ u16_to_le snapshot_version @
      u32_to_le (crc payload) @ payload \<and> dec payload = Inr s" by blast
qed (auto simp: decode_well_formed)

section \<open>Power failures\<close>

text \<open>
  After a power failure a synced file is as it was and an unsynced one may hold anything or be gone;
  a rename whose directory was not synced may be undone, and a new directory, whose own entry nobody synced,
  may be gone with its files.
\<close>

definition survives :: "disk_file option \<Rightarrow> disk_file option \<Rightarrow> bool" where
  "survives f f' \<longleftrightarrow> (case f of None \<Rightarrow> f' = None | Some g \<Rightarrow> df_synced g \<longrightarrow> f' = Some g)"

definition crash :: "state_disk \<Rightarrow> state_disk \<Rightarrow> bool" where
  "crash d d' \<longleftrightarrow> survives (sd_main d) (sd_main d') \<or>
     (\<exists>m. sd_undo d = Some m \<and> survives m (sd_main d')) \<or> sd_dir d \<noteq> KeptDir \<and> sd_main d' = None"

definition durable :: "state_disk \<Rightarrow> bool" where
  "durable d \<longleftrightarrow> sd_undo d = None \<and> (case sd_main d of None \<Rightarrow> True | Some f \<Rightarrow> df_synced f \<and> sd_dir d = KeptDir)"

text \<open>The operations before the rename leave the state file alone.\<close>

definition touches_main :: "persist_op \<Rightarrow> bool" where
  "touches_main oper \<longleftrightarrow> oper = RenameTmp \<or> oper = SyncParent"

lemma apply_op_main:
  "\<not> touches_main oper \<Longrightarrow> sd_main (apply_op oper d) = sd_main d \<and> sd_undo (apply_op oper d) = sd_undo d"
  by (cases oper) (simp_all add: touches_main_def)

lemma failed_op_main: "sd_main (failed_op oper k d) = sd_main d \<and> sd_undo (failed_op oper k d) = sd_undo d"
  by (cases oper) (simp_all add: failed_op_def)

lemma run_ops_prefix:
  "\<forall>oper \<in> set ops. \<not> touches_main oper \<Longrightarrow> run_ops faults (ops @ later) d = (r, d') \<Longrightarrow>
   sd_main d' = sd_main d \<and> sd_undo d' = sd_undo d \<and> r \<noteq> Inr () \<or>
   run_ops faults later (fold apply_op ops d) = (r, d') \<and>
     sd_main (fold apply_op ops d) = sd_main d \<and> sd_undo (fold apply_op ops d) = sd_undo d"
proof (induction ops arbitrary: d)
  case (Cons oper ops)
  show ?case
  proof (cases "faults oper")
    case None
    with Cons.prems Cons.IH [of "apply_op oper d"] apply_op_main [of oper d] show ?thesis by simp
  next
    case (Some ek)
    with Cons.prems(2) failed_op_main [of oper "snd ek" d] show ?thesis by (cases ek) auto
  qed
qed simp

text \<open>What a write may leave of the state file: the old one, or the new one complete and synced.\<close>

lemma write_snapshot_main:
  assumes "write_snapshot crc enc has_parent faults s d = (r, d')" and "sd_undo d = None"
  obtains (old) "sd_main d' = sd_main d" "sd_undo d' = None" "r \<noteq> Inr ()"
  | (new) bs where "encode_snapshot crc enc s = Inr bs" "sd_main d' = Some \<lparr>df_bytes = bs, df_synced = True\<rparr>"
      "sd_undo d' = None \<or> sd_undo d' = Some (sd_main d)" "r = Inr () \<and> has_parent \<longrightarrow> sd_undo d' = None"
proof (cases "encode_snapshot crc enc s")
  case (Inl e)
  with assms show ?thesis by (intro old) (auto simp: write_snapshot_def)
next
  case (Inr bs)
  let ?pre = "(if has_parent then [CreateDirs] else []) @ [CreateTmp, WriteTmp bs, SyncTmp]"
  let ?d = "fold apply_op ?pre d"
  have pre: "\<forall>oper \<in> set ?pre. \<not> touches_main oper" by (simp add: touches_main_def)
  from assms(1) Inr have "run_ops faults (?pre @ RenameTmp # sync_parent_dir has_parent) d = (r, d')"
    by (simp add: write_snapshot_def)
  from run_ops_prefix [OF pre this] show ?thesis
  proof
    assume "sd_main d' = sd_main d \<and> sd_undo d' = sd_undo d \<and> r \<noteq> Inr ()"
    with assms(2) show ?thesis by (intro old) simp_all
  next
    assume "run_ops faults (RenameTmp # sync_parent_dir has_parent) ?d = (r, d') \<and>
      sd_main ?d = sd_main d \<and> sd_undo ?d = sd_undo d"
    then have run: "run_ops faults (RenameTmp # sync_parent_dir has_parent) ?d = (r, d')"
      and keep: "sd_main ?d = sd_main d" "sd_undo ?d = None" using assms(2) by simp_all
    have tmp: "sd_tmp ?d = Some \<lparr>df_bytes = bs, df_synced = True\<rparr>" by simp
    show ?thesis
    proof (cases "faults RenameTmp")
      case (Some ek)
      with run keep show ?thesis by (intro old) (cases ek, auto simp: failed_op_def)+
    next
      case None
      let ?d1 = "apply_op RenameTmp ?d"
      have d1: "sd_main ?d1 = Some \<lparr>df_bytes = bs, df_synced = True\<rparr>" "sd_undo ?d1 = Some (sd_main d)"
        using tmp keep by simp_all
      from None run have "run_ops faults (sync_parent_dir has_parent) ?d1 = (r, d')" by simp
      then have "sd_main d' = sd_main ?d1 \<and> (sd_undo d' = None \<or> sd_undo d' = sd_undo ?d1) \<and>
          (r = Inr () \<and> has_parent \<longrightarrow> sd_undo d' = None)"
        by (cases "faults OpenParent"; cases "faults SyncParent")
          (auto simp: sync_parent_dir_def failed_op_def simp del: apply_op.simps(5) split: if_splits)
      with d1 Inr show ?thesis by (intro new) simp_all
    qed
  qed
qed

text \<open>No operation makes the directory durable.\<close>

lemma run_ops_dir: "run_ops faults ops d = (r, d') \<Longrightarrow> sd_dir d' = KeptDir \<longleftrightarrow> sd_dir d = KeptDir"
proof (induction ops arbitrary: d)
  case (Cons oper ops)
  have "sd_dir (apply_op oper d) = KeptDir \<longleftrightarrow> sd_dir d = KeptDir" for oper d by (cases oper) simp_all
  moreover from this have "sd_dir (failed_op oper k d) = KeptDir \<longleftrightarrow> sd_dir d = KeptDir" for k
    by (cases oper) (simp_all add: failed_op_def)
  ultimately show ?case using Cons by (cases "faults oper") auto
qed simp

lemma write_snapshot_dir:
  "write_snapshot crc enc has_parent faults s d = (r, d') \<Longrightarrow> sd_dir d' = KeptDir \<longleftrightarrow> sd_dir d = KeptDir"
  unfolding write_snapshot_def by (auto split: sum.splits dest: run_ops_dir)

lemma survives_new:
  assumes "crash d1 d2" and "durable d" and "sd_main d1 = Some f" and "df_synced f"
    and "sd_undo d1 = None \<or> sd_undo d1 = Some (sd_main d)" and "sd_dir d1 = KeptDir \<longleftrightarrow> sd_dir d = KeptDir"
  shows "sd_main d2 = Some f \<or> (sd_undo d1 \<noteq> None \<or> sd_dir d \<noteq> KeptDir) \<and> sd_main d2 = sd_main d"
proof -
  have old: "survives (sd_main d) m \<Longrightarrow> m = sd_main d" for m
    using assms(2) by (cases "sd_main d") (simp_all add: survives_def durable_def)
  have new: "survives (Some f) m \<Longrightarrow> m = Some f" for m using assms(4) by (simp add: survives_def)
  have gone: "sd_dir d \<noteq> KeptDir \<Longrightarrow> sd_main d = None" using assms(2) by (cases "sd_main d") (simp_all add: durable_def)
  have "survives (Some f) (sd_main d2) \<or> (\<exists>m. sd_undo d1 = Some m \<and> survives m (sd_main d2)) \<or>
      sd_dir d \<noteq> KeptDir \<and> sd_main d2 = None"
    using assms(1) unfolding crash_def assms(3,6) .
  then show ?thesis
  proof (elim disjE exE conjE)
    assume "survives (Some f) (sd_main d2)"
    then show ?thesis using new by simp
  next
    fix m assume "sd_undo d1 = Some m" "survives m (sd_main d2)"
    then show ?thesis using old assms(5) by simp
  next
    assume "sd_dir d \<noteq> KeptDir" "sd_main d2 = None"
    then show ?thesis using gone by simp
  qed
qed

text \<open>
  C37. Saving is atomic, also under power failure. Whatever operation of a save fails, and if the
  power then fails at that point, loading gives either what it gave before or the snapshot that was
  being saved, never an error or a mixture; when the save reported success, it is the new one, if the
  path has a directory that was there before and had itself been kept.
\<close>

theorem save_is_atomic:
  assumes "\<And>p. enc s = Inr p \<Longrightarrow> dec p = Inr s" and "durable d"
    and "write_snapshot crc enc has_parent faults s d = (r, d1)" and "crash d1 d2"
  shows "load_snapshot crc dec None None d2 \<in> {load_snapshot crc dec None None d, Inr s} \<and>
    (r = Inr () \<and> has_parent \<and> sd_dir d = KeptDir \<longrightarrow> load_snapshot crc dec None None d2 = Inr s)"
proof -
  from assms(2) have undo: "sd_undo d = None" by (simp add: durable_def)
  note kept = write_snapshot_dir [OF assms(3)]
  from assms(3) undo show ?thesis
  proof (cases rule: write_snapshot_main)
    case old
    with assms(2,4) kept have "sd_main d2 = sd_main d"
      by (auto simp: crash_def survives_def durable_def split: option.splits)
    with old show ?thesis by (simp add: load_snapshot_def)
  next
    case (new bs)
    from new(1) assms(1) have "decode_snapshot crc dec bs = Inr s"
      by (auto simp: encode_snapshot_def decode_well_formed split: sum.splits)
    moreover have "df_synced \<lparr>df_bytes = bs, df_synced = True\<rparr>" by simp
    note survives_new [OF assms(4,2) new(2) this new(3) kept]
    ultimately show ?thesis using new(4) by (auto simp: load_snapshot_def)
  qed
qed

section \<open>The writer\<close>

lemma writer_saves:
  assumes "\<And>s. s \<in> set ss \<Longrightarrow> \<exists>p. enc s = Inr p" and "ss \<noteq> []"
  shows "\<exists>bs d'. encode_snapshot crc enc (last ss) = Inr bs \<and>
      sd_main d' = Some \<lparr>df_bytes = bs, df_synced = True\<rparr> \<and>
      writer_loop crc enc True (\<lambda>_. None) (map SaveSnapshot ss @ rest) d =
        writer_loop crc enc True (\<lambda>_. None) rest d'"
  using assms
proof (induction ss arbitrary: d)
  case (Cons s ss)
  from Cons.prems(1) [of s] obtain bs where bs: "encode_snapshot crc enc s = Inr bs"
    by (auto simp: encode_snapshot_def)
  let ?d = "snd (write_snapshot crc enc True (\<lambda>_. None) s d)"
  have d: "sd_main ?d = Some \<lparr>df_bytes = bs, df_synced = True\<rparr>"
    by (simp add: write_snapshot_def bs sync_parent_dir_def)
  show ?case
  proof (cases "ss = []")
    case True
    with bs d show ?thesis by auto
  next
    case False
    with Cons.IH [of ?d] Cons.prems(1) show ?thesis by auto
  qed
qed simp

text \<open>
  The last save before a shutdown wins. With no failing operation, after the writer thread has
  processed saves and then a shutdown, loading gives the last of those snapshots, and whatever was
  sent after the shutdown is lost.
\<close>

theorem last_save_wins:
  assumes "\<And>s. s \<in> set ss \<Longrightarrow> \<exists>p. enc s = Inr p \<and> dec p = Inr s" and "ss \<noteq> []"
  shows "load_snapshot crc dec None None
      (writer_loop crc enc True (\<lambda>_. None) (map SaveSnapshot ss @ ShutdownWriter # later) d) = Inr (last ss)"
proof -
  from assms(1) have enc: "\<And>s. s \<in> set ss \<Longrightarrow> \<exists>p. enc s = Inr p" by blast
  obtain bs d' where w: "encode_snapshot crc enc (last ss) = Inr bs"
    "sd_main d' = Some \<lparr>df_bytes = bs, df_synced = True\<rparr>"
    "writer_loop crc enc True (\<lambda>_. None) (map SaveSnapshot ss @ ShutdownWriter # later) d = d'"
    using writer_saves [where enc = enc and ss = ss and d = d and crc = crc and rest = "ShutdownWriter # later",
        OF enc assms(2)] by auto
  obtain p where "enc (last ss) = Inr p" "dec p = Inr (last ss)" using assms(1,2) last_in_set by blast
  with w show ?thesis
    by (auto simp: load_snapshot_def encode_snapshot_def decode_well_formed)
qed

section \<open>A concrete snapshot\<close>

definition demo_snap_enc :: "state_snapshot \<Rightarrow> string + u8 list" where
  "demo_snap_enc s = Inr (concat (case s ''power'' of None \<Rightarrow> [] | Some l \<Rightarrow> l))"

definition demo_snap_dec :: "u8 list \<Rightarrow> string + state_snapshot" where
  "demo_snap_dec bs = Inr [''power'' \<mapsto> [bs]]"

definition demo_snap_crc :: "u8 list \<Rightarrow> u32" where "demo_snap_crc bs = of_nat (length bs)"

definition demo_disk :: state_disk where
  "demo_disk = \<lparr>sd_main = None, sd_tmp = None, sd_undo = None, sd_dir = KeptDir\<rparr>"

text \<open>The write fails after two bytes: the next load still finds no snapshot.\<close>

theorem save_is_atomic_witness:
  "load_snapshot demo_snap_crc demo_snap_dec None None
     (snd (write_snapshot demo_snap_crc demo_snap_enc True
        (\<lambda>oper. case oper of WriteTmp _ \<Rightarrow> Some (''disk full'', 2) | _ \<Rightarrow> None)
        [''power'' \<mapsto> [[1, 2, 3]]] demo_disk))
   \<in> {Inr Map.empty, Inr [''power'' \<mapsto> [[1, 2, 3]]]}"
proof -
  let ?f = "\<lambda>oper. case oper of WriteTmp _ \<Rightarrow> Some (''disk full'', 2 :: nat) | _ \<Rightarrow> None"
  let ?w = "write_snapshot demo_snap_crc demo_snap_enc True ?f [''power'' \<mapsto> [[1, 2, 3]]] demo_disk"
  have "crash (snd ?w) (snd ?w)" by (auto simp: crash_def survives_def split: option.splits)
  moreover have "durable demo_disk" by (simp add: durable_def demo_disk_def)
  moreover have "load_snapshot demo_snap_crc demo_snap_dec None None demo_disk = Inr Map.empty"
    by (simp add: load_snapshot_def demo_disk_def)
  ultimately show ?thesis
    using save_is_atomic [of demo_snap_enc "[''power'' \<mapsto> [[1, 2, 3]]]" demo_snap_dec demo_disk demo_snap_crc True ?f
        "fst ?w" "snd ?w" "snd ?w"]
    by (simp add: demo_snap_enc_def demo_snap_dec_def)
qed

theorem last_save_wins_witness:
  "load_snapshot demo_snap_crc demo_snap_dec None None
     (writer_loop demo_snap_crc demo_snap_enc True (\<lambda>_. None)
       (map SaveSnapshot [[''power'' \<mapsto> [[1]]], [''power'' \<mapsto> [[2, 3]]]] @
        ShutdownWriter # [SaveSnapshot Map.empty]) demo_disk) = Inr [''power'' \<mapsto> [[2, 3]]]"
proof -
  have "\<exists>p. demo_snap_enc s = Inr p \<and> demo_snap_dec p = Inr s"
    if "s \<in> set [[''power'' \<mapsto> [[1]]], [''power'' \<mapsto> [[2, 3]]]]" for s
    using that by (auto simp: demo_snap_enc_def demo_snap_dec_def)
  then have "load_snapshot demo_snap_crc demo_snap_dec None None
     (writer_loop demo_snap_crc demo_snap_enc True (\<lambda>_. None)
       (map SaveSnapshot [[''power'' \<mapsto> [[1]]], [''power'' \<mapsto> [[2, 3]]]] @
        ShutdownWriter # [SaveSnapshot Map.empty]) demo_disk) =
      Inr (last [[''power'' \<mapsto> [[1]]], [''power'' \<mapsto> [[2, 3]]]])"
    by (intro last_save_wins) auto
  then show ?thesis by simp
qed

end
