(* ===== verification/ShmRing.thy ===== *)
theory ShmRing
  imports Prelude
begin

text \<open>
  The shared-memory ring of \<^verbatim>\<open>crates/ipc/src/shm.rs\<close>, one writer and one reader: the
  header's free-running 32-bit counters, the two-part copies at the end of the buffer, the
  length-prefixed messages, and the byte streams built on it with an eventfd. The bytes behind the
  header are a list; atomics are single steps.
\<close>

section \<open>The ring\<close>

record shm_ring =
  rb_head :: u32
  rb_tail :: u32
  rb_capacity :: u32
  rb_mem :: "u8 list"

text \<open>\<open>size_of::<ShmHeader>()\<close>: three 32-bit fields.\<close>

definition data_start :: u32 where "data_start = 12"

definition buffer_size :: "shm_ring \<Rightarrow> u32" where
  "buffer_size rb = rb_capacity rb - data_start"

text \<open>\<open>copy_nonoverlapping\<close> into and out of the buffer.\<close>

definition copy_in :: "nat \<Rightarrow> u8 list \<Rightarrow> u8 list \<Rightarrow> u8 list" where
  "copy_in pos src mem = take pos mem @ src @ drop (pos + length src) mem"

definition copy_out :: "nat \<Rightarrow> nat \<Rightarrow> u8 list \<Rightarrow> u8 list" where
  "copy_out pos n mem = take n (drop pos mem)"

definition copy_at :: "u32 \<Rightarrow> u8 list \<Rightarrow> u32 \<Rightarrow> u8 list \<Rightarrow> u32 \<times> u8 list" where
  "copy_at offset src bsize mem =
     (let len = (of_nat (length src) :: u32);
          pos = offset mod bsize;
          space_to_end = bsize - pos
      in (offset + len,
          if len \<le> space_to_end then copy_in (unat pos) src mem
          else copy_in 0 (drop (unat space_to_end) src)
                 (copy_in (unat pos) (take (unat space_to_end) src) mem)))"

definition read_at :: "u32 \<Rightarrow> u32 \<Rightarrow> u32 \<Rightarrow> u8 list \<Rightarrow> u32 \<times> u8 list" where
  "read_at offset len bsize mem =
     (let pos = offset mod bsize;
          space_to_end = bsize - pos
      in (offset + len,
          if len \<le> space_to_end then copy_out (unat pos) (unat len) mem
          else copy_out (unat pos) (unat space_to_end) mem @ copy_out 0 (unat (len - space_to_end)) mem))"

definition ring_used :: "shm_ring \<Rightarrow> u32" where
  "ring_used rb =
     (if rb_tail rb \<le> rb_head rb then rb_head rb - rb_tail rb
      else (0xFFFFFFFF - rb_tail rb) + rb_head rb + 1)"

definition ring_write :: "u8 list \<Rightarrow> shm_ring \<Rightarrow> bool \<times> shm_ring" where
  "ring_write data rb =
     (let len = (of_nat (length data) :: u32);
          total_len = len + 4;
          bsize = buffer_size rb
      in if bsize \<le> ring_used rb + total_len then (False, rb)
         else
           let (head1, mem1) = copy_at (rb_head rb) (u32_to_le len) bsize (rb_mem rb);
               (head2, mem2) = copy_at head1 data bsize mem1
           in (True, rb\<lparr>rb_mem := mem2, rb_head := head2\<rparr>))"

definition ring_read :: "shm_ring \<Rightarrow> u8 list option \<times> shm_ring" where
  "ring_read rb =
     (if rb_tail rb = rb_head rb then (None, rb)
      else
        let bsize = buffer_size rb;
            (tail1, len_bytes) = read_at (rb_tail rb) 4 bsize (rb_mem rb);
            (tail2, data) = read_at tail1 (u32_from_le len_bytes) bsize (rb_mem rb)
        in (Some data, rb\<lparr>rb_tail := tail2\<rparr>))"

section \<open>Positions\<close>

text \<open>
  \<open>tidy n b\<close>: an offset \<open>n\<close>, truncated to 32 bits and then reduced, is \<open>n\<close> modulo the
  buffer size. True while the counters have not wrapped, and always when the size divides \<open>2 ^ 32\<close>.
\<close>

definition tidy :: "nat \<Rightarrow> nat \<Rightarrow> bool" where
  "tidy n b \<longleftrightarrow> n < 2 ^ 32 \<or> b dvd 2 ^ 32"

lemma tidy_mod: "tidy n b \<Longrightarrow> n mod 2 ^ 32 mod b = n mod b"
  by (auto simp: tidy_def mod_mod_cancel)

lemma tidy_mono: "tidy n b \<Longrightarrow> m \<le> n \<Longrightarrow> tidy m b"
  by (auto simp: tidy_def)

lemma length_copy_in [simp]: "pos + length src \<le> length mem \<Longrightarrow> length (copy_in pos src mem) = length mem"
  by (simp add: copy_in_def)

lemma nth_copy_in:
  "pos + length src \<le> length mem \<Longrightarrow> j < length mem \<Longrightarrow>
   copy_in pos src mem ! j = (if pos \<le> j \<and> j < pos + length src then src ! (j - pos) else mem ! j)"
  by (auto simp: copy_in_def nth_append)

text \<open>The offset within the run of \<open>k\<close> bytes from \<open>pos\<close>, cyclically, that lands on \<open>j\<close>.\<close>

definition lag :: "nat \<Rightarrow> nat \<Rightarrow> nat \<Rightarrow> nat" where
  "lag b pos j = (if pos \<le> j then j - pos else b - pos + j)"

lemma lag_add: "pos < b \<Longrightarrow> i < b \<Longrightarrow> lag b pos ((pos + i) mod b) = i"
  by (cases "pos + i < b") (auto simp: lag_def mod_if)

lemma lag_less: "pos < b \<Longrightarrow> j < b \<Longrightarrow> lag b pos j < b"
  by (auto simp: lag_def)

text \<open>One cyclic copy: what it writes and what it leaves.\<close>

lemma copy_at_spec:
  assumes "unat bsize = b" and "length mem = b" and "length src \<le> b" and "0 < b" and "tidy n b"
    and "copy_at (of_nat n) src bsize mem = (off, mem')"
  shows "off = of_nat (n + length src)" and "length mem' = b"
    and "j < b \<Longrightarrow> mem' ! j = (if lag b (n mod b) j < length src then src ! lag b (n mod b) j else mem ! j)"
proof -
  let ?pos = "n mod b"
  have b: "b < 2 ^ 32" using assms(1) unat_u32_lt [of bsize] by simp
  have pos: "unat (of_nat n mod bsize :: u32) = ?pos"
    using tidy_mod [OF assms(5)] by (simp add: unat_mod_distrib unat_of_nat assms(1))
  have lt: "?pos < b" using assms(4) by simp
  have sp: "unat (bsize - of_nat n mod bsize :: u32) = b - ?pos"
    using lt by (subst unat_sub) (simp_all add: word_le_nat_alt pos assms(1))
  have len: "unat (of_nat (length src) :: u32) = length src"
    using assms(3) b by (simp add: unat_of_nat)
  note out = assms(6) [unfolded copy_at_def Let_def, simplified word_le_nat_alt pos sp len]
  from out show "off = of_nat (n + length src)" by simp
  define p where "p = ?pos"
  have p: "p < b" using lt by (simp add: p_def)
  show len': "length mem' = b"
  proof (cases "length src \<le> b - p")
    case True
    with out assms(2) p show ?thesis by (auto simp: p_def [symmetric])
  next
    case False
    have "length (copy_in p (take (b - p) src) mem) = b" using False assms(2) p by simp
    with False out assms(3) show ?thesis by (auto simp: p_def [symmetric])
  qed
  show "mem' ! j = (if lag b ?pos j < length src then src ! lag b ?pos j else mem ! j)" if "j < b"
  proof (cases "length src \<le> b - p")
    case True
    with out assms(2) p that show ?thesis
      by (auto simp: p_def [symmetric] nth_copy_in lag_def)
  next
    case False
    let ?m = "copy_in p (take (b - p) src) mem"
    have m: "length ?m = b" "?m ! j = (if p \<le> j then src ! (j - p) else mem ! j)"
      using False assms(2) p that by (auto simp: nth_copy_in)
    with False out assms(3) p that have "mem' ! j = (if j < length src - (b - p) then src ! (b - p + j)
        else if p \<le> j then src ! (j - p) else mem ! j)"
      by (auto simp: p_def [symmetric] nth_copy_in)
    with False assms(3) p that show ?thesis by (auto simp: p_def [symmetric] lag_def)
  qed
qed

lemma cyclic_index:
  fixes p :: nat
  assumes "p < b" and "i < b"
  shows "(p + i) mod b = (if p + i < b then p + i else p + i - b)"
proof (cases "p + i < b")
  case False
  then have "p + i = b + (p + i - b)" by simp
  then have "(p + i) mod b = (p + i - b) mod b" by (metis mod_add_self1)
  with False assms show ?thesis by simp
qed simp

lemma read_at_spec:
  assumes "unat bsize = b" and "length mem = b" and "unat len \<le> b" and "0 < b" and "tidy n b"
  shows "read_at (of_nat n) len bsize mem =
    (of_nat n + len, map (\<lambda>i. mem ! ((n + i) mod b)) [0..<unat len])"
proof -
  define p where "p = n mod b"
  have pos: "unat (of_nat n mod bsize :: u32) = p"
    using tidy_mod [OF assms(5)] by (simp add: unat_mod_distrib unat_of_nat assms(1) p_def)
  have lt: "p < b" using assms(4) by (simp add: p_def)
  have sp: "unat (bsize - of_nat n mod bsize :: u32) = b - p"
    using lt by (subst unat_sub) (simp_all add: word_le_nat_alt pos assms(1))
  have "(n + i) mod b = (p + i) mod b" for i unfolding p_def by (simp add: mod_add_left_eq)
  then have m: "map (\<lambda>i. mem ! ((n + i) mod b)) [0..<unat len] =
      map (\<lambda>i. mem ! (if p + i < b then p + i else p + i - b)) [0..<unat len]"
    using lt assms(3) by (simp add: cyclic_index)
  show ?thesis
  proof (cases "unat len \<le> b - p")
    case True
    have "copy_out p (unat len) mem = map (\<lambda>i. mem ! (if p + i < b then p + i else p + i - b)) [0..<unat len]"
      using True assms(2,3) lt by (intro nth_equalityI) (auto simp: copy_out_def)
    with True show ?thesis by (simp add: read_at_def Let_def word_le_nat_alt pos sp m)
  next
    case False
    have "unat (len - (bsize - of_nat n mod bsize)) = unat len - (b - p)"
      using False by (subst unat_sub) (simp_all add: word_le_nat_alt sp)
    moreover have "copy_out p (b - p) mem @ copy_out 0 (unat len - (b - p)) mem =
        map (\<lambda>i. mem ! (if p + i < b then p + i else p + i - b)) [0..<unat len]"
      using False assms(2,3) lt by (intro nth_equalityI) (auto simp: copy_out_def nth_append add.commute)
    ultimately show ?thesis using False by (simp add: read_at_def Let_def word_le_nat_alt pos sp m)
  qed
qed

lemma mod_once_round [simp]: "(n + (b + k)) mod b = (n + k) mod (b :: nat)"
proof -
  have "n + (b + k) = b + (n + k)" by simp
  then show ?thesis by (metis mod_add_self1)
qed

text \<open>Both copies of a write, seen from the offset where it starts.\<close>

lemma copy_at_cyclic:
  assumes "unat bsize = b" and "length mem = b" and "length src \<le> b" and "0 < b" and "tidy n b"
    and "copy_at (of_nat n) src bsize mem = (off, mem')" and "k < b"
  shows "mem' ! ((n + k) mod b) = (if k < length src then src ! k else mem ! ((n + k) mod b))"
proof -
  have "(n + k) mod b = (n mod b + k) mod b" by (simp add: mod_add_left_eq)
  then have "lag b (n mod b) ((n + k) mod b) = k" using assms(4,7) by (simp add: lag_add)
  with copy_at_spec(3) [OF assms(1-6), of "(n + k) mod b"] assms(4) show ?thesis by simp
qed

lemma copy_twice:
  assumes b: "unat bsize = b" "length mem = b" "0 < b" and t: "tidy (n + length src) b"
    and len: "length src + length src' \<le> b"
    and c1: "copy_at (of_nat n) src bsize mem = (off1, mem1)" and c2: "copy_at off1 src' bsize mem1 = (off2, mem2)"
  shows "off2 = of_nat (n + length (src @ src'))" and "length mem2 = b"
    and "k < b \<Longrightarrow> mem2 ! ((n + k) mod b) =
      (if k < length (src @ src') then (src @ src') ! k else mem ! ((n + k) mod b))"
proof -
  have t': "tidy n b" using t by (rule tidy_mono) simp
  from len have l: "length src \<le> b" "length src' \<le> b" by simp_all
  note s1 = copy_at_spec [OF b(1,2) l(1) b(3) t' c1]
  note c2' = c2 [unfolded s1(1)]
  note s2 = copy_at_spec [OF b(1) s1(2) l(2) b(3) t c2']
  from s2(1) show "off2 = of_nat (n + length (src @ src'))" by (simp add: add.assoc)
  from s2(2) show "length mem2 = b" .
  assume k: "k < b"
  define j where "j = (if length src \<le> k then k - length src else b - length src + k)"
  have j: "j < b" using k len unfolding j_def by auto
  have "(n + length src + j) mod b = (n + k) mod b"
    using len k by (auto simp: j_def)
  with copy_at_cyclic [OF b(1) s1(2) l(2) b(3) t c2' j] copy_at_cyclic [OF b(1,2) l(1) b(3) t' c1 k] k len
  show "mem2 ! ((n + k) mod b) =
      (if k < length (src @ src') then (src @ src') ! k else mem ! ((n + k) mod b))"
    by (auto simp: j_def nth_append split: if_splits)
qed

section \<open>The messages a ring holds\<close>

definition ring_frame :: "u8 list \<Rightarrow> u8 list" where
  "ring_frame d = u32_to_le (of_nat (length d)) @ d"

definition frames :: "u8 list list \<Rightarrow> u8 list" where
  "frames msgs = concat (map ring_frame msgs)"

lemma length_ring_frame [simp]: "length (ring_frame d) = 4 + length d"
  by (simp add: ring_frame_def)

lemma frames_simps [simp]: "frames [] = []" "frames (d # ds) = ring_frame d @ frames ds"
    "frames (xs @ ys) = frames xs @ frames ys"
  by (simp_all add: frames_def)

text \<open>\<open>n\<close> counts the bytes read so far, without wrapping.\<close>

definition ring_holds :: "nat \<Rightarrow> shm_ring \<Rightarrow> nat \<Rightarrow> u8 list list \<Rightarrow> bool" where
  "ring_holds b rb n msgs \<longleftrightarrow>
     unat (buffer_size rb) = b \<and> 0 < b \<and> length (rb_mem rb) = b \<and> rb_tail rb = of_nat n \<and>
     rb_head rb = of_nat (n + length (frames msgs)) \<and> length (frames msgs) < b \<and>
     (\<forall>k < length (frames msgs). rb_mem rb ! ((n + k) mod b) = frames msgs ! k)"

lemma ring_used_eq: "ring_used rb = rb_head rb - rb_tail rb"
proof -
  have "(0xFFFFFFFF :: u32) = - 1" by simp
  then show ?thesis by (simp add: ring_used_def)
qed

lemma ring_used_holds: "ring_holds b rb n msgs \<Longrightarrow> ring_used rb = of_nat (length (frames msgs))"
  by (simp add: ring_used_eq ring_holds_def)

lemma ring_bound: "ring_holds b rb n msgs \<Longrightarrow> b < 2 ^ 32"
  using unat_u32_lt [of "buffer_size rb"] by (simp add: ring_holds_def)

lemma unat_len: "n < 2 ^ 32 \<Longrightarrow> unat (of_nat n :: u32) = n"
  by (simp add: unat_of_nat)

lemma ring_write_holds:
  assumes h: "ring_holds b rb n msgs" and t: "tidy (n + length (frames msgs) + 4) b"
    and d: "length d + 4 + b \<le> 2 ^ 32"
  shows "if length (frames msgs) + length d + 4 < b
    then fst (ring_write d rb) \<and> ring_holds b (snd (ring_write d rb)) n (msgs @ [d])
    else ring_write d rb = (False, rb)"
proof -
  let ?L = "length (frames msgs)" and ?len = "of_nat (length d) :: u32"
  note H = h [unfolded ring_holds_def]
  have "ring_used rb + (?len + 4) = of_nat (?L + length d + 4)"
    by (simp add: ring_used_holds [OF h])
  moreover have "?L + length d + 4 < 2 ^ 32" using H d by simp
  ultimately have sum: "unat (ring_used rb + (?len + 4)) = ?L + length d + 4"
    by (simp only: unat_len)
  show ?thesis
  proof (cases "?L + length d + 4 < b")
    case False
    then show ?thesis using H sum by (simp add: ring_write_def word_le_nat_alt)
  next
    case True
    obtain h1 m1 where c1: "copy_at (of_nat (n + ?L)) (u32_to_le ?len) (buffer_size rb) (rb_mem rb) = (h1, m1)"
      by fastforce
    obtain h2 m2 where c2: "copy_at h1 d (buffer_size rb) m1 = (h2, m2)" by fastforce
    have w: "ring_write d rb = (True, rb\<lparr>rb_mem := m2, rb_head := h2\<rparr>)"
      using H True sum c1 c2 by (simp add: ring_write_def word_le_nat_alt)
    have t': "tidy (n + ?L + length (u32_to_le ?len)) b" using t by simp
    have fits: "length (u32_to_le ?len) + length d \<le> b" using True by simp
    have B: "unat (buffer_size rb) = b" "length (rb_mem rb) = b" "0 < b" using H by simp_all
    note two = copy_twice [OF B t' fits c1 c2]
    have "m2 ! ((n + k) mod b) = (frames msgs @ ring_frame d) ! k" if k: "k < ?L + (4 + length d)" for k
    proof (cases "k < ?L")
      case True
      have "n + ?L + (b - ?L + k) = n + (b + k)" using H by simp
      then have e: "(n + ?L + (b - ?L + k)) mod b = (n + k) mod b" by simp
      have j: "b - ?L + k < b" "\<not> b - ?L + k < length (u32_to_le ?len @ d)"
        using True \<open>?L + length d + 4 < b\<close> by auto
      have "m2 ! ((n + k) mod b) = rb_mem rb ! ((n + k) mod b)"
        using two(3) [OF j(1)] by (simp only: e j(2) if_False)
      with True H show ?thesis by (simp add: nth_append)
    next
      case False
      with two(3) [of "k - ?L"] k \<open>?L + length d + 4 < b\<close> show ?thesis
        by (simp add: nth_append ring_frame_def)
    qed
    with H two(1,2) True have "ring_holds b (rb\<lparr>rb_mem := m2, rb_head := h2\<rparr>) n (msgs @ [d])"
      by (simp add: ring_holds_def buffer_size_def add.assoc)
    with True w show ?thesis by simp
  qed
qed

lemma ring_read_holds:
  assumes h: "ring_holds b rb n msgs" and t: "tidy (n + length (frames msgs)) b"
  shows "case msgs of [] \<Rightarrow> ring_read rb = (None, rb)
    | d # ds \<Rightarrow> fst (ring_read rb) = Some d \<and> ring_holds b (snd (ring_read rb)) (n + 4 + length d) ds"
proof (cases msgs)
  case Nil
  with h show ?thesis by (simp add: ring_holds_def ring_read_def)
next
  case (Cons d ds)
  let ?len = "of_nat (length d) :: u32"
  note H = h [unfolded ring_holds_def Cons]
  have small: "4 + length d + length (frames ds) < b" "b < 2 ^ 32" using H ring_bound [OF h] by auto
  have len: "unat ?len = length d" using small by (simp add: unat_len)
  have "unat (of_nat (length (frames msgs)) :: u32) = length (frames msgs)"
    using small by (intro unat_len) (simp add: Cons)
  then have "of_nat (length (frames msgs)) \<noteq> (0 :: u32)" by (auto simp: Cons)
  then have ne: "rb_tail rb \<noteq> rb_head rb" using h by (simp add: ring_holds_def)
  have t1: "tidy n b" "tidy (n + 4) b" using t by (auto elim!: tidy_mono simp: Cons)
  have B: "unat (buffer_size rb) = b" "length (rb_mem rb) = b" "0 < b" using H by simp_all
  have at: "rb_mem rb ! ((n + k) mod b) = (u32_to_le ?len @ d @ frames ds) ! k"
    if "k < 4 + length d + length (frames ds)" for k
    using H that by (auto simp: ring_frame_def)
  have "map (\<lambda>i. rb_mem rb ! ((n + i) mod b)) [0..<4] = u32_to_le ?len"
    using at by (intro nth_equalityI) (auto simp: nth_append)
  then have r1: "read_at (of_nat n) 4 (buffer_size rb) (rb_mem rb) = (of_nat (n + 4), u32_to_le ?len)"
    using read_at_spec [OF B(1,2) _ B(3) t1(1), of 4] small by simp
  have "map (\<lambda>i. rb_mem rb ! ((n + 4 + i) mod b)) [0..<length d] = d"
    using at [of "4 + i" for i] by (intro nth_equalityI) (auto simp: nth_append add.assoc)
  then have r2: "read_at (of_nat (n + 4)) ?len (buffer_size rb) (rb_mem rb) = (of_nat (n + 4 + length d), d)"
    using read_at_spec [OF B(1,2) _ B(3) t1(2), of ?len] small len by simp
  have rd: "ring_read rb = (Some d, rb\<lparr>rb_tail := of_nat (n + 4 + length d)\<rparr>)"
    using ne H r1 r2 by (simp add: ring_read_def)
  have "rb_mem rb ! ((n + 4 + length d + k) mod b) = frames ds ! k" if "k < length (frames ds)" for k
    using at [of "4 + length d + k"] that by (simp add: nth_append add.assoc)
  with H have "ring_holds b (rb\<lparr>rb_tail := of_nat (n + 4 + length d)\<rparr>) (n + 4 + length d) ds"
    by (simp add: ring_holds_def buffer_size_def add.assoc add.left_commute)
  with rd show ?thesis by (simp add: Cons)
qed

section \<open>The ring is a bounded queue\<close>

datatype ring_op = RingWrite "u8 list" | RingRead

datatype ring_answer = Written bool | ReadAnswer "u8 list option"

fun ring_step :: "ring_op \<Rightarrow> shm_ring \<Rightarrow> ring_answer \<times> shm_ring" where
  "ring_step (RingWrite d) rb = (case ring_write d rb of (ok, rb') \<Rightarrow> (Written ok, rb'))"
| "ring_step RingRead rb = (case ring_read rb of (d, rb') \<Rightarrow> (ReadAnswer d, rb'))"

text \<open>
  The specification: a queue of messages that refuses a message unless all of them, with four bytes
  each, stay below the buffer size.
\<close>

fun queue_step :: "nat \<Rightarrow> ring_op \<Rightarrow> u8 list list \<Rightarrow> ring_answer \<times> u8 list list" where
  "queue_step b (RingWrite d) q =
     (if sum_list (map (\<lambda>m. length m + 4) (q @ [d])) < b then (Written True, q @ [d]) else (Written False, q))"
| "queue_step b RingRead q = (case q of [] \<Rightarrow> (ReadAnswer None, []) | d # ds \<Rightarrow> (ReadAnswer (Some d), ds))"

fun run_steps :: "('o \<Rightarrow> 's \<Rightarrow> 'a \<times> 's) \<Rightarrow> 'o list \<Rightarrow> 's \<Rightarrow> 'a list" where
  "run_steps step [] s = []"
| "run_steps step (x # xs) s = (case step x s of (a, s') \<Rightarrow> a # run_steps step xs s')"

text \<open>The bytes a list of operations can bring into the ring at most.\<close>

fun op_bytes :: "ring_op \<Rightarrow> nat" where
  "op_bytes (RingWrite d) = 4 + length d"
| "op_bytes RingRead = 0"

lemma length_frames: "length (frames msgs) = sum_list (map (\<lambda>m. length m + 4) msgs)"
  by (induction msgs) simp_all

lemma ring_step_holds:
  assumes "ring_holds b rb n q" and "tidy (n + length (frames q) + op_bytes x) b" and "op_bytes x + b \<le> 2 ^ 32"
  shows "\<exists>n'. fst (ring_step x rb) = fst (queue_step b x q) \<and>
    ring_holds b (snd (ring_step x rb)) n' (snd (queue_step b x q)) \<and>
    n' + length (frames (snd (queue_step b x q))) \<le> n + length (frames q) + op_bytes x"
proof (cases x)
  case (RingWrite d)
  have "tidy (n + length (frames q) + 4) b" using assms(2) by (rule tidy_mono) (simp add: RingWrite)
  from ring_write_holds [OF assms(1) this, of d] assms(1,3) show ?thesis
    by (auto simp: RingWrite length_frames add.commute add.left_commute intro!: exI [of _ n] split: prod.splits if_splits)
next
  case RingRead
  have "tidy (n + length (frames q)) b" using assms(2) by (rule tidy_mono) simp
  from ring_read_holds [OF assms(1) this] show ?thesis
  proof (cases q)
    case Nil
    with RingRead assms(1) \<open>tidy (n + length (frames q)) b\<close> ring_read_holds [OF assms(1)] show ?thesis
      by (intro exI [of _ n]) simp
  next
    case (Cons d ds)
    with RingRead ring_read_holds [OF assms(1) \<open>tidy (n + length (frames q)) b\<close>] show ?thesis
      by (intro exI [of _ "n + 4 + length d"]) (simp add: case_prod_unfold)
  qed
qed

lemma ring_refines:
  "ring_holds b rb n q \<Longrightarrow> tidy (n + length (frames q) + sum_list (map op_bytes xs)) b \<Longrightarrow>
   \<forall>x \<in> set xs. op_bytes x + b \<le> 2 ^ 32 \<Longrightarrow> run_steps ring_step xs rb = run_steps (queue_step b) xs q"
proof (induction xs arbitrary: rb n q)
  case (Cons x xs)
  have "tidy (n + length (frames q) + op_bytes x) b" using Cons.prems(2) by (rule tidy_mono) simp
  with ring_step_holds [OF Cons.prems(1) this] Cons.prems(3) obtain n' where
    r: "fst (ring_step x rb) = fst (queue_step b x q)"
       "ring_holds b (snd (ring_step x rb)) n' (snd (queue_step b x q))"
       "n' + length (frames (snd (queue_step b x q))) \<le> n + length (frames q) + op_bytes x" by auto
  have "tidy (n' + length (frames (snd (queue_step b x q))) + sum_list (map op_bytes xs)) b"
    using Cons.prems(2) by (rule tidy_mono) (use r(3) in simp)
  from Cons.IH [OF r(2) this] Cons.prems(3) r(1) show ?case by (simp add: case_prod_unfold)
qed simp

text \<open>A ring as it is set up: both counters zero.\<close>

definition ring_new :: "u32 \<Rightarrow> u8 list \<Rightarrow> shm_ring" where
  "ring_new cap mem = \<lparr>rb_head = 0, rb_tail = 0, rb_capacity = cap, rb_mem = mem\<rparr>"

lemma ring_new_holds:
  "data_start < cap \<Longrightarrow> length mem = unat (cap - data_start) \<Longrightarrow> ring_holds (length mem) (ring_new cap mem) 0 []"
  by (auto simp: ring_holds_def ring_new_def buffer_size_def unat_gt_0)

text \<open>
  C19. The shared-memory ring is a bounded queue. From a fresh ring, any sequence of writes and reads
  gives the same answers as a queue of whole messages that accepts a message exactly while all of
  them, with their length prefixes, stay below the buffer size: nothing is lost, duplicated,
  reordered, split or overwritten. It holds as long as fewer than \<open>2 ^ 32\<close> bytes are offered in
  total, and without that limit when the buffer size divides \<open>2 ^ 32\<close>.
\<close>

theorem ring_is_bounded_queue:
  assumes "data_start < cap" and "length mem = unat (cap - data_start)"
    and "\<forall>x \<in> set xs. op_bytes x + length mem \<le> 2 ^ 32"
    and "sum_list (map op_bytes xs) < 2 ^ 32 \<or> length mem dvd 2 ^ 32"
  shows "run_steps ring_step xs (ring_new cap mem) = run_steps (queue_step (length mem)) xs []"
  using ring_refines [OF ring_new_holds [OF assms(1,2)] _ assms(3)] assms(4) by (simp add: tidy_def)

text \<open>
  The counters may wrap in the wrong place. When the buffer size does not divide \<open>2 ^ 32\<close>, the
  position a counter stands for jumps when it wraps: a 20-byte ring that has passed \<open>2 ^ 32 - 8\<close> bytes,
  all read, accepts two messages and then returns neither of them.
\<close>

theorem ring_wrap_corrupts:
  "let rb = \<lparr>rb_head = - 8, rb_tail = - 8, rb_capacity = 32, rb_mem = replicate 20 0\<rparr>;
       xs = [RingWrite [1, 1, 1, 1], RingWrite [5, 5, 5, 5, 5, 5, 5]]
   in run_steps ring_step xs rb = [Written True, Written True] \<and>
      run_steps (queue_step 20) (xs @ [RingRead]) [] = [Written True, Written True, ReadAnswer (Some [1, 1, 1, 1])] \<and>
      run_steps ring_step (xs @ [RingRead]) rb \<noteq> run_steps (queue_step 20) (xs @ [RingRead]) []"
  by code_simp

section \<open>Streams over a ring\<close>

text \<open>
  \<open>ShmStream\<close>: the ring, the counter of its eventfd and the bytes read but not yet delivered.
  A read that finds the counter zero blocks, which is \<open>None\<close>.
\<close>

record shm_stream =
  ss_ring :: shm_ring
  ss_evt :: nat
  ss_cache :: "u8 list"

datatype stream_error = SpuriousWakeup | RingFull

partial_function (option) ring_drain :: "u8 list \<Rightarrow> shm_ring \<Rightarrow> (u8 list \<times> shm_ring) option" where
  "ring_drain cache rb =
     (case ring_read rb of
        (None, rb') \<Rightarrow> Some (cache, rb')
      | (Some d, rb') \<Rightarrow> ring_drain (cache @ d) rb')"

definition deliver :: "nat \<Rightarrow> shm_stream \<Rightarrow> (stream_error + u8 list) \<times> shm_stream" where
  "deliver n st = (Inr (take n (ss_cache st)), st\<lparr>ss_cache := drop n (ss_cache st)\<rparr>)"

definition stream_read :: "nat \<Rightarrow> shm_stream \<Rightarrow> ((stream_error + u8 list) \<times> shm_stream) option" where
  "stream_read n st =
     (if ss_cache st \<noteq> [] then Some (deliver n st)
      else if ss_evt st = 0 then None
      else (case ring_drain (ss_cache st) (ss_ring st) of
              None \<Rightarrow> None
            | Some (bytes, rb) \<Rightarrow>
                let st1 = st\<lparr>ss_evt := 0, ss_ring := rb, ss_cache := bytes\<rparr>
                in if bytes = [] then Some (Inl SpuriousWakeup, st1) else Some (deliver n st1)))"

definition stream_write :: "u8 list \<Rightarrow> shm_stream \<Rightarrow> (stream_error + nat) \<times> shm_stream" where
  "stream_write buf st =
     (if buf = [] then (Inr 0, st)
      else (case ring_write buf (ss_ring st) of
              (True, rb) \<Rightarrow> (Inr (length buf), st\<lparr>ss_ring := rb, ss_evt := ss_evt st + 1\<rparr>)
            | (False, rb) \<Rightarrow> (Inl RingFull, st\<lparr>ss_ring := rb\<rparr>)))"

lemma ring_drain_holds:
  "ring_holds b rb n q \<Longrightarrow> tidy (n + length (frames q)) b \<Longrightarrow>
   \<exists>rb' n'. ring_drain cache rb = Some (cache @ concat q, rb') \<and> ring_holds b rb' n' []"
proof (induction q arbitrary: rb n cache)
  case Nil
  from ring_read_holds [OF Nil] Nil(1) show ?case by (subst ring_drain.simps) auto
next
  case (Cons d ds)
  from ring_read_holds [OF Cons.prems] have r: "fst (ring_read rb) = Some d"
    "ring_holds b (snd (ring_read rb)) (n + 4 + length d) ds" by simp_all
  have "tidy (n + 4 + length d + length (frames ds)) b" using Cons.prems(2) by (simp add: add.assoc)
  from Cons.IH [OF r(2) this, of "cache @ d"] obtain rb' n' where
    "ring_drain (cache @ d) (snd (ring_read rb)) = Some (cache @ d @ concat ds, rb')" "ring_holds b rb' n' []" by auto
  with r(1) show ?case by (subst ring_drain.simps) (auto split: prod.splits)
qed

text \<open>
  A stream read delivers what was written. When the ring holds the messages \<open>q\<close> and a wake-up is
  pending, a read of \<open>n\<close> bytes returns the first \<open>n\<close> bytes of their concatenation, keeps the others
  for the next reads and leaves the ring empty; a wake-up without data is the spurious-wake-up error.
\<close>

theorem stream_read_delivers:
  assumes "ring_holds b (ss_ring st) pos q" and "tidy (pos + length (frames q)) b"
    and "ss_cache st = []" and "0 < ss_evt st"
  shows "\<exists>st' pos'. stream_read n st =
      Some (if concat q = [] then Inl SpuriousWakeup else Inr (take n (concat q)), st') \<and>
    ss_cache st' = drop n (concat q) \<and> ss_evt st' = 0 \<and> ring_holds b (ss_ring st') pos' []"
proof -
  from ring_drain_holds [OF assms(1,2), of "[]"] obtain rb pos' where
    "ring_drain [] (ss_ring st) = Some (concat q, rb)" "ring_holds b rb pos' []" by auto
  with assms(3,4) show ?thesis by (auto simp: stream_read_def deliver_def Let_def simp del: concat_eq_Nil_conv)
qed

section \<open>A concrete ring\<close>

theorem ring_is_bounded_queue_witness:
  "run_steps ring_step [RingWrite [1, 2, 3, 4, 5], RingWrite [6], RingWrite [7, 8], RingRead, RingWrite [7, 8], RingRead, RingRead]
     (ring_new 32 (replicate 20 0)) =
   [Written True, Written True, Written False, ReadAnswer (Some [1, 2, 3, 4, 5]), Written True,
    ReadAnswer (Some [6]), ReadAnswer (Some [7, 8])]"
proof -
  have "data_start < 32" "length (replicate 20 (0 :: u8)) = unat (32 - data_start)" by code_simp+
  from ring_is_bounded_queue [OF this, of "[RingWrite [1, 2, 3, 4, 5], RingWrite [6], RingWrite [7, 8], RingRead,
      RingWrite [7, 8], RingRead, RingRead]"]
  show ?thesis by simp
qed

theorem stream_read_delivers_witness:
  "\<exists>st. stream_read 3 \<lparr>ss_ring = snd (ring_write [1, 2, 3, 4, 5] (ring_new 32 (replicate 20 0))), ss_evt = 1, ss_cache = []\<rparr> =
     Some (Inr [1, 2, 3], st) \<and> ss_cache st = [4, 5]"
proof -
  have new: "data_start < 32" "length (replicate 20 (0 :: u8)) = unat (32 - data_start)" by code_simp+
  have t: "tidy m 20" if "m < 100" for m using that by (simp add: tidy_def)
  have h: "ring_holds 20 (snd (ring_write [1, 2, 3, 4, 5] (ring_new 32 (replicate 20 0)))) 0 [[1, 2, 3, 4, 5]]"
    using ring_write_holds [OF ring_new_holds [OF new], of "[1, 2, 3, 4, 5]"] t [of 4] by simp
  from stream_read_delivers [of 20 "\<lparr>ss_ring = snd (ring_write [1, 2, 3, 4, 5] (ring_new 32 (replicate 20 0))), ss_evt = 1,
      ss_cache = []\<rparr>" 0 "[[1, 2, 3, 4, 5]]" 3] h t
  show ?thesis by auto
qed

end
