(* ===== verification/Json.thy ===== *)
theory Json
  imports Prelude "HOL-Library.Char_ord" "HOL-Library.List_Lexorder"
begin

text \<open>
  JSON values as \<^verbatim>\<open>serde_json\<close> holds them, and the matching functions over them of
  \<^verbatim>\<open>crates/flow/src/triggers.rs\<close>. An object is the list of its entries in key order, as
  the library's tree map iterates over it. Numbers are kept by their text. Parsing and printing are
  the library's, so they are arguments where they are used.
\<close>

section \<open>Values\<close>

datatype json =
    JNull
  | JBool bool
  | JNum string
  | JStr string
  | JArr "json list"
  | JObj "(string \<times> json) list"

fun obj_insert :: "string \<Rightarrow> 'v \<Rightarrow> (string \<times> 'v) list \<Rightarrow> (string \<times> 'v) list" where
  "obj_insert k v [] = [(k, v)]"
| "obj_insert k v ((k', v') # o') =
     (if k < k' then (k, v) # (k', v') # o'
      else if k = k' then (k, v) # o' else (k', v') # obj_insert k v o')"

text \<open>\<open>Value::get\<close> with a string key.\<close>

fun json_get :: "string \<Rightarrow> json \<Rightarrow> json option" where
  "json_get k (JObj o') = map_of o' k"
| "json_get k _ = None"

fun json_as_str :: "json \<Rightarrow> string option" where
  "json_as_str (JStr s) = Some s"
| "json_as_str _ = None"

fun json_as_object :: "json \<Rightarrow> (string \<times> json) list option" where
  "json_as_object (JObj o') = Some o'"
| "json_as_object _ = None"

text \<open>Entries in strictly ascending key order, at every level.\<close>

inductive json_wf :: "json \<Rightarrow> bool" where
  "json_wf JNull"
| "json_wf (JBool b)"
| "json_wf (JNum n)"
| "json_wf (JStr s)"
| "(\<And>v. v \<in> set vs \<Longrightarrow> json_wf v) \<Longrightarrow> json_wf (JArr vs)"
| "sorted_wrt (<) (map fst o') \<Longrightarrow> (\<And>k v. (k, v) \<in> set o' \<Longrightarrow> json_wf v) \<Longrightarrow> json_wf (JObj o')"

inductive_simps json_wf_simps [simp]:
  "json_wf JNull" "json_wf (JBool b)" "json_wf (JNum n)" "json_wf (JStr s)" "json_wf (JArr vs)" "json_wf (JObj o')"

lemma obj_insert_map_of [simp]: "map_of (obj_insert k v o') = (map_of o')(k \<mapsto> v)"
  by (induction o') auto

lemma obj_insert_keys: "set (map fst (obj_insert k v o')) = insert k (set (map fst o'))"
  by (induction k v o' rule: obj_insert.induct) auto

lemma obj_insert_sorted: "sorted_wrt (<) (map fst o') \<Longrightarrow> sorted_wrt (<) (map fst (obj_insert k v o'))"
proof (induction o')
  case (Cons e o')
  obtain k' v' where e: "e = (k', v')" by (cases e)
  have "\<forall>x \<in> set (map fst (obj_insert k v o')). k' < x" if "\<not> k < k'" "k \<noteq> k'"
    using that Cons.prems by (simp only: obj_insert_keys) (auto simp: e)
  with Cons show ?case by (auto simp: e)
qed simp

lemma obj_insert_entries: "(k', v') \<in> set (obj_insert k v o') \<Longrightarrow> (k', v') = (k, v) \<or> (k', v') \<in> set o'"
  by (induction o') (auto split: if_splits)

lemma json_wf_insert: "json_wf (JObj o') \<Longrightarrow> json_wf v \<Longrightarrow> json_wf (JObj (obj_insert k v o'))"
  by (auto simp: obj_insert_sorted dest!: obj_insert_entries)

lemma sorted_keys_distinct: "sorted_wrt (<) (map fst o') \<Longrightarrow> keys_distinct (o' :: (string \<times> 'v) list)"
  by (simp add: strict_sorted_iff)

lemma json_wf_get: "json_wf (JObj o') \<Longrightarrow> map_of o' k = Some v \<Longrightarrow> json_wf v"
  by (auto dest: map_of_SomeD)

section \<open>Matching\<close>

text \<open>
  \<open>subset_match\<close> (filters) and \<open>json_subset\<close> (reference payloads): every entry of the first
  value occurs in the second; \<open>subset_match\<close> also searches inside the second value.
\<close>

lemma size_elem: "x \<in> set xs \<Longrightarrow> size x < Suc (size_list size xs)"
  by (induction xs) auto

lemma size_entry: "(k, v) \<in> set o' \<Longrightarrow> size v < Suc (size_list (size_prod (\<lambda>_. 0) size) o')"
  by (induction o') auto

lemma size_map_of: "map_of o' k = Some v \<Longrightarrow> size v < Suc (size_list (size_prod (\<lambda>_. 0) size) o')"
  by (auto dest: map_of_SomeD intro: size_entry)

lemmas json_sizes = size_elem size_entry size_map_of

function (sequential) subset_match :: "json \<Rightarrow> json \<Rightarrow> bool" where
  "subset_match (JObj f) (JObj p) =
     list_all (\<lambda>(key, f_val). case map_of p key of None \<Rightarrow> False | Some p_val \<Rightarrow> subset_match f_val p_val) f"
| "subset_match (JArr f) (JArr p) = list_all (\<lambda>f_val. list_ex (\<lambda>p_val. subset_match f_val p_val) p) f"
| "subset_match f (JObj p) = list_ex (\<lambda>(_, p_val). subset_match f p_val) p"
| "subset_match f (JArr p) = list_ex (\<lambda>p_val. subset_match f p_val) p"
| "subset_match f p = (f = p)"
  by pat_completeness auto
termination
proof (relation "measure (\<lambda>(f, p). size f + size p)", goal_cases)
  case (2 f p e key f_val p_val)
  then show ?case by (auto dest!: size_entry size_map_of)
next
  case (3 f p f_val p_val)
  then show ?case by (auto dest!: size_elem)
qed (auto dest!: size_elem size_entry)

function (sequential) json_subset :: "json \<Rightarrow> json \<Rightarrow> bool" where
  "json_subset (JObj r) (JObj t) =
     list_all (\<lambda>(key, ref_val). case map_of t key of None \<Rightarrow> False | Some thing_val \<Rightarrow> json_subset ref_val thing_val) r"
| "json_subset (JArr r) (JArr t) = list_all (\<lambda>ref_val. list_ex (\<lambda>thing_val. json_subset ref_val thing_val) t) r"
| "json_subset r t = (r = t)"
  by pat_completeness auto
termination
proof (relation "measure (\<lambda>(f, p). size f + size p)", goal_cases)
  case (2 r t e key ref_val thing_val)
  then show ?case by (auto dest!: size_entry size_map_of)
next
  case (3 r t ref_val thing_val)
  then show ?case by (auto dest!: size_elem)
qed auto

lemma subset_match_obj:
  "subset_match (JObj f) (JObj p) \<longleftrightarrow> (\<forall>(k, v) \<in> set f. \<exists>w. map_of p k = Some w \<and> subset_match v w)"
  by (auto simp: list_all_iff split: option.splits)

lemma subset_match_arr:
  "subset_match (JArr f) (JArr p) \<longleftrightarrow> (\<forall>v \<in> set f. \<exists>w \<in> set p. subset_match v w)"
  by (auto simp: list_all_iff list_ex_iff)

lemma json_subset_obj:
  "json_subset (JObj f) (JObj p) \<longleftrightarrow> (\<forall>(k, v) \<in> set f. \<exists>w. map_of p k = Some w \<and> json_subset v w)"
  by (auto simp: list_all_iff split: option.splits)

lemma json_subset_arr:
  "json_subset (JArr f) (JArr p) \<longleftrightarrow> (\<forall>v \<in> set f. \<exists>w \<in> set p. json_subset v w)"
  by (auto simp: list_all_iff list_ex_iff)

declare subset_match.simps(1,2) [simp del] json_subset.simps(1,2) [simp del]
lemmas json_match = subset_match_obj subset_match_arr json_subset_obj json_subset_arr

lemma json_subset_refl: "json_wf v \<Longrightarrow> json_subset v v"
proof (induction v rule: json_wf.induct)
  case (6 o')
  then show ?case
    by (auto simp: json_match dest: map_of_is_SomeI[OF sorted_keys_distinct])
qed (auto simp: json_match)

lemma json_subset_trans: "json_subset a b \<Longrightarrow> json_subset b c \<Longrightarrow> json_subset a c"
proof (induction a b arbitrary: c rule: json_subset.induct)
  case (1 r t)
  show ?case
  proof (cases c)
    case (JObj p)
    have "\<exists>w. map_of p k = Some w \<and> json_subset v w" if kv: "(k, v) \<in> set r" for k v
    proof -
      from 1(2) kv obtain u where u: "map_of t k = Some u" "json_subset v u" by (fastforce simp: json_match)
      from 1(3) u(1) obtain w where w: "map_of p k = Some w" "json_subset u w"
        by (fastforce simp: json_match JObj dest: map_of_SomeD)
      from 1(1)[OF kv refl u(1) u(2) w(2)] w(1) show ?thesis by blast
    qed
    then show ?thesis by (auto simp: JObj json_match)
  qed (use 1 in auto)
next
  case (2 r t)
  show ?case
  proof (cases c)
    case (JArr p)
    have "\<exists>w \<in> set p. json_subset v w" if v: "v \<in> set r" for v
    proof -
      from 2(2) v obtain u where u: "u \<in> set t" "json_subset v u" by (fastforce simp: json_match)
      from 2(3) u(1) obtain w where w: "w \<in> set p" "json_subset u w" by (fastforce simp: json_match JArr)
      from 2(1)[OF v u(1) u(2) w(2)] w(1) show ?thesis by blast
    qed
    then show ?thesis by (auto simp: JArr json_match)
  qed (use 2 in auto)
qed auto

lemma json_subset_match: "json_subset r t \<Longrightarrow> subset_match r t"
proof (induction r t rule: json_subset.induct)
  case (1 r t)
  then show ?case by (fastforce simp: json_match)
next
  case (2 r t)
  then show ?case by (fastforce simp: json_match)
qed (auto elim: subset_match.elims)

end
