(* ===== verification/Triggers.thy ===== *)
theory Triggers
  imports ScopedNames Events Json
begin

text \<open>
  Flow payloads (\<^verbatim>\<open>crates/ipc/src/ipc.rs\<close>) and the matching, merging and mapping
  functions of \<^verbatim>\<open>crates/flow/src/triggers.rs\<close>, with the resolution of a trigger's
  payload against the facet graph and the effect each trigger has. Parsing and printing JSON and
  the lossy decoding of bytes are the library's, an argument of what uses them.
\<close>

section \<open>Payloads\<close>

record json_lib =
  jl_parse :: "string \<Rightarrow> json option"
  jl_print :: "json \<Rightarrow> string"
  jl_lossy :: "u8 list \<Rightarrow> string"

text \<open>A value that is printed is read back, and what is read has its objects in key order.\<close>

definition json_lib_ok :: "json_lib \<Rightarrow> bool" where
  "json_lib_ok L \<longleftrightarrow>
     (\<forall>v. json_wf v \<longrightarrow> jl_parse L (jl_print L v) = Some v) \<and> (\<forall>s v. jl_parse L s = Some v \<longrightarrow> json_wf v)"

definition into_json :: "json_lib \<Rightarrow> string \<Rightarrow> json" where
  "into_json L s = (case jl_parse L s of Some v \<Rightarrow> v | None \<Rightarrow> JNull)"

datatype flow_payload = PJson string | PString string | PBytes "u8 list" | PNone bool

datatype flow_payload_type = TJson | TString | TBytes | TNone

datatype flow_match_operation = MatchEq ustr | MatchOptions "bool option" "ustr option" "json option"

fun to_string_payload :: "json_lib \<Rightarrow> flow_payload \<Rightarrow> string" where
  "to_string_payload L (PJson v) = v"
| "to_string_payload L (PString v) = v"
| "to_string_payload L (PBytes v) = jl_lossy L v"
| "to_string_payload L (PNone _) = []"

fun payload_from_json :: "json_lib \<Rightarrow> json option \<Rightarrow> flow_payload" where
  "payload_from_json L (Some (JStr s)) = PString s"
| "payload_from_json L (Some (JObj v)) = PJson (jl_print L (JObj v))"
| "payload_from_json L (Some (JArr v)) = PJson (jl_print L (JArr v))"
| "payload_from_json L (Some JNull) = PNone False"
| "payload_from_json L None = PNone False"
| "payload_from_json L (Some v) = PString (jl_print L v)"

fun payload_to_json :: "json_lib \<Rightarrow> flow_payload \<Rightarrow> json" where
  "payload_to_json L (PJson v) = into_json L v"
| "payload_to_json L (PString v) = JStr v"
| "payload_to_json L (PBytes v) = JStr (jl_lossy L v)"
| "payload_to_json L (PNone _) = JNull"

fun get_json_field :: "json_lib \<Rightarrow> string \<Rightarrow> flow_payload \<Rightarrow> json option" where
  "get_json_field L k (PJson s) = json_get k (into_json L s)"
| "get_json_field L k _ = None"

text \<open>\<open>str::contains\<close>\<close>

fun has_substring :: "string \<Rightarrow> string \<Rightarrow> bool" where
  "has_substring n [] = (n = [])"
| "has_substring n (c # cs) = (starts_with n (c # cs) \<or> has_substring n cs)"

fun payload_contains :: "string \<Rightarrow> flow_payload \<Rightarrow> bool" where
  "payload_contains needle (PString s) = has_substring needle s"
| "payload_contains needle (PJson s) = has_substring needle s"
| "payload_contains needle _ = False"

fun payload_set_json :: "json_lib \<Rightarrow> string \<Rightarrow> json \<Rightarrow> flow_payload \<Rightarrow> flow_payload" where
  "payload_set_json L k v (PJson s) =
     (case into_json L s of JObj o' \<Rightarrow> PJson (jl_print L (JObj (obj_insert k v o'))) | _ \<Rightarrow> PJson s)"
| "payload_set_json L k v p = p"

lemma into_json_print [simp]: "json_lib_ok L \<Longrightarrow> json_wf v \<Longrightarrow> into_json L (jl_print L v) = v"
  by (simp add: json_lib_ok_def into_json_def)

lemma json_wf_into_json [simp]: "json_lib_ok L \<Longrightarrow> json_wf (into_json L s)"
  by (auto simp: json_lib_ok_def into_json_def split: option.splits)

section \<open>Instances and conditions\<close>

datatype flow_type = ImpulseType | FacetType

record flow_instance =
  fi_name :: ustr
  fi_payload :: flow_payload
  fi_type :: flow_type

datatype flow_item =
    Simple ustr
  | Detailed "ustr option" "ustr option" "flow_match_operation option" "flow_match_operation option"

definition same_flow_name :: "ustr \<Rightarrow> ustr \<Rightarrow> bool" where
  "same_flow_name a b \<longleftrightarrow> a = b \<or> rslvns_snorm a = rslvns_snorm b"

fun match_operation :: "json_lib \<Rightarrow> flow_match_operation \<Rightarrow> flow_payload \<Rightarrow> bool" where
  "match_operation L (MatchEq v) payload = (to_string_payload L payload = v)"
| "match_operation L (MatchOptions binary contains as') payload =
     (if binary = Some True then (case payload of PBytes _ \<Rightarrow> True | _ \<Rightarrow> False)
      else case contains of
        Some needle \<Rightarrow> has_substring needle (to_string_payload L payload)
      | None \<Rightarrow> (case as' of Some f \<Rightarrow> subset_match f (payload_to_json L payload) | None \<Rightarrow> False))"

definition opt_match :: "json_lib \<Rightarrow> flow_match_operation option \<Rightarrow> flow_payload \<Rightarrow> bool" where
  "opt_match L m payload = (case m of None \<Rightarrow> True | Some op' \<Rightarrow> match_operation L op' payload)"

fun check_condition :: "json_lib \<Rightarrow> flow_item \<Rightarrow> flow_instance \<Rightarrow> bool" where
  "check_condition L (Simple name) trigger = same_flow_name name (fi_name trigger)"
| "check_condition L (Detailed (Some state_name) signal target branch) trigger =
     (if fi_type trigger \<noteq> FacetType \<or> \<not> same_flow_name state_name (fi_name trigger) then False
      else if \<not> opt_match L target (fi_payload trigger) then False
      else opt_match L branch (fi_payload trigger))"
| "check_condition L (Detailed None (Some sig_name) target branch) trigger =
     (if fi_type trigger \<noteq> ImpulseType \<or> \<not> same_flow_name sig_name (fi_name trigger) then False
      else if \<not> opt_match L target (fi_payload trigger) then False
      else opt_match L branch (fi_payload trigger))"
| "check_condition L (Detailed None None target branch) trigger = False"

text \<open>Scoped instances of one unit match a condition on any of them.\<close>

lemma same_flow_name_equiv: "equivp same_flow_name"
  by (rule equivpI) (auto simp: same_flow_name_def reflp_def symp_def transp_def)

section \<open>Keys, merging, mapping\<close>

fun json_branch_key :: "json_lib \<Rightarrow> json \<Rightarrow> ustr list \<Rightarrow> string list option" where
  "json_branch_key L (JObj obj) [] = Some []"
| "json_branch_key L (JObj obj) (k # ks) =
     (case map_of obj k of None \<Rightarrow> None
      | Some v \<Rightarrow> map_option (\<lambda>out. jl_print L v # out) (json_branch_key L (JObj obj) ks))"
| "json_branch_key L _ ks = None"

fun merge_entries :: "string \<Rightarrow> (string \<times> json) list \<Rightarrow> (string \<times> json) list \<Rightarrow> (string \<times> json) list" where
  "merge_entries forced [] a = a"
| "merge_entries forced ((k, v) # b) a =
     (if forced = k then merge_entries forced b a
      else case strip_prefix ''&'' k of
        Some x \<Rightarrow> merge_entries x b (obj_insert x v a)
      | None \<Rightarrow> merge_entries forced b (obj_insert k v a))"

fun merge_json :: "json \<Rightarrow> json \<Rightarrow> json" where
  "merge_json (JObj a) (JObj b) = JObj (merge_entries [] b a)"
| "merge_json a b = a"

fun payload_signature :: "flow_payload option \<Rightarrow> string" where
  "payload_signature (Some (PJson v)) = ''json:'' @ v"
| "payload_signature (Some (PString v)) = ''str:'' @ v"
| "payload_signature (Some (PBytes v)) = ''bytes:'' @ show_nat (length v)"
| "payload_signature (Some (PNone _)) = ''none''"
| "payload_signature None = ''none''"

fun payload_to_filter :: "json_lib \<Rightarrow> flow_payload \<Rightarrow> flow_match_operation option" where
  "payload_to_filter L (PJson i) = Some (MatchOptions None None (Some (into_json L i)))"
| "payload_to_filter L (PString i) = Some (MatchEq i)"
| "payload_to_filter L (PBytes _) = None"
| "payload_to_filter L (PNone _) = None"

fun default_payload_for_type :: "json_lib \<Rightarrow> flow_payload_type \<Rightarrow> flow_payload" where
  "default_payload_for_type L TJson = PJson (jl_print L (JObj []))"
| "default_payload_for_type L TString = PString []"
| "default_payload_for_type L TBytes = PBytes []"
| "default_payload_for_type L TNone = PNone False"

definition branch_target_key :: "string \<Rightarrow> string" where
  "branch_target_key spec = (case split_once (CHR '':'') spec of Some (target, _) \<Rightarrow> trim target | None \<Rightarrow> spec)"

definition branch_source_key :: "string \<Rightarrow> string" where
  "branch_source_key spec = (case split_once (CHR '':'') spec of Some (_, source) \<Rightarrow> trim source | None \<Rightarrow> spec)"

fun map_specs :: "ustr list \<Rightarrow> (string \<times> json) list \<Rightarrow> (string \<times> json) list \<Rightarrow> (string \<times> json) list option" where
  "map_specs [] source_obj mapped = Some mapped"
| "map_specs (spec # specs) source_obj mapped =
     (case map_of source_obj (branch_source_key spec) of
        None \<Rightarrow> None
      | Some value' \<Rightarrow> map_specs specs source_obj (obj_insert (branch_target_key spec) value' mapped))"

fun map_json_payload :: "json_lib \<Rightarrow> ustr list \<Rightarrow> flow_payload \<Rightarrow> flow_payload option" where
  "map_json_payload L branch_specs (PJson source_json) =
     (case json_as_object (into_json L source_json) of
        None \<Rightarrow> None
      | Some source_obj \<Rightarrow>
          map_option (\<lambda>mapped. PJson (jl_print L (JObj mapped))) (map_specs branch_specs source_obj []))"
| "map_json_payload L branch_specs _ = None"

fun payload_compatible :: "json_lib \<Rightarrow> flow_payload option \<Rightarrow> flow_payload \<Rightarrow> bool" where
  "payload_compatible L None thing = True"
| "payload_compatible L (Some (PJson a)) (PJson b) = json_subset (into_json L a) (into_json L b)"
| "payload_compatible L (Some (PString a)) (PString b) = (a = b)"
| "payload_compatible L (Some _) thing = True"

section \<open>What a trigger does\<close>

record trigger =
  tr_hook :: "ustr option"
  tr_script :: "ustr option"
  tr_exec :: "ustr option"
  tr_args :: "ustr list option"
  tr_facet :: "ustr option"
  tr_impulse :: "ustr option"
  tr_service :: "ustr option"
  tr_timer :: "ustr option"
  tr_socket :: "ustr option"
  tr_stop :: "bool option"
  tr_payload :: "json option"
  tr_action :: "ustr option"

type_synonym facet_map = "(ustr \<times> flow_instance list) list"

definition resolve_path :: "json_lib \<Rightarrow> flow_instance \<Rightarrow> string \<Rightarrow> string" where
  "resolve_path L branch path =
     (case fi_payload branch of
        PJson j \<Rightarrow>
          (let cur = fold (\<lambda>key cur. case json_get key cur of Some val \<Rightarrow> val | None \<Rightarrow> cur)
                       (split_char (CHR ''/'') path) (into_json L j)
           in case json_as_str cur of Some st \<Rightarrow> st | None \<Rightarrow> jl_print L cur)
      | p \<Rightarrow> to_string_payload L p)"

text \<open>The facet named by the first value of the form \<open>facet:state:..\<close>.\<close>

fun primary_state :: "json list \<Rightarrow> string option" where
  "primary_state [] = None"
| "primary_state (v # vs) =
     (case Option.bind (json_as_str v) (strip_prefix ''facet:'') of
        None \<Rightarrow> primary_state vs
      | Some spec \<Rightarrow> (case rsplit_once (CHR '':'') spec of None \<Rightarrow> primary_state vs | Some (st, _) \<Rightarrow> Some st))"

definition resolve_value :: "json_lib \<Rightarrow> facet_map \<Rightarrow> string \<Rightarrow> flow_instance \<Rightarrow> json \<Rightarrow> json" where
  "resolve_value L facets state_name branch v =
     (case Option.bind (Option.bind (json_as_str v) (strip_prefix ''facet:'')) (split_once (CHR ''/'')) of
        None \<Rightarrow> v
      | Some (s_name, path) \<Rightarrow>
          (case (if s_name = state_name then Some branch
                 else (case map_of facets s_name of Some (b # _) \<Rightarrow> Some b | _ \<Rightarrow> None)) of
             Some b \<Rightarrow> JStr (resolve_path L b path)
           | None \<Rightarrow> v))"

definition branches_of :: "facet_map \<Rightarrow> ustr \<Rightarrow> flow_instance list" where
  "branches_of facets name = (case map_of facets name of Some bs \<Rightarrow> bs | None \<Rightarrow> [])"

definition resolved_triggers :: "json_lib \<Rightarrow> facet_map option \<Rightarrow> trigger \<Rightarrow> trigger list" where
  "resolved_triggers L sm trigger =
     (case sm of None \<Rightarrow> [trigger]
      | Some facets \<Rightarrow>
          (case tr_payload trigger of
             Some (JStr s) \<Rightarrow>
               (case rsplit_once (CHR '':'') s of
                  Some (state_name, path) \<Rightarrow>
                    map (\<lambda>branch. trigger\<lparr>tr_payload := Some (JStr (resolve_path L branch path))\<rparr>)
                      (branches_of facets state_name)
                | None \<Rightarrow> [trigger])
           | Some (JObj m) \<Rightarrow>
               (case primary_state (map snd m) of
                  Some state_name \<Rightarrow>
                    map (\<lambda>branch. trigger\<lparr>tr_payload :=
                           Some (JObj (map (\<lambda>(k, v). (k, resolve_value L facets state_name branch v)) m))\<rparr>)
                      (branches_of facets state_name)
                | None \<Rightarrow> [trigger])
           | _ \<Rightarrow> [trigger]))"

text \<open>
  The effects: a process started, an action dispatched to the flow runtime, a start or stop
  dispatched to another runtime, hooks run, a registered action dispatched with its payload.
\<close>

datatype flow_effect =
    RunScript ustr
  | RunExec ustr "ustr list"
  | SetFacet ustr "json option"
  | EmitImpulse ustr "json option"
  | StartStop string bool ustr
  | RunHooks bool ustr
  | RunAction string string "ustr option" "ustr list option" "bool option"

definition trigger_effect ::
  "(ustr \<rightharpoonup> ustr) option \<Rightarrow> bool \<Rightarrow> trigger \<Rightarrow> flow_effect option" where
  "trigger_effect actions has_log t =
     (let stop = (tr_stop t = Some True) in
      case tr_script t of Some script \<Rightarrow> Some (RunScript script) | None \<Rightarrow>
      (case tr_exec t of Some exec \<Rightarrow> Some (RunExec exec (case tr_args t of Some args \<Rightarrow> args | None \<Rightarrow> [])) | None \<Rightarrow>
      (case tr_facet t of Some facet \<Rightarrow> Some (SetFacet facet (tr_payload t)) | None \<Rightarrow>
      (case tr_impulse t of Some signal \<Rightarrow> Some (EmitImpulse signal (tr_payload t)) | None \<Rightarrow>
      (case tr_service t of Some service \<Rightarrow> Some (StartStop ''services'' stop service) | None \<Rightarrow>
      (case (if has_log then tr_hook t else None) of Some hook \<Rightarrow> Some (RunHooks stop hook) | None \<Rightarrow>
      (case tr_timer t of Some timer \<Rightarrow> Some (StartStop ''timer'' stop timer) | None \<Rightarrow>
      (case tr_socket t of Some socket \<Rightarrow> Some (StartStop ''sockets'' stop socket) | None \<Rightarrow>
      (case Option.bind (tr_action t) (\<lambda>a. Option.bind actions (\<lambda>acts. acts a)) of
         None \<Rightarrow> None
       | Some runtime \<Rightarrow>
           (case split_once (CHR '':'') runtime of
              None \<Rightarrow> None
            | Some (rt, act) \<Rightarrow> Some (RunAction rt act (tr_exec t) (tr_args t) (tr_stop t))))))))))))"

definition trigger_events ::
  "json_lib \<Rightarrow> (ustr \<rightharpoonup> ustr) option \<Rightarrow> trigger list \<Rightarrow> facet_map option \<Rightarrow> bool \<Rightarrow> flow_effect list" where
  "trigger_events L actions triggers sm has_log =
     List.map_filter (trigger_effect actions has_log) (concat (map (resolved_triggers L sm) triggers))"

section \<open>Merging\<close>

text \<open>Keys that are ordinary: not empty and without the forcing mark.\<close>

definition plain_keys :: "(string \<times> json) list \<Rightarrow> bool" where
  "plain_keys b \<longleftrightarrow> (\<forall>k \<in> fst ` set b. k \<noteq> [] \<and> strip_prefix ''&'' k = None)"

lemma merge_entries_sorted: "sorted_wrt (<) (map fst a) \<Longrightarrow> sorted_wrt (<) (map fst (merge_entries fc b a))"
  by (induction fc b a rule: merge_entries.induct) (simp_all add: obj_insert_sorted split: option.splits)

lemma merge_entries_wf: "json_wf (JObj a) \<Longrightarrow> (\<And>k v. (k, v) \<in> set b \<Longrightarrow> json_wf v) \<Longrightarrow> json_wf (JObj (merge_entries fc b a))"
proof (induction fc b a rule: merge_entries.induct)
  case (2 fc k v b a)
  have w: "json_wf v" "\<And>k v. (k, v) \<in> set b \<Longrightarrow> json_wf v" using "2.prems"(2) by auto
  show ?case
  proof (cases "fc = k")
    case True
    with 2 w show ?thesis by (simp del: json_wf_simps)
  next
    case False
    with 2 w show ?thesis
      by (simp del: json_wf_simps add: json_wf_insert split: option.split)
  qed
qed simp

lemma json_wf_merge: "json_wf a \<Longrightarrow> json_wf b \<Longrightarrow> json_wf (merge_json a b)"
proof (cases "(a, b)" rule: merge_json.cases)
  case (1 x y)
  moreover assume "json_wf a" "json_wf b"
  ultimately have "json_wf (JObj x)" "\<And>k v. (k, v) \<in> set y \<Longrightarrow> json_wf v" by auto
  from merge_entries_wf [OF this] 1 show ?thesis by (simp del: json_wf_simps)
qed auto

lemma merge_entries_plain:
  assumes "plain_keys b" "keys_distinct b"
  shows "map_of (merge_entries [] b a) k = (case map_of b k of Some v \<Rightarrow> Some v | None \<Rightarrow> map_of a k)"
  using assms
proof (induction b arbitrary: a)
  case (Cons e b)
  obtain k' v' where e: "e = (k', v')" by (cases e)
  from Cons.prems have "plain_keys b" "keys_distinct b" "k' \<notin> fst ` set b" "k' \<noteq> []" "strip_prefix ''&'' k' = None"
    by (auto simp: plain_keys_def e)
  with Cons.IH [OF this(1,2), of "obj_insert k' v' a"] show ?case
    by (cases "k = k'") (simp_all add: e map_of_eq_None_iff [THEN iffD2] split: option.split)
qed simp

lemma strip_prefix_cons [simp]: "strip_prefix (x # p) (y # s) = (if x = y then strip_prefix p s else None)"
  by (simp add: strip_prefix_def starts_with_def)

lemma strip_prefix_empty [simp]: "strip_prefix [] s = Some s" "strip_prefix (x # p) [] = None"
  by (simp_all add: strip_prefix_def starts_with_def)

section \<open>Mapping\<close>

lemma map_specs_result:
  assumes "map_specs specs src acc = Some m"
    and "spec \<in> set specs" and "distinct (map branch_target_key specs)"
  shows "map_of m (branch_target_key spec) = map_of src (branch_source_key spec)
         \<and> map_of m (branch_target_key spec) \<noteq> None"
proof -
  have keep: "map_of m t = map_of acc t"
    if "map_specs specs src acc = Some m" "t \<notin> branch_target_key ` set specs" for specs acc t
    using that by (induction specs arbitrary: acc) (auto split: option.splits)
  show ?thesis using assms
  proof (induction specs arbitrary: acc)
    case (Cons x specs)
    then obtain v where v: "map_of src (branch_source_key x) = Some v"
      "map_specs specs src (obj_insert (branch_target_key x) v acc) = Some m"
      by (auto split: option.splits)
    show ?case
    proof (cases "spec = x")
      case True
      with keep [OF v(2), of "branch_target_key x"] Cons.prems(3) v(1) show ?thesis by simp
    next
      case False
      with Cons.IH [OF v(2)] Cons.prems show ?thesis by auto
    qed
  qed simp
qed

lemma map_specs_wf:
  "map_specs specs src acc = Some m \<Longrightarrow> json_wf (JObj src) \<Longrightarrow> json_wf (JObj acc) \<Longrightarrow> json_wf (JObj m)"
proof (induction specs arbitrary: acc)
  case (Cons x specs)
  then obtain v where v: "map_of src (branch_source_key x) = Some v"
    "map_specs specs src (obj_insert (branch_target_key x) v acc) = Some m"
    by (auto split: option.splits)
  show ?case
    by (rule Cons.IH [OF v(2) Cons.prems(2) json_wf_insert [OF Cons.prems(3) json_wf_get [OF Cons.prems(2) v(1)]]])
qed simp

lemma json_branch_key_map:
  "json_branch_key L (JObj m) ks = (if \<forall>k \<in> set ks. map_of m k \<noteq> None then Some (map (\<lambda>k. jl_print L (the (map_of m k))) ks) else None)"
  by (induction ks) (auto split: option.splits)

section \<open>Filters\<close>

lemma json_wf_as_object: "json_wf v \<Longrightarrow> json_as_object v = Some o' \<Longrightarrow> json_wf (JObj o')"
  by (cases v) auto

text \<open>What is compatible with a payload is matched by the filter made of it.\<close>

lemma compatible_matches:
  "payload_to_filter L p = Some f \<Longrightarrow> payload_compatible L (Some p) q \<Longrightarrow>
   (case (p, q) of (PJson _, PJson _) \<Rightarrow> True | (PString _, PString _) \<Rightarrow> True | _ \<Rightarrow> False) \<Longrightarrow> match_operation L f q"
  by (cases p; cases q) (auto simp: json_subset_match)

section \<open>A concrete codec\<close>

text \<open>
  The hypothesis on the library is met by an actual printer and parser: a prefix code, not JSON's
  concrete syntax, on which the witnesses evaluate.
\<close>

fun json_ok :: "json \<Rightarrow> bool" where
  "json_ok (JArr vs) = list_all json_ok vs"
| "json_ok (JObj o') = (sorted_wrt (<) (map fst o') \<and> list_all (\<lambda>(_, v). json_ok v) o')"
| "json_ok v = True"

lemma json_ok_wf: "json_ok v = json_wf v"
  by (induction v rule: json_ok.induct) (auto simp: list_all_iff)

fun enc_str :: "string \<Rightarrow> string" where
  "enc_str [] = '';''"
| "enc_str (c # s) = CHR '','' # c # enc_str s"

fun dec_str :: "string \<Rightarrow> (string \<times> string) option" where
  "dec_str (x # c # r) = (if x = CHR '';'' then Some ([], c # r) else map_option (\<lambda>(s, t). (c # s, t)) (dec_str r))"
| "dec_str [x] = (if x = CHR '';'' then Some ([], []) else None)"
| "dec_str [] = None"

lemma dec_enc_str [simp]: "dec_str (enc_str s @ r) = Some (s, r)"
proof (induction s)
  case Nil
  then show ?case by (cases r) auto
qed simp

fun demo_print :: "json \<Rightarrow> string" where
  "demo_print JNull = ''n''"
| "demo_print (JBool b) = (if b then ''t'' else ''f'')"
| "demo_print (JNum s) = CHR ''#'' # enc_str s"
| "demo_print (JStr s) = CHR ''s'' # enc_str s"
| "demo_print (JArr vs) = CHR ''['' # concat (map (\<lambda>v. CHR '','' # demo_print v) vs) @ '';''"
| "demo_print (JObj o') = CHR ''{'' # concat (map (\<lambda>(k, v). CHR '','' # enc_str k @ demo_print v) o') @ '';''"

fun demo_json_dec :: "string \<Rightarrow> string \<Rightarrow> (json \<times> string) option"
  and demo_decs :: "string \<Rightarrow> string \<Rightarrow> (json list \<times> string) option"
  and demo_deco :: "string \<Rightarrow> string \<Rightarrow> ((string \<times> json) list \<times> string) option" where
  "demo_json_dec (f # n) (x # r) =
     (if x = CHR ''n'' then Some (JNull, r)
      else if x = CHR ''t'' then Some (JBool True, r)
      else if x = CHR ''f'' then Some (JBool False, r)
      else if x = CHR ''#'' then map_option (map_prod JNum id) (dec_str r)
      else if x = CHR ''s'' then map_option (map_prod JStr id) (dec_str r)
      else if x = CHR ''['' then map_option (map_prod JArr id) (demo_decs n r)
      else if x = CHR ''{'' then map_option (map_prod JObj id) (demo_deco n r)
      else None)"
| "demo_json_dec _ _ = None"
| "demo_decs (f # n) (x # r) =
     (if x = CHR '';'' then Some ([], r)
      else Option.bind (demo_json_dec n r) (\<lambda>(v, r'). map_option (map_prod (Cons v) id) (demo_decs n r')))"
| "demo_decs _ _ = None"
| "demo_deco (f # n) (x # r) =
     (if x = CHR '';'' then Some ([], r)
      else Option.bind (dec_str r) (\<lambda>(k, r'). Option.bind (demo_json_dec n r')
             (\<lambda>(v, r''). map_option (map_prod (Cons (k, v)) id) (demo_deco n r''))))"
| "demo_deco _ _ = None"

definition demo_parse :: "string \<Rightarrow> json option" where
  "demo_parse s = (case demo_json_dec s s of Some (v, []) \<Rightarrow> (if json_ok v then Some v else None) | _ \<Rightarrow> None)"

lemma demo_print_pos: "demo_print v \<noteq> []"
  by (cases v) auto

lemma demo_decs_print:
  "(\<And>v n r. v \<in> set ws \<Longrightarrow> length (demo_print v) \<le> length n \<Longrightarrow> demo_json_dec n (demo_print v @ r) = Some (v, r)) \<Longrightarrow>
   length (concat (map (\<lambda>v. CHR '','' # demo_print v) ws)) < length n \<Longrightarrow>
   demo_decs n (concat (map (\<lambda>v. CHR '','' # demo_print v) ws) @ CHR '';'' # r) = Some (ws, r)"
proof (induction ws arbitrary: n)
  case Nil
  then show ?case by (cases n) auto
next
  case (Cons w ws)
  obtain f m where n: "n = f # m" using Cons.prems(2) by (cases n) auto
  have "demo_decs m (concat (map (\<lambda>v. CHR '','' # demo_print v) ws) @ CHR '';'' # r) = Some (ws, r)"
    by (rule Cons.IH) (use Cons.prems n in auto)
  moreover have "demo_json_dec m (demo_print w @ t) = Some (w, t)" for t
    by (rule Cons.prems(1)) (use Cons.prems(2) n in auto)
  ultimately show ?case by (simp add: n)
qed

lemma demo_deco_print:
  "(\<And>k v n r. (k, v) \<in> set ws \<Longrightarrow> length (demo_print v) \<le> length n \<Longrightarrow> demo_json_dec n (demo_print v @ r) = Some (v, r)) \<Longrightarrow>
   length (concat (map (\<lambda>(k, v). CHR '','' # enc_str k @ demo_print v) ws)) < length n \<Longrightarrow>
   demo_deco n (concat (map (\<lambda>(k, v). CHR '','' # enc_str k @ demo_print v) ws) @ CHR '';'' # r) = Some (ws, r)"
proof (induction ws arbitrary: n)
  case Nil
  then show ?case by (cases n) auto
next
  case (Cons w ws)
  obtain k v where w: "w = (k, v)" by (cases w)
  obtain f m where n: "n = f # m" using Cons.prems(2) by (cases n) auto
  have "demo_deco m (concat (map (\<lambda>(k, v). CHR '','' # enc_str k @ demo_print v) ws) @ CHR '';'' # r) = Some (ws, r)"
    by (rule Cons.IH) (use Cons.prems n w in auto)
  moreover have "demo_json_dec m (demo_print v @ t) = Some (v, t)" for t
    by (rule Cons.prems(1) [of k]) (use Cons.prems(2) n w in auto)
  ultimately show ?case by (simp add: n w)
qed

lemma demo_dec_print: "length (demo_print v) \<le> length n \<Longrightarrow> demo_json_dec n (demo_print v @ r) = Some (v, r)"
proof (induction v arbitrary: n r rule: demo_print.induct)
  case (5 vs)
  obtain f m where n: "n = f # m" using "5.prems" by (cases n) auto
  have "demo_decs m (concat (map (\<lambda>v. CHR '','' # demo_print v) vs) @ CHR '';'' # r) = Some (vs, r)"
    by (rule demo_decs_print) (use "5.IH" "5.prems" n in auto)
  then show ?case by (simp add: n)
next
  case (6 o')
  obtain f m where n: "n = f # m" using "6.prems" by (cases n) auto
  have "demo_deco m (concat (map (\<lambda>(k, v). CHR '','' # enc_str k @ demo_print v) o') @ CHR '';'' # r) = Some (o', r)"
    by (rule demo_deco_print) (use "6.IH" "6.prems" n in auto)
  then show ?case by (simp add: n)
next
  case (3 s)
  then show ?case by (cases n) auto
next
  case (4 s)
  then show ?case by (cases n) auto
qed (auto simp: Suc_le_eq gr0_conv_Suc length_Suc_conv)

lemma demo_parse_print: "json_wf v \<Longrightarrow> demo_parse (demo_print v) = Some v"
  using demo_dec_print [of v "demo_print v" "[]"] by (simp add: demo_parse_def json_ok_wf)

lemma demo_parse_wf: "demo_parse s = Some v \<Longrightarrow> json_wf v"
  by (auto simp: demo_parse_def json_ok_wf split: option.splits list.splits if_splits)

definition demo_lib :: json_lib where
  "demo_lib = \<lparr>jl_parse = demo_parse, jl_print = demo_print, jl_lossy = map (\<lambda>b. char_of (unat b))\<rparr>"

lemma demo_lib_ok: "json_lib_ok demo_lib"
  using demo_parse_print demo_parse_wf by (simp add: json_lib_ok_def demo_lib_def)

section \<open>Properties\<close>

text \<open>
  Merging a payload into a branch keeps an object in key order; without
  forcing keys the new entries replace the old ones and all others stay, so that a filter made of
  the new payload matches the merged branch. The merge is shallow.
\<close>

theorem merge_json_overrides:
  assumes "json_wf (JObj a)" "json_wf (JObj b)" "plain_keys b"
  shows "\<exists>m. merge_json (JObj a) (JObj b) = JObj m \<and> json_wf (JObj m)
         \<and> (\<forall>k. map_of m k = (case map_of b k of Some v \<Rightarrow> Some v | None \<Rightarrow> map_of a k))
         \<and> json_subset (JObj b) (JObj m)"
proof -
  define m where "m = merge_entries [] b a"
  have d: "keys_distinct b" using assms(2) by (simp add: sorted_keys_distinct)
  have m: "merge_json (JObj a) (JObj b) = JObj m" by (simp add: m_def)
  have mo: "map_of m k = (case map_of b k of Some v \<Rightarrow> Some v | None \<Rightarrow> map_of a k)" for k
    unfolding m_def by (rule merge_entries_plain [OF assms(3) d])
  have "json_subset v v" if "(k, v) \<in> set b" for k v
    using assms(2) that by (intro json_subset_refl) auto
  then have "json_subset (JObj b) (JObj m)"
    using d by (fastforce simp: json_match mo)
  with m mo json_wf_merge [OF assms(1,2)] show ?thesis by auto
qed

theorem merge_json_overrides_witness:
  "\<exists>m. merge_json (JObj [(''id'', JNum ''1'')]) (JObj [(''a'', JNull)]) = JObj m \<and> json_wf (JObj m)
     \<and> (\<forall>k. map_of m k = (case map_of [(''a'', JNull)] k of Some v \<Rightarrow> Some v | None \<Rightarrow> map_of [(''id'', JNum ''1'')] k))
     \<and> json_subset (JObj [(''a'', JNull)]) (JObj m)"
  by (rule merge_json_overrides) (auto simp: plain_keys_def strip_prefix_def starts_with_def)

text \<open>
  A forcing key \<open>&k\<close> is meant to win over \<open>k\<close> in the same payload. It does so only
  until the next forcing key: with two of them the first one is overwritten.
\<close>

theorem merge_forced_last_only:
  fixes a v w x y :: json
  shows "merge_json (JObj []) (JObj [(''&a'', v), (''a'', x)]) = JObj [(''a'', v)]
    \<and> merge_json (JObj []) (JObj [(''&a'', v), (''&b'', w), (''a'', x), (''b'', y)]) = JObj [(''a'', x), (''b'', w)]"
  by (simp_all add: less_char_def)

text \<open>
  A payload mapped along branch specifications carries every target key, with the value its source
  has under the source key; so the facet it is applied to finds its branch keys in it.
\<close>

theorem mapped_payload_has_keys:
  assumes "json_lib_ok L" "map_json_payload L specs src = Some p" "distinct (map branch_target_key specs)"
  shows "json_branch_key L (payload_to_json L p) (map branch_target_key specs)
           = json_branch_key L (payload_to_json L src) (map branch_source_key specs)
         \<and> json_branch_key L (payload_to_json L p) (map branch_target_key specs) \<noteq> None"
proof -
  from assms(2) obtain j o' m where j: "src = PJson j" "into_json L j = JObj o'" "map_specs specs o' [] = Some m"
    "p = PJson (jl_print L (JObj m))"
    by (cases src) (auto split: option.splits elim: json_as_object.elims)
  have wo: "json_wf (JObj o')" using json_wf_into_json [OF assms(1), of j] j(2) by simp
  have "json_wf (JObj m)" by (rule map_specs_wf [OF j(3) wo]) simp
  then have pj: "payload_to_json L p = JObj m" by (simp add: j(4) assms(1) del: json_wf_simps)
  have "map_of m (branch_target_key s) = map_of o' (branch_source_key s) \<and> map_of m (branch_target_key s) \<noteq> None"
    if "s \<in> set specs" for s by (rule map_specs_result [OF j(3) that assms(3)])
  then have "\<forall>s \<in> set specs. map_of m (branch_target_key s) = map_of o' (branch_source_key s)"
    "\<forall>s \<in> set specs. map_of o' (branch_source_key s) \<noteq> None" by metis+
  then show ?thesis by (simp add: pj j(1,2) json_branch_key_map cong: map_cong)
qed

definition demo_seat :: flow_payload where
  "demo_seat = PJson (demo_print (JObj [(''seat'', JStr ''1'')]))"

definition demo_tty :: flow_payload where
  "demo_tty = PJson (demo_print (JObj [(''tty'', JStr ''1'')]))"

lemma demo_mapped: "map_json_payload demo_lib [''tty:seat''] demo_seat = Some demo_tty"
  by code_simp

theorem mapped_payload_has_keys_witness:
  "json_branch_key demo_lib (payload_to_json demo_lib demo_tty) (map branch_target_key [''tty:seat''])
     = json_branch_key demo_lib (payload_to_json demo_lib demo_seat) (map branch_source_key [''tty:seat''])
   \<and> json_branch_key demo_lib (payload_to_json demo_lib demo_tty) (map branch_target_key [''tty:seat'']) \<noteq> None"
  by (rule mapped_payload_has_keys [OF demo_lib_ok demo_mapped]) simp

text \<open>
  Filters and reference payloads. \<open>json_subset\<close> is a preorder on values; a payload that is
  compatible with a reference payload of the same kind is matched by the filter made of the
  reference, so what a reconciliation finds active it also removes.
\<close>

theorem filter_covers_compatible:
  assumes "json_lib_ok L"
  shows "payload_compatible L (Some p) p
    \<and> (payload_compatible L (Some (PJson a)) (PJson b) \<and> payload_compatible L (Some (PJson b)) (PJson c) \<longrightarrow>
         payload_compatible L (Some (PJson a)) (PJson c))
    \<and> (payload_compatible L (Some (PJson a)) (PJson b) \<longrightarrow>
         (\<exists>f. payload_to_filter L (PJson a) = Some f \<and> match_operation L f (PJson b)))"
proof (intro conjI impI)
  show "payload_compatible L (Some p) p"
    by (cases p) (simp_all add: json_subset_refl [OF json_wf_into_json [OF assms]])
  show "payload_compatible L (Some (PJson a)) (PJson c)"
    if "payload_compatible L (Some (PJson a)) (PJson b) \<and> payload_compatible L (Some (PJson b)) (PJson c)"
    using that by (auto intro: json_subset_trans)
  show "\<exists>f. payload_to_filter L (PJson a) = Some f \<and> match_operation L f (PJson b)"
    if "payload_compatible L (Some (PJson a)) (PJson b)"
    using that by (auto simp: json_subset_match)
qed

theorem filter_covers_compatible_witness:
  "payload_compatible demo_lib (Some demo_tty) demo_tty
   \<and> payload_compatible demo_lib (Some (PJson ''{;'')) (PJson ''{,,a;n,,b;n;'')
   \<and> (\<exists>f. payload_to_filter demo_lib (PJson ''{;'') = Some f \<and> match_operation demo_lib f (PJson ''{,,a;n;''))"
proof -
  have "payload_compatible demo_lib (Some (PJson ''{;'')) (PJson ''{,,a;n;'')"
       "payload_compatible demo_lib (Some (PJson ''{,,a;n;'')) (PJson ''{,,a;n,,b;n;'')" by code_simp+
  with filter_covers_compatible [OF demo_lib_ok, of demo_tty "''{;''" "''{,,a;n;''" "''{,,a;n,,b;n;''"]
  show ?thesis by blast
qed

text \<open>
  What a list of triggers does: a trigger without a facet graph, or whose payload has no reference,
  acts once with its payload unchanged; one whose text payload has a colon is read as a reference
  and acts once per branch of the facet named before the last colon, so with no such facet it does
  nothing, whatever the text was meant to be.
\<close>

theorem trigger_events_effects:
  "trigger_events L actions (t # us) sm lg = trigger_events L actions [t] sm lg @ trigger_events L actions us sm lg
   \<and> (tr_payload t = Some (JStr s) \<and> rsplit_once (CHR '':'') s = Some (st, path) \<longrightarrow>
      trigger_events L actions [t] (Some facets) lg =
        List.map_filter (\<lambda>b. trigger_effect actions lg (t\<lparr>tr_payload := Some (JStr (resolve_path L b path))\<rparr>))
          (branches_of facets st))
   \<and> (tr_payload t = Some (JStr s) \<and> CHR '':'' \<notin> set s \<longrightarrow>
      trigger_events L actions [t] sm lg = (case trigger_effect actions lg t of None \<Rightarrow> [] | Some e \<Rightarrow> [e]))"
  by (auto simp: trigger_events_def resolved_triggers_def List.map_filter_def comp_def filter_map
        rsplit_once_def split: option.splits)

definition demo_trigger :: "string \<Rightarrow> trigger" where
  "demo_trigger s =
     \<lparr>tr_hook = None, tr_script = None, tr_exec = None, tr_args = None, tr_facet = None, tr_impulse = Some ''g:up'',
      tr_service = None, tr_timer = None, tr_socket = None, tr_stop = None, tr_payload = Some (JStr s), tr_action = None\<rparr>"

theorem trigger_events_effects_witness:
  "trigger_events demo_lib None [demo_trigger ''http://x''] (Some []) False = []
   \<and> trigger_events demo_lib None [demo_trigger ''online''] (Some []) False = [EmitImpulse ''g:up'' (Some (JStr ''online''))]"
proof -
  have r: "rsplit_once (CHR '':'') ''http://x'' = Some (''http'', ''//x'')" by code_simp
  have "CHR '':'' \<notin> set ''online''" by simp
  moreover have "tr_payload (demo_trigger s) = Some (JStr s)" for s by (simp add: demo_trigger_def)
  moreover have "trigger_effect None False (demo_trigger ''online'') = Some (EmitImpulse ''g:up'' (Some (JStr ''online'')))"
    by (simp add: trigger_effect_def demo_trigger_def)
  ultimately show ?thesis
    using trigger_events_effects [of demo_lib None "demo_trigger ''http://x''" "[]" "Some []" False "''http://x''" "''http''" "''//x''" "[]"]
      trigger_events_effects [of demo_lib None "demo_trigger ''online''" "[]" "Some []" False "''online''" "[]" "[]" "[]"] r
    by (simp add: branches_of_def)
qed

text \<open>
  A custom action is dispatched with the trigger's program and arguments, but a trigger with a
  program runs it instead: no action ever receives one.
\<close>

theorem action_never_gets_exec:
  "trigger_effect actions lg t = Some (RunAction rt act exec args stop) \<Longrightarrow> exec = None"
  by (auto simp: trigger_effect_def Let_def split: option.splits)

theorem action_never_gets_exec_witness: "(None :: ustr option) = None"
proof -
  have "trigger_effect (Some [''a'' \<mapsto> ''x:y'']) False
     \<lparr>tr_hook = None, tr_script = None, tr_exec = None, tr_args = None, tr_facet = None, tr_impulse = None,
      tr_service = None, tr_timer = None, tr_socket = None, tr_stop = None, tr_payload = None, tr_action = Some ''a''\<rparr>
     = Some (RunAction ''x'' ''y'' None None None)" by (simp add: trigger_effect_def)
  from action_never_gets_exec [OF this] show ?thesis .
qed

end
