(* ===== verification/FacetGraph.thy ===== *)
theory FacetGraph
  imports Triggers Persistence
begin

text \<open>
  The facet graph of \<^verbatim>\<open>crates/flow/src/flow.rs\<close>: the active facets with their
  branches, and their persistence, one snapshot file per scope. Writing and reading a file are the
  operations of \<open>Persistence\<close>. The codecs and the iteration order of a decoded hash map are
  arguments, kept together in a record.
\<close>

section \<open>State\<close>

record facet_graph =
  fg_facets :: facet_map
  fg_scoped :: "ustr list"

record persist_env =
  pe_crc :: "u8 list \<Rightarrow> u32"
  pe_enc :: "state_snapshot \<Rightarrow> string + u8 list"
  pe_dec :: "u8 list \<Rightarrow> string + state_snapshot"
  pe_keys :: "state_snapshot \<Rightarrow> string list"
  pe_ienc :: "flow_instance \<Rightarrow> u8 list"
  pe_idec :: "u8 list \<Rightarrow> flow_instance option"

text \<open>
  The state files: that of the scope \<open>static\<close> has its own path, every other entry is a directory
  of the state root. \<open>load_errors\<close> gives the errors of opening and reading a file, if any.
\<close>

type_synonym scope_disks = "(ustr \<times> state_disk) list"
type_synonym load_errors = "ustr \<Rightarrow> string option \<times> string option"

definition no_disk :: state_disk where
  "no_disk = \<lparr>sd_main = None, sd_tmp = None, sd_undo = None, sd_dir = NoDir\<rparr>"

definition disk_of :: "scope_disks \<Rightarrow> ustr \<Rightarrow> state_disk" where
  "disk_of disks scope = (case map_of disks scope of Some d \<Rightarrow> d | None \<Rightarrow> no_disk)"

definition graph_from_persistence :: facet_graph where
  "graph_from_persistence = \<lparr>fg_facets = [], fg_scoped = []\<rparr>"

text \<open>An entry that does not decode becomes an instance without a name, which is dropped.\<close>

definition entry_to_instance :: "persist_env \<Rightarrow> u8 list \<Rightarrow> flow_instance" where
  "entry_to_instance E bs =
     (case pe_idec E bs of Some i \<Rightarrow> i
      | None \<Rightarrow> \<lparr>fi_name = [], fi_payload = PNone False, fi_type = FacetType\<rparr>)"

definition load_entries :: "persist_env \<Rightarrow> u8 list list \<Rightarrow> flow_instance list" where
  "load_entries E es = filter (\<lambda>x. fi_name x \<noteq> []) (map (entry_to_instance E) es)"

definition ends_with :: "string \<Rightarrow> string \<Rightarrow> bool" where
  "ends_with suf s \<longleftrightarrow> starts_with (rev suf) (rev s)"

section \<open>Scopes\<close>

definition scope_from_state_name :: "string \<Rightarrow> ustr" where
  "scope_from_state_name name =
     (case rsplitn 2 (CHR ''@'') name of scope # _ # _ \<Rightarrow> scope | _ \<Rightarrow> ''static'')"

text \<open>Facets whose name ends in an exclamation mark are not persistent.\<close>

definition transient :: "string \<Rightarrow> bool" where
  "transient name \<longleftrightarrow> has_substring ''!@'' name \<or> ends_with ''!'' name"

definition persistence_for_scope :: "ustr \<Rightarrow> facet_graph \<Rightarrow> facet_graph" where
  "persistence_for_scope scope g =
     (if scope = ''static'' then g else g\<lparr>fg_scoped := hs_insert scope (fg_scoped g)\<rparr>)"

section \<open>Loading\<close>

definition load_file :: "persist_env \<Rightarrow> load_errors \<Rightarrow> scope_disks \<Rightarrow> ustr \<Rightarrow> state_snapshot result" where
  "load_file E errs disks scope =
     load_snapshot (pe_crc E) (pe_dec E) (fst (errs scope)) (snd (errs scope)) (disk_of disks scope)"

definition snapshot_entries :: "persist_env \<Rightarrow> state_snapshot \<Rightarrow> facet_map" where
  "snapshot_entries E snapshot =
     map (\<lambda>name. (name, load_entries E (case snapshot name of Some es \<Rightarrow> es | None \<Rightarrow> []))) (pe_keys E snapshot)"

definition load_scope_from_persistence ::
  "persist_env \<Rightarrow> load_errors \<Rightarrow> scope_disks \<Rightarrow> ustr \<Rightarrow> facet_graph \<Rightarrow> unit result \<times> facet_graph" where
  "load_scope_from_persistence E errs disks scope g =
     (let g = persistence_for_scope scope g
      in case load_file E errs disks scope of
           Inl e \<Rightarrow> (Inl e, g)
         | Inr snapshot \<Rightarrow>
             (Inr (), g\<lparr>fg_facets :=
                fold (\<lambda>(key, vals). AList.update key vals) (snapshot_entries E snapshot) (fg_facets g)\<rparr>))"

definition load_from_persistence ::
  "persist_env \<Rightarrow> load_errors \<Rightarrow> scope_disks \<Rightarrow> facet_graph \<Rightarrow> unit result \<times> facet_graph" where
  "load_from_persistence E errs disks g =
     (case load_file E errs disks ''static'' of
        Inl e \<Rightarrow> (Inl e, g)
      | Inr snapshot \<Rightarrow>
          (Inr (), fold (\<lambda>(scope, _) g.
                     if scope = ''static'' then g else snd (load_scope_from_persistence E errs disks scope g))
                   disks (g\<lparr>fg_facets := snapshot_entries E snapshot\<rparr>)))"

section \<open>Dropping a scope\<close>

definition drop_scope :: "ustr \<Rightarrow> facet_graph \<times> scope_disks \<Rightarrow> facet_graph \<times> scope_disks" where
  "drop_scope scope gd =
     (case gd of (g, disks) \<Rightarrow>
       let suffix = ''@'' @ scope;
           g = g\<lparr>fg_facets := filter (\<lambda>(k, _). scope = ''static'' \<and> CHR ''@'' \<notin> set k \<or> \<not> ends_with suffix k) (fg_facets g)\<rparr>
       in if scope \<noteq> ''static''
          then (g\<lparr>fg_scoped := hs_remove scope (fg_scoped g)\<rparr>, AList.delete scope disks)
          else (g, disks))"

section \<open>Saving\<close>

definition scope_snapshot :: "persist_env \<Rightarrow> facet_map \<Rightarrow> ustr \<Rightarrow> state_snapshot" where
  "scope_snapshot E facets scope =
     map_of (map (\<lambda>(name, branches). (name, map (pe_ienc E) branches))
       (filter (\<lambda>(name, _). \<not> transient name \<and> scope_from_state_name name = scope) facets))"

text \<open>The scopes with a persistent facet, and always \<open>static\<close>.\<close>

definition scopes_to_save :: "facet_map \<Rightarrow> ustr list" where
  "scopes_to_save facets =
     (let scopes = remdups (map (\<lambda>(name, _). scope_from_state_name name) (filter (\<lambda>(name, _). \<not> transient name) facets))
      in if ''static'' \<in> set scopes then scopes else scopes @ [''static''])"

fun save_scopes ::
  "persist_env \<Rightarrow> (ustr \<Rightarrow> faults) \<Rightarrow> ustr list \<Rightarrow> facet_graph \<Rightarrow> scope_disks \<Rightarrow> unit result \<times> facet_graph \<times> scope_disks" where
  "save_scopes E flt [] g disks = (Inr (), g, disks)"
| "save_scopes E flt (scope # scopes) g disks =
     (let g = persistence_for_scope scope g
      in case write_snapshot (pe_crc E) (pe_enc E) True (flt scope) (scope_snapshot E (fg_facets g) scope) (disk_of disks scope) of
           (Inl e, d) \<Rightarrow> (Inl e, g, AList.update scope d disks)
         | (Inr _, d) \<Rightarrow> save_scopes E flt scopes g (AList.update scope d disks))"

definition save_all_scopes ::
  "persist_env \<Rightarrow> (ustr \<Rightarrow> faults) \<Rightarrow> facet_graph \<Rightarrow> scope_disks \<Rightarrow> unit result \<times> facet_graph \<times> scope_disks" where
  "save_all_scopes E flt g disks = save_scopes E flt (scopes_to_save (fg_facets g)) g disks"

definition snapshot_for_persistence :: "persist_env \<Rightarrow> facet_graph \<Rightarrow> state_snapshot" where
  "snapshot_for_persistence E g =
     map_of (map (\<lambda>(name, states). (name, map (pe_ienc E) states)) (filter (\<lambda>(name, _). \<not> transient name) (fg_facets g)))"

text \<open>
  Start-up (\<^verbatim>\<open>crates/cfg/src/units.rs\<close>): the graph is loaded and written back, the
  results of both ignored.
\<close>

definition restore_facets ::
  "persist_env \<Rightarrow> load_errors \<Rightarrow> (ustr \<Rightarrow> faults) \<Rightarrow> scope_disks \<Rightarrow> facet_graph \<times> scope_disks" where
  "restore_facets E errs flt disks =
     snd (save_all_scopes E flt (snd (load_from_persistence E errs disks graph_from_persistence)) disks)"


section \<open>Names and scopes\<close>

lemma scope_rsplit: "scope_from_state_name name =
   (case rsplit_once (CHR ''@'') name of Some (_, scope) \<Rightarrow> scope | None \<Rightarrow> ''static'')"
  by (auto simp: scope_from_state_name_def rsplitn_def splitn_2_at rsplit_once_def split: option.splits)

lemma ends_with_iff: "ends_with suf s \<longleftrightarrow> (\<exists>l. s = l @ suf)"
proof
  assume "ends_with suf s"
  then have "rev s = rev suf @ drop (length suf) (rev s)"
    by (metis append_take_drop_id ends_with_def length_rev starts_with_def)
  then have "s = rev (drop (length suf) (rev s)) @ suf" by (metis rev_append rev_rev_ident)
  then show "\<exists>l. s = l @ suf" by blast
qed (auto simp: ends_with_def starts_with_def)

lemma rsplit_once_iff: "rsplit_once c s = Some (a, b) \<longleftrightarrow> s = a @ c # b \<and> c \<notin> set b"
proof
  assume "rsplit_once c s = Some (a, b)"
  then have "split_once c (rev s) = Some (rev b, rev a)" by (auto simp: rsplit_once_def)
  from split_once_SomeD [OF this] show "s = a @ c # b \<and> c \<notin> set b"
    by (metis rev.simps(2) rev_append rev_rev_ident rev_swap set_rev append_Cons append_Nil append_assoc)
qed auto

lemma scope_ends_with:
  assumes "scope \<noteq> ''static''" "CHR ''@'' \<notin> set scope"
  shows "scope_from_state_name n = scope \<longleftrightarrow> ends_with (CHR ''@'' # scope) n"
proof
  assume "scope_from_state_name n = scope"
  with assms(1) obtain l where "rsplit_once (CHR ''@'') n = Some (l, scope)"
    by (auto simp: scope_rsplit split: option.splits)
  then show "ends_with (CHR ''@'' # scope) n" by (auto simp: rsplit_once_iff ends_with_iff)
next
  assume "ends_with (CHR ''@'' # scope) n"
  then obtain l where "n = l @ CHR ''@'' # scope" by (auto simp: ends_with_iff)
  with assms(2) have "rsplit_once (CHR ''@'') n = Some (l, scope)" by simp
  then show "scope_from_state_name n = scope" by (simp add: scope_rsplit)
qed

section \<open>Files\<close>

text \<open>The codecs agree, and the keys of a decoded map are its domain.\<close>

definition env_ok :: "persist_env \<Rightarrow> bool" where
  "env_ok E \<longleftrightarrow> (\<forall>s p. finite (dom s) \<longrightarrow> pe_enc E s = Inr p \<longrightarrow> pe_dec E p = Inr s) \<and>
     (\<forall>s. finite (dom s) \<longrightarrow> set (pe_keys E s) = dom s \<and> distinct (pe_keys E s))"

definition no_errors :: load_errors where "no_errors = (\<lambda>_. (None, None))"

lemma run_ops_success: "run_ops flt ops d = (Inr (), d') \<Longrightarrow> d' = fold apply_op ops d"
  by (induction ops arbitrary: d) (auto split: option.splits)

lemma write_then_load:
  assumes "write_snapshot crc enc True flt s d = (Inr (), d')" "\<And>p. enc s = Inr p \<Longrightarrow> dec p = Inr s"
  shows "load_snapshot crc dec None None d' = Inr s"
proof (cases "enc s")
  case (Inl e)
  with assms(1) show ?thesis by (simp add: write_snapshot_def encode_snapshot_def)
next
  case (Inr p)
  with assms(1) have "d' = fold apply_op ([CreateDirs, CreateTmp,
      WriteTmp (snapshot_magic @ u16_to_le snapshot_version @ u32_to_le (crc p) @ p), SyncTmp, RenameTmp] @ sync_parent_dir True) d"
    by (intro run_ops_success) (simp add: write_snapshot_def encode_snapshot_def)
  with decode_well_formed [of dec p s crc, OF assms(2) [OF Inr]] show ?thesis
    by (simp add: load_snapshot_def sync_parent_dir_def)
qed

lemma disk_of_update: "disk_of (AList.update sc d disks) sc' = (if sc' = sc then d else disk_of disks sc')"
  by (simp add: disk_of_def)

lemma finite_scope_snapshot [simp]: "finite (dom (scope_snapshot E facets sc))"
  by (simp add: scope_snapshot_def finite_dom_map_of)

lemma persistence_for_scope_facets [simp]: "fg_facets (persistence_for_scope sc g) = fg_facets g"
  by (simp add: persistence_for_scope_def)

lemma save_scopes_files:
  assumes "env_ok E"
  shows "save_scopes E flt scs g disks = (Inr (), g', disks') \<Longrightarrow> distinct scs \<Longrightarrow>
    fg_facets g' = fg_facets g \<and>
    (\<forall>sc. load_file E no_errors disks' sc =
      (if sc \<in> set scs then Inr (scope_snapshot E (fg_facets g) sc) else load_file E no_errors disks sc)) \<and>
    fst ` set disks' = fst ` set disks \<union> set scs"
proof (induction scs arbitrary: g disks)
  case (Cons sc scs)
  let ?g = "persistence_for_scope sc g" and ?s = "scope_snapshot E (fg_facets g) sc"
  obtain r d where w: "write_snapshot (pe_crc E) (pe_enc E) True (flt sc) ?s (disk_of disks sc) = (r, d)" by fastforce
  have r: "r = Inr ()" using Cons.prems(1) w by (cases r) (auto simp: Let_def)
  have run: "save_scopes E flt scs ?g (AList.update sc d disks) = (Inr (), g', disks')"
    using Cons.prems(1) w r by (simp add: Let_def)
  have l: "load_snapshot (pe_crc E) (pe_dec E) None None d = Inr ?s"
    by (rule write_then_load [OF w [unfolded r]]) (use assms in \<open>simp add: env_ok_def\<close>)
  have "fst ` set (AList.update sc d disks) = insert sc (fst ` set disks)"
    using dom_update [of sc d disks] by simp
  with Cons.IH [OF run] Cons.prems(2) l show ?case
    by (auto simp: load_file_def disk_of_update no_errors_def)
qed simp

section \<open>What loading gives\<close>

lemma map_of_fold_update:
  "keys_distinct xs \<Longrightarrow>
   map_of (fold (\<lambda>(key, vals). AList.update key vals) xs al) n = (case map_of xs n of Some v \<Rightarrow> Some v | None \<Rightarrow> map_of al n)"
proof (induction xs arbitrary: al)
  case (Cons x xs)
  obtain k v where x: "x = (k, v)" by (cases x)
  have "map_of xs k = None" using Cons.prems by (auto simp: x map_of_eq_None_iff)
  with Cons show ?case by (simp add: x split: option.split)
qed simp

lemma snapshot_entries_lookup:
  assumes "env_ok E" "finite (dom s)"
  shows "map_of (snapshot_entries E s) n = map_option (load_entries E) (s n)"
    and "keys_distinct (snapshot_entries E s)"
proof -
  have k: "set (pe_keys E s) = dom s" "distinct (pe_keys E s)" using assms by (auto simp: env_ok_def)
  show "map_of (snapshot_entries E s) n = map_option (load_entries E) (s n)"
    by (cases "s n") (auto simp: snapshot_entries_def map_of_map_restrict k restrict_map_def)
  show "keys_distinct (snapshot_entries E s)" using k(2) by (simp add: snapshot_entries_def comp_def)
qed

text \<open>Every file can be read and holds facets of its own scope.\<close>

definition files_hold :: "persist_env \<Rightarrow> scope_disks \<Rightarrow> (ustr \<Rightarrow> state_snapshot) \<Rightarrow> bool" where
  "files_hold E disks S \<longleftrightarrow>
     (\<forall>sc. load_file E no_errors disks sc = Inr (S sc) \<and> finite (dom (S sc)) \<and>
       (\<forall>n \<in> dom (S sc). scope_from_state_name n = sc))"

lemma load_scope_lookup:
  assumes "env_ok E" "files_hold E disks S"
  shows "map_of (fg_facets (snd (load_scope_from_persistence E no_errors disks sc g))) n =
    (case map_option (load_entries E) (S sc n) of Some v \<Rightarrow> Some v | None \<Rightarrow> map_of (fg_facets g) n)"
proof -
  have f: "load_file E no_errors disks sc = Inr (S sc)" "finite (dom (S sc))"
    using assms(2) by (auto simp: files_hold_def)
  show ?thesis
    by (simp add: load_scope_from_persistence_def Let_def f
        map_of_fold_update [OF snapshot_entries_lookup(2) [OF assms(1) f(2)]]
        snapshot_entries_lookup(1) [OF assms(1) f(2)])
qed

lemma load_scopes_lookup:
  assumes "env_ok E" "files_hold E disks S"
  shows "map_of (fg_facets (fold (\<lambda>(scope, _) g. if scope = ''static'' then g
             else snd (load_scope_from_persistence E no_errors disks scope g)) ds g)) n =
    (if scope_from_state_name n \<in> fst ` set ds - {''static''}
     then (case map_option (load_entries E) (S (scope_from_state_name n) n) of Some v \<Rightarrow> Some v | None \<Rightarrow> map_of (fg_facets g) n)
     else map_of (fg_facets g) n)"
proof (induction ds arbitrary: g)
  case (Cons x ds)
  obtain sc d where x: "x = (sc, d)" by (cases x)
  have other: "S sc n = None" if "scope_from_state_name n \<noteq> sc"
    using assms(2) that by (auto simp: files_hold_def)
  show ?case
  proof (cases "sc = ''static''")
    case True
    with Cons show ?thesis by (simp add: x)
  next
    case False
    let ?g = "snd (load_scope_from_persistence E no_errors disks sc g)"
    have l: "map_of (fg_facets ?g) n =
      (case map_option (load_entries E) (S sc n) of Some v \<Rightarrow> Some v | None \<Rightarrow> map_of (fg_facets g) n)"
      by (rule load_scope_lookup [OF assms])
    show ?thesis
    proof (cases "scope_from_state_name n = sc")
      case True
      with Cons.IH [of ?g] l False show ?thesis by (auto simp: x split: option.splits)
    next
      case neq: False
      with Cons.IH [of ?g] l False other [OF neq] show ?thesis by (auto simp: x split: option.splits)
    qed
  qed
qed simp

text \<open>Loading into an empty graph gives what the file of each name's scope holds under it.\<close>

lemma load_lookup:
  assumes "env_ok E" "files_hold E disks S"
  shows "\<exists>g. load_from_persistence E no_errors disks graph_from_persistence = (Inr (), g) \<and>
    (\<forall>n. map_of (fg_facets g) n = map_option (load_entries E) (S (scope_from_state_name n) n))"
proof -
  have st: "load_file E no_errors disks ''static'' = Inr (S ''static'')" "finite (dom (S ''static''))"
    using assms(2) by (auto simp: files_hold_def)
  have dom: "scope_from_state_name n = sc" if "S sc n = Some v" for n sc v
    using assms(2) that by (auto simp: files_hold_def)
  have none: "S sc = Map.empty" if "sc \<notin> fst ` set disks" for sc
  proof -
    have "disk_of disks sc = no_disk" using that by (simp add: disk_of_def map_of_eq_None_iff [THEN iffD2])
    then have "load_file E no_errors disks sc = Inr Map.empty" by (simp add: load_file_def load_snapshot_def no_disk_def)
    then show ?thesis using assms(2) by (simp add: files_hold_def)
  qed
  define g where "g = graph_from_persistence\<lparr>fg_facets := snapshot_entries E (S ''static'')\<rparr>"
  have "map_of (fg_facets (fold (\<lambda>(scope, _) g. if scope = ''static'' then g
             else snd (load_scope_from_persistence E no_errors disks scope g)) disks g)) n =
        map_option (load_entries E) (S (scope_from_state_name n) n)" for n
  proof -
    have g: "map_of (fg_facets g) n = map_option (load_entries E) (S ''static'' n)"
      by (simp add: g_def snapshot_entries_lookup(1) [OF assms(1) st(2)])
    have "S ''static'' n = None" if "scope_from_state_name n \<noteq> ''static''"
      using dom [of "''static''" n] that by (cases "S ''static'' n") auto
    with g none [of "scope_from_state_name n"] show ?thesis
      unfolding load_scopes_lookup [OF assms]
      by (cases "scope_from_state_name n = ''static''") (auto split: option.splits)
  qed
  then show ?thesis by (simp add: load_from_persistence_def st(1) g_def [symmetric])
qed

section \<open>A concrete codec\<close>

definition bytes_of :: "string \<Rightarrow> u8 list" where "bytes_of s = map (\<lambda>c. of_nat (of_char c)) s"
definition string_of :: "u8 list \<Rightarrow> string" where "string_of bs = map (\<lambda>b. char_of (unat b)) bs"

lemma string_of_bytes [simp]: "string_of (bytes_of s) = s"
proof -
  have "unat (of_nat (of_char c :: nat) :: u8) = of_char c" for c :: char
    using of_char_mod_256 [of c, where 'a = nat] by (simp add: unat_of_nat)
  then show ?thesis by (induction s) (simp_all add: bytes_of_def string_of_def)
qed

lemma bytes_of_string [simp]: "bytes_of (string_of bs) = bs"
proof -
  have lt: "unat b < 256" for b :: u8 using unsigned_less [where w = b] by simp
  have "of_nat (of_char (char_of (unat b) :: char) :: nat) = b" for b :: u8
    using lt [of b] by (simp add: of_char_of)
  then show ?thesis by (induction bs) (simp_all add: bytes_of_def string_of_def)
qed

definition demo_keys :: "state_snapshot \<Rightarrow> string list" where
  "demo_keys s = sorted_list_of_set (dom s)"

definition demo_snapshot_enc :: "state_snapshot \<Rightarrow> string + u8 list" where
  "demo_snapshot_enc s = Inr (bytes_of (demo_print (JObj
     (map (\<lambda>k. (k, JArr (map (\<lambda>e. JStr (string_of e)) (case s k of Some es \<Rightarrow> es | None \<Rightarrow> [])))) (demo_keys s)))))"

fun demo_entries :: "json \<Rightarrow> u8 list list" where
  "demo_entries (JArr es) = map (\<lambda>e. case e of JStr x \<Rightarrow> bytes_of x | _ \<Rightarrow> []) es"
| "demo_entries _ = []"

definition demo_dec_snapshot :: "u8 list \<Rightarrow> string + state_snapshot" where
  "demo_dec_snapshot bs =
     (case demo_parse (string_of bs) of
        Some (JObj o') \<Rightarrow> Inr (map_of (map (\<lambda>(k, v). (k, demo_entries v)) o'))
      | _ \<Rightarrow> Inl ''bad'')"

definition demo_ienc :: "flow_instance \<Rightarrow> u8 list" where
  "demo_ienc i = bytes_of (demo_print (JArr
     [JStr (fi_name i),
      (case fi_payload i of PJson s \<Rightarrow> JArr [JNull, JStr s] | PString s \<Rightarrow> JArr [JStr s]
       | PBytes b \<Rightarrow> JArr [JNull, JNull, JStr (string_of b)] | PNone b \<Rightarrow> JBool b),
      JBool (fi_type i = FacetType)]))"

definition demo_idec :: "u8 list \<Rightarrow> flow_instance option" where
  "demo_idec bs =
     (case demo_parse (string_of bs) of
        Some (JArr [JStr n, p, JBool f]) \<Rightarrow>
          Some \<lparr>fi_name = n,
                fi_payload = (case p of JArr [JNull, JStr s] \<Rightarrow> PJson s | JArr [JStr s] \<Rightarrow> PString s
                              | JArr [JNull, JNull, JStr s] \<Rightarrow> PBytes (bytes_of s) | JBool b \<Rightarrow> PNone b | _ \<Rightarrow> PNone False),
                fi_type = (if f then FacetType else ImpulseType)\<rparr>
      | _ \<Rightarrow> None)"

definition demo_penv :: persist_env where
  "demo_penv = \<lparr>pe_crc = (\<lambda>bs. of_nat (length bs)), pe_enc = demo_snapshot_enc, pe_dec = demo_dec_snapshot,
     pe_keys = demo_keys, pe_ienc = demo_ienc, pe_idec = demo_idec\<rparr>"

lemma demo_idec_ienc: "demo_idec (demo_ienc i) = Some i"
proof -
  have "json_wf (JArr [JStr (fi_name i),
      (case fi_payload i of PJson s \<Rightarrow> JArr [JNull, JStr s] | PString s \<Rightarrow> JArr [JStr s]
       | PBytes b \<Rightarrow> JArr [JNull, JNull, JStr (string_of b)] | PNone b \<Rightarrow> JBool b),
      JBool (fi_type i = FacetType)])" by (auto split: flow_payload.split)
  from demo_parse_print [OF this] show ?thesis
    by (cases i; cases "fi_payload i"; cases "fi_type i") (simp_all add: demo_idec_def demo_ienc_def del: demo_print.simps)
qed

lemma demo_dec_enc:
  assumes "finite (dom s)"
  shows "\<exists>p. demo_snapshot_enc s = Inr p \<and> demo_dec_snapshot p = Inr s"
proof -
  let ?o = "map (\<lambda>k. (k, JArr (map (\<lambda>e. JStr (string_of e)) (case s k of Some es \<Rightarrow> es | None \<Rightarrow> [])))) (demo_keys s)"
  have "sorted_wrt (<) (demo_keys s)" using assms by (simp add: demo_keys_def strict_sorted_list_of_set)
  then have "json_wf (JObj ?o)" by (auto simp: comp_def)
  from demo_parse_print [OF this] have p: "demo_parse (demo_print (JObj ?o)) = Some (JObj ?o)" .
  have "map_of (map (\<lambda>(k, v). (k, demo_entries v)) ?o) k = s k" for k
    using assms by (cases "s k") (auto simp: comp_def map_of_map_restrict demo_keys_def restrict_map_def domIff)
  then have "map_of (map (\<lambda>(k, v). (k, demo_entries v)) ?o) = s" by blast
  then show ?thesis by (simp add: demo_snapshot_enc_def demo_dec_snapshot_def p del: demo_print.simps)
qed

lemma demo_penv_ok: "env_ok demo_penv"
  using demo_dec_enc by (fastforce simp: env_ok_def demo_penv_def demo_keys_def)

section \<open>What comes back\<close>

lemma map_of_filter_keys:
  "map_of (map (\<lambda>(n, bs). (n, f bs)) (filter (\<lambda>(n, _). P n) xs)) n = (if P n then map_option f (map_of xs n) else None)"
  by (induction xs) auto

lemma scope_snapshot_lookup:
  "scope_snapshot E facets sc n =
     (if \<not> transient n \<and> scope_from_state_name n = sc then map_option (map (pe_ienc E)) (map_of facets n) else None)"
  unfolding scope_snapshot_def by (rule map_of_filter_keys)

lemma scopes_to_save_covers:
  "map_of facets n = Some bs \<Longrightarrow> \<not> transient n \<Longrightarrow> scope_from_state_name n \<in> set (scopes_to_save facets)"
  by (drule map_of_SomeD) (force simp: scopes_to_save_def Let_def)

lemma distinct_scopes_to_save: "distinct (scopes_to_save facets)"
  by (simp add: scopes_to_save_def Let_def)

text \<open>Every instance of the graph has a name and a codec that reads it back.\<close>

definition instances_ok :: "persist_env \<Rightarrow> facet_graph \<Rightarrow> bool" where
  "instances_ok E g \<longleftrightarrow>
     (\<forall>(n, bs) \<in> set (fg_facets g). \<forall>b \<in> set bs. pe_idec E (pe_ienc E b) = Some b \<and> fi_name b \<noteq> [])"

lemma load_encoded:
  assumes "instances_ok E g" "map_of (fg_facets g) n = Some bs"
  shows "load_entries E (map (pe_ienc E) bs) = bs"
proof -
  have "\<forall>b \<in> set bs. pe_idec E (pe_ienc E b) = Some b \<and> fi_name b \<noteq> []"
    using assms map_of_SomeD [OF assms(2)] by (auto simp: instances_ok_def)
  then show ?thesis by (induction bs) (simp_all add: load_entries_def entry_to_instance_def)
qed

definition files_after :: "persist_env \<Rightarrow> facet_graph \<Rightarrow> (ustr \<Rightarrow> state_snapshot) \<Rightarrow> ustr \<Rightarrow> state_snapshot" where
  "files_after E g S sc = (if sc \<in> set (scopes_to_save (fg_facets g)) then scope_snapshot E (fg_facets g) sc else S sc)"

lemma files_hold_after:
  assumes "env_ok E" "files_hold E disks S" "save_all_scopes E flt g disks = (Inr (), g', disks')"
  shows "files_hold E disks' (files_after E g S)"
proof -
  have "load_file E no_errors disks' sc = Inr (files_after E g S sc)" for sc
    using save_scopes_files [OF assms(1) assms(3) [unfolded save_all_scopes_def] distinct_scopes_to_save] assms(2)
    by (simp add: files_after_def files_hold_def)
  moreover have "finite (dom (files_after E g S sc))" for sc using assms(2) by (simp add: files_after_def files_hold_def)
  moreover have "scope_from_state_name n = sc" if "n \<in> dom (files_after E g S sc)" for n sc
    using assms(2) that
    by (cases "sc \<in> set (scopes_to_save (fg_facets g))")
      (auto simp: files_after_def files_hold_def scope_snapshot_lookup split: if_splits)
  ultimately show ?thesis by (simp add: files_hold_def)
qed

lemma save_then_load:
  assumes "env_ok E" "instances_ok E g" "files_hold E disks S"
    and "save_all_scopes E flt g disks = (Inr (), g', disks')"
  shows "\<exists>g''. load_from_persistence E no_errors disks' graph_from_persistence = (Inr (), g'') \<and>
    (\<forall>n. map_of (fg_facets g'') n =
       (if scope_from_state_name n \<in> set (scopes_to_save (fg_facets g))
        then (if transient n then None else map_of (fg_facets g) n)
        else map_option (load_entries E) (S (scope_from_state_name n) n)))"
proof -
  obtain g'' where g'':
    "load_from_persistence E no_errors disks' graph_from_persistence = (Inr (), g'')"
    "\<And>n. map_of (fg_facets g'') n = map_option (load_entries E) (files_after E g S (scope_from_state_name n) n)"
    using load_lookup [OF assms(1) files_hold_after [OF assms(1,3,4)]] by blast
  have "map_option (load_entries E) (scope_snapshot E (fg_facets g) (scope_from_state_name n) n)
      = (if transient n then None else map_of (fg_facets g) n)" for n
    using load_encoded [OF assms(2), of n] by (cases "map_of (fg_facets g) n") (simp_all add: scope_snapshot_lookup)
  with g'' show ?thesis by (simp add: files_after_def)
qed

text \<open>Without faults and with a codec that encodes, saving succeeds.\<close>

lemma save_no_faults:
  "(\<And>s. \<exists>p. pe_enc E s = Inr p) \<Longrightarrow> fst (save_scopes E (\<lambda>_ _. None) scs g disks) = Inr ()"
proof (induction scs arbitrary: g disks)
  case (Cons sc scs)
  obtain p where "pe_enc E (scope_snapshot E (fg_facets g) sc) = Inr p" using Cons.prems by blast
  with Cons show ?case by (simp add: Let_def write_snapshot_def encode_snapshot_def sync_parent_dir_def)
qed simp

section \<open>Properties\<close>

text \<open>
  C20. The state survives a restart. When all scopes were saved and no file of a scope without active
  facets is left, loading into a fresh graph gives back every facet with its branches, except those
  marked as not persistent, and nothing else.
\<close>

theorem saved_facets_come_back:
  assumes "env_ok E" "instances_ok E g" "files_hold E disks S"
    and "\<And>sc. sc \<notin> set (scopes_to_save (fg_facets g)) \<Longrightarrow> S sc = Map.empty"
    and "save_all_scopes E flt g disks = (Inr (), g', disks')"
  shows "\<exists>g''. load_from_persistence E no_errors disks' graph_from_persistence = (Inr (), g'') \<and>
    (\<forall>n. map_of (fg_facets g'') n = (if transient n then None else map_of (fg_facets g) n))"
proof -
  have "map_of (fg_facets g) n = None" if "scope_from_state_name n \<notin> set (scopes_to_save (fg_facets g))" "\<not> transient n" for n
    using scopes_to_save_covers [of "fg_facets g" n] that by (cases "map_of (fg_facets g) n") auto
  with save_then_load [OF assms(1-3,5)] assms(4) show ?thesis by (auto split: if_splits)
qed

definition demo_graph :: facet_graph where
  "demo_graph = \<lparr>fg_facets = [(''g:a@u'', [\<lparr>fi_name = ''g:a@u'', fi_payload = PString ''on'', fi_type = FacetType\<rparr>]),
     (''g:b!'', [\<lparr>fi_name = ''g:b!'', fi_payload = PNone False, fi_type = FacetType\<rparr>])], fg_scoped = []\<rparr>"

definition demo_disks :: scope_disks where
  "demo_disks = snd (snd (save_all_scopes demo_penv (\<lambda>_ _. None) demo_graph []))"

lemma demo_saves: "\<exists>g'. save_all_scopes demo_penv (\<lambda>_ _. None) g disks = (Inr (), g', snd (snd (save_all_scopes demo_penv (\<lambda>_ _. None) g disks)))"
  using save_no_faults [of demo_penv "scopes_to_save (fg_facets g)" g disks]
  by (cases "save_all_scopes demo_penv (\<lambda>_ _. None) g disks") (simp add: save_all_scopes_def demo_penv_def demo_snapshot_enc_def)

lemma demo_instances_ok: "instances_ok demo_penv demo_graph"
  using demo_idec_ienc by (simp add: instances_ok_def demo_graph_def demo_penv_def)

lemma no_files_hold: "files_hold demo_penv [] (\<lambda>_. Map.empty)"
  by (simp add: files_hold_def load_file_def load_snapshot_def disk_of_def no_disk_def)

theorem saved_facets_come_back_witness:
  "\<exists>g''. load_from_persistence demo_penv no_errors demo_disks graph_from_persistence = (Inr (), g'') \<and>
    (\<forall>n. map_of (fg_facets g'') n = (if transient n then None else map_of (fg_facets demo_graph) n))"
proof -
  obtain g' where s: "save_all_scopes demo_penv (\<lambda>_ _. None) demo_graph [] = (Inr (), g', demo_disks)"
    using demo_saves [of demo_graph "[]"] by (auto simp: demo_disks_def)
  show ?thesis by (rule saved_facets_come_back [OF demo_penv_ok demo_instances_ok no_files_hold _ s]) simp
qed

text \<open>
  Saving writes only the scopes that have a facet. When the last facet of a scope is removed, its
  file keeps the old facets, and they are active again after a restart.
\<close>

theorem emptied_scope_comes_back:
  assumes "env_ok E" "instances_ok E g" "files_hold E disks S"
    and "scope_from_state_name n \<notin> set (scopes_to_save (fg_facets g))" "S (scope_from_state_name n) n = Some es"
    and "save_all_scopes E flt g disks = (Inr (), g', disks')"
  shows "\<exists>g''. load_from_persistence E no_errors disks' graph_from_persistence = (Inr (), g'') \<and>
    map_of (fg_facets g'') n = Some (load_entries E es)"
  using save_then_load [OF assms(1-3,6)] assms(4,5) by auto

lemma demo_scope: "scope_from_state_name ''g:a@u'' = ''u''"
  by code_simp

lemma demo_disks_hold: "files_hold demo_penv demo_disks (files_after demo_penv demo_graph (\<lambda>_. Map.empty))"
proof -
  obtain g' where s: "save_all_scopes demo_penv (\<lambda>_ _. None) demo_graph [] = (Inr (), g', demo_disks)"
    using demo_saves [of demo_graph "[]"] by (auto simp: demo_disks_def)
  show ?thesis by (rule files_hold_after [OF demo_penv_ok no_files_hold s])
qed

lemma demo_file_u: "files_after demo_penv demo_graph (\<lambda>_. Map.empty) ''u'' ''g:a@u'' =
    Some [demo_ienc \<lparr>fi_name = ''g:a@u'', fi_payload = PString ''on'', fi_type = FacetType\<rparr>]"
proof -
  have t: "\<not> transient ''g:a@u''" by code_simp
  have m: "map_of (fg_facets demo_graph) ''g:a@u'' =
      Some [\<lparr>fi_name = ''g:a@u'', fi_payload = PString ''on'', fi_type = FacetType\<rparr>]" by (simp add: demo_graph_def)
  from scopes_to_save_covers [OF m t] t m show ?thesis
    by (simp add: files_after_def scope_snapshot_lookup demo_scope demo_penv_def)
qed

theorem emptied_scope_comes_back_witness:
  "\<exists>g''. load_from_persistence demo_penv no_errors
      (snd (snd (save_all_scopes demo_penv (\<lambda>_ _. None) graph_from_persistence demo_disks))) graph_from_persistence = (Inr (), g'') \<and>
    map_of (fg_facets g'') ''g:a@u'' = Some (load_entries demo_penv
      [demo_ienc \<lparr>fi_name = ''g:a@u'', fi_payload = PString ''on'', fi_type = FacetType\<rparr>])"
proof -
  obtain g' where s: "save_all_scopes demo_penv (\<lambda>_ _. None) graph_from_persistence demo_disks =
      (Inr (), g', snd (snd (save_all_scopes demo_penv (\<lambda>_ _. None) graph_from_persistence demo_disks)))"
    using demo_saves by blast
  have i: "instances_ok demo_penv graph_from_persistence" by (simp add: instances_ok_def graph_from_persistence_def)
  have n: "scope_from_state_name ''g:a@u'' \<notin> set (scopes_to_save (fg_facets graph_from_persistence))"
    by (simp add: demo_scope scopes_to_save_def graph_from_persistence_def)
  show ?thesis
    by (rule emptied_scope_comes_back [OF demo_penv_ok i demo_disks_hold n _ s]) (simp only: demo_scope demo_file_u)
qed

text \<open>
  At start-up the result of loading is ignored and the graph is written back. If the state file can
  not be read or decoded, for whatever reason, the graph is empty and the file is replaced by an
  empty snapshot: the facets are lost for good.
\<close>

theorem failed_load_erases:
  assumes "env_ok E" "load_file E errs disks ''static'' = Inl e" "pe_enc E Map.empty = Inr p"
    and "restore_facets E errs (\<lambda>_ _. None) disks = (g, disks')"
  shows "fg_facets g = [] \<and> load_file E no_errors disks' ''static'' = Inr Map.empty"
proof -
  have "snd (load_from_persistence E errs disks graph_from_persistence) = graph_from_persistence"
    by (simp add: load_from_persistence_def assms(2))
  then have r: "(g, disks') = snd (save_all_scopes E (\<lambda>_ _. None) graph_from_persistence disks)"
    using assms(4) by (simp add: restore_facets_def)
  have sn: "scope_snapshot E [] sc = Map.empty" for sc by (simp add: scope_snapshot_def)
  have "fst (save_all_scopes E (\<lambda>_ _. None) graph_from_persistence disks) = Inr ()"
    by (simp add: save_all_scopes_def scopes_to_save_def graph_from_persistence_def persistence_for_scope_def sn
        write_snapshot_def encode_snapshot_def assms(3) sync_parent_dir_def)
  with r have "save_all_scopes E (\<lambda>_ _. None) graph_from_persistence disks = (Inr (), g, disks')"
    by (metis prod.collapse)
  from save_scopes_files [OF assms(1) this [unfolded save_all_scopes_def] distinct_scopes_to_save] show ?thesis
    by (simp add: scopes_to_save_def graph_from_persistence_def sn)
qed

definition corrupt_disks :: scope_disks where
  "corrupt_disks = [(''static'', \<lparr>sd_main = Some \<lparr>df_bytes = [0], df_synced = True\<rparr>, sd_tmp = None, sd_undo = None, sd_dir = KeptDir\<rparr>)]"

theorem failed_load_erases_witness:
  "fg_facets (fst (restore_facets demo_penv no_errors (\<lambda>_ _. None) corrupt_disks)) = []
   \<and> load_file demo_penv no_errors (snd (restore_facets demo_penv no_errors (\<lambda>_ _. None) corrupt_disks)) ''static'' = Inr Map.empty"
proof -
  have "load_file demo_penv no_errors corrupt_disks ''static'' = Inl (PersistenceError ''decode failed: snapshot too small'')"
    by (simp add: load_file_def load_snapshot_def corrupt_disks_def disk_of_def no_errors_def decode_snapshot_def)
  moreover have "pe_enc demo_penv Map.empty = Inr (bytes_of (demo_print (JObj [])))"
    by (simp add: demo_penv_def demo_snapshot_enc_def demo_keys_def)
  ultimately show ?thesis
    using failed_load_erases [of demo_penv no_errors corrupt_disks _ _
        "fst (restore_facets demo_penv no_errors (\<lambda>_ _. None) corrupt_disks)"
        "snd (restore_facets demo_penv no_errors (\<lambda>_ _. None) corrupt_disks)"] demo_penv_ok
    by simp
qed

text \<open>
  Dropping a scope removes the facets of that scope, in memory and on disk, and no others.
\<close>

theorem drop_scope_exact:
  assumes "scope \<noteq> ''static''" "CHR ''@'' \<notin> set scope" "drop_scope scope (g, disks) = (g', disks')"
  shows "map_of (fg_facets g') n = (if scope_from_state_name n = scope then None else map_of (fg_facets g) n)
    \<and> load_file E no_errors disks' scope = Inr Map.empty
    \<and> (sc \<noteq> scope \<longrightarrow> load_file E errs disks' sc = load_file E errs disks sc)"
proof -
  have g: "fg_facets g' = filter (\<lambda>(k, _). \<not> ends_with (CHR ''@'' # scope) k) (fg_facets g)"
    and d: "disks' = AList.delete scope disks" using assms(1,3) by (auto simp: drop_scope_def)
  have "map_of (filter (\<lambda>(k, _). P k) xs) n = (if P n then map_of xs n else None)" for P :: "ustr \<Rightarrow> bool" and xs :: facet_map
    by (induction xs) auto
  then show ?thesis
    by (simp add: g d scope_ends_with [OF assms(1,2)] load_file_def disk_of_def no_errors_def load_snapshot_def no_disk_def)
qed

theorem drop_scope_exact_witness:
  "map_of (fg_facets (fst (drop_scope ''u'' (demo_graph, demo_disks)))) ''g:a@u'' = None"
proof -
  have "drop_scope ''u'' (demo_graph, demo_disks) =
      (fst (drop_scope ''u'' (demo_graph, demo_disks)), snd (drop_scope ''u'' (demo_graph, demo_disks)))" by simp
  from drop_scope_exact [OF _ _ this, of "''g:a@u''" demo_penv "''v''" no_errors] show ?thesis by (simp add: demo_scope)
qed

end
