(* ===== verification/Variables.thy ===== *)
theory Variables
  imports Persistence
begin

text \<open>
  The variable heap, \<^verbatim>\<open>crates/primitives/src/variables.rs\<close>: explicit values over
  environment variables over defaults, and their file. TOML text is parsed and printed by the library.
  The file is written through a temporary one with the disk of \<open>Persistence\<close>, but without
  syncing.
\<close>

section \<open>State\<close>

datatype toml =
    TomlString string
  | TomlInteger int
  | TomlFloat string
  | TomlBoolean bool
  | TomlDatetime string
  | TomlArray "toml list"
  | TomlTable "(string \<times> toml) list"

record toml_lib =
  tl_parse :: "u8 list \<Rightarrow> string + toml"
  tl_print :: "(ustr \<rightharpoonup> toml) \<Rightarrow> string + u8 list"

record variable_heap =
  vh_values :: "ustr \<rightharpoonup> toml"
  vh_defaults :: "(ustr \<times> toml) list"
  vh_env_mappings :: "ustr \<rightharpoonup> ustr"

type_synonym environment = "ustr \<rightharpoonup> string"

definition vh_new :: variable_heap where
  "vh_new = \<lparr>vh_values = Map.empty, vh_defaults = [], vh_env_mappings = Map.empty\<rparr>"

section \<open>Operations\<close>

definition vh_register :: "ustr \<Rightarrow> toml option \<Rightarrow> ustr option \<Rightarrow> variable_heap \<Rightarrow> variable_heap" where
  "vh_register name dflt env h =
     (let h = h\<lparr>vh_defaults := AList.update name (case dflt of Some v \<Rightarrow> v | None \<Rightarrow> TomlBoolean False) (vh_defaults h)\<rparr>
      in case env of Some e \<Rightarrow> h\<lparr>vh_env_mappings := (vh_env_mappings h)(name \<mapsto> e)\<rparr> | None \<Rightarrow> h)"

definition vh_set :: "ustr \<Rightarrow> toml \<Rightarrow> variable_heap \<Rightarrow> variable_heap" where
  "vh_set name v h = h\<lparr>vh_values := (vh_values h)(name \<mapsto> v)\<rparr>"

definition vh_get :: "environment \<Rightarrow> variable_heap \<Rightarrow> ustr \<Rightarrow> toml option" where
  "vh_get env h name =
     (case vh_values h name of Some v \<Rightarrow> Some v
      | None \<Rightarrow>
          (case Option.bind (vh_env_mappings h name) env of Some val \<Rightarrow> Some (TomlString val)
           | None \<Rightarrow> map_of (vh_defaults h) name))"

definition vh_contains :: "variable_heap \<Rightarrow> ustr \<Rightarrow> bool" where
  "vh_contains h name \<longleftrightarrow> name \<in> fst ` set (vh_defaults h)"

definition vh_all :: "environment \<Rightarrow> variable_heap \<Rightarrow> (ustr \<times> toml \<times> toml) list" where
  "vh_all env h = map (\<lambda>(name, def). (name, def, case vh_get env h name of Some v \<Rightarrow> v | None \<Rightarrow> def)) (vh_defaults h)"

definition vh_get_full :: "environment \<Rightarrow> variable_heap \<Rightarrow> ustr \<Rightarrow> (toml \<times> toml) option" where
  "vh_get_full env h name =
     map_option (\<lambda>def. (def, case vh_get env h name of Some v \<Rightarrow> v | None \<Rightarrow> def)) (map_of (vh_defaults h) name)"

text \<open>\<open>read_err\<close> is the error of reading the file, if any.\<close>

definition vh_load :: "toml_lib \<Rightarrow> string option \<Rightarrow> state_disk \<Rightarrow> variable_heap \<Rightarrow> unit result \<times> variable_heap" where
  "vh_load L read_err d h =
     (case sd_main d of
        None \<Rightarrow> (Inr (), h)
      | Some f \<Rightarrow>
          (case read_err of
             Some e \<Rightarrow> (Inl (PersistenceError (''failed to read variables file: '' @ e)), h)
           | None \<Rightarrow>
               (case tl_parse L (df_bytes f) of
                  Inl e \<Rightarrow> (Inl (PersistenceError (''failed to parse variables file: '' @ e)), h)
                | Inr (TomlTable m) \<Rightarrow>
                    (Inr (), h\<lparr>vh_values := fold (\<lambda>(key, v) vals. vals(key \<mapsto> v)) m (vh_values h)\<rparr>)
                | Inr _ \<Rightarrow> (Inr (), h))))"

text \<open>
  \<open>fs::write\<close> creates and fills the temporary file; nothing is synced before or after the
  rename. The messages are those of the failing step.
\<close>

fun vh_op_error :: "persist_op \<Rightarrow> string" where
  "vh_op_error CreateDirs = ''failed to create variables dir: ''"
| "vh_op_error RenameTmp = ''failed to rename variables: ''"
| "vh_op_error _ = ''failed to write variables tmp: ''"

fun vh_run_ops :: "faults \<Rightarrow> persist_op list \<Rightarrow> state_disk \<Rightarrow> unit result \<times> state_disk" where
  "vh_run_ops flt [] d = (Inr (), d)"
| "vh_run_ops flt (oper # ops) d =
     (case flt oper of
        Some (e, k) \<Rightarrow> (Inl (PersistenceError (vh_op_error oper @ e)), failed_op oper k d)
      | None \<Rightarrow> vh_run_ops flt ops (apply_op oper d))"

definition vh_save :: "toml_lib \<Rightarrow> faults \<Rightarrow> variable_heap \<Rightarrow> state_disk \<Rightarrow> unit result \<times> state_disk" where
  "vh_save L flt h d =
     (case flt CreateDirs of
        Some (e, _) \<Rightarrow> (Inl (PersistenceError (vh_op_error CreateDirs @ e)), d)
      | None \<Rightarrow>
          (case tl_print L (vh_values h) of
             Inl e \<Rightarrow> (Inl (PersistenceError (''failed to serialize variables: '' @ e)), d)
           | Inr content \<Rightarrow> vh_run_ops flt [CreateTmp, WriteTmp content, RenameTmp] d))"

section \<open>Properties\<close>

text \<open>A printed table is parsed back as a table with the same lookups.\<close>

definition toml_lib_ok :: "toml_lib \<Rightarrow> bool" where
  "toml_lib_ok L \<longleftrightarrow>
     (\<forall>vals bs. tl_print L vals = Inr bs \<longrightarrow>
        (\<exists>m. tl_parse L bs = Inr (TomlTable m) \<and> keys_distinct m \<and> map_of m = vals))"

lemma fold_updates:
  "keys_distinct m \<Longrightarrow>
   fold (\<lambda>(key, v) vals. vals(key \<mapsto> v)) m vals n = (case map_of m n of Some v \<Rightarrow> Some v | None \<Rightarrow> vals n)"
proof (induction m arbitrary: vals)
  case (Cons e m)
  obtain k v where e: "e = (k, v)" by (cases e)
  have "map_of m k = None" using Cons.prems by (auto simp: e map_of_eq_None_iff)
  with Cons.IH [of "vals(k \<mapsto> v)"] Cons.prems show ?case
    by (simp add: e del: fun_upd_apply) (simp split: option.split)
qed simp

lemma vh_run_ops_success: "vh_run_ops flt ops d = (Inr (), d') \<Longrightarrow> d' = fold apply_op ops d"
  by (induction ops arbitrary: d) (auto split: option.splits)

text \<open>
  Precedence. After any registration and assignment a variable reads as its assigned value, else as
  the environment variable it is mapped to, else as its default; assigning touches no other
  variable.
\<close>

theorem variable_precedence:
  "vh_get env (vh_set name v h) name = Some v
   \<and> (n \<noteq> name \<longrightarrow> vh_get env (vh_set name v h) n = vh_get env h n)
   \<and> (vh_values h name = None \<longrightarrow> vh_get env (vh_register name dflt (Some e) h) name =
        (case env e of Some val \<Rightarrow> Some (TomlString val)
         | None \<Rightarrow> Some (case dflt of Some v \<Rightarrow> v | None \<Rightarrow> TomlBoolean False)))
   \<and> (n \<noteq> name \<longrightarrow> vh_get env (vh_register name dflt ev h) n = vh_get env h n)"
  by (cases ev) (simp_all add: vh_get_def vh_set_def vh_register_def Let_def split: option.split)

theorem variable_precedence_witness:
  "vh_get [''RIND_TEST_ANSWER'' \<mapsto> ''22''] (vh_register ''answer'' (Some (TomlInteger 10)) (Some ''RIND_TEST_ANSWER'') vh_new) ''answer''
     = Some (TomlString ''22'')"
  using variable_precedence [of "[''RIND_TEST_ANSWER'' \<mapsto> ''22'']" "''answer''" "TomlInteger 33" vh_new "''x''"
      "Some (TomlInteger 10)" "''RIND_TEST_ANSWER''" None]
  by (simp add: vh_new_def)

text \<open>
  Round trip. What was saved without an error is read by a fresh heap, with every assigned value.
\<close>

theorem variables_save_load:
  assumes "toml_lib_ok L" "vh_save L flt h d = (Inr (), d')" "vh_values h' = Map.empty"
  shows "\<exists>h''. vh_load L None d' h' = (Inr (), h'') \<and> vh_values h'' = vh_values h"
proof -
  obtain bs where p: "tl_print L (vh_values h) = Inr bs"
    and run: "vh_run_ops flt [CreateTmp, WriteTmp bs, RenameTmp] d = (Inr (), d')"
    using assms(2) by (auto simp: vh_save_def split: option.splits sum.splits)
  from p assms(1) obtain m where m: "tl_parse L bs = Inr (TomlTable m)" "keys_distinct m" "map_of m = vh_values h"
    unfolding toml_lib_ok_def by blast
  have "sd_main d' = Some \<lparr>df_bytes = bs, df_synced = False\<rparr>"
    using vh_run_ops_success [OF run] by simp
  then show ?thesis
    by (auto simp: vh_load_def m(1) fold_updates [OF m(2)] m(3) assms(3) fun_eq_iff split: option.split)
qed

text \<open>
  Unlike the facet state, the variables are not safe against power failure: after a save that
  reported success, the file may hold anything.
\<close>

theorem variables_save_not_durable:
  assumes "vh_save L flt h d = (Inr (), d')"
  shows "crash d' \<lparr>sd_main = Some f, sd_tmp = None, sd_undo = None, sd_dir = KeptDir\<rparr>"
proof -
  obtain bs where "vh_run_ops flt [CreateTmp, WriteTmp bs, RenameTmp] d = (Inr (), d')"
    using assms by (auto simp: vh_save_def split: option.splits sum.splits)
  from vh_run_ops_success [OF this] show ?thesis by (simp add: crash_def survives_def)
qed

definition demo_toml :: toml_lib where
  "demo_toml = \<lparr>tl_parse = (\<lambda>bs. if bs = [1] then Inr (TomlTable [(''port'', TomlInteger 8080)]) else Inl ''bad''),
     tl_print = (\<lambda>vals. if vals = [''port'' \<mapsto> TomlInteger 8080] then Inr [1] else Inl ''unsupported'')\<rparr>"

definition demo_heap :: variable_heap where
  "demo_heap = vh_set ''port'' (TomlInteger 8080) vh_new"

definition demo_vh_disk :: state_disk where
  "demo_vh_disk = \<lparr>sd_main = None, sd_tmp = None, sd_undo = None, sd_dir = KeptDir\<rparr>"

lemma demo_vh_save:
  "vh_save demo_toml (\<lambda>_. None) demo_heap demo_vh_disk =
   (Inr (), \<lparr>sd_main = Some \<lparr>df_bytes = [1], df_synced = False\<rparr>, sd_tmp = None, sd_undo = Some None, sd_dir = KeptDir\<rparr>)"
  by (simp add: vh_save_def demo_heap_def demo_toml_def vh_set_def vh_new_def demo_vh_disk_def)

theorem variables_save_load_witness:
  "\<exists>h''. vh_load demo_toml None
      \<lparr>sd_main = Some \<lparr>df_bytes = [1], df_synced = False\<rparr>, sd_tmp = None, sd_undo = Some None, sd_dir = KeptDir\<rparr> vh_new = (Inr (), h'')
    \<and> vh_values h'' = [''port'' \<mapsto> TomlInteger 8080]"
proof -
  have "toml_lib_ok demo_toml" by (auto simp: toml_lib_ok_def demo_toml_def split: if_splits)
  from variables_save_load [OF this demo_vh_save, of vh_new] show ?thesis
    by (simp add: vh_new_def demo_heap_def vh_set_def)
qed

theorem variables_save_not_durable_witness:
  "crash \<lparr>sd_main = Some \<lparr>df_bytes = [1], df_synced = False\<rparr>, sd_tmp = None, sd_undo = Some None, sd_dir = KeptDir\<rparr>
     \<lparr>sd_main = Some \<lparr>df_bytes = [0], df_synced = False\<rparr>, sd_tmp = None, sd_undo = None, sd_dir = KeptDir\<rparr>"
  by (rule variables_save_not_durable [OF demo_vh_save])

end
