(* ===== verification/Scopes.thy ===== *)
theory Scopes
  imports Prelude
begin

text \<open>
  The scope store, \<^verbatim>\<open>crates/primitives/src/scopes.rs\<close>: the scopes by name, and an
  index from the facet a scope lives as long as to the scope. The methods on the global store take
  its lock and call these.
\<close>

section \<open>State and operations\<close>

record scope_info =
  si_name :: ustr
  si_attributes :: "ustr \<rightharpoonup> string"
  si_lifetime_state :: "ustr option"

record scope_store =
  ss_scopes :: "(ustr \<times> scope_info) list"
  ss_state_to_scope :: "ustr \<rightharpoonup> ustr"
  ss_pending :: "ustr list"

definition si_user :: "scope_info \<Rightarrow> string option" where
  "si_user i = si_attributes i ''user''"

definition si_attr :: "scope_info \<Rightarrow> ustr \<Rightarrow> string option" where
  "si_attr i k = si_attributes i k"

definition ss_default :: scope_store where
  "ss_default = \<lparr>ss_scopes = [], ss_state_to_scope = Map.empty, ss_pending = []\<rparr>"

definition ss_upsert :: "ustr \<Rightarrow> (ustr \<rightharpoonup> string) \<Rightarrow> ustr option \<Rightarrow> scope_store \<Rightarrow> scope_store" where
  "ss_upsert name attributes lifetime_state st =
     (let index = (case Option.bind (map_of (ss_scopes st) name) si_lifetime_state of
                     Some old_state \<Rightarrow>
                       if Some old_state \<noteq> lifetime_state then (ss_state_to_scope st)(old_state := None) else ss_state_to_scope st
                   | None \<Rightarrow> ss_state_to_scope st);
          index = (case lifetime_state of Some state_name \<Rightarrow> index(state_name \<mapsto> name) | None \<Rightarrow> index)
      in st\<lparr>ss_state_to_scope := index,
            ss_scopes := AList.update name
              \<lparr>si_name = name, si_attributes = attributes, si_lifetime_state = lifetime_state\<rparr> (ss_scopes st)\<rparr>)"

definition ss_by_name :: "scope_store \<Rightarrow> ustr \<Rightarrow> scope_info option" where
  "ss_by_name st scope = map_of (ss_scopes st) scope"

definition ss_remove_scope :: "ustr \<Rightarrow> scope_store \<Rightarrow> bool \<times> scope_store" where
  "ss_remove_scope scope st =
     (case map_of (ss_scopes st) scope of
        None \<Rightarrow> (False, st)
      | Some info \<Rightarrow>
          (let st = st\<lparr>ss_scopes := AList.delete scope (ss_scopes st)\<rparr>
           in (True, case si_lifetime_state info of
                       Some state_name \<Rightarrow> st\<lparr>ss_state_to_scope := (ss_state_to_scope st)(state_name := None)\<rparr>
                     | None \<Rightarrow> st)))"

definition ss_scope_for_state :: "scope_store \<Rightarrow> ustr \<Rightarrow> ustr option" where
  "ss_scope_for_state st state_name = ss_state_to_scope st state_name"

definition ss_list :: "scope_store \<Rightarrow> scope_info list" where
  "ss_list st = map snd (ss_scopes st)"

definition user_for_scope :: "scope_store \<Rightarrow> ustr \<Rightarrow> string option" where
  "user_for_scope st scope = Option.bind (ss_by_name st scope) si_user"

section \<open>The index\<close>

text \<open>The index is exact: it maps a state to a scope just when the scope lives as long as it.\<close>

definition index_exact :: "scope_store \<Rightarrow> bool" where
  "index_exact st \<longleftrightarrow>
     (\<forall>s n. ss_state_to_scope st s = Some n \<longleftrightarrow> (\<exists>i. map_of (ss_scopes st) n = Some i \<and> si_lifetime_state i = Some s))"

lemma ss_upsert_index:
  "ss_state_to_scope (ss_upsert name attrs life st) s =
     (if life = Some s then Some name
      else if Option.bind (map_of (ss_scopes st) name) si_lifetime_state = Some s then None
      else ss_state_to_scope st s)"
  by (cases life; cases "Option.bind (map_of (ss_scopes st) name) si_lifetime_state") (simp_all add: ss_upsert_def Let_def)

lemma ss_upsert_scopes:
  "map_of (ss_scopes (ss_upsert name attrs life st)) =
     (map_of (ss_scopes st))(name \<mapsto> \<lparr>si_name = name, si_attributes = attrs, si_lifetime_state = life\<rparr>)"
  by (simp add: ss_upsert_def Let_def)

text \<open>
  The index stays exact as long as no scope is given a lifetime facet that another scope already
  has, and every operation keeps it so.
\<close>

theorem scope_index_exact:
  "index_exact ss_default
   \<and> (index_exact st \<and> (\<forall>s n i. life = Some s \<and> map_of (ss_scopes st) n = Some i \<and> si_lifetime_state i = Some s \<longrightarrow> n = name) \<longrightarrow>
        index_exact (ss_upsert name attrs life st) \<and> ss_by_name (ss_upsert name attrs life st) name =
          Some \<lparr>si_name = name, si_attributes = attrs, si_lifetime_state = life\<rparr>)
   \<and> (index_exact st \<longrightarrow> index_exact (snd (ss_remove_scope name st))
        \<and> ss_by_name (snd (ss_remove_scope name st)) name = None)"
proof (intro conjI impI)
  show "index_exact ss_default" by (simp add: index_exact_def ss_default_def)
next
  assume a: "index_exact st \<and> (\<forall>s n i. life = Some s \<and> map_of (ss_scopes st) n = Some i \<and> si_lifetime_state i = Some s \<longrightarrow> n = name)"
  then have ix: "\<And>s n. ss_state_to_scope st s = Some n \<longleftrightarrow> (\<exists>i. map_of (ss_scopes st) n = Some i \<and> si_lifetime_state i = Some s)"
    and fresh: "\<And>s n i. life = Some s \<Longrightarrow> map_of (ss_scopes st) n = Some i \<Longrightarrow> si_lifetime_state i = Some s \<Longrightarrow> n = name"
    by (simp_all add: index_exact_def)
  have uniq: "n = m" if "map_of (ss_scopes st) n = Some i" "si_lifetime_state i = Some s"
    "map_of (ss_scopes st) m = Some j" "si_lifetime_state j = Some s" for n m i j s
    using ix [of s n] ix [of s m] that by simp
  have "ss_state_to_scope (ss_upsert name attrs life st) s = Some n \<longleftrightarrow>
      (\<exists>i. map_of (ss_scopes (ss_upsert name attrs life st)) n = Some i \<and> si_lifetime_state i = Some s)" for s n
  proof (cases "n = name")
    case True
    have "ss_state_to_scope st s \<noteq> Some name" if "Option.bind (map_of (ss_scopes st) name) si_lifetime_state \<noteq> Some s"
      using ix [of s name] that by auto
    with True show ?thesis by (simp add: ss_upsert_index ss_upsert_scopes)
  next
    case False
    have "ss_state_to_scope st s \<noteq> Some n" if "Option.bind (map_of (ss_scopes st) name) si_lifetime_state = Some s"
      using uniq [of n _ s name] ix [of s n] that False by (auto simp: Option.bind_eq_Some_conv)
    moreover have "ss_state_to_scope st s \<noteq> Some n" if "life = Some s"
      using fresh [OF that] ix [of s n] False by auto
    ultimately show ?thesis using False ix [of s n] by (auto simp: ss_upsert_index ss_upsert_scopes)
  qed
  then show "index_exact (ss_upsert name attrs life st)" by (simp add: index_exact_def)
  show "ss_by_name (ss_upsert name attrs life st) name = Some \<lparr>si_name = name, si_attributes = attrs, si_lifetime_state = life\<rparr>"
    by (simp add: ss_by_name_def ss_upsert_def Let_def)
next
  assume "index_exact st"
  then have ix: "\<And>s n. ss_state_to_scope st s = Some n \<longleftrightarrow> (\<exists>i. map_of (ss_scopes st) n = Some i \<and> si_lifetime_state i = Some s)"
    by (simp add: index_exact_def)
  moreover have "n = m" if "map_of (ss_scopes st) n = Some i" "si_lifetime_state i = Some s"
    "map_of (ss_scopes st) m = Some j" "si_lifetime_state j = Some s" for n m i j s
    using ix [of s n] ix [of s m] that by simp
  ultimately show "index_exact (snd (ss_remove_scope name st))"
    by (auto simp: index_exact_def ss_remove_scope_def Let_def split: option.splits)
  show "ss_by_name (snd (ss_remove_scope name st)) name = None"
    by (simp add: ss_by_name_def ss_remove_scope_def Let_def split: option.splits)
qed

theorem scope_index_exact_witness:
  "index_exact (ss_upsert ''alice'' Map.empty (Some ''g:session'') ss_default)
   \<and> ss_by_name (ss_upsert ''alice'' Map.empty (Some ''g:session'') ss_default) ''alice'' =
          Some \<lparr>si_name = ''alice'', si_attributes = Map.empty, si_lifetime_state = Some ''g:session''\<rparr>"
proof -
  have "index_exact ss_default" using scope_index_exact by blast
  moreover have "ss_scopes ss_default = []" by (simp add: ss_default_def)
  ultimately show ?thesis
    using scope_index_exact [of ss_default "Some ''g:session''" "''alice''" Map.empty] by simp
qed

text \<open>
  Two scopes with the same lifetime facet: the index holds the later one only, and removing the
  earlier one removes that entry, so the later scope is no longer found when the facet ends.
\<close>

theorem scope_shared_state_orphans:
  fixes a b s :: ustr
  assumes "a \<noteq> b"
  shows "ss_scope_for_state (ss_upsert b f (Some s) (ss_upsert a e (Some s) st)) s = Some b
    \<and> ss_scope_for_state (snd (ss_remove_scope a (ss_upsert b f (Some s) (ss_upsert a e (Some s) st)))) s = None
    \<and> ss_by_name (snd (ss_remove_scope a (ss_upsert b f (Some s) (ss_upsert a e (Some s) st)))) b
        = Some \<lparr>si_name = b, si_attributes = f, si_lifetime_state = Some s\<rparr>"
  using assms by (simp add: ss_scope_for_state_def ss_remove_scope_def ss_by_name_def ss_upsert_def Let_def)

theorem scope_shared_state_orphans_witness:
  "ss_scope_for_state (snd (ss_remove_scope ''a'' (ss_upsert ''b'' Map.empty (Some ''g:session'')
      (ss_upsert ''a'' Map.empty (Some ''g:session'') ss_default)))) ''g:session'' = None"
  using scope_shared_state_orphans [of "''a''" "''b''"] by simp

end
