(* ===== verification/Mounts.thy ===== *)
theory Mounts
  imports Prelude "HOL-Library.Multiset"
begin

text \<open>
  Mount units, \<^verbatim>\<open>crates/primitives/src/mounts.rs\<close>: flags, the order in which units
  are mounted after one another and unmounted, and the test whether a target is mounted. The mount
  calls themselves are recorded, by the index of the unit; an error of the kernel is only logged by
  the code. The result of the extensions called after a mount is an argument.
\<close>

section \<open>Units and flags\<close>

record mount_unit =
  mo_source :: "ustr option"
  mo_target :: ustr
  mo_fstype :: "ustr option"
  mo_flags :: "string list option"
  mo_data :: "string option"
  mo_create :: "bool option"
  mo_after :: "ustr list option"
  mo_broadcast :: bool

definition mount_flag :: "string \<Rightarrow> u64" where
  "mount_flag s =
     (if s = ''MS_RDONLY'' then 1 else if s = ''MS_NOSUID'' then 2 else if s = ''MS_NODEV'' then 4
      else if s = ''MS_NOEXEC'' then 8 else if s = ''MS_RELATIME'' then 0x200000 else if s = ''MS_BIND'' then 0x1000
      else if s = ''MS_REC'' then 0x4000 else if s = ''MS_PRIVATE'' then 0x40000 else if s = ''MS_SHARED'' then 0x100000
      else if s = ''MS_SLAVE'' then 0x80000 else if s = ''MS_STRICTATIME'' then 0x1000000
      else if s = ''MS_LAZYTIME'' then 0x2000000 else 0)"

definition parse_mount_flags :: "string list option \<Rightarrow> u64" where
  "parse_mount_flags items =
     (case items of None \<Rightarrow> 0 | Some xs \<Rightarrow> fold (\<lambda>item flags. flags OR mount_flag item) xs 0)"

text \<open>\<open>str::split_whitespace\<close>\<close>

fun words_acc :: "string \<Rightarrow> string \<Rightarrow> string list" where
  "words_acc acc [] = (if acc = [] then [] else [rev acc])"
| "words_acc acc (c # cs) =
     (let n = ws_len id (c # cs) in
      if n > 0 then (if acc = [] then [] else [rev acc]) @ words_acc [] (drop (n - 1) cs) else words_acc (c # acc) cs)"

definition split_whitespace :: "string \<Rightarrow> string list" where
  "split_whitespace s = words_acc [] s"

text \<open>The fifth word of a line of \<^verbatim>\<open>/proc/self/mountinfo\<close> is its mount point.\<close>

definition is_mounted :: "string \<Rightarrow> string \<Rightarrow> bool" where
  "is_mounted mountinfo target \<longleftrightarrow>
     list_ex (\<lambda>line. let parts = split_whitespace line in length parts > 4 \<and> parts ! 4 = target) (lines mountinfo)"

section \<open>Mounting\<close>

datatype mount_effect = EMkdir ustr | EMount nat u64 | EUmount nat

type_synonym trace = "mount_effect list"

definition calls_extensions :: "mount_unit \<Rightarrow> bool" where
  "calls_extensions m \<longleftrightarrow> mo_broadcast m \<or> mo_fstype m \<in> {Some ''devtmpfs'', Some ''sysfs'', Some ''proc''}"

definition mount_target :: "(mount_unit \<Rightarrow> core_error option) \<Rightarrow> nat \<Rightarrow> mount_unit \<Rightarrow> trace \<Rightarrow> unit result \<times> trace" where
  "mount_target ext idx m tr =
     (let tr = (if mo_create m = Some True then tr @ [EMkdir (mo_target m)] else tr);
          tr = tr @ [EMount idx (parse_mount_flags (mo_flags m))]
      in if calls_extensions m then (case ext m of Some e \<Rightarrow> (Inl e, tr) | None \<Rightarrow> (Inr (), tr)) else (Inr (), tr))"

text \<open>
  The first loop of \<open>mount_units\<close>: a unit without \<open>after\<close> is mounted at once, the others
  wait, under the name made of their group and target.
\<close>

type_synonym pending = "(ustr \<times> ustr list \<times> nat) list"

fun mount_first ::
  "(mount_unit \<Rightarrow> core_error option) \<Rightarrow> (nat \<times> ustr \<times> mount_unit) list \<Rightarrow> ustr list \<Rightarrow> pending \<Rightarrow> trace \<Rightarrow>
   (ustr list \<times> pending) result \<times> trace" where
  "mount_first ext [] mounted pend tr = (Inr (mounted, pend), tr)"
| "mount_first ext ((idx, unit_name, m) # ms) mounted pend tr =
     (case mo_after m of
        Some afters \<Rightarrow> mount_first ext ms mounted (pend @ [(unit_name @ '':'' @ mo_target m, afters, idx)]) tr
      | None \<Rightarrow>
          (case mount_target ext idx m tr of
             (Inl e, tr) \<Rightarrow> (Inl e, tr)
           | (Inr _, tr) \<Rightarrow> mount_first ext ms (hs_insert (mo_target m) mounted) pend tr))"

text \<open>One \<open>retain\<close> over the waiting units.\<close>

fun mount_pass ::
  "(mount_unit \<Rightarrow> core_error option) \<Rightarrow> (ustr \<times> mount_unit) list \<Rightarrow> pending \<Rightarrow> ustr list \<Rightarrow> trace \<Rightarrow>
   pending \<times> bool \<times> ustr list \<times> trace" where
  "mount_pass ext mounts [] mounted tr = ([], False, mounted, tr)"
| "mount_pass ext mounts ((mount_name, afters, idx) # pend) mounted tr =
     (if list_all (\<lambda>a. a \<in> set mounted) afters
      then (if idx < length mounts
            then (case mount_pass ext mounts pend (hs_insert mount_name mounted)
                         (snd (mount_target ext idx (snd (mounts ! idx)) tr)) of
                    (kept, _, mounted, tr) \<Rightarrow> (kept, True, mounted, tr))
            else mount_pass ext mounts pend mounted tr)
      else (case mount_pass ext mounts pend mounted tr of
              (kept, progress, mounted, tr) \<Rightarrow> ((mount_name, afters, idx) # kept, progress, mounted, tr)))"

lemma mount_pass_shrinks:
  "mount_pass ext mounts pend mounted tr = (kept, progress, mounted', tr') \<Longrightarrow>
   length kept \<le> length pend \<and> (progress \<longrightarrow> length kept < length pend)"
  by (induction pend arbitrary: mounted tr kept progress mounted' tr') (fastforce split: if_splits prod.splits)+

function mount_loop ::
  "(mount_unit \<Rightarrow> core_error option) \<Rightarrow> (ustr \<times> mount_unit) list \<Rightarrow> pending \<Rightarrow> ustr list \<Rightarrow> trace \<Rightarrow> pending \<times> trace" where
  "mount_loop ext mounts pend mounted tr =
     (case mount_pass ext mounts pend mounted tr of
        (kept, progress, mounted, tr) \<Rightarrow> if progress then mount_loop ext mounts kept mounted tr else (kept, tr))"
  by pat_completeness auto
termination
  by (relation "measure (\<lambda>(_, _, pend, _, _). length pend)") (auto dest!: mount_pass_shrinks [OF sym])

declare mount_loop.simps [simp del]

definition mount_units ::
  "(mount_unit \<Rightarrow> core_error option) \<Rightarrow> (ustr \<times> mount_unit) list \<Rightarrow> trace \<Rightarrow> pending result \<times> trace" where
  "mount_units ext mounts tr =
     (case mount_first ext (zip [0..<length mounts] mounts) [] [] tr of
        (Inl e, tr) \<Rightarrow> (Inl e, tr)
      | (Inr (mounted, pend), tr) \<Rightarrow>
          (case mount_loop ext mounts pend mounted tr of (unresolved, tr) \<Rightarrow> (Inr unresolved, tr)))"

section \<open>Unmounting\<close>

definition umount_target :: "nat \<Rightarrow> trace \<Rightarrow> trace" where
  "umount_target idx tr = tr @ [EUmount idx]"

text \<open>For each name, the targets of the units that are mounted after it.\<close>

definition dependents :: "(ustr \<times> mount_unit) list \<Rightarrow> (ustr \<times> ustr list) list" where
  "dependents mounts =
     fold (\<lambda>(_, m) deps.
        case mo_after m of None \<Rightarrow> deps
        | Some afters \<Rightarrow>
            fold (\<lambda>a deps. AList.update a ((case map_of deps a of Some l \<Rightarrow> l | None \<Rightarrow> []) @ [mo_target m]) deps) afters deps)
       mounts []"

fun umount_first ::
  "(ustr \<times> ustr list) list \<Rightarrow> (nat \<times> ustr \<times> mount_unit) list \<Rightarrow> ustr list \<Rightarrow> pending \<Rightarrow> trace \<Rightarrow>
   ustr list \<times> pending \<times> trace" where
  "umount_first deps [] unmounted pend tr = (unmounted, pend, tr)"
| "umount_first deps ((idx, _, m) # ms) unmounted pend tr =
     (case map_of deps (mo_target m) of
        Some ds \<Rightarrow> umount_first deps ms unmounted (pend @ [(mo_target m, ds, idx)]) tr
      | None \<Rightarrow> umount_first deps ms (hs_insert (mo_target m) unmounted) pend (umount_target idx tr))"

fun umount_pass ::
  "(ustr \<times> mount_unit) list \<Rightarrow> pending \<Rightarrow> ustr list \<Rightarrow> trace \<Rightarrow> pending \<times> bool \<times> ustr list \<times> trace" where
  "umount_pass mounts [] unmounted tr = ([], False, unmounted, tr)"
| "umount_pass mounts ((target, ds, idx) # pend) unmounted tr =
     (if list_all (\<lambda>d. d \<in> set unmounted) ds
      then (if idx < length mounts
            then (case umount_pass mounts pend (hs_insert target unmounted) (umount_target idx tr) of
                    (kept, _, unmounted, tr) \<Rightarrow> (kept, True, unmounted, tr))
            else umount_pass mounts pend unmounted tr)
      else (case umount_pass mounts pend unmounted tr of
              (kept, progress, unmounted, tr) \<Rightarrow> ((target, ds, idx) # kept, progress, unmounted, tr)))"

lemma umount_pass_shrinks:
  "umount_pass mounts pend mounted tr = (kept, progress, mounted', tr') \<Longrightarrow>
   length kept \<le> length pend \<and> (progress \<longrightarrow> length kept < length pend)"
  by (induction pend arbitrary: mounted tr kept progress mounted' tr') (fastforce split: if_splits prod.splits)+

function umount_loop ::
  "(ustr \<times> mount_unit) list \<Rightarrow> pending \<Rightarrow> ustr list \<Rightarrow> trace \<Rightarrow> pending \<times> trace" where
  "umount_loop mounts pend unmounted tr =
     (case umount_pass mounts pend unmounted tr of
        (kept, progress, unmounted, tr) \<Rightarrow> if progress then umount_loop mounts kept unmounted tr else (kept, tr))"
  by pat_completeness auto
termination
  by (relation "measure (\<lambda>(_, pend, _, _). length pend)") (auto dest!: umount_pass_shrinks [OF sym])

declare umount_loop.simps [simp del]

definition unmount_units :: "(ustr \<times> mount_unit) list \<Rightarrow> trace \<Rightarrow> pending \<times> trace" where
  "unmount_units mounts tr =
     (case umount_first (dependents mounts) (zip [0..<length mounts] mounts) [] [] tr of
        (unmounted, pend, tr) \<Rightarrow> umount_loop mounts pend unmounted tr)"

section \<open>The runtime's actions\<close>

text \<open>\<open>mount\<close> and \<open>umount\<close>: the unit as the registry finds it.\<close>

definition mount_action ::
  "(mount_unit \<Rightarrow> core_error option) \<Rightarrow> (string \<Rightarrow> (nat \<times> mount_unit) option) \<Rightarrow> string result \<Rightarrow> string \<Rightarrow> trace \<Rightarrow>
   unit result \<times> trace" where
  "mount_action ext find_unit mountinfo name tr =
     (case find_unit name of
        None \<Rightarrow> (Inl (MissingSchema name), tr)
      | Some (idx, m) \<Rightarrow>
          (case mountinfo of
             Inl e \<Rightarrow> (Inl e, tr)
           | Inr info \<Rightarrow> if is_mounted info (mo_target m) then (Inr (), tr) else mount_target ext idx m tr))"

definition umount_action :: "(string \<Rightarrow> (nat \<times> mount_unit) option) \<Rightarrow> string \<Rightarrow> trace \<Rightarrow> unit result \<times> trace" where
  "umount_action find_unit name tr =
     (case find_unit name of None \<Rightarrow> (Inl (MissingSchema name), tr) | Some (idx, m) \<Rightarrow> (Inr (), umount_target idx tr))"

section \<open>Repeated passes\<close>

text \<open>
  Mounting and unmounting share the scheme: passes over the waiting entries that finish every
  entry whose names are all there, until a pass finishes none.
\<close>

definition names_of :: "pending \<Rightarrow> ustr set" where "names_of ds = fst ` set ds"
definition afters_of :: "ustr \<times> ustr list \<times> nat \<Rightarrow> ustr set" where "afters_of e = set (fst (snd e))"
definition index_of :: "ustr \<times> ustr list \<times> nat \<Rightarrow> nat" where "index_of e = snd (snd e)"

text \<open>Every entry's names were there when it was finished.\<close>

definition in_order :: "ustr set \<Rightarrow> pending \<Rightarrow> bool" where
  "in_order M ds \<longleftrightarrow> (\<forall>xs e ys. ds = xs @ e # ys \<longrightarrow> afters_of e \<subseteq> M \<union> names_of xs)"

lemma names_of_simps [simp]: "names_of [] = {}" "names_of (e # ds) = insert (fst e) (names_of ds)" "names_of (xs @ ys) = names_of xs \<union> names_of ys"
  by (auto simp: names_of_def)

lemma in_order_Nil [simp]: "in_order M []" by (simp add: in_order_def)

lemma in_order_Cons: "in_order M (e # ds) \<longleftrightarrow> afters_of e \<subseteq> M \<and> in_order (insert (fst e) M) ds"
proof
  assume a: "in_order M (e # ds)"
  have "afters_of e \<subseteq> M" using a [unfolded in_order_def, rule_format, of "[]" e ds] by simp
  moreover have "afters_of x \<subseteq> insert (fst e) M \<union> names_of xs" if "ds = xs @ x # ys" for xs x ys
    using a [unfolded in_order_def, rule_format, of "e # xs" x ys] that by simp
  ultimately show "afters_of e \<subseteq> M \<and> in_order (insert (fst e) M) ds" by (simp add: in_order_def)
next
  assume a: "afters_of e \<subseteq> M \<and> in_order (insert (fst e) M) ds"
  have "afters_of x \<subseteq> M \<union> names_of xs" if "e # ds = xs @ x # ys" for xs x ys
  proof (cases xs)
    case Nil
    with a that show ?thesis by simp
  next
    case (Cons z zs)
    with that a [THEN conjunct2, unfolded in_order_def, rule_format, of zs x ys] show ?thesis by simp
  qed
  then show "in_order M (e # ds)" by (simp add: in_order_def)
qed

lemma in_order_append: "in_order M (ds @ es) \<longleftrightarrow> in_order M ds \<and> in_order (M \<union> names_of ds) es"
  by (induction ds arbitrary: M) (auto simp: in_order_Cons)

locale passes =
  fixes n :: nat
    and pass :: "pending \<Rightarrow> ustr list \<Rightarrow> 't \<Rightarrow> pending \<times> bool \<times> ustr list \<times> 't"
    and loop :: "pending \<Rightarrow> ustr list \<Rightarrow> 't \<Rightarrow> pending \<times> 't"
    and step :: "nat \<Rightarrow> 't \<Rightarrow> 't"
    and order :: "'t \<Rightarrow> nat list"
  assumes pass_Nil: "pass [] M t = ([], False, M, t)"
    and pass_Cons: "i < n \<Longrightarrow> pass ((nm, as, i) # p) M t =
      (if set as \<subseteq> set M then (case pass p (hs_insert nm M) (step i t) of (k, _, M, t) \<Rightarrow> (k, True, M, t))
       else (case pass p M t of (k, pr, M, t) \<Rightarrow> ((nm, as, i) # k, pr, M, t)))"
    and loop_unfold: "loop p M t = (case pass p M t of (k, pr, M, t) \<Rightarrow> if pr then loop k M t else (k, t))"
    and order_step: "order (step i t) = order t @ [i]"
begin

lemma pass_result:
  "\<forall>e \<in> set p. index_of e < n \<Longrightarrow> pass p M t = (kept, pr, M', t') \<Longrightarrow>
   \<exists>ds. order t' = order t @ map index_of ds \<and> set M' = set M \<union> names_of ds \<and> mset p = mset kept + mset ds \<and>
     in_order (set M) ds \<and> pr = (ds \<noteq> []) \<and> (ds = [] \<longrightarrow> (\<forall>e \<in> set kept. \<not> afters_of e \<subseteq> set M))"
proof (induction p arbitrary: M t kept pr M' t')
  case Nil
  then show ?case by (auto simp: pass_Nil intro!: exI [of _ "[]"])
next
  case (Cons e p)
  obtain nm as i where e: "e = (nm, as, i)" by (cases e)
  have i: "i < n" "\<forall>e \<in> set p. index_of e < n" using Cons.prems(1) by (auto simp: e index_of_def)
  show ?case
  proof (cases "set as \<subseteq> set M")
    case True
    obtain pr' where r: "pass p (hs_insert nm M) (step i t) = (kept, pr', M', t')" "pr"
      using Cons.prems(2) True by (auto simp: e pass_Cons [OF i(1)] split: prod.splits)
    from Cons.IH [OF i(2) r(1)] obtain ds where
      "order t' = order (step i t) @ map index_of ds" "set M' = insert nm (set M) \<union> names_of ds"
      "mset p = mset kept + mset ds" "in_order (insert nm (set M)) ds" by auto
    with r(2) True show ?thesis
      by (intro exI [of _ "e # ds"]) (auto simp: e in_order_Cons order_step afters_of_def index_of_def)
  next
    case False
    obtain k where r: "pass p M t = (k, pr, M', t')" "kept = e # k"
      using Cons.prems(2) False by (auto simp: e pass_Cons [OF i(1)] split: prod.splits)
    from Cons.IH [OF i(2) r(1)] r(2) False show ?thesis by (fastforce simp: e afters_of_def)
  qed
qed

lemma loop_result:
  "\<forall>e \<in> set p. index_of e < n \<Longrightarrow> loop p M t = (kept, t') \<Longrightarrow>
   \<exists>ds. order t' = order t @ map index_of ds \<and> mset p = mset kept + mset ds \<and> in_order (set M) ds \<and>
     (\<forall>e \<in> set kept. \<not> afters_of e \<subseteq> set M \<union> names_of ds)"
proof (induction "length p" arbitrary: p M t rule: less_induct)
  case less
  obtain k pr M1 t1 where p: "pass p M t = (k, pr, M1, t1)" by (cases "pass p M t") auto
  from pass_result [OF less.prems(1) p] obtain ds where ds: "order t1 = order t @ map index_of ds"
    "set M1 = set M \<union> names_of ds" "mset p = mset k + mset ds" "in_order (set M) ds" "pr = (ds \<noteq> [])"
    "ds = [] \<longrightarrow> (\<forall>e \<in> set k. \<not> afters_of e \<subseteq> set M)" by blast
  show ?case
  proof (cases pr)
    case True
    have l: "loop k M1 t1 = (kept, t')" using less.prems(2) True by (simp add: loop_unfold [of p] p)
    have "length p = length k + length ds" using arg_cong [OF ds(3), of size] by simp
    then have len: "length k < length p" using True ds(5) by simp
    have "set k \<subseteq> set p" using arg_cong [OF ds(3), of set_mset] by auto
    with less.prems(1) have ix: "\<forall>e \<in> set k. index_of e < n" by blast
    from less.hyps [OF len ix l] obtain es where "order t' = order t1 @ map index_of es"
      "mset k = mset kept + mset es" "in_order (set M1) es" "\<forall>e \<in> set kept. \<not> afters_of e \<subseteq> set M1 \<union> names_of es" by blast
    with ds show ?thesis by (intro exI [of _ "ds @ es"]) (auto simp: in_order_append Un_assoc)
  next
    case False
    then have "loop p M t = (k, t1)" by (simp add: loop_unfold [of p] p)
    with less.prems(2) False ds show ?thesis by (intro exI [of _ "[]"]) auto
  qed
qed

end

fun effect_index :: "mount_effect \<Rightarrow> nat option" where
  "effect_index (EMount i _) = Some i"
| "effect_index (EUmount i) = Some i"
| "effect_index (EMkdir _) = None"

text \<open>The units that mount or unmount calls were made for, in order.\<close>

definition order_of :: "trace \<Rightarrow> nat list" where
  "order_of tr = List.map_filter effect_index tr"

lemma order_of_append [simp]: "order_of (a @ b) = order_of a @ order_of b"
  by (simp add: order_of_def List.map_filter_def)

lemma order_of_simps [simp]: "order_of [] = []" "order_of [EMount i f] = [i]" "order_of [EUmount i] = [i]" "order_of [EMkdir d] = []"
  by (simp_all add: order_of_def List.map_filter_def)

lemma list_all_subset: "list_all (\<lambda>a. a \<in> set M) as \<longleftrightarrow> set as \<subseteq> set M"
  by (auto simp: list_all_iff)

lemma order_of_mkdir [simp]: "order_of (EMkdir d # tr) = order_of tr"
  by (simp add: order_of_def List.map_filter_def)

lemma order_of_mount_target: "order_of (snd (mount_target ext i m tr)) = order_of tr @ [i]"
  by (simp add: mount_target_def Let_def split: option.split)

interpretation mounting: passes "length mounts" "mount_pass ext mounts" "mount_loop ext mounts"
    "\<lambda>i tr. snd (mount_target ext i (snd (mounts ! i)) tr)" order_of for ext mounts
  by unfold_locales
    (simp_all add: order_of_mount_target mount_loop.simps [of ext mounts] list_all_subset case_prod_unfold)

interpretation unmounting: passes "length mounts" "umount_pass mounts" "umount_loop mounts" umount_target order_of for mounts
  by unfold_locales
    (simp_all add: umount_target_def umount_loop.simps [of mounts] list_all_subset case_prod_unfold)

section \<open>What is mounted, and when\<close>

text \<open>The name under which a unit counts as mounted.\<close>

definition unit_id :: "ustr \<times> mount_unit \<Rightarrow> ustr" where
  "unit_id u = (case mo_after (snd u) of None \<Rightarrow> mo_target (snd u) | Some _ \<Rightarrow> fst u @ '':'' @ mo_target (snd u))"

definition unit_afters :: "ustr \<times> mount_unit \<Rightarrow> ustr set" where
  "unit_afters u = (case mo_after (snd u) of None \<Rightarrow> {} | Some as \<Rightarrow> set as)"

definition direct_units :: "(nat \<times> ustr \<times> mount_unit) list \<Rightarrow> nat list" where
  "direct_units ims = map fst (filter (\<lambda>(_, _, m). mo_after m = None) ims)"

definition waiting_units :: "(nat \<times> ustr \<times> mount_unit) list \<Rightarrow> pending" where
  "waiting_units ims =
     map (\<lambda>(i, u, m). (u @ '':'' @ mo_target m, the (mo_after m), i)) (filter (\<lambda>(_, _, m). mo_after m \<noteq> None) ims)"

lemma mount_first_result:
  "mount_first ext ims mounted pend tr = (Inr (M, P), tr') \<Longrightarrow>
   order_of tr' = order_of tr @ direct_units ims \<and> P = pend @ waiting_units ims \<and>
   set M = set mounted \<union> {mo_target m | i u m. (i, u, m) \<in> set ims \<and> mo_after m = None}"
proof (induction ims arbitrary: mounted pend tr)
  case (Cons x ims)
  obtain i u m where x: "x = (i, u, m)" by (cases x)
  show ?case
  proof (cases "mo_after m")
    case None
    obtain r t where mt: "mount_target ext i m tr = (r, t)" by fastforce
    have r: "r = Inr ()" using Cons.prems None mt by (cases r) (auto simp: x)
    have run: "mount_first ext ims (hs_insert (mo_target m) mounted) pend t = (Inr (M, P), tr')"
      using Cons.prems None mt r by (simp add: x)
    have "order_of t = order_of tr @ [i]" using order_of_mount_target [of ext i m tr] mt by simp
    with Cons.IH [OF run] None show ?thesis by (auto simp: x direct_units_def waiting_units_def)
  next
    case (Some as)
    with Cons.prems have "mount_first ext ims mounted (pend @ [(u @ '':'' @ mo_target m, as, i)]) tr = (Inr (M, P), tr')"
      by (simp add: x)
    from Cons.IH [OF this] Some show ?thesis by (auto simp: x direct_units_def waiting_units_def)
  qed
qed (simp add: direct_units_def waiting_units_def)

lemma set_zip_upt: "(i, x) \<in> set (zip [0..<length xs] xs) \<longleftrightarrow> i < length xs \<and> xs ! i = x"
  by (auto simp: set_zip intro!: exI [of _ i])

lemma unit_ex: "(\<exists>u m. (i, u, m) \<in> set (zip [0..<length mounts] mounts) \<and> Q m) \<longleftrightarrow> i < length mounts \<and> Q (snd (mounts ! i))"
  by (cases "mounts ! i") (simp add: set_zip_upt)

lemma set_direct_units:
  "set (direct_units (zip [0..<length mounts] mounts)) = {i. i < length mounts \<and> mo_after (snd (mounts ! i)) = None}"
proof -
  have "i \<in> set (direct_units (zip [0..<length mounts] mounts)) \<longleftrightarrow>
      (\<exists>u m. (i, u, m) \<in> set (zip [0..<length mounts] mounts) \<and> mo_after m = None)" for i
    by (force simp: direct_units_def image_iff)
  then show ?thesis by (simp add: unit_ex set_eq_iff)
qed

lemma direct_and_waiting:
  "mset (direct_units ims) + mset (map index_of (waiting_units ims)) = mset (map fst ims)"
  by (induction ims) (auto simp: direct_units_def waiting_units_def index_of_def)

lemma waiting_unit:
  assumes "e \<in> set (waiting_units (zip [0..<length mounts] mounts))"
  shows "index_of e < length mounts \<and> fst e = unit_id (mounts ! index_of e) \<and> afters_of e = unit_afters (mounts ! index_of e)
         \<and> mo_after (snd (mounts ! index_of e)) \<noteq> None"
proof -
  from assms obtain i u m where e: "e = (u @ '':'' @ mo_target m, the (mo_after m), i)" "mo_after m \<noteq> None"
    "(i, u, m) \<in> set (zip [0..<length mounts] mounts)" by (auto simp: waiting_units_def)
  then have "i < length mounts" "mounts ! i = (u, m)" by (auto simp: set_zip_upt)
  with e(1,2) show ?thesis by (auto simp: index_of_def afters_of_def unit_id_def unit_afters_def)
qed

lemma mount_units_result:
  assumes "mount_units ext mounts tr = (Inr unresolved, tr')"
  obtains ds where "order_of tr' = order_of tr @ direct_units (zip [0..<length mounts] mounts) @ map index_of ds"
    "mset (waiting_units (zip [0..<length mounts] mounts)) = mset unresolved + mset ds"
    "in_order (unit_id ` (!) mounts ` set (direct_units (zip [0..<length mounts] mounts))) ds"
    "\<forall>e \<in> set unresolved. \<not> afters_of e \<subseteq> unit_id ` (!) mounts ` set (direct_units (zip [0..<length mounts] mounts)) \<union> names_of ds"
proof -
  let ?ims = "zip [0..<length mounts] mounts"
  from assms obtain M P t1 where f: "mount_first ext ?ims [] [] tr = (Inr (M, P), t1)"
    and l: "mount_loop ext mounts P M t1 = (unresolved, tr')"
    by (auto simp: mount_units_def split: prod.splits sum.splits)
  from mount_first_result [OF f] have t1: "order_of t1 = order_of tr @ direct_units ?ims" and P: "P = waiting_units ?ims"
    and M: "set M = {mo_target m | i u m. (i, u, m) \<in> set ?ims \<and> mo_after m = None}" by auto
  have M: "set M = unit_id ` (!) mounts ` set (direct_units ?ims)"
  proof -
    have "x \<in> set M \<longleftrightarrow> (\<exists>i. i < length mounts \<and> mo_after (snd (mounts ! i)) = None \<and> x = mo_target (snd (mounts ! i)))" for x
      unfolding M unit_ex [where Q = "\<lambda>m. mo_after m = None \<and> x = mo_target m", symmetric] by blast
    then show ?thesis by (auto simp: set_direct_units unit_id_def image_iff)
  qed
  have "\<forall>e \<in> set P. index_of e < length mounts" using waiting_unit P by blast
  from mounting.loop_result [OF this l] t1 P M that show ?thesis by auto
qed

text \<open>The units mounted after a name.\<close>

abbreviation deps_of :: "(ustr \<times> ustr list) list \<Rightarrow> ustr \<Rightarrow> ustr set" where
  "deps_of al a \<equiv> (case map_of al a of Some l \<Rightarrow> set l | None \<Rightarrow> {})"

lemma deps_inner:
  "map_of (fold (\<lambda>a deps. AList.update a ((case map_of deps a of Some l \<Rightarrow> l | None \<Rightarrow> []) @ [t]) deps) as al) a = None
     \<longleftrightarrow> map_of al a = None \<and> a \<notin> set as"
  "deps_of (fold (\<lambda>a deps. AList.update a ((case map_of deps a of Some l \<Rightarrow> l | None \<Rightarrow> []) @ [t]) deps) as al) a
     = deps_of al a \<union> (if a \<in> set as then {t} else {})"
  by (induction as arbitrary: al) (auto split: option.splits if_splits)

lemma dependents_spec:
  "map_of (dependents mounts) a = None \<longleftrightarrow> (\<forall>u \<in> set mounts. a \<notin> unit_afters u)"
  "deps_of (dependents mounts) a = (mo_target \<circ> snd) ` {u \<in> set mounts. a \<in> unit_afters u}"
proof -
  let ?f = "\<lambda>(_, m) deps.
        case mo_after m of None \<Rightarrow> deps
        | Some afters \<Rightarrow>
            fold (\<lambda>a deps. AList.update a ((case map_of deps a of Some l \<Rightarrow> l | None \<Rightarrow> []) @ [mo_target m]) deps) afters deps"
  have g: "(map_of (fold ?f ms al) a = None \<longleftrightarrow> map_of al a = None \<and> (\<forall>u \<in> set ms. a \<notin> unit_afters u)) \<and>
      deps_of (fold ?f ms al) a = deps_of al a \<union> (mo_target \<circ> snd) ` {u \<in> set ms. a \<in> unit_afters u}" for ms al
  proof (induction ms arbitrary: al)
    case (Cons x ms)
    obtain u m where x: "x = (u, m)" by (cases x)
    let ?al = "?f x al"
    have "map_of ?al a = None \<longleftrightarrow> map_of al a = None \<and> a \<notin> unit_afters x"
      using deps_inner(1) [of "mo_target m" _ al a] by (simp add: x unit_afters_def split: option.split)
    moreover have "deps_of ?al a = deps_of al a \<union> (if a \<in> unit_afters x then {mo_target m} else {})"
    proof (cases "mo_after m")
      case (Some as)
      with deps_inner(2) [of "mo_target m" as al a] show ?thesis by (simp only: x unit_afters_def) simp
    qed (simp add: x unit_afters_def)
    moreover have "(mo_target \<circ> snd) ` {u \<in> set (x # ms). a \<in> unit_afters u} =
        (if a \<in> unit_afters x then {mo_target m} else {}) \<union> (mo_target \<circ> snd) ` {u \<in> set ms. a \<in> unit_afters u}"
    proof -
      have "{u \<in> set (x # ms). a \<in> unit_afters u} = (if a \<in> unit_afters x then {x} else {}) \<union> {u \<in> set ms. a \<in> unit_afters u}"
        by auto
      then show ?thesis by (simp add: x image_Un)
    qed
    moreover have "fold ?f (x # ms) al = fold ?f ms ?al" by simp
    ultimately show ?case using Cons.IH [of ?al] by (simp only: Un_assoc) auto
  qed simp
  show "map_of (dependents mounts) a = None \<longleftrightarrow> (\<forall>u \<in> set mounts. a \<notin> unit_afters u)"
    using g [of mounts "[]"] by (simp add: dependents_def)
  show "deps_of (dependents mounts) a = (mo_target \<circ> snd) ` {u \<in> set mounts. a \<in> unit_afters u}"
    using g [of mounts "[]"] by (simp add: dependents_def)
qed

definition leaf_units :: "(ustr \<times> ustr list) list \<Rightarrow> (nat \<times> ustr \<times> mount_unit) list \<Rightarrow> nat list" where
  "leaf_units deps ims = map fst (filter (\<lambda>(_, _, m). map_of deps (mo_target m) = None) ims)"

definition inner_units :: "(ustr \<times> ustr list) list \<Rightarrow> (nat \<times> ustr \<times> mount_unit) list \<Rightarrow> pending" where
  "inner_units deps ims =
     map (\<lambda>(i, u, m). (mo_target m, the (map_of deps (mo_target m)), i)) (filter (\<lambda>(_, _, m). map_of deps (mo_target m) \<noteq> None) ims)"

lemma umount_first_result:
  "umount_first deps ims unmounted pend tr = (M, P, tr') \<Longrightarrow>
   order_of tr' = order_of tr @ leaf_units deps ims \<and> P = pend @ inner_units deps ims \<and>
   set M = set unmounted \<union> {mo_target m | i u m. (i, u, m) \<in> set ims \<and> map_of deps (mo_target m) = None}"
proof (induction ims arbitrary: unmounted pend tr)
  case (Cons x ims)
  obtain i u m where x: "x = (i, u, m)" by (cases x)
  show ?case
  proof (cases "map_of deps (mo_target m)")
    case None
    with Cons.prems have "umount_first deps ims (hs_insert (mo_target m) unmounted) pend (umount_target i tr) = (M, P, tr')"
      by (simp add: x)
    from Cons.IH [OF this] None show ?thesis by (auto simp: x leaf_units_def inner_units_def umount_target_def)
  next
    case (Some ds)
    with Cons.prems have "umount_first deps ims unmounted (pend @ [(mo_target m, ds, i)]) tr = (M, P, tr')"
      by (simp add: x)
    from Cons.IH [OF this] Some show ?thesis by (auto simp: x leaf_units_def inner_units_def)
  qed
qed (simp add: leaf_units_def inner_units_def)

lemma leaf_and_inner:
  "mset (leaf_units deps ims) + mset (map index_of (inner_units deps ims)) = mset (map fst ims)"
  by (induction ims) (auto simp: leaf_units_def inner_units_def index_of_def)

text \<open>The targets that have to be unmounted before the target of a unit.\<close>

definition mounted_after :: "(ustr \<times> mount_unit) list \<Rightarrow> ustr \<times> mount_unit \<Rightarrow> ustr set" where
  "mounted_after mounts u = (mo_target \<circ> snd) ` {v \<in> set mounts. mo_target (snd u) \<in> unit_afters v}"

lemma inner_unit:
  assumes "e \<in> set (inner_units (dependents mounts) (zip [0..<length mounts] mounts))"
  shows "index_of e < length mounts \<and> fst e = mo_target (snd (mounts ! index_of e))
         \<and> afters_of e = mounted_after mounts (mounts ! index_of e)"
proof -
  from assms obtain i u m where e: "e = (mo_target m, the (map_of (dependents mounts) (mo_target m)), i)"
    "map_of (dependents mounts) (mo_target m) \<noteq> None"
    "(i, u, m) \<in> set (zip [0..<length mounts] mounts)" by (auto simp: inner_units_def)
  then have "i < length mounts" "mounts ! i = (u, m)" by (auto simp: set_zip_upt)
  moreover have "set (the (map_of (dependents mounts) (mo_target m))) = mounted_after mounts (u, m)"
  proof -
    obtain y where "map_of (dependents mounts) (mo_target m) = Some y" using e(2) by blast
    with dependents_spec(2) [of mounts "mo_target m"] show ?thesis by (simp add: mounted_after_def comp_def)
  qed
  ultimately show ?thesis using e(1) by (simp add: index_of_def afters_of_def)
qed

lemma set_leaf_units:
  "set (leaf_units (dependents mounts) (zip [0..<length mounts] mounts)) =
     {i. i < length mounts \<and> mounted_after mounts (mounts ! i) = {}}"
proof -
  have "i \<in> set (leaf_units (dependents mounts) (zip [0..<length mounts] mounts)) \<longleftrightarrow>
      (\<exists>u m. (i, u, m) \<in> set (zip [0..<length mounts] mounts) \<and> map_of (dependents mounts) (mo_target m) = None)" for i
    by (force simp: leaf_units_def image_iff)
  moreover have "map_of (dependents mounts) (mo_target (snd u)) = None \<longleftrightarrow> mounted_after mounts u = {}" for u
    by (auto simp: dependents_spec(1) mounted_after_def)
  ultimately show ?thesis by (intro set_eqI) (simp add: unit_ex)
qed

text \<open>An order of indices splits where the order of the finished entries splits.\<close>

lemma order_split:
  assumes "xs @ i # ys = leafs @ map index_of ds" "in_order (f ` set leafs) ds"
    and "\<And>e. e \<in> set ds \<Longrightarrow> fst e = f (index_of e) \<and> afters_of e = g (index_of e)"
    and "\<And>j. j \<in> set leafs \<Longrightarrow> g j = {}"
  shows "g i \<subseteq> f ` set xs"
proof (cases "length xs < length leafs")
  case True
  then have "leafs ! length xs = i" using assms(1) by (metis nth_append nth_append_length)
  with assms(4) True show ?thesis by force
next
  case False
  then obtain zs where zs: "xs = leafs @ zs" "zs @ i # ys = map index_of ds"
    using assms(1) by (auto simp: append_eq_append_conv2)
  then obtain es e fs where ds: "ds = es @ e # fs" "zs = map index_of es" "i = index_of e"
    by (smt (verit) map_eq_append_conv map_eq_Cons_conv)
  have "afters_of e \<subseteq> f ` set leafs \<union> names_of es" using assms(2) [unfolded in_order_def, rule_format, OF ds(1)] .
  moreover have "names_of es = f ` index_of ` set es"
    using assms(3) ds(1) by (force simp: names_of_def)
  ultimately show ?thesis using assms(3) [of e] ds zs(1) by (auto simp: image_Un)
qed

section \<open>Properties\<close>

text \<open>
  Mounting. When no extension fails, every unit is either mounted exactly once or left over; a unit
  is mounted only after every name in its \<open>after\<close> has been, and a unit is left over only if
  some name never is. The name of a unit without \<open>after\<close> is its target, that of any other its
  group and target.
\<close>

theorem mount_units_exact:
  assumes "mount_units ext mounts [] = (Inr unresolved, tr)"
  shows "mset (order_of tr) + mset (map index_of unresolved) = mset [0..<length mounts]
    \<and> (\<forall>xs i ys. order_of tr = xs @ i # ys \<longrightarrow> unit_afters (mounts ! i) \<subseteq> (\<lambda>j. unit_id (mounts ! j)) ` set xs)
    \<and> (\<forall>e \<in> set unresolved. \<not> unit_afters (mounts ! index_of e) \<subseteq> (\<lambda>j. unit_id (mounts ! j)) ` set (order_of tr))"
proof -
  let ?ims = "zip [0..<length mounts] mounts" and ?f = "\<lambda>j. unit_id (mounts ! j)"
  from mount_units_result [OF assms] obtain ds where ds: "order_of tr = direct_units ?ims @ map index_of ds"
    "mset (waiting_units ?ims) = mset unresolved + mset ds" "in_order (?f ` set (direct_units ?ims)) ds"
    "\<forall>e \<in> set unresolved. \<not> afters_of e \<subseteq> ?f ` set (direct_units ?ims) \<union> names_of ds"
    by (auto simp: image_image)
  have sub: "set ds \<subseteq> set (waiting_units ?ims)" "set unresolved \<subseteq> set (waiting_units ?ims)"
    using arg_cong [OF ds(2), of set_mset] by auto
  have w: "fst e = ?f (index_of e) \<and> afters_of e = unit_afters (mounts ! index_of e)"
    if "e \<in> set ds \<or> e \<in> set unresolved" for e
    using waiting_unit that sub by blast
  have "image_mset index_of (mset (waiting_units ?ims)) = image_mset index_of (mset unresolved) + image_mset index_of (mset ds)"
    by (simp add: ds(2))
  then have "mset (order_of tr) + mset (map index_of unresolved) = mset (map fst ?ims)"
    using direct_and_waiting [of ?ims] by (simp add: ds(1) ac_simps)
  moreover have "unit_afters (mounts ! i) \<subseteq> ?f ` set xs" if "order_of tr = xs @ i # ys" for xs i ys
    by (rule order_split [of xs i ys "direct_units ?ims" ds])
      (use that ds(1,3) w in \<open>auto simp: set_direct_units unit_afters_def\<close>)
  moreover have "names_of ds = ?f ` index_of ` set ds" using w by (force simp: names_of_def)
  then have "?f ` set (direct_units ?ims) \<union> names_of ds = ?f ` set (order_of tr)" by (simp add: ds(1) image_Un)
  ultimately show ?thesis using ds(4) w by (simp add: map_fst_zip)
qed

text \<open>
  Unmounting. Every unit is either unmounted exactly once or left over; a unit is unmounted only
  after all units whose \<open>after\<close> holds its target, and left over only if one of them never is.
\<close>

theorem unmount_units_exact:
  assumes "unmount_units mounts [] = (unresolved, tr)"
  shows "mset (order_of tr) + mset (map index_of unresolved) = mset [0..<length mounts]
    \<and> (\<forall>xs i ys. order_of tr = xs @ i # ys \<longrightarrow> mounted_after mounts (mounts ! i) \<subseteq> (\<lambda>j. mo_target (snd (mounts ! j))) ` set xs)
    \<and> (\<forall>e \<in> set unresolved. \<not> mounted_after mounts (mounts ! index_of e) \<subseteq> (\<lambda>j. mo_target (snd (mounts ! j))) ` set (order_of tr))"
proof -
  let ?ims = "zip [0..<length mounts] mounts" and ?f = "\<lambda>j. mo_target (snd (mounts ! j))" and ?d = "dependents mounts"
  obtain M P t1 where f: "umount_first ?d ?ims [] [] [] = (M, P, t1)" by (cases "umount_first ?d ?ims [] [] []") auto
  with assms have l: "umount_loop mounts P M t1 = (unresolved, tr)" by (simp add: unmount_units_def)
  from umount_first_result [OF f] have t1: "order_of t1 = leaf_units ?d ?ims" and P: "P = inner_units ?d ?ims"
    and M: "set M = {mo_target m | i u m. (i, u, m) \<in> set ?ims \<and> map_of ?d (mo_target m) = None}" by auto
  have "x \<in> set M \<longleftrightarrow> x \<in> ?f ` set (leaf_units ?d ?ims)" for x
  proof -
    have "x \<in> set M \<longleftrightarrow> (\<exists>i. i < length mounts \<and> map_of ?d (?f i) = None \<and> x = ?f i)"
      unfolding M unit_ex [where Q = "\<lambda>m. map_of ?d (mo_target m) = None \<and> x = mo_target m", symmetric] by blast
    then show ?thesis by (auto simp: set_leaf_units dependents_spec(1) mounted_after_def image_iff)
  qed
  then have M: "set M = ?f ` set (leaf_units ?d ?ims)" by blast
  have "\<forall>e \<in> set P. index_of e < length mounts" using inner_unit P by blast
  from unmounting.loop_result [OF this l] obtain ds where ds: "order_of tr = leaf_units ?d ?ims @ map index_of ds"
    "mset (inner_units ?d ?ims) = mset unresolved + mset ds" "in_order (?f ` set (leaf_units ?d ?ims)) ds"
    "\<forall>e \<in> set unresolved. \<not> afters_of e \<subseteq> ?f ` set (leaf_units ?d ?ims) \<union> names_of ds"
    using t1 P M by auto
  have sub: "set ds \<subseteq> set (inner_units ?d ?ims)" "set unresolved \<subseteq> set (inner_units ?d ?ims)"
    using arg_cong [OF ds(2), of set_mset] by auto
  have w: "fst e = ?f (index_of e) \<and> afters_of e = mounted_after mounts (mounts ! index_of e)"
    if "e \<in> set ds \<or> e \<in> set unresolved" for e
    using inner_unit that sub by blast
  have "image_mset index_of (mset (inner_units ?d ?ims)) = image_mset index_of (mset unresolved) + image_mset index_of (mset ds)"
    by (simp add: ds(2))
  then have "mset (order_of tr) + mset (map index_of unresolved) = mset (map fst ?ims)"
    using leaf_and_inner [of ?d ?ims] by (simp add: ds(1) ac_simps)
  moreover have "mounted_after mounts (mounts ! i) \<subseteq> ?f ` set xs" if "order_of tr = xs @ i # ys" for xs i ys
    by (rule order_split [of xs i ys "leaf_units ?d ?ims" ds]) (use that ds(1,3) w in \<open>auto simp: set_leaf_units\<close>)
  moreover have "names_of ds = ?f ` index_of ` set ds" using w by (force simp: names_of_def)
  then have "?f ` set (leaf_units ?d ?ims) \<union> names_of ds = ?f ` set (order_of tr)" by (simp add: ds(1) image_Un)
  ultimately show ?thesis using ds(4) w by (simp add: map_fst_zip)
qed

definition demo_mount :: "ustr \<Rightarrow> ustr list option \<Rightarrow> mount_unit" where
  "demo_mount target afters =
     \<lparr>mo_source = None, mo_target = target, mo_fstype = None, mo_flags = Some [''MS_RDONLY'', ''MS_NODEV''], mo_data = None,
      mo_create = None, mo_after = afters, mo_broadcast = False\<rparr>"

definition demo_chain :: "ustr \<Rightarrow> (ustr \<times> mount_unit) list" where
  "demo_chain third = [(''u'', demo_mount ''/a'' None), (''u'', demo_mount ''/a/b'' (Some [''/a''])),
     (''u'', demo_mount ''/a/b/c'' (Some [third]))]"

text \<open>
  The two orders name units differently. Mounting knows a unit with an \<open>after\<close> by its group
  and target, unmounting by its target alone. So of three units mounted one after the other, the
  third is never mounted when its \<open>after\<close> holds the target of the second, and when it
  holds the other name, the second is unmounted first, with the third on top of it.
\<close>

theorem mount_chain_names:
  "mount_units (\<lambda>_. None) (demo_chain ''/a/b'') [] = (Inr [(''u:/a/b/c'', [''/a/b''], 2)], [EMount 0 5, EMount 1 5])
   \<and> mount_units (\<lambda>_. None) (demo_chain ''u:/a/b'') [] = (Inr [], [EMount 0 5, EMount 1 5, EMount 2 5])
   \<and> unmount_units (demo_chain ''u:/a/b'') [] = ([], [EUmount 1, EUmount 2, EUmount 0])"
  by code_simp

text \<open>Mounting and unmounting at the concrete chain.\<close>

lemma demo_mounted: "mount_units (\<lambda>_. None) (demo_chain ''/a/b'') [] = (Inr [(''u:/a/b/c'', [''/a/b''], 2)], [EMount 0 5, EMount 1 5])"
  by code_simp

lemma demo_unmounted: "unmount_units (demo_chain ''u:/a/b'') [] = ([], [EUmount 1, EUmount 2, EUmount 0])"
  by code_simp

theorem mount_units_exact_witness:
  "\<not> unit_afters (demo_chain ''/a/b'' ! 2) \<subseteq> (\<lambda>j. unit_id (demo_chain ''/a/b'' ! j)) ` set (order_of [EMount 0 5, EMount 1 5])"
  using mount_units_exact [OF demo_mounted] by (simp add: index_of_def)

theorem unmount_units_exact_witness:
  "mset (order_of [EUmount 1, EUmount 2, EUmount 0]) = mset [0..<length (demo_chain ''u:/a/b'')]"
  using unmount_units_exact [OF demo_unmounted] by simp

end

