(* ===== verification/Flow.thy ===== *)
theory Flow
  imports FacetGraph Variables Scopes Registry
begin

text \<open>
  The flow runtime of \<^verbatim>\<open>crates/flow/src/flow.rs\<close>: setting and removing facets, the
  reconciliation of the facets that depend on them (transcendence and inverse transcendence), and
  impulses. \<open>set_facet\<close> and \<open>remove_facet\<close> call each other through the
  reconciliation; their bodies take the recursive call as an argument and \<open>flow_run\<close> ties
  the knot with fuel, so that not returning is visible.
\<close>

section \<open>Definitions of facets and impulses\<close>

datatype transport_method =
    TMType ustr
  | TMOptions ustr "ustr list" "ustr list option"
  | TMObject ustr json "ustr list option"

fun transport_id :: "transport_method \<Rightarrow> ustr" where
  "transport_id (TMType i) = i"
| "transport_id (TMOptions i _ _) = i"
| "transport_id (TMObject i _ _) = i"

datatype auto_payload_insert = InsertOne string | InsertMany "string list"

record auto_payload_config =
  ap_eval :: "string option"
  ap_args :: "string list option"
  ap_variable :: "string option"
  ap_insert :: "auto_payload_insert option"
  ap_many :: bool

datatype inverse_branching = InvSimple ustr | InvDetailed ustr "ustr option"

fun inv_name :: "inverse_branching \<Rightarrow> ustr" where
  "inv_name (InvSimple name) = name"
| "inv_name (InvDetailed name _) = name"

fun inv_branch :: "inverse_branching \<Rightarrow> ustr option" where
  "inv_branch (InvSimple _) = None"
| "inv_branch (InvDetailed _ branch) = branch"

record flow_facet =
  ff_name :: ustr
  ff_payload :: flow_payload_type
  ff_stop_on :: "inverse_branching list option"
  ff_after :: "flow_item list option"
  ff_branch :: "ustr list option"
  ff_auto_payload :: "auto_payload_config option"
  ff_subscribers :: "transport_method list option"
  ff_broadcast :: "ustr list option"
  ff_permissions :: "ustr list option"

record flow_impulse =
  fp_name :: ustr
  fp_payload :: flow_payload_type
  fp_after :: "flow_item list option"
  fp_branch :: "ustr list option"
  fp_subscribers :: "transport_method list option"
  fp_broadcast :: "ustr list option"
  fp_permissions :: "ustr list option"

section \<open>Environment and state\<close>

text \<open>
  What the runtime reads: the library, the metadata as the registry gives it, the variables and its
  two indexes.
\<close>

record flow_env =
  fl_lib :: json_lib
  fl_toml_json :: "toml \<Rightarrow> json option"
  fl_toml_print :: "toml \<Rightarrow> string"
  fl_environment :: environment
  fl_variables :: "variable_heap option"
  fl_find_facet :: "ustr \<Rightarrow> flow_facet option"
  fl_items_facet :: "(ustr \<times> flow_facet) list option"
  fl_find_impulse :: "ustr \<Rightarrow> flow_impulse option"
  fl_items_impulse :: "(ustr \<times> flow_impulse) list option"
  fl_trans :: "(ustr \<times> ustr list) list"
  fl_inverse :: "(ustr \<times> ustr list) list"

record flow_event =
  fe_name :: ustr
  fe_payload :: json
  fe_action :: flow_action
  fe_type :: flow_event_type

record flow_message =
  fm_endpoint :: ustr
  fm_type :: string
  fm_action :: string
  fm_payload :: json

text \<open>
  What it changes: the facets, the guard of the running operation, the events emitted and the
  messages dispatched to the transport runtime, in order.
\<close>

record flow_st =
  st_facets :: facet_map
  st_guard :: "ustr list"
  st_events :: "flow_event list"
  st_sent :: "flow_message list"

type_synonym flow_m = "flow_st \<Rightarrow> (unit result \<times> flow_st) option"

section \<open>Sequencing\<close>

definition fl_ok :: flow_m where "fl_ok s = Some (Inr (), s)"

definition fl_err :: "core_error \<Rightarrow> flow_m" where "fl_err e s = Some (Inl e, s)"

text \<open>\<open>m?; k\<close>, and \<open>let _ = m\<close>.\<close>

definition fl_then :: "flow_m \<Rightarrow> flow_m \<Rightarrow> flow_m" where
  "fl_then m k s = (case m s of None \<Rightarrow> None | Some (Inl e, s) \<Rightarrow> Some (Inl e, s) | Some (Inr _, s) \<Rightarrow> k s)"

definition fl_ignore :: "flow_m \<Rightarrow> flow_m" where
  "fl_ignore m s = (case m s of None \<Rightarrow> None | Some (_, s) \<Rightarrow> Some (Inr (), s))"

definition fl_modify :: "(flow_st \<Rightarrow> flow_st) \<Rightarrow> flow_m" where
  "fl_modify f s = Some (Inr (), f s)"

fun fl_for :: "('x \<Rightarrow> flow_m) \<Rightarrow> 'x list \<Rightarrow> flow_m" where
  "fl_for f [] = fl_ok"
| "fl_for f (x # xs) = fl_then (f x) (fl_for f xs)"

section \<open>Publishing\<close>

function trim_start_matches :: "string \<Rightarrow> string \<Rightarrow> string" where
  "trim_start_matches p s = (if p \<noteq> [] \<and> starts_with p s \<and> s \<noteq> [] then trim_start_matches p (drop (length p) s) else s)"
  by pat_completeness auto
termination
  by (relation "measure (\<lambda>(p, s). length s)") auto

definition publish_messages ::
  "json_lib \<Rightarrow> ustr \<Rightarrow> string \<Rightarrow> flow_payload \<Rightarrow> flow_action \<Rightarrow> transport_method list option \<Rightarrow> flow_message list" where
  "publish_messages L endpoint ty payload action subscribers =
     (case subscribers of None \<Rightarrow> []
      | Some subs \<Rightarrow>
          map (\<lambda>sub. let i = transport_id sub;
                         ep = (if starts_with ''route:'' i \<or> i \<noteq> ''uds'' \<and> i \<noteq> ''shm'' then trim_start_matches ''route:'' i else endpoint)
                     in \<lparr>fm_endpoint = ep, fm_type = ty, fm_action = (case action of Apply \<Rightarrow> ''set'' | Revert \<Rightarrow> ''remove''),
                         fm_payload = payload_to_json L payload\<rparr>) subs)"

definition publish ::
  "json_lib \<Rightarrow> ustr \<Rightarrow> string \<Rightarrow> flow_payload \<Rightarrow> flow_action \<Rightarrow> transport_method list option \<Rightarrow> flow_st \<Rightarrow> flow_st" where
  "publish L endpoint ty payload action subscribers s =
     s\<lparr>st_sent := st_sent s @ publish_messages L endpoint ty payload action subscribers\<rparr>"

definition emit_flow :: "json_lib \<Rightarrow> ustr \<Rightarrow> flow_payload \<Rightarrow> flow_action \<Rightarrow> flow_event_type \<Rightarrow> flow_st \<Rightarrow> flow_st" where
  "emit_flow L name payload action ty s =
     s\<lparr>st_events := st_events s @
        [\<lparr>fe_name = name, fe_payload = payload_to_json L payload, fe_action = action, fe_type = ty\<rparr>]\<rparr>"

section \<open>Payloads\<close>

fun payload_type_ok :: "flow_payload_type \<Rightarrow> flow_payload \<Rightarrow> bool" where
  "payload_type_ok expected (PJson _) = (expected = TJson)"
| "payload_type_ok expected (PString _) = (expected = TString)"
| "payload_type_ok expected (PBytes _) = (expected = TBytes)"
| "payload_type_ok expected (PNone _) = (expected = TNone)"

text \<open>\<open>toml::Value::get\<close> with an index.\<close>

fun toml_get :: "toml \<Rightarrow> nat \<Rightarrow> toml option" where
  "toml_get (TomlArray xs) i = (if i < length xs then Some (xs ! i) else None)"
| "toml_get _ i = None"

fun toml_as_array :: "toml \<Rightarrow> toml list option" where
  "toml_as_array (TomlArray xs) = Some xs"
| "toml_as_array _ = None"

definition toml_to_json :: "flow_env \<Rightarrow> toml \<Rightarrow> json" where
  "toml_to_json E v = (case fl_toml_json E v of Some j \<Rightarrow> j | None \<Rightarrow> JBool True)"

definition payloads_from_toml :: "flow_env \<Rightarrow> flow_facet \<Rightarrow> auto_payload_config \<Rightarrow> toml \<Rightarrow> flow_payload" where
  "payloads_from_toml E def cfg v =
     (let L = fl_lib E in
      case ff_payload def of
        TJson \<Rightarrow>
          (case ap_insert cfg of
             Some (InsertOne key) \<Rightarrow>
               (if key = ''root'' then PJson (jl_print L (toml_to_json E v))
                else PJson (jl_print L (JObj [(key, toml_to_json E v)])))
           | Some (InsertMany keys) \<Rightarrow>
               PJson (jl_print L (JObj (fold (\<lambda>(i, key) obj.
                 case toml_get v i of Some value' \<Rightarrow> obj_insert key (toml_to_json E value') obj | None \<Rightarrow> obj)
                 (zip [0..<length keys] keys) [])))
           | None \<Rightarrow> PJson (jl_print L (JObj [(''value'', JStr ''none'')])))
      | TString \<Rightarrow> PString (fl_toml_print E v)
      | TBytes \<Rightarrow> PBytes (bytes_of (fl_toml_print E v))
      | TNone \<Rightarrow> PNone False)"

definition auto_payloads_for :: "flow_env \<Rightarrow> flow_facet \<Rightarrow> flow_payload list" where
  "auto_payloads_for E def =
     (case ff_auto_payload def of
        None \<Rightarrow> []
      | Some cfg \<Rightarrow>
          (let dflt = [default_payload_for_type (fl_lib E) (ff_payload def)] in
           case ap_variable cfg of
             None \<Rightarrow> dflt
           | Some variable \<Rightarrow>
               (case Option.bind (fl_variables E) (\<lambda>h. vh_get (fl_environment E) h variable) of
                  None \<Rightarrow> dflt
                | Some v \<Rightarrow>
                    if ap_many cfg
                    then (case toml_as_array v of None \<Rightarrow> dflt | Some xs \<Rightarrow> map (payloads_from_toml E def cfg) xs)
                    else [payloads_from_toml E def cfg v])))"

definition transcendent_payload_for :: "json_lib \<Rightarrow> flow_facet \<Rightarrow> flow_payload \<Rightarrow> flow_payload option" where
  "transcendent_payload_for L def source_payload =
     (case ff_payload def of
        TJson \<Rightarrow>
          (case ff_branch def of
             Some specs \<Rightarrow> map_json_payload L specs source_payload
           | None \<Rightarrow> (case source_payload of PJson _ \<Rightarrow> Some source_payload | _ \<Rightarrow> None))
      | TString \<Rightarrow> (case source_payload of PString _ \<Rightarrow> Some source_payload | _ \<Rightarrow> None)
      | TBytes \<Rightarrow> (case source_payload of PBytes _ \<Rightarrow> Some source_payload | _ \<Rightarrow> None)
      | TNone \<Rightarrow> Some (PNone False))"

text \<open>The filter on the part of a payload that a branch specification names.\<close>

fun walk_path :: "string list \<Rightarrow> json \<Rightarrow> json option" where
  "walk_path [] v = Some v"
| "walk_path (seg # segs) v = (case json_get seg v of None \<Rightarrow> None | Some w \<Rightarrow> walk_path segs w)"

definition branch_filter_from_payload :: "json_lib \<Rightarrow> flow_payload \<Rightarrow> string \<Rightarrow> flow_match_operation option" where
  "branch_filter_from_payload L payload branch_spec =
     (case payload of
        PJson j \<Rightarrow>
          (case walk_path (filter (\<lambda>p. p \<noteq> []) (split_char (CHR ''/'') branch_spec)) (into_json L j) of
             None \<Rightarrow> None
           | Some current \<Rightarrow> Some (MatchOptions None None (Some (JObj [(branch_target_key branch_spec, current)]))))
      | _ \<Rightarrow> None)"

section \<open>Conditions over the graph\<close>

definition condition_is_active :: "json_lib \<Rightarrow> facet_map \<Rightarrow> flow_item \<Rightarrow> flow_payload option \<Rightarrow> bool" where
  "condition_is_active L facets cond payload =
     list_ex (\<lambda>(_, branches). list_ex (\<lambda>branch.
       let st = branch\<lparr>fi_type := FacetType\<rparr> in check_condition L cond st \<and> payload_compatible L payload (fi_payload st)) branches) facets"

definition condition_matches ::
  "json_lib \<Rightarrow> facet_map \<Rightarrow> flow_item \<Rightarrow> flow_instance option \<Rightarrow> flow_payload option \<Rightarrow> bool" where
  "condition_matches L facets cond event payload =
     ((case event of Some ev \<Rightarrow> check_condition L cond ev \<and> payload_compatible L payload (fi_payload ev) | None \<Rightarrow> False)
      \<or> condition_is_active L facets cond payload)"

section \<open>Reconciliation\<close>

text \<open>The two mutually recursive operations, as calls.\<close>

datatype flow_call = CSet ustr "flow_payload option" | CRemove ustr "flow_match_operation option"

text \<open>The call one target of a transcendence index gets, if any.\<close>

definition trans_call :: "flow_env \<Rightarrow> flow_instance \<Rightarrow> flow_action \<Rightarrow> ustr \<Rightarrow> flow_call option" where
  "trans_call E source action full_name =
     (let L = fl_lib E in
      case fl_find_facet E full_name of None \<Rightarrow> None
      | Some def \<Rightarrow>
          (case ff_after def of None \<Rightarrow> None
           | Some after \<Rightarrow>
               if \<not> list_ex (\<lambda>cond. check_condition L cond source) after then None
               else
                 (case (if ff_auto_payload def \<noteq> None
                        then (case auto_payloads_for E def of [] \<Rightarrow> None | first # _ \<Rightarrow> Some first)
                        else Some (fi_payload source)) of
                    None \<Rightarrow> None
                  | Some source_payload \<Rightarrow>
                      (case transcendent_payload_for L def source_payload of
                         None \<Rightarrow> None
                       | Some payload \<Rightarrow>
                           (case action of
                              Apply \<Rightarrow> Some (CSet full_name (Some payload))
                            | Revert \<Rightarrow> Some (CRemove full_name (payload_to_filter L payload)))))))"

definition trans_step :: "flow_env \<Rightarrow> (flow_call \<Rightarrow> flow_m) \<Rightarrow> flow_instance \<Rightarrow> flow_action \<Rightarrow> ustr \<Rightarrow> flow_m" where
  "trans_step E rec source action full_name =
     (case trans_call E source action full_name of None \<Rightarrow> fl_ok | Some c \<Rightarrow> rec c)"

definition reconcile_transcendence :: "flow_env \<Rightarrow> (flow_call \<Rightarrow> flow_m) \<Rightarrow> flow_instance \<Rightarrow> flow_action \<Rightarrow> flow_m" where
  "reconcile_transcendence E rec source action =
     (case map_of (fl_trans E) (fi_name source) of
        None \<Rightarrow> fl_ok
      | Some targets \<Rightarrow> fl_for (trans_step E rec source action) targets)"

text \<open>Whether nothing a facet is stopped by is active, for one of its payloads.\<close>

definition dep_inactive ::
  "json_lib \<Rightarrow> facet_map \<Rightarrow> flow_instance \<Rightarrow> flow_action \<Rightarrow> flow_payload \<Rightarrow> inverse_branching \<Rightarrow> bool" where
  "dep_inactive L facets source action payload cfg =
     (let branches = branches_of facets (inv_name cfg) in
      case inv_branch cfg of
        Some branch_spec \<Rightarrow>
          \<not> list_ex (\<lambda>b. case branch_filter_from_payload L payload branch_spec of
                          Some f \<Rightarrow> match_operation L f (fi_payload b) | None \<Rightarrow> False) branches
      | None \<Rightarrow>
          if action = Apply \<and> inv_name cfg = fi_name source then branches = []
          else if action = Revert \<and> inv_name cfg = fi_name source then True
          else branches = [])"

definition inverse_call ::
  "flow_env \<Rightarrow> facet_map \<Rightarrow> flow_instance \<Rightarrow> flow_action \<Rightarrow> ustr \<Rightarrow> flow_facet \<Rightarrow> inverse_branching list \<Rightarrow>
   flow_payload \<Rightarrow> flow_call option" where
  "inverse_call E facets source action full_name def deps payload =
     (let L = fl_lib E;
          should_activate = (ff_auto_payload def \<noteq> None \<and> list_all (dep_inactive L facets source action payload) deps);
          currently_active = list_ex (\<lambda>b. payload_compatible L (Some payload) (fi_payload b)) (branches_of facets full_name)
      in if should_activate \<and> \<not> currently_active then Some (CSet full_name (Some payload))
         else if \<not> should_activate \<and> currently_active then Some (CRemove full_name (payload_to_filter L payload))
         else None)"

definition inverse_payload_step ::
  "flow_env \<Rightarrow> (flow_call \<Rightarrow> flow_m) \<Rightarrow> flow_instance \<Rightarrow> flow_action \<Rightarrow> ustr \<Rightarrow> flow_facet \<Rightarrow> inverse_branching list \<Rightarrow>
   flow_payload \<Rightarrow> flow_m" where
  "inverse_payload_step E rec source action full_name def deps payload s =
     (case inverse_call E (st_facets s) source action full_name def deps payload of None \<Rightarrow> fl_ok s | Some c \<Rightarrow> rec c s)"

definition inverse_step :: "flow_env \<Rightarrow> (flow_call \<Rightarrow> flow_m) \<Rightarrow> flow_instance \<Rightarrow> flow_action \<Rightarrow> ustr \<Rightarrow> flow_m" where
  "inverse_step E rec source action full_name s =
     (case fl_find_facet E full_name of None \<Rightarrow> fl_ok s
      | Some def \<Rightarrow>
          (case ff_stop_on def of None \<Rightarrow> fl_ok s
           | Some deps \<Rightarrow>
               fl_for (inverse_payload_step E rec source action full_name def deps)
                 (if ff_auto_payload def \<noteq> None then auto_payloads_for E def
                  else map fi_payload (branches_of (st_facets s) full_name)) s))"

definition reconcile_inverse :: "flow_env \<Rightarrow> (flow_call \<Rightarrow> flow_m) \<Rightarrow> flow_instance \<Rightarrow> flow_action \<Rightarrow> flow_m" where
  "reconcile_inverse E rec source action =
     (case map_of (fl_inverse E) (fi_name source) of
        None \<Rightarrow> fl_ok
      | Some targets \<Rightarrow> fl_for (inverse_step E rec source action) targets)"

section \<open>Setting a facet\<close>

definition guard_insert :: "ustr \<Rightarrow> flow_st \<Rightarrow> flow_st" where
  "guard_insert k s = s\<lparr>st_guard := hs_insert k (st_guard s)\<rparr>"

definition guard_remove :: "ustr \<Rightarrow> flow_st \<Rightarrow> flow_st" where
  "guard_remove k s = s\<lparr>st_guard := hs_remove k (st_guard s)\<rparr>"

definition facet_put :: "ustr \<Rightarrow> flow_instance list \<Rightarrow> flow_st \<Rightarrow> flow_st" where
  "facet_put name branches s = s\<lparr>st_facets := AList.update name branches (st_facets s)\<rparr>"

text \<open>The first branch with the same key takes the new entries.\<close>

fun merge_branch :: "json_lib \<Rightarrow> ustr list \<Rightarrow> string list \<Rightarrow> json \<Rightarrow> flow_instance list \<Rightarrow> flow_instance list option" where
  "merge_branch L keys new_key new_json [] = None"
| "merge_branch L keys new_key new_json (b # bs) =
     (case fi_payload b of
        PJson j \<Rightarrow>
          if json_branch_key L (into_json L j) keys = Some new_key
          then Some (b\<lparr>fi_payload := PJson (jl_print L (merge_json (into_json L j) new_json))\<rparr> # bs)
          else map_option (Cons b) (merge_branch L keys new_key new_json bs)
      | _ \<Rightarrow> map_option (Cons b) (merge_branch L keys new_key new_json bs))"

definition branch_keys_of :: "flow_facet \<Rightarrow> ustr list" where
  "branch_keys_of def = (case ff_branch def of Some b \<Rightarrow> map branch_target_key b | None \<Rightarrow> [''id''])"

definition set_entry :: "json_lib \<Rightarrow> flow_facet \<Rightarrow> flow_instance \<Rightarrow> flow_instance list \<Rightarrow> flow_instance list option" where
  "set_entry L def inst entry =
     (case fi_payload inst of
        PJson new_json \<Rightarrow>
          (case json_branch_key L (into_json L new_json) (branch_keys_of def) of
             None \<Rightarrow> None
           | Some new_key \<Rightarrow>
               (case merge_branch L (branch_keys_of def) new_key (into_json L new_json) entry of
                  Some bs \<Rightarrow> Some bs
                | None \<Rightarrow> Some (entry @ [inst])))
      | _ \<Rightarrow> Some [inst])"

definition apply_key :: "ustr \<Rightarrow> flow_payload option \<Rightarrow> ustr" where
  "apply_key name payload = ''apply::'' @ name @ ''::'' @ payload_signature payload"

definition set_facet_body :: "flow_env \<Rightarrow> (flow_call \<Rightarrow> flow_m) \<Rightarrow> ustr \<Rightarrow> flow_payload option \<Rightarrow> flow_m" where
  "set_facet_body E rec name payload s =
     (let L = fl_lib E; guard_key = apply_key name payload in
      if guard_key \<in> set (st_guard s) then fl_ok s
      else
        let s = guard_insert guard_key s in
        case fl_find_facet E name of
          None \<Rightarrow> fl_err (InvalidState (''facet not found: '' @ name)) s
        | Some def \<Rightarrow>
            (let flow_payload = (case payload of Some p \<Rightarrow> p | None \<Rightarrow> PNone False) in
             if \<not> payload_type_ok (ff_payload def) flow_payload
             then fl_err (InvalidState (''state payload type mismatch: '' @ name)) (guard_remove guard_key s)
             else
               let inst = \<lparr>fi_name = name, fi_payload = flow_payload, fi_type = FacetType\<rparr>;
                   s = publish L name ''facet'' flow_payload Apply (ff_subscribers def) (emit_flow L name flow_payload Apply Facet s);
                   entry = branches_of (st_facets s) name
               in case set_entry L def inst entry of
                    None \<Rightarrow> fl_err (InvalidState ''invalid JSON branch keys'') (guard_remove guard_key (facet_put name entry s))
                  | Some entry' \<Rightarrow>
                      fl_then (reconcile_transcendence E rec inst Apply)
                        (fl_then (reconcile_inverse E rec inst Apply) (fl_modify (guard_remove guard_key)))
                        (facet_put name entry' s)))"

section \<open>Removing a facet\<close>

definition revert_key :: "flow_instance \<Rightarrow> ustr" where
  "revert_key branch = ''revert::'' @ fi_name branch @ ''::'' @ payload_signature (Some (fi_payload branch))"

definition remove_branch :: "flow_env \<Rightarrow> (flow_call \<Rightarrow> flow_m) \<Rightarrow> ustr \<Rightarrow> flow_instance \<Rightarrow> flow_m" where
  "remove_branch E rec name branch s =
     (let L = fl_lib E; branch = branch\<lparr>fi_type := FacetType\<rparr>; guard_key = revert_key branch in
      if guard_key \<in> set (st_guard s) then fl_ok s
      else
        let s = guard_insert guard_key s;
            s = emit_flow L (fi_name branch) (fi_payload branch) Revert Facet s;
            s = publish L (fi_name branch) ''facet'' (fi_payload branch) Revert (Option.bind (fl_find_facet E name) ff_subscribers) s
        in fl_then (reconcile_transcendence E rec branch Revert)
             (fl_then (fl_ignore (reconcile_inverse E rec branch Revert)) (fl_modify (guard_remove guard_key))) s)"

definition remove_facet_body :: "flow_env \<Rightarrow> (flow_call \<Rightarrow> flow_m) \<Rightarrow> ustr \<Rightarrow> flow_match_operation option \<Rightarrow> flow_m" where
  "remove_facet_body E rec name flt s =
     (let L = fl_lib E in
      case map_of (st_facets s) name of
        None \<Rightarrow> fl_ok s
      | Some branches \<Rightarrow>
          (let s = s\<lparr>st_facets := AList.delete name (st_facets s)\<rparr>;
               to_keep = (case flt of Some f \<Rightarrow> filter (\<lambda>b. \<not> match_operation L f (fi_payload b)) branches | None \<Rightarrow> []);
               to_remove = (case flt of Some f \<Rightarrow> filter (\<lambda>b. match_operation L f (fi_payload b)) branches | None \<Rightarrow> branches)
           in fl_then (fl_for (remove_branch E rec name) to_remove)
                (fl_modify (\<lambda>s. if to_keep \<noteq> [] then facet_put name to_keep s else s)) s))"

primrec flow_run :: "nat \<Rightarrow> flow_env \<Rightarrow> flow_call \<Rightarrow> flow_m" where
  "flow_run 0 E call = (\<lambda>s. None)"
| "flow_run (Suc n) E call =
     (case call of
        CSet name payload \<Rightarrow> set_facet_body E (flow_run n E) name payload
      | CRemove name flt \<Rightarrow> remove_facet_body E (flow_run n E) name flt)"

section \<open>Impulses\<close>

definition do_impulse :: "flow_env \<Rightarrow> ustr \<Rightarrow> flow_payload option \<Rightarrow> flow_st \<Rightarrow> unit result \<times> flow_st" where
  "do_impulse E name payload s =
     (let L = fl_lib E in
      case fl_find_impulse E name of
        None \<Rightarrow> (Inl (InvalidState (''signal not found: '' @ name)), s)
      | Some def \<Rightarrow>
          (let flow_payload = (case payload of Some p \<Rightarrow> p | None \<Rightarrow> PNone False) in
           if \<not> payload_type_ok (fp_payload def) flow_payload
           then (Inl (InvalidState (''signal payload type mismatch: '' @ name)), s)
           else (Inr (), publish L name ''impulse'' flow_payload Apply (fp_subscribers def) (emit_flow L name flow_payload Apply Impulse s))))"

definition impulse_dependents :: "flow_env \<Rightarrow> facet_map \<Rightarrow> flow_instance \<Rightarrow> (ustr \<times> flow_payload) list" where
  "impulse_dependents E facets source =
     (let L = fl_lib E in
      case fl_items_impulse E of None \<Rightarrow> []
      | Some all_impulses \<Rightarrow>
          List.map_filter (\<lambda>(grp, def).
            case fp_after def of None \<Rightarrow> None
            | Some after \<Rightarrow>
                if \<not> list_ex (\<lambda>cond. check_condition L cond source) after then None
                else if \<not> list_all (\<lambda>cond. condition_matches L facets cond (Some source) None) after then None
                else map_option (\<lambda>payload. (grp @ '':'' @ fp_name def, payload))
                       (case fp_branch def of Some specs \<Rightarrow> map_json_payload L specs (fi_payload source) | None \<Rightarrow> Some (fi_payload source)))
            all_impulses)"

fun emit_dependents :: "flow_env \<Rightarrow> (ustr \<times> flow_payload) list \<Rightarrow> ustr list \<Rightarrow> flow_st \<Rightarrow> ustr list \<times> flow_st" where
  "emit_dependents E [] seen s = (seen, s)"
| "emit_dependents E ((signal_name, payload) # ds) seen s =
     (let sig = signal_name @ ''|'' @ to_string_payload (fl_lib E) payload in
      if sig \<in> set seen then emit_dependents E ds seen s
      else emit_dependents E ds (hs_insert sig seen) (snd (do_impulse E signal_name (Some payload) s)))"

definition reconcile_impulse_transcendence :: "flow_env \<Rightarrow> flow_instance \<Rightarrow> ustr list \<Rightarrow> flow_st \<Rightarrow> ustr list \<times> flow_st" where
  "reconcile_impulse_transcendence E source seen s =
     emit_dependents E (impulse_dependents E (st_facets s) source) seen s"

text \<open>The \<open>impulse\<close> action of the runtime.\<close>

definition impulse_action :: "flow_env \<Rightarrow> ustr \<Rightarrow> json option \<Rightarrow> flow_st \<Rightarrow> unit result \<times> flow_st" where
  "impulse_action E name payload s =
     (let flow_payload = payload_from_json (fl_lib E) payload in
      case do_impulse E name (Some flow_payload) s of
        (Inl e, s) \<Rightarrow> (Inl e, s)
      | (Inr _, s) \<Rightarrow>
          (Inr (), snd (reconcile_impulse_transcendence E
                    \<lparr>fi_name = name, fi_payload = flow_payload, fi_type = ImpulseType\<rparr> [] s)))"

section \<open>Indexes\<close>

definition index_add :: "ustr \<Rightarrow> ustr \<Rightarrow> (ustr \<times> ustr list) list \<Rightarrow> (ustr \<times> ustr list) list" where
  "index_add key v ix = AList.update key (hs_insert v (case map_of ix key of Some l \<Rightarrow> l | None \<Rightarrow> [])) ix"

definition build_inverse_index :: "(ustr \<times> flow_facet) list option \<Rightarrow> (ustr \<times> ustr list) list" where
  "build_inverse_index items =
     (case items of None \<Rightarrow> []
      | Some all \<Rightarrow>
          fold (\<lambda>(grp, def) ix.
            case ff_stop_on def of None \<Rightarrow> ix
            | Some deps \<Rightarrow> fold (\<lambda>dep. index_add (inv_name dep) (grp @ '':'' @ ff_name def)) deps ix) all [])"

fun condition_name :: "flow_item \<Rightarrow> ustr option" where
  "condition_name (Simple name) = Some name"
| "condition_name (Detailed st _ _ _) = st"

definition build_trans_index :: "(ustr \<times> flow_facet) list option \<Rightarrow> (ustr \<times> ustr list) list" where
  "build_trans_index items =
     (case items of None \<Rightarrow> []
      | Some all \<Rightarrow>
          fold (\<lambda>(grp, def) ix.
            case ff_after def of None \<Rightarrow> ix
            | Some after \<Rightarrow>
                fold (\<lambda>cond ix. case condition_name cond of Some name \<Rightarrow> index_add name (grp @ '':'' @ ff_name def) ix | None \<Rightarrow> ix)
                  after ix) all [])"

definition refresh_indexes :: "flow_env \<Rightarrow> flow_env" where
  "refresh_indexes E = E\<lparr>fl_inverse := build_inverse_index (fl_items_facet E), fl_trans := build_trans_index (fl_items_facet E)\<rparr>"

section \<open>The runtime's actions\<close>

text \<open>
  The facet graph with its files, the global scope store, and what was emitted and sent. The action
  runs on the graph with an empty guard and, only when it succeeded, writes all scopes.
\<close>

record flow_world =
  fw_graph :: facet_graph
  fw_disks :: scope_disks
  fw_scopes :: scope_store
  fw_events :: "flow_event list"
  fw_sent :: "flow_message list"
  fw_notified :: nat

definition with_graph :: "flow_m \<Rightarrow> flow_world \<Rightarrow> (unit result \<times> flow_world) option" where
  "with_graph m w =
     (case m \<lparr>st_facets = fg_facets (fw_graph w), st_guard = [], st_events = fw_events w, st_sent = fw_sent w\<rparr> of
        None \<Rightarrow> None
      | Some (r, s) \<Rightarrow>
          Some (r, w\<lparr>fw_graph := (fw_graph w)\<lparr>fg_facets := st_facets s\<rparr>, fw_events := st_events s, fw_sent := st_sent s\<rparr>))"

definition save_graph :: "persist_env \<Rightarrow> (ustr \<Rightarrow> faults) \<Rightarrow> flow_world \<Rightarrow> unit result \<times> flow_world" where
  "save_graph P flt w =
     (case save_all_scopes P flt (fw_graph w) (fw_disks w) of
        (r, g, d) \<Rightarrow> (r, w\<lparr>fw_graph := g, fw_disks := d\<rparr>))"

definition handled ::
  "persist_env \<Rightarrow> (ustr \<Rightarrow> faults) \<Rightarrow> (unit result \<times> flow_world) option \<Rightarrow> (unit result \<times> flow_world) option" where
  "handled P flt r =
     (case r of None \<Rightarrow> None
      | Some (Inl e, w) \<Rightarrow> Some (Inl e, w)
      | Some (Inr _, w) \<Rightarrow> Some (save_graph P flt w))"

definition notify :: "flow_world \<Rightarrow> flow_world" where
  "notify w = w\<lparr>fw_notified := fw_notified w + 1\<rparr>"

definition set_facet_action ::
  "flow_env \<Rightarrow> persist_env \<Rightarrow> (ustr \<Rightarrow> faults) \<Rightarrow> nat \<Rightarrow> ustr \<Rightarrow> json option \<Rightarrow> flow_world \<Rightarrow> (unit result \<times> flow_world) option" where
  "set_facet_action E P flt n name payload w =
     (let flow_payload = payload_from_json (fl_lib E) payload in
      case handled P flt (with_graph (flow_run n E (CSet name (map_option (\<lambda>_. flow_payload) payload))) w) of
        Some (Inr _, w) \<Rightarrow> Some (Inr (), notify w)
      | r \<Rightarrow> r)"

text \<open>\<open>other\<close> is the library's reading of a filter that is not an object.\<close>

definition filter_from_json :: "(json \<Rightarrow> flow_match_operation option) \<Rightarrow> json option \<Rightarrow> flow_match_operation option" where
  "filter_from_json other v =
     (case v of None \<Rightarrow> None | Some (JObj b) \<Rightarrow> Some (MatchOptions None None (Some (JObj b))) | Some v \<Rightarrow> other v)"

definition remove_facet_action ::
  "flow_env \<Rightarrow> persist_env \<Rightarrow> (ustr \<Rightarrow> faults) \<Rightarrow> (json \<Rightarrow> flow_match_operation option) \<Rightarrow> nat \<Rightarrow> ustr \<Rightarrow> json option \<Rightarrow>
   json option \<Rightarrow> flow_world \<Rightarrow> (unit result \<times> flow_world) option" where
  "remove_facet_action E P flt other n name flter payload w =
     (let flter = filter_from_json other (case flter of Some f \<Rightarrow> Some f | None \<Rightarrow> payload) in
      case handled P flt (with_graph (flow_run n E (CRemove name flter)) w) of
        Some (Inr _, w) \<Rightarrow>
          (let w = notify w in
           Some (Inr (),
             if branches_of (fg_facets (fw_graph w)) name = []
             then (case ss_scope_for_state (fw_scopes w) name of
                     Some scope_name \<Rightarrow> w\<lparr>fw_scopes := snd (ss_remove_scope scope_name (fw_scopes w))\<rparr>
                   | None \<Rightarrow> w)
             else w))
      | r \<Rightarrow> r)"

definition reconcile_inverse_all :: "flow_env \<Rightarrow> (flow_call \<Rightarrow> flow_m) \<Rightarrow> flow_m" where
  "reconcile_inverse_all E rec =
     fl_for (\<lambda>source. reconcile_inverse E rec \<lparr>fi_name = source, fi_payload = PNone False, fi_type = FacetType\<rparr> Revert)
       (map fst (fl_inverse E))"

definition bootstrap_run :: "flow_env \<Rightarrow> (flow_call \<Rightarrow> flow_m) \<Rightarrow> flow_m" where
  "bootstrap_run E rec s =
     fl_then (fl_for (\<lambda>st. reconcile_transcendence E rec st Apply) (concat (map snd (st_facets s))))
       (reconcile_inverse_all E rec) s"

definition bootstrap_action ::
  "flow_env \<Rightarrow> persist_env \<Rightarrow> (ustr \<Rightarrow> faults) \<Rightarrow> nat \<Rightarrow> flow_world \<Rightarrow> flow_env \<times> (unit result \<times> flow_world) option" where
  "bootstrap_action E P flt n w =
     (let E = refresh_indexes E in (E, handled P flt (with_graph (bootstrap_run E (flow_run n E)) w)))"

text \<open>What the registry gives the runtime: the lookups of its two models.\<close>

datatype flow_model = FacetModel flow_facet | ImpulseModel flow_impulse

fun flow_model_name :: "flow_model \<Rightarrow> string" where
  "flow_model_name (FacetModel f) = ff_name f"
| "flow_model_name (ImpulseModel i) = fp_name i"

fun as_facet :: "flow_model \<Rightarrow> flow_facet option" where
  "as_facet (FacetModel f) = Some f"
| "as_facet (ImpulseModel _) = None"

fun as_impulse :: "flow_model \<Rightarrow> flow_impulse option" where
  "as_impulse (ImpulseModel f) = Some f"
| "as_impulse (FacetModel _) = None"

definition registry_env ::
  "('v, flow_model) metadata_registry \<Rightarrow> model_type \<Rightarrow> model_type \<Rightarrow> flow_env \<Rightarrow> flow_env" where
  "registry_env mr tf ti E =
     E\<lparr>fl_find_facet := (\<lambda>n. Option.bind (mr_find flow_model_name mr tf ''*'' n) as_facet),
       fl_items_facet := map_option (List.map_filter (\<lambda>(g, m). map_option (Pair g) (as_facet m))) (mr_items mr tf ''*''),
       fl_find_impulse := (\<lambda>n. Option.bind (mr_find flow_model_name mr ti ''*'' n) as_impulse),
       fl_items_impulse := map_option (List.map_filter (\<lambda>(g, m). map_option (Pair g) (as_impulse m))) (mr_items mr ti ''*'')\<rparr>"

end
