(* ===== verification/FlowFacts.thy ===== *)
theory FlowFacts
  imports Flow
begin

text \<open>
  What the flow runtime keeps, and that it returns. An invariant of the facet map that the single
  updates keep is kept by every operation (locale \<open>flow_invariant\<close>); when the keys of the
  guard come from a finite set, an operation returns (locale \<open>flow_bounded\<close>). Both locales
  are interpreted for the model: with the typing of the graph, and with the finite set of payloads
  that a set of definitions can build from the payloads there are at the start.
\<close>

section \<open>Rules for sequences\<close>

definition keeps :: "(flow_st \<Rightarrow> bool) \<Rightarrow> flow_m \<Rightarrow> bool" where
  "keeps P m \<longleftrightarrow> (\<forall>s r s'. P s \<longrightarrow> m s = Some (r, s') \<longrightarrow> P s')"

definition returns :: "(flow_st \<Rightarrow> bool) \<Rightarrow> flow_m \<Rightarrow> bool" where
  "returns P m \<longleftrightarrow> (\<forall>s. P s \<longrightarrow> m s \<noteq> None)"

definition succeeds :: "flow_m \<Rightarrow> bool" where
  "succeeds m \<longleftrightarrow> (\<forall>s r s'. m s = Some (r, s') \<longrightarrow> r = Inr ())"

named_theorems flow_rules \<open>rules for the sequencing of flow operations\<close>

lemma keepsI: "(\<And>s r s'. P s \<Longrightarrow> m s = Some (r, s') \<Longrightarrow> P s') \<Longrightarrow> keeps P m"
  by (simp add: keeps_def)

lemma keepsD: "keeps P m \<Longrightarrow> m s = Some (r, s') \<Longrightarrow> P s \<Longrightarrow> P s'"
  by (simp add: keeps_def)

lemma keeps_ok [flow_rules]: "keeps P fl_ok" "keeps P (fl_err e)"
  by (simp_all add: keeps_def fl_ok_def fl_err_def)

lemma keeps_then [flow_rules]: "keeps P m \<Longrightarrow> keeps P k \<Longrightarrow> keeps P (fl_then m k)"
proof (rule keepsI)
  fix s r s'
  assume "keeps P m" "keeps P k" "P s" "fl_then m k s = Some (r, s')"
  then show "P s'"
    by (cases "m s") (auto simp: fl_then_def split: sum.splits, (metis keepsD)+)
qed

lemma keeps_ignore [flow_rules]: "keeps P m \<Longrightarrow> keeps P (fl_ignore m)"
  unfolding keeps_def fl_ignore_def by (auto split: option.splits)

lemma keeps_for [flow_rules]: "(\<And>x. x \<in> set xs \<Longrightarrow> keeps P (f x)) \<Longrightarrow> keeps P (fl_for f xs)"
  by (induction xs) (auto intro: flow_rules)

lemma returns_ok [flow_rules]: "returns P fl_ok" "returns P (fl_err e)" "returns P (fl_modify f)"
  by (simp_all add: returns_def fl_ok_def fl_err_def fl_modify_def)

lemma returns_then [flow_rules]: "returns P m \<Longrightarrow> keeps P m \<Longrightarrow> returns P k \<Longrightarrow> returns P (fl_then m k)"
  unfolding returns_def keeps_def fl_then_def by (auto simp del: not_None_eq split: option.splits sum.splits)

lemma returns_ignore [flow_rules]: "returns P m \<Longrightarrow> returns P (fl_ignore m)"
  unfolding returns_def fl_ignore_def by (auto simp del: not_None_eq split: option.splits)

lemma returns_for [flow_rules]:
  "(\<And>x. x \<in> set xs \<Longrightarrow> returns P (f x)) \<Longrightarrow> (\<And>x. x \<in> set xs \<Longrightarrow> keeps P (f x)) \<Longrightarrow> returns P (fl_for f xs)"
  by (induction xs) (auto intro: flow_rules)

lemma succeeds_ok [flow_rules]: "succeeds fl_ok" "succeeds (fl_modify f)" "succeeds (fl_ignore m)"
  by (auto simp: succeeds_def fl_ok_def fl_modify_def fl_ignore_def split: option.splits)

lemma succeeds_then [flow_rules]: "succeeds m \<Longrightarrow> succeeds k \<Longrightarrow> succeeds (fl_then m k)"
  unfolding succeeds_def fl_then_def by (auto split: option.splits sum.splits)

lemma succeeds_for [flow_rules]: "(\<And>x. succeeds (f x)) \<Longrightarrow> succeeds (fl_for f xs)"
  by (induction xs) (auto intro: flow_rules)

section \<open>The guard only grows while an operation runs\<close>

definition guarded :: "ustr set \<Rightarrow> flow_st \<Rightarrow> bool" where
  "guarded G s \<longleftrightarrow> G \<subseteq> set (st_guard s)"

lemma st_fields [simp]:
  "st_facets (guard_insert k s) = st_facets s" "st_facets (guard_remove k s) = st_facets s"
  "st_facets (emit_flow L n p a t s) = st_facets s" "st_facets (publish L n ty p a subs s) = st_facets s"
  "st_guard (emit_flow L n p a t s) = st_guard s" "st_guard (publish L n ty p a subs s) = st_guard s"
  "st_guard (facet_put n bs s) = st_guard s" "st_facets (facet_put n bs s) = AList.update n bs (st_facets s)"
  "set (st_guard (guard_insert k s)) = insert k (set (st_guard s))"
  "set (st_guard (guard_remove k s)) = set (st_guard s) - {k}"
  by (simp_all add: guard_insert_def guard_remove_def emit_flow_def publish_def facet_put_def)

lemma trans_call_Some:
  assumes "trans_call E source action full_name = Some c"
  obtains def src p where "fl_find_facet E full_name = Some def"
    "src = fi_payload source \<or> src \<in> set (auto_payloads_for E def)" "transcendent_payload_for (fl_lib E) def src = Some p"
    "c = (case action of Apply \<Rightarrow> CSet full_name (Some p) | Revert \<Rightarrow> CRemove full_name (payload_to_filter (fl_lib E) p))"
proof -
  from assms obtain def src p where d: "fl_find_facet E full_name = Some def"
    "(if ff_auto_payload def \<noteq> None then (case auto_payloads_for E def of [] \<Rightarrow> None | first # _ \<Rightarrow> Some first)
      else Some (fi_payload source)) = Some src" "transcendent_payload_for (fl_lib E) def src = Some p"
    "c = (case action of Apply \<Rightarrow> CSet full_name (Some p) | Revert \<Rightarrow> CRemove full_name (payload_to_filter (fl_lib E) p))"
    unfolding trans_call_def Let_def by (auto simp del: not_None_eq split: option.splits if_splits flow_action.splits)
  from d(2) have "src = fi_payload source \<or> src \<in> set (auto_payloads_for E def)" by (auto split: if_splits list.splits)
  with d that show ?thesis by blast
qed

lemma inverse_call_Some:
  "inverse_call E facets source action full_name def deps payload = Some c \<Longrightarrow>
   c = CSet full_name (Some payload) \<and> ff_auto_payload def \<noteq> None \<or> c = CRemove full_name (payload_to_filter (fl_lib E) payload)"
  by (auto simp: inverse_call_def Let_def split: if_splits)

section \<open>Invariants of the facet map\<close>

text \<open>The payload a call sets.\<close>

definition call_payload :: "flow_payload option \<Rightarrow> flow_payload" where
  "call_payload p = (case p of Some q \<Rightarrow> q | None \<Rightarrow> PNone False)"

locale flow_invariant =
  fixes E :: flow_env
    and I :: "facet_map \<Rightarrow> bool"
    and okc :: "ustr \<Rightarrow> flow_payload \<Rightarrow> bool"
  assumes I_set: "I f \<Longrightarrow> okc n p \<Longrightarrow> fl_find_facet E n = Some def \<Longrightarrow> payload_type_ok (ff_payload def) p \<Longrightarrow>
      set_entry (fl_lib E) def \<lparr>fi_name = n, fi_payload = p, fi_type = FacetType\<rparr> (branches_of f n) = Some bs \<Longrightarrow>
      I (AList.update n bs f)"
    and I_touch: "I f \<Longrightarrow> okc n p \<Longrightarrow> fl_find_facet E n = Some def \<Longrightarrow> I (AList.update n (branches_of f n) f)"
    and I_delete: "I f \<Longrightarrow> I (AList.delete n f)"
    and I_put: "I f \<Longrightarrow> I g \<Longrightarrow> map_of g n = Some bs \<Longrightarrow> I (AList.update n (filter Q bs) f)"
    and branch_ok: "I f \<Longrightarrow> map_of f n = Some bs \<Longrightarrow> b \<in> set bs \<Longrightarrow> okc (fi_name b) (fi_payload b)"
    and trans_ok: "okc n p \<Longrightarrow> map_of (fl_trans E) n = Some ts \<Longrightarrow> t \<in> set ts \<Longrightarrow> fl_find_facet E t = Some def \<Longrightarrow>
      src = p \<or> src \<in> set (auto_payloads_for E def) \<Longrightarrow> transcendent_payload_for (fl_lib E) def src = Some q \<Longrightarrow> okc t q"
    and inverse_ok: "okc n p \<Longrightarrow> map_of (fl_inverse E) n = Some ts \<Longrightarrow> t \<in> set ts \<Longrightarrow> fl_find_facet E t = Some def \<Longrightarrow>
      q \<in> set (auto_payloads_for E def) \<Longrightarrow> okc t q"
begin

definition call_ok :: "flow_call \<Rightarrow> bool" where
  "call_ok c \<longleftrightarrow> (case c of CSet n p \<Rightarrow> okc n (call_payload p) | CRemove _ _ \<Rightarrow> True)"

text \<open>The invariant together with a set of keys the guard holds.\<close>

definition inv :: "ustr set \<Rightarrow> flow_st \<Rightarrow> bool" where
  "inv G s \<longleftrightarrow> I (st_facets s) \<and> guarded G s"

lemma trans_calls_ok:
  assumes "okc (fi_name source) (fi_payload source)" "map_of (fl_trans E) (fi_name source) = Some ts" "t \<in> set ts"
    and "trans_call E source action t = Some c"
  shows "call_ok c"
proof (rule trans_call_Some [OF assms(4)])
  fix def src p
  assume "fl_find_facet E t = Some def" "src = fi_payload source \<or> src \<in> set (auto_payloads_for E def)"
    "transcendent_payload_for (fl_lib E) def src = Some p"
  then have "okc t p" by (rule trans_ok [OF assms(1-3)])
  moreover assume "c = (case action of Apply \<Rightarrow> CSet t (Some p) | Revert \<Rightarrow> CRemove t (payload_to_filter (fl_lib E) p))"
  ultimately show ?thesis by (cases action) (simp_all add: call_ok_def call_payload_def)
qed

lemma inverse_calls_ok:
  assumes "okc n p0" "map_of (fl_inverse E) n = Some ts" "t \<in> set ts" "fl_find_facet E t = Some def"
    and "p \<in> set (if ff_auto_payload def \<noteq> None then auto_payloads_for E def else map fi_payload bs)"
    and "inverse_call E facets source action t def deps p = Some c"
  shows "call_ok c"
  using inverse_call_Some [OF assms(6)] inverse_ok [OF assms(1-4)] assms(5)
  by (auto simp: call_ok_def call_payload_def split: if_splits)

text \<open>What holds of every allowed recursive call holds of a whole reconciliation.\<close>

lemma reconcile_trans_keeps:
  assumes "\<And>c. call_ok c \<Longrightarrow> keeps (inv G) (rec c)" "okc (fi_name source) (fi_payload source)"
  shows "keeps (inv G) (reconcile_transcendence E rec source action)"
  unfolding reconcile_transcendence_def trans_step_def
  using assms trans_calls_ok by (auto intro!: flow_rules split: option.split)

lemma reconcile_trans_returns:
  assumes "\<And>c. call_ok c \<Longrightarrow> keeps (inv G) (rec c)" "\<And>c. call_ok c \<Longrightarrow> returns (inv G) (rec c)"
    "okc (fi_name source) (fi_payload source)"
  shows "returns (inv G) (reconcile_transcendence E rec source action)"
  unfolding reconcile_transcendence_def trans_step_def
  using assms trans_calls_ok by (auto intro!: flow_rules split: option.split)

lemma inverse_step_cases:
  obtains (none) "inverse_step E rec source action t s = fl_ok s"
  | (loop) def deps where "fl_find_facet E t = Some def"
      "inverse_step E rec source action t s = fl_for (inverse_payload_step E rec source action t def deps)
        (if ff_auto_payload def \<noteq> None then auto_payloads_for E def else map fi_payload (branches_of (st_facets s) t)) s"
  by (cases "fl_find_facet E t"; cases "ff_stop_on (the (fl_find_facet E t))") (auto simp: inverse_step_def)

lemma inverse_payload_keeps:
  assumes "\<And>c. call_ok c \<Longrightarrow> keeps (inv G) (rec c)" "okc n p0" "map_of (fl_inverse E) n = Some ts" "t \<in> set ts"
    "fl_find_facet E t = Some def"
    "p \<in> set (if ff_auto_payload def \<noteq> None then auto_payloads_for E def else map fi_payload bs)"
  shows "keeps (inv G) (inverse_payload_step E rec source action t def deps p)"
proof (rule keepsI)
  fix s r s'
  assume "inv G s" "inverse_payload_step E rec source action t def deps p s = Some (r, s')"
  then show "inv G s'"
    by (cases "inverse_call E (st_facets s) source action t def deps p")
      (auto simp: inverse_payload_step_def fl_ok_def intro: keepsD [OF assms(1) [OF inverse_calls_ok [OF assms(2-6)]]])
qed

lemma inverse_payload_returns:
  assumes "\<And>c. call_ok c \<Longrightarrow> returns (inv G) (rec c)" "okc n p0" "map_of (fl_inverse E) n = Some ts" "t \<in> set ts"
    "fl_find_facet E t = Some def"
    "p \<in> set (if ff_auto_payload def \<noteq> None then auto_payloads_for E def else map fi_payload bs)"
  shows "returns (inv G) (inverse_payload_step E rec source action t def deps p)"
  using inverse_calls_ok [OF assms(2-6)] assms(1)
  by (auto simp: returns_def inverse_payload_step_def fl_ok_def simp del: not_None_eq split: option.splits)

lemma inverse_step_keeps:
  assumes "\<And>c. call_ok c \<Longrightarrow> keeps (inv G) (rec c)" "okc n p0" "map_of (fl_inverse E) n = Some ts" "t \<in> set ts"
  shows "keeps (inv G) (inverse_step E rec source action t)"
proof (rule keepsI)
  fix s r s'
  assume a: "inv G s" "inverse_step E rec source action t s = Some (r, s')"
  show "inv G s'"
  proof (cases rule: inverse_step_cases [of rec source action t s])
    case none
    with a show ?thesis by (simp add: fl_ok_def)
  next
    case (loop def deps)
    have "keeps (inv G) (fl_for (inverse_payload_step E rec source action t def deps)
        (if ff_auto_payload def \<noteq> None then auto_payloads_for E def else map fi_payload (branches_of (st_facets s) t)))"
      by (rule keeps_for) (rule inverse_payload_keeps [OF assms loop(1)])
    from keepsD [OF this a(2) [unfolded loop(2)] a(1)] show ?thesis .
  qed
qed

lemma inverse_step_returns:
  assumes "\<And>c. call_ok c \<Longrightarrow> keeps (inv G) (rec c)" "\<And>c. call_ok c \<Longrightarrow> returns (inv G) (rec c)" "okc n p0"
    "map_of (fl_inverse E) n = Some ts" "t \<in> set ts"
  shows "returns (inv G) (inverse_step E rec source action t)"
  unfolding returns_def
proof (intro allI impI)
  fix s
  assume a: "inv G s"
  show "inverse_step E rec source action t s \<noteq> None"
  proof (cases rule: inverse_step_cases [of rec source action t s])
    case none
    then show ?thesis by (simp add: fl_ok_def)
  next
    case (loop def deps)
    have "returns (inv G) (fl_for (inverse_payload_step E rec source action t def deps)
        (if ff_auto_payload def \<noteq> None then auto_payloads_for E def else map fi_payload (branches_of (st_facets s) t)))"
    proof (rule returns_for)
      fix p
      assume p: "p \<in> set (if ff_auto_payload def \<noteq> None then auto_payloads_for E def else map fi_payload (branches_of (st_facets s) t))"
      show "returns (inv G) (inverse_payload_step E rec source action t def deps p)"
        by (rule inverse_payload_returns [OF _ assms(3-5) loop(1) p]) (rule assms(2))
      show "keeps (inv G) (inverse_payload_step E rec source action t def deps p)"
        by (rule inverse_payload_keeps [OF _ assms(3-5) loop(1) p]) (rule assms(1))
    qed
    with a loop(2) show ?thesis by (simp add: returns_def)
  qed
qed

lemma reconcile_inverse_keeps:
  assumes "\<And>c. call_ok c \<Longrightarrow> keeps (inv G) (rec c)" "okc (fi_name source) (fi_payload source)"
  shows "keeps (inv G) (reconcile_inverse E rec source action)"
  unfolding reconcile_inverse_def
  by (auto intro!: flow_rules inverse_step_keeps [OF assms] split: option.split)

lemma reconcile_inverse_returns:
  assumes "\<And>c. call_ok c \<Longrightarrow> keeps (inv G) (rec c)" "\<And>c. call_ok c \<Longrightarrow> returns (inv G) (rec c)"
    "okc (fi_name source) (fi_payload source)"
  shows "returns (inv G) (reconcile_inverse E rec source action)"
  unfolding reconcile_inverse_def
  by (auto intro!: flow_rules inverse_step_keeps [OF assms(1,3)] inverse_step_returns [OF assms] split: option.split)

text \<open>Work done under a guard key, which is released when it succeeded.\<close>

lemma guarded_work_keeps:
  assumes "keeps (inv (insert k G)) m" "keeps (inv (insert k G)) m'" "k \<notin> G"
    and "inv (insert k G) s" "fl_then m (fl_then m' (fl_modify (guard_remove k))) s = Some (r, s')"
  shows "inv G s'"
proof (cases "m s")
  case (Some rs1)
  obtain r1 s1 where m: "m s = Some (r1, s1)" using Some by (cases rs1) auto
  have i1: "inv (insert k G) s1" by (rule keepsD [OF assms(1) m assms(4)])
  show ?thesis
  proof (cases r1)
    case (Inl e)
    with assms(5) m i1 show ?thesis by (simp add: fl_then_def inv_def guarded_def)
  next
    case (Inr u)
    show ?thesis
    proof (cases "m' s1")
      case None
      with assms(5) m Inr show ?thesis by (simp add: fl_then_def)
    next
      case (Some rs2)
      obtain r2 s2 where m': "m' s1 = Some (r2, s2)" using Some by (cases rs2) auto
      have "inv (insert k G) s2" by (rule keepsD [OF assms(2) m' i1])
      with assms(3,5) m m' Inr show ?thesis
        by (cases r2) (auto simp: fl_then_def fl_modify_def inv_def guarded_def)
    qed
  qed
qed (use assms(5) in \<open>simp add: fl_then_def\<close>)

lemma guarded_work_returns:
  assumes "keeps (inv G) m" "returns (inv G) m" "returns (inv G) m'" "inv G s"
  shows "fl_then m (fl_then m' (fl_modify f)) s \<noteq> None"
proof -
  have "fl_then m' (fl_modify f) t \<noteq> None" if "inv G t" for t
    using assms(3) that by (auto simp: returns_def fl_then_def fl_modify_def simp del: not_None_eq split: option.splits sum.splits)
  then have "returns (inv G) (fl_then m' (fl_modify f))" by (simp add: returns_def)
  with assms(1,2,4) returns_then [OF assms(2,1)] show ?thesis unfolding returns_def by blast
qed

lemma set_facet_prepared:
  assumes "inv G s" "okc name (call_payload payload)" "fl_find_facet E name = Some def"
    "payload_type_ok (ff_payload def) (call_payload payload)"
    "set_entry (fl_lib E) def \<lparr>fi_name = name, fi_payload = call_payload payload, fi_type = FacetType\<rparr>
       (branches_of (st_facets s) name) = Some bs"
  shows "inv (insert k G) (facet_put name bs (publish L n2 ty p a subs (emit_flow L n3 p3 a3 t3 (guard_insert k s))))"
  using assms(1) I_set [OF _ assms(2-5)] by (auto simp: inv_def guarded_def)

lemma set_facet_keeps:
  assumes rec: "\<And>c G. call_ok c \<Longrightarrow> keeps (inv G) (rec c)" and ok: "okc name (call_payload payload)"
  shows "keeps (inv G) (set_facet_body E rec name payload)"
proof (rule keepsI)
  fix s r s'
  assume i: "inv G s" and run: "set_facet_body E rec name payload s = Some (r, s')"
  let ?k = "apply_key name payload"
  show "inv G s'"
  proof (cases "?k \<in> set (st_guard s)")
    case True
    with run i show ?thesis by (simp add: set_facet_body_def fl_ok_def)
  next
    case False
    then have kG: "?k \<notin> G" using i by (auto simp: inv_def guarded_def)
    show ?thesis
    proof (cases "fl_find_facet E name")
      case None
      with run i False show ?thesis by (auto simp: set_facet_body_def fl_err_def inv_def guarded_def Let_def)
    next
      case (Some def)
      show ?thesis
      proof (cases "payload_type_ok (ff_payload def) (call_payload payload)")
        case False': False
        with run i False Some kG show ?thesis
          by (auto simp: set_facet_body_def fl_err_def inv_def guarded_def Let_def call_payload_def)
      next
        case True
        let ?inst = "\<lparr>fi_name = name, fi_payload = call_payload payload, fi_type = FacetType\<rparr>"
        show ?thesis
        proof (cases "set_entry (fl_lib E) def ?inst (branches_of (st_facets s) name)")
          case None
          with run i False Some True kG I_touch [OF _ ok Some] show ?thesis
            by (auto simp: set_facet_body_def fl_err_def inv_def guarded_def Let_def call_payload_def)
        next
          case bs: (Some bs)
          let ?m = "reconcile_transcendence E rec ?inst Apply" and ?m' = "reconcile_inverse E rec ?inst Apply"
          have run': "fl_then ?m (fl_then ?m' (fl_modify (guard_remove ?k)))
             (facet_put name bs (publish (fl_lib E) name ''facet'' (call_payload payload) Apply (ff_subscribers def)
               (emit_flow (fl_lib E) name (call_payload payload) Apply Facet (guard_insert ?k s)))) = Some (r, s')"
            using run False Some True bs by (simp add: set_facet_body_def Let_def call_payload_def)
          show ?thesis
            by (rule guarded_work_keeps [OF reconcile_trans_keeps [OF rec] reconcile_inverse_keeps [OF rec] kG
                  set_facet_prepared [OF i ok Some True bs] run']) (simp_all add: ok)
        qed
      qed
    qed
  qed
qed

lemma set_facet_returns:
  assumes keep: "\<And>c G. call_ok c \<Longrightarrow> keeps (inv G) (rec c)" and ok: "okc name (call_payload payload)"
    and ret: "apply_key name payload \<notin> G \<Longrightarrow> (\<And>c. call_ok c \<Longrightarrow> returns (inv (insert (apply_key name payload) G)) (rec c))"
  shows "returns (inv G) (set_facet_body E rec name payload)"
  unfolding returns_def
proof (intro allI impI)
  fix s
  assume i: "inv G s"
  let ?k = "apply_key name payload"
  show "set_facet_body E rec name payload s \<noteq> None"
  proof (cases "?k \<in> set (st_guard s)")
    case True
    then show ?thesis by (simp add: set_facet_body_def fl_ok_def)
  next
    case False
    then have kG: "?k \<notin> G" using i by (auto simp: inv_def guarded_def)
    show ?thesis
    proof (cases "fl_find_facet E name")
      case None
      with False show ?thesis by (simp add: set_facet_body_def fl_err_def Let_def)
    next
      case (Some def)
      let ?inst = "\<lparr>fi_name = name, fi_payload = call_payload payload, fi_type = FacetType\<rparr>"
      let ?e = "set_entry (fl_lib E) def ?inst (branches_of (st_facets s) name)"
      show ?thesis
      proof (cases "payload_type_ok (ff_payload def) (call_payload payload) \<and> ?e \<noteq> None")
        case False': False
        with False Some show ?thesis
          by (auto simp: set_facet_body_def fl_err_def Let_def call_payload_def split: option.split)
      next
        case True
        then obtain bs where bs: "?e = Some bs" by blast
        let ?m = "reconcile_transcendence E rec ?inst Apply" and ?m' = "reconcile_inverse E rec ?inst Apply"
        let ?s = "facet_put name bs (publish (fl_lib E) name ''facet'' (call_payload payload) Apply (ff_subscribers def)
               (emit_flow (fl_lib E) name (call_payload payload) Apply Facet (guard_insert ?k s)))"
        have i': "inv (insert ?k G) ?s" using set_facet_prepared [OF i ok Some _ bs] True by blast
        have ok': "okc (fi_name ?inst) (fi_payload ?inst)" by (simp add: ok)
        have "fl_then ?m (fl_then ?m' (fl_modify (guard_remove ?k))) ?s \<noteq> None"
          by (rule guarded_work_returns [OF reconcile_trans_keeps [OF keep ok'] reconcile_trans_returns [OF keep ret [OF kG] ok']
                reconcile_inverse_returns [OF keep ret [OF kG] ok'] i'])
        then show ?thesis
          using False Some True bs by (simp add: set_facet_body_def Let_def call_payload_def)
      qed
    qed
  qed
qed

lemma remove_branch_prepared:
  "inv G s \<Longrightarrow> inv (insert k G) (publish L n ty p a subs (emit_flow L n2 p2 a2 t2 (guard_insert k s)))"
  by (auto simp: inv_def guarded_def)

lemma remove_branch_keeps:
  assumes rec: "\<And>c G. call_ok c \<Longrightarrow> keeps (inv G) (rec c)" and ok: "okc (fi_name b) (fi_payload b)"
  shows "keeps (inv G) (remove_branch E rec name b)"
proof (rule keepsI)
  fix s r s'
  assume i: "inv G s" and run: "remove_branch E rec name b s = Some (r, s')"
  let ?b = "b\<lparr>fi_type := FacetType\<rparr>"
  let ?k = "revert_key ?b"
  show "inv G s'"
  proof (cases "?k \<in> set (st_guard s)")
    case True
    with run i show ?thesis by (simp add: remove_branch_def fl_ok_def)
  next
    case False
    then have kG: "?k \<notin> G" using i by (auto simp: inv_def guarded_def)
    let ?m = "reconcile_transcendence E rec ?b Revert" and ?m' = "fl_ignore (reconcile_inverse E rec ?b Revert)"
    have run': "fl_then ?m (fl_then ?m' (fl_modify (guard_remove ?k)))
       (publish (fl_lib E) (fi_name ?b) ''facet'' (fi_payload ?b) Revert (Option.bind (fl_find_facet E name) ff_subscribers)
         (emit_flow (fl_lib E) (fi_name ?b) (fi_payload ?b) Revert Facet (guard_insert ?k s))) = Some (r, s')"
      using run False by (simp add: remove_branch_def Let_def)
    show ?thesis
      by (rule guarded_work_keeps [OF reconcile_trans_keeps [OF rec] keeps_ignore [OF reconcile_inverse_keeps [OF rec]] kG
            remove_branch_prepared [OF i] run']) (simp_all add: ok)
  qed
qed

lemma remove_branch_returns:
  assumes keep: "\<And>c G. call_ok c \<Longrightarrow> keeps (inv G) (rec c)" and ok: "okc (fi_name b) (fi_payload b)"
    and ret: "revert_key (b\<lparr>fi_type := FacetType\<rparr>) \<notin> G \<Longrightarrow>
      (\<And>c. call_ok c \<Longrightarrow> returns (inv (insert (revert_key (b\<lparr>fi_type := FacetType\<rparr>)) G)) (rec c))"
  shows "returns (inv G) (remove_branch E rec name b)"
  unfolding returns_def
proof (intro allI impI)
  fix s
  assume i: "inv G s"
  let ?b = "b\<lparr>fi_type := FacetType\<rparr>"
  let ?k = "revert_key ?b"
  show "remove_branch E rec name b s \<noteq> None"
  proof (cases "?k \<in> set (st_guard s)")
    case True
    then show ?thesis by (simp add: remove_branch_def fl_ok_def)
  next
    case False
    then have kG: "?k \<notin> G" using i by (auto simp: inv_def guarded_def)
    have ok': "okc (fi_name ?b) (fi_payload ?b)" by (simp add: ok)
    have "fl_then (reconcile_transcendence E rec ?b Revert)
        (fl_then (fl_ignore (reconcile_inverse E rec ?b Revert)) (fl_modify (guard_remove ?k)))
        (publish (fl_lib E) (fi_name ?b) ''facet'' (fi_payload ?b) Revert (Option.bind (fl_find_facet E name) ff_subscribers)
          (emit_flow (fl_lib E) (fi_name ?b) (fi_payload ?b) Revert Facet (guard_insert ?k s))) \<noteq> None"
      by (rule guarded_work_returns [OF reconcile_trans_keeps [OF keep ok'] reconcile_trans_returns [OF keep ret [OF kG] ok']
            returns_ignore [OF reconcile_inverse_returns [OF keep ret [OF kG] ok']] remove_branch_prepared [OF i]])
    then show ?thesis using False by (simp add: remove_branch_def Let_def)
  qed
qed

lemma remove_facet_keeps:
  assumes rec: "\<And>c G. call_ok c \<Longrightarrow> keeps (inv G) (rec c)"
  shows "keeps (inv G) (remove_facet_body E rec name flt)"
proof (rule keepsI)
  fix s r s'
  assume i: "inv G s" and run: "remove_facet_body E rec name flt s = Some (r, s')"
  show "inv G s'"
  proof (cases "map_of (st_facets s) name")
    case None
    with run i show ?thesis by (simp add: remove_facet_body_def fl_ok_def)
  next
    case (Some branches)
    define keep where "keep b = (case flt of Some f \<Rightarrow> \<not> match_operation (fl_lib E) f (fi_payload b) | None \<Rightarrow> False)" for b :: flow_instance
    let ?s = "s\<lparr>st_facets := AList.delete name (st_facets s)\<rparr>"
    have tr: "(case flt of Some f \<Rightarrow> filter (\<lambda>b. match_operation (fl_lib E) f (fi_payload b)) branches | None \<Rightarrow> branches)
        = filter (\<lambda>b. \<not> keep b) branches"
      and tk: "(case flt of Some f \<Rightarrow> filter (\<lambda>b. \<not> match_operation (fl_lib E) f (fi_payload b)) branches | None \<Rightarrow> [])
        = filter keep branches"
      unfolding keep_def by (cases flt; simp)+
    have run': "fl_then (fl_for (remove_branch E rec name) (filter (\<lambda>b. \<not> keep b) branches))
        (fl_modify (\<lambda>s. if filter keep branches \<noteq> [] then facet_put name (filter keep branches) s else s)) ?s = Some (r, s')"
      using run by (simp only: remove_facet_body_def Let_def Some option.case tr tk)
    have I: "I (st_facets s)" using i by (simp add: inv_def)
    have i0: "inv G ?s" using i I_delete [OF I] by (simp add: inv_def guarded_def)
    have "okc (fi_name b) (fi_payload b)" if "b \<in> set branches" for b by (rule branch_ok [OF I Some that])
    then have kf: "keeps (inv G) (fl_for (remove_branch E rec name) (filter (\<lambda>b. \<not> keep b) branches))"
      by (intro keeps_for remove_branch_keeps [OF rec]) auto
    have km: "keeps (inv G) (fl_modify (\<lambda>s. if filter keep branches \<noteq> [] then facet_put name (filter keep branches) s else s))"
      by (rule keepsI) (auto simp: fl_modify_def inv_def guarded_def I_put [OF _ I Some] split: if_splits)
    from keepsD [OF keeps_then [OF kf km] run' i0] show ?thesis .
  qed
qed

lemma remove_facet_returns:
  assumes keep: "\<And>c G. call_ok c \<Longrightarrow> keeps (inv G) (rec c)"
    and ret: "\<And>b. okc (fi_name b) (fi_payload b) \<Longrightarrow> returns (inv G) (remove_branch E rec name b)"
  shows "returns (inv G) (remove_facet_body E rec name flt)"
  unfolding returns_def
proof (intro allI impI)
  fix s
  assume i: "inv G s"
  then have I: "I (st_facets s)" by (simp add: inv_def)
  show "remove_facet_body E rec name flt s \<noteq> None"
  proof (cases "map_of (st_facets s) name")
    case (Some branches)
    let ?s = "s\<lparr>st_facets := AList.delete name (st_facets s)\<rparr>"
    have i0: "inv G ?s" using i I_delete [OF I] by (simp add: inv_def guarded_def)
    have ok: "okc (fi_name b) (fi_payload b)" if "b \<in> set branches" for b by (rule branch_ok [OF I Some that])
    have "returns (inv G) (fl_then (fl_for (remove_branch E rec name) bs) (fl_modify f))" if "set bs \<subseteq> set branches" for bs f
      using ok that by (intro flow_rules ret remove_branch_keeps [OF keep]) auto
    with i0 show ?thesis unfolding returns_def
      by (auto simp: remove_facet_body_def Some Let_def simp del: not_None_eq split: option.split)
  qed (simp add: remove_facet_body_def fl_ok_def)
qed

lemma flow_run_keeps: "call_ok c \<Longrightarrow> keeps (inv G) (flow_run n E c)"
proof (induction n arbitrary: c G)
  case (Suc n)
  show ?case
  proof (cases c)
    case (CSet name p)
    with Suc.prems set_facet_keeps [of "flow_run n E" name p] Suc.IH show ?thesis by (simp add: call_ok_def)
  next
    case (CRemove name flt)
    with remove_facet_keeps [of "flow_run n E" G name flt] Suc.IH show ?thesis by simp
  qed
qed (simp add: keeps_def)

end

section \<open>Operations return\<close>

text \<open>When every key the guard can get is in a finite set, fuel above its size is enough.\<close>

locale flow_bounded = flow_invariant +
  fixes K :: "ustr set"
  assumes K_finite: "finite K"
    and K_apply: "okc n (call_payload p) \<Longrightarrow> apply_key n p \<in> K"
    and K_revert: "okc (fi_name b) (fi_payload b) \<Longrightarrow> revert_key (b\<lparr>fi_type := FacetType\<rparr>) \<in> K"
begin

lemma room_shrinks: "k \<in> K \<Longrightarrow> k \<notin> G \<Longrightarrow> card (K - G) < Suc n \<Longrightarrow> card (K - insert k G) < n"
  using card_Diff1_less [of "K - G" k] K_finite by (metis Diff_insert DiffI finite_Diff less_Suc_eq_le order_less_le_trans)

lemma flow_run_returns: "call_ok c \<Longrightarrow> card (K - G) < n \<Longrightarrow> returns (inv G) (flow_run n E c)"
proof (induction n arbitrary: c G)
  case (Suc n)
  show ?case
  proof (cases c)
    case (CSet name p)
    with Suc.prems have ok: "okc name (call_payload p)" by (simp add: call_ok_def)
    have "returns (inv G) (set_facet_body E (flow_run n E) name p)"
      by (rule set_facet_returns [OF flow_run_keeps ok])
        (assumption, rule Suc.IH, assumption, rule room_shrinks [OF K_apply [OF ok] _ Suc.prems(2)])
    with CSet show ?thesis by simp
  next
    case (CRemove name flt)
    have "returns (inv G) (remove_facet_body E (flow_run n E) name flt)"
    proof (rule remove_facet_returns [OF flow_run_keeps])
      show "call_ok c" if "call_ok c" for c by (rule that)
      fix b :: flow_instance
      assume ok: "okc (fi_name b) (fi_payload b)"
      show "returns (inv G) (remove_branch E (flow_run n E) name b)"
        by (rule remove_branch_returns [OF flow_run_keeps ok])
          (assumption, rule Suc.IH, assumption, rule room_shrinks [OF K_revert [OF ok] _ Suc.prems(2)])
    qed
    with CRemove show ?thesis by simp
  qed
qed simp

end

end
