(* ===== verification/FlowProps.thy ===== *)
theory FlowProps
  imports FlowFacts
begin

text \<open>
  Properties of the flow runtime: its graph stays well typed, its operations return, removing never
  fails, and what the reconciliation does on the configurations the documentation gives.
\<close>

section \<open>The graph is well typed\<close>

text \<open>
  Every branch carries the name of its facet and a payload of the declared type, and a facet whose
  payload is not JSON has at most one branch.
\<close>

definition facet_typed :: "flow_env \<Rightarrow> ustr \<Rightarrow> flow_instance list \<Rightarrow> bool" where
  "facet_typed E n bs \<longleftrightarrow>
     bs = [] \<or> (\<exists>def. fl_find_facet E n = Some def
       \<and> (\<forall>b \<in> set bs. fi_name b = n \<and> fi_type b = FacetType \<and> payload_type_ok (ff_payload def) (fi_payload b))
       \<and> (ff_payload def \<noteq> TJson \<longrightarrow> length bs \<le> 1))"

definition graph_typed :: "flow_env \<Rightarrow> facet_map \<Rightarrow> bool" where
  "graph_typed E f \<longleftrightarrow> keys_distinct f \<and> (\<forall>n bs. map_of f n = Some bs \<longrightarrow> facet_typed E n bs)"

lemma merge_branch_elems:
  "merge_branch L keys k j bs = Some bs' \<Longrightarrow> b' \<in> set bs' \<Longrightarrow>
   b' \<in> set bs \<or> (\<exists>b \<in> set bs. \<exists>t. fi_payload b = PJson t \<and> b' = b\<lparr>fi_payload := PJson (jl_print L (merge_json (into_json L t) j))\<rparr>)"
  by (induction bs arbitrary: bs') (fastforce split: flow_payload.splits if_splits)+

lemma set_entry_typed:
  assumes "fl_find_facet E n = Some def" "payload_type_ok (ff_payload def) p" "facet_typed E n entry"
    and "set_entry L def \<lparr>fi_name = n, fi_payload = p, fi_type = FacetType\<rparr> entry = Some bs"
  shows "facet_typed E n bs"
proof (cases "\<exists>t. p = PJson t")
  case False
  then have "bs = [\<lparr>fi_name = n, fi_payload = p, fi_type = FacetType\<rparr>]"
    using assms(4) by (auto simp: set_entry_def split: flow_payload.splits)
  with assms(1,2) show ?thesis by (simp add: facet_typed_def)
next
  case True
  then obtain t where t: "p = PJson t" by blast
  with assms(2) have ty: "ff_payload def = TJson" by simp
  have "fi_name b = n \<and> fi_type b = FacetType \<and> payload_type_ok TJson (fi_payload b)" if "b \<in> set bs" for b
  proof -
    have old: "fi_name b = n \<and> fi_type b = FacetType \<and> payload_type_ok TJson (fi_payload b)" if "b \<in> set entry" for b
      using assms(1,3) that ty by (auto simp: facet_typed_def)
    from assms(4) that have "b \<in> set entry \<or> b = \<lparr>fi_name = n, fi_payload = p, fi_type = FacetType\<rparr>
      \<or> (\<exists>c \<in> set entry. \<exists>u. b = c\<lparr>fi_payload := PJson u\<rparr>)"
      by (auto simp: set_entry_def t split: option.splits dest!: merge_branch_elems)
    then show ?thesis using old t by auto
  qed
  with assms(1) ty show ?thesis by (auto simp: facet_typed_def)
qed

lemma facet_typed_filter: "facet_typed E n bs \<Longrightarrow> facet_typed E n (filter Q bs)"
  unfolding facet_typed_def by (auto intro: le_trans [OF length_filter_le])

lemma branches_typed: "graph_typed E f \<Longrightarrow> facet_typed E n (branches_of f n)"
  by (cases "map_of f n") (simp_all add: graph_typed_def branches_of_def facet_typed_def [of E n "[]"])

interpretation typing: flow_invariant E "graph_typed E" "\<lambda>_ _. True" for E
proof
  show "graph_typed E (AList.update n bs f)"
    if "graph_typed E f" "fl_find_facet E n = Some def" "payload_type_ok (ff_payload def) p"
      "set_entry (fl_lib E) def \<lparr>fi_name = n, fi_payload = p, fi_type = FacetType\<rparr> (branches_of f n) = Some bs" for f n p def bs
    using that set_entry_typed [OF that(2,3) branches_typed [OF that(1)] that(4)] by (simp add: graph_typed_def)
  show "graph_typed E (AList.update n (branches_of f n) f)" if "graph_typed E f" for f n
    using that branches_typed [OF that, of n] by (simp add: graph_typed_def)
qed (auto simp: graph_typed_def facet_typed_filter)

section \<open>More fuel changes nothing\<close>

definition refines :: "flow_m \<Rightarrow> flow_m \<Rightarrow> bool" where
  "refines m m' \<longleftrightarrow> (\<forall>s x. m s = Some x \<longrightarrow> m' s = Some x)"

lemma refines_refl [simp]: "refines m m" by (simp add: refines_def)

lemma refines_then [flow_rules]: "refines m m' \<Longrightarrow> refines k k' \<Longrightarrow> refines (fl_then m k) (fl_then m' k')"
  unfolding refines_def fl_then_def by (auto split: option.splits sum.splits)

lemma refines_ignore [flow_rules]: "refines m m' \<Longrightarrow> refines (fl_ignore m) (fl_ignore m')"
  unfolding refines_def fl_ignore_def by (auto split: option.splits)

lemma refines_for [flow_rules]: "(\<And>x. refines (f x) (g x)) \<Longrightarrow> refines (fl_for f xs) (fl_for g xs)"
  by (induction xs) (auto intro: flow_rules)

lemma refinesD: "refines m m' \<Longrightarrow> m s = Some x \<Longrightarrow> m' s = Some x"
  unfolding refines_def by blast

lemma trans_refines:
  assumes rec: "\<And>c. refines (rec c) (rec' c)"
  shows "refines (reconcile_transcendence E rec src a) (reconcile_transcendence E rec' src a)"
  unfolding reconcile_transcendence_def trans_step_def
  by (auto intro!: flow_rules rec split: option.split)

lemma inverse_payload_refines:
  assumes rec: "\<And>c. refines (rec c) (rec' c)"
  shows "refines (inverse_payload_step E rec src a t def deps p) (inverse_payload_step E rec' src a t def deps p)"
  using rec by (auto simp: refines_def inverse_payload_step_def split: option.splits)

lemma inverse_refines:
  assumes rec: "\<And>c. refines (rec c) (rec' c)"
  shows "refines (reconcile_inverse E rec src a) (reconcile_inverse E rec' src a)"
proof -
  have "refines (inverse_step E rec src a t) (inverse_step E rec' src a t)" for t
    unfolding refines_def inverse_step_def
    by (auto split: option.split intro!: refinesD [OF refines_for [OF inverse_payload_refines [OF rec]]])
  then show ?thesis unfolding reconcile_inverse_def by (auto intro!: flow_rules split: option.split)
qed

lemma set_refines:
  assumes rec: "\<And>c. refines (rec c) (rec' c)"
  shows "refines (set_facet_body E rec n p) (set_facet_body E rec' n p)"
proof -
  have "refines (fl_then (reconcile_transcendence E rec i Apply) (fl_then (reconcile_inverse E rec i Apply) (fl_modify f)))
      (fl_then (reconcile_transcendence E rec' i Apply) (fl_then (reconcile_inverse E rec' i Apply) (fl_modify f)))" for i f
    by (intro flow_rules trans_refines inverse_refines rec) simp
  from refinesD [OF this] show ?thesis
    unfolding refines_def set_facet_body_def Let_def by (auto split: option.splits if_splits)
qed

lemma remove_refines:
  assumes rec: "\<And>c. refines (rec c) (rec' c)"
  shows "refines (remove_facet_body E rec n flt) (remove_facet_body E rec' n flt)"
proof -
  have b: "refines (remove_branch E rec n b) (remove_branch E rec' n b)" for b
  proof -
    have "refines (fl_then (reconcile_transcendence E rec i Revert) (fl_then (fl_ignore (reconcile_inverse E rec i Revert)) (fl_modify f)))
        (fl_then (reconcile_transcendence E rec' i Revert) (fl_then (fl_ignore (reconcile_inverse E rec' i Revert)) (fl_modify f)))" for i f
      by (intro flow_rules trans_refines inverse_refines rec) simp
    from refinesD [OF this] show ?thesis unfolding refines_def remove_branch_def Let_def by (auto split: if_splits)
  qed
  have "refines (fl_then (fl_for (remove_branch E rec n) bs) (fl_modify f)) (fl_then (fl_for (remove_branch E rec' n) bs) (fl_modify f))" for bs f
    by (intro flow_rules b) simp
  from refinesD [OF this] show ?thesis
    unfolding refines_def remove_facet_body_def Let_def by (auto split: option.splits)
qed

lemma flow_run_Suc: "refines (flow_run n E c) (flow_run (Suc n) E c)"
proof (induction n arbitrary: c)
  case (Suc n)
  then show ?case
    by (cases c) (auto intro!: set_refines remove_refines simp del: flow_run.simps simp: flow_run.simps(2) [of "Suc n"] flow_run.simps(2) [of n])
qed (simp add: refines_def)

lemma flow_run_mono: "n \<le> m \<Longrightarrow> flow_run n E c s = Some x \<Longrightarrow> flow_run m E c s = Some x"
  by (induction rule: dec_induct) (auto dest: refinesD [OF flow_run_Suc] simp del: flow_run.simps)

section \<open>The payloads an operation can build\<close>

definition entries_in :: "string set \<Rightarrow> json set \<Rightarrow> (string \<times> json) list \<Rightarrow> bool" where
  "entries_in KS VS m \<longleftrightarrow> fst ` set m \<subseteq> KS \<and> snd ` set m \<subseteq> VS"

text \<open>The keys: those of the payloads there are and the targets of the branch specifications, with all their suffixes.\<close>

definition payload_keys :: "json_lib \<Rightarrow> flow_payload set \<Rightarrow> string set \<Rightarrow> string set" where
  "payload_keys L B T = {drop i k | i k. i \<le> length k \<and> (k \<in> T \<or> (\<exists>t m. PJson t \<in> B \<and> into_json L t = JObj m \<and> k \<in> fst ` set m))}"

definition payload_values :: "json_lib \<Rightarrow> flow_payload set \<Rightarrow> json set" where
  "payload_values L B = {v. \<exists>t m. PJson t \<in> B \<and> into_json L t = JObj m \<and> v \<in> snd ` set m}"

definition universe :: "json_lib \<Rightarrow> flow_payload set \<Rightarrow> string set \<Rightarrow> flow_payload set" where
  "universe L B T = B \<union> {PJson (jl_print L (into_json L t)) | t. PJson t \<in> B}
     \<union> {PJson (jl_print L (JObj m)) | m. json_wf (JObj m) \<and> entries_in (payload_keys L B T) (payload_values L B) m}"

lemma finite_payload_values: "finite B \<Longrightarrow> finite (payload_values L B)"
proof -
  assume "finite B"
  moreover have "payload_values L B = (\<Union>p \<in> B. case p of PJson t \<Rightarrow> (case into_json L t of JObj m \<Rightarrow> snd ` set m | _ \<Rightarrow> {}) | _ \<Rightarrow> {})"
    by (force simp: payload_values_def split: flow_payload.splits json.splits)
  ultimately show ?thesis by (auto split: flow_payload.split json.split)
qed

lemma finite_payload_keys: "finite B \<Longrightarrow> finite T \<Longrightarrow> finite (payload_keys L B T)"
proof -
  assume B: "finite B" and T: "finite T"
  let ?K = "T \<union> (\<Union>p \<in> B. case p of PJson t \<Rightarrow> (case into_json L t of JObj m \<Rightarrow> fst ` set m | _ \<Rightarrow> {}) | _ \<Rightarrow> {})"
  have "payload_keys L B T \<subseteq> (\<Union>k \<in> ?K. (\<lambda>i. drop i k) ` {..length k})"
    by (force simp: payload_keys_def split: flow_payload.splits json.splits)
  moreover have "finite ?K" using B T by (auto split: flow_payload.split json.split)
  then have "finite (\<Union>k \<in> ?K. (\<lambda>i. drop i k) ` {..length k})" by (rule finite_UN_I) simp
  ultimately show ?thesis by (rule finite_subset)
qed

lemma finite_universe:
  assumes "finite B" "finite T"
  shows "finite (universe L B T)"
proof -
  let ?A = "payload_keys L B T \<times> payload_values L B"
  have fA: "finite ?A" using finite_payload_keys [OF assms] finite_payload_values [OF assms(1)] by simp
  have "{m. json_wf (JObj m) \<and> entries_in (payload_keys L B T) (payload_values L B) m} \<subseteq> {m. set m \<subseteq> ?A \<and> length m \<le> card ?A}"
  proof
    fix m
    assume m: "m \<in> {m. json_wf (JObj m) \<and> entries_in (payload_keys L B T) (payload_values L B) m}"
    then have "distinct m" by (auto simp: strict_sorted_iff distinct_map)
    moreover have "set m \<subseteq> ?A" using m by (force simp: entries_in_def)
    ultimately show "m \<in> {m. set m \<subseteq> ?A \<and> length m \<le> card ?A}"
      using card_mono [OF fA, of "set m"] by (simp add: distinct_card)
  qed
  moreover have "finite {m. set m \<subseteq> ?A \<and> length m \<le> card ?A}" by (rule finite_lists_length_le [OF fA])
  ultimately have "finite {m. json_wf (JObj m) \<and> entries_in (payload_keys L B T) (payload_values L B) m}"
    by (rule finite_subset)
  then have f1: "finite {PJson (jl_print L (JObj m)) | m. json_wf (JObj m) \<and> entries_in (payload_keys L B T) (payload_values L B) m}"
    by simp
  have "{PJson (jl_print L (into_json L t)) | t. PJson t \<in> B}
      \<subseteq> (\<lambda>p. case p of PJson t \<Rightarrow> PJson (jl_print L (into_json L t)) | _ \<Rightarrow> p) ` B" by force
  then have "finite {PJson (jl_print L (into_json L t)) | t. PJson t \<in> B}" by (rule finite_subset) (simp add: assms(1))
  with f1 assms(1) show ?thesis by (simp add: universe_def)
qed

text \<open>Every object among them has entries of these keys and values.\<close>

lemma universe_object:
  assumes "json_lib_ok L" "PJson t \<in> universe L B T" "into_json L t = JObj m"
  shows "json_wf (JObj m) \<and> entries_in (payload_keys L B T) (payload_values L B) m"
proof -
  have wf: "json_wf (JObj m)" using json_wf_into_json [OF assms(1), of t] assms(3) by simp
  have base: "entries_in (payload_keys L B T) (payload_values L B) m'" if "PJson u \<in> B" "into_json L u = JObj m'" for u m'
  proof -
    have "fst ` set m' \<subseteq> payload_keys L B T"
    proof
      fix k
      assume "k \<in> fst ` set m'"
      then show "k \<in> payload_keys L B T"
        unfolding payload_keys_def using that by (intro CollectI exI [of _ 0] exI [of _ k]) auto
    qed
    moreover have "snd ` set m' \<subseteq> payload_values L B" using that by (force simp: payload_values_def)
    ultimately show ?thesis by (simp add: entries_in_def)
  qed
  from assms(2) consider "PJson t \<in> B" | u where "PJson u \<in> B" "t = jl_print L (into_json L u)"
    | m' where "json_wf (JObj m')" "entries_in (payload_keys L B T) (payload_values L B) m'" "t = jl_print L (JObj m')"
    by (auto simp: universe_def)
  then have "entries_in (payload_keys L B T) (payload_values L B) m"
  proof cases
    case 1
    with base assms(3) show ?thesis by blast
  next
    case (2 u)
    then have "into_json L u = JObj m" using assms(1,3) by simp
    with base 2(1) show ?thesis by blast
  next
    case (3 m')
    then have "m' = m" using assms(1,3) by (simp del: json_wf_simps)
    with 3 show ?thesis by simp
  qed
  with wf show ?thesis by simp
qed

lemma entries_insert: "entries_in KS VS y \<Longrightarrow> k \<in> KS \<Longrightarrow> v \<in> VS \<Longrightarrow> entries_in KS VS (obj_insert k v y)"
  by (induction k v y rule: obj_insert.induct) (auto simp: entries_in_def)

lemma universe_merge:
  assumes "json_lib_ok L" "PJson a \<in> universe L B T" "PJson b \<in> universe L B T"
  shows "PJson (jl_print L (merge_json (into_json L a) (into_json L b))) \<in> universe L B T"
proof (cases "\<exists>m. into_json L a = JObj m")
  case False
  then have "merge_json (into_json L a) (into_json L b) = into_json L a" by (cases "into_json L a") auto
  moreover from assms(2) False have "PJson a \<in> B \<or> (\<exists>u. PJson u \<in> B \<and> into_json L a = into_json L u)"
    using assms(1) by (auto simp: universe_def simp del: json_wf_simps)
  ultimately show ?thesis by (auto simp: universe_def)
next
  case True
  then obtain m where m: "into_json L a = JObj m" by blast
  note om = universe_object [OF assms(1,2) m]
  have "merge_json (into_json L a) (into_json L b) = JObj m \<or>
     (\<exists>m'. into_json L b = JObj m' \<and> merge_json (into_json L a) (into_json L b) = JObj (merge_entries [] m' m))"
    by (cases "into_json L b") (simp_all add: m)
  moreover have "json_wf (JObj (merge_entries [] m' m)) \<and> entries_in (payload_keys L B T) (payload_values L B) (merge_entries [] m' m)"
    if m': "into_json L b = JObj m'" for m'
  proof -
    note om' = universe_object [OF assms(1,3) m']
    have "entries_in (payload_keys L B T) (payload_values L B) (merge_entries fc x y)"
      if "entries_in (payload_keys L B T) (payload_values L B) x" "entries_in (payload_keys L B T) (payload_values L B) y" for fc x y
      using that
    proof (induction fc x y rule: merge_entries.induct)
      case (2 fc k v x y)
      have v: "v \<in> payload_values L B" using "2.prems"(1) by (simp add: entries_in_def)
      note ins = entries_insert [OF "2.prems"(2) _ v]
      have k: "k \<in> payload_keys L B T" using "2.prems"(1) by (simp add: entries_in_def)
      have "k' \<in> payload_keys L B T" if "strip_prefix ''&'' k = Some k'" for k'
      proof -
        from that have "k' = drop 1 k" "0 < length k" by (cases k; auto split: if_splits)+
        moreover from k obtain i k0 where "k = drop i k0" "i \<le> length k0"
          "k0 \<in> T \<or> (\<exists>t m. PJson t \<in> B \<and> into_json L t = JObj m \<and> k0 \<in> fst ` set m)"
          unfolding payload_keys_def by blast
        ultimately show ?thesis unfolding payload_keys_def
          by (intro CollectI exI [of _ "1 + i"] exI [of _ k0]) auto
      qed
      moreover have "entries_in (payload_keys L B T) (payload_values L B) x" using "2.prems"(1) by (simp add: entries_in_def)
      ultimately show ?case using "2.IH" "2.prems"(2) ins k by (simp split: option.split)
    qed simp
    from this [of m' m "[]"] om om' have "entries_in (payload_keys L B T) (payload_values L B) (merge_entries [] m' m)" by blast
    moreover have "json_wf (JObj (merge_entries [] m' m))"
      using json_wf_merge [of "JObj m" "JObj m'"] om om' by (simp del: json_wf_simps)
    ultimately show ?thesis by blast
  qed
  ultimately show ?thesis using om by (auto simp: universe_def simp del: json_wf_simps)
qed

lemma map_specs_entries:
  "map_specs specs src acc = Some m \<Longrightarrow> entries_in KS VS acc \<Longrightarrow> snd ` set src \<subseteq> VS \<Longrightarrow> branch_target_key ` set specs \<subseteq> KS \<Longrightarrow>
   entries_in KS VS m"
proof (induction specs arbitrary: acc)
  case (Cons x specs)
  then obtain v where v: "map_of src (branch_source_key x) = Some v"
    "map_specs specs src (obj_insert (branch_target_key x) v acc) = Some m"
    by (auto split: option.splits)
  have "v \<in> VS" using map_of_SomeD [OF v(1)] Cons.prems(3) by force
  with Cons.prems have "entries_in KS VS (obj_insert (branch_target_key x) v acc)" by (intro entries_insert) auto
  with Cons.IH [OF v(2)] Cons.prems show ?case by auto
qed simp

lemma universe_transcend:
  assumes "json_lib_ok L" "PNone False \<in> B" "\<And>specs. ff_branch def = Some specs \<Longrightarrow> branch_target_key ` set specs \<subseteq> T"
    and "src \<in> universe L B T" "transcendent_payload_for L def src = Some q"
  shows "q \<in> universe L B T"
proof (cases "q = src \<or> q = PNone False")
  case True
  with assms(2,4) show ?thesis by (auto simp: universe_def)
next
  case False
  then obtain specs where specs: "ff_branch def = Some specs" "map_json_payload L specs src = Some q"
    using assms(5) by (auto simp: transcendent_payload_for_def split: flow_payload_type.splits option.splits flow_payload.splits)
  then obtain t o' m where t: "src = PJson t" "into_json L t = JObj o'" "map_specs specs o' [] = Some m" "q = PJson (jl_print L (JObj m))"
    by (cases src) (auto split: option.splits elim: json_as_object.elims)
  note om = universe_object [OF assms(1) assms(4) [unfolded t(1)] t(2)]
  have "T \<subseteq> payload_keys L B T"
    unfolding payload_keys_def by (rule subsetI, intro CollectI exI [of _ 0]) auto
  with assms(3) [OF specs(1)] have tk: "branch_target_key ` set specs \<subseteq> payload_keys L B T" by blast
  have vs: "snd ` set o' \<subseteq> payload_values L B" using om by (simp add: entries_in_def)
  have "entries_in (payload_keys L B T) (payload_values L B) m"
    by (rule map_specs_entries [OF t(3) _ vs tk]) (simp add: entries_in_def)
  moreover have "json_wf (JObj m)" by (rule map_specs_wf [OF t(3)]) (use om in auto)
  ultimately show ?thesis unfolding universe_def t(4) by blast
qed

section \<open>Every operation returns\<close>

definition known_facets :: "flow_env \<Rightarrow> flow_facet set" where
  "known_facets E = {def. \<exists>n. fl_find_facet E n = Some def}"

definition base_payloads :: "flow_env \<Rightarrow> flow_payload set \<Rightarrow> flow_payload set" where
  "base_payloads E B = insert (PNone False) (B \<union> (\<Union>def \<in> known_facets E. set (auto_payloads_for E def)))"

definition target_keys :: "flow_env \<Rightarrow> string set" where
  "target_keys E = (\<Union>def \<in> known_facets E. case ff_branch def of Some specs \<Rightarrow> branch_target_key ` set specs | None \<Rightarrow> {})"

definition target_names :: "flow_env \<Rightarrow> ustr set" where
  "target_names E = (\<Union>(_, ts) \<in> set (fl_trans E) \<union> set (fl_inverse E). set ts)"

text \<open>The graph holds only payloads of the universe, under names of a set.\<close>

definition graph_within :: "flow_env \<Rightarrow> flow_payload set \<Rightarrow> ustr set \<Rightarrow> facet_map \<Rightarrow> bool" where
  "graph_within E B N f \<longleftrightarrow> (\<forall>n bs. map_of f n = Some bs \<longrightarrow>
     (\<forall>b \<in> set bs. fi_name b \<in> N \<and> fi_payload b \<in> universe (fl_lib E) (base_payloads E B) (target_keys E)))"

definition guard_keys :: "flow_env \<Rightarrow> flow_payload set \<Rightarrow> ustr set \<Rightarrow> ustr set" where
  "guard_keys E B N = (\<Union>n \<in> N. \<Union>p \<in> universe (fl_lib E) (base_payloads E B) (target_keys E).
     {apply_key n (Some p), apply_key n None, revert_key \<lparr>fi_name = n, fi_payload = p, fi_type = FacetType\<rparr>})"

lemma set_entry_within:
  assumes "json_lib_ok L" "p \<in> universe L B T" "n \<in> N"
    and "\<And>b. b \<in> set entry \<Longrightarrow> fi_name b \<in> N \<and> fi_payload b \<in> universe L B T"
    and "set_entry L def \<lparr>fi_name = n, fi_payload = p, fi_type = FacetType\<rparr> entry = Some bs" "b \<in> set bs"
  shows "fi_name b \<in> N \<and> fi_payload b \<in> universe L B T"
proof (cases "\<exists>t. p = PJson t")
  case False
  then have "bs = [\<lparr>fi_name = n, fi_payload = p, fi_type = FacetType\<rparr>]"
    using assms(5) by (auto simp: set_entry_def split: flow_payload.splits)
  with assms show ?thesis by simp
next
  case True
  then obtain t where t: "p = PJson t" by blast
  from assms(5,6) have "b \<in> set entry \<or> b = \<lparr>fi_name = n, fi_payload = p, fi_type = FacetType\<rparr>
      \<or> (\<exists>c \<in> set entry. \<exists>u. fi_payload c = PJson u \<and> b = c\<lparr>fi_payload := PJson (jl_print L (merge_json (into_json L u) (into_json L t)))\<rparr>)"
    by (auto simp: set_entry_def t split: option.splits dest!: merge_branch_elems)
  then show ?thesis
  proof (elim disjE bexE exE conjE)
    fix c u
    assume "c \<in> set entry" "fi_payload c = PJson u" "b = c\<lparr>fi_payload := PJson (jl_print L (merge_json (into_json L u) (into_json L t)))\<rparr>"
    with assms(4) [of c] universe_merge [OF assms(1), of u B T t] assms(2) t show ?thesis by simp
  qed (use assms(2-4) in auto)
qed

text \<open>What the bound needs: finitely many definitions, payloads and names, closed under the indexes.\<close>

definition fine :: "flow_env \<Rightarrow> flow_payload set \<Rightarrow> ustr set \<Rightarrow> bool" where
  "fine E B N \<longleftrightarrow> json_lib_ok (fl_lib E) \<and> finite (known_facets E) \<and> finite B \<and> finite N \<and> target_names E \<subseteq> N"

definition okc_within :: "flow_env \<Rightarrow> flow_payload set \<Rightarrow> ustr set \<Rightarrow> ustr \<Rightarrow> flow_payload \<Rightarrow> bool" where
  "okc_within E B N n p \<longleftrightarrow> fine E B N \<and> n \<in> N \<and> p \<in> universe (fl_lib E) (base_payloads E B) (target_keys E)"

interpretation bounded: flow_bounded E "\<lambda>f. fine E B N \<and> graph_within E B N f" "okc_within E B N"
    "if fine E B N then guard_keys E B N else {}" for E B N
proof (cases "fine E B N")
  case False
  then show "flow_bounded E (\<lambda>f. fine E B N \<and> graph_within E B N f) (okc_within E B N) (if fine E B N then guard_keys E B N else {})"
    by unfold_locales (simp_all add: okc_within_def)
next
  case True
  then have assms: "json_lib_ok (fl_lib E)" "finite (known_facets E)" "finite B" "finite N" "target_names E \<subseteq> N"
    by (simp_all add: fine_def)
  have okc: "okc_within E B N n p \<longleftrightarrow> n \<in> N \<and> p \<in> universe (fl_lib E) (base_payloads E B) (target_keys E)" for n p
    by (simp add: okc_within_def True)
  show "flow_bounded E (\<lambda>f. fine E B N \<and> graph_within E B N f) (okc_within E B N) (if fine E B N then guard_keys E B N else {})"
  proof -
  let ?U = "universe (fl_lib E) (base_payloads E B) (target_keys E)"
  have fin: "finite (base_payloads E B)" "finite (target_keys E)"
    using assms(2,3) by (auto simp: base_payloads_def target_keys_def split: option.split)
  have fU: "finite ?U" by (rule finite_universe [OF fin])
  have none: "PNone False \<in> base_payloads E B" by (simp add: base_payloads_def)
  have auto_in: "q \<in> ?U" if "fl_find_facet E t = Some def" "q \<in> set (auto_payloads_for E def)" for t def q
    using that by (auto simp: universe_def base_payloads_def known_facets_def)
  have tk: "branch_target_key ` set specs \<subseteq> target_keys E" if "fl_find_facet E t = Some def" "ff_branch def = Some specs" for t def specs
  proof -
    have "def \<in> known_facets E" using that(1) by (auto simp: known_facets_def)
    then show ?thesis unfolding target_keys_def using that(2) by (intro subsetI UN_I [of def]) auto
  qed
  have names: "t \<in> N" if "map_of (fl_trans E) n = Some ts \<or> map_of (fl_inverse E) n = Some ts" "t \<in> set ts" for n ts t
  proof -
    have "(n, ts) \<in> set (fl_trans E) \<union> set (fl_inverse E)" using that(1) by (auto dest: map_of_SomeD)
    then have "t \<in> target_names E" unfolding target_names_def using that(2) by (intro UN_I [of "(n, ts)"]) auto
    with assms(5) show ?thesis by blast
  qed
  have "flow_bounded E (graph_within E B N) (\<lambda>n p. n \<in> N \<and> p \<in> ?U) (guard_keys E B N)"
  proof
    show "graph_within E B N (AList.update n bs f)"
      if "graph_within E B N f" "n \<in> N \<and> p \<in> ?U" "set_entry (fl_lib E) def \<lparr>fi_name = n, fi_payload = p, fi_type = FacetType\<rparr> (branches_of f n) = Some bs"
      for f n p def bs
    proof -
      have "fi_name b \<in> N \<and> fi_payload b \<in> ?U" if "b \<in> set (branches_of f n)" for b
        using \<open>graph_within E B N f\<close> that by (cases "map_of f n") (auto simp: graph_within_def branches_of_def)
      from set_entry_within [OF assms(1) _ _ this that(3)] that(1,2) show ?thesis by (auto simp: graph_within_def)
    qed
    show "graph_within E B N (AList.update n (branches_of f n) f)" if "graph_within E B N f" for f n
      using that by (cases "map_of f n") (auto simp: graph_within_def branches_of_def)
    show "graph_within E B N (AList.delete n f)" if "graph_within E B N f" for f n
      using that by (auto simp: graph_within_def)
    show "graph_within E B N (AList.update n (filter Q bs) f)"
      if "graph_within E B N f" "graph_within E B N g" "map_of g n = Some bs" for f g n bs Q
      using that by (auto simp: graph_within_def)
    show "fi_name b \<in> N \<and> fi_payload b \<in> ?U" if "graph_within E B N f" "map_of f n = Some bs" "b \<in> set bs" for f n bs b
      using that by (auto simp: graph_within_def)
    show "t \<in> N \<and> q \<in> ?U"
      if "n \<in> N \<and> p \<in> ?U" "map_of (fl_trans E) n = Some ts" "t \<in> set ts" "fl_find_facet E t = Some def"
        "src = p \<or> src \<in> set (auto_payloads_for E def)" "transcendent_payload_for (fl_lib E) def src = Some q" for n p ts t def src q
    proof -
      have "src \<in> ?U" using that(1,5) auto_in [OF that(4)] by auto
      from universe_transcend [OF assms(1) none tk [OF that(4)] this that(6)] names that(2,3) show ?thesis by blast
    qed
    show "t \<in> N \<and> q \<in> ?U"
      if "map_of (fl_inverse E) n = Some ts" "t \<in> set ts" "fl_find_facet E t = Some def" "q \<in> set (auto_payloads_for E def)" for n ts t def q
      using names auto_in that by blast
    show "finite (guard_keys E B N)" using fU assms(4) by (simp add: guard_keys_def)
    show "apply_key n p \<in> guard_keys E B N" if "n \<in> N \<and> call_payload p \<in> ?U" for n p
      using that by (cases p) (auto simp: guard_keys_def call_payload_def)
    show "revert_key (b\<lparr>fi_type := FacetType\<rparr>) \<in> guard_keys E B N" if "fi_name b \<in> N \<and> fi_payload b \<in> ?U" for b
      using that by (cases b) (auto simp: guard_keys_def)
  qed
  then show ?thesis using True by (simp add: okc [abs_def])
  qed
qed

lemma map_of_branches_finite: "finite (\<Union>(n, bs) \<in> set f. set bs :: flow_instance set)"
  by auto

text \<open>
  C2. Termination. With finitely many facet definitions, setting or removing a facet returns, whatever
  the graph, the payload and the definitions: however the facets depend on each other, cyclically or
  through merged and mapped payloads, the guard stops the recursion. The result does not depend on
  the fuel.
\<close>

theorem flow_always_returns:
  assumes "json_lib_ok (fl_lib E)" "finite (known_facets E)"
  shows "\<exists>n r s'. \<forall>m \<ge> n. flow_run m E c s = Some (r, s')"
proof -
  define bs where "bs = (\<Union>(n, bs) \<in> set (st_facets s). set bs)"
  define B where "B = fi_payload ` bs \<union> (case c of CSet _ p \<Rightarrow> {call_payload p} | CRemove _ _ \<Rightarrow> {})"
  define N where "N = fi_name ` bs \<union> (case c of CSet n _ \<Rightarrow> {n} | CRemove _ _ \<Rightarrow> {}) \<union> target_names E"
  have "finite (target_names E)" by (auto simp: target_names_def)
  moreover have "finite bs" by (auto simp: bs_def)
  ultimately have fin: "fine E B N" using assms by (auto simp: fine_def B_def N_def split: flow_call.split)
  have U: "p \<in> universe (fl_lib E) (base_payloads E B) (target_keys E)" if "p \<in> B" for p
    using that by (simp add: universe_def base_payloads_def)
  have "graph_within E B N (st_facets s)"
    unfolding graph_within_def
  proof (intro allI impI ballI)
    fix n l b
    assume "map_of (st_facets s) n = Some l" "b \<in> set l"
    then have "b \<in> bs" unfolding bs_def by (intro UN_I [of "(n, l)"]) (auto dest: map_of_SomeD)
    then show "fi_name b \<in> N \<and> fi_payload b \<in> universe (fl_lib E) (base_payloads E B) (target_keys E)"
      using U by (auto simp: N_def B_def)
  qed
  with fin have i: "bounded.inv E B N {} s" unfolding bounded.inv_def by (simp add: guarded_def)
  have ok: "bounded.call_ok E B N c"
    unfolding bounded.call_ok_def okc_within_def using fin U by (cases c) (auto simp: B_def N_def)
  obtain n where "card ((if fine E B N then guard_keys E B N else {}) - {}) < n" by blast
  from bounded.flow_run_returns [OF ok this] i have "flow_run n E c s \<noteq> None" by (simp add: returns_def)
  then obtain r s' where "flow_run n E c s = Some (r, s')" by auto
  from flow_run_mono [OF _ this] show ?thesis by blast
qed

text \<open>
  C3. The invariant of the graph. Whatever is set or removed, with the facets that follow, every branch
  keeps the name of its facet and a payload of the declared type, and only JSON facets have several.
\<close>

theorem graph_stays_typed:
  assumes "graph_typed E (st_facets s)" "flow_run n E c s = Some (r, s')"
  shows "graph_typed E (st_facets s')"
proof -
  have "typing.inv E {} s" using assms(1) by (simp add: typing.inv_def guarded_def)
  moreover have "typing.call_ok c" by (simp add: typing.call_ok_def split: flow_call.split)
  ultimately have "typing.inv E {} s'" using typing.flow_run_keeps [of c E "{}" n] assms(2) keepsD by blast
  then show ?thesis by (simp add: typing.inv_def)
qed

lemma remove_succeeds: "succeeds (flow_run n E (CRemove name flt))"
proof (induction n arbitrary: name flt)
  case (Suc n)
  have t: "succeeds (reconcile_transcendence E (flow_run n E) src Revert)" for src
  proof -
    have "succeeds (trans_step E (flow_run n E) src Revert t)" for t
    proof (cases "trans_call E src Revert t")
      case (Some c)
      from trans_call_Some [OF this] obtain f where "c = CRemove t f" by auto
      with Some Suc.IH show ?thesis by (simp add: trans_step_def)
    qed (simp add: trans_step_def flow_rules)
    then show ?thesis unfolding reconcile_transcendence_def by (auto intro: flow_rules split: option.split)
  qed
  have "succeeds (fl_then (reconcile_transcendence E (flow_run n E) i Revert)
      (fl_then (fl_ignore (reconcile_inverse E (flow_run n E) i Revert)) (fl_modify f)))" for i f
    by (intro flow_rules t)
  then have b: "succeeds (remove_branch E (flow_run n E) name b)" for b
    unfolding succeeds_def remove_branch_def Let_def by (auto simp: fl_ok_def split: if_splits)
  have "succeeds (fl_then (fl_for (remove_branch E (flow_run n E) name) bs) (fl_modify f))" for bs f
    by (intro flow_rules b)
  then show ?case
    unfolding succeeds_def flow_run.simps flow_call.case remove_facet_body_def Let_def
    by (auto simp: fl_ok_def split: option.splits)
qed (simp add: succeeds_def)

text \<open>
  Removing a facet never fails: an error can only come from setting one, and the facets that are set
  because another was removed have their errors ignored.
\<close>

theorem remove_never_fails:
  assumes "flow_run n E (CRemove name flt) s = Some (r, s')"
  shows "r = Inr ()"
  using remove_succeeds assms unfolding succeeds_def by blast

section \<open>Configurations\<close>

definition plain_facet :: "ustr \<Rightarrow> flow_payload_type \<Rightarrow> flow_facet" where
  "plain_facet name ty =
     \<lparr>ff_name = name, ff_payload = ty, ff_stop_on = None, ff_after = None, ff_branch = None, ff_auto_payload = None,
      ff_subscribers = None, ff_broadcast = None, ff_permissions = None\<rparr>"

definition demo_flow :: "(ustr \<times> flow_facet) list \<Rightarrow> (ustr \<times> toml) list \<Rightarrow> flow_env" where
  "demo_flow defs vars = refresh_indexes
     \<lparr>fl_lib = demo_lib, fl_toml_json = (\<lambda>v. case v of TomlString s \<Rightarrow> Some (JStr s) | _ \<Rightarrow> None),
      fl_toml_print = (\<lambda>_. []), fl_environment = Map.empty,
      fl_variables = Some \<lparr>vh_values = map_of vars, vh_defaults = [], vh_env_mappings = Map.empty\<rparr>,
      fl_find_facet = map_of (map (\<lambda>(g, d). (g @ '':'' @ ff_name d, d)) defs), fl_items_facet = Some defs,
      fl_find_impulse = Map.empty, fl_items_impulse = None, fl_trans = [], fl_inverse = []\<rparr>"

definition flow_start :: "facet_map \<Rightarrow> flow_st" where
  "flow_start f = \<lparr>st_facets = f, st_guard = [], st_events = [], st_sent = []\<rparr>"

lemma demo_flow_finite: "finite (known_facets (demo_flow defs vars))"
proof -
  have "known_facets (demo_flow defs vars) \<subseteq> snd ` set (map (\<lambda>(g, d). (g @ '':'' @ ff_name d, d)) defs)"
    by (force simp: known_facets_def demo_flow_def refresh_indexes_def dest: map_of_SomeD)
  then show ?thesis by (rule finite_subset) simp
qed

text \<open>Two facets that activate each other, and a third that waits for two.\<close>

definition loop_flow :: flow_env where
  "loop_flow = demo_flow
     [(''g'', (plain_facet ''a'' TNone)\<lparr>ff_after := Some [Simple ''g:b'']\<rparr>),
      (''g'', (plain_facet ''b'' TNone)\<lparr>ff_after := Some [Simple ''g:a'']\<rparr>)] []"

theorem flow_always_returns_witness:
  "\<exists>n r s'. flow_run n loop_flow (CSet ''g:a'' None) (flow_start []) = Some (r, s')
      \<and> flow_run (Suc n) loop_flow (CSet ''g:a'' None) (flow_start []) = Some (r, s')"
proof -
  have "json_lib_ok (fl_lib loop_flow)" "finite (known_facets loop_flow)"
    by (simp_all add: loop_flow_def demo_flow_finite) (simp add: demo_flow_def refresh_indexes_def demo_lib_ok)
  from flow_always_returns [OF this, of "CSet ''g:a'' None" "flow_start []"] show ?thesis
    by (meson le_refl le_SucI)
qed

lemma loop_runs:
  "flow_run 5 loop_flow (CSet ''g:a'' None) (flow_start []) =
   Some (Inr (), \<lparr>st_facets = [(''g:a'', [\<lparr>fi_name = ''g:a'', fi_payload = PNone False, fi_type = FacetType\<rparr>]),
       (''g:b'', [\<lparr>fi_name = ''g:b'', fi_payload = PNone False, fi_type = FacetType\<rparr>])], st_guard = [],
     st_events = [\<lparr>fe_name = ''g:a'', fe_payload = JNull, fe_action = Apply, fe_type = Facet\<rparr>,
       \<lparr>fe_name = ''g:b'', fe_payload = JNull, fe_action = Apply, fe_type = Facet\<rparr>], st_sent = []\<rparr>)"
  by code_simp

theorem graph_stays_typed_witness:
  "graph_typed loop_flow [(''g:a'', [\<lparr>fi_name = ''g:a'', fi_payload = PNone False, fi_type = FacetType\<rparr>]),
       (''g:b'', [\<lparr>fi_name = ''g:b'', fi_payload = PNone False, fi_type = FacetType\<rparr>])]"
proof -
  have "graph_typed loop_flow (st_facets (flow_start []))" by (simp add: graph_typed_def flow_start_def)
  from graph_stays_typed [OF this loop_runs] show ?thesis by simp
qed

lemma loop_runs_removal: "\<exists>s'. flow_run 5 loop_flow (CRemove ''g:a'' None)
    (flow_start [(''g:a'', [\<lparr>fi_name = ''g:a'', fi_payload = PNone False, fi_type = FacetType\<rparr>])]) = Some (Inr (), s')"
  by (rule exI, code_simp)

theorem remove_never_fails_witness:
  "\<exists>r s'. flow_run 5 loop_flow (CRemove ''g:a'' None)
     (flow_start [(''g:a'', [\<lparr>fi_name = ''g:a'', fi_payload = PNone False, fi_type = FacetType\<rparr>])]) = Some (r, s') \<and> r = Inr ()"
proof -
  from loop_runs_removal obtain r s' where "flow_run 5 loop_flow (CRemove ''g:a'' None)
     (flow_start [(''g:a'', [\<lparr>fi_name = ''g:a'', fi_payload = PNone False, fi_type = FacetType\<rparr>])]) = Some (r, s')" by blast
  with remove_never_fails [OF this] show ?thesis by blast
qed

definition ready_flow :: flow_env where
  "ready_flow = demo_flow
     [(''db'', plain_facet ''ready'' TNone), (''cache'', plain_facet ''ready'' TNone),
      (''app'', (plain_facet ''ready'' TNone)\<lparr>ff_after := Some [Detailed (Some ''db:ready'') None None None, Detailed (Some ''cache:ready'') None None None]\<rparr>)] []"

text \<open>
  Transcendence. A facet that lists two facets in \<open>after\<close> becomes active as soon as one of
  them is, although the documentation asks for both; only impulses wait for all of them.
\<close>

theorem after_any_activates:
  "case flow_run 5 ready_flow (CSet ''db:ready'' None) (flow_start []) of
     Some (Inr _, s) \<Rightarrow> branches_of (st_facets s) ''app:ready'' \<noteq> [] \<and> branches_of (st_facets s) ''cache:ready'' = []
   | _ \<Rightarrow> False"
  by code_simp

definition tty_payload :: "string \<Rightarrow> flow_payload" where
  "tty_payload t = PJson (demo_print (JObj [(''tty'', JStr t)]))"

definition tty_branch :: "ustr \<Rightarrow> string \<Rightarrow> flow_instance" where
  "tty_branch n t = \<lparr>fi_name = n, fi_payload = tty_payload t, fi_type = FacetType\<rparr>"

definition login_flow :: "auto_payload_config option \<Rightarrow> flow_env" where
  "login_flow auto = demo_flow
     [(''rind'', (plain_facet ''user_session'' TJson)\<lparr>ff_branch := Some [''tty'']\<rparr>),
      (''rind'', (plain_facet ''login_required'' TJson)\<lparr>ff_branch := Some [''tty''],
         ff_stop_on := Some [InvDetailed ''rind:user_session'' (Some ''tty'')], ff_auto_payload := auto\<rparr>)]
     [(''ttys'', TomlArray [TomlString ''tty1'', TomlString ''tty2''])]"

definition logins :: facet_map where
  "logins = [(''rind:login_required'', [tty_branch ''rind:login_required'' ''tty1'', tty_branch ''rind:login_required'' ''tty2''])]"

definition both_sessions :: facet_map where
  "both_sessions = [(''rind:user_session'', [tty_branch ''rind:user_session'' ''tty1'', tty_branch ''rind:user_session'' ''tty2''])]"

text \<open>
  Inverse transcendence. A facet without an automatic payload loses all its branches whenever a
  facet it is stopped by changes, not only the branch with the same key: here one session on
  \<open>tty1\<close> also ends the login prompt on \<open>tty2\<close>, and so does the end of a session.
\<close>

theorem stop_on_stops_all:
  "(case flow_run 8 (login_flow None) (CSet ''rind:user_session'' (Some (tty_payload ''tty1''))) (flow_start logins) of
     Some (Inr _, s) \<Rightarrow> branches_of (st_facets s) ''rind:login_required'' = []
   | _ \<Rightarrow> False)
   \<and> (case flow_run 8 (login_flow None) (CRemove ''rind:user_session'' None) (flow_start (logins @ both_sessions)) of
     Some (Inr _, s) \<Rightarrow> branches_of (st_facets s) ''rind:login_required'' = []
   | _ \<Rightarrow> False)"
  by code_simp

definition auto_ttys :: auto_payload_config where
  "auto_ttys = \<lparr>ap_eval = None, ap_args = None, ap_variable = Some ''ttys'', ap_insert = Some (InsertOne ''tty''), ap_many = True\<rparr>"

text \<open>
  While some branches of a facet are removed, those that are kept are out of the graph. With login
  prompts made for every terminal without a session, ending the session on \<open>tty1\<close> also
  opens a prompt on \<open>tty2\<close>, whose session goes on.
\<close>

theorem kept_branches_invisible:
  "case flow_run 8 (login_flow (Some auto_ttys))
      (CRemove ''rind:user_session'' (payload_to_filter demo_lib (tty_payload ''tty1''))) (flow_start both_sessions) of
     Some (Inr _, s) \<Rightarrow>
       branches_of (st_facets s) ''rind:user_session'' = [tty_branch ''rind:user_session'' ''tty2'']
       \<and> branches_of (st_facets s) ''rind:login_required'' =
           [tty_branch ''rind:login_required'' ''tty1'', tty_branch ''rind:login_required'' ''tty2'']
   | _ \<Rightarrow> False"
  by code_simp

text \<open>
  A JSON payload without the branch key is refused, but only after its event was emitted: the
  subscribers see a facet that was never set, and an entry without branches is left behind.
\<close>

theorem refused_payload_is_announced:
  "case flow_run 8 (login_flow None) (CSet ''rind:user_session'' (Some (PJson (demo_print (JObj []))))) (flow_start []) of
     Some (Inl _, s) \<Rightarrow> st_facets s = [(''rind:user_session'', [])] \<and> map fe_name (st_events s) = [''rind:user_session'']
   | _ \<Rightarrow> False"
  by code_simp

section \<open>One branch per key\<close>

definition branch_key_of :: "json_lib \<Rightarrow> flow_facet \<Rightarrow> flow_instance \<Rightarrow> string list option" where
  "branch_key_of L def b =
     (case fi_payload b of PJson t \<Rightarrow> json_branch_key L (into_json L t) (branch_keys_of def) | _ \<Rightarrow> None)"

lemma json_branch_key_object: "json_branch_key L v ks = Some key \<Longrightarrow> \<exists>m. v = JObj m"
  by (cases v) auto

text \<open>A merge of ordinary entries keeps the key it was found by.\<close>

lemma merged_key:
  assumes "json_wf (JObj a)" "json_wf (JObj b)" "plain_keys b"
    and "json_branch_key L (JObj b) ks = Some key" "json_branch_key L (JObj a) ks = Some key"
  shows "json_branch_key L (merge_json (JObj a) (JObj b)) ks = Some key"
proof -
  have d: "keys_distinct b" using assms(2) by (simp add: sorted_keys_distinct)
  have mo: "map_of (merge_entries [] b a) k = (case map_of b k of Some v \<Rightarrow> Some v | None \<Rightarrow> map_of a k)" for k
    by (rule merge_entries_plain [OF assms(3) d])
  have kb: "\<forall>k \<in> set ks. map_of b k \<noteq> None" "key = map (\<lambda>k. jl_print L (the (map_of b k))) ks"
    using assms(4) by (auto simp: json_branch_key_map simp del: not_None_eq split: if_splits)
  then have "\<forall>k \<in> set ks. map_of (merge_entries [] b a) k = map_of b k" by (auto simp: mo)
  with kb show ?thesis by (simp add: json_branch_key_map cong: map_cong)
qed

lemma merge_branch_keys:
  assumes "json_lib_ok L" "json_wf (JObj new)" "plain_keys new" "json_branch_key L (JObj new) (branch_keys_of def) = Some key"
  shows "merge_branch L (branch_keys_of def) key (JObj new) bs = Some bs' \<Longrightarrow>
    map (branch_key_of L def) bs' = map (branch_key_of L def) bs"
proof (induction bs arbitrary: bs')
  case (Cons b bs)
  show ?case
  proof (cases "\<exists>t. fi_payload b = PJson t \<and> json_branch_key L (into_json L t) (branch_keys_of def) = Some key")
    case False
    with Cons show ?thesis by (auto split: flow_payload.splits)
  next
    case True
    then obtain t where t: "fi_payload b = PJson t" "json_branch_key L (into_json L t) (branch_keys_of def) = Some key" by blast
    then obtain m where m: "into_json L t = JObj m" using json_branch_key_object by blast
    have wm: "json_wf (JObj m)" using json_wf_into_json [OF assms(1), of t] m by simp
    have bs': "bs' = b\<lparr>fi_payload := PJson (jl_print L (merge_json (JObj m) (JObj new)))\<rparr> # bs" using Cons.prems t m by simp
    have wf: "json_wf (merge_json (JObj m) (JObj new))" by (rule json_wf_merge [OF wm assms(2)])
    have "branch_key_of L def (b\<lparr>fi_payload := PJson (jl_print L (merge_json (JObj m) (JObj new)))\<rparr>) = Some key"
      using merged_key [OF wm assms(2,3,4) t(2) [unfolded m]] wf assms(1) by (simp add: branch_key_of_def del: merge_json.simps)
    then show ?thesis using t by (simp add: bs' branch_key_of_def)
  qed
qed simp

lemma merge_branch_None:
  "merge_branch L (branch_keys_of def) key new bs = None \<Longrightarrow> b \<in> set bs \<Longrightarrow> branch_key_of L def b \<noteq> Some key"
  by (induction bs) (auto simp: branch_key_of_def split: flow_payload.splits if_splits)

text \<open>
  Setting a JSON facet with an ordinary payload keeps one branch per key: the payload is merged
  into the branch with its key, whose key does not change, or becomes a new branch.
\<close>

theorem branch_keys_unique:
  assumes "json_lib_ok L" "into_json L t = JObj new" "plain_keys new"
    and "distinct (map (branch_key_of L def) entry)"
    and "set_entry L def \<lparr>fi_name = n, fi_payload = PJson t, fi_type = FacetType\<rparr> entry = Some bs"
  shows "distinct (map (branch_key_of L def) bs) \<and>
    json_branch_key L (JObj new) (branch_keys_of def) \<in> set (map (branch_key_of L def) bs)"
proof -
  have wf: "json_wf (JObj new)" using json_wf_into_json [OF assms(1), of t] assms(2) by simp
  from assms(5) obtain key where key: "json_branch_key L (JObj new) (branch_keys_of def) = Some key"
    by (auto simp: set_entry_def assms(2) split: option.splits)
  show ?thesis
  proof (cases "merge_branch L (branch_keys_of def) key (JObj new) entry")
    case None
    with assms(5) have bs: "bs = entry @ [\<lparr>fi_name = n, fi_payload = PJson t, fi_type = FacetType\<rparr>]"
      by (simp add: set_entry_def assms(2) key)
    have "Some key \<notin> set (map (branch_key_of L def) entry)" using merge_branch_None [OF None] by force
    with assms(4) key show ?thesis by (simp add: bs branch_key_of_def assms(2))
  next
    case (Some bs')
    with assms(5) have "bs = bs'" by (simp add: set_entry_def assms(2) key)
    with merge_branch_keys [OF assms(1) wf assms(3) key Some] have m: "map (branch_key_of L def) bs = map (branch_key_of L def) entry"
      by simp
    have "Some key \<in> set (map (branch_key_of L def) entry)"
      using Some by (induction entry arbitrary: bs') (auto simp: branch_key_of_def split: flow_payload.splits if_splits)
    with m assms(4) key show ?thesis by simp
  qed
qed

lemma demo_tty_parsed: "into_json demo_lib (demo_print (JObj [(''tty'', JStr ''tty2'')])) = JObj [(''tty'', JStr ''tty2'')]"
  by code_simp

lemma demo_tty_set:
  "set_entry demo_lib ((plain_facet ''user_session'' TJson)\<lparr>ff_branch := Some [''tty'']\<rparr>)
     \<lparr>fi_name = ''s'', fi_payload = PJson (demo_print (JObj [(''tty'', JStr ''tty2'')])), fi_type = FacetType\<rparr> [tty_branch ''s'' ''tty1'']
   = Some [tty_branch ''s'' ''tty1'', tty_branch ''s'' ''tty2'']"
  by code_simp

theorem branch_keys_unique_witness:
  "distinct (map (branch_key_of demo_lib ((plain_facet ''user_session'' TJson)\<lparr>ff_branch := Some [''tty'']\<rparr>))
     [tty_branch ''s'' ''tty1'', tty_branch ''s'' ''tty2''])"
proof -
  have "plain_keys [(''tty'', JStr ''tty2'')]" by (simp add: plain_keys_def)
  from branch_keys_unique [OF demo_lib_ok demo_tty_parsed this _ demo_tty_set] show ?thesis by simp
qed

text \<open>With a forcing key a merge can change the key of its branch to that of another one.\<close>

theorem forced_key_duplicates:
  "case set_entry demo_lib (plain_facet ''x'' TJson)
      \<lparr>fi_name = ''g:x'', fi_payload = PJson (demo_print (JObj [(''&id'', JStr ''2''), (''id'', JStr ''1'')])), fi_type = FacetType\<rparr>
      [\<lparr>fi_name = ''g:x'', fi_payload = PJson (demo_print (JObj [(''id'', JStr ''1'')])), fi_type = FacetType\<rparr>,
       \<lparr>fi_name = ''g:x'', fi_payload = PJson (demo_print (JObj [(''id'', JStr ''2'')])), fi_type = FacetType\<rparr>] of
     Some bs \<Rightarrow> map (branch_key_of demo_lib (plain_facet ''x'' TJson)) bs = [Some [demo_print (JStr ''2'')], Some [demo_print (JStr ''2'')]]
   | None \<Rightarrow> False"
  by code_simp

end
