(* ===== verification/Isolation.thy ===== *)
theory Isolation
  imports Scopes
begin

text \<open>
  The isolation of a service, \<^verbatim>\<open>crates/services/src/services.rs\<close>: the resource limits
  and namespaces of a service and of its scope, how the two are combined, which features only a scope
  may ask for, and the control group a process is put into. The scope store is an argument in place
  of the global one.
\<close>

section \<open>Data\<close>

record service_cgroup =
  cg_path :: "ustr option"
  cg_memory_max :: "ustr option"
  cg_cpu_max :: "ustr option"
  cg_pids_max :: "ustr option"

definition cgroup_is_empty :: "service_cgroup \<Rightarrow> bool" where
  "cgroup_is_empty c \<longleftrightarrow> cg_path c = None \<and> cg_memory_max c = None \<and> cg_cpu_max c = None \<and> cg_pids_max c = None"

record service_namespaces =
  ns_mount :: bool
  ns_uts :: bool
  ns_ipc :: bool
  ns_net :: bool
  ns_pid :: bool
  ns_user :: bool
  ns_cgroup :: bool
  ns_mount_private :: bool
  ns_rootfs :: "ustr option"
  ns_hostname :: "ustr option"
  ns_persist :: bool
  ns_init :: bool

definition namespaces_is_empty :: "service_namespaces \<Rightarrow> bool" where
  "namespaces_is_empty n \<longleftrightarrow>
     \<not> ns_mount n \<and> \<not> ns_uts n \<and> \<not> ns_ipc n \<and> \<not> ns_net n \<and> \<not> ns_pid n \<and> \<not> ns_user n \<and> \<not> ns_cgroup n \<and>
     \<not> ns_mount_private n \<and> ns_rootfs n = None \<and> ns_hostname n = None \<and> \<not> ns_persist n \<and> \<not> ns_init n"

record capability_policy =
  cp_drop :: "ustr list"
  cp_keep :: "ustr list"

definition capability_is_empty :: "capability_policy \<Rightarrow> bool" where
  "capability_is_empty c \<longleftrightarrow> cp_drop c = [] \<and> cp_keep c = []"

record seccomp_policy =
  sp_profile :: "ustr option"
  sp_path :: "ustr option"

definition seccomp_is_empty :: "seccomp_policy \<Rightarrow> bool" where
  "seccomp_is_empty s \<longleftrightarrow> sp_profile s = None \<and> sp_path s = None"

record service_isolation =
  is_scope :: "ustr option"
  is_cgroup :: "service_cgroup option"
  is_namespaces :: "service_namespaces option"
  is_capabilities :: "capability_policy option"
  is_seccomp :: "seccomp_policy option"

definition needs_namespace_supervisor :: "service_isolation \<Rightarrow> bool" where
  "needs_namespace_supervisor i \<longleftrightarrow>
     (case is_namespaces i of Some n \<Rightarrow> ns_pid n \<or> ns_user n \<or> ns_persist n \<or> ns_init n | None \<Rightarrow> False)
     \<or> is_capabilities i \<noteq> None \<or> is_seccomp i \<noteq> None"

section \<open>Attributes of a scope\<close>

fun attr :: "(ustr \<rightharpoonup> string) \<Rightarrow> string list \<Rightarrow> string option" where
  "attr attrs [] = None"
| "attr attrs (key # keys) = (case attrs key of Some v \<Rightarrow> Some v | None \<Rightarrow> attr attrs keys)"

definition ascii_lower :: "char \<Rightarrow> char" where
  "ascii_lower c = (let n = of_char c :: nat in if 65 \<le> n \<and> n \<le> 90 then char_of (n + 32) else c)"

definition attr_bool :: "(ustr \<rightharpoonup> string) \<Rightarrow> string list \<Rightarrow> bool option" where
  "attr_bool attrs keys =
     (case attr attrs keys of None \<Rightarrow> None
      | Some v \<Rightarrow>
          (let w = map ascii_lower (trim v) in
           if w \<in> {''1'', ''true'', ''yes'', ''on''} then Some True
           else if w \<in> {''0'', ''false'', ''no'', ''off''} then Some False
           else None))"

definition attr_flag :: "(ustr \<rightharpoonup> string) \<Rightarrow> string list \<Rightarrow> bool" where
  "attr_flag attrs keys = (case attr_bool attrs keys of Some b \<Rightarrow> b | None \<Rightarrow> False)"

text \<open>\<open>ScopeStore::attrs_for_scope\<close> on an optional scope.\<close>

definition attrs_for_scope :: "scope_store \<Rightarrow> ustr \<Rightarrow> (ustr \<rightharpoonup> string) option" where
  "attrs_for_scope st scope = map_option si_attributes (ss_by_name st scope)"

definition scope_attrs :: "scope_store \<Rightarrow> ustr option \<Rightarrow> (ustr \<rightharpoonup> string) option" where
  "scope_attrs st scope = Option.bind scope (attrs_for_scope st)"

definition non_empty :: "('a \<Rightarrow> bool) \<Rightarrow> 'a \<Rightarrow> 'a option" where
  "non_empty is_empty x = (if is_empty x then None else Some x)"

definition scope_cgroup :: "scope_store \<Rightarrow> ustr option \<Rightarrow> service_cgroup option" where
  "scope_cgroup st scope =
     Option.bind (scope_attrs st scope) (\<lambda>attrs. non_empty cgroup_is_empty
       \<lparr>cg_path = attr attrs [''cgroup.path''],
        cg_memory_max = attr attrs [''cgroup.memory-max'', ''cgroup.memory_max''],
        cg_cpu_max = attr attrs [''cgroup.cpu-max'', ''cgroup.cpu_max''],
        cg_pids_max = attr attrs [''cgroup.pids-max'', ''cgroup.pids_max'']\<rparr>)"

definition ns_keys :: "string \<Rightarrow> string list" where
  "ns_keys k = [''namespace.'' @ k, ''namespaces.'' @ k, ''ns.'' @ k]"

definition scope_namespaces :: "scope_store \<Rightarrow> ustr option \<Rightarrow> service_namespaces option" where
  "scope_namespaces st scope =
     Option.bind (scope_attrs st scope) (\<lambda>attrs. non_empty namespaces_is_empty
       \<lparr>ns_mount = attr_flag attrs (ns_keys ''mount''),
        ns_uts = attr_flag attrs (ns_keys ''uts''),
        ns_ipc = attr_flag attrs (ns_keys ''ipc''),
        ns_net = attr_flag attrs (ns_keys ''net''),
        ns_pid = attr_flag attrs (ns_keys ''pid''),
        ns_user = attr_flag attrs (ns_keys ''user''),
        ns_cgroup = attr_flag attrs (ns_keys ''cgroup''),
        ns_mount_private = attr_flag attrs
          [''namespace.mount-private'', ''namespace.mount_private'', ''namespaces.mount-private'',
           ''namespaces.mount_private'', ''ns.mount-private'', ''ns.mount_private''],
        ns_rootfs = attr attrs (ns_keys ''rootfs''),
        ns_hostname = attr attrs (ns_keys ''hostname''),
        ns_persist = attr_flag attrs (ns_keys ''persist''),
        ns_init = attr_flag attrs (ns_keys ''init'')\<rparr>)"

definition split_attr_list :: "string \<Rightarrow> ustr list" where
  "split_attr_list v = filter (\<lambda>x. x \<noteq> []) (map trim (split_char (CHR '','') v))"

definition attr_list :: "(ustr \<rightharpoonup> string) \<Rightarrow> string list \<Rightarrow> ustr list" where
  "attr_list attrs keys = (case attr attrs keys of Some v \<Rightarrow> split_attr_list v | None \<Rightarrow> [])"

definition scope_capabilities :: "scope_store \<Rightarrow> ustr option \<Rightarrow> capability_policy option" where
  "scope_capabilities st scope =
     Option.bind (scope_attrs st scope) (\<lambda>attrs. non_empty capability_is_empty
       \<lparr>cp_drop = attr_list attrs [''capabilities.drop'', ''capability.drop'', ''caps.drop''],
        cp_keep = attr_list attrs [''capabilities.keep'', ''capability.keep'', ''caps.keep'']\<rparr>)"

definition scope_seccomp :: "scope_store \<Rightarrow> ustr option \<Rightarrow> seccomp_policy option" where
  "scope_seccomp st scope =
     Option.bind (scope_attrs st scope) (\<lambda>attrs. non_empty seccomp_is_empty
       \<lparr>sp_profile = attr attrs [''seccomp.profile''], sp_path = attr attrs [''seccomp.path'']\<rparr>)"

section \<open>Combining the scope's and the service's settings\<close>

definition opt_or :: "'a option \<Rightarrow> 'a option \<Rightarrow> 'a option" where
  "opt_or a b = (case a of Some x \<Rightarrow> Some x | None \<Rightarrow> b)"

fun merge_cgroup :: "service_cgroup option \<Rightarrow> service_cgroup option \<Rightarrow> service_cgroup option" where
  "merge_cgroup None None = None"
| "merge_cgroup (Some c) None = Some c"
| "merge_cgroup None (Some c) = Some c"
| "merge_cgroup (Some sc) (Some sv) = Some
     \<lparr>cg_path = opt_or (cg_path sv) (cg_path sc), cg_memory_max = opt_or (cg_memory_max sv) (cg_memory_max sc),
      cg_cpu_max = opt_or (cg_cpu_max sv) (cg_cpu_max sc), cg_pids_max = opt_or (cg_pids_max sv) (cg_pids_max sc)\<rparr>"

fun merge_namespaces :: "service_namespaces option \<Rightarrow> service_namespaces option \<Rightarrow> service_namespaces option" where
  "merge_namespaces None None = None"
| "merge_namespaces (Some n) None = Some n"
| "merge_namespaces None (Some n) = Some n"
| "merge_namespaces (Some sc) (Some sv) = Some
     \<lparr>ns_mount = (ns_mount sc \<or> ns_mount sv), ns_uts = (ns_uts sc \<or> ns_uts sv), ns_ipc = (ns_ipc sc \<or> ns_ipc sv),
      ns_net = (ns_net sc \<or> ns_net sv), ns_pid = (ns_pid sc \<or> ns_pid sv), ns_user = (ns_user sc \<or> ns_user sv),
      ns_cgroup = (ns_cgroup sc \<or> ns_cgroup sv), ns_mount_private = (ns_mount_private sc \<or> ns_mount_private sv),
      ns_rootfs = opt_or (ns_rootfs sv) (ns_rootfs sc), ns_hostname = opt_or (ns_hostname sv) (ns_hostname sc),
      ns_persist = (ns_persist sc \<or> ns_persist sv), ns_init = (ns_init sc \<or> ns_init sv)\<rparr>"

fun join :: "string \<Rightarrow> string list \<Rightarrow> string" where
  "join sep [] = []"
| "join sep [x] = x"
| "join sep (x # y # xs) = x @ sep @ join sep (y # xs)"

text \<open>Four features may only be asked for by the scope.\<close>

definition validate_service_inline_namespaces :: "ustr \<Rightarrow> service_namespaces option \<Rightarrow> unit result" where
  "validate_service_inline_namespaces name ns =
     (case ns of None \<Rightarrow> Inr ()
      | Some n \<Rightarrow>
          (let invalid = (if ns_pid n then [''pid''] else []) @ (if ns_user n then [''user''] else []) @
                         (if ns_persist n then [''persist''] else []) @ (if ns_init n then [''init''] else [])
           in if invalid = [] then Inr ()
              else Inl (InvalidState (''service '' @ [CHR 0x27] @ name @ [CHR 0x27] @
                     '' declares scope-only namespace feature(s) inline: '' @ join '', '' invalid @
                     ''; put them on scope attributes instead''))))"

definition isolation_for ::
  "scope_store \<Rightarrow> ustr \<Rightarrow> service_cgroup option \<Rightarrow> service_namespaces option \<Rightarrow> ustr option \<Rightarrow> service_isolation result" where
  "isolation_for st name cg ns scope =
     (case validate_service_inline_namespaces name ns of Inl e \<Rightarrow> Inl e
      | Inr _ \<Rightarrow> Inr \<lparr>is_scope = scope, is_cgroup = merge_cgroup (scope_cgroup st scope) cg,
                       is_namespaces = merge_namespaces (scope_namespaces st scope) ns,
                       is_capabilities = scope_capabilities st scope, is_seccomp = scope_seccomp st scope\<rparr>)"

section \<open>The control group of a process\<close>

definition is_alnum :: "char \<Rightarrow> bool" where
  "is_alnum c \<longleftrightarrow> (let n = of_char c :: nat in (48 \<le> n \<and> n \<le> 57) \<or> (65 \<le> n \<and> n \<le> 90) \<or> (97 \<le> n \<and> n \<le> 122))"

definition sanitize_cgroup_component :: "string \<Rightarrow> string" where
  "sanitize_cgroup_component s =
     map (\<lambda>c. if is_alnum c \<or> c \<in> {CHR ''-'', CHR ''_'', CHR ''.''} then c else CHR ''_'') s"

text \<open>\<open>PathBuf::push\<close>: an absolute path replaces what there was.\<close>

definition path_push :: "string \<Rightarrow> string \<Rightarrow> string" where
  "path_push p c =
     (if c \<noteq> [] \<and> hd c = CHR ''/'' then c
      else if p = [] \<or> last p = CHR ''/'' then p @ c else p @ ''/'' @ c)"

definition push_opt :: "string \<Rightarrow> ustr option \<Rightarrow> string" where
  "push_opt p c = (case c of Some s \<Rightarrow> path_push p (sanitize_cgroup_component s) | None \<Rightarrow> p)"

definition cgroup_path_for :: "ustr \<Rightarrow> service_cgroup option \<Rightarrow> ustr option \<Rightarrow> ustr option \<Rightarrow> string option" where
  "cgroup_path_for name cgroup branch_key user =
     (case cgroup of None \<Rightarrow> None
      | Some cg \<Rightarrow>
          (let path = (case cg_path cg of Some custom \<Rightarrow> custom
                       | None \<Rightarrow> push_opt (push_opt (path_push ''/sys/fs/cgroup/rind'' (sanitize_cgroup_component name)) branch_key) user)
           in Some (if path \<noteq> [] \<and> hd path = CHR ''/'' then path else path_push ''/sys/fs/cgroup'' path)))"

section \<open>Properties\<close>

text \<open>A boolean feature, and a limit, of optional settings.\<close>

definition asks :: "(service_namespaces \<Rightarrow> bool) \<Rightarrow> service_namespaces option \<Rightarrow> bool" where
  "asks f n = (case n of Some x \<Rightarrow> f x | None \<Rightarrow> False)"

lemma opt_or_None [simp]: "opt_or x None = x" "opt_or None x = x"
  by (simp_all add: opt_or_def split: option.split)

lemma merged_limit:
  assumes "f \<in> {cg_path, cg_memory_max, cg_cpu_max, cg_pids_max}"
  shows "Option.bind (merge_cgroup sc sv) f = opt_or (Option.bind sv f) (Option.bind sc f)"
  using assms by (cases "(sc, sv)" rule: merge_cgroup.cases) auto

lemma merged_feature:
  assumes "f \<in> {ns_mount, ns_uts, ns_ipc, ns_net, ns_pid, ns_user, ns_cgroup, ns_mount_private, ns_persist, ns_init}"
  shows "asks f (merge_namespaces sc sv) \<longleftrightarrow> asks f sc \<or> asks f sv"
  using assms by (cases "(sc, sv)" rule: merge_namespaces.cases) (auto simp: asks_def)

lemma validate_Inr_iff:
  "validate_service_inline_namespaces name ns = Inr () \<longleftrightarrow>
     \<not> (asks ns_pid ns \<or> asks ns_user ns \<or> asks ns_persist ns \<or> asks ns_init ns)"
  by (simp add: validate_service_inline_namespaces_def asks_def Let_def split: option.split)

text \<open>
  A service is isolated unless it asks inline for one of the four features of a scope. Its limits are
  its own ones and, where it has none, those of the scope; a namespace is unshared when the scope or
  the service asks for it; and the features that need the supervisor come from the scope alone, so a
  unit file cannot switch them on or off.
\<close>

theorem isolation_combines:
  "((\<exists>e. isolation_for st name cg ns scope = Inl e) \<longleftrightarrow> asks ns_pid ns \<or> asks ns_user ns \<or> asks ns_persist ns \<or> asks ns_init ns)
   \<and> (isolation_for st name cg ns scope = Inr i \<longrightarrow>
        (\<forall>f \<in> {cg_path, cg_memory_max, cg_cpu_max, cg_pids_max}.
           Option.bind (is_cgroup i) f = opt_or (Option.bind cg f) (Option.bind (scope_cgroup st scope) f)) \<and>
        (\<forall>f \<in> {ns_mount, ns_uts, ns_ipc, ns_net, ns_cgroup, ns_mount_private}.
           asks f (is_namespaces i) = (asks f (scope_namespaces st scope) \<or> asks f ns)) \<and>
        (\<forall>f \<in> {ns_pid, ns_user, ns_persist, ns_init}. asks f (is_namespaces i) = asks f (scope_namespaces st scope)))"
proof (intro conjI impI)
  show "(\<exists>e. isolation_for st name cg ns scope = Inl e) \<longleftrightarrow> asks ns_pid ns \<or> asks ns_user ns \<or> asks ns_persist ns \<or> asks ns_init ns"
    using validate_Inr_iff [of name ns] by (cases "validate_service_inline_namespaces name ns") (simp_all add: isolation_for_def)
next
  assume "isolation_for st name cg ns scope = Inr i"
  then have v: "\<not> (asks ns_pid ns \<or> asks ns_user ns \<or> asks ns_persist ns \<or> asks ns_init ns)"
    and c: "is_cgroup i = merge_cgroup (scope_cgroup st scope) cg"
    and n: "is_namespaces i = merge_namespaces (scope_namespaces st scope) ns"
    using validate_Inr_iff [of name ns] by (auto simp: isolation_for_def split: sum.splits)
  show "\<forall>f \<in> {cg_path, cg_memory_max, cg_cpu_max, cg_pids_max}.
         Option.bind (is_cgroup i) f = opt_or (Option.bind cg f) (Option.bind (scope_cgroup st scope) f)"
    unfolding c by (intro ballI merged_limit)
  show "\<forall>f \<in> {ns_mount, ns_uts, ns_ipc, ns_net, ns_cgroup, ns_mount_private}.
         asks f (is_namespaces i) = (asks f (scope_namespaces st scope) \<or> asks f ns)"
    by (simp add: n merged_feature)
  show "\<forall>f \<in> {ns_pid, ns_user, ns_persist, ns_init}. asks f (is_namespaces i) = asks f (scope_namespaces st scope)"
    using v by (simp add: n merged_feature)
qed

text \<open>
  The control group of a service without a path of its own is below that of the daemon and has one
  component for the service, the branch and the user; the characters of a component are kept apart
  from the separator, but the component \<open>..\<close> is not, so a branch of that name puts the
  process, and the limits of the service, into the directory of all services.
\<close>

lemma sanitize_no_slash: "CHR ''/'' \<notin> set (sanitize_cgroup_component s)"
  by (auto simp: sanitize_cgroup_component_def is_alnum_def Let_def split: if_splits)

lemma push_component:
  "p \<noteq> [] \<Longrightarrow> last p \<noteq> CHR ''/'' \<Longrightarrow> path_push p (sanitize_cgroup_component c) = p @ ''/'' @ sanitize_cgroup_component c"
  using sanitize_no_slash [of c] by (cases "sanitize_cgroup_component c") (auto simp: path_push_def)

lemma last_component:
  assumes "s \<noteq> []"
  shows "last (p @ ''/'' @ sanitize_cgroup_component s) \<noteq> CHR ''/''"
proof -
  have ne: "sanitize_cgroup_component s \<noteq> []" using assms by (simp add: sanitize_cgroup_component_def)
  with last_in_set [OF ne] sanitize_no_slash [of s] show ?thesis by (metis append_Cons append_Nil last_appendR last.simps list.distinct(1))
qed

definition service_cgroup_root :: string where "service_cgroup_root = ''/sys/fs/cgroup/rind''"

lemma service_cgroup_root: "service_cgroup_root \<noteq> []" "hd service_cgroup_root = CHR ''/''" "last service_cgroup_root \<noteq> CHR ''/''"
  by (simp_all add: service_cgroup_root_def)

theorem cgroup_path_components:
  assumes "cg_path cg = None" "name \<noteq> []" "branch \<noteq> []"
  shows "cgroup_path_for name (Some cg) (Some branch) (Some user) =
      Some (service_cgroup_root @ ''/'' @ sanitize_cgroup_component name @ ''/'' @ sanitize_cgroup_component branch @ ''/'' @
            sanitize_cgroup_component user)
    \<and> CHR ''/'' \<notin> set (sanitize_cgroup_component branch)
    \<and> cgroup_path_for name (Some cg) (Some ''..'') None =
        Some (service_cgroup_root @ ''/'' @ sanitize_cgroup_component name @ ''/..'')"
proof -
  have 1: "path_push service_cgroup_root (sanitize_cgroup_component name) = service_cgroup_root @ ''/'' @ sanitize_cgroup_component name"
    using push_component service_cgroup_root by blast
  have 2: "path_push (service_cgroup_root @ ''/'' @ sanitize_cgroup_component name) (sanitize_cgroup_component b) =
      (service_cgroup_root @ ''/'' @ sanitize_cgroup_component name) @ ''/'' @ sanitize_cgroup_component b" for b
    using push_component last_component [OF assms(2)] by blast
  have 3: "path_push ((service_cgroup_root @ ''/'' @ sanitize_cgroup_component name) @ ''/'' @ sanitize_cgroup_component branch)
        (sanitize_cgroup_component user) =
      ((service_cgroup_root @ ''/'' @ sanitize_cgroup_component name) @ ''/'' @ sanitize_cgroup_component branch) @ ''/'' @
        sanitize_cgroup_component user"
    using push_component last_component [OF assms(3)] by blast
  have "sanitize_cgroup_component ''..'' = ''..''" by code_simp
  with assms(1) 1 2 [of branch] 2 [of "''..''"] 3 service_cgroup_root show ?thesis
    by (simp add: cgroup_path_for_def service_cgroup_root_def [symmetric] push_opt_def Let_def sanitize_no_slash)
qed

definition demo_scopes :: scope_store where
  "demo_scopes = ss_upsert ''alice''
     [''cgroup.memory-max'' \<mapsto> ''128M'', ''cgroup.path'' \<mapsto> ''rind/scope'', ''ns.pid'' \<mapsto> '' Yes''] None ss_default"

definition demo_inline :: service_namespaces where
  "demo_inline = \<lparr>ns_mount = False, ns_uts = False, ns_ipc = True, ns_net = False, ns_pid = False, ns_user = False,
     ns_cgroup = False, ns_mount_private = False, ns_rootfs = None, ns_hostname = Some ''h'', ns_persist = False, ns_init = False\<rparr>"

lemma demo_isolation:
  "(case isolation_for demo_scopes ''demo'' (Some \<lparr>cg_path = Some ''rind/demo'', cg_memory_max = None, cg_cpu_max = None,
     cg_pids_max = None\<rparr>) (Some demo_inline) (Some ''alice'') of
     Inl _ \<Rightarrow> False
   | Inr i \<Rightarrow> asks ns_pid (is_namespaces i) \<and> asks ns_ipc (is_namespaces i) \<and>
              is_cgroup i = Some \<lparr>cg_path = Some ''rind/demo'', cg_memory_max = Some ''128M'', cg_cpu_max = None, cg_pids_max = None\<rparr>)"
  by code_simp

end
