(* ===== verification/ServiceData.thy ===== *)
theory ServiceData
  imports Isolation Flow Resources Mounts Boot Permissions
begin

text \<open>
  Services as data, \<^verbatim>\<open>crates/services/src/services.rs\<close>: the unit, its running children,
  the keys and users of its branches, and who may start or stop it.
\<close>

section \<open>Units\<close>

record run_file =
  rf_path :: string
  rf_dir :: bool
  rf_once :: bool
  rf_clean :: bool
  rf_create :: bool
  rf_content :: "string option"

record run_option =
  ro_exec :: ustr
  ro_args :: "ustr list"
  ro_env :: "(ustr \<rightharpoonup> ustr) option"
  ro_variable :: "string option"
  ro_executor :: "ustr option"
  ro_files :: "run_file list option"

datatype run_options = RunOne run_option | RunMany "run_option list"

fun as_many :: "run_options \<Rightarrow> run_option list" where
  "as_many (RunOne k) = [k]"
| "as_many (RunMany k) = k"

datatype restart_policy = RestartBool bool | OnFailure u32

datatype stop_mode = Graceful | ForceKill

datatype service_state = SActive | SInactive | SStarting | SStopping | SExited int | SError string

datatype service_event = EvStarted | EvExited int | EvStopped | EvFailed

record branching_config =
  bc_source :: ustr
  bc_key :: "string option"
  bc_max_instances :: "nat option"
  bc_only :: "string list option"
  bc_except :: "string list option"

record service_user_source =
  us_facet :: "ustr option"
  us_branch :: bool
  us_username_field :: string
  us_match_branch_key :: "string option"

datatype watchdog_action = WdRestart | WdStop | WdSignal

record service_watchdog =
  wd_interval_ms :: "u64 option"
  wd_grace_ms :: u64
  wd_action :: watchdog_action

datatype service_space = SpaceSystem | SpaceUser | SpaceSelective ustr

datatype service_type = TypeFork | TypeWait | TypeJob

record service_meta =
  sm_name :: ustr
  sm_run :: run_options
  sm_after :: "ustr list option"
  sm_type :: service_type
  sm_start_on :: "flow_item list option"
  sm_stop_on :: "flow_item list option"
  sm_on_start :: "trigger list option"
  sm_on_stop :: "trigger list option"
  sm_working_dir :: "ustr option"
  sm_space :: service_space
  sm_options :: "(ustr \<rightharpoonup> string) option"
  sm_singleton :: bool
  sm_cleanup :: bool
  sm_user_source :: "service_user_source option"
  sm_transport :: "transport_method option"
  sm_branching :: "branching_config option"
  sm_restart :: "restart_policy option"
  sm_managed_by :: "ustr list option"
  sm_cgroup :: "service_cgroup option"
  sm_namespaces :: "service_namespaces option"
  sm_watchdog :: "service_watchdog option"

section \<open>Running children\<close>

text \<open>
  A handle is what an executor returned: a process with its pid, or something of an extension that
  may have one. Only the former is signalled.
\<close>

datatype svc_handle = ProcessHandle u32 | OtherHandle "u32 option"

fun handle_pid :: "svc_handle \<Rightarrow> u32 option" where
  "handle_pid (ProcessHandle pid) = Some pid"
| "handle_pid (OtherHandle pid) = pid"

record child_instance =
  ci_key :: ustr
  ci_user :: "ustr option"
  ci_handle :: "svc_handle option"
  ci_state :: service_state
  ci_retry_count :: u32
  ci_stop_time :: "nat option"
  ci_manually_stopped :: bool

definition child_new :: "ustr \<Rightarrow> ustr option \<Rightarrow> svc_handle option \<Rightarrow> child_instance" where
  "child_new key user handle =
     \<lparr>ci_key = key, ci_user = user, ci_handle = handle, ci_state = SActive, ci_retry_count = 0,
      ci_stop_time = None, ci_manually_stopped = False\<rparr>"

definition ci_pid :: "child_instance \<Rightarrow> u32 option" where
  "ci_pid c = Option.bind (ci_handle c) handle_pid"

fun find_by_pid :: "u32 \<Rightarrow> child_instance list \<Rightarrow> nat option" where
  "find_by_pid pid [] = None"
| "find_by_pid pid (c # cs) = (if ci_pid c = Some pid then Some 0 else map_option Suc (find_by_pid pid cs))"

text \<open>The counter behind \<open>ServiceId\<close> is read by nothing and is left out.\<close>

record service =
  sv_meta :: service_meta
  sv_instances :: "child_instance list"
  sv_last_state :: service_state

definition service_new :: "service_meta \<Rightarrow> service" where
  "service_new m = \<lparr>sv_meta = m, sv_instances = [], sv_last_state = SInactive\<rparr>"

definition up :: "child_instance \<Rightarrow> bool" where
  "up c \<longleftrightarrow> ci_state c = SActive \<or> ci_state c = SStarting"

definition instance_key_name :: "string \<Rightarrow> ustr" where
  "instance_key_name key = (case split_char (CHR ''@'') key of n # _ \<Rightarrow> n | [] \<Rightarrow> key)"

definition ensure_scoped_name :: "string \<Rightarrow> ustr" where
  "ensure_scoped_name name = (if CHR ''@'' \<in> set name then name else name @ ''@static'')"

definition is_stdio_transport :: "transport_method \<Rightarrow> bool" where
  "is_stdio_transport m \<longleftrightarrow> transport_id m = ''stdio''"

record branch_context =
  bx_key :: "ustr option"
  bx_payload :: "flow_payload option"
  bx_forced_user :: "ustr option"

section \<open>Branch keys and users\<close>

definition payload_field_as_key :: "json_lib \<Rightarrow> flow_payload \<Rightarrow> string \<Rightarrow> ustr option" where
  "payload_field_as_key L payload field =
     map_option (\<lambda>v. case json_as_str v of Some s \<Rightarrow> s | None \<Rightarrow> jl_print L v) (get_json_field L field payload)"

definition branch_key_from_payload :: "json_lib \<Rightarrow> flow_payload \<Rightarrow> string option \<Rightarrow> ustr option" where
  "branch_key_from_payload L payload key_name =
     (case key_name of
        Some k \<Rightarrow> (case payload_field_as_key L payload k of Some v \<Rightarrow> if v = [] then None else Some v | None \<Rightarrow> None)
      | None \<Rightarrow> (let v = to_string_payload L payload in if v = [] then None else Some v))"

text \<open>
  A user with a child of another user already; the search over the branches ends with the first such
  user, so it never finds two.
\<close>

definition has_other_user :: "child_instance list \<Rightarrow> ustr \<Rightarrow> bool" where
  "has_other_user children user \<longleftrightarrow> list_ex (\<lambda>x. ci_user x \<noteq> Some user) children"

fun first_user :: "json_lib \<Rightarrow> child_instance list \<Rightarrow> string \<Rightarrow> flow_payload list \<Rightarrow> ustr list" where
  "first_user L children field [] = []"
| "first_user L children field (p # ps) =
     (case payload_field_as_key L p field of
        None \<Rightarrow> first_user L children field ps
      | Some user \<Rightarrow> if has_other_user children user then [user] else first_user L children field ps)"

definition resolve_user_from_source ::
  "json_lib \<Rightarrow> service \<Rightarrow> service_user_source \<Rightarrow> branch_context option \<Rightarrow> facet_map option \<Rightarrow> ustr option result" where
  "resolve_user_from_source L service source branch_ctx sm =
     (case sm of None \<Rightarrow> Inr None
      | Some facets \<Rightarrow>
          (case (if us_branch source
                 then Option.bind (Option.bind branch_ctx bx_payload) (\<lambda>p. payload_field_as_key L p (us_username_field source))
                 else None) of
             Some user \<Rightarrow> Inr (Some user)
           | None \<Rightarrow>
               (case Option.bind (us_facet source) (map_of facets) of
                  None \<Rightarrow> Inr None
                | Some branches \<Rightarrow>
                    (case us_match_branch_key source of
                       Some field \<Rightarrow>
                         (case Option.bind branch_ctx bx_key of
                            None \<Rightarrow> Inr None
                          | Some expected \<Rightarrow>
                              (case first_user L (sv_instances service) (us_username_field source)
                                      (filter (\<lambda>p. payload_field_as_key L p field = Some expected) (map fi_payload branches)) of
                                 [] \<Rightarrow> Inr None
                               | [user] \<Rightarrow> Inr (Some user)
                               | _ \<Rightarrow> Inl (InvalidState (''ambiguous users for state using match key '' @ field))))
                     | None \<Rightarrow>
                         (case first_user L (sv_instances service) (us_username_field source) (map fi_payload branches) of
                            [] \<Rightarrow> Inr None
                          | [user] \<Rightarrow> Inr (Some user)
                          | _ \<Rightarrow> Inl (InvalidState ''ambiguous users in state''))))))"

definition resolve_service_user ::
  "json_lib \<Rightarrow> scope_store \<Rightarrow> service \<Rightarrow> branch_context option \<Rightarrow> facet_map option \<Rightarrow> ustr option \<Rightarrow> ustr option result" where
  "resolve_service_user L st service branch_ctx sm scope =
     (case Option.bind branch_ctx bx_forced_user of
        Some user \<Rightarrow> Inr (Some user)
      | None \<Rightarrow>
          (case sm_space (sv_meta service) of
             SpaceSystem \<Rightarrow> Inr None
           | SpaceSelective user \<Rightarrow> Inr (Some user)
           | SpaceUser \<Rightarrow>
               (case Option.bind scope (user_for_scope st) of
                  Some user \<Rightarrow> Inr (Some user)
                | None \<Rightarrow>
                    (case (case sm_user_source (sv_meta service) of
                             Some source \<Rightarrow> resolve_user_from_source L service source branch_ctx sm
                           | None \<Rightarrow> Inr None) of
                       Inl e \<Rightarrow> Inl e
                     | Inr (Some user) \<Rightarrow> Inr (Some user)
                     | Inr None \<Rightarrow>
                         (case Option.bind branch_ctx bx_key of
                            Some user \<Rightarrow> Inr (Some user)
                          | None \<Rightarrow>
                              (case Option.bind sm (\<lambda>facets. map_of facets ''rind:user_session'') of
                                 None \<Rightarrow> Inr None
                               | Some sessions \<Rightarrow>
                                   (case first_user L (sv_instances service) ''username'' (map fi_payload sessions) of
                                      [user] \<Rightarrow> Inr (Some user)
                                    | [] \<Rightarrow> Inr None
                                    | _ \<Rightarrow> Inl (InvalidState ''service is userspace but username is ambiguous''))))))))"

definition resolve_scope_default_user :: "scope_store \<Rightarrow> service \<Rightarrow> ustr option \<Rightarrow> ustr option" where
  "resolve_scope_default_user st service scope =
     (if sm_space (sv_meta service) = SpaceSystem then Option.bind scope (user_for_scope st) else None)"

text \<open>
  Whether a branch key is meant by an entry of \<open>only\<close> or \<open>except\<close>. A variable is
  decisive; a facet or a list that does not match falls through to the plain comparison.
\<close>

definition check_branch_match ::
  "json_lib \<Rightarrow> (toml \<Rightarrow> json option) \<Rightarrow> environment \<Rightarrow> string \<Rightarrow> string \<Rightarrow> facet_map \<Rightarrow> variable_heap option \<Rightarrow> bool" where
  "check_branch_match L tj env spec key facets vh =
     (case strip_prefix ''var:'' spec of
        Some var_name \<Rightarrow>
          (case Option.bind vh (\<lambda>h. vh_get env h var_name) of
             None \<Rightarrow> False
           | Some v \<Rightarrow>
               (case toml_as_array v of
                  Some arr \<Rightarrow> list_ex (\<lambda>x. case tj x of Some j \<Rightarrow> subset_match (JStr key) j | None \<Rightarrow> False) arr
                | None \<Rightarrow> (case tj v of Some j \<Rightarrow> subset_match (JStr key) j | None \<Rightarrow> False)))
      | None \<Rightarrow>
          (case strip_prefix ''facet:'' spec of
             Some state_name \<Rightarrow>
               (let (state_name, field) = (case split_once (CHR ''/'') state_name of Some (s, k) \<Rightarrow> (s, Some k) | None \<Rightarrow> (state_name, None))
                in list_ex (\<lambda>p. subset_match (JStr key)
                     (case field of Some k \<Rightarrow> (case get_json_field L k p of Some j \<Rightarrow> j | None \<Rightarrow> JNull) | None \<Rightarrow> payload_to_json L p))
                   (map fi_payload (branches_of facets state_name)))
           | None \<Rightarrow> False)
          \<or> (case strip_prefix ''many:'' spec of
               Some names \<Rightarrow> list_ex (\<lambda>n. subset_match (JStr key) (JStr (trim n))) (split_char (CHR '','') names)
             | None \<Rightarrow> False)
          \<or> subset_match (JStr key) (JStr spec))"

definition branch_selected ::
  "json_lib \<Rightarrow> (toml \<Rightarrow> json option) \<Rightarrow> environment \<Rightarrow> branching_config \<Rightarrow> string \<Rightarrow> facet_map \<Rightarrow> variable_heap \<Rightarrow> bool" where
  "branch_selected L tj env cfg key facets vh \<longleftrightarrow>
     (case bc_only cfg of Some onlys \<Rightarrow> list_ex (\<lambda>spec. check_branch_match L tj env spec key facets (Some vh)) onlys | None \<Rightarrow> True)
     \<and> (case bc_except cfg of
          Some excepts \<Rightarrow> \<not> list_ex (\<lambda>spec. check_branch_match L tj env spec key facets (Some vh)) excepts | None \<Rightarrow> True)"

end
