(* ===== verification/Spawn.thy ===== *)
theory Spawn
  imports ServiceData
begin

text \<open>
  Starting the processes of a service: the state and environment of the service runtime of
  \<^verbatim>\<open>crates/services/src/services.rs\<close>, \<open>spawn_all\<close> and
  \<open>spawn_process\<close> with the environment and arguments a process gets, the watchdog timers, and
  the native executor of \<^verbatim>\<open>crates/services/src/executors/native.rs\<close>. System calls are
  answered by functions of the environment, which get the number of calls made before; their
  effects are recorded in order.
\<close>

section \<open>What the runtime reads\<close>

record timer_meta =
  tm_name :: ustr
  tm_duration :: ustr
  tm_after :: "ustr list option"
  tm_finish :: "trigger list option"

record timer_inst =
  ti_meta :: timer_meta
  ti_deadline :: nat
  ti_fd :: i32

datatype socket_type = SockTcp | SockUdp | SockUds

datatype socket_lifecycle = SockManaged | SockOwned

record socket_meta =
  so_name :: ustr
  so_listen :: string
  so_type :: socket_type
  so_owner :: "ustr option"
  so_start_on :: "flow_item list option"
  so_stop_on :: "flow_item list option"
  so_on_start :: "trigger list option"
  so_trigger :: "trigger list option"
  so_on_stop :: "trigger list option"
  so_lifecycle :: socket_lifecycle
  so_managed_by :: "ustr list option"
  so_permissions :: "ustr list option"

record socket_inst =
  sk_meta :: socket_meta
  sk_fd :: i32
  sk_active :: bool

text \<open>The units of the metadata registry, and what its instance map holds.\<close>

datatype unit_item =
    UService service_meta | UTimer timer_meta | USocket socket_meta | UMount ustr mount_unit | UFacet flow_facet

fun item_name :: "unit_item \<Rightarrow> ustr" where
  "item_name (UService m) = sm_name m"
| "item_name (UTimer m) = tm_name m"
| "item_name (USocket m) = so_name m"
| "item_name (UMount n m) = n"
| "item_name (UFacet f) = ff_name f"

type_synonym socket_owners = "(ustr \<times> (ustr \<times> i32) list) list"

datatype sv_inst =
    IService service
  | ITimer timer_inst
  | ISocket socket_inst
  | IGraph facet_graph
  | IVars variable_heap
  | ISocketReg socket_owners
  | IPerms perm_store

definition tid_service :: model_type where "tid_service = \<lparr>mt_id = 1, mt_meta = 2\<rparr>"
definition tid_timer :: model_type where "tid_timer = \<lparr>mt_id = 3, mt_meta = 4\<rparr>"
definition tid_socket :: model_type where "tid_socket = \<lparr>mt_id = 5, mt_meta = 6\<rparr>"
definition tid_mount :: model_type where "tid_mount = \<lparr>mt_id = 7, mt_meta = 8\<rparr>"
definition tid_facet :: model_type where "tid_facet = \<lparr>mt_id = 13, mt_meta = 14\<rparr>"
definition tid_graph :: nat where "tid_graph = 9"
definition tid_vars :: nat where "tid_vars = 10"
definition tid_socket_reg :: nat where "tid_socket_reg = 11"
definition tid_perms :: nat where "tid_perms = 12"

definition graph_key :: ustr where "graph_key = ''runtime:facet_graph''"
definition vars_key :: ustr where "vars_key = ''runtime:variable_heap''"
definition sockets_key :: ustr where "sockets_key = ''runtime:socket_registry''"
definition perms_key :: ustr where "perms_key = ''runtime:permission_store''"

record socket_activation =
  sa_fds :: "i32 list"
  sa_names :: "ustr list"

record mount_entry =
  me_source :: "ustr option"
  me_target :: ustr
  me_fstype :: "ustr option"
  me_flags :: "string list option"
  me_data :: "string option"
  me_create :: "bool option"

text \<open>What an executor is given, and the command the native one runs.\<close>

record spawn_ctx =
  sx_service :: service
  sx_run :: run_option
  sx_branch_key :: "ustr option"
  sx_key :: ustr
  sx_user :: "ustr option"
  sx_envs :: "ustr \<rightharpoonup> ustr"
  sx_args :: "ustr list"
  sx_iso :: service_isolation
  sx_cgroup :: "string option"
  sx_fds :: "i32 list"
  sx_mounts :: "mount_entry list"

record command =
  cm_exec :: ustr
  cm_args :: "ustr list"
  cm_envs :: "ustr \<rightharpoonup> ustr"
  cm_dir :: "ustr option"
  cm_uid_gid :: "(u32 \<times> u32) option"
  cm_fds :: "i32 list"
  cm_namespaces :: "service_namespaces option"

datatype executor = ExNative | ExRemote | ExIma | ExExtension "nat \<Rightarrow> spawn_ctx \<Rightarrow> svc_handle result"

record svc_env =
  se_meta :: "(toml, unit_item) metadata_registry"
  se_lib :: json_lib
  se_utf8 :: "u8 list \<Rightarrow> string option"
  se_toml_json :: "toml \<Rightarrow> json option"
  se_toml_print :: "toml \<Rightarrow> string"
  se_decode_file :: "toml \<Rightarrow> run_file option"
  se_environment :: environment
  se_scopes :: scope_store
  se_actions :: "(ustr \<rightharpoonup> ustr) option"
  se_executors :: "ustr \<rightharpoonup> executor"
  se_users :: "user_store result"
  se_env_file :: "string \<Rightarrow> (string \<times> string) list"
  se_command :: "nat \<Rightarrow> command \<Rightarrow> svc_handle result"
  se_supervised :: "nat \<Rightarrow> command \<Rightarrow> spawn_ctx \<Rightarrow> svc_handle result"
  se_remote :: "nat \<Rightarrow> ustr \<Rightarrow> core_error option"
  se_wait :: "nat \<Rightarrow> nat \<Rightarrow> core_error option"
  se_path_exists :: "nat \<Rightarrow> string \<Rightarrow> bool"
  se_file_error :: "nat \<Rightarrow> string \<Rightarrow> core_error option"
  se_cgroup_error :: "nat \<Rightarrow> string \<Rightarrow> u32 \<Rightarrow> core_error option"
  se_timerfd :: "nat \<Rightarrow> i32 result"
  se_writer_alive :: "nat \<Rightarrow> nat \<Rightarrow> bool"
  se_errno_text :: "int \<Rightarrow> string"
  se_scope_perms :: "perm_store option"

section \<open>What it changes\<close>

datatype signal = SIGTERM | SIGKILL | SIGABRT

record start_args =
  ar_name :: ustr
  ar_fds :: "i32 list"
  ar_fd_names :: "ustr list"
  ar_only_user :: "ustr option"
  ar_branch :: "branch_context option"
  ar_deferred :: bool

definition start_named :: "ustr \<Rightarrow> start_args" where
  "start_named name = \<lparr>ar_name = name, ar_fds = [], ar_fd_names = [], ar_only_user = None, ar_branch = None, ar_deferred = False\<rparr>"

record transport_message =
  tp_type :: string
  tp_payload :: "flow_payload option"
  tp_branch :: "flow_match_operation option"
  tp_name :: "ustr option"
  tp_action :: string

record emit_trigger =
  et_name :: "ustr option"
  et_flow_type :: "flow_type option"
  et_payload :: "flow_payload option"
  et_action :: flow_action

definition no_trigger :: emit_trigger where
  "no_trigger = \<lparr>et_name = None, et_flow_type = None, et_payload = None, et_action = Apply\<rparr>"

text \<open>The messages the components send each other through the dispatcher.\<close>

datatype svc_cmd =
    SvcStart start_args
  | SvcStop ustr bool "ustr option"
  | SvcReconcile ustr service_event
  | SvcChildExited u32 int
  | SvcTimeoutSweep
  | SvcBootstrap
  | SvcStartAll
  | SvcStopAll bool "ustr list"
  | SvcStopForScope ustr
  | SvcEvaluate emit_trigger ustr
  | SvcDrain "flow_event option"
  | SvcSendStdio ustr transport_message
  | SvcWatchdogPing ustr "ustr option"
  | SvcWatchdogExpired i32
  | TimStart ustr
  | TimStop ustr
  | TimReconcile ustr service_event
  | SockBootstrap
  | SockSetupAll
  | SockStopForScope ustr
  | SockEvaluate emit_trigger ustr
  | SockClearFor ustr
  | SockResumeFds ustr
  | SockStart ustr
  | SockStop ustr
  | TpRegisterStdio ustr
  | TpUnregisterStdio ustr
  | TpSetupUds ustr "ustr list option"
  | TpSetupShm ustr "ustr list option"
  | TpSetupRoute ustr
  | TpIngest ustr u32 transport_message
  | MntMountAll ustr
  | MntUnmountAll ustr
  | EvEvaluate emit_trigger "ustr option"
  | FlowSetFacet ustr json
  | FlowRemoveFacet ustr json

datatype svc_effect =
    EDispatch svc_cmd
  | EFlow flow_effect
  | ESpawn spawn_ctx
  | ECommand command
  | ESignal u32 signal
  | ECgroup string service_cgroup u32
  | ERemove string bool
  | ECreate string bool "string option"
  | EStdio ustr nat
  | EStreamLogs ustr
  | ESend nat transport_message
  | ESocketDir string
  | EClearSocket i32
  | ETimerSet i32 nat
  | ENotify

record watchdog_binding =
  wb_service_key :: ustr
  wb_branch :: "ustr option"
  wb_user :: "ustr option"
  wb_pid :: u32

datatype res_payload = WatchdogPayload ustr "ustr option" | TimerPayload ustr | NoPayload

record svc_world =
  sw_inst :: "sv_inst instance_map"
  sw_pid_map :: "u32 \<rightharpoonup> ustr"
  sw_stopping :: "(u32 \<times> nat) list"
  sw_index :: "(ustr \<times> ustr list) list"
  sw_wfds :: "(i32 \<times> watchdog_binding) list"
  sw_wpids :: "u32 \<rightharpoonup> i32"
  sw_writers :: "(ustr \<times> nat list) list"
  sw_stdio :: "(ustr \<times> transport_message \<times> nat) list"
  sw_res :: "res_payload resources"
  sw_out :: "svc_effect list"
  sw_calls :: nat
  sw_now :: nat

definition emit_all :: "svc_effect list \<Rightarrow> svc_world \<Rightarrow> svc_world" where
  "emit_all es w = w\<lparr>sw_out := sw_out w @ es\<rparr>"

definition tick :: "svc_world \<Rightarrow> svc_world" where
  "tick w = w\<lparr>sw_calls := Suc (sw_calls w)\<rparr>"

definition run_triggers :: "svc_env \<Rightarrow> trigger list option \<Rightarrow> facet_map option \<Rightarrow> svc_world \<Rightarrow> svc_world" where
  "run_triggers E triggers sm w =
     (case triggers of None \<Rightarrow> w
      | Some ts \<Rightarrow> emit_all (map EFlow (trigger_events (se_lib E) (se_actions E) ts sm True)) w)"

section \<open>Sockets handed over\<close>

definition activation_of :: "(ustr \<times> i32) list \<Rightarrow> socket_activation" where
  "activation_of v = \<lparr>sa_fds = fold hs_insert (map snd v) [], sa_names = fold hs_insert (map fst v) []\<rparr>"

definition get_all_sockets :: "sv_inst instance_map \<Rightarrow> ustr \<rightharpoonup> socket_activation" where
  "get_all_sockets inst =
     (case singleton_of tid_socket_reg sockets_key inst of
        Some (ISocketReg owners) \<Rightarrow> map_option activation_of \<circ> map_of owners
      | _ \<Rightarrow> Map.empty)"

definition sockets_with :: "start_args \<Rightarrow> sv_inst instance_map \<Rightarrow> ustr \<rightharpoonup> socket_activation" where
  "sockets_with a inst =
     (let sockets = get_all_sockets inst in
      if ar_fds a = [] then sockets
      else (let entry = (case sockets (ar_name a) of Some s \<Rightarrow> s | None \<Rightarrow> \<lparr>sa_fds = [], sa_names = []\<rparr>)
            in sockets(ar_name a \<mapsto> \<lparr>sa_fds = fold hs_insert (ar_fds a) (sa_fds entry),
                                     sa_names = fold hs_insert (ar_fd_names a) (sa_names entry)\<rparr>)))"

definition activation_envs :: "socket_activation \<Rightarrow> (ustr \<rightharpoonup> ustr) \<Rightarrow> ustr \<rightharpoonup> ustr" where
  "activation_envs s envs =
     (if sa_fds s = [] then envs
      else (let n = length (sa_fds s);
                envs = envs(''RIND_SOCKET_FDS'' \<mapsto> join '','' (map (\<lambda>i. show_nat (3 + i)) [0..<n]),
                            ''RIND_SOCKET_COUNT'' \<mapsto> show_nat n, ''LISTEN_FDS'' \<mapsto> show_nat n)
            in if sa_names s = [] then envs
               else envs(''RIND_SOCKET_NAMES'' \<mapsto> join '':'' (sa_names s), ''LISTEN_FDNAMES'' \<mapsto> join '':'' (sa_names s))))"

section \<open>Environment and arguments\<close>

definition first_payload :: "facet_map \<Rightarrow> ustr \<Rightarrow> flow_payload option" where
  "first_payload facets name = (case branches_of facets name of b # _ \<Rightarrow> Some (fi_payload b) | [] \<Rightarrow> None)"

text \<open>The value of a reference \<open>state\<close> or \<open>state/path\<close>; \<open>$\<close> is the branch's own payload.\<close>

definition resolve_state :: "svc_env \<Rightarrow> facet_map \<Rightarrow> flow_payload option \<Rightarrow> string \<Rightarrow> string option" where
  "resolve_state E facets branch_payload spec =
     (let (state_name, path) = (case split_once (CHR ''/'') spec of Some (n, p) \<Rightarrow> (n, Some p) | None \<Rightarrow> (spec, None)) in
      case (case branch_payload of
              Some p \<Rightarrow> if state_name = ''$'' then Some p else first_payload facets state_name
            | None \<Rightarrow> first_payload facets state_name) of
        None \<Rightarrow> None
      | Some payload \<Rightarrow>
          (case path of
             None \<Rightarrow> Some (to_string_payload (se_lib E) payload)
           | Some p \<Rightarrow>
               (case payload of
                  PJson j \<Rightarrow> map_option (\<lambda>v. case json_as_str v of Some s \<Rightarrow> s | None \<Rightarrow> jl_print (se_lib E) v)
                               (walk_path (split_char (CHR ''.'') p) (into_json (se_lib E) j))
                | PString s \<Rightarrow> Some s
                | PBytes b \<Rightarrow> Some (case se_utf8 E b of Some s \<Rightarrow> s | None \<Rightarrow> [])
                | PNone _ \<Rightarrow> Some [])))"

definition env_option ::
  "svc_env \<Rightarrow> facet_map \<Rightarrow> variable_heap option \<Rightarrow> flow_payload option \<Rightarrow> ustr \<Rightarrow> (ustr \<rightharpoonup> ustr) \<Rightarrow> ustr \<rightharpoonup> ustr" where
  "env_option E facets vh bp option envs =
     (case split_once (CHR ''='') option of None \<Rightarrow> envs
      | Some (key, v) \<Rightarrow>
          (case strip_prefix ''facet:'' v of
             Some state_name \<Rightarrow> (case resolve_state E facets bp state_name of Some x \<Rightarrow> envs(key \<mapsto> x) | None \<Rightarrow> envs)
           | None \<Rightarrow>
               (case (vh, strip_prefix ''var:'' v) of
                  (Some h, Some variable) \<Rightarrow>
                    (case vh_get (se_environment E) h variable of Some x \<Rightarrow> envs(key \<mapsto> se_toml_print E x) | None \<Rightarrow> envs)
                | _ \<Rightarrow> envs(key \<mapsto> v))))"

definition arg_option :: "svc_env \<Rightarrow> facet_map \<Rightarrow> variable_heap option \<Rightarrow> flow_payload option \<Rightarrow> ustr \<Rightarrow> ustr list" where
  "arg_option E facets vh bp option =
     (case strip_prefix ''facet:'' option of
        Some state_name \<Rightarrow> (case resolve_state E facets bp state_name of Some x \<Rightarrow> if x = [] then [] else [x] | None \<Rightarrow> [])
      | None \<Rightarrow>
          (case (vh, strip_prefix ''var:'' option) of
             (Some h, Some variable) \<Rightarrow> (case vh_get (se_environment E) h variable of Some x \<Rightarrow> [se_toml_print E x] | None \<Rightarrow> [])
           | _ \<Rightarrow> [option]))"

definition socket_path :: "string \<Rightarrow> string" where
  "socket_path endpoint = path_push ''/run/rind-tp'' (endpoint @ ''.sock'')"

definition transport_inputs ::
  "svc_env \<Rightarrow> transport_method \<Rightarrow> facet_map \<Rightarrow> variable_heap option \<Rightarrow> flow_payload option \<Rightarrow> ustr \<Rightarrow>
   (ustr \<rightharpoonup> ustr) \<times> ustr list \<Rightarrow> (ustr \<rightharpoonup> ustr) \<times> ustr list" where
  "transport_inputs E transport facets vh bp registry_key inputs =
     (case inputs of (envs, args) \<Rightarrow>
       (case transport of
          TMOptions i options _ \<Rightarrow>
            if i = ''env'' then (fold (env_option E facets vh bp) options envs, args)
            else if i = ''args'' then (envs, args @ concat (map (arg_option E facets vh bp) options))
            else if i = ''uds'' \<or> i = ''shm'' then (envs(''RIND_TP_SOCK'' \<mapsto> socket_path registry_key), args)
            else (envs, args)
        | TMType i \<Rightarrow>
            if i = ''uds'' \<or> i = ''shm'' then (envs(''RIND_TP_SOCK'' \<mapsto> socket_path registry_key), args)
            else if starts_with ''route:'' i
            then (envs(''RIND_TP_SOCK'' \<mapsto> socket_path (trim_start_matches ''route:'' i)), args)
            else (envs, args)
        | TMObject _ _ _ \<Rightarrow> (envs, args)))"

definition watchdog_envs :: "service_watchdog option \<Rightarrow> (ustr \<rightharpoonup> ustr) \<Rightarrow> ustr \<rightharpoonup> ustr" where
  "watchdog_envs wd envs =
     (case wd of None \<Rightarrow> envs
      | Some d \<Rightarrow>
          (let envs = envs(''RIND_WATCHDOG_GRACE_MS'' \<mapsto> show_nat (unat (wd_grace_ms d))) in
           case wd_interval_ms d of Some i \<Rightarrow> envs(''RIND_WATCHDOG_INTERVAL_MS'' \<mapsto> show_nat (unat i)) | None \<Rightarrow> envs))"

section \<open>Run options from a variable\<close>

fun toml_as_table :: "toml \<Rightarrow> (string \<times> toml) list option" where
  "toml_as_table (TomlTable t) = Some t"
| "toml_as_table _ = None"

fun toml_as_str :: "toml \<Rightarrow> string option" where
  "toml_as_str (TomlString s) = Some s"
| "toml_as_str _ = None"

definition resolve_run_option :: "svc_env \<Rightarrow> run_option \<Rightarrow> variable_heap option \<Rightarrow> run_option option" where
  "resolve_run_option E run vh =
     Option.bind (ro_variable run) (\<lambda>var_ref. Option.bind vh (\<lambda>heap.
     Option.bind (vh_get (se_environment E) heap var_ref) (\<lambda>v. Option.bind (toml_as_table v) (\<lambda>table. Some
       \<lparr>ro_exec = (case Option.bind (map_of table ''exec'') toml_as_str of Some s \<Rightarrow> s | None \<Rightarrow> []),
        ro_args = (case Option.bind (map_of table ''args'') toml_as_array of
                     Some arr \<Rightarrow> List.map_filter toml_as_str arr | None \<Rightarrow> []),
        ro_env = map_option (\<lambda>t. map_of (List.map_filter (\<lambda>(k, x). map_option (Pair k) (toml_as_str x)) t))
                   (Option.bind (map_of table ''env'') toml_as_table),
        ro_variable = None,
        ro_executor = map_option (se_toml_print E) (map_of table ''executor''),
        ro_files = map_option (List.map_filter (se_decode_file E)) (Option.bind (map_of table ''files'') toml_as_array)\<rparr>))))"

section \<open>Watchdog timers\<close>

definition grace_of :: "service_watchdog \<Rightarrow> nat" where
  "grace_of wd = max 1 (unat (wd_grace_ms wd))"

definition arm_watchdog_timer ::
  "svc_env \<Rightarrow> ustr \<Rightarrow> ustr option \<Rightarrow> ustr option \<Rightarrow> u32 \<Rightarrow> service_watchdog \<Rightarrow> svc_world \<Rightarrow> unit result \<times> svc_world" where
  "arm_watchdog_timer E service_key branch user pid wd w =
     (case se_timerfd E (sw_calls w) of
        Inl e \<Rightarrow> (Inl e, tick w)
      | Inr fd \<Rightarrow>
          (let w = emit_all [ETimerSet fd (grace_of wd)] (tick w) in
           (Inr (), w\<lparr>sw_res := rs_action fd \<lparr>ra_runtime = ''services'', ra_action = ''watchdog_expired'',
                         ra_payload = Some (WatchdogPayload service_key branch)\<rparr> (rs_own fd (Timer (unat fd)) (sw_res w)),
                      sw_wfds := AList.update fd \<lparr>wb_service_key = service_key, wb_branch = branch, wb_user = user, wb_pid = pid\<rparr>
                                   (sw_wfds w),
                      sw_wpids := (sw_wpids w)(pid \<mapsto> fd)\<rparr>)))"

definition disarm_watchdog_pid :: "u32 \<Rightarrow> svc_world \<Rightarrow> svc_world" where
  "disarm_watchdog_pid pid w =
     (case sw_wpids w pid of None \<Rightarrow> w
      | Some fd \<Rightarrow> w\<lparr>sw_wpids := (sw_wpids w)(pid := None), sw_wfds := AList.delete fd (sw_wfds w),
                     sw_res := rs_terminate fd (sw_res w)\<rparr>)"

definition refresh_watchdog_fd :: "i32 \<Rightarrow> service_watchdog \<Rightarrow> svc_world \<Rightarrow> svc_world" where
  "refresh_watchdog_fd fd wd w = emit_all [ETimerSet fd (grace_of wd)] w"

section \<open>The native executor\<close>

text \<open>
  The files of a run option, in order: cleaned, then created. Whether a path exists and whether an
  operation fails is asked of the environment.
\<close>

definition prepare_file :: "svc_env \<Rightarrow> bool \<Rightarrow> run_file \<Rightarrow> svc_world \<Rightarrow> unit result \<times> svc_world" where
  "prepare_file E first file w =
     (if \<not> rf_clean file \<and> \<not> rf_create file then (Inr (), w)
      else
        (let path = rf_path file;
             clean = rf_clean file \<and> se_path_exists E (sw_calls w) path \<and> (\<not> rf_once file \<or> first);
             (r, w) = (if clean then ((case se_file_error E (sw_calls (tick w)) path of Some e \<Rightarrow> Inl e | None \<Rightarrow> Inr ()),
                                      emit_all [ERemove path (rf_dir file)] (tick (tick w)))
                       else (Inr (), tick w))
         in case r of Inl e \<Rightarrow> (Inl e, w)
            | Inr _ \<Rightarrow>
                if rf_create file \<and> \<not> se_path_exists E (sw_calls w) path
                then ((case se_file_error E (sw_calls (tick w)) path of Some e \<Rightarrow> Inl e | None \<Rightarrow> Inr ()),
                      emit_all [ECreate path (rf_dir file) (if rf_dir file then None
                                   else Some (case rf_content file of Some c \<Rightarrow> c | None \<Rightarrow> []))] (tick (tick w)))
                else (Inr (), tick w)))"

fun prepare_files :: "svc_env \<Rightarrow> bool \<Rightarrow> run_file list \<Rightarrow> svc_world \<Rightarrow> unit result \<times> svc_world" where
  "prepare_files E first [] w = (Inr (), w)"
| "prepare_files E first (f # fs) w =
     (case prepare_file E first f w of (Inl e, w) \<Rightarrow> (Inl e, w) | (Inr _, w) \<Rightarrow> prepare_files E first fs w)"

text \<open>The seconds a service of type \<open>wait\<close> may take.\<close>

definition wait_timeout :: "svc_env \<Rightarrow> service_meta \<Rightarrow> nat" where
  "wait_timeout E m =
     (case Option.bind (case Option.bind (sm_options m) (\<lambda>opts. opts ''timeout'') of
                          Some x \<Rightarrow> Some x | None \<Rightarrow> se_environment E ''RIND_SERVICE_TIMEOUT'') (parse_uint (2 ^ 64)) of
        Some n \<Rightarrow> n | None \<Rightarrow> 30)"

text \<open>The account the process runs as: none means that of the daemon.\<close>

definition native_user :: "svc_env \<Rightarrow> ustr option \<Rightarrow> user_record option result" where
  "native_user E user =
     (case user of None \<Rightarrow> Inr None
      | Some username \<Rightarrow>
          (case se_users E of Inl e \<Rightarrow> Inl e
           | Inr users \<Rightarrow>
               (case lookup_by_name users username of
                  None \<Rightarrow> Inl (InvalidState (''user '' @ [CHR 0x27] @ username @ [CHR 0x27] @ '' not found''))
                | Some u \<Rightarrow> Inr (Some u))))"

definition native_command :: "svc_env \<Rightarrow> spawn_ctx \<Rightarrow> user_record option \<Rightarrow> command" where
  "native_command E ctx user =
     (let dir = sm_working_dir (sv_meta (sx_service ctx));
          envs = (case user of None \<Rightarrow> sx_envs ctx
                  | Some u \<Rightarrow> (sx_envs ctx ++ map_of (rev (se_env_file E (ur_home u @ ''/.env''))))
                               (''HOME'' \<mapsto> ur_home u, ''USER'' \<mapsto> (case sx_user ctx of Some n \<Rightarrow> n | None \<Rightarrow> [])))
      in \<lparr>cm_exec = ro_exec (sx_run ctx), cm_args = sx_args ctx,
          cm_envs = (case sx_branch_key ctx of Some key \<Rightarrow> envs(''RIND_BRANCH_KEY'' \<mapsto> key) | None \<Rightarrow> envs),
          cm_dir = (case (user, dir) of
                      (Some u, Some d) \<Rightarrow> if starts_with ''~'' d then Some (ur_home u @ drop 1 d) else Some d
                    | _ \<Rightarrow> dir),
          cm_uid_gid = map_option (\<lambda>u. (ur_uid u, ur_gid u)) user,
          cm_fds = sx_fds ctx, cm_namespaces = is_namespaces (sx_iso ctx)\<rparr>)"

definition native_spawn :: "svc_env \<Rightarrow> spawn_ctx \<Rightarrow> svc_world \<Rightarrow> svc_handle result \<times> svc_world" where
  "native_spawn E ctx w =
     (case native_user E (sx_user ctx) of
        Inl e \<Rightarrow> (Inl e, w)
      | Inr user \<Rightarrow>
          (let cmd = native_command E ctx user in
           if needs_namespace_supervisor (sx_iso ctx)
           then (se_supervised E (sw_calls w) cmd ctx, emit_all [ECommand cmd] (tick w))
           else
             (case prepare_files E (sv_instances (sx_service ctx) = []) (case ro_files (sx_run ctx) of Some fs \<Rightarrow> fs | None \<Rightarrow> []) w of
                (Inl e, w) \<Rightarrow> (Inl e, w)
              | (Inr _, w) \<Rightarrow>
                  (case se_command E (sw_calls w) cmd of
                     Inl e \<Rightarrow> (Inl e, tick w)
                   | Inr h \<Rightarrow>
                       (let w = emit_all [ECommand cmd] (tick w) in
                        if sm_type (sv_meta (sx_service ctx)) = TypeWait
                        then (case se_wait E (sw_calls w) (wait_timeout E (sv_meta (sx_service ctx))) of
                                Some e \<Rightarrow> (Inl e, tick w) | None \<Rightarrow> (Inr h, tick w))
                        else (Inr h, w))))))"

text \<open>The other two built-in executors only ever fail.\<close>

definition executor_spawn :: "svc_env \<Rightarrow> executor \<Rightarrow> spawn_ctx \<Rightarrow> svc_world \<Rightarrow> svc_handle result \<times> svc_world" where
  "executor_spawn E ex ctx w =
     (case ex of
        ExNative \<Rightarrow> native_spawn E ctx w
      | ExRemote \<Rightarrow> (case se_remote E (sw_calls w) (ro_exec (sx_run ctx)) of
                      Some e \<Rightarrow> (Inl e, tick w)
                    | None \<Rightarrow> (Inl (Custom ''RemoteExecutor implementation in progress''), tick w))
      | ExIma \<Rightarrow> (Inl (Custom ''ImaExecutor implementation in progress''), w)
      | ExExtension f \<Rightarrow> (f (sw_calls w) ctx, tick w))"

section \<open>One process\<close>

definition signal_handle :: "svc_handle \<Rightarrow> signal \<Rightarrow> svc_world \<Rightarrow> svc_world" where
  "signal_handle h sig w = (case h of ProcessHandle pid \<Rightarrow> emit_all [ESignal pid sig] w | OtherHandle _ \<Rightarrow> w)"

definition setup_cgroup_for_pid ::
  "svc_env \<Rightarrow> service_cgroup option \<Rightarrow> string option \<Rightarrow> u32 \<Rightarrow> svc_world \<Rightarrow> unit result \<times> svc_world" where
  "setup_cgroup_for_pid E cgroup path pid w =
     (case (cgroup, path) of
        (Some cg, Some p) \<Rightarrow>
          ((case se_cgroup_error E (sw_calls w) p pid of Some e \<Rightarrow> Inl e | None \<Rightarrow> Inr ()), emit_all [ECgroup p cg pid] (tick w))
      | _ \<Rightarrow> (Inr (), w))"

definition key_parts :: "ustr \<Rightarrow> ustr \<times> ustr option" where
  "key_parts key = (case rsplit_once (CHR ''@'') key of Some (name, scope) \<Rightarrow> (name, Some scope) | None \<Rightarrow> (key, None))"

definition process_user ::
  "svc_env \<Rightarrow> service \<Rightarrow> branch_context option \<Rightarrow> facet_map option \<Rightarrow> ustr option \<Rightarrow> ustr option result" where
  "process_user E service branch_ctx sm scope =
     (case resolve_scope_default_user (se_scopes E) service scope of
        Some u \<Rightarrow> Inr (Some u)
      | None \<Rightarrow> resolve_service_user (se_lib E) (se_scopes E) service branch_ctx sm scope)"

definition process_inputs ::
  "svc_env \<Rightarrow> service \<Rightarrow> run_option \<Rightarrow> branch_context option \<Rightarrow> (ustr \<rightharpoonup> socket_activation) \<Rightarrow> facet_map option \<Rightarrow>
   variable_heap option \<Rightarrow> ustr \<Rightarrow> (ustr \<rightharpoonup> ustr) \<times> ustr list" where
  "process_inputs E service run branch_ctx sockets sm vh registry_key =
     (let inputs = ((case ro_env run of Some e \<Rightarrow> e | None \<Rightarrow> Map.empty), ro_args run);
          (envs, args) = (case (sm_transport (sv_meta service), sm) of
                            (Some t, Some facets) \<Rightarrow>
                              transport_inputs E t facets vh (Option.bind branch_ctx bx_payload) registry_key inputs
                          | _ \<Rightarrow> inputs);
          envs = (case sockets (fst (key_parts registry_key)) of Some s \<Rightarrow> activation_envs s envs | None \<Rightarrow> envs)
      in (watchdog_envs (sm_watchdog (sv_meta service)) envs, args))"

definition spawn_context ::
  "svc_env \<Rightarrow> service \<Rightarrow> run_option \<Rightarrow> branch_context option \<Rightarrow> (ustr \<rightharpoonup> socket_activation) \<Rightarrow> facet_map option \<Rightarrow>
   variable_heap option \<Rightarrow> ustr \<Rightarrow> mount_entry list \<Rightarrow> ustr option \<Rightarrow> service_isolation \<Rightarrow> spawn_ctx" where
  "spawn_context E service run branch_ctx sockets sm vh registry_key mounts user isol =
     (let (envs, args) = process_inputs E service run branch_ctx sockets sm vh registry_key;
          branch_key = Option.bind branch_ctx bx_key
      in \<lparr>sx_service = service, sx_run = run, sx_branch_key = branch_key, sx_key = registry_key, sx_user = user,
          sx_envs = envs, sx_args = args, sx_iso = isol,
          sx_cgroup = cgroup_path_for (sm_name (sv_meta service)) (is_cgroup isol) branch_key user,
          sx_fds = (case sockets (rslvns_snorm registry_key) of Some s \<Rightarrow> sa_fds s | None \<Rightarrow> []), sx_mounts = mounts\<rparr>)"

text \<open>The listeners and log readers of a started process.\<close>

definition attach_streams :: "service \<Rightarrow> ustr \<Rightarrow> svc_world \<Rightarrow> svc_world" where
  "attach_streams service registry_key w =
     (if (case sm_transport (sv_meta service) of Some t \<Rightarrow> is_stdio_transport t | None \<Rightarrow> False)
      then (let w = emit_all [EStdio registry_key (length (sv_instances service))] w
            in tick (w\<lparr>sw_writers := AList.update registry_key
                 ((case map_of (sw_writers w) registry_key of Some ws \<Rightarrow> ws | None \<Rightarrow> []) @ [sw_calls w]) (sw_writers w)\<rparr>))
      else emit_all [EStreamLogs registry_key] w)"

definition adopt_handle ::
  "svc_env \<Rightarrow> spawn_ctx \<Rightarrow> svc_handle \<Rightarrow> svc_world \<Rightarrow> unit result \<times> svc_world" where
  "adopt_handle E ctx h w =
     (case handle_pid h of
        None \<Rightarrow> (Inr (), w)
      | Some pid \<Rightarrow>
          (case setup_cgroup_for_pid E (if needs_namespace_supervisor (sx_iso ctx) then None else is_cgroup (sx_iso ctx))
                  (sx_cgroup ctx) pid w of
             (Inl e, w) \<Rightarrow> (Inl (InvalidState ''failed to setup cgroup for service''), signal_handle h SIGKILL w)
           | (Inr _, w) \<Rightarrow>
               (let w = w\<lparr>sw_pid_map := (sw_pid_map w)(pid \<mapsto> sx_key ctx)\<rparr> in
                case sm_watchdog (sv_meta (sx_service ctx)) of
                  None \<Rightarrow> (Inr (), w)
                | Some wd \<Rightarrow> (Inr (), snd (arm_watchdog_timer E (sx_key ctx) (sx_branch_key ctx) (sx_user ctx) pid wd w)))))"

definition spawn_process ::
  "svc_env \<Rightarrow> service \<Rightarrow> run_option \<Rightarrow> branch_context option \<Rightarrow> (ustr \<rightharpoonup> socket_activation) \<Rightarrow> facet_map option \<Rightarrow>
   variable_heap option \<Rightarrow> ustr \<Rightarrow> mount_entry list \<Rightarrow> svc_world \<Rightarrow> child_instance result \<times> svc_world" where
  "spawn_process E service run branch_ctx sockets sm vh registry_key mounts w =
     (let scope = snd (key_parts registry_key) in
      case process_user E service branch_ctx sm scope of
        Inl e \<Rightarrow> (Inl e, w)
      | Inr user \<Rightarrow>
          (case isolation_for (se_scopes E) (sm_name (sv_meta service)) (sm_cgroup (sv_meta service))
                  (sm_namespaces (sv_meta service)) scope of
             Inl e \<Rightarrow> (Inl e, w)
           | Inr isol \<Rightarrow>
               (let executor_name = (case ro_executor run of Some e \<Rightarrow> e | None \<Rightarrow> ''native'') in
                case se_executors E executor_name of
                  None \<Rightarrow> (Inl (Custom (''Executor '' @ executor_name @ '' not found'')), w)
                | Some ex \<Rightarrow>
                    (let ctx = spawn_context E service run branch_ctx sockets sm vh registry_key mounts user isol in
                     case executor_spawn E ex ctx (emit_all [ESpawn ctx] w) of
                       (Inl e, w) \<Rightarrow> (Inl e, w)
                     | (Inr h, w) \<Rightarrow>
                         (case adopt_handle E ctx h w of
                            (Inl e, w) \<Rightarrow> (Inl e, w)
                          | (Inr _, w) \<Rightarrow>
                              (Inr (child_new (case Option.bind branch_ctx bx_key of Some k \<Rightarrow> k | None \<Rightarrow> []) user (Some h)),
                               attach_streams service registry_key w))))))"

text \<open>All run options of a service, unless it is listed as inactive.\<close>

fun spawn_runs ::
  "svc_env \<Rightarrow> service \<Rightarrow> branch_context option \<Rightarrow> (ustr \<rightharpoonup> socket_activation) \<Rightarrow> facet_map option \<Rightarrow>
   variable_heap option \<Rightarrow> ustr \<Rightarrow> mount_entry list \<Rightarrow> run_option list \<Rightarrow> svc_world \<Rightarrow> child_instance list result \<times> svc_world" where
  "spawn_runs E service branch_ctx sockets sm vh registry_key mounts [] w = (Inr [], w)"
| "spawn_runs E service branch_ctx sockets sm vh registry_key mounts (run # runs) w =
     (let run = (case resolve_run_option E run vh of Some r \<Rightarrow> r | None \<Rightarrow> run) in
      case spawn_process E service run branch_ctx sockets sm vh registry_key mounts w of
        (Inl e, w) \<Rightarrow> (Inl e, w)
      | (Inr c, w) \<Rightarrow>
          (case spawn_runs E service branch_ctx sockets sm vh registry_key mounts runs w of
             (Inl e, w) \<Rightarrow> (Inl e, w)
           | (Inr cs, w) \<Rightarrow> (Inr (c # cs), w)))"

definition listed_inactive :: "svc_env \<Rightarrow> facet_map option \<Rightarrow> ustr \<Rightarrow> bool" where
  "listed_inactive E sm registry_key =
     (case sm of None \<Rightarrow> False
      | Some facets \<Rightarrow> list_ex (\<lambda>x. to_string_payload (se_lib E) (fi_payload x) = instance_key_name registry_key)
                         (branches_of facets ''rind:inactive''))"

definition spawn_all ::
  "svc_env \<Rightarrow> service \<Rightarrow> branch_context option \<Rightarrow> (ustr \<rightharpoonup> socket_activation) \<Rightarrow> facet_map option \<Rightarrow>
   variable_heap option \<Rightarrow> ustr \<Rightarrow> mount_entry list \<Rightarrow> svc_world \<Rightarrow> child_instance list result \<times> svc_world" where
  "spawn_all E service branch_ctx sockets sm vh registry_key mounts w =
     (if listed_inactive E sm registry_key then (Inr [], w)
      else spawn_runs E service branch_ctx sockets sm vh registry_key mounts (as_many (sm_run (sv_meta service))) w)"

end
