(* ===== verification/Services.thy ===== *)
theory Services
  imports Spawn
begin

text \<open>
  The service runtime, \<^verbatim>\<open>crates/services/src/services.rs\<close>: starting and stopping
  services, the exit of a child, restarts, watchdogs, the services that depend on one another, the
  evaluation of start and stop conditions, and the standard streams. The closures under
  \<open>singleton_handle\<close> read the facet graph and the variables taken out of the instance map.
  Starting a service may start others and these again others; the bodies take the recursive call as an
  argument and \<open>svc_start\<close> ties the knot with fuel. \<open>None\<close> is not returning: out of fuel,
  or a panic.
\<close>

section \<open>Error texts\<close>

fun pam_text :: "pam_error \<Rightarrow> string" where
  "pam_text UserNotFound = ''user not found''"
| "pam_text AccountLocked = ''account is locked''"
| "pam_text AccountExpired = ''account has expired''"
| "pam_text PasswordExpired = ''password has expired''"
| "pam_text AuthenticationFailed = ''authentication failed''"
| "pam_text MaxRetriesExceeded = ''maximum login retries exceeded''"
| "pam_text (SessionError e) = ''session error: '' @ e"
| "pam_text (InternalError e) = ''internal error: '' @ e"

fun error_text :: "(int \<Rightarrow> string) \<Rightarrow> core_error \<Rightarrow> string" where
  "error_text errno (PamErr x) = pam_text x"
| "error_text errno (ParseError x) = ''parse error: '' @ x"
| "error_text errno (System x) = ''system error: '' @ errno x"
| "error_text errno DoubleKey = ''Double key''"
| "error_text errno (MissingField path) = ''missing field `'' @ path @ ''`''"
| "error_text errno (TypeMismatch path expected) = ''type mismatch for `'' @ path @ ''`, expected '' @ expected"
| "error_text errno (DuplicatePermissions i name) =
     ''duplicate permissions for `'' @ show_nat (unat i) @ ''`. already registered as '' @ name"
| "error_text errno (MissingSchema name) = ''missing metadata schema `'' @ name @ ''`''"
| "error_text errno (DependencyCycle cycle) = ''dependency cycle: '' @ join '' -> '' cycle"
| "error_text errno RuntimeStopped = ''runtime stopped''"
| "error_text errno PermissionDenied = ''Permission Denied''"
| "error_text errno UnknownError = ''Unknown error''"
| "error_text errno (AuthFailed e) = ''authentication failed: '' @ e"
| "error_text errno (MetadataNotFound x) = ''metadata '' @ x @ '' not found''"
| "error_text errno (MissingInstances x) = ''metadata or instance '' @ x @ '' not found''"
| "error_text errno (NotFound x) = x @ '' not found''"
| "error_text errno (InvalidState x) = ''invalid state: '' @ x"
| "error_text errno (EventBusError x) = ''event bus error: '' @ x"
| "error_text errno (PersistenceError x) = ''persistence error: '' @ x"
| "error_text errno (Custom x) = x"
| "error_text errno (IoError x) = x"

section \<open>The registry\<close>

text \<open>\<open>singleton_handle\<close> on a closure that works on the whole state and leaves the values as they are.\<close>

definition with_singletons ::
  "(ustr \<times> nat) list \<Rightarrow> (sv_inst list \<Rightarrow> svc_world \<Rightarrow> 'r result \<times> svc_world) \<Rightarrow> svc_world \<Rightarrow> 'r result \<times> svc_world" where
  "with_singletons keys f w =
     (if \<not> distinct (map fst keys) then (Inl DoubleKey, w)
      else (case take_lists keys (sw_inst w) of
              (Inl e, inst) \<Rightarrow> (Inl e, w\<lparr>sw_inst := inst\<rparr>)
            | (Inr ls, inst) \<Rightarrow>
                (case first_values 0 keys ls of
                   Inl e \<Rightarrow> (Inl e, w\<lparr>sw_inst := inst\<rparr>)
                 | Inr xs \<Rightarrow>
                     (case f xs (w\<lparr>sw_inst := inst\<rparr>) of
                        (r, w) \<Rightarrow> (r, w\<lparr>sw_inst := put_lists keys ls xs (sw_inst w)\<rparr>)))))"

definition graph_singleton :: "(ustr \<times> nat) list" where
  "graph_singleton = [(graph_key, tid_graph)]"

definition graph_and_vars :: "(ustr \<times> nat) list" where
  "graph_and_vars = [(graph_key, tid_graph), (vars_key, tid_vars)]"

fun taken_graph :: "sv_inst list \<Rightarrow> facet_map" where
  "taken_graph (IGraph g # _) = fg_facets g"
| "taken_graph _ = []"

fun taken_vars :: "sv_inst list \<Rightarrow> variable_heap" where
  "taken_vars (_ # IVars h # _) = h"
| "taken_vars _ = vh_new"

text \<open>\<open>metadata.find::<Service>("*", ..)\<close>, \<open>instantiate_one\<close> and \<open>as_one\<close> on services.\<close>

definition find_meta :: "svc_env \<Rightarrow> ustr \<Rightarrow> service_meta option" where
  "find_meta E name =
     (case mr_find item_name (se_meta E) tid_service ''*'' name of Some (UService m) \<Rightarrow> Some m | _ \<Rightarrow> None)"

definition instance_key :: "svc_env \<Rightarrow> ustr \<Rightarrow> ustr \<Rightarrow> ustr" where
  "instance_key E metadata name = snd (resolved_metadata_and_full_name (se_meta E) metadata name)"

definition make_service :: "unit_item \<Rightarrow> sv_inst result" where
  "make_service i = (case i of UService m \<Rightarrow> Inr (IService (service_new m)) | _ \<Rightarrow> Inl UnknownError)"

definition get_service :: "svc_env \<Rightarrow> ustr \<Rightarrow> ustr \<Rightarrow> svc_world \<Rightarrow> service result \<times> svc_world" where
  "get_service E metadata name w =
     (case instantiate_one item_name (se_meta E) tid_service metadata name make_service (sw_inst w) of
        (Inr (IService s), inst) \<Rightarrow> (Inr s, w\<lparr>sw_inst := inst\<rparr>)
      | (Inr _, inst) \<Rightarrow> (Inl instance_mismatch, w\<lparr>sw_inst := inst\<rparr>)
      | (Inl e, inst) \<Rightarrow> (Inl e, w\<lparr>sw_inst := inst\<rparr>))"

text \<open>Writing through the reference \<open>instantiate_one\<close> gave, and through that of \<open>as_one_mut\<close>.\<close>

definition put_service :: "ustr \<Rightarrow> service \<Rightarrow> svc_world \<Rightarrow> svc_world" where
  "put_service key s w =
     (case sw_inst w key of
        Some (_ # l) \<Rightarrow> w\<lparr>sw_inst := (sw_inst w)(key \<mapsto> (mt_id tid_service, IService s) # l)\<rparr>
      | _ \<Rightarrow> w)"

definition put_last_service :: "ustr \<Rightarrow> service \<Rightarrow> svc_world \<Rightarrow> svc_world" where
  "put_last_service key s w =
     w\<lparr>sw_inst := (sw_inst w)(key := map_option (\<lambda>l. butlast l @ [(mt_id tid_service, IService s)]) (sw_inst w key))\<rparr>"

definition one_service :: "svc_env \<Rightarrow> ustr \<Rightarrow> ustr \<Rightarrow> sv_inst instance_map \<Rightarrow> service result" where
  "one_service E metadata name inst =
     (case as_one (se_meta E) tid_service metadata name inst of
        Inr (IService s) \<Rightarrow> Inr s | Inr _ \<Rightarrow> Inl instance_mismatch | Inl e \<Rightarrow> Inl e)"

definition service_up :: "svc_env \<Rightarrow> ustr \<Rightarrow> sv_inst instance_map \<Rightarrow> bool" where
  "service_up E name inst = (case one_service E ''*'' name inst of Inr s \<Rightarrow> list_ex up (sv_instances s) | Inl _ \<Rightarrow> False)"

section \<open>Transports of a service\<close>

fun get_permissions :: "transport_method \<Rightarrow> ustr list option" where
  "get_permissions (TMType _) = None"
| "get_permissions (TMOptions _ _ p) = p"
| "get_permissions (TMObject _ _ p) = p"

definition register_service_transport :: "service \<Rightarrow> ustr \<Rightarrow> svc_world \<Rightarrow> bool \<times> svc_world" where
  "register_service_transport service endpoint w =
     (case sm_transport (sv_meta service) of None \<Rightarrow> (False, w)
      | Some t \<Rightarrow>
          if is_stdio_transport t then (False, emit_all [EDispatch (TpRegisterStdio endpoint)] w)
          else if transport_id t = ''uds'' then (True, emit_all [EDispatch (TpSetupUds endpoint (get_permissions t))] w)
          else if transport_id t = ''shm'' then (True, emit_all [EDispatch (TpSetupShm endpoint (get_permissions t))] w)
          else if starts_with ''route:'' (transport_id t) then (True, emit_all [EDispatch (TpSetupRoute (transport_id t))] w)
          else (False, w))"

definition maybe_unregister_service_transport :: "service \<Rightarrow> ustr \<Rightarrow> svc_world \<Rightarrow> svc_world" where
  "maybe_unregister_service_transport service key w =
     (case sm_transport (sv_meta service) of None \<Rightarrow> w
      | Some t \<Rightarrow>
          if \<not> is_stdio_transport t \<or> list_ex (\<lambda>c. ci_handle c \<noteq> None) (sv_instances service) then w
          else emit_all [EDispatch (TpUnregisterStdio key)] w)"

section \<open>Starting one service\<close>

fun on_first :: "('a \<Rightarrow> 'a) \<Rightarrow> 'a list \<Rightarrow> 'a list" where
  "on_first f [] = []"
| "on_first f (x # xs) = f x # xs"

definition set_state :: "service_state \<Rightarrow> child_instance \<Rightarrow> child_instance" where
  "set_state st c = c\<lparr>ci_state := st\<rparr>"

definition start_error :: "svc_env \<Rightarrow> ustr \<Rightarrow> core_error \<Rightarrow> service_state" where
  "start_error E key e =
     SError (''Failed to start service '' @ [CHR 0x22] @ key @ [CHR 0x22] @ '': '' @ error_text (se_errno_text E) e)"

definition start_service ::
  "svc_env \<Rightarrow> service \<Rightarrow> (ustr \<rightharpoonup> socket_activation) \<Rightarrow> facet_map option \<Rightarrow> variable_heap option \<Rightarrow> ustr \<Rightarrow>
   mount_entry list \<Rightarrow> svc_world \<Rightarrow> service \<times> svc_world" where
  "start_service E service sockets sm vh registry_key mounts w =
     (if (case sv_instances service of c # _ \<Rightarrow> ci_state c \<in> {SActive, SStarting, SStopping} | [] \<Rightarrow> False)
         \<and> sm_singleton (sv_meta service)
      then (service, w)
      else
        (case spawn_all E service None sockets sm vh registry_key mounts w of
           (Inr instances, w) \<Rightarrow>
             (let service = service\<lparr>sv_instances := sv_instances service @ instances\<rparr>;
                  w = snd (register_service_transport service registry_key w);
                  w = (if sv_instances service = [] then w else run_triggers E (sm_on_start (sv_meta service)) sm w)
              in (service\<lparr>sv_instances := on_first (set_state SActive) (sv_instances service)\<rparr>,
                  emit_all [EDispatch (SvcReconcile registry_key EvStarted), EDispatch (TimReconcile registry_key EvStarted)] w))
         | (Inl e, w) \<Rightarrow>
             (service\<lparr>sv_last_state := start_error E registry_key e,
                      sv_instances := on_first (set_state (start_error E registry_key e)) (sv_instances service)\<rparr>, w)))"

section \<open>Stopping\<close>

definition stop_matches :: "ustr option \<Rightarrow> ustr option \<Rightarrow> child_instance \<Rightarrow> bool" where
  "stop_matches key user c \<longleftrightarrow>
     (case key of Some k \<Rightarrow> ci_key c = k | None \<Rightarrow> True)
     \<and> (case user of Some u \<Rightarrow> ci_user c = Some u \<or> (ci_user c = None \<and> ci_key c = u) | None \<Rightarrow> True)"

definition stop_service_instance ::
  "svc_env \<Rightarrow> service_meta \<Rightarrow> stop_mode \<Rightarrow> facet_map option \<Rightarrow> ustr option \<Rightarrow> ustr option \<Rightarrow> child_instance \<Rightarrow> svc_world \<Rightarrow>
   child_instance \<times> svc_world" where
  "stop_service_instance E m mode sm key user c w =
     (if \<not> stop_matches key user c then (c, w)
      else
        (case ci_handle c of
           Some h \<Rightarrow>
             (let w = signal_handle h (if mode = ForceKill then SIGKILL else SIGTERM) w;
                  w = (case handle_pid h of None \<Rightarrow> w
                       | Some pid \<Rightarrow> (let w = disarm_watchdog_pid pid w
                                      in w\<lparr>sw_stopping := AList.update pid (sw_now w) (sw_stopping w)\<rparr>))
              in (c\<lparr>ci_state := SStopping, ci_stop_time := Some (sw_now w), ci_manually_stopped := True\<rparr>, w))
         | None \<Rightarrow>
             (c\<lparr>ci_state := SInactive\<rparr>, if ci_state c = SActive then run_triggers E (sm_on_stop m) sm w else w)))"

fun stop_children ::
  "svc_env \<Rightarrow> service_meta \<Rightarrow> stop_mode \<Rightarrow> facet_map option \<Rightarrow> ustr option \<Rightarrow> ustr option \<Rightarrow> child_instance list \<Rightarrow> svc_world \<Rightarrow>
   child_instance list \<times> svc_world" where
  "stop_children E m mode sm key user [] w = ([], w)"
| "stop_children E m mode sm key user (c # cs) w =
     (case stop_service_instance E m mode sm key user c w of
        (c, w) \<Rightarrow> (case stop_children E m mode sm key user cs w of (cs, w) \<Rightarrow> (c # cs, w)))"

definition stop_service ::
  "svc_env \<Rightarrow> service \<Rightarrow> stop_mode \<Rightarrow> facet_map option \<Rightarrow> ustr option \<Rightarrow> ustr option \<Rightarrow> nat option \<Rightarrow> ustr \<Rightarrow> svc_world \<Rightarrow>
   service \<times> svc_world" where
  "stop_service E service mode sm key user index service_key w =
     (let m = sv_meta service; cs = sv_instances service;
          (cs, w) = (case index of
                       Some i \<Rightarrow>
                         if i < length cs
                         then (case stop_service_instance E m mode sm key user (cs ! i) w of (c, w) \<Rightarrow> (cs[i := c], w))
                         else (cs, w)
                     | None \<Rightarrow> stop_children E m mode sm key user cs w);
          service = service\<lparr>sv_instances := cs\<rparr>
      in if list_ex (\<lambda>c. ci_state c = SActive) cs then (service, w)
         else (service\<lparr>sv_last_state := SStopping\<rparr>,
               emit_all [EDispatch (SockClearFor (instance_key_name service_key)), EDispatch (SvcReconcile service_key EvStopped),
                         EDispatch (TimReconcile service_key EvStopped), ENotify] w))"

section \<open>The exit of a child\<close>

datatype exit_action = ExitRestart | ExitStopDependents

definition exit_action_for :: "restart_policy option \<Rightarrow> child_instance \<Rightarrow> int \<Rightarrow> exit_action" where
  "exit_action_for policy c code =
     (if ci_manually_stopped c then ExitStopDependents
      else (case policy of
              Some (RestartBool True) \<Rightarrow> ExitRestart
            | Some (OnFailure max_retries) \<Rightarrow>
                if code \<noteq> 0 \<and> max_retries > 0 \<and> ci_retry_count c < max_retries then ExitRestart else ExitStopDependents
            | _ \<Rightarrow> ExitStopDependents))"

fun clean_files :: "svc_env \<Rightarrow> run_file list \<Rightarrow> svc_world \<Rightarrow> svc_world" where
  "clean_files E [] w = w"
| "clean_files E (f # fs) w =
     clean_files E fs
       (if rf_clean f
        then (if se_path_exists E (sw_calls w) (rf_path f) then emit_all [ERemove (rf_path f) (rf_dir f)] (tick w) else tick w)
        else w)"

definition cleanup_files :: "svc_env \<Rightarrow> service_meta \<Rightarrow> svc_world \<Rightarrow> svc_world" where
  "cleanup_files E m w =
     (if sm_cleanup m
      then clean_files E (concat (map (\<lambda>r. if ro_variable r \<noteq> None then [] else case ro_files r of Some fs \<Rightarrow> fs | None \<Rightarrow> [])
                                   (as_many (sm_run m)))) w
      else w)"

definition kept_child :: "child_instance \<Rightarrow> bool" where
  "kept_child c \<longleftrightarrow> ci_state c \<in> {SActive, SStarting, SStopping}"

definition handle_child_exit ::
  "svc_env \<Rightarrow> service \<Rightarrow> u32 \<Rightarrow> int \<Rightarrow> facet_map option \<Rightarrow> ustr \<Rightarrow> svc_world \<Rightarrow> exit_action option \<times> service \<times> svc_world" where
  "handle_child_exit E service pid code sm service_key w =
     (let w = disarm_watchdog_pid pid w; m = sv_meta service; cs = sv_instances service in
      case find_by_pid pid cs of None \<Rightarrow> (None, service, w)
      | Some idx \<Rightarrow>
          (let c = cs ! idx;
               w = (if ci_state c \<in> {SActive, SStopping} then run_triggers E (sm_on_stop m) sm w else w);
               action = exit_action_for (sm_restart m) c code;
               counted = (case sm_restart m of Some (OnFailure _) \<Rightarrow> action = ExitRestart | _ \<Rightarrow> False);
               gone = c\<lparr>ci_state := SExited code, ci_handle := None\<rparr>;
               service = service\<lparr>sv_instances := cs[idx := gone], sv_last_state := SExited code\<rparr>;
               w = maybe_unregister_service_transport service service_key w;
               service = (if counted then service\<lparr>sv_instances := cs[idx := gone\<lparr>ci_retry_count := ci_retry_count c + 1\<rparr>]\<rparr>
                          else service)
           in if action = ExitRestart then (Some action, service, w)
              else (let w = cleanup_files E m w; full_name = instance_key_name service_key
                    in (Some action, service\<lparr>sv_instances := filter kept_child (sv_instances service)\<rparr>,
                        emit_all [EDispatch (SockClearFor full_name), EDispatch (SockResumeFds full_name)] w))))"

section \<open>Dependents\<close>

text \<open>The services that list a name in \<open>after\<close>, in all metadata.\<close>

definition unit_full_name :: "ustr \<Rightarrow> service_meta \<Rightarrow> ustr" where
  "unit_full_name grp m = grp @ '':'' @ sm_name m"

definition service_items :: "(ustr \<times> unit_item) list \<Rightarrow> (ustr \<times> service_meta) list" where
  "service_items xs = List.map_filter (\<lambda>(grp, i). case i of UService m \<Rightarrow> Some (grp, m) | _ \<Rightarrow> None) xs"

definition dependents_of :: "svc_env \<Rightarrow> ustr \<Rightarrow> (ustr \<times> service_meta) list" where
  "dependents_of E name =
     concat (map (\<lambda>(_, m). map (\<lambda>(grp, sm). (unit_full_name grp sm, sm))
       (filter (\<lambda>(_, sm). case sm_after sm of Some deps \<Rightarrow> name \<in> set deps | None \<Rightarrow> False)
         (service_items (grouped_items tid_service m)))) (mr_metadata (se_meta E)))"

definition stopped_kind :: "service_event \<Rightarrow> bool" where
  "stopped_kind a \<longleftrightarrow> a \<noteq> EvStarted"

definition wait_completed :: "svc_env \<Rightarrow> ustr \<Rightarrow> service_event \<Rightarrow> bool" where
  "wait_completed E name action \<longleftrightarrow>
     action = EvExited 0 \<and> (case find_meta E name of Some m \<Rightarrow> sm_type m = TypeWait | None \<Rightarrow> False)"

fun stop_dependents :: "svc_env \<Rightarrow> facet_map \<Rightarrow> (ustr \<times> service_meta) list \<Rightarrow> svc_world \<Rightarrow> svc_world" where
  "stop_dependents E facets [] w = w"
| "stop_dependents E facets ((dependent, _) # ds) w =
     stop_dependents E facets ds
       (case one_service E ''*'' dependent (sw_inst w) of
          Inl _ \<Rightarrow> w
        | Inr s \<Rightarrow>
            (case stop_service E s Graceful (Some facets) None None None dependent w of
               (s, w) \<Rightarrow> put_last_service (instance_key E ''*'' dependent) s w))"

text \<open>A dependent is started when its conditions hold and one of the services it waits for runs.\<close>

definition running_well :: "service \<Rightarrow> bool" where
  "running_well s \<longleftrightarrow> sv_instances s \<noteq> [] \<and>
     \<not> list_ex (\<lambda>c. case ci_state c of SInactive \<Rightarrow> True | SStopping \<Rightarrow> True | SExited _ \<Rightarrow> True | SError _ \<Rightarrow> True | _ \<Rightarrow> False)
         (sv_instances s)"

definition dependent_ready :: "svc_env \<Rightarrow> service_meta \<Rightarrow> sv_inst instance_map \<Rightarrow> bool" where
  "dependent_ready E m inst \<longleftrightarrow>
     (case sm_start_on m of
        None \<Rightarrow> True
      | Some conds \<Rightarrow>
          (case singleton_of tid_graph graph_key inst of
             Some (IGraph g) \<Rightarrow> list_all (\<lambda>cond. condition_is_active (se_lib E) (fg_facets g) cond None) conds
           | _ \<Rightarrow> False))
     \<and> (case sm_after m of
          Some afters \<Rightarrow> list_ex (\<lambda>a. case one_service E ''*'' a inst of Inr s \<Rightarrow> running_well s | Inl _ \<Rightarrow> False) afters
        | None \<Rightarrow> False)"

fun start_dependents ::
  "svc_env \<Rightarrow> (start_args \<Rightarrow> svc_world \<Rightarrow> svc_world run) \<Rightarrow> (ustr \<times> service_meta) list \<Rightarrow> svc_world \<Rightarrow> svc_world run" where
  "start_dependents E rec [] w = Some (Inr (), w)"
| "start_dependents E rec ((dependent, m) # ds) w =
     and_then (if dependent_ready E m (sw_inst w) then rec (start_named dependent) w else Some (Inr (), w))
       (start_dependents E rec ds)"

definition reconcile_stacks ::
  "svc_env \<Rightarrow> (start_args \<Rightarrow> svc_world \<Rightarrow> svc_world run) \<Rightarrow> ustr \<Rightarrow> service_event \<Rightarrow> svc_world \<Rightarrow> svc_world run" where
  "reconcile_stacks E rec service action w =
     (let name = instance_key_name service; ds = dependents_of E name in
      if stopped_kind action then
        (if wait_completed E name action then Some (Inr (), w)
         else Some (with_singletons graph_and_vars (\<lambda>xs w. (Inr (), stop_dependents E (taken_graph xs) ds w)) w))
      else start_dependents E rec ds w)"

definition reconcile ::
  "svc_env \<Rightarrow> (start_args \<Rightarrow> svc_world \<Rightarrow> svc_world run) \<Rightarrow> ustr \<Rightarrow> service_event \<Rightarrow> svc_world \<Rightarrow> svc_world run" where
  "reconcile E rec name action w =
     and_then (reconcile_stacks E rec name action w) (\<lambda>w. Some (Inr (), emit_all [EDispatch (TimReconcile name action)] w))"

section \<open>The action start\<close>

definition mount_entry_of :: "mount_unit \<Rightarrow> mount_entry" where
  "mount_entry_of m = \<lparr>me_source = mo_source m, me_target = mo_target m, me_fstype = mo_fstype m,
     me_flags = mo_flags m, me_data = mo_data m, me_create = mo_create m\<rparr>"

definition namespace_mounts :: "svc_env \<Rightarrow> ustr \<Rightarrow> mount_entry list" where
  "namespace_mounts E name =
     (let scope = (case rsplit_once (CHR ''@'') name of Some (_, s) \<Rightarrow> s | None \<Rightarrow> ''static'')
      in List.map_filter (\<lambda>(_, i). case i of UMount _ m \<Rightarrow> Some (mount_entry_of m) | _ \<Rightarrow> None)
           (case mr_items (se_meta E) tid_mount scope of Some xs \<Rightarrow> xs | None \<Rightarrow> []))"

text \<open>
  The part under \<open>singleton_handle\<close>: the three ways of spawning. It answers with the name to go on
  with and whether the start was put off until the transport is there.
\<close>

definition spawn_branch ::
  "svc_env \<Rightarrow> service \<Rightarrow> branch_context \<Rightarrow> (ustr \<rightharpoonup> socket_activation) \<Rightarrow> facet_map \<Rightarrow> variable_heap \<Rightarrow> ustr \<Rightarrow>
   mount_entry list \<Rightarrow> svc_world \<Rightarrow> ustr option \<times> service \<times> svc_world" where
  "spawn_branch E service ctx sockets facets vh key mounts w =
     (if (case bx_key ctx of Some k \<Rightarrow> list_ex (\<lambda>i. ci_key i = k \<and> up i) (sv_instances service) | None \<Rightarrow> False)
      then (None, service, w)
      else
        (case spawn_all E service (Some ctx) sockets (Some facets) (Some vh) key mounts w of
           (Inr instances, w) \<Rightarrow>
             (let service = service\<lparr>sv_instances := sv_instances service @ instances\<rparr>;
                  w = snd (register_service_transport service key w)
              in if sv_instances service = [] then (Some key, service, w)
                 else (Some key, service\<lparr>sv_instances := map (set_state SActive) (sv_instances service)\<rparr>,
                       run_triggers E (sm_on_start (sv_meta service)) (Some facets) w))
         | (Inl e, w) \<Rightarrow>
             (None, service\<lparr>sv_instances := map (\<lambda>c. if ci_state c = SActive then c else set_state (start_error E key e) c)
                                             (sv_instances service)\<rparr>, w)))"

definition spawn_for_user ::
  "svc_env \<Rightarrow> service \<Rightarrow> ustr \<Rightarrow> (ustr \<rightharpoonup> socket_activation) \<Rightarrow> facet_map \<Rightarrow> variable_heap \<Rightarrow> ustr \<Rightarrow>
   mount_entry list \<Rightarrow> svc_world \<Rightarrow> ustr option \<times> service \<times> svc_world" where
  "spawn_for_user E service user sockets facets vh key mounts w =
     (case spawn_all E service (Some \<lparr>bx_key = None, bx_payload = None, bx_forced_user = Some user\<rparr>) sockets
             (Some facets) (Some vh) key mounts w of
        (Inr instances, w) \<Rightarrow>
          (let service = service\<lparr>sv_instances := sv_instances service @ instances\<rparr>;
               w = snd (register_service_transport service key w)
           in (Some key, service\<lparr>sv_instances := on_first (set_state SActive) (sv_instances service)\<rparr>,
               if sv_instances service = [] then w else run_triggers E (sm_on_start (sv_meta service)) (Some facets) w))
      | (Inl e, w) \<Rightarrow>
          (None, service\<lparr>sv_instances := on_first (set_state (start_error E key e)) (sv_instances service)\<rparr>, w))"

definition start_closure ::
  "svc_env \<Rightarrow> start_args \<Rightarrow> (ustr \<rightharpoonup> socket_activation) \<Rightarrow> facet_map \<Rightarrow> variable_heap \<Rightarrow> svc_world \<Rightarrow>
   (ustr \<times> bool) option result \<times> svc_world" where
  "start_closure E a sockets facets vh w =
     (let name = ar_name a; service_key = ensure_scoped_name name; mounts = namespace_mounts E name in
      case get_service E ''*'' name w of
        (Inl e, w) \<Rightarrow> (Inl e, w)
      | (Inr service, w) \<Rightarrow>
          (let (deferred, w) = (if ar_deferred a then (False, w) else register_service_transport service service_key w) in
           if deferred then (Inr (Some (name, True)), w)
           else
             (let w = (case sm_transport (sv_meta service) of
                         Some t \<Rightarrow> if is_stdio_transport t then emit_all [EDispatch (TpRegisterStdio name)] w else w
                       | None \<Rightarrow> w);
                  (started, service, w) =
                    (case ar_branch a of
                       Some ctx \<Rightarrow> spawn_branch E service ctx sockets facets vh service_key mounts w
                     | None \<Rightarrow>
                         (case ar_only_user a of
                            Some user \<Rightarrow> spawn_for_user E service user sockets facets vh service_key mounts w
                          | None \<Rightarrow>
                              (case start_service E service sockets (Some facets) (Some vh) service_key mounts w of
                                 (service, w) \<Rightarrow> (Some service_key, service, w))))
              in (Inr (map_option (\<lambda>n. (n, False)) started), put_service (instance_key E ''*'' name) service w))))"

definition start_body ::
  "svc_env \<Rightarrow> (start_args \<Rightarrow> svc_world \<Rightarrow> svc_world run) \<Rightarrow> start_args \<Rightarrow> svc_world \<Rightarrow> svc_world run" where
  "start_body E rec a w =
     (let sockets = sockets_with a (sw_inst w) in
      case with_singletons graph_and_vars (\<lambda>xs. start_closure E a sockets (taken_graph xs) (taken_vars xs)) w of
        (Inl e, w) \<Rightarrow> Some (Inl e, w)
      | (Inr None, w) \<Rightarrow> Some (Inr (), w)
      | (Inr (Some (name, True)), w) \<Rightarrow> Some (Inr (), emit_all [EDispatch (SvcStart (a\<lparr>ar_deferred := True\<rparr>))] w)
      | (Inr (Some (name, False)), w) \<Rightarrow> reconcile E rec name EvStarted w)"

fun svc_start :: "nat \<Rightarrow> svc_env \<Rightarrow> start_args \<Rightarrow> svc_world \<Rightarrow> svc_world run" where
  "svc_start 0 E a w = None"
| "svc_start (Suc n) E a w = start_body E (svc_start n E) a w"

section \<open>The actions stop, stop_all and stop_for_scope\<close>

definition mode_of :: "bool \<Rightarrow> stop_mode" where
  "mode_of force = (if force then ForceKill else Graceful)"

definition svc_stop ::
  "svc_env \<Rightarrow> ustr \<Rightarrow> bool \<Rightarrow> nat option \<Rightarrow> ustr option \<Rightarrow> svc_world \<Rightarrow> unit result \<times> svc_world" where
  "svc_stop E name force index only_user w =
     with_singletons graph_singleton (\<lambda>xs w.
       case get_service E ''*'' name w of
         (Inl e, w) \<Rightarrow> (Inl e, w)
       | (Inr service, w) \<Rightarrow>
           (case stop_service E service (mode_of force) (Some (taken_graph xs)) None only_user index name w of
              (service, w) \<Rightarrow> (Inr (), put_service (instance_key E ''*'' name) service w))) w"

text \<open>Every service in a list of instances, as \<open>downcast_mut\<close> finds them.\<close>

fun each_service ::
  "(service \<Rightarrow> svc_world \<Rightarrow> service \<times> svc_world) \<Rightarrow> sv_inst boxed list \<Rightarrow> svc_world \<Rightarrow> sv_inst boxed list \<times> svc_world" where
  "each_service f [] w = ([], w)"
| "each_service f (b # bs) w =
     (case downcast (mt_id tid_service) b of
        Some (IService s) \<Rightarrow>
          (case f s w of (s, w) \<Rightarrow> (case each_service f bs w of (bs, w) \<Rightarrow> ((mt_id tid_service, IService s) # bs, w)))
      | _ \<Rightarrow> (case each_service f bs w of (bs, w) \<Rightarrow> (b # bs, w)))"

definition on_services :: "(service \<Rightarrow> svc_world \<Rightarrow> service \<times> svc_world) \<Rightarrow> ustr \<Rightarrow> svc_world \<Rightarrow> svc_world" where
  "on_services f key w =
     (case sw_inst w key of None \<Rightarrow> w
      | Some bs \<Rightarrow> (case each_service f bs w of (bs, w) \<Rightarrow> w\<lparr>sw_inst := (sw_inst w)(key \<mapsto> bs)\<rparr>))"

text \<open>\<open>keys\<close> is the order in which the instance map lists its keys.\<close>

definition svc_stop_all :: "svc_env \<Rightarrow> ustr list \<Rightarrow> bool \<Rightarrow> svc_world \<Rightarrow> unit result \<times> svc_world" where
  "svc_stop_all E keys force w =
     with_singletons graph_singleton (\<lambda>xs w. (Inr (),
       fold (\<lambda>key. on_services (\<lambda>s. stop_service E s (mode_of force) (Some (taken_graph xs)) None None None key) key)
         (filter (\<lambda>k. CHR ''@'' \<in> set k) keys) w)) w"

fun stop_scope_items ::
  "svc_env \<Rightarrow> facet_map \<Rightarrow> ustr \<Rightarrow> (ustr \<times> service_meta) list \<Rightarrow> svc_world \<Rightarrow> unit result \<times> svc_world" where
  "stop_scope_items E facets scope [] w = (Inr (), w)"
| "stop_scope_items E facets scope ((grp, m) # items) w =
     (let full_name = unit_full_name grp m in
      case one_service E scope full_name (sw_inst w) of
        Inl e \<Rightarrow> (Inl e, w)
      | Inr s \<Rightarrow>
          (case stop_service E s ForceKill (Some facets) None None None full_name w of
             (s, w) \<Rightarrow> stop_scope_items E facets scope items (put_last_service (instance_key E scope full_name) s w)))"

definition scope_services :: "svc_env \<Rightarrow> ustr \<Rightarrow> (ustr \<times> service_meta) list" where
  "scope_services E scope =
     service_items (case mr_items (se_meta E) tid_service scope of Some xs \<Rightarrow> xs | None \<Rightarrow> [])"

definition svc_stop_for_scope :: "svc_env \<Rightarrow> ustr \<Rightarrow> svc_world \<Rightarrow> unit result \<times> svc_world" where
  "svc_stop_for_scope E scope w =
     with_singletons graph_singleton
       (\<lambda>xs. stop_scope_items E (taken_graph xs) scope (scope_services E scope)) w"

section \<open>The exit of a process, and stopping by time\<close>

text \<open>The exit as seen by every service under the key of the pid; the last answer counts.\<close>

fun exit_services ::
  "svc_env \<Rightarrow> facet_map \<Rightarrow> ustr \<Rightarrow> u32 \<Rightarrow> int \<Rightarrow> sv_inst boxed list \<Rightarrow> exit_action option \<Rightarrow> svc_world \<Rightarrow>
   exit_action option \<times> sv_inst boxed list \<times> svc_world" where
  "exit_services E facets key pid code [] act w = (act, [], w)"
| "exit_services E facets key pid code (b # bs) act w =
     (case downcast (mt_id tid_service) b of
        Some (IService s) \<Rightarrow>
          (case handle_child_exit E s pid code (Some facets) key w of
             (r, s, w) \<Rightarrow>
               (case exit_services E facets key pid code bs (case r of Some a \<Rightarrow> Some a | None \<Rightarrow> act) w of
                  (act, bs, w) \<Rightarrow> (act, (mt_id tid_service, IService s) # bs, w)))
      | _ \<Rightarrow> (case exit_services E facets key pid code bs act w of (act, bs, w) \<Rightarrow> (act, b # bs, w)))"

definition exit_closure ::
  "svc_env \<Rightarrow> ustr \<Rightarrow> u32 \<Rightarrow> int \<Rightarrow> facet_map \<Rightarrow> svc_world \<Rightarrow> exit_action option result \<times> svc_world" where
  "exit_closure E key pid code facets w =
     (case sw_inst w key of None \<Rightarrow> (Inr None, w)
      | Some bs \<Rightarrow>
          (case exit_services E facets key pid code bs None w of
             (act, bs, w) \<Rightarrow> (Inr act, w\<lparr>sw_inst := (sw_inst w)(key \<mapsto> bs)\<rparr>)))"

definition child_exited ::
  "svc_env \<Rightarrow> (start_args \<Rightarrow> svc_world \<Rightarrow> svc_world run) \<Rightarrow> u32 \<Rightarrow> int \<Rightarrow> svc_world \<Rightarrow> svc_world run" where
  "child_exited E rec pid code w =
     (case sw_pid_map w pid of None \<Rightarrow> Some (Inr (), w)
      | Some key \<Rightarrow>
          (let w = w\<lparr>sw_pid_map := (sw_pid_map w)(pid := None), sw_stopping := AList.delete pid (sw_stopping w)\<rparr> in
           case with_singletons graph_singleton (\<lambda>xs. exit_closure E key pid code (taken_graph xs)) w of
             (Inl e, w) \<Rightarrow> Some (Inl e, w)
           | (Inr None, w) \<Rightarrow> Some (Inr (), w)
           | (Inr (Some ExitRestart), w) \<Rightarrow> rec (start_named key) w
           | (Inr (Some ExitStopDependents), w) \<Rightarrow> reconcile E rec key (EvExited code) w))"

definition service_timeout :: "svc_env \<Rightarrow> nat" where
  "service_timeout E =
     (case Option.bind (se_environment E ''RIND_SERVICE_TIMEOUT'') (parse_uint (2 ^ 64)) of Some n \<Rightarrow> n | None \<Rightarrow> 5) * 1000"

definition timeout_sweep :: "svc_env \<Rightarrow> svc_world \<Rightarrow> svc_world" where
  "timeout_sweep E w =
     (let expired = map fst (filter (\<lambda>(_, stop_time). sw_now w - stop_time > service_timeout E) (sw_stopping w))
      in emit_all (map (\<lambda>pid. ESignal pid SIGKILL) expired)
           (w\<lparr>sw_stopping := filter (\<lambda>(pid, _). pid \<notin> set expired) (sw_stopping w)\<rparr>))"

section \<open>Watchdogs\<close>

definition watchdog_ping :: "svc_env \<Rightarrow> ustr \<Rightarrow> ustr option \<Rightarrow> svc_world \<Rightarrow> svc_world" where
  "watchdog_ping E service branch w =
     (let fds = map fst (filter (\<lambda>(_, b). wb_service_key b = service \<and> (branch \<noteq> None \<longrightarrow> wb_branch b = branch)) (sw_wfds w))
      in case Option.bind (find_meta E (instance_key_name service)) sm_watchdog of
           Some wd \<Rightarrow> fold (\<lambda>fd. refresh_watchdog_fd fd wd) fds w
         | None \<Rightarrow> w)"

text \<open>
  What a handler reads from a payload: a parameter is found only when it is stored with the type the
  handler asks for. The watchdog stores an optional user where a user, or a string, is asked for.
\<close>

datatype payload_value = VUstr ustr | VString string | VOptUstr "ustr option"

definition tid_ustr :: nat where "tid_ustr = 20"
definition tid_string :: nat where "tid_string = 21"
definition tid_option_ustr :: nat where "tid_option_ustr = 22"

definition ustr_param :: "nat \<Rightarrow> ustr \<Rightarrow> payload_value runtime_payload \<Rightarrow> ustr option" where
  "ustr_param t name p =
     (case fst (rp_get name t p) of Inr (VUstr u) \<Rightarrow> Some u | Inr (VString s) \<Rightarrow> Some s | _ \<Rightarrow> None)"

definition watchdog_payload :: "watchdog_binding \<Rightarrow> payload_value runtime_payload" where
  "watchdog_payload b = rp_insert ''only_user'' tid_option_ustr (VOptUstr (wb_user b)) Map.empty"

definition watchdog_action_for :: "svc_env \<Rightarrow> watchdog_binding \<Rightarrow> watchdog_action" where
  "watchdog_action_for E b =
     (case Option.bind (find_meta E (instance_key_name (wb_service_key b))) sm_watchdog of
        Some wd \<Rightarrow> wd_action wd | None \<Rightarrow> WdRestart)"

definition watchdog_expired ::
  "svc_env \<Rightarrow> (start_args \<Rightarrow> svc_world \<Rightarrow> svc_world run) \<Rightarrow> i32 \<Rightarrow> svc_world \<Rightarrow> svc_world run" where
  "watchdog_expired E rec fd w =
     (case map_of (sw_wfds w) fd of None \<Rightarrow> Some (Inr (), w)
      | Some b \<Rightarrow>
          (let w = w\<lparr>sw_res := rs_terminate fd (sw_res w), sw_wfds := AList.delete fd (sw_wfds w),
                     sw_wpids := (sw_wpids w)(wb_pid b := None)\<rparr>;
               name = instance_key_name (wb_service_key b);
               stop = (\<lambda>w. Some (svc_stop E name True None (ustr_param tid_ustr ''only_user'' (watchdog_payload b)) w))
           in case watchdog_action_for E b of
                WdSignal \<Rightarrow> Some (Inr (), emit_all [ESignal (wb_pid b) SIGABRT] w)
              | WdStop \<Rightarrow> stop w
              | WdRestart \<Rightarrow>
                  and_then (stop w)
                    (rec ((start_named name)\<lparr>ar_only_user := ustr_param tid_string ''only_user'' (watchdog_payload b)\<rparr>))))"

section \<open>Conditions\<close>

text \<open>The names the conditions of a service mention. An entry naming neither a facet nor an impulse panics.\<close>

fun item_ref :: "flow_item \<Rightarrow> ustr option" where
  "item_ref (Simple s) = Some s"
| "item_ref (Detailed (Some facet) _ _ _) = Some facet"
| "item_ref (Detailed None impulse _ _) = impulse"

definition interests_of :: "service_meta \<Rightarrow> ustr list option" where
  "interests_of m =
     map_option remdups (those (map item_ref ((case sm_start_on m of Some xs \<Rightarrow> xs | None \<Rightarrow> []) @
                                              (case sm_stop_on m of Some xs \<Rightarrow> xs | None \<Rightarrow> []))))"

definition index_insert :: "ustr \<Rightarrow> ustr \<Rightarrow> (ustr \<times> ustr list) list \<Rightarrow> (ustr \<times> ustr list) list" where
  "index_insert key interest ix =
     AList.update interest (hs_insert key (case map_of ix interest of Some ks \<Rightarrow> ks | None \<Rightarrow> [])) ix"

definition indexed_services :: "svc_env \<Rightarrow> (ustr \<times> service_meta) list" where
  "indexed_services E =
     concat (map (\<lambda>(scope, items). map (\<lambda>(grp, m). (unit_full_name grp m @ ''@'' @ scope, m)) (service_items items))
       (mr_all_items (se_meta E) tid_service))"

fun index_services :: "(ustr \<times> service_meta) list \<Rightarrow> (ustr \<times> ustr list) list \<Rightarrow> (ustr \<times> ustr list) list option" where
  "index_services [] ix = Some ix"
| "index_services ((key, m) # xs) ix =
     (case interests_of m of None \<Rightarrow> None | Some names \<Rightarrow> index_services xs (fold (index_insert key) names ix))"

definition rebuild_trigger_index :: "svc_env \<Rightarrow> svc_world \<Rightarrow> svc_world option" where
  "rebuild_trigger_index E w = map_option (\<lambda>ix. w\<lparr>sw_index := ix\<rparr>) (index_services (indexed_services E) [])"

definition trim_end_matches :: "string \<Rightarrow> string \<Rightarrow> string" where
  "trim_end_matches p s = rev (trim_start_matches (rev p) (rev s))"

definition static_alias :: "ustr \<Rightarrow> ustr" where
  "static_alias name = (if ends_with ''@static'' name then trim_end_matches ''@static'' name else name @ ''@static'')"

definition trigger_targets :: "svc_env \<Rightarrow> emit_trigger \<Rightarrow> ustr \<Rightarrow> svc_world \<Rightarrow> ustr list" where
  "trigger_targets E t scope w =
     (case et_name t of
        Some name \<Rightarrow>
          remdups (concat (map (\<lambda>k. case map_of (sw_index w) k of Some ks \<Rightarrow> ks | None \<Rightarrow> []) [name, static_alias name]))
      | None \<Rightarrow> remdups (map (\<lambda>(grp, m). unit_full_name grp m @ ''@'' @ scope) (scope_services E scope)))"

definition emit_event :: "emit_trigger \<Rightarrow> flow_instance option" where
  "emit_event t =
     (case (et_name t, et_flow_type t, et_payload t) of
        (Some name, Some ty, Some payload) \<Rightarrow> Some \<lparr>fi_name = name, fi_payload = payload, fi_type = ty\<rparr>
      | _ \<Rightarrow> None)"

text \<open>The part of the evaluation that stops: one running service under the key.\<close>

fun stop_branches :: "svc_env \<Rightarrow> facet_map \<Rightarrow> ustr \<Rightarrow> ustr list \<Rightarrow> service \<Rightarrow> svc_world \<Rightarrow> service \<times> svc_world" where
  "stop_branches E facets key [] s w = (s, w)"
| "stop_branches E facets key (k # ks) s w =
     (case stop_service E s Graceful (Some facets) (Some k) None None key w of (s, w) \<Rightarrow> stop_branches E facets key ks s w)"

definition reverted_branches :: "svc_env \<Rightarrow> branching_config \<Rightarrow> flow_action \<Rightarrow> flow_instance option \<Rightarrow> service \<Rightarrow> ustr list" where
  "reverted_branches E cfg action event s =
     (case event of
        Some ev \<Rightarrow>
          if action = Revert \<and> list_ex up (sv_instances s) \<and> bc_key cfg \<noteq> None \<and> fi_name ev = bc_source cfg
          then map ci_key (filter (\<lambda>c. up c \<and> branch_key_from_payload (se_lib E) (fi_payload ev) (bc_key cfg) = Some (ci_key c))
                 (sv_instances s))
          else []
      | None \<Rightarrow> [])"

definition should_stop :: "svc_env \<Rightarrow> facet_map \<Rightarrow> flow_action \<Rightarrow> flow_instance option \<Rightarrow> service_meta \<Rightarrow> bool" where
  "should_stop E facets action event m \<longleftrightarrow>
     (case sm_stop_on m of
        Some conds \<Rightarrow> list_ex (\<lambda>cond. condition_matches (se_lib E) facets cond event None) conds
      | None \<Rightarrow>
          (case (event, sm_start_on m) of
             (Some ev, Some conds) \<Rightarrow>
               action = Revert \<and>
               list_ex (\<lambda>cond. check_condition (se_lib E) cond ev \<and> \<not> condition_is_active (se_lib E) facets cond None) conds
           | _ \<Rightarrow> False))"

definition evaluate_stop ::
  "svc_env \<Rightarrow> facet_map \<Rightarrow> flow_action \<Rightarrow> flow_instance option \<Rightarrow> ustr \<Rightarrow> service \<Rightarrow> svc_world \<Rightarrow> service \<times> svc_world" where
  "evaluate_stop E facets action event key s w =
     (case sm_branching (sv_meta s) of
        Some cfg \<Rightarrow> stop_branches E facets key (reverted_branches E cfg action event s) s w
      | None \<Rightarrow>
          if should_stop E facets action event (sv_meta s) \<and> list_ex up (sv_instances s)
          then stop_service E s Graceful (Some facets) None None None key w else (s, w))"

text \<open>\<open>is_running\<close>: the last service under the key, before it was stopped.\<close>

definition was_running :: "ustr \<Rightarrow> svc_world \<Rightarrow> bool" where
  "was_running key w =
     (case sw_inst w key of None \<Rightarrow> False
      | Some bs \<Rightarrow>
          (case List.map_filter (\<lambda>b. case downcast (mt_id tid_service) b of Some (IService s) \<Rightarrow> Some s | _ \<Rightarrow> None) bs of
             [] \<Rightarrow> False | ss \<Rightarrow> list_ex up (sv_instances (last ss))))"

definition should_start :: "svc_env \<Rightarrow> facet_map \<Rightarrow> flow_instance option \<Rightarrow> service_meta \<Rightarrow> sv_inst instance_map \<Rightarrow> bool" where
  "should_start E facets event m inst \<longleftrightarrow>
     (case sm_start_on m of
        Some conds \<Rightarrow> list_all (\<lambda>cond. condition_matches (se_lib E) facets cond event None) conds | None \<Rightarrow> False)
     \<and> (case sm_after m of Some afters \<Rightarrow> list_all (\<lambda>a. service_up E a inst) afters | None \<Rightarrow> True)"

text \<open>The branches to start: in order, without those that run, not selected, or above the limit.\<close>

fun select_branches ::
  "svc_env \<Rightarrow> facet_map \<Rightarrow> variable_heap \<Rightarrow> branching_config \<Rightarrow> child_instance list \<Rightarrow> nat \<Rightarrow> flow_payload list \<Rightarrow>
   branch_context list" where
  "select_branches E facets vh cfg children started [] = []"
| "select_branches E facets vh cfg children started (p # ps) =
     (case branch_key_from_payload (se_lib E) p (bc_key cfg) of
        None \<Rightarrow> select_branches E facets vh cfg children started ps
      | Some key \<Rightarrow>
          if list_ex (\<lambda>i. ci_key i = key \<and> up i) children
             \<or> \<not> branch_selected (se_lib E) (se_toml_json E) (se_environment E) cfg key facets vh
          then select_branches E facets vh cfg children started ps
          else if (case bc_max_instances cfg of Some m \<Rightarrow> length children \<ge> m \<or> started \<ge> m | None \<Rightarrow> False) then []
          else \<lparr>bx_key = Some key, bx_payload = Some p, bx_forced_user = None\<rparr> #
               select_branches E facets vh cfg children (Suc started) ps)"

definition branch_payloads :: "facet_map \<Rightarrow> branching_config \<Rightarrow> flow_instance option \<Rightarrow> flow_payload list" where
  "branch_payloads facets cfg event =
     map fi_payload (branches_of facets (bc_source cfg)) @
     (case event of Some ev \<Rightarrow> if fi_type ev = ImpulseType \<and> fi_name ev = bc_source cfg then [fi_payload ev] else [] | None \<Rightarrow> [])"

definition scope_and_base :: "ustr \<Rightarrow> ustr \<times> ustr" where
  "scope_and_base name = (case rsplit_once (CHR ''@'') name of Some (base, scope) \<Rightarrow> (scope, base) | None \<Rightarrow> (''static'', name))"

fun evaluate_targets ::
  "svc_env \<Rightarrow> facet_map \<Rightarrow> variable_heap \<Rightarrow> flow_action \<Rightarrow> flow_instance option \<Rightarrow> ustr list \<Rightarrow> svc_world \<Rightarrow>
   (ustr \<times> branch_context option) list result \<times> svc_world" where
  "evaluate_targets E facets vh action event [] w = (Inr [], w)"
| "evaluate_targets E facets vh action event (name # names) w =
     (case find_meta E name of
        None \<Rightarrow> evaluate_targets E facets vh action event names w
      | Some m \<Rightarrow>
          if CHR '':'' \<notin> set name then evaluate_targets E facets vh action event names w
          else
            (let key = ensure_scoped_name name;
                 running = was_running key w;
                 w = on_services (evaluate_stop E facets action event key) key w
             in if \<not> should_start E facets event m (sw_inst w) \<or> (sm_branching m = None \<and> running)
                then evaluate_targets E facets vh action event names w
                else
                  (case get_service E (fst (scope_and_base name)) (snd (scope_and_base name)) w of
                     (Inl e, w) \<Rightarrow> (Inl e, w)
                   | (Inr s, w) \<Rightarrow>
                       (let here = (case sm_branching (sv_meta s) of
                                      Some cfg \<Rightarrow> map (\<lambda>ctx. (name, Some ctx))
                                        (select_branches E facets vh cfg (sv_instances s) 0 (branch_payloads facets cfg event))
                                    | None \<Rightarrow> [(name, None)])
                        in case evaluate_targets E facets vh action event names w of
                             (Inl e, w) \<Rightarrow> (Inl e, w)
                           | (Inr rest, w) \<Rightarrow> (Inr (here @ rest), w)))))"

definition start_targets ::
  "(start_args \<Rightarrow> svc_world \<Rightarrow> svc_world run) \<Rightarrow> (ustr \<times> branch_context option) list \<Rightarrow> svc_world \<Rightarrow> svc_world run" where
  "start_targets rec xs = steps (map (\<lambda>(name, ctx). rec ((start_named name)\<lparr>ar_branch := ctx\<rparr>)) xs)"

definition evaluate_triggers ::
  "svc_env \<Rightarrow> (start_args \<Rightarrow> svc_world \<Rightarrow> svc_world run) \<Rightarrow> emit_trigger \<Rightarrow> ustr \<Rightarrow> svc_world \<Rightarrow> svc_world run" where
  "evaluate_triggers E rec t scope w =
     (case (if sw_index w = [] then rebuild_trigger_index E w else Some w) of
        None \<Rightarrow> None
      | Some w \<Rightarrow>
          (case with_singletons graph_and_vars (\<lambda>xs w. evaluate_targets E (taken_graph xs) (taken_vars xs) (et_action t)
                  (emit_event t) (trigger_targets E t scope w) w) w of
             (Inl e, w) \<Rightarrow> Some (Inl e, w)
           | (Inr xs, w) \<Rightarrow> start_targets rec xs w))"

section \<open>The action start_all\<close>

text \<open>
  The services listed as active: those without \<open>after\<close> are started first, in order; the
  others wait for the names started so far. A failing start ends the first round with its error and is
  ignored in the later ones.
\<close>

type_synonym waiting = "(ustr \<times> ustr list) list"

definition active_services :: "svc_env \<Rightarrow> facet_map \<Rightarrow> (ustr \<times> service_meta) list" where
  "active_services E facets =
     List.map_filter (\<lambda>b. let name = to_string_payload (se_lib E) (fi_payload b) in map_option (Pair name) (find_meta E name))
       (branches_of facets ''rind:active'')"

definition start_unless_up ::
  "svc_env \<Rightarrow> (start_args \<Rightarrow> svc_world \<Rightarrow> svc_world run) \<Rightarrow> ustr \<Rightarrow> svc_world \<Rightarrow> svc_world run" where
  "start_unless_up E rec name w =
     (if service_up E (ensure_scoped_name name) (sw_inst w) then Some (Inr (), w) else rec (start_named name) w)"

fun start_first ::
  "svc_env \<Rightarrow> (start_args \<Rightarrow> svc_world \<Rightarrow> svc_world run) \<Rightarrow> (ustr \<times> service_meta) list \<Rightarrow> ustr list \<Rightarrow> waiting \<Rightarrow> svc_world \<Rightarrow>
   ((ustr list \<times> waiting) result \<times> svc_world) option" where
  "start_first E rec [] started pend w = Some (Inr (started, pend), w)"
| "start_first E rec ((name, m) # xs) started pend w =
     (if sm_start_on m \<noteq> None
      then start_first E rec xs (if service_up E (ensure_scoped_name name) (sw_inst w) then hs_insert name started else started) pend w
      else (case sm_after m of
              Some afters \<Rightarrow> start_first E rec xs started (pend @ [(name, afters)]) w
            | None \<Rightarrow>
                (case start_unless_up E rec name w of
                   None \<Rightarrow> None
                 | Some (Inl e, w) \<Rightarrow> Some (Inl e, w)
                 | Some (Inr _, w) \<Rightarrow> start_first E rec xs (hs_insert name started) pend w)))"

fun start_pass ::
  "svc_env \<Rightarrow> (start_args \<Rightarrow> svc_world \<Rightarrow> svc_world run) \<Rightarrow> waiting \<Rightarrow> ustr list \<Rightarrow> svc_world \<Rightarrow>
   (waiting \<times> ustr list \<times> svc_world) option" where
  "start_pass E rec [] started w = Some ([], started, w)"
| "start_pass E rec ((name, afters) # pend) started w =
     (if list_all (\<lambda>a. a \<in> set started) afters
      then (case start_unless_up E rec name w of
              None \<Rightarrow> None
            | Some (_, w) \<Rightarrow> start_pass E rec pend (hs_insert name started) w)
      else map_option (\<lambda>(kept, started, w). ((name, afters) # kept, started, w)) (start_pass E rec pend started w))"

text \<open>A round that starts nothing is the last one, so there are at most as many rounds as services.\<close>

fun start_rounds ::
  "nat \<Rightarrow> svc_env \<Rightarrow> (start_args \<Rightarrow> svc_world \<Rightarrow> svc_world run) \<Rightarrow> waiting \<Rightarrow> ustr list \<Rightarrow> svc_world \<Rightarrow>
   (waiting \<times> ustr list \<times> svc_world) option" where
  "start_rounds 0 E rec pend started w = None"
| "start_rounds (Suc n) E rec pend started w =
     (case start_pass E rec pend started w of
        None \<Rightarrow> None
      | Some (kept, started, w) \<Rightarrow>
          if length kept < length pend then start_rounds n E rec kept started w else Some (kept, started, w))"

definition start_all ::
  "svc_env \<Rightarrow> (start_args \<Rightarrow> svc_world \<Rightarrow> svc_world run) \<Rightarrow> svc_world \<Rightarrow> svc_world run" where
  "start_all E rec w =
     (case with_singletons graph_singleton (\<lambda>xs w. (Inr (active_services E (taken_graph xs)), w)) w of
        (Inl e, w) \<Rightarrow> Some (Inl e, w)
      | (Inr services, w) \<Rightarrow>
          (case start_first E rec services [] [] w of
             None \<Rightarrow> None
           | Some (Inl e, w) \<Rightarrow> Some (Inl e, w)
           | Some (Inr (started, pend), w) \<Rightarrow>
               map_option (\<lambda>(kept, started, w). (Inr (), w)) (start_rounds (Suc (length pend)) E rec pend started w)))"

section \<open>Standard streams\<close>

text \<open>A writer whose receiver is gone is dropped, and an endpoint without writers with it.\<close>

fun send_writers :: "svc_env \<Rightarrow> transport_message \<Rightarrow> nat list \<Rightarrow> svc_world \<Rightarrow> nat list \<times> svc_world" where
  "send_writers E msg [] w = ([], w)"
| "send_writers E msg (x # xs) w =
     (let alive = se_writer_alive E (sw_calls w) x; w = tick w;
          (kept, w) = send_writers E msg xs (if alive then emit_all [ESend x msg] w else w)
      in (if alive then x # kept else kept, w))"

definition send_stdio_message :: "svc_env \<Rightarrow> ustr \<Rightarrow> transport_message \<Rightarrow> svc_world \<Rightarrow> svc_world" where
  "send_stdio_message E endpoint msg w =
     (case map_of (sw_writers w) endpoint of None \<Rightarrow> w
      | Some xs \<Rightarrow>
          (case send_writers E msg xs w of
             (kept, w) \<Rightarrow> w\<lparr>sw_writers := if kept = [] then AList.delete endpoint (sw_writers w)
                                          else AList.update endpoint kept (sw_writers w)\<rparr>))"

definition event_message :: "svc_env \<Rightarrow> flow_event \<Rightarrow> transport_message" where
  "event_message E ev =
     \<lparr>tp_type = (case fe_type ev of Facet \<Rightarrow> ''facet'' | Impulse \<Rightarrow> ''impulse''),
      tp_payload = Some (payload_from_json (se_lib E) (Some (fe_payload ev))), tp_branch = None, tp_name = Some (fe_name ev),
      tp_action = (if fe_action ev = Revert then ''remove'' else ''set'')\<rparr>"

fun broadcast_writers ::
  "svc_env \<Rightarrow> transport_message \<Rightarrow> (ustr \<times> nat list) list \<Rightarrow> svc_world \<Rightarrow> (ustr \<times> nat list) list \<times> svc_world" where
  "broadcast_writers E msg [] w = ([], w)"
| "broadcast_writers E msg ((endpoint, xs) # rest) w =
     (case send_writers E msg xs w of
        (kept, w) \<Rightarrow>
          (case broadcast_writers E msg rest w of
             (rest, w) \<Rightarrow> (if kept = [] then rest else (endpoint, kept) # rest, w)))"

definition broadcast_stdio_event :: "svc_env \<Rightarrow> flow_event \<Rightarrow> svc_world \<Rightarrow> svc_world" where
  "broadcast_stdio_event E ev w =
     (case broadcast_writers E (event_message E ev) (sw_writers w) w of (ws, w) \<Rightarrow> w\<lparr>sw_writers := ws\<rparr>)"

text \<open>
  Messages read from the services are handed to the transport with the id of the user the child runs
  as, according to the permission store in the scope of the call; an unknown one is \<open>0\<close>.
\<close>

definition stdio_uid :: "svc_env \<Rightarrow> ustr option \<Rightarrow> u32" where
  "stdio_uid E user =
     (case user of None \<Rightarrow> 0
      | Some u \<Rightarrow>
          (case Option.bind (se_scope_perms E) (\<lambda>pm. lookup_by_name (ps_users pm) u) of Some r \<Rightarrow> ur_uid r | None \<Rightarrow> 0))"

definition ingest_message :: "svc_env \<Rightarrow> ustr \<times> transport_message \<times> nat \<Rightarrow> svc_world \<Rightarrow> svc_world" where
  "ingest_message E m w =
     (case m of (name, msg, index) \<Rightarrow>
       (case one_service E ''*'' name (sw_inst w) of
          Inl _ \<Rightarrow> w
        | Inr s \<Rightarrow>
            if index < length (sv_instances s)
            then emit_all [EDispatch (TpIngest name (stdio_uid E (ci_user (sv_instances s ! index))) msg)] w
            else maybe_unregister_service_transport s name w))"

definition drain_events :: "svc_env \<Rightarrow> flow_event option \<Rightarrow> svc_world \<Rightarrow> svc_world" where
  "drain_events E event w =
     (let w = (case event of Some ev \<Rightarrow> broadcast_stdio_event E ev w | None \<Rightarrow> w)
      in fold (ingest_message E) (sw_stdio w) (w\<lparr>sw_stdio := []\<rparr>))"

section \<open>The messages of the service runtime\<close>

definition services_handle ::
  "svc_env \<Rightarrow> (start_args \<Rightarrow> svc_world \<Rightarrow> svc_world run) \<Rightarrow> svc_cmd \<Rightarrow> svc_world \<Rightarrow> svc_world run" where
  "services_handle E rec cmd w =
     (case cmd of
        SvcStart a \<Rightarrow> rec a w
      | SvcStop name force only_user \<Rightarrow> Some (svc_stop E name force None only_user w)
      | SvcReconcile service action \<Rightarrow> reconcile_stacks E rec service action w
      | SvcChildExited pid code \<Rightarrow> child_exited E rec pid code w
      | SvcTimeoutSweep \<Rightarrow> Some (Inr (), timeout_sweep E w)
      | SvcBootstrap \<Rightarrow> map_option (Pair (Inr ())) (rebuild_trigger_index E w)
      | SvcStartAll \<Rightarrow> start_all E rec w
      | SvcStopAll force keys \<Rightarrow> Some (svc_stop_all E keys force w)
      | SvcStopForScope scope \<Rightarrow> Some (svc_stop_for_scope E scope w)
      | SvcEvaluate t scope \<Rightarrow> evaluate_triggers E rec t scope w
      | SvcDrain event \<Rightarrow> Some (Inr (), drain_events E event w)
      | SvcSendStdio endpoint msg \<Rightarrow> Some (Inr (), send_stdio_message E endpoint msg w)
      | SvcWatchdogPing service branch \<Rightarrow> Some (Inr (), watchdog_ping E service branch w)
      | SvcWatchdogExpired fd \<Rightarrow> watchdog_expired E rec fd w
      | _ \<Rightarrow> Some (Inr (), w))"

section \<open>Requests over IPC\<close>

record ss_payload =
  ss_name :: string
  ss_force :: bool
  ss_persist :: bool

definition perm_system_services :: u16 where "perm_system_services = 1000"

text \<open>Permission checks may not return; \<open>fuel\<close> is theirs.\<close>

definition holds_named :: "nat \<Rightarrow> perm_store \<Rightarrow> u32 \<Rightarrow> ustr \<Rightarrow> bool option" where
  "holds_named fuel pm uid name = (case from_name pm name of None \<Rightarrow> Some False | Some p \<Rightarrow> user_has fuel pm uid p)"

definition can_manage ::
  "nat \<Rightarrow> perm_store \<Rightarrow> u32 \<Rightarrow> service_meta option \<Rightarrow> bool option" where
  "can_manage fuel pm uid svc =
     (case (if uid = 0 then Some True else user_has fuel pm uid perm_system_services) of
        None \<Rightarrow> None
      | Some True \<Rightarrow> Some True
      | Some False \<Rightarrow>
          (case (lookup_by_uid (ps_users pm) uid, svc) of
             (Some caller, Some m) \<Rightarrow>
               (case sm_managed_by m of
                  Some perms \<Rightarrow> any_opt (holds_named fuel pm uid) perms
                | None \<Rightarrow>
                    Some (case sm_space m of
                            SpaceUser \<Rightarrow> True | SpaceSelective user \<Rightarrow> user = ur_username caller | SpaceSystem \<Rightarrow> False))
           | _ \<Rightarrow> Some False))"

definition request_user :: "nat \<Rightarrow> perm_store \<Rightarrow> u32 \<Rightarrow> ustr option option" where
  "request_user fuel pm uid =
     (if uid = 0 then Some None
      else (case user_has fuel pm uid perm_system_services of
              None \<Rightarrow> None
            | Some True \<Rightarrow> Some None
            | Some False \<Rightarrow> Some (map_option ur_username (lookup_by_uid (ps_users pm) uid))))"

definition handle_ipc ::
  "nat \<Rightarrow> svc_env \<Rightarrow> perm_store \<Rightarrow> (ss_payload \<Rightarrow> ustr option \<Rightarrow> svc_cmd list) \<Rightarrow> ss_payload result \<Rightarrow> u32 option \<Rightarrow>
   (unit result \<times> svc_cmd list) option" where
  "handle_ipc fuel E pm cmds payload from_uid =
     (case payload of Inl e \<Rightarrow> Some (Inl e, [])
      | Inr p \<Rightarrow>
          (case from_uid of None \<Rightarrow> Some (Inl PermissionDenied, [])
           | Some uid \<Rightarrow>
               (case can_manage fuel pm uid (find_meta E (ss_name p)) of
                  None \<Rightarrow> None
                | Some False \<Rightarrow> Some (Inl PermissionDenied, [])
                | Some True \<Rightarrow> map_option (\<lambda>user. (Inr (), cmds p user)) (request_user fuel pm uid))))"

definition handle_ipc_start ::
  "nat \<Rightarrow> svc_env \<Rightarrow> perm_store \<Rightarrow> ss_payload result \<Rightarrow> u32 option \<Rightarrow> (unit result \<times> svc_cmd list) option" where
  "handle_ipc_start fuel E pm =
     handle_ipc fuel E pm (\<lambda>p user. SvcStart ((start_named (ss_name p))\<lparr>ar_only_user := user\<rparr>) #
       (if ss_persist p then [FlowSetFacet ''rind:active'' (JStr (ss_name p))] else []))"

definition handle_ipc_stop ::
  "nat \<Rightarrow> svc_env \<Rightarrow> perm_store \<Rightarrow> ss_payload result \<Rightarrow> u32 option \<Rightarrow> (unit result \<times> svc_cmd list) option" where
  "handle_ipc_stop fuel E pm =
     handle_ipc fuel E pm (\<lambda>p user. SvcStop (ss_name p) (ss_force p) user #
       (if ss_persist p then [FlowRemoveFacet ''rind:active'' (JStr (ss_name p))] else []))"

end
