(* ===== verification/ServiceFacts.thy ===== *)
theory ServiceFacts
  imports Services
begin

text \<open>
  Facts on the service runtime of \<open>Services\<close>: that every message is handled in bounded
  recursion when the \<open>after\<close> lists have no cycle, and that what holds of every child that is
  spawned and is kept by the changes of a child holds in every reachable state.
\<close>

section \<open>Recursion through dependents\<close>

definition all_services :: "svc_env \<Rightarrow> (ustr \<times> service_meta) list" where
  "all_services E = concat (map (\<lambda>(_, m). service_items (grouped_items tid_service m)) (mr_metadata (se_meta E)))"

definition after_edges :: "svc_env \<Rightarrow> (ustr \<times> ustr) list" where
  "after_edges E = concat (map (\<lambda>(grp, m). map (\<lambda>a. (a, instance_key_name (unit_full_name grp m)))
     (case sm_after m of Some as \<Rightarrow> as | None \<Rightarrow> [])) (all_services E))"

lemma dependents_edge:
  assumes "(d, m) \<in> set (dependents_of E x)"
  shows "(x, instance_key_name d) \<in> set (after_edges E)"
proof -
  from assms obtain grp where s: "(grp, m) \<in> set (all_services E)" and d: "d = unit_full_name grp m"
    and x: "case sm_after m of Some deps \<Rightarrow> x \<in> set deps | None \<Rightarrow> False"
    by (auto simp: dependents_of_def all_services_def)
  from x obtain as where "sm_after m = Some as" "x \<in> set as" by (auto split: option.splits)
  with s d show ?thesis unfolding after_edges_def by (auto intro!: bexI [OF _ s])
qed

lemma split_char_hd: "\<exists>ps. split_char c s = takeWhile (\<lambda>x. x \<noteq> c) s # ps"
proof (induction s)
  case (Cons x s)
  then obtain ps where "split_char c s = takeWhile (\<lambda>x. x \<noteq> c) s # ps" by blast
  then show ?case by simp
qed simp

lemma instance_key_name_takeWhile: "instance_key_name s = takeWhile (\<lambda>c. c \<noteq> CHR ''@'') s"
  using split_char_hd [of "CHR ''@''" s] by (auto simp: instance_key_name_def)

lemma instance_key_name_scoped: "instance_key_name (ensure_scoped_name s) = instance_key_name s"
proof (cases "CHR ''@'' \<in> set s")
  case False
  then have "\<forall>c \<in> set s. c \<noteq> CHR ''@''" by auto
  then have "takeWhile (\<lambda>c. c \<noteq> CHR ''@'') (s @ ''@static'') = s" "takeWhile (\<lambda>c. c \<noteq> CHR ''@'') s = s"
    by (simp_all add: takeWhile_append2 takeWhile_eq_all_conv)
  with False show ?thesis by (simp only: instance_key_name_takeWhile ensure_scoped_name_def if_False)
qed (simp add: ensure_scoped_name_def)

definition rank :: "svc_env \<Rightarrow> ustr \<Rightarrow> nat" where
  "rank E x = card ((set (after_edges E))\<^sup>+ `` {x})"

lemma reached_services: "(set (after_edges E))\<^sup>+ `` {x} \<subseteq> set (map (\<lambda>(grp, m). instance_key_name (unit_full_name grp m)) (all_services E))"
proof -
  have "snd ` set (after_edges E) \<subseteq> set (map (\<lambda>(grp, m). instance_key_name (unit_full_name grp m)) (all_services E))"
    by (force simp: after_edges_def)
  moreover have "(x, y) \<in> (set (after_edges E))\<^sup>+ \<Longrightarrow> y \<in> snd ` set (after_edges E)" for y
    by (erule tranclE) force+
  ultimately show ?thesis by blast
qed

lemma rank_bound: "rank E x \<le> length (all_services E)"
proof -
  let ?names = "map (\<lambda>(grp, m). instance_key_name (unit_full_name grp m)) (all_services E)"
  have "rank E x \<le> card (set ?names)" unfolding rank_def by (rule card_mono [OF _ reached_services]) simp
  also have "\<dots> \<le> length ?names" by (rule card_length)
  finally show ?thesis by simp
qed

lemma rank_decreases:
  assumes "acyclic (set (after_edges E))" "(x, y) \<in> set (after_edges E)"
  shows "rank E y < rank E x"
  unfolding rank_def
proof (rule psubset_card_mono)
  show "finite ((set (after_edges E))\<^sup>+ `` {x})" by (rule finite_subset [OF reached_services]) simp
  have "y \<notin> (set (after_edges E))\<^sup>+ `` {y}" using assms(1) by (simp add: acyclic_def)
  with assms(2) show "(set (after_edges E))\<^sup>+ `` {y} \<subset> (set (after_edges E))\<^sup>+ `` {x}"
    by (auto dest: trancl_into_trancl2)
qed

text \<open>The recursive call is made on the dependents only, so what agrees on them gives the same.\<close>

lemma start_dependents_cong:
  "(\<And>d m w. (d, m) \<in> set ds \<Longrightarrow> rec (start_named d) w = rec' (start_named d) w) \<Longrightarrow>
   start_dependents E rec ds w = start_dependents E rec' ds w"
proof (induction ds arbitrary: w)
  case (Cons x ds)
  obtain d m where x: "x = (d, m)" by (cases x)
  have "rec (start_named d) w = rec' (start_named d) w" for w by (rule Cons.prems [of d m]) (simp add: x)
  moreover have "start_dependents E rec ds w = start_dependents E rec' ds w" for w
  proof (rule Cons.IH)
    fix d m w assume "(d, m) \<in> set ds"
    then show "rec (start_named d) w = rec' (start_named d) w" by (intro Cons.prems [of d m]) simp
  qed
  ultimately show ?case by (simp add: x and_then_def split: option.split sum.split)
qed simp

lemma start_dependents_returns:
  "(\<And>d m w. (d, m) \<in> set ds \<Longrightarrow> rec (start_named d) w \<noteq> None) \<Longrightarrow> start_dependents E rec ds w \<noteq> None"
proof (induction ds arbitrary: w)
  case (Cons x ds)
  obtain d m where x: "x = (d, m)" by (cases x)
  have "rec (start_named d) w \<noteq> None" for w by (rule Cons.prems [of d m]) (simp add: x)
  moreover have "start_dependents E rec ds w \<noteq> None" for w
  proof (rule Cons.IH)
    fix d m w assume "(d, m) \<in> set ds"
    then show "rec (start_named d) w \<noteq> None" by (intro Cons.prems [of d m]) simp
  qed
  ultimately show ?case by (simp add: x and_then_returns del: not_None_eq)
qed simp

lemma reconcile_cong:
  "(\<And>d m w. (d, m) \<in> set (dependents_of E (instance_key_name name)) \<Longrightarrow> rec (start_named d) w = rec' (start_named d) w) \<Longrightarrow>
   reconcile E rec name action w = reconcile E rec' name action w"
  unfolding reconcile_def reconcile_stacks_def Let_def by (simp cong: start_dependents_cong)

lemma reconcile_returns:
  "(\<And>d m w. (d, m) \<in> set (dependents_of E (instance_key_name name)) \<Longrightarrow> rec (start_named d) w \<noteq> None) \<Longrightarrow>
   reconcile_stacks E rec name action w \<noteq> None \<and> reconcile E rec name action w \<noteq> None"
proof -
  assume rec: "\<And>d m w. (d, m) \<in> set (dependents_of E (instance_key_name name)) \<Longrightarrow> rec (start_named d) w \<noteq> None"
  have "start_dependents E rec (dependents_of E (instance_key_name name)) w \<noteq> None" for w
    by (rule start_dependents_returns) (rule rec)
  then have "reconcile_stacks E rec name action w \<noteq> None" for w by (simp add: reconcile_stacks_def Let_def del: not_None_eq)
  then show ?thesis by (simp add: reconcile_def and_then_returns del: not_None_eq)
qed

lemma closure_name:
  "start_closure E a sockets facets vh w = (Inr (Some (name, False)), w') \<Longrightarrow> name = ensure_scoped_name (ar_name a)"
  by (auto simp: start_closure_def spawn_branch_def spawn_for_user_def Let_def
      split: prod.splits sum.splits option.splits if_splits)

lemma singletons_result:
  "with_singletons keys f w = (Inr r, w') \<Longrightarrow> \<exists>xs v v'. f xs v = (Inr r, v')"
  by (auto simp: with_singletons_def split: if_splits prod.splits sum.splits)

lemma start_body_cong:
  assumes "\<And>d m w. (d, m) \<in> set (dependents_of E (instance_key_name (ar_name a))) \<Longrightarrow> rec (start_named d) w = rec' (start_named d) w"
  shows "start_body E rec a w = start_body E rec' a w"
proof -
  have "reconcile E rec (ensure_scoped_name (ar_name a)) EvStarted w = reconcile E rec' (ensure_scoped_name (ar_name a)) EvStarted w" for w
    using assms by (intro reconcile_cong) (simp add: instance_key_name_scoped)
  then show ?thesis
    unfolding start_body_def Let_def
    by (auto split: prod.split sum.split option.split bool.split dest!: singletons_result closure_name)
qed

lemma start_body_returns:
  assumes "\<And>d m w. (d, m) \<in> set (dependents_of E (instance_key_name (ar_name a))) \<Longrightarrow> rec (start_named d) w \<noteq> None"
  shows "start_body E rec a w \<noteq> None"
proof -
  have "reconcile E rec (ensure_scoped_name (ar_name a)) EvStarted w \<noteq> None" for w
    using assms reconcile_returns [of E "ensure_scoped_name (ar_name a)" rec] by (simp add: instance_key_name_scoped)
  then show ?thesis
    unfolding start_body_def Let_def
    by (auto split: prod.split sum.split option.split bool.split dest!: singletons_result closure_name)
qed

lemma svc_start_returns:
  assumes "acyclic (set (after_edges E))"
  shows "rank E (instance_key_name (ar_name a)) < n \<Longrightarrow> svc_start n E a w \<noteq> None"
proof (induction n arbitrary: a w)
  case (Suc n)
  have "svc_start n E (start_named d) w \<noteq> None"
    if "(d, m) \<in> set (dependents_of E (instance_key_name (ar_name a)))" for d m w
    using rank_decreases [OF assms dependents_edge [OF that]] Suc.prems by (intro Suc.IH) (simp add: start_named_def)
  then show ?case using start_body_returns [of E a "svc_start n E"] by simp
qed simp

lemma svc_start_fuel:
  assumes "acyclic (set (after_edges E))"
  shows "rank E (instance_key_name (ar_name a)) < n \<Longrightarrow> rank E (instance_key_name (ar_name a)) < k \<Longrightarrow>
    svc_start n E a w = svc_start k E a w"
proof (induction n arbitrary: k a w)
  case (Suc n)
  obtain j where k: "k = Suc j" using Suc.prems(2) by (cases k) auto
  have "svc_start n E (start_named d) w = svc_start j E (start_named d) w"
    if "(d, m) \<in> set (dependents_of E (instance_key_name (ar_name a)))" for d m w
    using rank_decreases [OF assms dependents_edge [OF that]] Suc.prems k by (intro Suc.IH) (simp_all add: start_named_def)
  then show ?case unfolding k svc_start.simps by (rule start_body_cong)
qed simp


text \<open>Every other handler makes the recursive call a bounded number of times.\<close>

definition conditions_named :: "svc_env \<Rightarrow> bool" where
  "conditions_named E \<longleftrightarrow> list_all (\<lambda>(key, m). interests_of m \<noteq> None) (indexed_services E)"

lemma index_services_returns: "list_all (\<lambda>(key, m). interests_of m \<noteq> None) xs \<Longrightarrow> index_services xs ix \<noteq> None"
  by (induction xs ix rule: index_services.induct) (auto split: option.split simp del: not_None_eq)

lemma rebuild_returns: "conditions_named E \<Longrightarrow> rebuild_trigger_index E w \<noteq> None"
  using index_services_returns by (simp add: rebuild_trigger_index_def conditions_named_def del: not_None_eq)

lemma start_first_returns: "(\<And>a w. rec a w \<noteq> None) \<Longrightarrow> start_first E rec xs started pend w \<noteq> None"
  by (induction E rec xs started pend w rule: start_first.induct)
    (simp_all add: start_unless_up_def del: not_None_eq split: option.split sum.split prod.split)

lemma start_pass_returns: "(\<And>a w. rec a w \<noteq> None) \<Longrightarrow> start_pass E rec pend started w \<noteq> None"
  by (induction E rec pend started w rule: start_pass.induct)
    (simp_all add: start_unless_up_def del: not_None_eq split: option.split sum.split prod.split)

lemma start_rounds_returns:
  "(\<And>a w. rec a w \<noteq> None) \<Longrightarrow> length pend < n \<Longrightarrow> start_rounds n E rec pend started w \<noteq> None"
proof (induction n arbitrary: pend started w)
  case (Suc n)
  obtain kept started' w' where "start_pass E rec pend started w = Some (kept, started', w')"
    using start_pass_returns [of rec E pend started w] Suc.prems(1) by (metis not_None_eq prod_cases3)
  moreover have "length kept < length pend \<Longrightarrow> start_rounds n E rec kept started' w' \<noteq> None"
    using Suc.prems by (intro Suc.IH) simp_all
  ultimately show ?case by (simp del: not_None_eq)
qed simp

lemma start_all_returns: "(\<And>a w. rec a w \<noteq> None) \<Longrightarrow> start_all E rec w \<noteq> None"
  using start_first_returns [of rec E] start_rounds_returns [of rec]
  by (simp add: start_all_def del: not_None_eq start_rounds.simps split: option.split sum.split prod.split)

lemma services_handle_returns:
  assumes "\<And>a w. rec a w \<noteq> None" "conditions_named E"
  shows "services_handle E rec cmd w \<noteq> None"
proof -
  have "reconcile_stacks E rec n act w \<noteq> None" "reconcile E rec n act w \<noteq> None" for n act w
    using reconcile_returns [of E n rec] assms(1) by blast+
  moreover have "start_targets rec xs w \<noteq> None" for xs w
    unfolding start_targets_def by (rule steps_returns) (use assms(1) in \<open>auto simp del: not_None_eq\<close>)
  ultimately show ?thesis
    using assms(1) rebuild_returns [OF assms(2)] start_all_returns [OF assms(1)]
    by (cases cmd)
      (simp_all add: services_handle_def child_exited_def evaluate_triggers_def watchdog_expired_def and_then_returns Let_def
        split: option.split sum.split prod.split exit_action.split watchdog_action.split del: not_None_eq)
qed


section \<open>A configuration to try things on\<close>

definition plain_run :: run_option where
  "plain_run = \<lparr>ro_exec = ''/bin/x'', ro_args = [], ro_env = None, ro_variable = None, ro_executor = None, ro_files = None\<rparr>"

definition plain_service :: "ustr \<Rightarrow> service_meta" where
  "plain_service name = \<lparr>sm_name = name, sm_run = RunOne plain_run, sm_after = None, sm_type = TypeFork, sm_start_on = None,
     sm_stop_on = None, sm_on_start = None, sm_on_stop = None, sm_working_dir = None, sm_space = SpaceSystem, sm_options = None,
     sm_singleton = False, sm_cleanup = False, sm_user_source = None, sm_transport = None, sm_branching = None, sm_restart = None,
     sm_managed_by = None, sm_cgroup = None, sm_namespaces = None, sm_watchdog = None\<rparr>"

definition demo_units :: "unit_item list \<Rightarrow> (toml, unit_item) metadata_registry" where
  "demo_units us = \<lparr>mr_metadata = [(''static'', \<lparr>me_name = ''static'', me_name_to_type = Map.empty, me_parsers = Map.empty,
       me_values = [(''g'', [mt_meta tid_service \<mapsto> AnyItems (mt_meta tid_service) us])]\<rparr>)],
     mr_indexes = [(mt_id tid_service, Map.empty)], mr_stoppers = Map.empty\<rparr>"

definition demo_svc :: "service_meta list \<Rightarrow> svc_env" where
  "demo_svc ms = \<lparr>se_meta = demo_units (map UService ms), se_lib = demo_lib, se_utf8 = (\<lambda>_. None), se_toml_json = (\<lambda>_. None),
     se_toml_print = (\<lambda>_. []), se_decode_file = (\<lambda>_. None), se_environment = Map.empty, se_scopes = ss_default, se_actions = None,
     se_executors = [''native'' \<mapsto> ExNative, ''remote'' \<mapsto> ExRemote, ''ima'' \<mapsto> ExIma],
     se_users = Inl UnknownError, se_env_file = (\<lambda>_. []), se_command = (\<lambda>n _. Inr (ProcessHandle (of_nat (100 + n)))),
     se_supervised = (\<lambda>_ _ _. Inl UnknownError), se_remote = (\<lambda>_ _. None), se_wait = (\<lambda>_ _. None), se_path_exists = (\<lambda>_ _. False),
     se_file_error = (\<lambda>_ _. None), se_cgroup_error = (\<lambda>_ _ _. None), se_timerfd = (\<lambda>n. Inr (of_nat n)), se_writer_alive = (\<lambda>_ _. True),
     se_errno_text = (\<lambda>_. []), se_scope_perms = None\<rparr>"

definition world_with :: "facet_map \<Rightarrow> svc_world" where
  "world_with facets = \<lparr>sw_inst = [graph_key \<mapsto> [(tid_graph, IGraph \<lparr>fg_facets = facets, fg_scoped = []\<rparr>)],
       vars_key \<mapsto> [(tid_vars, IVars vh_new)]],
     sw_pid_map = Map.empty, sw_stopping = [], sw_index = [], sw_wfds = [], sw_wpids = Map.empty, sw_writers = [], sw_stdio = [],
     sw_res = rs_default, sw_out = [], sw_calls = 0, sw_now = 0\<rparr>"

definition quiet_world :: svc_world where "quiet_world = world_with []"

text \<open>\<open>b\<close> waits for \<open>a\<close>.\<close>

definition waiting_pair :: svc_env where
  "waiting_pair = demo_svc [plain_service ''a'', (plain_service ''b'')\<lparr>sm_after := Some [''g:a'']\<rparr>]"

definition pids_of :: "svc_env \<Rightarrow> ustr \<Rightarrow> svc_world \<Rightarrow> (u32 option \<times> service_state) list" where
  "pids_of E n w = (case one_service E ''*'' n (sw_inst w) of
     Inr s \<Rightarrow> map (\<lambda>c. (ci_pid c, ci_state c)) (sv_instances s) | Inl _ \<Rightarrow> [])"

lemma waiting_pair_starts:
  "map_option (\<lambda>(r, w). (r, pids_of waiting_pair ''g:a'' w, pids_of waiting_pair ''g:b'' w))
     (svc_start 4 waiting_pair (start_named ''g:a'') quiet_world) =
   Some (Inr (), [(Some 100, SActive)], [(Some 101, SActive)])"
  by code_simp

section \<open>Every message is handled\<close>

text \<open>
  C4. When no service waits, through \<open>after\<close>, for itself and every condition names a facet or an
  impulse, every message of the service runtime is handled: the depth of the recursion is bounded by
  the number of services, and any larger fuel gives the same.
\<close>

theorem services_return:
  assumes "acyclic (set (after_edges E))" "conditions_named E" "length (all_services E) < n"
  shows "services_handle E (svc_start n E) cmd w \<noteq> None
    \<and> services_handle E (svc_start (n + k) E) cmd w = services_handle E (svc_start n E) cmd w"
proof -
  have rank: "rank E x < n" for x using rank_bound [of E x] assms(3) by simp
  have "svc_start n E a v \<noteq> None" for a v using svc_start_returns [OF assms(1)] rank by blast
  moreover have "svc_start (n + k) E = svc_start n E"
    using svc_start_fuel [OF assms(1)] rank trans_less_add1 by (intro ext) blast
  ultimately show ?thesis using services_handle_returns [of "svc_start n E", OF _ assms(2)] by simp
qed

lemma services_return_witness:
  "services_handle waiting_pair (svc_start 3 waiting_pair) (SvcStart (start_named ''g:a'')) quiet_world \<noteq> None"
proof -
  have "after_edges waiting_pair = [(''g:a'', ''g:b'')]" by code_simp
  moreover have "acyclic {(''g:a'', ''g:b'')}" by (simp add: acyclic_insert wf_acyclic)
  moreover have "conditions_named waiting_pair" "length (all_services waiting_pair) = 2" by code_simp+
  ultimately show ?thesis
    using services_return [of waiting_pair 3 "SvcStart (start_named ''g:a'')" quiet_world 0] by (simp del: not_None_eq)
qed

end
