(* ===== verification/ServiceInv.thy ===== *)
theory ServiceInv
  imports ServiceFacts
begin

text \<open>
  What every message of the service runtime keeps. A locale says what a property of the state, and one
  of the children, must be kept by; then every handler keeps them. Its instances are the restart
  counters and the registrations of the watchdogs.
\<close>

section \<open>The state between messages\<close>

text \<open>
  Between two messages time passes, services write to their standard output, and the event loop brings
  the epoll set in line with the resources.
\<close>

inductive svc_step :: "svc_env \<Rightarrow> nat \<Rightarrow> svc_world \<Rightarrow> svc_world \<Rightarrow> bool" for E n where
  svc_message: "services_handle E (svc_start n E) cmd w = Some (r, w') \<Longrightarrow> svc_step E n w w'"
| svc_time: "sw_now w \<le> t \<Longrightarrow> svc_step E n w (w\<lparr>sw_now := t\<rparr>)"
| svc_pump: "svc_step E n w (w\<lparr>sw_res := fst (pump_sync fails (sw_res w, ep))\<rparr>)"
| svc_written: "svc_step E n w (w\<lparr>sw_stdio := sw_stdio w @ [m]\<rparr>)"

definition svc_reach :: "svc_env \<Rightarrow> nat \<Rightarrow> svc_world \<Rightarrow> svc_world \<Rightarrow> bool" where
  "svc_reach E n = (svc_step E n)\<^sup>*\<^sup>*"

definition children_satisfy :: "(child_instance \<Rightarrow> bool) \<Rightarrow> sv_inst instance_map \<Rightarrow> bool" where
  "children_satisfy P inst \<longleftrightarrow>
     (\<forall>key bs t s. inst key = Some bs \<longrightarrow> (t, IService s) \<in> set bs \<longrightarrow> list_all P (sv_instances s))"

definition boxes_ok :: "(child_instance \<Rightarrow> bool) \<Rightarrow> sv_inst boxed list \<Rightarrow> bool" where
  "boxes_ok P bs \<longleftrightarrow> (\<forall>t s. (t, IService s) \<in> set bs \<longrightarrow> list_all P (sv_instances s))"

lemma children_satisfy_boxes: "children_satisfy P inst \<longleftrightarrow> (\<forall>key bs. inst key = Some bs \<longrightarrow> boxes_ok P bs)"
  by (auto simp: children_satisfy_def boxes_ok_def)

lemma boxes_ok_simps [simp]:
  "boxes_ok P []" "boxes_ok P ((t, IService s) # bs) = (list_all P (sv_instances s) \<and> boxes_ok P bs)"
  "boxes_ok P (bs @ bs') = (boxes_ok P bs \<and> boxes_ok P bs')"
  by (auto simp: boxes_ok_def)

lemma boxes_ok_Cons: "boxes_ok P (b # bs) \<longleftrightarrow> boxes_ok P [b] \<and> boxes_ok P bs"
  by (auto simp: boxes_ok_def)

lemma boxes_ok_subset: "boxes_ok P bs \<Longrightarrow> set bs' \<subseteq> set bs \<Longrightarrow> boxes_ok P bs'"
  by (auto simp: boxes_ok_def)

lemma box_service: "downcast t b = Some (IService s) \<Longrightarrow> boxes_ok P [b] \<Longrightarrow> list_all P (sv_instances s)"
  by (cases b) (auto simp: downcast_def split: if_splits)

lemma children_update: "children_satisfy P inst \<Longrightarrow> boxes_ok P bs \<Longrightarrow> children_satisfy P (inst(key \<mapsto> bs))"
  by (auto simp: children_satisfy_boxes)

lemma children_drop: "children_satisfy P inst \<Longrightarrow> children_satisfy P (inst(key := None))"
  by (auto simp: children_satisfy_boxes)

lemma take_lists_children:
  "take_lists keys inst = (r, inst') \<Longrightarrow> children_satisfy P inst \<Longrightarrow>
   children_satisfy P inst' \<and> (\<forall>ls. r = Inr ls \<longrightarrow> list_all (boxes_ok P) ls)"
proof (induction keys inst arbitrary: r inst' rule: take_lists.induct)
  case (2 k t ks inst)
  show ?case
  proof (cases "inst k")
    case (Some l)
    obtain r' inst'' where t: "take_lists ks (inst(k := None)) = (r', inst'')" by (cases "take_lists ks (inst(k := None))")
    have "children_satisfy P (inst(k := None))" using 2(3) by (rule children_drop)
    from 2(1) [OF Some t this] 2(2,3) Some t show ?thesis
      by (auto simp: children_satisfy_boxes split: sum.splits)
  qed (use 2 in auto)
qed auto

lemma first_values_boxed: "first_values n keys ls = Inr xs \<Longrightarrow> list_all (boxes_ok P) ls \<Longrightarrow> list_all (\<lambda>x. boxes_ok P [(0, x)]) xs"
proof (induction n keys ls arbitrary: xs rule: first_values.induct)
  case (1 n k t ks l ls)
  then show ?case
    by (auto simp: boxes_ok_def downcast_def split: list.splits option.splits if_splits sum.splits)
qed auto

lemma put_lists_children:
  "children_satisfy P inst \<Longrightarrow> list_all (boxes_ok P) ls \<Longrightarrow> list_all (\<lambda>x. boxes_ok P [(0, x)]) xs \<Longrightarrow>
   children_satisfy P (put_lists keys ls xs inst)"
proof (induction keys ls xs inst rule: put_lists.induct)
  case (1 k t ks l ls x xs inst)
  have "boxes_ok P (tl l)" using 1(3) by (cases l) (auto intro: boxes_ok_subset)
  moreover have "boxes_ok P [(t, x)]" using 1(4) by (auto simp: boxes_ok_def)
  ultimately have "children_satisfy P (inst(k \<mapsto> (t, x) # tl l))"
    using 1(2) children_update boxes_ok_Cons by blast
  moreover have "list_all (boxes_ok P) ls" "list_all (\<lambda>x. boxes_ok P [(0, x)]) xs" using 1(3,4) by simp_all
  ultimately show ?case unfolding put_lists.simps by (rule 1(1))
qed auto


section \<open>What all operations keep\<close>

text \<open>What spawning a process keeps needs no more than this.\<close>

locale spawn_invariant =
  fixes E :: svc_env and I :: "svc_world \<Rightarrow> bool" and P :: "child_instance \<Rightarrow> bool"
  assumes out: "I w \<Longrightarrow> I (emit_all es w)"
    and calls: "I w \<Longrightarrow> I (w\<lparr>sw_calls := k\<rparr>)"
    and now: "I w \<Longrightarrow> I (w\<lparr>sw_now := k\<rparr>)"
    and pids: "I w \<Longrightarrow> I (w\<lparr>sw_pid_map := pm\<rparr>)"
    and stopping: "I w \<Longrightarrow> I (w\<lparr>sw_stopping := st\<rparr>)"
    and index: "I w \<Longrightarrow> I (w\<lparr>sw_index := ix\<rparr>)"
    and writers: "I w \<Longrightarrow> I (w\<lparr>sw_writers := ws\<rparr>)"
    and stdio: "I w \<Longrightarrow> I (w\<lparr>sw_stdio := ms\<rparr>)"
    and arm: "I w \<Longrightarrow> I (snd (arm_watchdog_timer E key branch user pid wd w))"
    and disarm: "I w \<Longrightarrow> I (disarm_watchdog_pid pid w)"
    and new_child: "P (child_new name user h)"
begin

lemmas spawn_frame [simp] = out calls now pids stopping index writers stdio arm disarm new_child

lemma ticked [simp]: "I w \<Longrightarrow> I (tick w)" by (simp add: tick_def)

lemma triggers [simp]: "I w \<Longrightarrow> I (run_triggers E ts sm w)" by (simp add: run_triggers_def split: option.split)

lemma signalled [simp]: "I w \<Longrightarrow> I (signal_handle h s w)" by (simp add: signal_handle_def split: svc_handle.split)

lemma streams [simp]: "I w \<Longrightarrow> I (attach_streams s key w)" by (simp add: attach_streams_def Let_def)

lemma cgroup [simp]: "I w \<Longrightarrow> I (snd (setup_cgroup_for_pid E cg p pid w))"
  by (simp add: setup_cgroup_for_pid_def split: option.split)

lemma one_file [simp]: "I w \<Longrightarrow> I (snd (prepare_file E first f w))"
  by (simp add: prepare_file_def Let_def split: sum.split prod.split option.split)

lemma all_files [simp]: "I w \<Longrightarrow> I (snd (prepare_files E first fs w))"
proof (induction fs arbitrary: w)
  case (Cons f fs)
  then have "I (snd (prepare_file E first f w))" by simp
  with Cons.IH show ?case by (auto split: prod.split sum.split)
qed simp

lemma native [simp]: "I w \<Longrightarrow> I (snd (native_spawn E ctx w))"
proof -
  have f: "I v'" if "prepare_files E first fs v = (r, v')" "I v" for first fs v r v' using all_files [OF that(2), of first fs] that(1) by simp
  assume "I w"
  then show ?thesis by (auto simp: native_spawn_def Let_def split: prod.split sum.split option.split dest!: f)
qed

lemma executed [simp]: "I w \<Longrightarrow> I (snd (executor_spawn E ex ctx w))"
  by (simp add: executor_spawn_def split: executor.split option.split)

lemma adopted [simp]: "I w \<Longrightarrow> I (snd (adopt_handle E ctx h w))"
proof -
  have c: "I v'" if "setup_cgroup_for_pid E cg p pid v = (r, v')" "I v" for cg p pid v r v'
    using cgroup [OF that(2), of cg p pid] that(1) by simp
  assume "I w"
  then show ?thesis by (auto simp: adopt_handle_def Let_def split: prod.split sum.split option.split dest!: c)
qed

lemma spawned_process:
  assumes "spawn_process E s run ctx sockets sm vh key mounts w = (r, w')" "I w"
  shows "I w' \<and> (\<forall>c. r = Inr c \<longrightarrow> P c)"
proof -
  have x: "I v'" if "executor_spawn E ex c v = (r, v')" "I v" for ex c v r v' using executed [OF that(2), of ex c] that(1) by simp
  have a: "I v'" if "adopt_handle E c h v = (r, v')" "I v" for c h v r v' using adopted [OF that(2), of c h] that(1) by simp
  show ?thesis using assms
    by (auto simp: spawn_process_def Let_def split: prod.splits sum.splits option.splits dest!: x a)
qed

lemma spawned_runs:
  "spawn_runs E s ctx sockets sm vh key mounts runs w = (r, w') \<Longrightarrow> I w \<Longrightarrow>
   I w' \<and> (\<forall>cs. r = Inr cs \<longrightarrow> list_all P cs)"
proof (induction runs arbitrary: w r)
  case (Cons run runs)
  then show ?case
    by (auto simp: Let_def split: prod.splits sum.splits dest!: spawned_process)
qed simp

lemma spawned:
  "spawn_all E s ctx sockets sm vh key mounts w = (r, w') \<Longrightarrow> I w \<Longrightarrow> I w' \<and> (\<forall>cs. r = Inr cs \<longrightarrow> list_all P cs)"
  by (auto simp: spawn_all_def split: if_splits dest: spawned_runs)

end

text \<open>What all operations keep.\<close>

locale service_invariant = spawn_invariant E I P
  for E :: svc_env and I :: "svc_world \<Rightarrow> bool" and P :: "child_instance \<Rightarrow> bool" +
  assumes inst: "I w \<Longrightarrow> children_satisfy P inst \<Longrightarrow> I (w\<lparr>sw_inst := inst\<rparr>)"
    and inst_D: "I w \<Longrightarrow> children_satisfy P (sw_inst w)"
    and expired: "I w \<Longrightarrow> map_of (sw_wfds w) fd = Some b \<Longrightarrow>
      I (w\<lparr>sw_res := rs_terminate fd (sw_res w), sw_wfds := AList.delete fd (sw_wfds w),
           sw_wpids := (sw_wpids w)(wb_pid b := None)\<rparr>)"
    and pump: "I w \<Longrightarrow> I (w\<lparr>sw_res := fst (pump_sync fails (sw_res w, ep))\<rparr>)"
    and state_child: "P c \<Longrightarrow> P (set_state state c)"
    and stop_child: "P c \<Longrightarrow> P (c\<lparr>ci_state := SStopping, ci_stop_time := t, ci_manually_stopped := True\<rparr>)"
    and gone_child: "P c \<Longrightarrow> P (c\<lparr>ci_state := SExited code, ci_handle := None\<rparr>)"
    and counted_child: "P c \<Longrightarrow> P (c\<lparr>ci_state := SExited code, ci_handle := None, ci_retry_count := ci_retry_count c + 1\<rparr>)"
begin

lemmas frame [simp] = pump state_child stop_child gone_child counted_child

lemma got_service:
  assumes "get_service E md name w = (r, w')" "I w"
  shows "I w' \<and> (\<forall>s. r = Inr s \<longrightarrow> list_all P (sv_instances s))"
proof -
  have ch: "children_satisfy P (sw_inst w)" using assms(2) by (rule inst_D)
  have "children_satisfy P i \<and> (\<forall>s. q = Inr (IService s) \<longrightarrow> list_all P (sv_instances s))"
    if "instantiate_one item_name (se_meta E) tid_service md name make_service (sw_inst w) = (q, i)" for q i
    using that ch
    by (auto simp: instantiate_one_def instantiate_def make_service_def service_new_def Let_def children_update children_satisfy_boxes
          downcast_def boxes_ok_def
        split: prod.splits option.splits list.splits if_splits sum.splits unit_item.splits) (metis list.set_intros(1))+
  with assms show ?thesis
    by (auto simp: get_service_def inst split: prod.splits sum.splits sv_inst.splits)
qed

lemma stored [simp]: "I w \<Longrightarrow> list_all P (sv_instances s) \<Longrightarrow> I (put_service key s w)"
  using inst_D [of w]
  by (auto simp: put_service_def children_update children_satisfy_boxes boxes_ok_def intro!: inst split: option.split list.split)
    (metis list.set_intros(2))

lemma stored_last [simp]: "I w \<Longrightarrow> list_all P (sv_instances s) \<Longrightarrow> I (put_last_service key s w)"
  using inst_D [of w]
  by (auto simp: put_last_service_def children_satisfy_boxes boxes_ok_def intro!: inst dest!: in_set_butlastD)

lemma found_service:
  "one_service E md name (sw_inst w) = Inr s \<Longrightarrow> I w \<Longrightarrow> list_all P (sv_instances s)"
  using inst_D [of w]
  by (auto simp: one_service_def as_one_def children_satisfy_def downcast_def Let_def
      split: sum.splits sv_inst.splits option.splits if_splits) (metis last_in_set prod.collapse)

lemma singletons_keep:
  assumes "\<And>xs v. I v \<Longrightarrow> I (snd (f xs v))" "I w"
  shows "I (snd (with_singletons keys f w))"
proof -
  have t: "children_satisfy P i \<and> (\<forall>ls. q = Inr ls \<longrightarrow> list_all (boxes_ok P) ls)" if "take_lists keys (sw_inst w) = (q, i)" for q i
    using take_lists_children [OF that inst_D [OF assms(2)]] .
  have f: "I v'" if "f xs v = (r, v')" "I v" for xs v r v' using assms(1) [OF that(2), of xs] that(1) by simp
  show ?thesis
    using assms(2)
    by (auto simp: with_singletons_def inst inst_D put_lists_children split: prod.split sum.split dest!: t f dest: first_values_boxed)
qed

lemma registered [simp]: "I w \<Longrightarrow> I (snd (register_service_transport s key w))"
  by (simp add: register_service_transport_def split: option.split)

lemma unregistered [simp]: "I w \<Longrightarrow> I (maybe_unregister_service_transport s key w)"
  by (simp add: maybe_unregister_service_transport_def split: option.split)

lemma list_all_first [simp]: "list_all P cs \<Longrightarrow> list_all P (on_first (set_state st) cs)"
  by (cases cs) simp_all

lemma list_all_states [simp]:
  "list_all P cs \<Longrightarrow> list_all P (map (set_state st) cs)"
  "list_all P cs \<Longrightarrow> list_all P (map (\<lambda>c. if b c then c else set_state (st' c) c) cs)"
  by (auto simp: list_all_iff)

text \<open>What keeps a service: the state and its children, in the form the handlers return them.\<close>

definition keeps_service :: "(service \<Rightarrow> svc_world \<Rightarrow> service \<times> svc_world) \<Rightarrow> bool" where
  "keeps_service f \<longleftrightarrow> (\<forall>s w s' w'. f s w = (s', w') \<longrightarrow> I w \<longrightarrow> list_all P (sv_instances s) \<longrightarrow> I w' \<and> list_all P (sv_instances s'))"

lemma keeps_serviceD: "keeps_service f \<Longrightarrow> f s w = (s', w') \<Longrightarrow> I w \<Longrightarrow> list_all P (sv_instances s) \<Longrightarrow> I w' \<and> list_all P (sv_instances s')"
  unfolding keeps_service_def by blast

lemma started_service: "keeps_service (\<lambda>s. start_service E s sockets sm vh key mounts)"
  unfolding keeps_service_def start_service_def
  by (auto simp: Let_def split: if_splits prod.splits sum.splits dest!: spawned)

lemma stopped_instance:
  "stop_service_instance E m mode sm key user c w = (c', w') \<Longrightarrow> I w \<Longrightarrow> P c \<Longrightarrow> I w' \<and> P c'"
  using state_child [of c SInactive]
  by (auto simp: stop_service_instance_def Let_def set_state_def split: if_splits option.splits)

lemma stopped_children:
  "stop_children E m mode sm key user cs w = (cs', w') \<Longrightarrow> I w \<Longrightarrow> list_all P cs \<Longrightarrow> I w' \<and> list_all P cs'"
proof (induction cs arbitrary: w cs')
  case (Cons c cs)
  obtain c' v where c: "stop_service_instance E m mode sm key user c w = (c', v)" by (cases "stop_service_instance E m mode sm key user c w")
  with Cons.prems have v: "I v" "P c'" using stopped_instance [OF c] by simp_all
  from Cons.prems c obtain ds where "stop_children E m mode sm key user cs v = (ds, w')" "cs' = c' # ds"
    by (auto split: prod.splits)
  with Cons.IH [OF this(1) v(1)] Cons.prems v show ?case by simp
qed simp

lemma stopped_service: "keeps_service (\<lambda>s. stop_service E s mode sm key user index service_key)"
  unfolding keeps_service_def stop_service_def
proof (intro allI impI)
  fix s w s' w'
  let ?stop = "stop_service_instance E (sv_meta s) mode sm key user"
  assume a: "I w" "list_all P (sv_instances s)"
    and r: "(let m = sv_meta s; cs = sv_instances s;
          (cs, w) = (case index of
                       Some i \<Rightarrow> if i < length cs then (case stop_service_instance E m mode sm key user (cs ! i) w of (c, w) \<Rightarrow> (cs[i := c], w))
                         else (cs, w)
                     | None \<Rightarrow> stop_children E m mode sm key user cs w);
          service = s\<lparr>sv_instances := cs\<rparr>
      in if list_ex (\<lambda>c. ci_state c = SActive) cs then (service, w)
         else (service\<lparr>sv_last_state := SStopping\<rparr>,
               emit_all [EDispatch (SockClearFor (instance_key_name service_key)), EDispatch (SvcReconcile service_key EvStopped),
                         EDispatch (TimReconcile service_key EvStopped), ENotify] w)) = (s', w')"
  have one: "I v \<and> list_all P ((sv_instances s)[i := c])" if "?stop (sv_instances s ! i) w = (c, v)" "i < length (sv_instances s)" for i c v
    using stopped_instance [OF that(1)] a that(2) set_update_subset_insert [of "sv_instances s" i c]
    by (auto simp: list_all_iff)
  have many: "I v \<and> list_all P cs" if "stop_children E (sv_meta s) mode sm key user (sv_instances s) w = (cs, v)" for cs v
    using stopped_children [OF that a] .
  show "I w' \<and> list_all P (sv_instances s')"
    using r a by (auto simp: Let_def split: option.splits prod.splits if_splits dest!: one many)
qed

lemma cleaned [simp]: "I w \<Longrightarrow> I (clean_files E fs w)"
  by (induction fs arbitrary: w) simp_all

lemma cleaned_up [simp]: "I w \<Longrightarrow> I (cleanup_files E m w)"
  by (simp add: cleanup_files_def)

lemma exited_child:
  assumes "handle_child_exit E s pid code sm key w = (act, s', w')" "I w" "list_all P (sv_instances s)"
  shows "I w' \<and> list_all P (sv_instances s')"
proof -
  have c: "P c'" if "find_by_pid pid (sv_instances s) = Some i" "c = sv_instances s ! i"
      "c' \<in> {c\<lparr>ci_state := SExited code, ci_handle := None\<rparr>, c\<lparr>ci_state := SExited code, ci_handle := None, ci_retry_count := ci_retry_count c + 1\<rparr>}"
    for i c c'
  proof -
    have "i < length cs" if "find_by_pid pid cs = Some i" for cs i
      using that by (induction cs arbitrary: i) (auto split: if_splits)
    with that(1) assms(3) have "P (sv_instances s ! i)" by (simp add: list_all_length)
    with that show ?thesis by auto
  qed
  have l: "list_all P ((sv_instances s)[i := c'])" if "P c'" for i c'
    using assms(3) that set_update_subset_insert [of "sv_instances s" i c'] by (auto simp: list_all_iff)
  have f: "list_all P cs \<Longrightarrow> list_all P (filter kept_child cs)" for cs by (auto simp: list_all_iff)
  show ?thesis
    using assms by (auto simp: handle_child_exit_def Let_def l f c split: option.splits if_splits restart_policy.splits)
qed

lemma dependents_stopped [simp]: "I w \<Longrightarrow> I (stop_dependents E facets ds w)"
proof (induction ds arbitrary: w)
  case (Cons d ds)
  obtain n m where d: "d = (n, m)" by (cases d)
  show ?case unfolding d stop_dependents.simps
    by (rule Cons.IH) (use Cons.prems in \<open>auto split: sum.split prod.split dest: keeps_serviceD [OF stopped_service] found_service\<close>)
qed simp

definition rec_keeps :: "(start_args \<Rightarrow> svc_world \<Rightarrow> svc_world run) \<Rightarrow> bool" where
  "rec_keeps rec \<longleftrightarrow> (\<forall>a w r w'. rec a w = Some (r, w') \<longrightarrow> I w \<longrightarrow> I w')"

lemma recD: "rec_keeps rec \<Longrightarrow> rec a w = Some (r, w') \<Longrightarrow> I w \<Longrightarrow> I w'"
  unfolding rec_keeps_def by blast

lemma and_then_keeps:
  "and_then m f = Some (r, w') \<Longrightarrow> (\<And>q v. m = Some (q, v) \<Longrightarrow> I v) \<Longrightarrow> (\<And>v q v'. f v = Some (q, v') \<Longrightarrow> I v \<Longrightarrow> I v') \<Longrightarrow> I w'"
  by (auto simp: and_then_def split: option.splits sum.splits)

lemma dependents_started:
  "start_dependents E rec ds w = Some (r, w') \<Longrightarrow> rec_keeps rec \<Longrightarrow> I w \<Longrightarrow> I w'"
proof (induction ds arbitrary: w r w')
  case (Cons d ds)
  obtain n m where d: "d = (n, m)" by (cases d)
  from Cons.prems(1) show ?case unfolding d start_dependents.simps
  proof (rule and_then_keeps)
    fix q v assume "(if dependent_ready E m (sw_inst w) then rec (start_named n) w else Some (Inr (), w)) = Some (q, v)"
    then show "I v" using Cons.prems by (auto split: if_splits dest: recD)
  qed (use Cons in auto)
qed simp

lemma stacks_reconciled:
  assumes "reconcile_stacks E rec name action w = Some (r, w')" "rec_keeps rec" "I w"
  shows "I w'"
proof -
  have s: "I v'" if "with_singletons keys (\<lambda>xs w. (Inr (), stop_dependents E (taken_graph xs) ds w)) w = (q, v')" for keys ds and q :: "unit result" and v'
    using singletons_keep [where f = "\<lambda>xs w. (Inr () :: unit result, stop_dependents E (taken_graph xs) ds w)", OF _ assms(3)] that by (metis dependents_stopped sndI)
  show ?thesis
    using assms by (auto simp: reconcile_stacks_def Let_def split: if_splits dest: dependents_started s)
qed

lemma reconciled:
  assumes "reconcile E rec name action w = Some (r, w')" "rec_keeps rec" "I w"
  shows "I w'"
  using assms(1) unfolding reconcile_def
  by (rule and_then_keeps) (use assms stacks_reconciled in auto)

lemma branch_spawned:
  "spawn_branch E s ctx sockets facets vh key mounts w = (q, s', w') \<Longrightarrow> I w \<Longrightarrow> list_all P (sv_instances s) \<Longrightarrow>
   I w' \<and> list_all P (sv_instances s')"
  by (auto simp: spawn_branch_def Let_def split: if_splits prod.splits sum.splits option.splits dest!: spawned)

lemma user_spawned:
  "spawn_for_user E s user sockets facets vh key mounts w = (q, s', w') \<Longrightarrow> I w \<Longrightarrow> list_all P (sv_instances s) \<Longrightarrow>
   I w' \<and> list_all P (sv_instances s')"
  by (auto simp: spawn_for_user_def Let_def split: if_splits prod.splits sum.splits option.splits dest!: spawned)

lemma closure_started [simp]: "I w \<Longrightarrow> I (snd (start_closure E a sockets facets vh w))"
proof -
  have r: "I v'" if "register_service_transport s key v = (b, v')" "I v" for s key v b v'
    using registered [OF that(2), of s key] that(1) by simp
  assume "I w"
  then show ?thesis
    by (auto simp: start_closure_def Let_def split: prod.split sum.split option.split
        dest!: got_service r branch_spawned user_spawned keeps_serviceD [OF started_service])
qed

lemma body_started:
  assumes "start_body E rec a w = Some (r, w')" "rec_keeps rec" "I w"
  shows "I w'"
proof -
  have s: "I v'" if "with_singletons graph_and_vars (\<lambda>xs. start_closure E a sockets (taken_graph xs) (taken_vars xs)) w = (q, v')"
    for sockets q v'
    using singletons_keep [where f = "\<lambda>xs. start_closure E a sockets (taken_graph xs) (taken_vars xs)", OF _ assms(3)] that
    by (metis closure_started sndI)
  show ?thesis
    using assms by (auto simp: start_body_def Let_def split: prod.splits sum.splits option.splits bool.splits dest!: s dest: reconciled)
qed

lemma rec_start: "rec_keeps (svc_start n E)"
proof (induction n)
  case (Suc n)
  then show ?case by (auto simp: rec_keeps_def dest: body_started [unfolded rec_keeps_def])
qed (simp add: rec_keeps_def)

lemma singletons_I:
  "with_singletons keys f w = (r, w') \<Longrightarrow> (\<And>xs v. I v \<Longrightarrow> I (snd (f xs v))) \<Longrightarrow> I w \<Longrightarrow> I w'"
  using singletons_keep [of f w keys] by simp

lemma stopped [simp]: "I w \<Longrightarrow> I (snd (svc_stop E name force index only_user w))"
  unfolding svc_stop_def
  by (rule singletons_keep)
    (auto split: prod.split sum.split dest!: got_service keeps_serviceD [OF stopped_service])

lemma box_stored [simp]: "I w \<Longrightarrow> boxes_ok P bs \<Longrightarrow> I (w\<lparr>sw_inst := (sw_inst w)(key \<mapsto> bs)\<rparr>)"
  by (intro inst children_update inst_D)

lemma found_boxes: "sw_inst w key = Some bs \<Longrightarrow> I w \<Longrightarrow> boxes_ok P bs"
  using inst_D [of w] by (auto simp: children_satisfy_boxes)

lemma each_kept:
  "each_service f bs w = (bs', w') \<Longrightarrow> keeps_service f \<Longrightarrow> I w \<Longrightarrow> boxes_ok P bs \<Longrightarrow> I w' \<and> boxes_ok P bs'"
proof (induction bs arbitrary: bs' w)
  case (Cons b bs)
  have b: "boxes_ok P bs" "boxes_ok P [b]" using Cons.prems(4) boxes_ok_Cons by blast+
  consider (service) s where "downcast (mt_id tid_service) b = Some (IService s)"
    | (other) "\<forall>s. downcast (mt_id tid_service) b \<noteq> Some (IService s)" by blast
  then show ?case
  proof cases
    case service
    obtain s' v where f: "f s w = (s', v)" by (cases "f s w")
    with keeps_serviceD [OF Cons.prems(2) f Cons.prems(3) box_service [OF service b(2)]] service Cons.prems(1,2) b(1) show ?thesis
      by (auto split: prod.splits dest: Cons.IH)
  next
    case other
    then obtain cs where "each_service f bs w = (cs, w')" "bs' = b # cs" using Cons.prems(1)
      by (auto split: option.splits sv_inst.splits prod.splits)
    then show ?thesis using Cons.IH [OF _ Cons.prems(2,3) b(1)] b(2) boxes_ok_Cons by blast
  qed
qed simp

lemma services_kept [simp]: "keeps_service f \<Longrightarrow> I w \<Longrightarrow> I (on_services f key w)"
  unfolding on_services_def by (auto split: option.split prod.split dest: each_kept found_boxes)

lemma folded [simp]: "(\<And>x v. I v \<Longrightarrow> I (f x v)) \<Longrightarrow> I w \<Longrightarrow> I (fold f xs w)"
  by (induction xs arbitrary: w) simp_all

lemma all_stopped [simp]: "I w \<Longrightarrow> I (snd (svc_stop_all E keys force w))"
  unfolding svc_stop_all_def by (rule singletons_keep) (simp_all add: stopped_service)

lemma scope_items_stopped [simp]: "I w \<Longrightarrow> I (snd (stop_scope_items E facets scope items w))"
proof (induction items arbitrary: w)
  case (Cons d items)
  obtain grp m where d: "d = (grp, m)" by (cases d)
  show ?case unfolding d stop_scope_items.simps Let_def
    using Cons.prems by (auto split: sum.split prod.split intro!: Cons.IH dest: found_service keeps_serviceD [OF stopped_service])
qed simp

lemma scope_stopped [simp]: "I w \<Longrightarrow> I (snd (svc_stop_for_scope E scope w))"
  unfolding svc_stop_for_scope_def by (rule singletons_keep) simp_all

lemma services_exited:
  "exit_services E facets key pid code bs act w = (act', bs', w') \<Longrightarrow> I w \<Longrightarrow> boxes_ok P bs \<Longrightarrow> I w' \<and> boxes_ok P bs'"
proof (induction bs arbitrary: act act' bs' w)
  case (Cons b bs)
  have b: "boxes_ok P bs" "boxes_ok P [b]" using Cons.prems(3) boxes_ok_Cons by blast+
  consider (service) s where "downcast (mt_id tid_service) b = Some (IService s)"
    | (other) "\<forall>s. downcast (mt_id tid_service) b \<noteq> Some (IService s)" by blast
  then show ?case
  proof cases
    case service
    then have s: "list_all P (sv_instances s)" using b(2) by (rule box_service)
    obtain r s' v where f: "handle_child_exit E s pid code (Some facets) key w = (r, s', v)"
      by (cases "handle_child_exit E s pid code (Some facets) key w")
    with exited_child [OF f Cons.prems(2) s] service Cons.prems(1) b(1) show ?thesis
      by (auto split: prod.splits dest: Cons.IH)
  next
    case other
    then obtain cs where "exit_services E facets key pid code bs act w = (act', cs, w')" "bs' = b # cs" using Cons.prems(1)
      by (auto split: option.splits sv_inst.splits prod.splits)
    then show ?thesis using Cons.IH [OF _ Cons.prems(2) b(1)] b(2) boxes_ok_Cons by blast
  qed
qed simp

lemma closure_exited [simp]: "I w \<Longrightarrow> I (snd (exit_closure E key pid code facets w))"
  unfolding exit_closure_def by (auto split: option.split prod.split dest: services_exited found_boxes)

lemma exited:
  assumes "child_exited E rec pid code w = Some (r, w')" "rec_keeps rec" "I w"
  shows "I w'"
proof -
  have s: "I v'" if "with_singletons graph_singleton (\<lambda>xs. exit_closure E key pid code (taken_graph xs)) v = (q, v')" "I v" for key v q v'
    by (rule singletons_I [OF that(1) _ that(2)]) simp
  show ?thesis
    using assms by (auto simp: child_exited_def Let_def split: option.splits prod.splits sum.splits exit_action.splits
        dest!: s dest: reconciled recD)
qed

lemma swept [simp]: "I w \<Longrightarrow> I (timeout_sweep E w)" by (simp add: timeout_sweep_def Let_def)

lemma refreshed [simp]: "I w \<Longrightarrow> I (refresh_watchdog_fd fd wd w)" by (simp add: refresh_watchdog_fd_def)

lemma pinged [simp]: "I w \<Longrightarrow> I (watchdog_ping E service branch w)"
  by (simp add: watchdog_ping_def Let_def split: option.split)

lemma watchdog_ran:
  assumes "watchdog_expired E rec fd w = Some (r, w')" "rec_keeps rec" "I w"
  shows "I w'"
proof (cases "map_of (sw_wfds w) fd")
  case (Some b)
  let ?v = "w\<lparr>sw_res := rs_terminate fd (sw_res w), sw_wfds := AList.delete fd (sw_wfds w), sw_wpids := (sw_wpids w)(wb_pid b := None)\<rparr>"
  have v: "I ?v" using assms(3) Some by (rule expired)
  have st: "I v'" if "svc_stop E name True None u ?v = (q, v')" for name u q v'
    using stopped [OF v, of name True None u] that by simp
  show ?thesis
    using assms v Some
    by (auto simp: watchdog_expired_def Let_def split: watchdog_action.splits elim!: and_then_keeps dest: recD st)
qed (use assms in \<open>simp add: watchdog_expired_def\<close>)

lemma rebuilt: "rebuild_trigger_index E w = Some w' \<Longrightarrow> I w \<Longrightarrow> I w'"
  by (auto simp: rebuild_trigger_index_def)

lemma branches_stopped: "keeps_service (stop_branches E facets key ks)"
  unfolding keeps_service_def
proof (induction ks)
  case (Cons k ks)
  then show ?case by (auto split: prod.splits dest!: keeps_serviceD [OF stopped_service])
qed simp

lemma stop_evaluated: "keeps_service (evaluate_stop E facets action event key)"
  unfolding keeps_service_def evaluate_stop_def
  by (auto split: option.splits if_splits dest: keeps_serviceD [OF stopped_service] keeps_serviceD [OF branches_stopped])

lemma targets_evaluated [simp]: "I w \<Longrightarrow> I (snd (evaluate_targets E facets vh action event names w))"
proof (induction names arbitrary: w)
  case (Cons name names)
  have t: "I v'" if "evaluate_targets E facets vh action event names v = (r, v')" "I v" for v r v'
    using Cons.IH [OF that(2)] that(1) by simp
  have "I (on_services (evaluate_stop E facets action event (ensure_scoped_name name)) (ensure_scoped_name name) w)"
    using Cons.prems by (simp add: stop_evaluated)
  with Cons.prems show ?case
    by (auto simp: Let_def Cons.IH split: option.split prod.split sum.split dest!: got_service t)
qed simp

lemma steps_keep:
  "steps fs w = Some (r, w') \<Longrightarrow> (\<And>f v q v'. f \<in> set fs \<Longrightarrow> f v = Some (q, v') \<Longrightarrow> I v \<Longrightarrow> I v') \<Longrightarrow> I w \<Longrightarrow> I w'"
proof (induction fs arbitrary: w r w')
  case (Cons f fs)
  from Cons.prems(1) show ?case unfolding steps.simps
  proof (rule and_then_keeps)
    show "I v" if "f w = Some (q, v)" for q v using Cons.prems(2) [of f] that Cons.prems(3) by simp
    show "I v'" if "steps fs v = Some (q, v')" "I v" for v q v'
      by (rule Cons.IH [OF that(1) _ that(2)]) (use Cons.prems(2) in auto)
  qed
qed simp

lemma targets_started:
  assumes "start_targets rec xs w = Some (r, w')" "rec_keeps rec" "I w"
  shows "I w'"
  using assms(1) unfolding start_targets_def
  by (rule steps_keep) (use assms in \<open>auto dest: recD\<close>)

lemma triggers_evaluated:
  assumes "evaluate_triggers E rec t scope w = Some (r, w')" "rec_keeps rec" "I w"
  shows "I w'"
proof -
  have s: "I v'" if "with_singletons graph_and_vars (\<lambda>xs w. evaluate_targets E (taken_graph xs) (taken_vars xs) a ev (trigger_targets E t scope w) w) v = (q, v')"
      "I v" for a ev v q v'
    by (rule singletons_I [OF that(1) _ that(2)]) simp
  show ?thesis
    using assms by (auto simp: evaluate_triggers_def split: option.splits if_splits prod.splits sum.splits
        dest!: s rebuilt dest: targets_started)
qed

lemma unless_up: "start_unless_up E rec name w = Some (r, w') \<Longrightarrow> rec_keeps rec \<Longrightarrow> I w \<Longrightarrow> I w'"
  by (auto simp: start_unless_up_def split: if_splits dest: recD)

lemma first_started: "start_first E rec xs started pend w = Some (r, w') \<Longrightarrow> rec_keeps rec \<Longrightarrow> I w \<Longrightarrow> I w'"
proof (induction xs arbitrary: started pend w)
  case (Cons x xs)
  obtain name m where x: "x = (name, m)" by (cases x)
  from Cons.prems show ?case
    by (auto simp: x split: if_splits option.splits sum.splits prod.splits dest: unless_up Cons.IH)
qed simp

lemma pass_started: "start_pass E rec pend started w = Some (kept, started', w') \<Longrightarrow> rec_keeps rec \<Longrightarrow> I w \<Longrightarrow> I w'"
proof (induction pend arbitrary: started w kept)
  case (Cons x pend)
  obtain name afters where x: "x = (name, afters)" by (cases x)
  from Cons.prems show ?case
    by (auto simp: x split: if_splits option.splits prod.splits dest: unless_up Cons.IH)
qed simp

lemma rounds_started: "start_rounds k E rec pend started w = Some (kept, started', w') \<Longrightarrow> rec_keeps rec \<Longrightarrow> I w \<Longrightarrow> I w'"
proof (induction k arbitrary: pend started w)
  case (Suc k)
  from Suc.prems show ?case
    by (auto split: if_splits option.splits prod.splits dest: pass_started Suc.IH)
qed simp

lemma all_started:
  assumes "start_all E rec w = Some (r, w')" "rec_keeps rec" "I w"
  shows "I w'"
proof -
  have s: "I v'" if "with_singletons graph_singleton (\<lambda>xs w. (Inr (active_services E (taken_graph xs)), w)) v = (q, v')" "I v" for v q v'
    by (rule singletons_I [OF that(1) _ that(2)]) simp
  show ?thesis
    using assms by (auto simp: start_all_def simp del: start_rounds.simps split: option.splits prod.splits sum.splits
        dest!: s first_started dest: rounds_started)
qed

lemma writers_sent: "send_writers E msg xs w = (kept, w') \<Longrightarrow> I w \<Longrightarrow> I w'"
  by (induction xs arbitrary: w kept) (auto simp: Let_def split: prod.splits if_splits)

lemma message_sent [simp]: "I w \<Longrightarrow> I (send_stdio_message E endpoint msg w)"
  by (auto simp: send_stdio_message_def split: option.split prod.split dest: writers_sent)

lemma writers_broadcast: "broadcast_writers E msg ws w = (ws', w') \<Longrightarrow> I w \<Longrightarrow> I w'"
proof (induction ws arbitrary: w ws')
  case (Cons x ws)
  then show ?case by (cases x) (auto split: prod.splits dest!: writers_sent)
qed simp

lemma event_broadcast [simp]: "I w \<Longrightarrow> I (broadcast_stdio_event E ev w)"
  by (auto simp: broadcast_stdio_event_def split: prod.split dest: writers_broadcast)

lemma message_ingested [simp]: "I w \<Longrightarrow> I (ingest_message E m w)"
  by (simp add: ingest_message_def split: prod.split sum.split)

lemma events_drained [simp]: "I w \<Longrightarrow> I (drain_events E ev w)"
  by (simp add: drain_events_def Let_def split: option.split)

lemma message_handled:
  assumes "services_handle E (svc_start n E) cmd w = Some (r, w')" "I w"
  shows "I w'"
proof -
  have st: "I v'" if "svc_stop E name f i u v = (q, v')" "I v" for name f i u v q v' using stopped [OF that(2), of name f i u] that(1) by simp
  have sa: "I v'" if "svc_stop_all E keys f v = (q, v')" "I v" for keys f v q v' using all_stopped [OF that(2), of keys f] that(1) by simp
  have sc: "I v'" if "svc_stop_for_scope E scope v = (q, v')" "I v" for scope v q v' using scope_stopped [OF that(2), of scope] that(1) by simp
  show ?thesis
    using assms rec_start [of n]
    by (cases cmd)
      (auto simp: services_handle_def simp del: svc_start.simps dest: recD st sa sc stacks_reconciled exited all_started triggers_evaluated watchdog_ran rebuilt)
qed

lemma stepped: "svc_step E n w w' \<Longrightarrow> I w \<Longrightarrow> I w'"
  by (induction rule: svc_step.induct) (auto dest: message_handled)

lemma reached: "svc_reach E n w w' \<Longrightarrow> I w \<Longrightarrow> I w'"
  unfolding svc_reach_def by (induction rule: rtranclp_induct) (auto dest: stepped)

end

section \<open>Restart counters\<close>

text \<open>The counter of a child is raised when it has exited, so one that runs has counted nothing.\<close>

definition uncounted :: "child_instance \<Rightarrow> bool" where
  "uncounted c \<longleftrightarrow> ci_handle c \<noteq> None \<longrightarrow> ci_retry_count c = 0"

interpretation counters: service_invariant E "\<lambda>w. children_satisfy uncounted (sw_inst w)" uncounted for E
  by unfold_locales (auto simp: uncounted_def child_new_def set_state_def arm_watchdog_timer_def disarm_watchdog_pid_def
      emit_all_def tick_def Let_def split: sum.split option.split)

section \<open>Watchdogs\<close>

definition watchdogs_registered :: "svc_world \<Rightarrow> bool" where
  "watchdogs_registered w \<longleftrightarrow>
     (\<forall>fd b. map_of (sw_wfds w) fd = Some b \<longrightarrow>
        rs_actions (sw_res w) fd = Some \<lparr>ra_runtime = ''services'', ra_action = ''watchdog_expired'',
          ra_payload = Some (WatchdogPayload (wb_service_key b) (wb_branch b))\<rparr>
        \<and> fd \<in> set (rs_watched (sw_res w)) \<union> set (rs_unwatched (sw_res w)))"

lemma terminate_other:
  "fd' \<noteq> fd \<Longrightarrow> rs_actions (rs_terminate fd rs) fd' = rs_actions rs fd'"
  "fd' \<noteq> fd \<Longrightarrow> fd' \<in> set (rs_watched (rs_terminate fd rs)) \<longleftrightarrow> fd' \<in> set (rs_watched rs)"
  "fd' \<noteq> fd \<Longrightarrow> fd' \<in> set (rs_unwatched (rs_terminate fd rs)) \<longleftrightarrow> fd' \<in> set (rs_unwatched rs)"
  by (auto simp: rs_terminate_def hs_remove_def Let_def)

lemma pump_keeps_registered:
  assumes "pump_sync fails (rs, ep) = (rs', ep')"
  shows "rs_actions rs' = rs_actions rs \<and> set (rs_watched rs) \<union> set (rs_unwatched rs) \<subseteq> set (rs_watched rs') \<union> set (rs_unwatched rs')"
proof -
  obtain rs1 ep1 where 1: "fold sync_removed (rs_removed rs) (rs, ep) = (rs1, ep1)" by fastforce
  from assms 1 have "fold (sync_unwatched fails) (rs_unwatched rs1) (rs1, ep1) = (rs', ep')" by (simp add: pump_sync_def)
  note u = sync_unwatched_fold [OF this] and r = sync_removed_fold [OF 1]
  have "rs_actions rs' = rs_actions rs1" using u by (elim conjE)
  moreover have "rs_actions rs1 = rs_actions rs" "rs_watched rs1 = rs_watched rs" "rs_unwatched rs1 = rs_unwatched rs"
    using r by blast+
  moreover have "set (rs_watched rs1) \<union> set (rs_unwatched rs1) \<subseteq> set (rs_watched rs') \<union> set (rs_unwatched rs')"
    using u by (elim conjE) blast
  ultimately show ?thesis by simp
qed

lemma registered_weaken:
  assumes "watchdogs_registered w" "rs_actions rs' = rs_actions (sw_res w)"
    "set (rs_watched (sw_res w)) \<union> set (rs_unwatched (sw_res w)) \<subseteq> set (rs_watched rs') \<union> set (rs_unwatched rs')"
  shows "watchdogs_registered (w\<lparr>sw_res := rs'\<rparr>)"
  using assms(1,3) by (simp add: watchdogs_registered_def assms(2)) blast

lemma registered_delete:
  "watchdogs_registered w \<Longrightarrow> watchdogs_registered (w\<lparr>sw_res := rs_terminate fd (sw_res w), sw_wfds := AList.delete fd (sw_wfds w), sw_wpids := p\<rparr>)"
  "watchdogs_registered w \<Longrightarrow> watchdogs_registered (w\<lparr>sw_wpids := p, sw_wfds := AList.delete fd (sw_wfds w), sw_res := rs_terminate fd (sw_res w)\<rparr>)"
  by (auto simp: watchdogs_registered_def delete_conv terminate_other split: if_splits)

interpretation watchdogs: service_invariant E watchdogs_registered "\<lambda>_. True" for E
proof
  fix w :: svc_world assume w: "watchdogs_registered w"
  fix fails ep
  obtain rs' ep' where s: "pump_sync fails (sw_res w, ep) = (rs', ep')" by fastforce
  show "watchdogs_registered (w\<lparr>sw_res := fst (pump_sync fails (sw_res w, ep))\<rparr>)"
    unfolding s fst_conv by (rule registered_weaken [OF w]) (use pump_keeps_registered [OF s] in blast)+
next
  fix w :: svc_world and pid assume "watchdogs_registered w"
  then show "watchdogs_registered (disarm_watchdog_pid pid w)"
    by (simp add: disarm_watchdog_pid_def registered_delete split: option.split)
next
  fix w :: svc_world and key branch user pid wd assume "watchdogs_registered w"
  then show "watchdogs_registered (snd (arm_watchdog_timer E key branch user pid wd w))"
    by (auto simp: watchdogs_registered_def arm_watchdog_timer_def emit_all_def tick_def Let_def update_conv rs_action_def
        rs_own_def register_resource_def hs_insert_def split: sum.split if_splits)
next
  fix w :: svc_world and fd b assume "watchdogs_registered w"
  then show "watchdogs_registered (w\<lparr>sw_res := rs_terminate fd (sw_res w), sw_wfds := AList.delete fd (sw_wfds w),
      sw_wpids := (sw_wpids w)(wb_pid b := None)\<rparr>)"
    by (rule registered_delete)
qed (simp_all add: watchdogs_registered_def children_satisfy_def list_all_iff emit_all_def)

section \<open>Effects\<close>

text \<open>Spawning touches no instance, and what it gives is active.\<close>

interpretation spawning: spawn_invariant E "\<lambda>w. sw_inst w = inst" "\<lambda>c. ci_state c = SActive" for E inst
  by unfold_locales (simp_all add: arm_watchdog_timer_def disarm_watchdog_pid_def child_new_def emit_all_def tick_def Let_def
      split: sum.split option.split)

text \<open>Effects are only ever added: what was dispatched, spawned or signalled stays recorded, in order.\<close>

interpretation effects: service_invariant E "\<lambda>w. \<exists>es. sw_out w = out @ es" "\<lambda>_. True" for E out
  by unfold_locales (auto simp: arm_watchdog_timer_def disarm_watchdog_pid_def children_satisfy_def emit_all_def tick_def
      list_all_iff Let_def split: sum.split option.split)

end
