(* ===== verification/ServiceStart.thy ===== *)
theory ServiceStart
  imports ServiceInv
begin

text \<open>
  Starting a service that needs nothing but its command, computed for any state of the service, and
  what follows for services that wait for one another.
\<close>

section \<open>Plain services\<close>

text \<open>What a plain service needs to be started: nothing but the command.\<close>

definition runs_plainly :: "service_meta \<Rightarrow> bool" where
  "runs_plainly m \<longleftrightarrow> sm_run m = RunOne plain_run \<and> sm_type m = TypeFork \<and> sm_space m = SpaceSystem \<and> sm_transport m = None
     \<and> sm_cgroup m = None \<and> sm_namespaces m = None \<and> sm_watchdog m = None"

definition plain :: "service_meta \<Rightarrow> bool" where
  "plain m \<longleftrightarrow> runs_plainly m \<and> sm_on_start m = None \<and> \<not> sm_singleton m"

lemma plain_isolation:
  "\<exists>i. isolation_for ss_default n None None (Some ''static'') = Inr i \<and> \<not> needs_namespace_supervisor i \<and> is_cgroup i = None"
proof -
  have "(case isolation_for ss_default n None None (Some ''static'') of Inl _ \<Rightarrow> False
     | Inr i \<Rightarrow> \<not> needs_namespace_supervisor i \<and> is_cgroup i = None)" by code_simp
  then show ?thesis by (auto split: sum.splits)
qed

lemma plain_user: "user_for_scope ss_default s = None"
  by (simp add: user_for_scope_def ss_default_def ss_by_name_def)

lemma spawn_all_plain:
  assumes "runs_plainly (sv_meta s)" "key_parts key = (nm, Some ''static'')"
  shows "\<exists>w'. spawn_all (demo_svc ms) s None sockets (Some []) vh key mounts w =
       (Inr [child_new [] None (Some (ProcessHandle (of_nat (100 + sw_calls w))))], w')
     \<and> sw_inst w' = sw_inst w"
proof -
  obtain i where i: "isolation_for ss_default (sm_name (sv_meta s)) None None (Some ''static'') = Inr i"
    "\<not> needs_namespace_supervisor i" "is_cgroup i = None" using plain_isolation by blast
  show ?thesis
    using assms i
    by (simp add: spawn_all_def listed_inactive_def branches_of_def runs_plainly_def plain_run_def spawn_process_def process_user_def
      resolve_scope_default_user_def resolve_service_user_def plain_user demo_svc_def resolve_run_option_def Let_def
      executor_spawn_def native_spawn_def native_user_def adopt_handle_def spawn_context_def setup_cgroup_for_pid_def
      emit_all_def tick_def attach_streams_def split: prod.split)
qed

text \<open>A state with nothing but services besides an empty graph and no variables.\<close>

definition services_only :: "(ustr \<rightharpoonup> service) \<Rightarrow> sv_inst instance_map" where
  "services_only f = (\<lambda>k. map_option (\<lambda>s. [(mt_id tid_service, IService s)]) (f k))"

definition inst_of :: "(ustr \<rightharpoonup> service) \<Rightarrow> sv_inst instance_map" where
  "inst_of f = (services_only f)(graph_key \<mapsto> [(tid_graph, IGraph \<lparr>fg_facets = [], fg_scoped = []\<rparr>)],
     vars_key \<mapsto> [(tid_vars, IVars vh_new)])"

lemma keys_differ [simp]: "graph_key \<noteq> vars_key" "vars_key \<noteq> graph_key"
  by (simp_all add: graph_key_def vars_key_def)

lemma singletons_of:
  assumes "sw_inst w = inst_of f" "f graph_key = None" "f vars_key = None"
    "F [IGraph \<lparr>fg_facets = [], fg_scoped = []\<rparr>, IVars vh_new] (w\<lparr>sw_inst := services_only f\<rparr>) = (r, w')"
    "sw_inst w' = services_only f'"
  shows "with_singletons graph_and_vars F w = (r, w'\<lparr>sw_inst := inst_of f'\<rparr>)"
proof -
  have "(inst_of f)(graph_key := None, vars_key := None) = services_only f"
    using assms(2,3) by (auto simp: inst_of_def services_only_def)
  then show ?thesis
    using assms by (simp add: with_singletons_def graph_and_vars_def inst_of_def [of f'] downcast_def)
       (simp add: inst_of_def downcast_def)
qed

definition base_service :: "(ustr \<rightharpoonup> service) \<Rightarrow> ustr \<Rightarrow> service_meta \<Rightarrow> service" where
  "base_service f key m = (case f key of Some s \<Rightarrow> s | None \<Rightarrow> service_new m)"

definition started_plain :: "nat \<Rightarrow> service \<Rightarrow> service" where
  "started_plain calls s = s\<lparr>sv_instances :=
     on_first (set_state SActive) (sv_instances s @ [child_new [] None (Some (ProcessHandle (of_nat (100 + calls))))])\<rparr>"

text \<open>The service \<open>m\<close> is found under a name, and its instances are kept under \<open>key\<close>.\<close>

definition addressed :: "svc_env \<Rightarrow> ustr \<Rightarrow> ustr \<Rightarrow> service_meta \<Rightarrow> bool" where
  "addressed E name key m \<longleftrightarrow>
     resolved_metadata_and_full_name (se_meta E) ''*'' name = (''static'', key)
     \<and> resolved_metadata_and_full_name (se_meta E) ''static'' name = (''static'', key)
     \<and> mr_find item_name (se_meta E) tid_service ''static'' name = Some (UService m)
     \<and> CHR '':'' \<in> set name \<and> ensure_scoped_name name = key \<and> snd (key_parts key) = Some ''static''
     \<and> key \<noteq> graph_key \<and> key \<noteq> vars_key"

lemma get_plain:
  assumes "sw_inst w = services_only f" "addressed E name key m"
  shows "get_service E ''*'' name w = (Inr (base_service f key m), w\<lparr>sw_inst := services_only (f(key \<mapsto> base_service f key m))\<rparr>)"
proof (cases "f key")
  case None
  then show ?thesis using assms unfolding addressed_def
    by (auto simp: get_service_def instantiate_one_def instantiate_def services_only_def base_service_def make_service_def fun_eq_iff)
next
  case (Some s)
  then have "f(key \<mapsto> s) = f" by auto
  with Some show ?thesis using assms unfolding addressed_def
    by (auto simp: get_service_def instantiate_one_def services_only_def base_service_def downcast_def)
qed

lemma closure_plain:
  assumes "sw_inst w = services_only f" "addressed (demo_svc ms) name key m" "plain m" "sv_meta (base_service f key m) = m"
  shows "\<exists>w'. start_closure (demo_svc ms) (start_named name) sockets [] vh w = (Inr (Some (key, False)), w')
    \<and> sw_inst w' = services_only (f(key \<mapsto> started_plain (sw_calls w) (base_service f key m)))
    \<and> EDispatch (SvcReconcile key EvStarted) \<in> set (sw_out w')"
proof -
  let ?s = "base_service f key m"
  let ?v = "w\<lparr>sw_inst := services_only (f(key \<mapsto> ?s))\<rparr>"
  have key: "ensure_scoped_name name = key" "instance_key (demo_svc ms) ''*'' name = key"
    using assms(2) by (simp_all add: addressed_def instance_key_def)
  have t: "sm_transport m = None" "\<not> sm_singleton m" "sm_on_start m = None" "runs_plainly m"
    using assms(3) by (auto simp: plain_def runs_plainly_def)
  obtain nm where "key_parts key = (nm, Some ''static'')" using assms(2) by (cases "key_parts key") (simp add: addressed_def)
  then obtain w1 where w1: "spawn_all (demo_svc ms) ?s None sockets (Some []) (Some vh) key (namespace_mounts (demo_svc ms) name) ?v =
      (Inr [child_new [] None (Some (ProcessHandle (of_nat (100 + sw_calls ?v))))], w1)" "sw_inst w1 = sw_inst ?v"
    using spawn_all_plain [of ?s key nm ms] t(4) assms(4) by metis
  have "start_service (demo_svc ms) ?s sockets (Some []) (Some vh) key (namespace_mounts (demo_svc ms) name) ?v =
      (started_plain (sw_calls w) ?s, emit_all [EDispatch (SvcReconcile key EvStarted), EDispatch (TimReconcile key EvStarted)] w1)"
    using w1 t(1-3) assms(4) by (simp add: start_service_def Let_def register_service_transport_def run_triggers_def started_plain_def)
  then have "start_closure (demo_svc ms) (start_named name) sockets [] vh w =
     (Inr (Some (key, False)), put_service key (started_plain (sw_calls w) ?s)
        (emit_all [EDispatch (SvcReconcile key EvStarted), EDispatch (TimReconcile key EvStarted)] w1))"
    using get_plain [OF assms(1,2)] t(1-3) assms(4) key
    by (simp add: start_closure_def start_named_def Let_def register_service_transport_def)
  then show ?thesis
    using w1(2) by (auto simp: put_service_def emit_all_def services_only_def fun_eq_iff)
qed

lemma start_plain:
  assumes "sw_inst w = inst_of f" "f graph_key = None" "f vars_key = None" "addressed (demo_svc ms) name key m" "plain m"
    "sv_meta (base_service f key m) = m"
  shows "\<exists>w'. start_body (demo_svc ms) rec (start_named name) w = reconcile (demo_svc ms) rec key EvStarted w'
    \<and> sw_inst w' = inst_of (f(key \<mapsto> started_plain (sw_calls w) (base_service f key m)))
    \<and> EDispatch (SvcReconcile key EvStarted) \<in> set (sw_out w')"
proof -
  let ?sockets = "sockets_with (start_named name) (sw_inst w)"
  let ?f = "f(key \<mapsto> started_plain (sw_calls w) (base_service f key m))"
  obtain w' where w': "start_closure (demo_svc ms) (start_named name) ?sockets [] vh_new (w\<lparr>sw_inst := services_only f\<rparr>) =
      (Inr (Some (key, False)), w')" "sw_inst w' = services_only ?f" "EDispatch (SvcReconcile key EvStarted) \<in> set (sw_out w')"
    using closure_plain [of "w\<lparr>sw_inst := services_only f\<rparr>" f ms name key m ?sockets vh_new] assms(4-6) by auto
  have "with_singletons graph_and_vars (\<lambda>xs. start_closure (demo_svc ms) (start_named name) ?sockets (taken_graph xs) (taken_vars xs)) w =
      (Inr (Some (key, False)), w'\<lparr>sw_inst := inst_of ?f\<rparr>)"
    by (rule singletons_of [OF assms(1-3)]) (simp_all add: w')
  then show ?thesis using w'(3) unfolding start_body_def Let_def by auto
qed

section \<open>Services that wait for each other\<close>

definition waiting_meta :: "ustr \<Rightarrow> ustr \<Rightarrow> service_meta" where
  "waiting_meta name other = (plain_service name)\<lparr>sm_after := Some [other]\<rparr>"

definition waiting_cycle :: svc_env where
  "waiting_cycle = demo_svc [waiting_meta ''a'' ''g:b'', waiting_meta ''b'' ''g:a'']"

lemma plain_waiting: "plain (waiting_meta name other)"
  by (simp add: plain_def runs_plainly_def waiting_meta_def plain_service_def)

definition all_active :: "(ustr \<rightharpoonup> service) \<Rightarrow> ustr \<Rightarrow> service_meta \<Rightarrow> bool" where
  "all_active f key m \<longleftrightarrow> (case f key of None \<Rightarrow> True
     | Some s \<Rightarrow> sv_meta s = m \<and> list_all (\<lambda>c. ci_state c = SActive) (sv_instances s))"

lemma all_active_base: "all_active f key m \<Longrightarrow> sv_meta (base_service f key m) = m \<and>
    list_all (\<lambda>c. ci_state c = SActive) (sv_instances (base_service f key m))"
  by (auto simp: all_active_def base_service_def service_new_def split: option.splits)

lemma started_all_active:
  assumes "all_active f key m"
  shows "all_active (f(key \<mapsto> started_plain k (base_service f key m))) key m"
    "running_well (started_plain k (base_service f key m))"
    "key' \<noteq> key \<Longrightarrow> all_active (f(key \<mapsto> s)) key' m' = all_active f key' m'"
proof -
  have "list_all (\<lambda>c. ci_state c = SActive) (sv_instances (started_plain k (base_service f key m)))"
    "sv_instances (started_plain k (base_service f key m)) \<noteq> []"
    using all_active_base [OF assms]
    by (cases "sv_instances (base_service f key m)"; simp add: started_plain_def child_new_def set_state_def)+
  then show "all_active (f(key \<mapsto> started_plain k (base_service f key m))) key m"
    "running_well (started_plain k (base_service f key m))"
    using all_active_base [OF assms]
    by (auto simp: all_active_def running_well_def list_all_iff list_ex_iff started_plain_def)
qed (simp add: all_active_def)

lemma demo_items: "get_in_group tid_service ''g'' \<lparr>me_name = ''static'', me_name_to_type = Map.empty, me_parsers = Map.empty,
       me_values = [(''g'', [mt_meta tid_service \<mapsto> AnyItems (mt_meta tid_service) us])]\<rparr> = Some us"
  by (simp add: get_in_group_def group_values_def)

lemma demo_addressed:
  assumes "rslvns_res name = (''g'', n, ''static'')" "CHR ''@'' \<notin> set name" "CHR '':'' \<in> set name" "snd (key_parts (name @ ''@static'')) = Some ''static''"
    "hd name = CHR ''g''"
    "find (\<lambda>m. sm_name m = n) ms = Some m"
  shows "addressed (demo_svc ms) name (name @ ''@static'') m"
proof -
  have "sn_scope (parse_scoped_name name) = ''static''" using assms(1) by (simp add: parse_scoped_name_def)
  moreover have "find (\<lambda>i. item_name i = n) (map UService ms) = map_option UService (find (\<lambda>m. sm_name m = n) ms)"
    by (induction ms) simp_all
  moreover have "name @ ''@static'' \<noteq> graph_key" "name @ ''@static'' \<noteq> vars_key"
    using assms(3,5) by (cases name; simp add: graph_key_def vars_key_def)+
  ultimately show ?thesis using assms
    by (simp add: addressed_def demo_svc_def demo_units_def resolved_metadata_and_full_name_def resolve_metadata_key_def
        has_metadata_def rslvns_scp_def mr_find_def mr_lookup_def group_items_def demo_items ensure_scoped_name_def Let_def)
qed

lemma cycle_addressed:
  "addressed waiting_cycle ''g:a'' (''g:a'' @ ''@static'') (waiting_meta ''a'' ''g:b'')"
  "addressed waiting_cycle ''g:b'' (''g:b'' @ ''@static'') (waiting_meta ''b'' ''g:a'')"
proof -
  have "rslvns_res ''g:a'' = (''g'', ''a'', ''static'')" "rslvns_res ''g:b'' = (''g'', ''b'', ''static'')"
    "snd (key_parts (''g:a'' @ ''@static'')) = Some ''static''" "snd (key_parts (''g:b'' @ ''@static'')) = Some ''static''"
    by code_simp+
  then show "addressed waiting_cycle ''g:a'' (''g:a'' @ ''@static'') (waiting_meta ''a'' ''g:b'')"
    "addressed waiting_cycle ''g:b'' (''g:b'' @ ''@static'') (waiting_meta ''b'' ''g:a'')"
    unfolding waiting_cycle_def
    using demo_addressed [of "''g:a''" "''a''"] demo_addressed [of "''g:b''" "''b''"]
    by (simp_all add: waiting_meta_def plain_service_def)
qed

lemma demo_grouped: "grouped_items tid_service \<lparr>me_name = ''static'', me_name_to_type = Map.empty, me_parsers = Map.empty,
       me_values = [(''g'', [mt_meta tid_service \<mapsto> AnyItems (mt_meta tid_service) us])]\<rparr> = map (Pair ''g'') us"
  by (simp add: grouped_items_def me_groups_def demo_items)

lemma cycle_dependents:
  "dependents_of waiting_cycle ''g:a'' = [(''g:b'', waiting_meta ''b'' ''g:a'')]"
  "dependents_of waiting_cycle ''g:b'' = [(''g:a'', waiting_meta ''a'' ''g:b'')]"
  by (simp_all add: dependents_of_def waiting_cycle_def demo_svc_def demo_units_def demo_grouped service_items_def List.map_filter_def
      waiting_meta_def plain_service_def unit_full_name_def)

lemma one_plain:
  "addressed E name key m \<Longrightarrow> f key = Some s \<Longrightarrow> one_service E ''*'' name (inst_of f) = Inr s"
  by (simp add: addressed_def one_service_def as_one_def inst_of_def services_only_def downcast_def Let_def)

section \<open>Services that wake each other\<close>

text \<open>The facet graph and the variables are in their places.\<close>

definition singletons_ready :: "facet_graph \<Rightarrow> variable_heap \<Rightarrow> svc_world \<Rightarrow> bool" where
  "singletons_ready g v w \<longleftrightarrow>
     sw_inst w graph_key = Some [(tid_graph, IGraph g)] \<and> sw_inst w vars_key = Some [(tid_vars, IVars v)]"

text \<open>A service has never been started, or all its children are active; and how many it has.\<close>

definition settled :: "ustr \<Rightarrow> service_meta \<Rightarrow> svc_world \<Rightarrow> bool" where
  "settled key m w \<longleftrightarrow> sw_inst w key = None \<or>
     (\<exists>s. sw_inst w key = Some [(mt_id tid_service, IService s)] \<and> sv_meta s = m \<and> list_all (\<lambda>c. ci_state c = SActive) (sv_instances s))"

fun children_at :: "ustr \<Rightarrow> svc_world \<Rightarrow> nat" where
  "children_at key w = (case sw_inst w key of Some [(_, IService s)] \<Rightarrow> length (sv_instances s) | _ \<Rightarrow> 0)"

text \<open>Whenever it is tried, the processes of a service can be spawned.\<close>

definition can_spawn :: "svc_env \<Rightarrow> facet_graph \<Rightarrow> variable_heap \<Rightarrow> ustr \<Rightarrow> ustr \<Rightarrow> service_meta \<Rightarrow> bool" where
  "can_spawn E g v name key m \<longleftrightarrow> (\<forall>s sockets w. sv_meta s = m \<longrightarrow>
     (\<exists>cs w'. spawn_all E s None sockets (Some (fg_facets g)) (Some v) key (namespace_mounts E name) w = (Inr cs, w') \<and> cs \<noteq> []))"

text \<open>
  The service \<open>m\<close>, known as \<open>name\<close> and kept under \<open>key\<close>, waits for \<open>other\<close>: it is its first dependent,
  its conditions hold, and nothing stands in the way of starting it.
\<close>

definition woken_by :: "svc_env \<Rightarrow> facet_graph \<Rightarrow> variable_heap \<Rightarrow> ustr \<Rightarrow> ustr \<Rightarrow> service_meta \<Rightarrow> ustr \<Rightarrow> bool" where
  "woken_by E g v name key m other \<longleftrightarrow>
     addressed E name key m \<and> instance_key_name key = name \<and> can_spawn E g v name key m
     \<and> \<not> sm_singleton m \<and> sm_transport m = None
     \<and> (case sm_start_on m of None \<Rightarrow> True
        | Some conds \<Rightarrow> list_all (\<lambda>cond. condition_is_active (se_lib E) (fg_facets g) cond None) conds)
     \<and> (\<exists>ds. dependents_of E other = (name, m) # ds)"

lemma singletons_taken:
  assumes "singletons_ready g v w"
    "F [IGraph g, IVars v] (w\<lparr>sw_inst := (sw_inst w)(graph_key := None, vars_key := None)\<rparr>) = (r, w')"
  shows "with_singletons graph_and_vars F w =
     (r, w'\<lparr>sw_inst := (sw_inst w')(graph_key \<mapsto> [(tid_graph, IGraph g)], vars_key \<mapsto> [(tid_vars, IVars v)])\<rparr>)"
  using assms by (simp add: with_singletons_def graph_and_vars_def singletons_ready_def downcast_def)

lemma get_settled:
  assumes "settled key m w" "addressed E name key m"
  shows "\<exists>s. get_service E ''*'' name w = (Inr s, w\<lparr>sw_inst := (sw_inst w)(key \<mapsto> [(mt_id tid_service, IService s)])\<rparr>)
     \<and> sv_meta s = m \<and> list_all (\<lambda>c. ci_state c = SActive) (sv_instances s) \<and> length (sv_instances s) = children_at key w"
proof (cases "sw_inst w key")
  case None
  then show ?thesis using assms(2) unfolding addressed_def
    by (auto simp: get_service_def instantiate_one_def instantiate_def make_service_def service_new_def)
next
  case (Some bs)
  then obtain s where s: "bs = [(mt_id tid_service, IService s)]" "sv_meta s = m" "list_all (\<lambda>c. ci_state c = SActive) (sv_instances s)"
    using assms(1) by (auto simp: settled_def)
  moreover from Some s have "(sw_inst w)(key \<mapsto> [(mt_id tid_service, IService s)]) = sw_inst w" by auto
  ultimately show ?thesis using Some assms(2) unfolding addressed_def
    by (auto simp: get_service_def instantiate_one_def downcast_def)
qed

lemma start_service_spawned:
  assumes "spawn_all E s None sockets (Some facets) (Some v) key mounts w = (Inr cs, w')" "cs \<noteq> []"
    "\<not> sm_singleton (sv_meta s)" "sm_transport (sv_meta s) = None" "list_all (\<lambda>c. ci_state c = SActive) (sv_instances s)"
  shows "\<exists>s' w2. start_service E s sockets (Some facets) (Some v) key mounts w = (s', w2) \<and> sw_inst w2 = sw_inst w
     \<and> sv_meta s' = sv_meta s \<and> list_all (\<lambda>c. ci_state c = SActive) (sv_instances s')
     \<and> length (sv_instances s') = length (sv_instances s) + length cs"
proof -
  have k: "sw_inst w' = sw_inst w" "list_all (\<lambda>c. ci_state c = SActive) cs"
    using spawning.spawned [OF assms(1) refl] by auto
  have f: "list_all (\<lambda>c. ci_state c = SActive) (on_first (set_state SActive) xs) = list_all (\<lambda>c. ci_state c = SActive) (tl xs)"
    "length (on_first (set_state SActive) xs) = length xs" for xs
    by (cases xs; simp add: set_state_def)+
  have "list_all (\<lambda>c. ci_state c = SActive) (tl (sv_instances s @ cs))"
    using assms(5) k(2) by (cases "sv_instances s"; cases cs) auto
  then show ?thesis using assms k
    by (simp add: start_service_def register_service_transport_def run_triggers_def emit_all_def Let_def f split: option.split)
qed

text \<open>Starting such a service: it has more children than before, all are active, and its dependents come next.\<close>

lemma start_woken:
  assumes "singletons_ready g v w" "settled key m w" "woken_by E g v name key m other"
  shows "\<exists>w'. (\<forall>rec. start_body E rec (start_named name) w = reconcile E rec key EvStarted w')
    \<and> settled key m w' \<and> children_at key w < children_at key w' \<and> (\<forall>k. k \<noteq> key \<longrightarrow> sw_inst w' k = sw_inst w k)
    \<and> singletons_ready g v w'"
proof -
  let ?v = "w\<lparr>sw_inst := (sw_inst w)(graph_key := None, vars_key := None)\<rparr>" and ?sockets = "sockets_with (start_named name) (sw_inst w)"
  have a: "addressed E name key m" and other: "\<not> sm_singleton m" "sm_transport m = None" and sp: "can_spawn E g v name key m"
    using assms(3) by (simp_all add: woken_by_def)
  then have key: "key \<noteq> graph_key" "key \<noteq> vars_key" "ensure_scoped_name name = key" "instance_key E ''*'' name = key"
    by (simp_all add: addressed_def instance_key_def)
  have "settled key m ?v" "children_at key ?v = children_at key w" using assms(2) key by (auto simp: settled_def)
  with get_settled [OF _ a] obtain s where s: "get_service E ''*'' name ?v =
        (Inr s, ?v\<lparr>sw_inst := (sw_inst ?v)(key \<mapsto> [(mt_id tid_service, IService s)])\<rparr>)" (is "_ = (_, ?u)")
      "sv_meta s = m" "list_all (\<lambda>c. ci_state c = SActive) (sv_instances s)" "length (sv_instances s) = children_at key w" by metis
  from sp s(2) obtain cs w1 where
    cs: "spawn_all E s None ?sockets (Some (fg_facets g)) (Some v) key (namespace_mounts E name) ?u = (Inr cs, w1)" "cs \<noteq> []"
    unfolding can_spawn_def by blast
  from start_service_spawned [OF cs _ _ s(3)] other s(2) obtain s' w2 where
    st: "start_service E s ?sockets (Some (fg_facets g)) (Some v) key (namespace_mounts E name) ?u = (s', w2)" "sw_inst w2 = sw_inst ?u"
      "sv_meta s' = m" "list_all (\<lambda>c. ci_state c = SActive) (sv_instances s')" "length (sv_instances s') = children_at key w + length cs"
    using s(4) by auto
  let ?w2 = "w2\<lparr>sw_inst := (sw_inst w2)(key \<mapsto> [(mt_id tid_service, IService s')])\<rparr>"
  let ?w' = "?w2\<lparr>sw_inst := (sw_inst ?w2)(graph_key \<mapsto> [(tid_graph, IGraph g)], vars_key \<mapsto> [(tid_vars, IVars v)])\<rparr>"
  have "start_closure E (start_named name) ?sockets (fg_facets g) v ?v = (Inr (Some (key, False)), ?w2)"
    using s(1,2) st(1,2) other key
    by (simp add: start_closure_def start_named_def register_service_transport_def put_service_def Let_def)
  then have "with_singletons graph_and_vars (\<lambda>xs. start_closure E (start_named name) ?sockets (taken_graph xs) (taken_vars xs)) w =
      (Inr (Some (key, False)), ?w')"
    by (intro singletons_taken [OF assms(1)]) simp
  then have "start_body E rec (start_named name) w = reconcile E rec key EvStarted ?w'" for rec
    unfolding start_body_def Let_def by simp
  moreover have "sw_inst ?w' = (sw_inst w)(key \<mapsto> [(mt_id tid_service, IService s')])"
    using assms(1) key st(2) by (auto simp: singletons_ready_def fun_eq_iff)
  ultimately show ?thesis
    using assms(1) key st(3-5) cs(2) by (intro exI [of _ ?w']) (auto simp: settled_def singletons_ready_def)
qed

lemma woken_same_key: "woken_by E g v a ka ma b \<Longrightarrow> woken_by E g v b kb mb a \<Longrightarrow> ka = kb \<Longrightarrow> ma = mb"
  by (auto simp: woken_by_def addressed_def)

text \<open>One service of the pair is started, and from there the other one.\<close>

lemma woken_step:
  assumes "woken_by E g v a ka ma b" "woken_by E g v b kb mb a" "singletons_ready g v w" "settled ka ma w" "settled kb mb w"
  shows "\<exists>w' rest. singletons_ready g v w' \<and> settled ka ma w' \<and> settled kb mb w' \<and> children_at ka w < children_at ka w'
    \<and> (\<forall>rec. start_body E rec (start_named a) w = and_then (rec (start_named b) w') (rest rec))"
proof -
  from start_woken [OF assms(3,4,1)] obtain w' where
    w': "\<And>rec. start_body E rec (start_named a) w = reconcile E rec ka EvStarted w'" "settled ka ma w'"
      "children_at ka w < children_at ka w'" "\<And>k. k \<noteq> ka \<Longrightarrow> sw_inst w' k = sw_inst w k" "singletons_ready g v w'" by blast
  have b: "settled kb mb w'"
    using w'(2,4) assms(5) woken_same_key [OF assms(1,2)] by (cases "ka = kb") (auto simp: settled_def)
  from assms(2) obtain ds where ds: "dependents_of E a = (b, mb) # ds" by (auto simp: woken_by_def)
  have "(b, mb) \<in> set (dependents_of E a)" by (simp add: ds)
  then obtain deps where "sm_after mb = Some deps" "a \<in> set deps" by (auto simp: dependents_of_def split: option.splits)
  moreover have "0 < children_at ka w'" by (rule le_less_trans [OF le0 w'(3)])
  with w'(2) obtain s where "sw_inst w' ka = Some [(mt_id tid_service, IService s)]"
      "list_all (\<lambda>c. ci_state c = SActive) (sv_instances s)" "sv_instances s \<noteq> []"
    by (auto simp: settled_def)
  then have "case one_service E ''*'' a (sw_inst w') of Inr s \<Rightarrow> running_well s | Inl _ \<Rightarrow> False"
    using assms(1)
    by (auto simp: woken_by_def addressed_def one_service_def as_one_def downcast_def Let_def running_well_def list_all_iff list_ex_iff)
  ultimately have "dependent_ready E mb (sw_inst w')"
    using assms(2) w'(5)
    by (auto simp: dependent_ready_def woken_by_def singletons_ready_def singleton_of_def downcast_def list_ex_iff split: option.splits)
  moreover have "instance_key_name ka = a" using assms(1) by (simp add: woken_by_def)
  ultimately have "start_body E rec (start_named a) w = and_then (rec (start_named b) w')
      ((\<lambda>rec v. and_then (start_dependents E rec ds v) (\<lambda>u. Some (Inr (), emit_all [EDispatch (TimReconcile ka EvStarted)] u))) rec)" for rec
    by (simp add: w'(1) reconcile_def reconcile_stacks_def ds stopped_kind_def and_then_def Let_def split: option.split sum.split prod.split)
  then have "\<exists>rest. \<forall>rec. start_body E rec (start_named a) w = and_then (rec (start_named b) w') (rest rec)"
    by (intro exI allI)
  then show ?thesis using w'(2,3,5) b by blast
qed

lemma woken_forever:
  "woken_by E g v a ka ma b \<Longrightarrow> woken_by E g v b kb mb a \<Longrightarrow> singletons_ready g v w \<Longrightarrow> settled ka ma w \<Longrightarrow> settled kb mb w \<Longrightarrow>
   svc_start n E (start_named a) w = None"
proof (induction n arbitrary: a ka ma b kb mb w)
  case (Suc n)
  from woken_step [OF Suc.prems] obtain w' rest where
    "singletons_ready g v w'" "settled kb mb w'" "settled ka ma w'"
    "start_body E (svc_start n E) (start_named a) w = and_then (svc_start n E (start_named b) w') (rest (svc_start n E))" by blast
  with Suc.IH [OF Suc.prems(2,1)] show ?case by (simp add: and_then_def)
qed simp

text \<open>
  C36. Two services that wait for each other are started without end. Take any two services of which
  each is the first dependent of the other, neither a singleton nor with a transport, whose conditions
  hold and whose processes can be spawned; none has been started yet, or all their children are
  active. Starting one gives it more children than it had and then starts the other, in a state where
  the same holds again: so whatever the fuel, the start does not return. (The start itself has no
  panic: here \<open>None\<close> is running out of fuel.)
\<close>

theorem waiting_cycle_diverges:
  assumes "woken_by E g v a ka ma b" "woken_by E g v b kb mb a" "singletons_ready g v w" "settled ka ma w" "settled kb mb w"
  shows "(\<exists>w' rest. singletons_ready g v w' \<and> settled ka ma w' \<and> settled kb mb w' \<and> children_at ka w < children_at ka w'
      \<and> (\<forall>rec. start_body E rec (start_named a) w = and_then (rec (start_named b) w') (rest rec)))
    \<and> svc_start n E (start_named a) w = None"
  using woken_step [OF assms] woken_forever [OF assms] by blast

lemma cycle_woken:
  assumes "addressed waiting_cycle name key m" "instance_key_name key = name" "dependents_of waiting_cycle other = [(name, m)]"
    "m = waiting_meta n other"
  shows "woken_by waiting_cycle \<lparr>fg_facets = [], fg_scoped = []\<rparr> v name key m other"
proof -
  have p: "runs_plainly m" "\<not> sm_singleton m" "sm_transport m = None" "sm_start_on m = None"
    using plain_waiting [of n other] by (simp_all add: assms(4) plain_def runs_plainly_def) (simp add: waiting_meta_def plain_service_def)
  obtain nm where k: "key_parts key = (nm, Some ''static'')" using assms(1) by (cases "key_parts key") (simp add: addressed_def)
  have "can_spawn waiting_cycle \<lparr>fg_facets = [], fg_scoped = []\<rparr> v name key m"
    unfolding can_spawn_def waiting_cycle_def using spawn_all_plain [OF _ k] p(1) by fastforce
  then show ?thesis using assms p by (simp add: woken_by_def)
qed

theorem waiting_cycle_diverges_witness: "svc_start 7 waiting_cycle (start_named ''g:a'') quiet_world = None"
proof -
  have k: "instance_key_name (''g:a'' @ ''@static'') = ''g:a''" "instance_key_name (''g:b'' @ ''@static'') = ''g:b''" by code_simp+
  have "singletons_ready \<lparr>fg_facets = [], fg_scoped = []\<rparr> vh_new quiet_world"
    "settled (''g:a'' @ ''@static'') m quiet_world" "settled (''g:b'' @ ''@static'') m quiet_world" for m
    by (simp_all add: singletons_ready_def settled_def quiet_world_def world_with_def graph_key_def vars_key_def)
  then show ?thesis
    using waiting_cycle_diverges [OF cycle_woken [OF cycle_addressed(1) k(1) cycle_dependents(2) refl]
        cycle_woken [OF cycle_addressed(2) k(2) cycle_dependents(1) refl], of vh_new quiet_world 7] by blast
qed

section \<open>Dependents\<close>

lemma pair_addressed:
  "addressed waiting_pair ''g:a'' (''g:a'' @ ''@static'') (plain_service ''a'')"
  "addressed waiting_pair ''g:b'' (''g:b'' @ ''@static'') (waiting_meta ''b'' ''g:a'')"
proof -
  have "rslvns_res ''g:a'' = (''g'', ''a'', ''static'')" "rslvns_res ''g:b'' = (''g'', ''b'', ''static'')"
    "snd (key_parts (''g:a'' @ ''@static'')) = Some ''static''" "snd (key_parts (''g:b'' @ ''@static'')) = Some ''static''"
    by code_simp+
  then show "addressed waiting_pair ''g:a'' (''g:a'' @ ''@static'') (plain_service ''a'')"
    "addressed waiting_pair ''g:b'' (''g:b'' @ ''@static'') (waiting_meta ''b'' ''g:a'')"
    unfolding waiting_pair_def
    using demo_addressed [of "''g:a''" "''a''"] demo_addressed [of "''g:b''" "''b''"]
    by (simp_all add: waiting_meta_def plain_service_def)
qed

lemma pair_dependents:
  "dependents_of waiting_pair ''g:a'' = [(''g:b'', waiting_meta ''b'' ''g:a'')]" "dependents_of waiting_pair ''g:b'' = []"
  by (simp_all add: dependents_of_def waiting_pair_def demo_svc_def demo_units_def demo_grouped service_items_def List.map_filter_def
      waiting_meta_def plain_service_def unit_full_name_def)

text \<open>Handling the start of \<open>a\<close>, or of its dependents, when \<open>a\<close> runs: \<open>b\<close> gets one more child.\<close>

lemma dependent_started_once_more:
  assumes "sw_inst w = inst_of f" "f graph_key = None" "f vars_key = None" "f (''g:a'' @ ''@static'') = Some sa" "running_well sa"
    "sv_meta (base_service f (''g:b'' @ ''@static'') (waiting_meta ''b'' ''g:a'')) = waiting_meta ''b'' ''g:a''"
  shows "\<exists>w'. reconcile_stacks waiting_pair (svc_start (Suc n) waiting_pair) (''g:a'' @ ''@static'') EvStarted w = Some (Inr (), w')
    \<and> sw_inst w' = inst_of (f(''g:b'' @ ''@static'' \<mapsto>
        started_plain (sw_calls w) (base_service f (''g:b'' @ ''@static'') (waiting_meta ''b'' ''g:a''))))"
proof -
  have k: "instance_key_name (''g:a'' @ ''@static'') = ''g:a''" "instance_key_name (''g:b'' @ ''@static'') = ''g:b''" by code_simp+
  have "dependent_ready waiting_pair (waiting_meta ''b'' ''g:a'') (sw_inst w)"
    using one_plain [OF pair_addressed(1), of f sa] assms(1,4,5) by (simp add: dependent_ready_def waiting_meta_def plain_service_def)
  moreover from start_plain [OF assms(1-3) pair_addressed(2) [unfolded waiting_pair_def] plain_waiting assms(6), folded waiting_pair_def]
  obtain w1 where w1: "start_body waiting_pair (svc_start n waiting_pair) (start_named ''g:b'') w =
        reconcile waiting_pair (svc_start n waiting_pair) (''g:b'' @ ''@static'') EvStarted w1"
      "sw_inst w1 = inst_of (f(''g:b'' @ ''@static'' \<mapsto>
        started_plain (sw_calls w) (base_service f (''g:b'' @ ''@static'') (waiting_meta ''b'' ''g:a''))))" by blast
  ultimately show ?thesis
    using w1(2) by (simp add: reconcile_stacks_def k pair_dependents stopped_kind_def and_then_def w1(1) reconcile_def emit_all_def
        del: append.simps)
qed

definition processes :: "service \<Rightarrow> nat" where
  "processes s = length (filter (\<lambda>c. ci_handle c \<noteq> None) (sv_instances s))"

definition processes_of :: "svc_env \<Rightarrow> ustr \<Rightarrow> svc_world \<Rightarrow> nat" where
  "processes_of E name w = (case one_service E ''*'' name (sw_inst w) of Inr s \<Rightarrow> processes s | Inl _ \<Rightarrow> 0)"

lemma processes_started: "processes (started_plain k s) = Suc (processes s)" "sv_meta (started_plain k s) = sv_meta s"
  by (cases "sv_instances s"; simp add: processes_def started_plain_def set_state_def child_new_def)+

text \<open>
  A dependent is started twice. Starting a service starts what waits for it at once, and dispatches a
  message to do the same; when that message is handled the dependent gets a second process.
\<close>

theorem dependents_started_twice:
  "\<exists>w w'. services_handle waiting_pair (svc_start 3 waiting_pair) (SvcStart (start_named ''g:a'')) quiet_world = Some (Inr (), w)
     \<and> processes_of waiting_pair ''g:b'' w = 1
     \<and> EDispatch (SvcReconcile (''g:a'' @ ''@static'') EvStarted) \<in> set (sw_out w)
     \<and> services_handle waiting_pair (svc_start 3 waiting_pair) (SvcReconcile (''g:a'' @ ''@static'') EvStarted) w = Some (Inr (), w')
     \<and> processes_of waiting_pair ''g:b'' w' = 2"
proof -
  let ?a = "''g:a'' @ ''@static''" and ?b = "''g:b'' @ ''@static''" and ?rec = "svc_start 2 waiting_pair"
  let ?mb = "waiting_meta ''b'' ''g:a''"
  have names: "?b \<noteq> graph_key" "?b \<noteq> vars_key" "?a \<noteq> graph_key" "?a \<noteq> vars_key" "?a \<noteq> ?b"
    by (simp_all add: graph_key_def vars_key_def)
  have w0: "sw_inst quiet_world = inst_of Map.empty"
    by (simp add: quiet_world_def world_with_def inst_of_def services_only_def fun_eq_iff)
  have a: "plain (plain_service ''a'')" "all_active Map.empty ?a (plain_service ''a'')"
    by (simp_all add: plain_def runs_plainly_def plain_service_def all_active_def)
  define sa where "sa = started_plain (sw_calls quiet_world) (base_service Map.empty ?a (plain_service ''a''))"
  have sa: "running_well sa" unfolding sa_def by (rule started_all_active(2) [OF a(2)])
  from start_plain [OF w0 _ _ pair_addressed(1) [unfolded waiting_pair_def] a(1), of ?rec, folded waiting_pair_def]
    all_active_base [OF a(2)]
  obtain w1 where w1: "start_body waiting_pair ?rec (start_named ''g:a'') quiet_world = reconcile waiting_pair ?rec ?a EvStarted w1"
      "sw_inst w1 = inst_of [?a \<mapsto> sa]" "EDispatch (SvcReconcile ?a EvStarted) \<in> set (sw_out w1)"
    unfolding sa_def by blast
  define sb where "sb = started_plain (sw_calls w1) (service_new ?mb)"
  have sb: "processes sb = 1" "sv_meta sb = ?mb" using processes_started [of "sw_calls w1" "service_new ?mb"] by (simp_all add: sb_def processes_def service_new_def)
  from dependent_started_once_more [OF w1(2), of sa 1] names sa
  obtain w2 where w2: "reconcile_stacks waiting_pair ?rec ?a EvStarted w1 = Some (Inr (), w2)" "sw_inst w2 = inst_of [?a \<mapsto> sa, ?b \<mapsto> sb]"
    by (auto simp: base_service_def service_new_def numeral_2_eq_2 sb_def simp del: append.simps)
  define w where "w = emit_all [EDispatch (TimReconcile ?a EvStarted)] w2"
  have w: "sw_inst w = inst_of [?a \<mapsto> sa, ?b \<mapsto> sb]" using w2(2) by (simp add: w_def emit_all_def)
  from dependent_started_once_more [OF w, of sa 2] names sa sb(2)
  obtain w3 where w3: "reconcile_stacks waiting_pair (svc_start 3 waiting_pair) ?a EvStarted w = Some (Inr (), w3)"
      "sw_inst w3 = inst_of [?a \<mapsto> sa, ?b \<mapsto> started_plain (sw_calls w) sb]"
    by (auto simp: base_service_def numeral_3_eq_3 fun_upd_twist simp del: append.simps)
  have "svc_start 3 waiting_pair (start_named ''g:a'') quiet_world = Some (Inr (), w)"
    using w1(1) w2(1) by (simp add: numeral_3_eq_3 numeral_2_eq_2 reconcile_def and_then_def w_def)
  moreover have "EDispatch (SvcReconcile ?a EvStarted) \<in> set (sw_out w)"
    using effects.stacks_reconciled [OF w2(1) effects.rec_start, of "sw_out w1"] w1(3) by (auto simp: w_def emit_all_def)
  moreover have "processes_of waiting_pair ''g:b'' w = 1" "processes_of waiting_pair ''g:b'' w3 = 2"
    using one_plain [OF pair_addressed(2)] by (simp_all add: processes_of_def w w3(2) sb processes_started)
  ultimately show ?thesis using w3(1) by (auto simp: services_handle_def simp del: svc_start.simps append.simps)
qed

end
