(* ===== verification/StartOrder.thy ===== *)
theory StartOrder
  imports ServiceStart
begin

text \<open>
  Which services and branches are started, and in which order: the branches selected for a facet, and
  the two rounds of \<open>start_all\<close>.
\<close>

section \<open>Branches\<close>

text \<open>The branch a payload asks for, unless it runs or is not selected.\<close>

definition wanted_branch ::
  "svc_env \<Rightarrow> facet_map \<Rightarrow> variable_heap \<Rightarrow> branching_config \<Rightarrow> child_instance list \<Rightarrow> flow_payload \<Rightarrow> branch_context option" where
  "wanted_branch E facets vh cfg children p =
     (case branch_key_from_payload (se_lib E) p (bc_key cfg) of
        None \<Rightarrow> None
      | Some key \<Rightarrow>
          if list_ex (\<lambda>i. ci_key i = key \<and> up i) children
             \<or> \<not> branch_selected (se_lib E) (se_toml_json E) (se_environment E) cfg key facets vh then None
          else Some \<lparr>bx_key = Some key, bx_payload = Some p, bx_forced_user = None\<rparr>)"

definition branch_limit :: "branching_config \<Rightarrow> child_instance list \<Rightarrow> nat \<Rightarrow> nat option" where
  "branch_limit cfg children started =
     map_option (\<lambda>m. if length children < m then m - started else 0) (bc_max_instances cfg)"

lemma select_branches_wanted:
  "select_branches E facets vh cfg children started ps =
     (let wanted = List.map_filter (wanted_branch E facets vh cfg children) ps
      in case branch_limit cfg children started of None \<Rightarrow> wanted | Some n \<Rightarrow> take n wanted)"
proof (induction ps arbitrary: started)
  case (Cons p ps)
  show ?case
  proof (cases "wanted_branch E facets vh cfg children p")
    case None
    then have "select_branches E facets vh cfg children started (p # ps) = select_branches E facets vh cfg children started ps"
      by (auto simp: wanted_branch_def split: option.splits if_splits)
    with None Cons.IH [of started] show ?thesis by (simp add: List.map_filter_def)
  next
    case (Some ctx)
    then have s: "select_branches E facets vh cfg children started (p # ps) =
        (if (case bc_max_instances cfg of Some m \<Rightarrow> length children \<ge> m \<or> started \<ge> m | None \<Rightarrow> False) then []
         else ctx # select_branches E facets vh cfg children (Suc started) ps)"
      by (auto simp: wanted_branch_def split: option.splits if_splits)
    show ?thesis
    proof (cases "bc_max_instances cfg")
      case (Some m)
      consider "length children < m" "started < m" | "length children \<ge> m \<or> started \<ge> m" by linarith
      then show ?thesis
      proof cases
        case 1
        then have "m - started = Suc (m - Suc started)" by simp
        with 1 Some Cons.IH [of "Suc started"] \<open>wanted_branch E facets vh cfg children p = Some ctx\<close> show ?thesis
          by (simp add: s branch_limit_def List.map_filter_def del: select_branches.simps)
      qed (use Some in \<open>auto simp: s branch_limit_def simp del: select_branches.simps\<close>)
    qed (use Cons.IH [of "Suc started"] \<open>wanted_branch E facets vh cfg children p = Some ctx\<close>
      in \<open>simp add: s branch_limit_def List.map_filter_def del: select_branches.simps\<close>)
  qed
qed (simp add: branch_limit_def List.map_filter_def split: option.split)

text \<open>
  C15. The branches that are started are the wanted ones in order, all without a limit. The limit bounds the
  children there are before and the branches started now separately, so with a limit of \<open>m\<close> up to
  \<open>2 * m - 1\<close> children result.
\<close>

theorem branches_started_exact:
  "select_branches E facets vh cfg children 0 ps =
     (let wanted = List.map_filter (wanted_branch E facets vh cfg children) ps
      in case bc_max_instances cfg of
           None \<Rightarrow> wanted | Some m \<Rightarrow> take (if length children < m then m else 0) wanted)"
  by (simp add: select_branches_wanted branch_limit_def Let_def split: option.split)

section \<open>All active services\<close>

fun start_each ::
  "svc_env \<Rightarrow> (start_args \<Rightarrow> svc_world \<Rightarrow> svc_world run) \<Rightarrow> ustr list \<Rightarrow> svc_world \<Rightarrow> svc_world option" where
  "start_each E rec [] w = Some w"
| "start_each E rec (n # ns) w =
     (case start_unless_up E rec n w of None \<Rightarrow> None | Some (_, w) \<Rightarrow> start_each E rec ns w)"

lemma start_each_append:
  "start_each E rec (xs @ ys) w = Option.bind (start_each E rec xs w) (start_each E rec ys)"
  by (induction xs arbitrary: w) (auto split: option.split)

text \<open>Every service comes after those it waits for.\<close>

fun after_order :: "ustr set \<Rightarrow> waiting \<Rightarrow> bool" where
  "after_order M [] = True"
| "after_order M ((n, as) # ds) = (set as \<subseteq> M \<and> after_order (insert n M) ds)"

lemma after_order_append: "after_order M (ds @ es) \<longleftrightarrow> after_order M ds \<and> after_order (M \<union> fst ` set ds) es"
proof (induction M ds rule: after_order.induct)
  case (2 M n as ds)
  then show ?case by (simp add: Un_insert_left [symmetric] del: Un_insert_left)
qed simp

definition first_services :: "(ustr \<times> service_meta) list \<Rightarrow> ustr list" where
  "first_services xs = map fst (filter (\<lambda>(_, m). sm_start_on m = None \<and> sm_after m = None) xs)"

definition waiting_services :: "(ustr \<times> service_meta) list \<Rightarrow> waiting" where
  "waiting_services xs = List.map_filter (\<lambda>(n, m). if sm_start_on m = None then map_option (Pair n) (sm_after m) else None) xs"

text \<open>
  The conditional services that are found running: those that are up when their turn in the list comes, after
  the services before them that wait for nothing have been started.
\<close>

definition found_running ::
  "svc_env \<Rightarrow> (start_args \<Rightarrow> svc_world \<Rightarrow> svc_world run) \<Rightarrow> (ustr \<times> service_meta) list \<Rightarrow> svc_world \<Rightarrow> ustr set" where
  "found_running E rec xs w =
     {n. \<exists>ys m zs u. xs = ys @ (n, m) # zs \<and> sm_start_on m \<noteq> None \<and> start_each E rec (first_services ys) w = Some u
           \<and> service_up E (ensure_scoped_name n) (sw_inst u)}"

lemma kinds_of_services [simp]:
  "first_services [] = []" "waiting_services [] = []" "found_running E rec [] w = {}"
  "first_services ((n, m) # xs) = (if sm_start_on m = None \<and> sm_after m = None then n # first_services xs else first_services xs)"
  "waiting_services ((n, m) # xs) = (case (sm_start_on m, sm_after m) of
     (None, Some as) \<Rightarrow> (n, as) # waiting_services xs | _ \<Rightarrow> waiting_services xs)"
  by (auto simp: first_services_def waiting_services_def found_running_def List.map_filter_def split: option.split)

lemma found_running_Cons [simp]:
  "found_running E rec ((n, m) # xs) w =
     (if sm_start_on m \<noteq> None then {k. k = n \<and> service_up E (ensure_scoped_name n) (sw_inst w)} \<union> found_running E rec xs w
      else if sm_after m \<noteq> None then found_running E rec xs w
      else (case start_unless_up E rec n w of None \<Rightarrow> {} | Some (_, u) \<Rightarrow> found_running E rec xs u))"
proof -
  have k: "k \<in> found_running E rec ((n, m) # xs) w \<longleftrightarrow>
      sm_start_on m \<noteq> None \<and> k = n \<and> service_up E (ensure_scoped_name n) (sw_inst w) \<or>
      (\<exists>ys m' zs u. xs = ys @ (k, m') # zs \<and> sm_start_on m' \<noteq> None \<and> start_each E rec (first_services ((n, m) # ys)) w = Some u
         \<and> service_up E (ensure_scoped_name k) (sw_inst u))" (is "_ \<longleftrightarrow> ?R k") for k
  proof
    assume "k \<in> found_running E rec ((n, m) # xs) w"
    then obtain ys m' zs u where f: "(n, m) # xs = ys @ (k, m') # zs" "sm_start_on m' \<noteq> None"
      "start_each E rec (first_services ys) w = Some u" "service_up E (ensure_scoped_name k) (sw_inst u)"
      by (auto simp: found_running_def)
    show "?R k"
    proof (cases ys)
      case Nil
      with f show ?thesis by simp
    next
      case (Cons y ys')
      with f have "xs = ys' @ (k, m') # zs" "y = (n, m)" by simp_all
      with f Cons show ?thesis by blast
    qed
  next
    assume "?R k"
    then show "k \<in> found_running E rec ((n, m) # xs) w"
    proof
      assume "sm_start_on m \<noteq> None \<and> k = n \<and> service_up E (ensure_scoped_name n) (sw_inst w)"
      then show ?thesis unfolding found_running_def by (intro CollectI exI [of _ "[]"] exI [of _ m] exI [of _ xs] exI [of _ w]) simp
    next
      assume "\<exists>ys m' zs u. xs = ys @ (k, m') # zs \<and> sm_start_on m' \<noteq> None \<and> start_each E rec (first_services ((n, m) # ys)) w = Some u
         \<and> service_up E (ensure_scoped_name k) (sw_inst u)"
      then obtain ys m' zs u where f: "xs = ys @ (k, m') # zs" "sm_start_on m' \<noteq> None"
        "start_each E rec (first_services ((n, m) # ys)) w = Some u" "service_up E (ensure_scoped_name k) (sw_inst u)" by blast
      then show ?thesis
        unfolding found_running_def by (intro CollectI exI [of _ "(n, m) # ys"] exI [of _ m'] exI [of _ zs] exI [of _ u]) simp
    qed
  qed
  show ?thesis
    by (rule set_eqI, cases "start_unless_up E rec n w"; cases "sm_start_on m"; cases "sm_after m")
      (simp_all add: k split: prod.split, simp_all add: found_running_def)
qed

lemma start_first_result:
  "start_first E rec xs started pend w = Some (Inr (started', pend'), w') \<Longrightarrow>
   start_each E rec (first_services xs) w = Some w' \<and> pend' = pend @ waiting_services xs
   \<and> set started' = set started \<union> set (first_services xs) \<union> found_running E rec xs w"
proof (induction xs arbitrary: started pend w)
  case (Cons x xs)
  obtain n m where x: "x = (n, m)" by (cases x)
  show ?case
  proof (cases "sm_start_on m = None \<and> sm_after m = None")
    case True
    then obtain v where v: "start_unless_up E rec n w = Some (Inr (), v)"
        "start_first E rec xs (hs_insert n started) pend v = Some (Inr (started', pend'), w')"
      using Cons.prems by (auto simp: x split: option.splits sum.splits)
    from Cons.IH [OF v(2)] v(1) True show ?thesis
      by (auto simp: x)
  next
    case False
    then consider (after) as where "sm_start_on m = None" "sm_after m = Some as" | (conditional) "sm_start_on m \<noteq> None" by (cases "sm_after m") auto
    then show ?thesis
    proof cases
      case after
      with Cons.prems have "start_first E rec xs started (pend @ [(n, as)]) w = Some (Inr (started', pend'), w')" by (simp add: x)
      from Cons.IH [OF this] after show ?thesis by (auto simp: x)
    next
      case conditional
      define st where "st = (if service_up E (ensure_scoped_name n) (sw_inst w) then hs_insert n started else started)"
      have st: "start_first E rec xs st pend w = Some (Inr (started', pend'), w')"
          "set st = set started \<union> {k. k = n \<and> service_up E (ensure_scoped_name n) (sw_inst w)}"
        using Cons.prems conditional by (auto simp: x st_def)
      from Cons.IH [OF st(1)] st(2) conditional show ?thesis by (auto simp: x)
    qed
  qed
qed simp

lemma start_pass_result:
  "start_pass E rec pend started w = Some (kept, started', w') \<Longrightarrow>
   \<exists>ds. start_each E rec (map fst ds) w = Some w' \<and> set started' = set started \<union> fst ` set ds \<and> mset pend = mset kept + mset ds
     \<and> after_order (set started) ds \<and> (ds = [] \<longrightarrow> (\<forall>e \<in> set kept. \<not> set (snd e) \<subseteq> set started))"
proof (induction pend arbitrary: started w kept)
  case (Cons x pend)
  obtain n as where x: "x = (n, as)" by (cases x)
  show ?case
  proof (cases "set as \<subseteq> set started")
    case True
    then have "list_all (\<lambda>a. a \<in> set started) as" by (auto simp: list_all_iff)
    with Cons.prems obtain r v where v: "start_unless_up E rec n w = Some (r, v)"
        "start_pass E rec pend (hs_insert n started) v = Some (kept, started', w')"
      by (auto simp: x split: option.splits)
    from Cons.IH [OF v(2)] obtain ds where "start_each E rec (map fst ds) v = Some w'"
      "set started' = insert n (set started) \<union> fst ` set ds" "mset pend = mset kept + mset ds" "after_order (insert n (set started)) ds"
      by auto
    with v(1) True show ?thesis by (intro exI [of _ "(n, as) # ds"]) (simp add: x)
  next
    case False
    then have "\<not> list_all (\<lambda>a. a \<in> set started) as" by (auto simp: list_all_iff)
    with Cons.prems obtain k where "start_pass E rec pend started w = Some (k, started', w')" "kept = (n, as) # k"
      by (auto simp: x)
    with Cons.IH False show ?thesis by (fastforce simp: x)
  qed
qed auto

lemma start_rounds_result:
  "start_rounds k E rec pend started w = Some (kept, started', w') \<Longrightarrow>
   \<exists>ds. start_each E rec (map fst ds) w = Some w' \<and> mset pend = mset kept + mset ds
     \<and> after_order (set started) ds \<and> (\<forall>e \<in> set kept. \<not> set (snd e) \<subseteq> set started \<union> fst ` set ds)"
proof (induction k arbitrary: pend started w)
  case (Suc k)
  obtain k1 st1 w1 where p: "start_pass E rec pend started w = Some (k1, st1, w1)"
    using Suc.prems by (auto split: option.splits)
  from start_pass_result [OF p] obtain ds where ds: "start_each E rec (map fst ds) w = Some w1" "set st1 = set started \<union> fst ` set ds"
    "mset pend = mset k1 + mset ds" "after_order (set started) ds" "ds = [] \<longrightarrow> (\<forall>e \<in> set k1. \<not> set (snd e) \<subseteq> set started)" by blast
  have len: "length pend = length k1 + length ds" using arg_cong [OF ds(3), of size] by simp
  show ?case
  proof (cases "length k1 < length pend")
    case True
    with Suc.prems p have "start_rounds k E rec k1 st1 w1 = Some (kept, started', w')" by simp
    from Suc.IH [OF this] obtain es where es: "start_each E rec (map fst es) w1 = Some w'" "mset k1 = mset kept + mset es"
      "after_order (set st1) es" "\<forall>e \<in> set kept. \<not> set (snd e) \<subseteq> set st1 \<union> fst ` set es" by blast
    with ds show ?thesis
      by (intro exI [of _ "ds @ es"]) (simp add: start_each_append after_order_append image_Un Un_assoc)
  next
    case False
    with len have "ds = []" by simp
    with Suc.prems p False ds show ?thesis by (intro exI [of _ "[]"]) simp
  qed
qed simp

lemma start_all_result:
  assumes "start_all E rec w = Some (Inr (), w')"
  shows "\<exists>services v ds left.
      with_singletons graph_singleton (\<lambda>xs w. (Inr (active_services E (taken_graph xs)), w)) w = (Inr services, v)
    \<and> start_each E rec (first_services services @ map fst ds) v = Some w'
    \<and> mset (waiting_services services) = mset ds + mset left
    \<and> after_order (set (first_services services) \<union> found_running E rec services v) ds
    \<and> (\<forall>e \<in> set left. \<not> set (snd e) \<subseteq> set (first_services services) \<union> found_running E rec services v \<union> fst ` set ds)"
proof -
  from assms obtain services v where s: "with_singletons graph_singleton (\<lambda>xs w. (Inr (active_services E (taken_graph xs)), w)) w = (Inr services, v)"
    by (auto simp: start_all_def simp del: start_rounds.simps split: prod.splits sum.splits)
  with assms obtain started pend v1 where f: "start_first E rec services [] [] v = Some (Inr (started, pend), v1)"
    by (auto simp: start_all_def simp del: start_rounds.simps split: option.splits sum.splits)
  with assms s obtain kept st where r: "start_rounds (Suc (length pend)) E rec pend started v1 = Some (kept, st, w')"
    by (auto simp: start_all_def simp del: start_rounds.simps)
  from start_first_result [OF f] have f': "start_each E rec (first_services services) v = Some v1" "pend = waiting_services services"
    and st: "set (first_services services) \<union> found_running E rec services v = set started" by auto
  from start_rounds_result [OF r] obtain ds where "start_each E rec (map fst ds) v1 = Some w'" "mset pend = mset kept + mset ds"
    "after_order (set started) ds" "\<forall>e \<in> set kept. \<not> set (snd e) \<subseteq> set started \<union> fst ` set ds" by blast
  with s f' show ?thesis
    by (intro exI [of _ services] exI [of _ v] exI [of _ ds] exI [of _ kept])
      (simp only: start_each_append st, simp add: add.commute)
qed

text \<open>
  C13. Starting all active services first starts, in order, those that wait for nothing and have no
  condition, and then the waiting ones, each once and after all it waits for, where a conditional service counts
  exactly if it is up when its turn comes; what is left over waits for something that was neither started nor,
  being conditional, found running.
\<close>

theorem start_all_order:
  assumes "start_all E rec w = Some (Inr (), w')"
  shows "\<exists>services v ds left.
      with_singletons graph_singleton (\<lambda>xs w. (Inr (active_services E (taken_graph xs)), w)) w = (Inr services, v)
    \<and> start_each E rec (first_services services @ map fst ds) v = Some w'
    \<and> mset (waiting_services services) = mset ds + mset left
    \<and> after_order (set (first_services services) \<union> found_running E rec services v) ds
    \<and> (\<forall>e \<in> set left. \<not> set (snd e) \<subseteq> set (first_services services) \<union> found_running E rec services v \<union> fst ` set ds)"
  by (rule start_all_result [OF assms])

definition active_pair :: facet_map where
  "active_pair = [(''rind:active'', map (\<lambda>n. \<lparr>fi_name = ''rind:active'', fi_payload = PString n, fi_type = FacetType\<rparr>) [''g:b'', ''g:a''])]"

definition quiet_start :: "start_args \<Rightarrow> svc_world \<Rightarrow> svc_world run" where
  "quiet_start a w = Some (Inr (), w)"

lemma start_all_order_witness:
  "\<exists>services v (ds :: waiting). start_each waiting_pair quiet_start (first_services services @ map fst ds) v =
     map_option snd (start_all waiting_pair quiet_start (world_with active_pair))"
proof -
  have "map_option fst (start_all waiting_pair quiet_start (world_with active_pair)) = Some (Inr ())" by code_simp
  then obtain w' where w': "start_all waiting_pair quiet_start (world_with active_pair) = Some (Inr (), w')" by auto
  from start_all_order [OF w'] show ?thesis unfolding w' option.map snd_conv by blast
qed

end
