(* ===== verification/ServiceProps.thy ===== *)
theory ServiceProps
  imports ServiceStart
begin

text \<open>
  Properties of the service runtime: what stopping, exiting and starting do to the processes of a
  service, which branches are started, in which order the active services come up, and where a
  service ends in a state its processes are not in.
\<close>

section \<open>Restarting\<close>

text \<open>
  C6. The limit on restarts is never reached. The code counts a failure on the child that failed, which
  has no process any more, and starts a new child that has counted nothing. So, whatever messages were
  handled since the daemon began without children, every failure of a child that was not stopped by
  hand is answered with a restart, however small the limit is.
\<close>

theorem restart_limit_never_reached:
  assumes "children_satisfy (\<lambda>_. False) (sw_inst w0)" "svc_reach E n w0 w"
    "sw_inst w key = Some bs" "(t, IService s) \<in> set bs" "find_by_pid pid (sv_instances s) = Some i"
    "sm_restart (sv_meta s) = Some (OnFailure limit)" "0 < limit" "code \<noteq> 0" "\<not> ci_manually_stopped (sv_instances s ! i)"
  shows "ci_retry_count (sv_instances s ! i) = 0 \<and> fst (handle_child_exit E s pid code sm key w) = Some ExitRestart"
proof -
  have "children_satisfy uncounted (sw_inst w0)" using assms(1) by (simp add: children_satisfy_def list_all_iff)
  from counters.reached [OF assms(2) this] assms(3,4) have l: "list_all uncounted (sv_instances s)"
    by (auto simp: children_satisfy_def)
  have "i < length cs \<and> ci_pid (cs ! i) = Some pid" if "find_by_pid pid cs = Some i" for cs i
    using that by (induction cs arbitrary: i) (auto split: if_splits)
  from this [OF assms(5)] l have "ci_retry_count (sv_instances s ! i) = 0"
    by (auto simp: list_all_length uncounted_def ci_pid_def)
  then show ?thesis using assms(5-9) by (simp add: handle_child_exit_def exit_action_for_def Let_def)
qed

definition retrying_meta :: service_meta where
  "retrying_meta = (plain_service ''a'')\<lparr>sm_restart := Some (OnFailure 1)\<rparr>"

lemma quiet_world_inst: "sw_inst quiet_world = inst_of Map.empty"
  by (simp add: quiet_world_def world_with_def inst_of_def services_only_def fun_eq_iff)

text \<open>One plain service, started once.\<close>

lemma one_started:
  assumes "plain m" "sm_name m = ''a''" "sm_after m = None"
  shows "\<exists>w. svc_reach (demo_svc [m]) 1 quiet_world w
    \<and> sw_inst w = inst_of [''g:a'' @ ''@static'' \<mapsto> started_plain 0 (service_new m)]"
proof -
  let ?E = "demo_svc [m]" and ?a = "''g:a'' @ ''@static''"
  have "rslvns_res ''g:a'' = (''g'', ''a'', ''static'')" "snd (key_parts ?a) = Some ''static''"
    and k: "instance_key_name ?a = ''g:a''" by code_simp+
  then have addr: "addressed ?E ''g:a'' ?a m" using demo_addressed [of "''g:a''" "''a''" "[m]" m] assms(2) by simp
  have "dependents_of ?E ''g:a'' = []"
    by (simp add: dependents_of_def demo_svc_def demo_units_def demo_grouped service_items_def List.map_filter_def assms(3))
  then have rec: "reconcile ?E rec ?a EvStarted v = Some (Inr (), emit_all [EDispatch (TimReconcile ?a EvStarted)] v)" for rec v
    by (simp add: reconcile_def reconcile_stacks_def k stopped_kind_def and_then_def del: append.simps)
  from start_plain [OF quiet_world_inst _ _ addr assms(1), of "svc_start 0 ?E"]
  obtain w where w: "start_body ?E (svc_start 0 ?E) (start_named ''g:a'') quiet_world = Some (Inr (), w)"
      "sw_inst w = inst_of [?a \<mapsto> started_plain 0 (service_new m)]"
    by (auto simp: rec base_service_def service_new_def emit_all_def quiet_world_def world_with_def simp del: append.simps)
  then have "services_handle ?E (svc_start 1 ?E) (SvcStart (start_named ''g:a'')) quiet_world = Some (Inr (), w)"
    by (simp add: services_handle_def)
  with w(2) show ?thesis unfolding svc_reach_def by (blast intro: svc_message)
qed

lemma restart_limit_never_reached_witness:
  "\<exists>w s. svc_reach (demo_svc [retrying_meta]) 1 quiet_world w \<and> sm_restart (sv_meta s) = Some (OnFailure 1)
     \<and> fst (handle_child_exit (demo_svc [retrying_meta]) s 100 1 None ''g:a@static'' w) = Some ExitRestart"
proof -
  let ?s = "started_plain 0 (service_new retrying_meta)"
  have m: "plain retrying_meta" "sm_name retrying_meta = ''a''" "sm_after retrying_meta = None"
    "sm_restart retrying_meta = Some (OnFailure 1)"
    by (simp_all add: retrying_meta_def plain_def runs_plainly_def plain_service_def)
  from one_started [OF m(1-3)] obtain w where w: "svc_reach (demo_svc [retrying_meta]) 1 quiet_world w"
    "sw_inst w = inst_of [''g:a'' @ ''@static'' \<mapsto> ?s]" by blast
  have "children_satisfy (\<lambda>_. False) (sw_inst quiet_world)"
    by (auto simp: children_satisfy_def quiet_world_inst inst_of_def services_only_def split: if_splits)
  moreover have "sw_inst w (''g:a'' @ ''@static'') = Some [(mt_id tid_service, IService ?s)]"
    by (simp add: w(2) inst_of_def services_only_def graph_key_def vars_key_def)
  moreover have "find_by_pid 100 (sv_instances ?s) = Some 0" "sv_meta ?s = retrying_meta" "\<not> ci_manually_stopped (sv_instances ?s ! 0)"
    by (simp_all add: started_plain_def service_new_def child_new_def set_state_def ci_pid_def)
  ultimately have "fst (handle_child_exit (demo_svc [retrying_meta]) ?s 100 1 None ''g:a@static'' w) = Some ExitRestart"
    using restart_limit_never_reached [OF _ w(1), where s = ?s and pid = 100 and i = 0 and limit = 1 and code = 1
        and key = "''g:a'' @ ''@static''" and bs = "[(mt_id tid_service, IService ?s)]" and t = "mt_id tid_service"] m(4) by simp
  with w(1) m(4) \<open>sv_meta ?s = retrying_meta\<close> show ?thesis by (intro exI [of _ w] exI [of _ ?s]) simp
qed

text \<open>
  A service that may run once and is to be restarted is restarted once. The child that exited stays
  first in the list and is what becomes active again, without a process; when the new process exits as
  well, the restart finds the first child active and does nothing. The service counts as running.
\<close>

theorem singleton_restarts_once:
  assumes "sm_singleton (sv_meta s)" "sm_restart (sv_meta s) = Some (RestartBool True)"
    and "sv_instances s = [c]" "ci_pid c = Some p" "\<not> ci_manually_stopped c"
    and "handle_child_exit E s p code sm key w = (act1, s1, w1)"
    and "spawn_all E s1 None sockets sm vh key mounts w2 = (Inr [c'], w3)" "ci_pid c' = Some p'" "\<not> ci_manually_stopped c'"
    and "start_service E s1 sockets sm vh key mounts w2 = (s2, w4)"
    and "handle_child_exit E s2 p' code' sm key w5 = (act2, s3, w6)"
  shows "act1 = Some ExitRestart \<and> map ci_pid (sv_instances s2) = [None, Some p']
    \<and> act2 = Some ExitRestart \<and> start_service E s3 sockets sm vh key mounts w7 = (s3, w7)
    \<and> list_all (\<lambda>c. ci_handle c = None) (sv_instances s3) \<and> list_ex up (sv_instances s3)"
proof -
  let ?gone = "\<lambda>c code. c\<lparr>ci_state := SExited code, ci_handle := None\<rparr>"
  have 1: "act1 = Some ExitRestart" "s1 = s\<lparr>sv_instances := [?gone c code], sv_last_state := SExited code\<rparr>"
    using assms(2-6) by (auto simp: handle_child_exit_def exit_action_for_def Let_def)
  have 2: "s2 = s1\<lparr>sv_instances := [set_state SActive (?gone c code), c']\<rparr>"
    using assms(1,7,10) 1 by (auto simp: start_service_def Let_def)
  have 3: "act2 = Some ExitRestart"
    "s3 = s2\<lparr>sv_instances := [set_state SActive (?gone c code), ?gone c' code'], sv_last_state := SExited code'\<rparr>"
    using assms(2,8,9,11) 1 2 by (auto simp: handle_child_exit_def exit_action_for_def Let_def ci_pid_def set_state_def)
  show ?thesis
    using assms(1,8) 1 2 3 by (simp add: start_service_def ci_pid_def set_state_def up_def)
qed

definition single_service :: "child_instance list \<Rightarrow> service" where
  "single_service cs = \<lparr>sv_meta = (plain_service ''a'')\<lparr>sm_singleton := True, sm_restart := Some (RestartBool True)\<rparr>,
     sv_instances = cs, sv_last_state = SActive\<rparr>"

lemma singleton_restarts_once_witness:
  "\<exists>s1 w1 s2 w2 s3 w3.
     handle_child_exit (demo_svc []) (single_service [child_new [] None (Some (ProcessHandle 7))]) 7 1 (Some []) ''a@static'' quiet_world =
       (Some ExitRestart, s1, w1)
     \<and> start_service (demo_svc []) s1 Map.empty (Some []) None ''a@static'' [] w1 = (s2, w2)
     \<and> handle_child_exit (demo_svc []) s2 100 1 (Some []) ''a@static'' w2 = (Some ExitRestart, s3, w3)
     \<and> start_service (demo_svc []) s3 Map.empty (Some []) None ''a@static'' [] w3 = (s3, w3) \<and> list_ex up (sv_instances s3)"
proof -
  let ?s = "single_service [child_new [] None (Some (ProcessHandle 7))]"
  obtain a1 s1 w1 where 1: "handle_child_exit (demo_svc []) ?s 7 1 (Some []) ''a@static'' quiet_world = (a1, s1, w1)" by (rule prod_cases3)
  have "runs_plainly (sv_meta s1)" "sw_calls w1 = 0"
    using 1 by (auto simp: handle_child_exit_def single_service_def child_new_def ci_pid_def exit_action_for_def Let_def run_triggers_def
        maybe_unregister_service_transport_def disarm_watchdog_pid_def quiet_world_def world_with_def runs_plainly_def plain_service_def)
  moreover have "key_parts ''a@static'' = (''a'', Some ''static'')" by code_simp
  ultimately obtain w2' where 2: "spawn_all (demo_svc []) s1 None Map.empty (Some []) None ''a@static'' [] w1 =
      (Inr [child_new [] None (Some (ProcessHandle 100))], w2')"
    using spawn_all_plain [of s1 "''a@static''" "''a''" "[]" Map.empty None "[]" w1] by auto
  obtain s2 w2 where 3: "start_service (demo_svc []) s1 Map.empty (Some []) None ''a@static'' [] w1 = (s2, w2)" by fastforce
  obtain a2 s3 w3 where 4: "handle_child_exit (demo_svc []) s2 100 1 (Some []) ''a@static'' w2 = (a2, s3, w3)" by (rule prod_cases3)
  have "sm_singleton (sv_meta ?s)" "sm_restart (sv_meta ?s) = Some (RestartBool True)" by (simp_all add: single_service_def)
  from singleton_restarts_once [OF this _ _ _ 1 2 _ _ 3 4, of "child_new [] None (Some (ProcessHandle 7))" w3] 1 3 4 show ?thesis
    by (simp add: single_service_def child_new_def ci_pid_def)
qed

section \<open>Stopping\<close>

text \<open>What a stop makes of a child.\<close>

definition stopped_child :: "ustr option \<Rightarrow> ustr option \<Rightarrow> nat \<Rightarrow> child_instance \<Rightarrow> child_instance" where
  "stopped_child key user now c =
     (if \<not> stop_matches key user c then c
      else if ci_handle c = None then c\<lparr>ci_state := SInactive\<rparr>
      else c\<lparr>ci_state := SStopping, ci_stop_time := Some now, ci_manually_stopped := True\<rparr>)"

definition signals_of :: "svc_effect list \<Rightarrow> (u32 \<times> signal) list" where
  "signals_of es = List.map_filter (\<lambda>e. case e of ESignal pid sig \<Rightarrow> Some (pid, sig) | _ \<Rightarrow> None) es"

lemma signals_of_append [simp]: "signals_of (a @ b) = signals_of a @ signals_of b"
  by (simp add: signals_of_def List.map_filter_def)

lemma signals_of_simps [simp]: "signals_of [] = []" "signals_of (ESignal pid sig # es) = (pid, sig) # signals_of es"
  "signals_of (EFlow f # es) = signals_of es" "signals_of (EDispatch d # es) = signals_of es" "signals_of (ENotify # es) = signals_of es"
  by (simp_all add: signals_of_def List.map_filter_def)

lemma signals_of_flow [simp]: "signals_of (map EFlow fs) = []"
  by (induction fs) simp_all

definition process_pid :: "child_instance \<Rightarrow> u32 option" where
  "process_pid c = (case ci_handle c of Some (ProcessHandle pid) \<Rightarrow> Some pid | _ \<Rightarrow> None)"

lemma disarm_other [simp]: "sw_out (disarm_watchdog_pid pid w) = sw_out w" "sw_stopping (disarm_watchdog_pid pid w) = sw_stopping w"
  "sw_now (disarm_watchdog_pid pid w) = sw_now w" "sw_inst (disarm_watchdog_pid pid w) = sw_inst w"
  by (simp_all add: disarm_watchdog_pid_def split: option.split)

lemma stop_child_effect:
  assumes "stop_service_instance E m mode sm key user c w = (c', w')"
  shows "c' = stopped_child key user (sw_now w) c \<and> sw_now w' = sw_now w \<and> sw_inst w' = sw_inst w
    \<and> signals_of (sw_out w') = signals_of (sw_out w) @
        (if stop_matches key user c then case process_pid c of Some pid \<Rightarrow> [(pid, if mode = ForceKill then SIGKILL else SIGTERM)] | None \<Rightarrow> []
         else [])
    \<and> map_of (sw_stopping w') = (case (if stop_matches key user c then ci_pid c else None) of
         None \<Rightarrow> map_of (sw_stopping w) | Some pid \<Rightarrow> (map_of (sw_stopping w))(pid \<mapsto> sw_now w))"
  using assms
  by (auto simp: stop_service_instance_def stopped_child_def Let_def signal_handle_def emit_all_def run_triggers_def process_pid_def
      ci_pid_def update_conv' split: if_splits option.splits svc_handle.splits)

lemma stop_children_effect:
  "stop_children E m mode sm key user cs w = (cs', w') \<Longrightarrow>
   cs' = map (stopped_child key user (sw_now w)) cs \<and> sw_now w' = sw_now w \<and> sw_inst w' = sw_inst w
   \<and> signals_of (sw_out w') = signals_of (sw_out w) @
       map (\<lambda>pid. (pid, if mode = ForceKill then SIGKILL else SIGTERM)) (List.map_filter process_pid (filter (stop_matches key user) cs))
   \<and> (\<forall>pid. map_of (sw_stopping w') pid =
        (if list_ex (\<lambda>c. stop_matches key user c \<and> ci_pid c = Some pid) cs then Some (sw_now w) else map_of (sw_stopping w) pid))"
proof (induction cs arbitrary: w cs')
  case (Cons c cs)
  obtain c1 v where 1: "stop_service_instance E m mode sm key user c w = (c1, v)" by fastforce
  obtain ds where 2: "stop_children E m mode sm key user cs v = (ds, w')" "cs' = c1 # ds"
    using Cons.prems 1 by (auto split: prod.splits)
  note e = stop_child_effect [OF 1] and ih = Cons.IH [OF 2(1)]
  have "map_of (sw_stopping w') pid =
      (if list_ex (\<lambda>c. stop_matches key user c \<and> ci_pid c = Some pid) (c # cs) then Some (sw_now w) else map_of (sw_stopping w) pid)" for pid
    using e ih by (auto split: option.splits if_splits)
  moreover have "signals_of (sw_out w') = signals_of (sw_out w) @
       map (\<lambda>pid. (pid, if mode = ForceKill then SIGKILL else SIGTERM)) (List.map_filter process_pid (filter (stop_matches key user) (c # cs)))"
    using e ih by (auto simp: List.map_filter_def split: option.splits)
  ultimately show ?case using e ih 2(2) by simp
qed (simp add: List.map_filter_def)

lemma stop_service_effect:
  assumes "stop_service E s mode sm key user None service_key w = (s', w')"
  shows "sv_instances s' = map (stopped_child key user (sw_now w)) (sv_instances s)
   \<and> sw_now w' = sw_now w \<and> sw_inst w' = sw_inst w
   \<and> signals_of (sw_out w') = signals_of (sw_out w) @
       map (\<lambda>pid. (pid, if mode = ForceKill then SIGKILL else SIGTERM))
         (List.map_filter process_pid (filter (stop_matches key user) (sv_instances s)))
   \<and> (\<forall>pid. map_of (sw_stopping w') pid =
        (if list_ex (\<lambda>c. stop_matches key user c \<and> ci_pid c = Some pid) (sv_instances s) then Some (sw_now w) else map_of (sw_stopping w) pid))"
proof -
  obtain cs v where 1: "stop_children E (sv_meta s) mode sm key user (sv_instances s) w = (cs, v)" by fastforce
  have "sv_instances s' = cs \<and> sw_now w' = sw_now v \<and> sw_inst w' = sw_inst v \<and> signals_of (sw_out w') = signals_of (sw_out v)
      \<and> sw_stopping w' = sw_stopping v"
    using assms 1 by (auto simp: stop_service_def Let_def emit_all_def split: if_splits)
  with stop_children_effect [OF 1] show ?thesis by simp
qed

lemma count_distinct: "distinct xs \<Longrightarrow> count_list xs a = (if a \<in> set xs then 1 else 0)"
  by (induction xs) auto

lemma sweep_effect:
  "signals_of (sw_out (timeout_sweep E w)) = signals_of (sw_out w) @
     map (\<lambda>pid. (pid, SIGKILL)) (map fst (filter (\<lambda>(_, t). sw_now w - t > service_timeout E) (sw_stopping w)))"
  "sw_stopping (timeout_sweep E w) =
     filter (\<lambda>(pid, _). pid \<notin> set (map fst (filter (\<lambda>(_, t). sw_now w - t > service_timeout E) (sw_stopping w)))) (sw_stopping w)"
proof -
  have "signals_of (map (\<lambda>pid. ESignal pid SIGKILL) ps) = map (\<lambda>pid. (pid, SIGKILL)) ps" for ps
    by (induction ps) simp_all
  then show "signals_of (sw_out (timeout_sweep E w)) = signals_of (sw_out w) @
     map (\<lambda>pid. (pid, SIGKILL)) (map fst (filter (\<lambda>(_, t). sw_now w - t > service_timeout E) (sw_stopping w)))"
    by (simp add: timeout_sweep_def Let_def emit_all_def del: map_map)
qed (simp add: timeout_sweep_def Let_def emit_all_def)

text \<open>
  C14. Stopping a service sends each of its matching processes one signal, marks the children, and leaves the
  others alone. A process that has not exited when the timeout has passed is killed by the next sweep,
  once, and by no sweep before.
\<close>

theorem stop_then_kill:
  assumes "stop_service E s Graceful sm key user None service_key w = (s', w')"
    and "c \<in> set (sv_instances s)" "stop_matches key user c" "ci_pid c = Some pid"
    and "sw_stopping v = sw_stopping w'" "distinct (map fst (sw_stopping w'))"
  shows "(\<forall>i < length (sv_instances s). \<not> stop_matches key user (sv_instances s ! i) \<longrightarrow> sv_instances s' ! i = sv_instances s ! i)
    \<and> signals_of (sw_out w') = signals_of (sw_out w) @
        map (\<lambda>pid. (pid, SIGTERM)) (List.map_filter process_pid (filter (stop_matches key user) (sv_instances s)))
    \<and> (count_list (signals_of (sw_out (timeout_sweep E v))) (pid, SIGKILL) =
         count_list (signals_of (sw_out v)) (pid, SIGKILL) + (if sw_now v - sw_now w > service_timeout E then 1 else 0))
    \<and> (pid \<in> fst ` set (sw_stopping (timeout_sweep E v)) \<longleftrightarrow> sw_now v - sw_now w \<le> service_timeout E)"
proof (intro conjI allI impI)
  note e = stop_service_effect [OF assms(1)]
  show "sv_instances s' ! i = sv_instances s ! i" if "i < length (sv_instances s)" "\<not> stop_matches key user (sv_instances s ! i)" for i
    using e that by (simp add: stopped_child_def)
  show "signals_of (sw_out w') = signals_of (sw_out w) @
        map (\<lambda>pid. (pid, SIGTERM)) (List.map_filter process_pid (filter (stop_matches key user) (sv_instances s)))"
    using e by simp
  have m: "map_of (sw_stopping v) pid = Some (sw_now w)" using e assms(2-5) by (auto simp: list_ex_iff)
  have dv: "distinct (map fst (sw_stopping v))" using assms(5,6) by simp
  have t: "(pid, x) \<in> set (sw_stopping v) \<longleftrightarrow> x = sw_now w" for x
  proof
    assume "(pid, x) \<in> set (sw_stopping v)"
    with dv have "map_of (sw_stopping v) pid = Some x" by (rule map_of_is_SomeI)
    with m show "x = sw_now w" by simp
  qed (use m in \<open>simp add: map_of_SomeD\<close>)
  let ?old = "filter (\<lambda>(_, t). sw_now v - t > service_timeout E) (sw_stopping v)"
  have old: "pid \<in> set (map fst ?old) \<longleftrightarrow> sw_now v - sw_now w > service_timeout E" using t by force
  have d: "distinct (map fst ?old)" using assms(5,6) by (simp add: distinct_map_filter)
  have "count_list (map (\<lambda>pid. (pid, SIGKILL)) xs) (pid, SIGKILL) = count_list xs pid" for xs by (induction xs) simp_all
  then have "count_list (map (\<lambda>pid. (pid, SIGKILL)) (map fst ?old)) (pid, SIGKILL) =
      (if sw_now v - sw_now w > service_timeout E then 1 else 0)"
    using old d by (simp only: count_distinct split: if_split)
  then show "count_list (signals_of (sw_out (timeout_sweep E v))) (pid, SIGKILL) =
      count_list (signals_of (sw_out v)) (pid, SIGKILL) + (if sw_now v - sw_now w > service_timeout E then 1 else 0)"
    by (simp only: sweep_effect(1) count_list_append)
  show "pid \<in> fst ` set (sw_stopping (timeout_sweep E v)) \<longleftrightarrow> sw_now v - sw_now w \<le> service_timeout E"
    using old t by (force simp: sweep_effect(2))
qed

lemma stop_then_kill_witness:
  "let c = child_new [] None (Some (ProcessHandle 7)); s = single_service [c];
       w' = snd (stop_service (demo_svc []) s Graceful None None None None ''a@static'' quiet_world);
       v = w'\<lparr>sw_now := 6000\<rparr>
   in count_list (signals_of (sw_out (timeout_sweep (demo_svc []) v))) (7, SIGKILL) = 1 + count_list (signals_of (sw_out v)) (7, SIGKILL)"
proof -
  let ?c = "child_new [] None (Some (ProcessHandle 7))"
  obtain s' w' where r: "stop_service (demo_svc []) (single_service [?c]) Graceful None None None None ''a@static'' quiet_world = (s', w')"
    by fastforce
  have "sw_stopping w' = [(7, 0)]"
    using r by (auto simp: stop_service_def single_service_def stop_service_instance_def stop_matches_def child_new_def Let_def
        signal_handle_def emit_all_def disarm_watchdog_pid_def quiet_world_def world_with_def split: if_splits)
  moreover have "service_timeout (demo_svc []) = 5000" by (simp add: service_timeout_def demo_svc_def)
  moreover have "sw_now quiet_world = 0" by (simp add: quiet_world_def world_with_def)
  ultimately show ?thesis
    using stop_then_kill [OF r, of ?c 7 "w'\<lparr>sw_now := 6000\<rparr>"] r
    by (simp add: single_service_def stop_matches_def child_new_def ci_pid_def)
qed

text \<open>
  C12. A caller without the permission to manage system services may stop, over IPC, only a service that is
  its own, or one that a permission it holds manages; the stop that is sent names the caller, and
  touches no child that runs as somebody else.
\<close>

theorem unprivileged_stop_is_confined:
  assumes "handle_ipc_stop fuel E pm (Inr p) (Some uid) = Some (Inr (), cmds)"
    and "uid \<noteq> 0" "user_has fuel pm uid perm_system_services = Some False"
  shows "\<exists>u m. lookup_by_uid (ps_users pm) uid = Some u \<and> find_meta E (ss_name p) = Some m
    \<and> hd cmds = SvcStop (ss_name p) (ss_force p) (Some (ur_username u))
    \<and> (case sm_managed_by m of
          Some perms \<Rightarrow> \<exists>x \<in> set perms. holds_named fuel pm uid x = Some True
        | None \<Rightarrow> sm_space m = SpaceUser \<or> sm_space m = SpaceSelective (ur_username u))
    \<and> (\<forall>c s mode sm key w. c \<in> set (sv_instances s) \<longrightarrow> ci_user c \<noteq> None \<longrightarrow> ci_user c \<noteq> Some (ur_username u) \<longrightarrow>
          c \<in> set (sv_instances (fst (stop_service E s mode sm None (Some (ur_username u)) None key w))))"
proof -
  have any: "any_opt f xs = Some True \<Longrightarrow> \<exists>x \<in> set xs. f x = Some True" for f and xs :: "ustr list"
    by (induction xs) (auto split: option.splits bool.splits)
  obtain u m where um: "lookup_by_uid (ps_users pm) uid = Some u" "find_meta E (ss_name p) = Some m"
    and can: "can_manage fuel pm uid (find_meta E (ss_name p)) = Some True"
    using assms by (auto simp: handle_ipc_stop_def handle_ipc_def can_manage_def split: option.splits bool.splits)
  moreover have "request_user fuel pm uid = Some (Some (ur_username u))" using assms(2,3) um by (simp add: request_user_def)
  ultimately have "hd cmds = SvcStop (ss_name p) (ss_force p) (Some (ur_username u))"
    using assms by (auto simp: handle_ipc_stop_def handle_ipc_def)
  moreover have "case sm_managed_by m of
          Some perms \<Rightarrow> \<exists>x \<in> set perms. holds_named fuel pm uid x = Some True
        | None \<Rightarrow> sm_space m = SpaceUser \<or> sm_space m = SpaceSelective (ur_username u)"
    using can assms(2,3) um by (auto simp: can_manage_def split: option.splits service_space.splits dest: any)
  moreover have "c \<in> set (sv_instances (fst (stop_service E s mode sm None (Some (ur_username u)) None key w)))"
    if "c \<in> set (sv_instances s)" "ci_user c \<noteq> None" "ci_user c \<noteq> Some (ur_username u)" for c s mode sm key w
  proof -
    have "\<not> stop_matches None (Some (ur_username u)) c" using that by (simp add: stop_matches_def)
    then have "stopped_child None (Some (ur_username u)) (sw_now w) c = c" by (simp add: stopped_child_def)
    moreover obtain s' w' where r: "stop_service E s mode sm None (Some (ur_username u)) None key w = (s', w')" by fastforce
    ultimately show ?thesis using that(1) stop_service_effect [OF r] by (force simp: r)
  qed
  ultimately show ?thesis using um by blast
qed

lemma demo_find_meta:
  assumes "rslvns_res name = (''g'', n, ''static'')"
  shows "find_meta (demo_svc ms) name = find (\<lambda>m. sm_name m = n) ms"
proof -
  have "sn_scope (parse_scoped_name name) = ''static''" using assms by (simp add: parse_scoped_name_def)
  moreover have "find (\<lambda>i. item_name i = n) (map UService ms) = map_option UService (find (\<lambda>m. sm_name m = n) ms)"
    by (induction ms) simp_all
  ultimately show ?thesis using assms
    by (simp add: find_meta_def demo_svc_def demo_units_def resolve_metadata_key_def has_metadata_def mr_find_def mr_lookup_def
        group_items_def demo_items Let_def split: option.split)
qed

definition user_meta :: service_meta where
  "user_meta = (plain_service ''a'')\<lparr>sm_space := SpaceUser\<rparr>"

lemma unprivileged_stop_is_confined_witness:
  "\<exists>cmds u. handle_ipc_stop 10 (demo_svc [user_meta]) demo_perms (Inr \<lparr>ss_name = ''g:a'', ss_force = False, ss_persist = False\<rparr>) (Some 1000)
      = Some (Inr (), cmds)
     \<and> lookup_by_uid (ps_users demo_perms) 1000 = Some u \<and> hd cmds = SvcStop ''g:a'' False (Some (ur_username u))"
proof -
  have "rslvns_res ''g:a'' = (''g'', ''a'', ''static'')" by code_simp
  then have m: "find_meta (demo_svc [user_meta]) ''g:a'' = Some user_meta" by (simp add: demo_find_meta user_meta_def plain_service_def)
  have no: "user_has 10 demo_perms 1000 perm_system_services = Some False" by code_simp
  have u: "lookup_by_uid (ps_users demo_perms) 1000 = Some (hd (us_users demo_store))" by code_simp
  have "\<exists>cmds. handle_ipc_stop 10 (demo_svc [user_meta]) demo_perms (Inr \<lparr>ss_name = ''g:a'', ss_force = False, ss_persist = False\<rparr>) (Some 1000)
      = Some (Inr (), cmds)"
    using m no u by (simp add: handle_ipc_stop_def handle_ipc_def can_manage_def request_user_def user_meta_def plain_service_def)
  then obtain cmds where r: "handle_ipc_stop 10 (demo_svc [user_meta]) demo_perms (Inr \<lparr>ss_name = ''g:a'', ss_force = False, ss_persist = False\<rparr>)
      (Some 1000) = Some (Inr (), cmds)" by blast
  with unprivileged_stop_is_confined [OF r _ no] u show ?thesis by auto
qed

section \<open>Processes\<close>

text \<open>The processes of a service as an outside observer would count them.\<close>

definition live_pids :: "service \<Rightarrow> u32 list" where
  "live_pids s = List.map_filter ci_pid (sv_instances s)"

definition tracked :: "service \<Rightarrow> bool" where
  "tracked s \<longleftrightarrow> list_all (\<lambda>c. ci_handle c \<noteq> None \<longrightarrow> kept_child c) (sv_instances s)"

lemma map_filter_map_same:
  "(\<And>c. f (g c) = f c) \<Longrightarrow> List.map_filter f (map g cs) = List.map_filter f cs"
  by (induction cs) (simp_all add: List.map_filter_def)

lemma filter_kept_live:
  "list_all (\<lambda>c. ci_handle c \<noteq> None \<longrightarrow> kept_child c) cs \<Longrightarrow> List.map_filter ci_pid (filter kept_child cs) = List.map_filter ci_pid cs"
  by (induction cs) (auto simp: List.map_filter_def ci_pid_def)

lemma exit_live:
  "find_by_pid pid cs = Some i \<Longrightarrow> ci_pid c = None \<Longrightarrow> List.map_filter ci_pid (cs[i := c]) = remove1 pid (List.map_filter ci_pid cs)"
  by (induction cs arbitrary: i) (auto simp: List.map_filter_def split: if_splits option.splits)

lemma exit_children:
  assumes "handle_child_exit E s pid code sm key w = (act, s', w')"
  shows "(find_by_pid pid (sv_instances s) = None \<and> act = None \<and> s' = s) \<or>
    (\<exists>i c. find_by_pid pid (sv_instances s) = Some i \<and> act \<noteq> None \<and> ci_handle c = None
       \<and> (sv_instances s' = (sv_instances s)[i := c] \<or> sv_instances s' = filter kept_child ((sv_instances s)[i := c])))"
proof (cases "find_by_pid pid (sv_instances s)")
  case (Some i)
  let ?g = "(sv_instances s ! i)\<lparr>ci_state := SExited code, ci_handle := None\<rparr>"
  have act: "act \<noteq> None" using assms Some by (auto simp: handle_child_exit_def Let_def split: if_splits)
  have "\<exists>c \<in> {?g, ?g\<lparr>ci_retry_count := ci_retry_count (sv_instances s ! i) + 1\<rparr>}.
      sv_instances s' = (sv_instances s)[i := c] \<or> sv_instances s' = filter kept_child ((sv_instances s)[i := c])"
    using assms Some by (auto simp: handle_child_exit_def Let_def split: if_splits option.splits restart_policy.splits)
  then obtain c where c: "c \<in> {?g, ?g\<lparr>ci_retry_count := ci_retry_count (sv_instances s ! i) + 1\<rparr>}"
      "sv_instances s' = (sv_instances s)[i := c] \<or> sv_instances s' = filter kept_child ((sv_instances s)[i := c])" by blast
  from c(1) have "ci_handle c = None" by auto
  with act c(2) Some show ?thesis by blast
qed (use assms in \<open>simp add: handle_child_exit_def Let_def\<close>)

text \<open>A singleton whose first child runs, starts or stops is not started again.\<close>

definition held_back :: "service \<Rightarrow> bool" where
  "held_back s \<longleftrightarrow> sm_singleton (sv_meta s) \<and>
     (\<exists>c cs. sv_instances s = c # cs \<and> (ci_state c = SActive \<or> ci_state c = SStarting \<or> ci_state c = SStopping))"

text \<open>
  C5. The operations on a service refine those on the set of its processes: a start adds what it spawned,
  unless the service is a singleton that is up, which is left as it is, or spawning fails; a stop changes nothing until a process exits, an exit removes that process and no other. This account
  holds as long as every child that has a process is active, starting or stopping.
\<close>

theorem live_processes_tracked:
  assumes "tracked s"
  shows "(start_service E s sockets sm vh key mounts w = (s1, w1) \<longrightarrow>
       (if held_back s then s1 = s \<and> w1 = w
        else (case spawn_all E s None sockets sm vh key mounts w of
           (Inr cs, _) \<Rightarrow> live_pids s1 = live_pids s @ List.map_filter ci_pid cs | (Inl _, _) \<Rightarrow> live_pids s1 = live_pids s)))
    \<and> (stop_service E s mode sm k user None key w = (s2, w2) \<longrightarrow> live_pids s2 = live_pids s \<and> tracked s2)
    \<and> (handle_child_exit E s pid code sm key w = (act, s3, w3) \<longrightarrow>
         (act \<noteq> None \<longleftrightarrow> pid \<in> set (live_pids s)) \<and> live_pids s3 = remove1 pid (live_pids s) \<and> tracked s3)"
proof (intro conjI impI)
  assume "start_service E s sockets sm vh key mounts w = (s1, w1)"
  moreover have "List.map_filter ci_pid (on_first (set_state st) cs) = List.map_filter ci_pid cs" for st cs
    by (cases cs) (simp_all add: List.map_filter_def set_state_def ci_pid_def)
  moreover have "held_back s \<longleftrightarrow>
      (case sv_instances s of c # _ \<Rightarrow> ci_state c \<in> {SActive, SStarting, SStopping} | [] \<Rightarrow> False) \<and> sm_singleton (sv_meta s)"
    by (auto simp: held_back_def split: list.split)
  ultimately show "if held_back s then s1 = s \<and> w1 = w
      else (case spawn_all E s None sockets sm vh key mounts w of
          (Inr cs, _) \<Rightarrow> live_pids s1 = live_pids s @ List.map_filter ci_pid cs | (Inl _, _) \<Rightarrow> live_pids s1 = live_pids s)"
    by (auto simp: start_service_def live_pids_def Let_def List.map_filter_def split: prod.split sum.split if_splits)
next
  assume "stop_service E s mode sm k user None key w = (s2, w2)"
  from stop_service_effect [OF this] have s2: "sv_instances s2 = map (stopped_child k user (sw_now w)) (sv_instances s)" by blast
  show "live_pids s2 = live_pids s"
    unfolding live_pids_def s2 by (rule map_filter_map_same) (simp add: stopped_child_def ci_pid_def)
  have "ci_handle (stopped_child k user n c) \<noteq> None \<longrightarrow> kept_child (stopped_child k user n c)"
    if "ci_handle c \<noteq> None \<longrightarrow> kept_child c" for n c
    using that by (cases "stop_matches k user c"; cases "ci_handle c") (simp_all add: stopped_child_def kept_child_def)
  with assms show "tracked s2" unfolding tracked_def s2 list_all_iff set_map by blast
next
  assume r: "handle_child_exit E s pid code sm key w = (act, s3, w3)"
  have found: "find_by_pid pid cs = None \<longleftrightarrow> pid \<notin> set (List.map_filter ci_pid cs)" for cs
    by (induction cs) (auto simp: List.map_filter_def split: option.splits)
  have t: "list_all (\<lambda>c. ci_handle c \<noteq> None \<longrightarrow> kept_child c) ((sv_instances s)[i := c])" if "ci_handle c = None" for i c
    using assms that set_update_subset_insert [of "sv_instances s" i c] by (auto simp: tracked_def list_all_iff)
  have l: "List.map_filter ci_pid ((sv_instances s)[i := c]) = remove1 pid (live_pids s)"
    if "find_by_pid pid (sv_instances s) = Some i" "ci_handle c = None" for i c
    using exit_live [OF that(1), of c] that(2) by (simp add: live_pids_def ci_pid_def)
  from exit_children [OF r] show "act \<noteq> None \<longleftrightarrow> pid \<in> set (live_pids s)"
    using found [of "sv_instances s"] by (auto simp: live_pids_def)
  from exit_children [OF r] show "live_pids s3 = remove1 pid (live_pids s)"
    using found [of "sv_instances s"] l t filter_kept_live by (auto simp: live_pids_def remove1_idem)
  from exit_children [OF r] show "tracked s3"
    using assms t by (auto simp: tracked_def list_all_iff)
qed

lemma live_processes_tracked_witness:
  "let c = child_new [] None (Some (ProcessHandle 7)); s = single_service [c, c\<lparr>ci_handle := Some (ProcessHandle 8)\<rparr>]
   in live_pids (fst (stop_service (demo_svc []) s Graceful None None None None ''a@static'' quiet_world)) = [7, 8]
     \<and> live_pids (fst (snd (handle_child_exit (demo_svc []) s 7 0 None ''a@static'' quiet_world))) = [8]"
proof -
  let ?c = "child_new [] None (Some (ProcessHandle 7))"
  let ?s = "single_service [?c, ?c\<lparr>ci_handle := Some (ProcessHandle 8)\<rparr>]"
  have t: "tracked ?s" and l: "live_pids ?s = [7, 8]"
    by (simp_all add: tracked_def live_pids_def single_service_def kept_child_def child_new_def ci_pid_def List.map_filter_def)
  obtain s2 w2 where 2: "stop_service (demo_svc []) ?s Graceful None None None None ''a@static'' quiet_world = (s2, w2)" by fastforce
  obtain a s3 w3 where 3: "handle_child_exit (demo_svc []) ?s 7 0 None ''a@static'' quiet_world = (a, s3, w3)" by (rule prod_cases3)
  from live_processes_tracked [OF t, where E = "demo_svc []" and sm = None and key = "''a@static''" and w = quiet_world
      and mode = Graceful and k = None and user = None and pid = 7 and code = 0] 2 3 l
  have "live_pids s2 = [7, 8]" "live_pids s3 = [8]" by auto
  with 2 3 show ?thesis by simp
qed

text \<open>
  A start that fails while the service runs loses a process. The error is noted on the first child,
  which runs; the next exit of another child drops the children in such a state, so the first process
  goes on while the service has no child any more, and no later stop reaches it.
\<close>

theorem failed_start_orphans:
  assumes "sv_instances s = [c, d]" "ci_pid c = Some p" "ci_pid d = Some q" "p \<noteq> q" "\<not> sm_singleton (sv_meta s)"
    and "sm_restart (sv_meta s) = None"
    and "spawn_all E s None sockets sm vh key mounts w = (Inl e, w1)"
    and "start_service E s sockets sm vh key mounts w = (s1, w2)"
    and "handle_child_exit E s1 q code sm key w3 = (act, s2, w4)"
    and "stop_service E s2 mode sm k user None key w5 = (s3, w6)"
  shows "live_pids s1 = [p, q] \<and> ci_state (hd (sv_instances s1)) = start_error E key e \<and> sv_instances s2 = []
    \<and> signals_of (sw_out w6) = signals_of (sw_out w5)"
proof -
  have s1: "s1 = s\<lparr>sv_last_state := start_error E key e, sv_instances := [set_state (start_error E key e) c, d]\<rparr>"
    using assms(1,5,7,8) by (auto simp: start_service_def)
  have "exit_action_for None d code = ExitStopDependents" "ci_pid (set_state st c) = Some p" for st
    using assms(2) by (simp_all add: exit_action_for_def ci_pid_def set_state_def)
  moreover have "\<not> kept_child (set_state (start_error E key e) c)" "\<not> kept_child (d\<lparr>ci_state := SExited code, ci_handle := None\<rparr>)"
    by (simp_all add: kept_child_def set_state_def start_error_def)
  ultimately have "sv_instances s2 = []"
    using assms(9) by (auto simp: s1 handle_child_exit_def Let_def assms(3,4,6))
  moreover from this stop_service_effect [OF assms(10)] have "signals_of (sw_out w6) = signals_of (sw_out w5)"
    by (simp add: List.map_filter_def)
  moreover have "live_pids s1 = [p, q]" using assms(2,3) by (simp add: s1 live_pids_def List.map_filter_def ci_pid_def set_state_def)
  ultimately show ?thesis by (simp add: s1 set_state_def)
qed

definition no_executor :: svc_env where
  "no_executor = (demo_svc [])\<lparr>se_executors := Map.empty\<rparr>"

definition two_children :: service where
  "two_children = \<lparr>sv_meta = plain_service ''a'', sv_instances = [child_new [] None (Some (ProcessHandle 7)), child_new [] None (Some (ProcessHandle 8))],
     sv_last_state = SActive\<rparr>"

lemma failed_start_orphans_witness:
  "\<exists>s1 w2 act s2 w4. start_service no_executor two_children Map.empty (Some []) None ''a@static'' [] quiet_world = (s1, w2)
     \<and> live_pids s1 = [7, 8] \<and> handle_child_exit no_executor s1 8 0 (Some []) ''a@static'' w2 = (act, s2, w4) \<and> sv_instances s2 = []"
proof -
  obtain i where i: "isolation_for ss_default ''a'' None None (Some ''static'') = Inr i" using plain_isolation by blast
  have "key_parts ''a@static'' = (''a'', Some ''static'')" by code_simp
  with i have sp: "spawn_all no_executor two_children None Map.empty (Some []) None ''a@static'' [] quiet_world =
      (Inl (Custom (''Executor native not found'')), quiet_world)"
    by (simp add: spawn_all_def listed_inactive_def branches_of_def two_children_def plain_service_def plain_run_def spawn_process_def
        process_user_def resolve_scope_default_user_def resolve_service_user_def plain_user no_executor_def demo_svc_def
        resolve_run_option_def Let_def)
  obtain s1 w2 where 1: "start_service no_executor two_children Map.empty (Some []) None ''a@static'' [] quiet_world = (s1, w2)" by fastforce
  obtain act s2 w4 where 2: "handle_child_exit no_executor s1 8 0 (Some []) ''a@static'' w2 = (act, s2, w4)" by (rule prod_cases3)
  obtain s3 w6 where 3: "stop_service no_executor s2 Graceful (Some []) None None None ''a@static'' w4 = (s3, w6)" by fastforce
  have "sv_instances two_children = [child_new [] None (Some (ProcessHandle 7)), child_new [] None (Some (ProcessHandle 8))]"
    "\<not> sm_singleton (sv_meta two_children)" "sm_restart (sv_meta two_children) = None"
    by (simp_all add: two_children_def plain_service_def)
  from failed_start_orphans [OF this(1) _ _ _ this(2,3) sp 1 2 3, of 7] 1 2 show ?thesis
    by (simp add: child_new_def ci_pid_def)
qed

section \<open>Stopping a scope\<close>

text \<open>
  Stopping the services of a scope, when its user logs out, ends with an error at the first service
  that was never started: none of the services after it is stopped.
\<close>

theorem stop_for_scope_aborts:
  assumes "scope_services E scope = xs @ (grp, m) # ys"
    and "sw_inst w (instance_key E scope (unit_full_name grp m)) = None"
    and "list_all (\<lambda>(g, n). instance_key E scope (unit_full_name g n) \<noteq> instance_key E scope (unit_full_name grp m)) xs"
  shows "\<exists>e w'. svc_stop_for_scope E scope w = (Inl e, w')
    \<and> (xs = [] \<longrightarrow> sw_out w' = sw_out w \<and> sw_stopping w' = sw_stopping w)"
proof -
  let ?key = "instance_key E scope (unit_full_name grp m)"
  have key: "sw_inst v ?key = None \<Longrightarrow> one_service E scope (unit_full_name grp m) (sw_inst v) = Inl (MissingInstances ?key)" for v :: svc_world
    by (simp add: one_service_def as_one_def instance_key_def Let_def)
  have stop: "\<exists>e v'. stop_scope_items E facets scope (xs @ (grp, m) # ys) v = (Inl e, v')
      \<and> (xs = [] \<longrightarrow> sw_out v' = sw_out v \<and> sw_stopping v' = sw_stopping v)"
    if "sw_inst v ?key = None" "list_all (\<lambda>(g, n). instance_key E scope (unit_full_name g n) \<noteq> ?key) xs" for facets xs v
    using that
  proof (induction xs arbitrary: v)
    case (Cons x xs)
    obtain g n where x: "x = (g, n)" by (cases x)
    show ?case
    proof (cases "one_service E scope (unit_full_name g n) (sw_inst v)")
      case (Inr s)
      obtain s' v' where st: "stop_service E s ForceKill (Some facets) None None None (unit_full_name g n) v = (s', v')" by fastforce
      let ?v = "put_last_service (instance_key E scope (unit_full_name g n)) s' v'"
      have "sw_inst ?v ?key = None" using stop_service_effect [OF st] Cons.prems by (auto simp: put_last_service_def x)
      then obtain e u where "stop_scope_items E facets scope (xs @ (grp, m) # ys) ?v = (Inl e, u)"
        using Cons.IH [of ?v] Cons.prems(2) by auto
      with Inr st show ?thesis by (simp add: x Let_def)
    qed (simp add: x Let_def)
  qed (simp add: key)
  let ?f = "\<lambda>ys. stop_scope_items E (taken_graph ys) scope (scope_services E scope)"
  have f: "\<exists>e v'. ?f ys v = (Inl e, v') \<and> (xs = [] \<longrightarrow> sw_out v' = sw_out v \<and> sw_stopping v' = sw_stopping v)"
    if "sw_inst v ?key = None" for ys v
    unfolding assms(1) by (rule stop [OF that assms(3)])
  have "sw_inst (w\<lparr>sw_inst := (sw_inst w)(graph_key := None)\<rparr>) ?key = None" using assms(2) by simp
  note f = f [OF this]
  note d = svc_stop_for_scope_def with_singletons_def graph_singleton_def
  show ?thesis
  proof (cases "sw_inst w graph_key")
    case (Some l)
    show ?thesis
    proof (cases "\<exists>b bs x. l = b # bs \<and> downcast tid_graph b = Some x")
      case True
      then obtain b bs x where l: "l = b # bs" "downcast tid_graph b = Some x" by blast
      from f [of "[x]"] obtain e v' where "?f [x] (w\<lparr>sw_inst := (sw_inst w)(graph_key := None)\<rparr>) = (Inl e, v')"
        "xs = [] \<longrightarrow> sw_out v' = sw_out w \<and> sw_stopping v' = sw_stopping w" by auto
      with Some l show ?thesis by (simp add: d)
    next
      case False
      then have "\<exists>e. first_values 0 [(graph_key, tid_graph)] [l] = Inl e" by (cases l) (auto split: option.split)
      with Some show ?thesis by (auto simp: d simp del: first_values.simps)
    qed
  qed (simp add: d)
qed

lemma stop_for_scope_aborts_witness:
  "\<exists>e w'. svc_stop_for_scope (demo_svc [plain_service ''a'']) ''static'' quiet_world = (Inl e, w') \<and> sw_out w' = sw_out quiet_world"
proof -
  have "scope_services (demo_svc [plain_service ''a'']) ''static'' = [] @ (''g'', plain_service ''a'') # []"
    by (simp add: scope_services_def mr_items_def demo_svc_def demo_units_def demo_grouped service_items_def List.map_filter_def)
  moreover have "sw_inst quiet_world k = None" if "k \<noteq> graph_key" "k \<noteq> vars_key" for k
    using that by (simp add: quiet_world_inst inst_of_def services_only_def)
  moreover have "instance_key (demo_svc [plain_service ''a'']) ''static'' (unit_full_name ''g'' (plain_service ''a'')) = ''g:a@static''"
    by (simp add: instance_key_def unit_full_name_def plain_service_def resolved_metadata_and_full_name_def resolve_metadata_key_def
        has_metadata_def demo_svc_def demo_units_def rslvns_scp_def Let_def)
  ultimately show ?thesis
    using stop_for_scope_aborts [of "demo_svc [plain_service ''a'']" "''static''" "[]" "''g''" "plain_service ''a''" "[]" quiet_world]
    by (auto simp: graph_key_def vars_key_def)
qed

section \<open>Users\<close>

text \<open>
  The first child of a user-space service runs as the daemon's user, that is as root, unless its scope,
  the branch or the caller names one: the search through the facet of \<open>user-source\<close> and through the
  sessions only accepts a user that some child of the service does not run as, so with no child it
  accepts nobody, whoever is logged in.
\<close>

theorem first_user_child_is_root:
  assumes "sm_space (sv_meta s) = SpaceUser" "sv_instances s = []"
    and "Option.bind scope (user_for_scope (se_scopes E)) = None"
    and "Option.bind ctx bx_forced_user = None" "Option.bind ctx bx_key = None" "Option.bind ctx bx_payload = None"
  shows "process_user E s ctx (Some facets) scope = Inr None
    \<and> (sx_user spawn = None \<longrightarrow> native_user E (sx_user spawn) = Inr None \<and> cm_uid_gid (native_command E spawn None) = None)"
proof -
  have "first_user L [] field ps = []" for L field ps
    by (induction ps) (simp_all add: has_other_user_def split: option.split)
  then have "resolve_user_from_source (se_lib E) s source ctx (Some facets) = Inr None" for source
    using assms(2,5,6) by (simp add: resolve_user_from_source_def split: option.split)
  moreover have "first_user (se_lib E) (sv_instances s) field ps = []" for field ps
    using assms(2) by (induction ps) (simp_all add: has_other_user_def split: option.split)
  ultimately show ?thesis
    using assms by (simp add: process_user_def resolve_scope_default_user_def resolve_service_user_def native_user_def native_command_def
        Let_def split: option.split)
qed

lemma first_user_child_is_root_witness:
  "process_user (demo_svc []) (service_new user_meta) None
     (Some [(''rind:user_session'', [\<lparr>fi_name = ''rind:user_session'', fi_payload = PString ''alice'', fi_type = FacetType\<rparr>])]) None = Inr None"
  using first_user_child_is_root [of "service_new user_meta" None "demo_svc []" None]
  by (simp add: service_new_def user_meta_def plain_service_def)

section \<open>Standard streams\<close>

text \<open>
  A message a service writes to its standard output is handed on with the user id 0. The id is looked up in
  a permission store that nothing puts into the scope of the call, so every service speaks as root.
\<close>

theorem stdio_messages_are_root:
  assumes "se_scope_perms E = None"
  shows "\<exists>es. sw_out (drain_events E event w) = sw_out w @ es
    \<and> (\<forall>n uid msg. EDispatch (TpIngest n uid msg) \<in> set es \<longrightarrow> uid = 0)"
proof -
  let ?ok = "\<lambda>v. \<exists>es. sw_out v = sw_out w @ es \<and> (\<forall>n uid msg. EDispatch (TpIngest n uid msg) \<in> set es \<longrightarrow> uid = 0)"
  have emit: "?ok (emit_all es v)" if "?ok v" "\<forall>n uid msg. EDispatch (TpIngest n uid msg) \<in> set es \<longrightarrow> uid = 0" for es v
    using that by (fastforce simp: emit_all_def)
  have send: "?ok v \<Longrightarrow> send_writers E msg xs v = (k, v') \<Longrightarrow> ?ok v'" for msg xs v k v'
  proof (induction xs arbitrary: v k)
    case (Cons x xs)
    have "?ok (if se_writer_alive E (sw_calls v) x then emit_all [ESend x msg] (tick v) else tick v)"
      using Cons.prems(1) emit [of "tick v"] by (auto simp: tick_def)
    with Cons show ?case by (auto simp: Let_def split: prod.splits)
  qed simp
  have cast: "?ok v \<Longrightarrow> broadcast_writers E msg ws v = (k, v') \<Longrightarrow> ?ok v'" for msg ws v k v'
  proof (induction ws arbitrary: v k)
    case (Cons x ws)
    obtain e xs where x: "x = (e, xs)" by (cases x)
    obtain k1 v1 where 1: "send_writers E msg xs v = (k1, v1)" by fastforce
    from Cons.prems(2) 1 obtain k2 where "broadcast_writers E msg ws v1 = (k2, v')" by (auto simp: x split: prod.splits)
    from Cons.IH [OF send [OF Cons.prems(1) 1] this] show ?case .
  qed simp
  have one: "?ok v \<Longrightarrow> ?ok (ingest_message E m v)" for m v
    using assms emit
    by (auto simp: ingest_message_def maybe_unregister_service_transport_def stdio_uid_def split: prod.split sum.split option.split)
  have all: "?ok v \<Longrightarrow> ?ok (fold (ingest_message E) ms v)" for ms v
    by (induction ms arbitrary: v) (use one in auto)
  have "?ok (case event of Some ev \<Rightarrow> broadcast_stdio_event E ev w | None \<Rightarrow> w)"
    using cast [of w] by (auto simp: broadcast_stdio_event_def split: option.split prod.split)
  then show ?thesis unfolding drain_events_def Let_def by (intro all) auto
qed

definition root_ingest :: "svc_effect \<Rightarrow> bool" where
  "root_ingest e \<longleftrightarrow> (case e of EDispatch (TpIngest n uid msg) \<Rightarrow> uid = 0 | _ \<Rightarrow> True)"

definition written_world :: svc_world where
  "written_world = quiet_world\<lparr>sw_inst := inst_of [''g:a'' @ ''@static'' \<mapsto> started_plain 0 (service_new user_meta)],
     sw_stdio := [(''g:a'', \<lparr>tp_type = ''facet'', tp_payload = None, tp_branch = None, tp_name = Some ''x'', tp_action = ''set''\<rparr>, 0)]\<rparr>"

lemma stdio_messages_are_root_witness:
  "list_all root_ingest (sw_out (drain_events (demo_svc [user_meta]) None written_world))"
proof -
  have "se_scope_perms (demo_svc [user_meta]) = None" by (simp add: demo_svc_def)
  from stdio_messages_are_root [OF this, of None written_world] obtain es where
    "sw_out (drain_events (demo_svc [user_meta]) None written_world) = sw_out written_world @ es"
    "\<forall>n uid msg. EDispatch (TpIngest n uid msg) \<in> set es \<longrightarrow> uid = 0" by blast
  then show ?thesis
    by (auto simp: list_all_iff root_ingest_def written_world_def quiet_world_def world_with_def split: svc_effect.split svc_cmd.split)
qed

section \<open>Watchdogs\<close>

text \<open>
  C26. The timer of an armed watchdog stays registered with the action of the service runtime, and watched
  or to be watched by the next synchronisation, whatever messages are handled: its expiry is handled.
\<close>

theorem watchdogs_stay_registered:
  assumes "watchdogs_registered w0" "svc_reach E n w0 w" "map_of (sw_wfds w) fd = Some b"
  shows "rs_actions (sw_res w) fd = Some \<lparr>ra_runtime = ''services'', ra_action = ''watchdog_expired'',
      ra_payload = Some (WatchdogPayload (wb_service_key b) (wb_branch b))\<rparr>
    \<and> (fd \<in> set (rs_watched (sw_res w)) \<or> fd \<in> set (rs_unwatched (sw_res w)))"
  using watchdogs.reached [OF assms(2,1)] assms(3) by (auto simp: watchdogs_registered_def)

lemma watchdogs_stay_registered_witness:
  "let w = timeout_sweep (demo_svc []) (snd (arm_watchdog_timer (demo_svc []) ''a@static'' None None 7
        \<lparr>wd_interval_ms = None, wd_grace_ms = 5, wd_action = WdStop\<rparr> quiet_world))
   in map_of (sw_wfds w) 0 \<noteq> None \<and> rs_actions (sw_res w) 0 \<noteq> None"
proof -
  let ?armed = "snd (arm_watchdog_timer (demo_svc []) ''a@static'' None None 7
        \<lparr>wd_interval_ms = None, wd_grace_ms = 5, wd_action = WdStop\<rparr> quiet_world)"
  let ?w = "timeout_sweep (demo_svc []) ?armed"
  have "watchdogs_registered quiet_world" by (simp add: watchdogs_registered_def quiet_world_def world_with_def)
  then have r: "watchdogs_registered ?armed" by (rule watchdogs.arm)
  have "services_handle (demo_svc []) (svc_start 1 (demo_svc [])) SvcTimeoutSweep ?armed = Some (Inr (), ?w)"
    by (simp add: services_handle_def)
  then have s: "svc_reach (demo_svc []) 1 ?armed ?w" unfolding svc_reach_def by (blast intro: svc_message)
  have "map_of (sw_wfds ?w) 0 = Some \<lparr>wb_service_key = ''a@static'', wb_branch = None, wb_user = None, wb_pid = 7\<rparr>"
    by (simp add: timeout_sweep_def Let_def emit_all_def arm_watchdog_timer_def demo_svc_def tick_def quiet_world_def world_with_def)
  with watchdogs_stay_registered [OF r s this] show ?thesis by simp
qed

end
