(* ===== verification/Timers.thy ===== *)
theory Timers
  imports ServiceStart
begin

text \<open>
  The timer runtime, \<^verbatim>\<open>crates/services/src/timers.rs\<close>: parsing a duration, starting and
  stopping a timer, the timers that follow a service, and the expiry. A duration is a byte string, so
  that splitting off its last byte can fall inside a character, which panics, as does an overflow of
  the multiplication when the build checks for it. A panic is \<open>None\<close>.
\<close>

section \<open>Durations\<close>

text \<open>\<open>str::is_char_boundary\<close>: a byte that does not continue a character.\<close>

definition continuation_byte :: "char \<Rightarrow> bool" where
  "continuation_byte c \<longleftrightarrow> (let n = of_char c :: nat in 128 \<le> n \<and> n < 192)"

definition parse_u64 :: "string \<Rightarrow> u64 option" where
  "parse_u64 s = map_option of_nat (parse_uint (2 ^ 64) s)"

definition mul_u64 :: "bool \<Rightarrow> u64 \<Rightarrow> u64 \<Rightarrow> u64 option" where
  "mul_u64 checked a b = (if checked \<and> unat a * unat b \<ge> 2 ^ 64 then None else Some (a * b))"

definition unit_seconds :: "char \<Rightarrow> u64 option" where
  "unit_seconds c =
     (if c = CHR ''s'' then Some 1 else if c = CHR ''m'' then Some 60
      else if c = CHR ''h'' then Some 3600 else if c = CHR ''d'' then Some 86400 else None)"

text \<open>The result is \<open>None\<close> for a panic, \<open>Some None\<close> for no duration, otherwise seconds.\<close>

definition parse_duration :: "bool \<Rightarrow> string \<Rightarrow> u64 option option" where
  "parse_duration checked s =
     (let s = trim s in
      if s = [] then Some None
      else if continuation_byte (last s) then None
      else (case parse_u64 (butlast s) of
              None \<Rightarrow> Some (parse_u64 s)
            | Some num \<Rightarrow>
                (case unit_seconds (last s) of
                   None \<Rightarrow> Some (parse_u64 s)
                 | Some k \<Rightarrow> if k = 1 then Some (Some num) else map_option Some (mul_u64 checked num k))))"

section \<open>Instances made by a constructor with effects\<close>

text \<open>
  \<open>instantiate_one\<close> runs its closure at most once, on the item it found; the closure of a timer
  and that of a socket open descriptors. \<open>item_to_make\<close> is the item the closure is run on, if any.
\<close>

definition item_to_make :: "svc_env \<Rightarrow> model_type \<Rightarrow> ustr \<Rightarrow> ustr \<Rightarrow> sv_inst instance_map \<Rightarrow> unit_item option" where
  "item_to_make E t metadata name inst =
     (let (md, full_name) = resolved_metadata_and_full_name (se_meta E) metadata name in
      case inst full_name of
        Some (_ # _) \<Rightarrow> None
      | _ \<Rightarrow> (if CHR '':'' \<in> set name then mr_find item_name (se_meta E) t md name
              else lookup_in_any_group item_name (se_meta E) t md name))"

definition make_one ::
  "svc_env \<Rightarrow> model_type \<Rightarrow> ustr \<Rightarrow> (unit_item \<Rightarrow> svc_world \<Rightarrow> (sv_inst result \<times> svc_world) option) \<Rightarrow> svc_world \<Rightarrow>
   (sv_inst result \<times> svc_world) option" where
  "make_one E t name mk w =
     (case item_to_make E t ''*'' name (sw_inst w) of
        None \<Rightarrow>
          (case instantiate_one item_name (se_meta E) t ''*'' name (\<lambda>_. Inl UnknownError) (sw_inst w) of
             (r, inst) \<Rightarrow> Some (r, w\<lparr>sw_inst := inst\<rparr>))
      | Some item \<Rightarrow>
          (case mk item w of None \<Rightarrow> None
           | Some (made, w) \<Rightarrow>
               (case instantiate_one item_name (se_meta E) t ''*'' name (\<lambda>_. made) (sw_inst w) of
                  (r, inst) \<Rightarrow> Some (r, w\<lparr>sw_inst := inst\<rparr>))))"

text \<open>The metadata a name resolves to resolves to itself.\<close>

lemma resolve_twice: "resolve_metadata_key mr (resolve_metadata_key mr ''*'' name) name = resolve_metadata_key mr ''*'' name"
proof (cases "resolve_metadata_key mr ''*'' name = ''*''")
  case False
  then have "has_metadata mr (resolve_metadata_key mr ''*'' name)"
    by (auto simp: resolve_metadata_key_def has_metadata_def Let_def split: list.splits if_splits)
  with False show ?thesis by (simp add: resolve_present)
qed simp

lemma resolved_twice:
  "resolved_metadata_and_full_name mr ''*'' name = (md, full_name) \<Longrightarrow>
   resolved_metadata_and_full_name mr md name = (md, full_name)"
  by (auto simp: resolved_metadata_and_full_name_def Let_def resolve_twice)

lemma make_one_taken:
  "sw_inst w (instance_key E ''*'' name) = Some (b # bs) \<Longrightarrow>
   make_one E t name mk w = Some (case downcast (mt_id t) b of None \<Rightarrow> Inl instance_mismatch | Some x \<Rightarrow> Inr x, w)"
  by (auto simp: make_one_def item_to_make_def instantiate_one_def instance_key_def split: prod.splits option.splits)

lemma make_one_free:
  assumes "make_one E t name mk w = Some (r, w')" and "sw_inst w (instance_key E ''*'' name) \<in> {None, Some []}"
    and mk: "\<forall>item q v. mk item w = Some (q, v) \<longrightarrow> sw_inst v = sw_inst w"
  shows "(\<exists>e. r = Inl e \<and> (w' = w \<or> (\<exists>item v. mk item w = Some (r, v) \<and>
            w' = v\<lparr>sw_inst := (sw_inst w)(instance_key E ''*'' name \<mapsto> [])\<rparr>))) \<or>
    (\<exists>item x v. r = Inr x \<and> mk item w = Some (r, v) \<and>
       w' = v\<lparr>sw_inst := (sw_inst w)(instance_key E ''*'' name \<mapsto> [(mt_id t, x)])\<rparr>)"
proof -
  obtain md key where res: "resolved_metadata_and_full_name (se_meta E) ''*'' name = (md, key)" by (cases "resolved_metadata_and_full_name (se_meta E) ''*'' name")
  have key: "instance_key E ''*'' name = key" using res by (simp add: instance_key_def)
  note once = res resolved_twice [OF res]
  show ?thesis
  proof (cases "item_to_make E t ''*'' name (sw_inst w)")
    case None
    have "w\<lparr>sw_inst := sw_inst w\<rparr> = w" by simp
    then show ?thesis using None assms(1,2) once
      by (auto simp: make_one_def item_to_make_def instantiate_one_def instantiate_def key split: option.splits if_splits)
  next
    case (Some item)
    with assms(1) obtain q v where m: "mk item w = Some (q, v)" by (auto simp: make_one_def split: option.splits)
    note v = mk [rule_format, OF m]
    from Some assms(1) m v assms(2) once show ?thesis
      by (cases q) (auto simp: make_one_def item_to_make_def instantiate_one_def instantiate_def key Let_def
          split: option.splits if_splits)
  qed
qed

section \<open>Starting and stopping\<close>

text \<open>
  Setting the timer passes the seconds as a signed 64-bit number; the kernel refuses a negative one.
  The deadline is on the monotonic clock, whose seconds have the same type; past its end the addition
  panics. Time is in milliseconds.
\<close>

definition timer_limit :: nat where "timer_limit = 2 ^ 63"

definition einval :: int where "einval = 22"

definition make_timer :: "bool \<Rightarrow> svc_env \<Rightarrow> unit_item \<Rightarrow> svc_world \<Rightarrow> (sv_inst result \<times> svc_world) option" where
  "make_timer checked E item w =
     (case item of
        UTimer m \<Rightarrow>
          (case parse_duration checked (tm_duration m) of
             None \<Rightarrow> None
           | Some None \<Rightarrow> Some (Inl (Custom (''invalid duration: '' @ tm_duration m)), w)
           | Some (Some secs) \<Rightarrow>
               (case se_timerfd E (sw_calls w) of
                  Inl e \<Rightarrow> Some (Inl e, tick w)
                | Inr fd \<Rightarrow>
                    if unat secs \<ge> timer_limit then Some (Inl (Custom (se_errno_text E einval)), tick w)
                    else if sw_now w div 1000 + unat secs \<ge> timer_limit then None
                    else Some (Inr (ITimer \<lparr>ti_meta = m, ti_deadline = sw_now w + 1000 * unat secs, ti_fd = fd\<rparr>),
                               (emit_all [ETimerSet fd (1000 * unat secs)] (tick w))
                                 \<lparr>sw_res := rs_own fd (Timer (unat fd)) (sw_res w)\<rparr>)))
      | _ \<Rightarrow> Some (Inl UnknownError, w))"

definition has_timer :: "svc_env \<Rightarrow> ustr \<Rightarrow> sv_inst instance_map \<Rightarrow> bool" where
  "has_timer E name inst \<longleftrightarrow> (case as_one (se_meta E) tid_timer ''*'' name inst of Inr _ \<Rightarrow> True | Inl _ \<Rightarrow> False)"

definition finish_action :: "ustr \<Rightarrow> res_payload resource_action" where
  "finish_action name = \<lparr>ra_runtime = ''timer'', ra_action = ''finish_timer'', ra_payload = Some (TimerPayload name)\<rparr>"

definition timer_start :: "bool \<Rightarrow> svc_env \<Rightarrow> ustr \<Rightarrow> svc_world \<Rightarrow> svc_world run" where
  "timer_start checked E name w =
     (if has_timer E name (sw_inst w) then Some (Inr (), w)
      else (case make_one E tid_timer name (make_timer checked E) w of
              None \<Rightarrow> None
            | Some (Inr (ITimer t), w) \<Rightarrow> Some (Inr (), w\<lparr>sw_res := rs_action (ti_fd t) (finish_action name) (sw_res w)\<rparr>)
            | Some (Inr _, w) \<Rightarrow> Some (Inl instance_mismatch, w)
            | Some (Inl e, w) \<Rightarrow> Some (Inl e, w)))"

text \<open>\<open>uninstantiate_one::<Timer>\<close>\<close>

definition take_timer :: "svc_env \<Rightarrow> ustr \<Rightarrow> svc_world \<Rightarrow> timer_inst result \<times> svc_world" where
  "take_timer E name w =
     (case uninstantiate_one (se_meta E) tid_timer ''*'' name (sw_inst w) of
        (Inr (ITimer t), inst) \<Rightarrow> (Inr t, w\<lparr>sw_inst := inst\<rparr>)
      | (Inr _, inst) \<Rightarrow> (Inl instance_mismatch, w\<lparr>sw_inst := inst\<rparr>)
      | (Inl e, inst) \<Rightarrow> (Inl e, w\<lparr>sw_inst := inst\<rparr>))"

definition timer_stop :: "svc_env \<Rightarrow> ustr \<Rightarrow> svc_world \<Rightarrow> unit result \<times> svc_world" where
  "timer_stop E name w =
     (case take_timer E name w of
        (Inl e, w) \<Rightarrow> (Inl e, w)
      | (Inr t, w) \<Rightarrow> (Inr (), w\<lparr>sw_res := rs_terminate (ti_fd t) (sw_res w)\<rparr>))"

section \<open>Expiry\<close>

definition finish_closure :: "svc_env \<Rightarrow> ustr \<Rightarrow> facet_map \<Rightarrow> svc_world \<Rightarrow> unit result \<times> svc_world" where
  "finish_closure E name facets w =
     (case take_timer E name w of
        (Inl e, w) \<Rightarrow> (Inr (), w)
      | (Inr t, w) \<Rightarrow>
          (Inr (), (run_triggers E (tm_finish (ti_meta t)) (Some facets) w)
                     \<lparr>sw_res := rs_terminate (ti_fd t) (sw_res w)\<rparr>))"

definition finish_timer :: "svc_env \<Rightarrow> ustr \<Rightarrow> svc_world \<Rightarrow> unit result \<times> svc_world" where
  "finish_timer E name w = with_singletons graph_and_vars (\<lambda>xs. finish_closure E name (taken_graph xs)) w"

section \<open>Timers that follow a service\<close>

definition timer_items :: "(ustr \<times> unit_item) list \<Rightarrow> (ustr \<times> timer_meta) list" where
  "timer_items xs = List.map_filter (\<lambda>(grp, i). case i of UTimer m \<Rightarrow> Some (grp, m) | _ \<Rightarrow> None) xs"

definition timers_after :: "svc_env \<Rightarrow> ustr \<Rightarrow> ustr list" where
  "timers_after E name =
     concat (map (\<lambda>(_, m). map (\<lambda>(grp, tm). grp @ '':'' @ tm_name tm)
       (filter (\<lambda>(_, tm). case tm_after tm of Some deps \<Rightarrow> name \<in> set deps | None \<Rightarrow> False)
         (timer_items (grouped_items tid_timer m)))) (mr_metadata (se_meta E)))"

definition reconcile_timers :: "svc_env \<Rightarrow> ustr \<Rightarrow> service_event \<Rightarrow> svc_world \<Rightarrow> svc_world" where
  "reconcile_timers E service action w =
     (let dependents = timers_after E (instance_key_name (normalize_uaddr service []))
      in emit_all (map (\<lambda>n. EDispatch (if stopped_kind action then TimStop n else TimStart n)) dependents) w)"

section \<open>The messages of the timer runtime\<close>

definition timers_handle :: "bool \<Rightarrow> svc_env \<Rightarrow> svc_cmd \<Rightarrow> svc_world \<Rightarrow> svc_world run" where
  "timers_handle checked E cmd w =
     (case cmd of
        TimStart name \<Rightarrow> timer_start checked E name w
      | TimStop name \<Rightarrow> Some (timer_stop E name w)
      | TimReconcile service action \<Rightarrow> Some (Inr (), reconcile_timers E service action w)
      | _ \<Rightarrow> Some (Inr (), w))"

section \<open>Decimal numbers\<close>

lemma digit_char [simp]: "d < 10 \<Longrightarrow> digit_val (char_of (48 + d :: nat)) = Some d"
  by (simp add: digit_val_def)

lemma parse_digits_append: "parse_digits acc (xs @ ys) = Option.bind (parse_digits acc xs) (\<lambda>a. parse_digits a ys)"
  by (induction acc xs rule: parse_digits.induct) (auto split: option.split)

lemma parse_shown: "parse_digits 0 (show_nat n) = Some n"
proof (induction n rule: show_nat.induct)
  case (1 n)
  show ?case
  proof (cases "n < 10")
    case True
    then show ?thesis by (simp add: show_nat.simps [of n])
  next
    case False
    then show ?thesis using 1 [OF False] by (simp add: show_nat.simps [of n] parse_digits_append)
  qed
qed

lemma shown_nonempty [simp]: "show_nat n \<noteq> []"
  by (subst show_nat.simps) simp

lemma shown_digits: "c \<in> set (show_nat n) \<Longrightarrow> \<exists>d < 10. c = char_of (48 + d :: nat)"
proof (induction n rule: show_nat.induct)
  case (1 n)
  then show ?case
    by (subst (asm) show_nat.simps) (auto split: if_splits intro: exI [of _ "n mod 10"])
qed

lemma shown_digit: "c \<in> set (show_nat n) \<Longrightarrow> 48 \<le> (of_char c :: nat) \<and> (of_char c :: nat) \<le> 57"
  using shown_digits by fastforce

lemma digits_visible: "\<forall>d < 10. visible (char_of (48 + d :: nat)) \<and> char_of (48 + d :: nat) \<notin> {CHR ''+'', CHR ''-''}"
  by code_simp

lemma shown_plain: "c \<in> set (show_nat n) \<Longrightarrow> visible c \<and> c \<noteq> CHR ''+'' \<and> c \<noteq> CHR ''-''"
  using shown_digits [of c n] digits_visible by fastforce

lemma parse_uint_shown: "parse_uint bound (show_nat n) = (if n < bound then Some n else None)"
proof -
  obtain c cs where s: "show_nat n = c # cs" by (cases "show_nat n") auto
  then have "c \<noteq> CHR ''+''" using shown_plain [of c n] by simp
  with s show ?thesis using parse_shown [of n] by (simp add: parse_uint_def)
qed

section \<open>What a duration means\<close>

text \<open>
  A duration written as a decimal number and a unit is that number times the seconds of the unit, for
  every number that fits in 64 bits. A product that does not fit wraps around, or panics in a build that
  checks for overflow; a number that does not fit is no duration.
\<close>

theorem parse_duration_exact:
  assumes "unit_seconds u = Some k"
  shows "parse_duration checked (show_nat n @ [u]) =
    (if n \<ge> 2 ^ 64 then Some None
     else if checked \<and> n * unat k \<ge> 2 ^ 64 then None
     else Some (Some (of_nat n * k)))"
proof -
  let ?s = "show_nat n @ [u]"
  have u: "u \<in> {CHR ''s'', CHR ''m'', CHR ''h'', CHR ''d''}"
    using assms by (auto simp: unit_seconds_def split: if_splits)
  have "hd ?s = hd (show_nat n)" by simp
  then have "trim ?s = ?s"
    using u shown_plain [of "hd ?s" n] by (intro trim_visible) (auto simp: visible_def is_ws_def)
  moreover have "\<not> continuation_byte u" using u by (auto simp: continuation_byte_def)
  moreover have "digit_val u = None" using u by (auto simp: digit_val_def)
  then have "parse_digits 0 ?s = None" by (simp add: parse_digits_append parse_shown)
  then have "parse_u64 ?s = None"
    using shown_plain [of "hd (show_nat n)" n]
    by (cases "show_nat n") (simp_all add: parse_u64_def parse_uint_def Let_def del: parse_digits.simps)
  moreover have "unat (of_nat n :: u64) = n" if "n < 2 ^ 64" using that by (simp add: unat_of_nat)
  ultimately show ?thesis
    using assms by (auto simp: parse_duration_def parse_u64_def parse_uint_shown mul_u64_def not_less)
qed

section \<open>The table of timers\<close>

text \<open>
  What the instance map says about timers: at most one under each key. A key that holds a timer holds
  nothing else, which every operation here keeps.
\<close>

definition timer_at :: "sv_inst instance_map \<Rightarrow> ustr \<Rightarrow> timer_inst option" where
  "timer_at inst key = (case inst key of Some [(t, ITimer ti)] \<Rightarrow> if t = mt_id tid_timer then Some ti else None | _ \<Rightarrow> None)"

definition timers_alone :: "sv_inst instance_map \<Rightarrow> bool" where
  "timers_alone inst \<longleftrightarrow>
     (\<forall>key bs b. inst key = Some bs \<longrightarrow> b \<in> set bs \<longrightarrow> fst b = mt_id tid_timer \<longrightarrow> (\<exists>ti. bs = [(mt_id tid_timer, ITimer ti)]))"

definition timer_key :: "svc_env \<Rightarrow> ustr \<Rightarrow> ustr" where
  "timer_key E name = instance_key E ''*'' name"

lemma timers_aloneD:
  "timers_alone inst \<Longrightarrow> inst key = Some bs \<Longrightarrow> b \<in> set bs \<Longrightarrow> fst b = mt_id tid_timer \<Longrightarrow> \<exists>ti. bs = [(mt_id tid_timer, ITimer ti)]"
  unfolding timers_alone_def by blast

lemma timer_at_Some: "timer_at inst key = Some ti \<longleftrightarrow> inst key = Some [(mt_id tid_timer, ITimer ti)]"
  by (auto simp: timer_at_def split: option.splits list.splits prod.splits sv_inst.splits if_splits)

lemma timer_at_update: "timer_at (inst(key := v)) = (timer_at inst)(key := timer_at (\<lambda>_. v) key)"
  by (auto simp: timer_at_def fun_eq_iff)

lemma timers_alone_update:
  "timers_alone inst \<Longrightarrow> (\<And>bs b. v = Some bs \<Longrightarrow> b \<in> set bs \<Longrightarrow> fst b = mt_id tid_timer \<Longrightarrow> \<exists>ti. bs = [(mt_id tid_timer, ITimer ti)]) \<Longrightarrow>
   timers_alone (inst(key := v))"
  by (auto simp: timers_alone_def)

lemma has_timer_iff: "timers_alone (sw_inst w) \<Longrightarrow> has_timer E name (sw_inst w) \<longleftrightarrow> timer_at (sw_inst w) (timer_key E name) \<noteq> None"
proof (cases "sw_inst w (timer_key E name)")
  case (Some bs)
  assume a: "timers_alone (sw_inst w)"
  show ?thesis
  proof (cases "bs \<noteq> [] \<and> fst (last bs) = mt_id tid_timer")
    case True
    then obtain ti where "bs = [(mt_id tid_timer, ITimer ti)]" using timers_aloneD [OF a Some, of "last bs"] by auto
    then show ?thesis using Some
      by (simp add: has_timer_def as_one_def downcast_def timer_key_def instance_key_def timer_at_def)
  next
    case False
    then show ?thesis using Some
      by (auto simp: has_timer_def as_one_def downcast_def timer_key_def instance_key_def timer_at_def Let_def
          split: list.splits prod.splits sv_inst.splits)
  qed
qed (simp add: has_timer_def as_one_def timer_key_def instance_key_def timer_at_def Let_def)

text \<open>Starting a timer that is not in the table.\<close>

definition timer_made :: "svc_env \<Rightarrow> ustr \<Rightarrow> timer_inst \<Rightarrow> svc_world \<Rightarrow> svc_world" where
  "timer_made E name ti w =
     (emit_all [ETimerSet (ti_fd ti) (ti_deadline ti - sw_now w)] (tick w))
       \<lparr>sw_inst := (sw_inst w)(timer_key E name \<mapsto> [(mt_id tid_timer, ITimer ti)]),
        sw_res := rs_action (ti_fd ti) (finish_action name) (rs_own (ti_fd ti) (Timer (unat (ti_fd ti))) (sw_res w))\<rparr>"

lemma make_timer_result:
  "make_timer checked E item w = Some (r, w') \<Longrightarrow>
   (\<exists>e. r = Inl e \<and> sw_inst w' = sw_inst w \<and> sw_res w' = sw_res w) \<or>
   (\<exists>ti. r = Inr (ITimer ti) \<and> se_timerfd E (sw_calls w) = Inr (ti_fd ti) \<and> sw_now w \<le> ti_deadline ti \<and>
      w' = (emit_all [ETimerSet (ti_fd ti) (ti_deadline ti - sw_now w)] (tick w))
             \<lparr>sw_res := rs_own (ti_fd ti) (Timer (unat (ti_fd ti))) (sw_res w)\<rparr>)"
  by (auto simp: make_timer_def tick_def emit_all_def split: unit_item.splits option.splits sum.splits if_splits)

lemma timer_start_new:
  assumes "timers_alone (sw_inst w)" and "timer_start checked E name w = Some (r, w')"
    and "timer_at (sw_inst w) (timer_key E name) = None"
  shows "(\<exists>e. r = Inl e \<and> timer_at (sw_inst w') = timer_at (sw_inst w) \<and> timers_alone (sw_inst w') \<and> sw_res w' = sw_res w) \<or>
    (\<exists>ti. r = Inr () \<and> se_timerfd E (sw_calls w) = Inr (ti_fd ti) \<and> sw_now w \<le> ti_deadline ti \<and> w' = timer_made E name ti w)"
proof -
  have no: "\<not> has_timer E name (sw_inst w)" using assms(3) by (simp add: has_timer_iff [OF assms(1)])
  with assms(2) obtain q v where m: "make_one E tid_timer name (make_timer checked E) w = Some (q, v)"
    by (auto simp: timer_start_def split: option.splits)
  have keep: "\<forall>item q v. make_timer checked E item w = Some (q, v) \<longrightarrow> sw_inst v = sw_inst w"
    by (auto simp: emit_all_def tick_def dest!: make_timer_result)
  show ?thesis
  proof (cases "sw_inst w (timer_key E name) \<in> {None, Some []}")
    case True
    then have "sw_inst w (instance_key E ''*'' name) \<in> {None, Some []}" by (simp add: timer_key_def)
    note f = make_one_free [OF m this keep]
    have empty: "timers_alone ((sw_inst w)(timer_key E name \<mapsto> []))" by (rule timers_alone_update [OF assms(1)]) auto
    show ?thesis
    proof (cases q)
      case (Inl e)
      with f have "v = w \<or> (\<exists>item u. make_timer checked E item w = Some (Inl e, u) \<and>
          v = u\<lparr>sw_inst := (sw_inst w)(timer_key E name \<mapsto> [])\<rparr>)" by (auto simp: timer_key_def)
      then have "timer_at (sw_inst v) = timer_at (sw_inst w) \<and> timers_alone (sw_inst v) \<and> sw_res v = sw_res w"
        using assms(1,3) empty by (auto simp: timer_at_update timer_at_def fun_eq_iff dest!: make_timer_result)
      then show ?thesis using assms(2) no m Inl by (auto simp: timer_start_def)
    next
      case (Inr x)
      with f obtain item u where u: "make_timer checked E item w = Some (Inr x, u)"
        "v = u\<lparr>sw_inst := (sw_inst w)(timer_key E name \<mapsto> [(mt_id tid_timer, x)])\<rparr>" by (auto simp: timer_key_def)
      from make_timer_result [OF u(1)] obtain ti where "x = ITimer ti" "se_timerfd E (sw_calls w) = Inr (ti_fd ti)"
        "sw_now w \<le> ti_deadline ti" "u = (emit_all [ETimerSet (ti_fd ti) (ti_deadline ti - sw_now w)] (tick w))
             \<lparr>sw_res := rs_own (ti_fd ti) (Timer (unat (ti_fd ti))) (sw_res w)\<rparr>" by auto
      then show ?thesis using assms(2) no m Inr u by (auto simp: timer_start_def timer_made_def)
    qed
  next
    case False
    then obtain b bs where b: "sw_inst w (timer_key E name) = Some (b # bs)" by (cases "sw_inst w (timer_key E name)") (auto simp: neq_Nil_conv)
    have "fst b \<noteq> mt_id tid_timer" using timers_aloneD [OF assms(1) b, of b] b assms(3) by (auto simp: timer_at_def)
    with make_one_taken [of w E name b bs tid_timer "make_timer checked E"] b
    have "make_one E tid_timer name (make_timer checked E) w = Some (Inl instance_mismatch, w)"
      by (simp add: timer_key_def downcast_def)
    then show ?thesis using assms(1,2) no by (auto simp: timer_start_def)
  qed
qed

lemma take_timer_found:
  "timer_at (sw_inst w) (timer_key E name) = Some ti \<Longrightarrow>
   take_timer E name w = (Inr ti, w\<lparr>sw_inst := (sw_inst w)(timer_key E name := None)\<rparr>)"
  by (simp add: take_timer_def uninstantiate_one_def uninstantiate_def timer_at_Some timer_key_def instance_key_def
      downcast_def List.map_filter_def)

lemma take_timer_none:
  assumes "timers_alone (sw_inst w)" and "timer_at (sw_inst w) (timer_key E name) = None"
  shows "\<exists>e inst. take_timer E name w = (Inl e, w\<lparr>sw_inst := inst\<rparr>) \<and> timer_at inst = timer_at (sw_inst w) \<and> timers_alone inst"
proof (cases "sw_inst w (timer_key E name)")
  case None
  with assms(1) show ?thesis
    by (auto simp: take_timer_def uninstantiate_one_def uninstantiate_def timer_key_def instance_key_def Let_def
        intro!: exI [of _ "sw_inst w"])
next
  case (Some bs)
  have "fst b \<noteq> mt_id tid_timer" if "b \<in> set bs" for b
    using timers_aloneD [OF assms(1) Some that] assms(2) Some by (auto simp: timer_at_def)
  then have "List.map_filter (downcast (mt_id tid_timer)) bs = []"
    by (induction bs) (auto simp: List.map_filter_def downcast_def)
  moreover have "timers_alone ((sw_inst w)(timer_key E name := None))" by (rule timers_alone_update [OF assms(1)]) auto
  moreover have "timer_at ((sw_inst w)(timer_key E name := None)) = timer_at (sw_inst w)"
    using assms(2) by (auto simp: timer_at_update timer_at_def fun_eq_iff)
  ultimately show ?thesis using Some
    by (auto simp: take_timer_def uninstantiate_one_def uninstantiate_def timer_key_def instance_key_def)
qed

section \<open>The wiring of the timers\<close>

text \<open>
  Every timer of the table has its descriptor owned and in the hands of the event loop, with the action
  that finishes this timer; no two timers share one. A descriptor the kernel hands out is not open, and
  the resources only speak of open ones.
\<close>

definition wired :: "svc_env \<Rightarrow> ustr \<Rightarrow> i32 \<Rightarrow> res_payload resources \<Rightarrow> bool" where
  "wired E key fd rs \<longleftrightarrow>
     (\<exists>name. timer_key E name = key \<and> rs_actions rs fd = Some (finish_action name))
     \<and> 0 \<le> sint fd \<and> rs_fd rs fd \<noteq> None \<and> fd \<in> set (rs_watched rs) \<union> set (rs_unwatched rs)
     \<and> fd \<notin> set (rs_removed rs) \<and> fd \<notin> set (rs_paused rs)"

definition timers_ok :: "svc_env \<Rightarrow> svc_world \<Rightarrow> bool" where
  "timers_ok E w \<longleftrightarrow> timers_alone (sw_inst w)
     \<and> (\<forall>key ti. timer_at (sw_inst w) key = Some ti \<longrightarrow> wired E key (ti_fd ti) (sw_res w))
     \<and> (\<forall>k1 k2 t1 t2. timer_at (sw_inst w) k1 = Some t1 \<longrightarrow> timer_at (sw_inst w) k2 = Some t2 \<longrightarrow>
          ti_fd t1 = ti_fd t2 \<longrightarrow> k1 = k2)"

definition fresh_fd :: "i32 \<Rightarrow> res_payload resources \<Rightarrow> bool" where
  "fresh_fd fd rs \<longleftrightarrow> 0 \<le> sint fd \<and> rs_fd rs fd = None \<and>
     fd \<notin> set (rs_watched rs) \<union> set (rs_unwatched rs) \<union> set (rs_removed rs) \<union> set (rs_paused rs)"

inductive timer_step :: "bool \<Rightarrow> svc_env \<Rightarrow> svc_world \<Rightarrow> svc_world \<Rightarrow> bool" for checked E where
  timer_message: "timers_handle checked E cmd w = Some (r, w') \<Longrightarrow>
    (\<forall>fd. se_timerfd E (sw_calls w) = Inr fd \<longrightarrow> fresh_fd fd (sw_res w)) \<Longrightarrow> timer_step checked E w w'"
| timer_expired: "finish_timer E name w = (r, w') \<Longrightarrow> timer_step checked E w w'"
| timer_pump: "timer_step checked E w (w\<lparr>sw_res := fst (pump_sync fails (sw_res w, ep))\<rparr>)"
| timer_time: "sw_now w \<le> t \<Longrightarrow> timer_step checked E w (w\<lparr>sw_now := t\<rparr>)"

lemma wired_terminate: "wired E key fd rs \<Longrightarrow> fd \<noteq> fd' \<Longrightarrow> wired E key fd (rs_terminate fd' rs)"
  by (simp add: wired_def rs_terminate_def Let_def)

lemma wired_open: "wired E key fd rs \<Longrightarrow> fd \<noteq> fd' \<Longrightarrow> wired E key fd (rs_action fd' act (rs_own fd' loc rs))"
  by (auto simp: wired_def rs_action_def rs_own_def register_resource_def)

lemma wired_pump: "wired E key fd rs \<Longrightarrow> wired E key fd (fst (pump_sync fails (rs, ep)))"
proof -
  assume w: "wired E key fd rs"
  obtain rs' ep' where p: "pump_sync fails (rs, ep) = (rs', ep')" by fastforce
  note f = pump_sync_fields [OF p]
  have "fd \<in> set (rs_watched rs') \<union> set (rs_unwatched rs')"
    using w unfolding wired_def f(6,7) by (cases "ep fd") auto
  with w p f show ?thesis by (simp add: wired_def)
qed

lemma wired_new: "wired E (timer_key E name) fd (rs_action fd (finish_action name) (rs_own fd loc rs))" if "fresh_fd fd rs"
  using that by (auto simp: wired_def rs_action_def rs_own_def register_resource_def fresh_fd_def)

lemma timers_ok_frame:
  "timers_ok E w \<Longrightarrow> timer_at (sw_inst w') = timer_at (sw_inst w) \<Longrightarrow> timers_alone (sw_inst w') \<Longrightarrow> sw_res w' = sw_res w \<Longrightarrow> timers_ok E w'"
  by (simp add: timers_ok_def)

lemma timers_ok_taken:
  assumes "timers_ok E w" and "timer_at (sw_inst w) (timer_key E name) = Some ti"
    and "sw_inst w' = (sw_inst w)(timer_key E name := None)" and "sw_res w' = rs_terminate (ti_fd ti) (sw_res w)"
  shows "timers_ok E w'"
proof -
  have "timers_alone (sw_inst w')" unfolding assms(3) using assms(1) by (auto simp: timers_ok_def intro: timers_alone_update)
  moreover have at: "timer_at (sw_inst w') = (timer_at (sw_inst w))(timer_key E name := None)"
    unfolding assms(3) timer_at_update by (simp add: timer_at_def)
  moreover have "wired E key (ti_fd t) (sw_res w')" if "timer_at (sw_inst w') key = Some t" for key t
  proof -
    from that have t: "timer_at (sw_inst w) key = Some t" "key \<noteq> timer_key E name" by (auto simp: at split: if_splits)
    then have "ti_fd t \<noteq> ti_fd ti" "wired E key (ti_fd t) (sw_res w)" using assms(1,2) by (auto simp: timers_ok_def)
    then show ?thesis unfolding assms(4) by (metis wired_terminate)
  qed
  ultimately show ?thesis using assms(1) by (auto simp: timers_ok_def split: if_splits)
qed

lemma timer_key_scoped: "CHR ''@'' \<in> set (timer_key E name)"
  by (auto simp: timer_key_def instance_key_def resolved_metadata_and_full_name_def rslvns_scp_def Let_def)

lemma plain_boxes:
  assumes "timers_ok E w" and "CHR ''@'' \<notin> set key" and "sw_inst w key = Some bs" and "b \<in> set bs"
  shows "fst b \<noteq> mt_id tid_timer"
proof
  assume "fst b = mt_id tid_timer"
  with assms timers_aloneD obtain ti where "timer_at (sw_inst w) key = Some ti"
    unfolding timers_ok_def timer_at_Some by metis
  with assms(1) obtain name where "timer_key E name = key" unfolding timers_ok_def wired_def by blast
  with assms(2) show False using timer_key_scoped by metis
qed

lemma timer_at_plain: "timers_ok E w \<Longrightarrow> CHR ''@'' \<notin> set key \<Longrightarrow> timer_at (sw_inst w) key = None"
  using plain_boxes by (fastforce simp: timer_at_def split: option.split list.split prod.split sv_inst.split)

text \<open>Other entries of the instance map do not matter.\<close>

lemma timers_ok_other:
  assumes "timers_ok E w" and "CHR ''@'' \<notin> set key" and "\<forall>bs b. v = Some bs \<longrightarrow> b \<in> set bs \<longrightarrow> fst b \<noteq> mt_id tid_timer"
  shows "timers_ok E (w\<lparr>sw_inst := (sw_inst w)(key := v)\<rparr>)"
proof (rule timers_ok_frame [OF assms(1)])
  have "timer_at (\<lambda>_. v) key = None"
    using assms(3) by (fastforce simp: timer_at_def split: option.split list.split prod.split sv_inst.split)
  then show "timer_at (sw_inst (w\<lparr>sw_inst := (sw_inst w)(key := v)\<rparr>)) = timer_at (sw_inst w)"
    using timer_at_plain [OF assms(1,2)] by (simp add: timer_at_update fun_upd_idem)
  have "timers_alone (sw_inst w)" using assms(1) by (simp add: timers_ok_def)
  then have "timers_alone ((sw_inst w)(key := v))" by (rule timers_alone_update) (use assms(3) in blast)
  then show "timers_alone (sw_inst (w\<lparr>sw_inst := (sw_inst w)(key := v)\<rparr>))" by simp
qed simp

lemma finish_closure_ok:
  assumes "timers_ok E w" and "finish_closure E name facets w = (r, w')"
  shows "timers_ok E w'"
proof (cases "timer_at (sw_inst w) (timer_key E name)")
  case None
  with take_timer_none [of w E name] assms show ?thesis
    by (auto simp: finish_closure_def timers_ok_def)
next
  case (Some ti)
  show ?thesis
    using assms(2) take_timer_found [OF Some]
    by (intro timers_ok_taken [OF assms(1) Some]) (auto simp: finish_closure_def run_triggers_def emit_all_def split: option.split)
qed

lemma singletons_timers_ok:
  assumes "timers_ok E w" and "with_singletons graph_and_vars F w = (r, w')"
    and F: "\<And>xs v r' v'. timers_ok E v \<Longrightarrow> F xs v = (r', v') \<Longrightarrow> timers_ok E v'"
  shows "timers_ok E w'"
proof -
  have at: "CHR ''@'' \<notin> set graph_key" "CHR ''@'' \<notin> set vars_key" by (simp_all add: graph_key_def vars_key_def)
  let ?w1 = "w\<lparr>sw_inst := (sw_inst w)(graph_key := None)\<rparr>"
  let ?w2 = "w\<lparr>sw_inst := (sw_inst w)(graph_key := None, vars_key := None)\<rparr>"
  have w1: "timers_ok E ?w1" using at by (intro timers_ok_other [OF assms(1)]) auto
  have w2: "timers_ok E ?w2" using timers_ok_other [OF w1 at(2), of None] by simp
  have restored: "timers_ok E (v\<lparr>sw_inst := (sw_inst v)(graph_key \<mapsto> (tid_graph, x) # gs, vars_key \<mapsto> (tid_vars, y) # hs)\<rparr>)"
    if v: "timers_ok E v" and gs: "sw_inst w graph_key = Some (b # gs)" and hs: "sw_inst w vars_key = Some (c # hs)" for v x y b gs c hs
  proof -
    have g: "\<forall>b \<in> set gs. fst b \<noteq> mt_id tid_timer" and h: "\<forall>b \<in> set hs. fst b \<noteq> mt_id tid_timer"
      using plain_boxes [OF assms(1) at(1) gs] plain_boxes [OF assms(1) at(2) hs] by auto
    let ?v = "v\<lparr>sw_inst := (sw_inst v)(graph_key \<mapsto> (tid_graph, x) # gs)\<rparr>"
    have "timers_ok E ?v"
      using g by (intro timers_ok_other [OF v at(1)]) (auto simp: tid_graph_def tid_timer_def)
    then have "timers_ok E (?v\<lparr>sw_inst := (sw_inst ?v)(vars_key \<mapsto> (tid_vars, y) # hs)\<rparr>)"
      using h by (intro timers_ok_other [OF _ at(2)]) (auto simp: tid_vars_def tid_timer_def)
    then show ?thesis by simp
  qed
  show ?thesis
    using assms(1,2) w1 w2 F restored
    by (auto simp: with_singletons_def graph_and_vars_def split: option.splits list.splits if_splits sum.splits prod.splits)
qed

lemma timer_start_ok:
  assumes ok: "timers_ok E w" and start: "timer_start checked E name w = Some (r, w')"
    and fresh: "\<forall>fd. se_timerfd E (sw_calls w) = Inr fd \<longrightarrow> fresh_fd fd (sw_res w)"
  shows "timers_ok E w'"
proof -
  have alone: "timers_alone (sw_inst w)" using ok by (simp add: timers_ok_def)
  let ?key = "timer_key E name"
  show ?thesis
  proof (cases "timer_at (sw_inst w) ?key")
    case (Some ti)
    then have "w' = w" using start has_timer_iff [OF alone, of E name] by (simp add: timer_start_def)
    then show ?thesis using ok by simp
  next
    case None
    from timer_start_new [OF alone start None] show ?thesis
    proof (elim disjE exE conjE)
      fix e assume "timer_at (sw_inst w') = timer_at (sw_inst w)" "timers_alone (sw_inst w')" "sw_res w' = sw_res w"
      then show ?thesis by (rule timers_ok_frame [OF ok])
    next
      fix ti assume fd: "se_timerfd E (sw_calls w) = Inr (ti_fd ti)" and w': "w' = timer_made E name ti w"
      have f: "fresh_fd (ti_fd ti) (sw_res w)" using fresh fd by simp
      have at: "timer_at (sw_inst w') = (timer_at (sw_inst w))(?key \<mapsto> ti)"
        by (simp add: w' timer_made_def timer_at_update) (simp add: timer_at_def)
      have "timers_alone (sw_inst w')" unfolding w' timer_made_def by (simp, rule timers_alone_update [OF alone]) auto
      moreover have other: "ti_fd t \<noteq> ti_fd ti" if "timer_at (sw_inst w) key = Some t" for key t
      proof -
        have "wired E key (ti_fd t) (sw_res w)" using ok that by (simp add: timers_ok_def)
        with f show ?thesis unfolding wired_def fresh_fd_def by metis
      qed
      moreover have "wired E key (ti_fd t) (sw_res w')" if "timer_at (sw_inst w') key = Some t" for key t
      proof (cases "key = ?key")
        case True
        with that have "t = ti" by (simp add: at)
        then show ?thesis using True wired_new [OF f] by (simp add: w' timer_made_def)
      next
        case False
        with that have t: "timer_at (sw_inst w) key = Some t" by (simp add: at)
        then have "wired E key (ti_fd t) (sw_res w)" using ok by (simp add: timers_ok_def)
        then show ?thesis using wired_open other [OF t] by (simp add: w' timer_made_def)
      qed
      moreover have "k1 = k2" if "timer_at (sw_inst w') k1 = Some t1" "timer_at (sw_inst w') k2 = Some t2" "ti_fd t1 = ti_fd t2"
        for k1 k2 t1 t2
        using that other [of k1 t1] other [of k2 t2] ok
        by (cases "k1 = ?key"; cases "k2 = ?key") (auto simp: at timers_ok_def)
      ultimately show ?thesis unfolding timers_ok_def by blast
    qed
  qed
qed

lemma timer_stop_ok:
  assumes ok: "timers_ok E w" and stop: "timer_stop E name w = (r, w')"
  shows "timers_ok E w'"
proof (cases "timer_at (sw_inst w) (timer_key E name)")
  case None
  with take_timer_none [of w E name] ok stop show ?thesis by (auto simp: timer_stop_def timers_ok_def)
next
  case (Some ti)
  show ?thesis using stop take_timer_found [OF Some]
    by (intro timers_ok_taken [OF ok Some]) (auto simp: timer_stop_def)
qed

lemma timers_ok_emit [simp]: "timers_ok E (emit_all es w) = timers_ok E w"
  by (simp add: timers_ok_def emit_all_def)

lemma timer_step_ok: "timer_step checked E w w' \<Longrightarrow> timers_ok E w \<Longrightarrow> timers_ok E w'"
proof (induction rule: timer_step.induct)
  case (timer_message cmd w r w')
  then show ?case
    by (auto simp: timers_handle_def reconcile_timers_def Let_def dest: timer_start_ok timer_stop_ok split: svc_cmd.splits)
next
  case (timer_expired name w r w')
  then show ?case unfolding finish_timer_def by (blast intro: singletons_timers_ok finish_closure_ok)
next
  case (timer_pump w fails ep)
  then show ?case by (auto simp: timers_ok_def intro: wired_pump)
next
  case (timer_time w t)
  then show ?case by (simp add: timers_ok_def)
qed

lemma timer_reach_ok: "(timer_step checked E)\<^sup>*\<^sup>* w w' \<Longrightarrow> timers_ok E w \<Longrightarrow> timers_ok E w'"
  by (induction rule: rtranclp_induct) (auto intro: timer_step_ok)

section \<open>An expired timer\<close>

lemma with_singletons_run:
  assumes "sw_inst w graph_key = Some ((tid_graph, IGraph g) # gs)" and "sw_inst w vars_key = Some ((tid_vars, IVars h) # hs)"
    and "F [IGraph g, IVars h] (w\<lparr>sw_inst := (sw_inst w)(graph_key := None, vars_key := None)\<rparr>) = (r, w')"
  shows "with_singletons graph_and_vars F w =
    (r, w'\<lparr>sw_inst := (sw_inst w')(graph_key \<mapsto> (tid_graph, IGraph g) # gs, vars_key \<mapsto> (tid_vars, IVars h) # hs)\<rparr>)"
  using assms by (simp add: with_singletons_def graph_and_vars_def downcast_def)

text \<open>The effects of the triggers a timer carries.\<close>

definition finish_effects :: "svc_env \<Rightarrow> timer_inst \<Rightarrow> facet_map \<Rightarrow> svc_effect list" where
  "finish_effects E ti facets =
     (case tm_finish (ti_meta ti) of None \<Rightarrow> []
      | Some ts \<Rightarrow> map EFlow (trigger_events (se_lib E) (se_actions E) ts (Some facets) True))"

lemma finish_found:
  assumes "timer_at (sw_inst w) (timer_key E name) = Some ti"
    and "sw_inst w graph_key = Some ((tid_graph, IGraph g) # gs)" and "sw_inst w vars_key = Some ((tid_vars, IVars h) # hs)"
  shows "finish_timer E name w =
    (Inr (), w\<lparr>sw_inst := (sw_inst w)(timer_key E name := None), sw_out := sw_out w @ finish_effects E ti (fg_facets g),
              sw_res := rs_terminate (ti_fd ti) (sw_res w)\<rparr>)"
proof -
  have k: "timer_key E name \<noteq> graph_key" "timer_key E name \<noteq> vars_key"
    using timer_key_scoped [of E name] by (auto simp: graph_key_def vars_key_def)
  let ?v = "w\<lparr>sw_inst := (sw_inst w)(graph_key := None, vars_key := None)\<rparr>"
  have "timer_at (sw_inst ?v) (timer_key E name) = Some ti" using assms(1) k by (simp add: timer_at_update)
  from take_timer_found [OF this]
  have "finish_closure E name (taken_graph [IGraph g, IVars h]) ?v =
      (Inr (), ?v\<lparr>sw_inst := (sw_inst ?v)(timer_key E name := None), sw_out := sw_out w @ finish_effects E ti (fg_facets g),
              sw_res := rs_terminate (ti_fd ti) (sw_res w)\<rparr>)"
    by (simp add: finish_closure_def run_triggers_def finish_effects_def emit_all_def split: option.split)
  from with_singletons_run [where F = "\<lambda>xs. finish_closure E name (taken_graph xs)", OF assms(2,3) this] show ?thesis
    unfolding finish_timer_def using assms(2,3) k by (simp add: fun_upd_twist fun_upd_idem)
qed

lemma finish_absent:
  assumes "timers_ok E w" and "timer_at (sw_inst w) (timer_key E name) = None"
    and "sw_inst w graph_key = Some ((tid_graph, IGraph g) # gs)" and "sw_inst w vars_key = Some ((tid_vars, IVars h) # hs)"
  shows "\<exists>inst. finish_timer E name w = (Inr (), w\<lparr>sw_inst := inst\<rparr>)"
proof -
  let ?v = "w\<lparr>sw_inst := (sw_inst w)(graph_key := None, vars_key := None)\<rparr>"
  have "timers_alone (sw_inst ?v)"
    using assms(1) by (auto simp: timers_ok_def timers_alone_def)
  moreover have "timer_at (sw_inst ?v) (timer_key E name) = None" using assms(2) by (simp add: timer_at_update timer_at_def)
  ultimately obtain e inst where "take_timer E name ?v = (Inl e, ?v\<lparr>sw_inst := inst\<rparr>)" using take_timer_none by blast
  then have "finish_closure E name (taken_graph [IGraph g, IVars h]) ?v = (Inr (), ?v\<lparr>sw_inst := inst\<rparr>)"
    by (simp add: finish_closure_def)
  from with_singletons_run [where F = "\<lambda>xs. finish_closure E name (taken_graph xs)", OF assms(3,4) this] show ?thesis unfolding finish_timer_def by auto
qed

text \<open>
  C27. However timers were started, stopped and have expired before, the event of a timer's descriptor is
  dispatched to the action that finishes this very timer: it leaves the table, the triggers of its unit
  run once, the other timers are untouched, its descriptor is silent from then on, and handling the
  message again does nothing.
\<close>

theorem timer_fires_once:
  assumes "timers_alone (sw_inst w0)" and "\<forall>key. timer_at (sw_inst w0) key = None"
    and "(timer_step checked E)\<^sup>*\<^sup>* w0 w" and "timer_at (sw_inst w) key = Some ti"
    and "sw_inst w graph_key = Some ((tid_graph, IGraph g) # gs)" and "sw_inst w vars_key = Some ((tid_vars, IVars h) # hs)"
  shows "\<exists>name w1.
    pump_event (sw_res w) (event_data (ti_fd ti)) = pump_effect.Dispatch (finish_action name) (ti_fd ti) \<and>
    finish_timer E name w = (Inr (), w1) \<and>
    timer_at (sw_inst w1) = (timer_at (sw_inst w))(key := None) \<and>
    sw_out w1 = sw_out w @ finish_effects E ti (fg_facets g) \<and>
    pump_event (sw_res w1) (event_data (ti_fd ti)) = NoEffect \<and>
    (\<exists>inst. finish_timer E name w1 = (Inr (), w1\<lparr>sw_inst := inst\<rparr>))"
proof -
  have ok: "timers_ok E w"
    using timer_reach_ok [OF assms(3)] assms(1,2) by (simp add: timers_ok_def)
  then have wired: "wired E key (ti_fd ti) (sw_res w)" using assms(4) by (simp add: timers_ok_def)
  then obtain name where name: "timer_key E name = key" and act: "rs_actions (sw_res w) (ti_fd ti) = Some (finish_action name)"
    and pos: "0 \<le> sint (ti_fd ti)" by (auto simp: wired_def)
  let ?w1 = "w\<lparr>sw_inst := (sw_inst w)(key := None), sw_out := sw_out w @ finish_effects E ti (fg_facets g),
              sw_res := rs_terminate (ti_fd ti) (sw_res w)\<rparr>"
  have f: "finish_timer E name w = (Inr (), ?w1)" using finish_found [OF _ assms(5,6)] assms(4) name by blast
  have at: "timer_at (sw_inst ?w1) = (timer_at (sw_inst w))(key := None)"
    by (simp add: timer_at_update) (simp add: timer_at_def)
  have ok1: "timers_ok E ?w1" using timers_ok_taken [OF ok, of name ti ?w1] assms(4) name by simp
  have "key \<noteq> graph_key" "key \<noteq> vars_key"
    using timer_key_scoped [of E name] name by (auto simp: graph_key_def vars_key_def)
  then have "\<exists>inst. finish_timer E name ?w1 = (Inr (), ?w1\<lparr>sw_inst := inst\<rparr>)"
    using finish_absent [OF ok1] at name assms(5,6) by simp
  moreover have "pump_event (sw_res ?w1) (event_data (ti_fd ti)) = NoEffect"
    using pump_event_data [OF pos, of "sw_res ?w1"] by (simp add: rs_terminate_def Let_def)
  moreover have "pump_event (sw_res w) (event_data (ti_fd ti)) = pump_effect.Dispatch (finish_action name) (ti_fd ti)"
    using pump_event_data [OF pos, of "sw_res w"] act by simp
  ultimately show ?thesis using f at by (intro exI [of _ name] exI [of _ ?w1]) simp
qed

section \<open>Witnesses\<close>

definition demo_timer :: timer_meta where
  "demo_timer = \<lparr>tm_name = ''t'', tm_duration = ''5s'', tm_after = Some [''g:a''], tm_finish = None\<rparr>"

definition demo_timers :: svc_env where
  "demo_timers = (demo_svc [])\<lparr>se_meta :=
     \<lparr>mr_metadata = [(''static'', \<lparr>me_name = ''static'', me_name_to_type = Map.empty, me_parsers = Map.empty,
         me_values = [(''g'', [mt_meta tid_timer \<mapsto> AnyItems (mt_meta tid_timer) [UTimer demo_timer]])]\<rparr>)],
       mr_indexes = [(mt_id tid_timer, Map.empty)], mr_stoppers = Map.empty\<rparr>\<rparr>"

lemma demo_timer_starts:
  "\<exists>ti w. timer_start False demo_timers ''g:t'' quiet_world = Some (Inr (), w) \<and> w = timer_made demo_timers ''g:t'' ti quiet_world"
proof -
  have alone: "timers_alone (sw_inst quiet_world)"
    by (auto simp: timers_alone_def quiet_world_def world_with_def tid_timer_def tid_graph_def tid_vars_def split: if_splits)
  have s: "case timer_start False demo_timers ''g:t'' quiet_world of Some (Inr _, _) \<Rightarrow> True | _ \<Rightarrow> False" by code_simp
  then obtain w where w: "timer_start False demo_timers ''g:t'' quiet_world = Some (Inr (), w)"
    by (auto split: option.splits prod.splits sum.splits)
  have "timer_at (sw_inst quiet_world) (timer_key demo_timers ''g:t'') = None"
    using timer_key_scoped [of demo_timers "''g:t''"]
    by (auto simp: timer_at_def quiet_world_def world_with_def graph_key_def vars_key_def tid_timer_def)
  from timer_start_new [OF alone w this] w show ?thesis by auto
qed

lemma timer_fires_once_witness:
  "\<exists>w0 w name ti. pump_event (sw_res w) (event_data (ti_fd ti)) = pump_effect.Dispatch (finish_action name) (ti_fd ti) \<and>
    timer_step False demo_timers w0 w \<and> timer_at (sw_inst (snd (finish_timer demo_timers name w))) (timer_key demo_timers ''g:t'') = None \<and>
    timer_at (sw_inst w) (timer_key demo_timers ''g:t'') = Some ti"
proof -
  let ?key = "timer_key demo_timers ''g:t''"
  obtain ti w where start: "timer_start False demo_timers ''g:t'' quiet_world = Some (Inr (), w)"
    and w: "w = timer_made demo_timers ''g:t'' ti quiet_world" using demo_timer_starts by blast
  have k: "?key \<noteq> graph_key" "?key \<noteq> vars_key"
    using timer_key_scoped [of demo_timers "''g:t''"] by (auto simp: graph_key_def vars_key_def)
  have none: "\<forall>key. timer_at (sw_inst quiet_world) key = None" "timers_alone (sw_inst quiet_world)"
    by (auto simp: timer_at_def timers_alone_def quiet_world_def world_with_def tid_timer_def tid_graph_def tid_vars_def split: if_splits)
  have "timers_handle False demo_timers (TimStart ''g:t'') quiet_world = Some (Inr (), w)" using start by (simp add: timers_handle_def)
  then have step: "timer_step False demo_timers quiet_world w"
    by (rule timer_message) (simp add: demo_timers_def demo_svc_def fresh_fd_def quiet_world_def world_with_def rs_default_def)
  have at: "timer_at (sw_inst w) ?key = Some ti" by (simp add: w timer_made_def timer_at_update) (simp add: timer_at_def)
  have "sw_inst w graph_key = Some ((tid_graph, IGraph \<lparr>fg_facets = [], fg_scoped = []\<rparr>) # [])"
    "sw_inst w vars_key = Some ((tid_vars, IVars vh_new) # [])"
    using k by (simp_all add: w timer_made_def quiet_world_def world_with_def)
  from timer_fires_once [OF none(2,1) r_into_rtranclp [of "timer_step False demo_timers", OF step] at this] step at
  show ?thesis by (metis fun_upd_same snd_conv)
qed

lemma parse_duration_exact_witness: "parse_duration True (show_nat 90 @ ''m'') = Some (Some 5400)"
  using parse_duration_exact [of "CHR ''m''" 60 True 90] by (simp add: unit_seconds_def)

end
