(* ===== verification/Sockets.thy ===== *)
theory Sockets
  imports Timers
begin

text \<open>
  The socket runtime, \<^verbatim>\<open>crates/services/src/sockets.rs\<close>: opening and closing sockets, the
  sockets an owner waits with, the connection that starts the owner, pausing and resuming, the sockets
  that follow facets, and the two IPC requests. Its own maps are a record beside the state of the
  services; the registry of sockets by owner is a singleton of the instance map.
\<close>

section \<open>State and environment\<close>

record socket_rt =
  kr_instances :: "i32 \<rightharpoonup> ustr"
  kr_owner :: "(i32 \<times> ustr) list"
  kr_paused :: "ustr \<rightharpoonup> i32 list"
  kr_index :: "(ustr \<times> ustr list) list"

type_synonym sock_world = "socket_rt \<times> svc_world"

definition socket_rt_new :: socket_rt where
  "socket_rt_new = \<lparr>kr_instances = Map.empty, kr_owner = [], kr_paused = Map.empty, kr_index = []\<rparr>"

text \<open>
  The kernel: making the directories above a socket file, opening a socket (its address parsed, bound,
  listening, its mode set), and the user id at the other end of a descriptor. Permission checks take
  fuel.
\<close>

record sock_env =
  ke_svc :: svc_env
  ke_dir :: "nat \<Rightarrow> string \<Rightarrow> core_error option"
  ke_open :: "nat \<Rightarrow> socket_meta \<Rightarrow> i32 result"
  ke_peer :: "nat \<Rightarrow> i32 \<Rightarrow> u32 option"
  ke_fuel :: nat

section \<open>Opening\<close>

definition get_socket_path :: "sock_env \<Rightarrow> string \<Rightarrow> bool \<Rightarrow> svc_world \<Rightarrow> string result \<times> svc_world" where
  "get_socket_path K listen create w =
     (let path = path_push ''/var/sock'' listen in
      case (if create then ke_dir K (sw_calls w) path else None) of
        Some e \<Rightarrow> (Inl e, tick w)
      | None \<Rightarrow>
          (let w = (if create then emit_all [ESocketDir path] (tick w) else w) in
           (Inr path, if se_path_exists (ke_svc K) (sw_calls w) path then emit_all [ERemove path False] (tick w) else tick w)))"

definition create_socket :: "sock_env \<Rightarrow> socket_meta \<Rightarrow> svc_world \<Rightarrow> i32 result \<times> svc_world" where
  "create_socket K m w =
     (case (if so_type m = SockUds then get_socket_path K (so_listen m) True w else (Inr [], w)) of
        (Inl e, w) \<Rightarrow> (Inl e, w)
      | (Inr _, w) \<Rightarrow> (ke_open K (sw_calls w) m, tick w))"

definition drain_action :: "res_payload resource_action" where
  "drain_action = \<lparr>ra_runtime = ''sockets'', ra_action = ''drain_incoming'', ra_payload = None\<rparr>"

definition make_socket :: "sock_env \<Rightarrow> ustr \<Rightarrow> unit_item \<Rightarrow> svc_world \<Rightarrow> sv_inst result \<times> svc_world" where
  "make_socket K name item w =
     (case item of
        USocket m \<Rightarrow>
          (case create_socket K m w of
             (Inl e, w) \<Rightarrow>
               (Inl (Custom (''failed to create socket '' @ name @ '': '' @ error_text (se_errno_text (ke_svc K)) e)), w)
           | (Inr fd, w) \<Rightarrow>
               (Inr (ISocket \<lparr>sk_meta = m, sk_fd = fd, sk_active = True\<rparr>),
                w\<lparr>sw_res := rs_action fd drain_action (rs_own fd (Owned (unat fd)) (sw_res w))\<rparr>))
      | _ \<Rightarrow> (Inl UnknownError, w))"

definition open_one :: "sock_env \<Rightarrow> ustr \<Rightarrow> svc_world \<Rightarrow> sv_inst result \<times> svc_world" where
  "open_one K name w =
     (let E = ke_svc K;
          (made, w) = (case item_to_make E tid_socket ''*'' name (sw_inst w) of
                         None \<Rightarrow> (Inl UnknownError, w) | Some item \<Rightarrow> make_socket K name item w)
      in case instantiate_one item_name (se_meta E) tid_socket ''*'' name (\<lambda>_. made) (sw_inst w) of
           (r, inst) \<Rightarrow> (r, w\<lparr>sw_inst := inst\<rparr>))"

definition find_socket :: "svc_env \<Rightarrow> ustr \<Rightarrow> socket_meta option" where
  "find_socket E name =
     (case mr_find item_name (se_meta E) tid_socket ''*'' name of Some (USocket m) \<Rightarrow> Some m | _ \<Rightarrow> None)"

definition one_socket :: "svc_env \<Rightarrow> ustr \<Rightarrow> sv_inst instance_map \<Rightarrow> socket_inst result" where
  "one_socket E name inst =
     (case as_one (se_meta E) tid_socket ''*'' name inst of
        Inr (ISocket s) \<Rightarrow> Inr s | Inr _ \<Rightarrow> Inl instance_mismatch | Inl e \<Rightarrow> Inl e)"

section \<open>The sockets of an owner\<close>

definition owners_push :: "ustr \<Rightarrow> ustr \<times> i32 \<Rightarrow> socket_owners \<Rightarrow> socket_owners" where
  "owners_push owner entry owners =
     AList.update owner ((case map_of owners owner of Some v \<Rightarrow> v | None \<Rightarrow> []) @ [entry]) owners"

definition owner_fds :: "ustr \<Rightarrow> socket_rt \<Rightarrow> (i32 \<times> ustr) list" where
  "owner_fds owner rt =
     sort_key (\<lambda>(fd, _). sint fd)
       (map (\<lambda>(fd, _). (fd, case kr_instances rt fd of Some n \<Rightarrow> n | None \<Rightarrow> []))
         (filter (\<lambda>(_, own). own = owner) (kr_owner rt)))"

text \<open>The triggers of a socket, and waking the event loop when it has some.\<close>

definition socket_triggers :: "svc_env \<Rightarrow> trigger list option \<Rightarrow> facet_map \<Rightarrow> svc_world \<Rightarrow> svc_world" where
  "socket_triggers E ts facets w =
     (case ts of None \<Rightarrow> w | Some _ \<Rightarrow> emit_all [ENotify] (run_triggers E ts (Some facets) w))"

definition start_socket ::
  "sock_env \<Rightarrow> ustr \<Rightarrow> facet_map \<Rightarrow> socket_owners \<Rightarrow> sock_world \<Rightarrow> unit result \<times> socket_owners \<times> sock_world" where
  "start_socket K name facets owners s =
     (case s of (rt, w) \<Rightarrow>
       (case open_one K name w of
          (Inr (ISocket so), w) \<Rightarrow>
            (let fd = sk_fd so; m = sk_meta so;
                 w = w\<lparr>sw_res := rs_resume fd (sw_res w)\<rparr>;
                 rt = rt\<lparr>kr_instances := (kr_instances rt)(fd \<mapsto> name)\<rparr>;
                 (rt, owners) =
                   (case so_owner m of None \<Rightarrow> (rt, owners)
                    | Some owner \<Rightarrow> (rt\<lparr>kr_owner := AList.update fd owner (kr_owner rt)\<rparr>, owners_push owner (so_name m, fd) owners))
             in (Inr (), owners, rt, socket_triggers (ke_svc K) (so_on_start m) facets w))
        | (Inr _, w) \<Rightarrow> (Inl instance_mismatch, owners, rt, w)
        | (Inl e, w) \<Rightarrow> (Inl e, owners, rt, w)))"

section \<open>Closing\<close>

definition take_socket :: "svc_env \<Rightarrow> ustr \<Rightarrow> svc_world \<Rightarrow> socket_inst result \<times> svc_world" where
  "take_socket E name w =
     (case uninstantiate_one (se_meta E) tid_socket ''*'' name (sw_inst w) of
        (Inr (ISocket so), inst) \<Rightarrow> (Inr so, w\<lparr>sw_inst := inst\<rparr>)
      | (Inr _, inst) \<Rightarrow> (Inl instance_mismatch, w\<lparr>sw_inst := inst\<rparr>)
      | (Inl e, inst) \<Rightarrow> (Inl e, w\<lparr>sw_inst := inst\<rparr>))"

definition forget_fd :: "i32 \<Rightarrow> ustr option \<Rightarrow> socket_rt \<Rightarrow> socket_rt" where
  "forget_fd fd owner rt =
     rt\<lparr>kr_instances := (kr_instances rt)(fd := None), kr_owner := AList.delete fd (kr_owner rt),
        kr_paused := (case owner of None \<Rightarrow> kr_paused rt
                      | Some own \<Rightarrow> (kr_paused rt)(own := map_option (filter (\<lambda>f. f \<noteq> fd)) (kr_paused rt own)))\<rparr>"

definition stop_socket ::
  "sock_env \<Rightarrow> ustr \<Rightarrow> facet_map \<Rightarrow> socket_owners \<Rightarrow> sock_world \<Rightarrow> unit result \<times> socket_owners \<times> sock_world" where
  "stop_socket K name facets owners s =
     (case s of (rt, w) \<Rightarrow>
       (case take_socket (ke_svc K) name w of
          (Inl e, w) \<Rightarrow> (Inl e, owners, rt, w)
        | (Inr so, w) \<Rightarrow>
            (let fd = sk_fd so; m = sk_meta so;
                 w = w\<lparr>sw_res := rs_terminate fd (sw_res w)\<rparr>;
                 rt = forget_fd fd (so_owner m) rt;
                 owners = (case so_owner m of None \<Rightarrow> owners | Some own \<Rightarrow> AList.delete own owners);
                 w = (if so_type m = SockUds then snd (get_socket_path K (so_listen m) False w) else w)
             in (Inr (), owners, rt, socket_triggers (ke_svc K) (so_on_stop m) facets w))))"

text \<open>Connections that wait are accepted and closed, datagrams read and dropped, until there are none.\<close>

definition clear_socket :: "socket_inst \<Rightarrow> svc_world \<Rightarrow> svc_world" where
  "clear_socket so = emit_all [EClearSocket (sk_fd so)]"

section \<open>Under the singletons\<close>

text \<open>
  \<open>singleton_handle\<close> on closures that read the facets and change the registry of sockets by owner.
\<close>

fun facets_in :: "sv_inst list \<Rightarrow> facet_map" where
  "facets_in [] = []"
| "facets_in (x # xs) = (case x of IGraph g \<Rightarrow> fg_facets g | _ \<Rightarrow> facets_in xs)"

fun owners_in :: "sv_inst list \<Rightarrow> socket_owners" where
  "owners_in [] = []"
| "owners_in (x # xs) = (case x of ISocketReg owners \<Rightarrow> owners | _ \<Rightarrow> owners_in xs)"

fun put_owners :: "socket_owners \<Rightarrow> sv_inst list \<Rightarrow> sv_inst list" where
  "put_owners owners [] = []"
| "put_owners owners (x # xs) = (case x of ISocketReg _ \<Rightarrow> ISocketReg owners | _ \<Rightarrow> x) # put_owners owners xs"

definition with_registry ::
  "(ustr \<times> nat) list \<Rightarrow> (facet_map \<Rightarrow> socket_owners \<Rightarrow> sock_world \<Rightarrow> 'r result \<times> socket_owners \<times> sock_world) \<Rightarrow>
   sock_world \<Rightarrow> 'r result \<times> sock_world" where
  "with_registry keys f s =
     (case s of (rt, w) \<Rightarrow>
       if \<not> distinct (map fst keys) then (Inl DoubleKey, rt, w)
       else (case take_lists keys (sw_inst w) of
               (Inl e, inst) \<Rightarrow> (Inl e, rt, w\<lparr>sw_inst := inst\<rparr>)
             | (Inr ls, inst) \<Rightarrow>
                 (case first_values 0 keys ls of
                    Inl e \<Rightarrow> (Inl e, rt, w\<lparr>sw_inst := inst\<rparr>)
                  | Inr xs \<Rightarrow>
                      (case f (facets_in xs) (owners_in xs) (rt, w\<lparr>sw_inst := inst\<rparr>) of
                         (r, owners, rt, w) \<Rightarrow>
                           (r, rt, w\<lparr>sw_inst := put_lists keys ls (put_owners owners xs) (sw_inst w)\<rparr>)))))"

definition graph_and_registry :: "(ustr \<times> nat) list" where
  "graph_and_registry = [(graph_key, tid_graph), (sockets_key, tid_socket_reg)]"

definition graph_vars_registry :: "(ustr \<times> nat) list" where
  "graph_vars_registry = [(graph_key, tid_graph), (vars_key, tid_vars), (sockets_key, tid_socket_reg)]"

definition registry_vars_graph :: "(ustr \<times> nat) list" where
  "registry_vars_graph = [(sockets_key, tid_socket_reg), (vars_key, tid_vars), (graph_key, tid_graph)]"

section \<open>Conditions\<close>

definition socket_items :: "(ustr \<times> unit_item) list \<Rightarrow> (ustr \<times> socket_meta) list" where
  "socket_items xs = List.map_filter (\<lambda>(grp, i). case i of USocket m \<Rightarrow> Some (grp, m) | _ \<Rightarrow> None) xs"

definition scope_sockets :: "svc_env \<Rightarrow> ustr \<Rightarrow> (ustr \<times> socket_meta) list" where
  "scope_sockets E scope =
     socket_items (case mr_items (se_meta E) tid_socket scope of Some xs \<Rightarrow> xs | None \<Rightarrow> [])"

definition socket_full_name :: "ustr \<Rightarrow> socket_meta \<Rightarrow> ustr" where
  "socket_full_name grp m = grp @ '':'' @ so_name m"

definition socket_interests :: "socket_meta \<Rightarrow> ustr list option" where
  "socket_interests m =
     map_option remdups (those (map item_ref ((case so_start_on m of Some xs \<Rightarrow> xs | None \<Rightarrow> []) @
                                              (case so_stop_on m of Some xs \<Rightarrow> xs | None \<Rightarrow> []))))"

fun index_sockets :: "(ustr \<times> socket_meta) list \<Rightarrow> (ustr \<times> ustr list) list \<Rightarrow> (ustr \<times> ustr list) list option" where
  "index_sockets [] ix = Some ix"
| "index_sockets ((key, m) # xs) ix =
     (case socket_interests m of None \<Rightarrow> None | Some names \<Rightarrow> index_sockets xs (fold (index_insert key) names ix))"

definition rebuild_socket_index :: "svc_env \<Rightarrow> socket_rt \<Rightarrow> socket_rt option" where
  "rebuild_socket_index E rt =
     map_option (\<lambda>ix. rt\<lparr>kr_index := ix\<rparr>)
       (index_sockets (map (\<lambda>(grp, m). (socket_full_name grp m, m)) (scope_sockets E ''*'')) [])"

definition socket_targets :: "svc_env \<Rightarrow> emit_trigger \<Rightarrow> ustr \<Rightarrow> socket_rt \<Rightarrow> ustr list" where
  "socket_targets E t scope rt =
     (case et_name t of
        Some name \<Rightarrow>
          remdups (concat (map (\<lambda>k. case map_of (kr_index rt) k of Some ks \<Rightarrow> ks | None \<Rightarrow> []) [name, static_alias name]))
      | None \<Rightarrow> remdups (map (\<lambda>(grp, m). socket_full_name grp m @ ''@'' @ scope) (scope_sockets E scope)))"

text \<open>Any condition suffices, for starting and for stopping.\<close>

definition socket_wanted :: "svc_env \<Rightarrow> facet_map \<Rightarrow> flow_instance option \<Rightarrow> flow_item list option \<Rightarrow> bool" where
  "socket_wanted E facets event conds =
     (case conds of Some cs \<Rightarrow> list_ex (\<lambda>cond. condition_matches (se_lib E) facets cond event None) cs | None \<Rightarrow> False)"

definition socket_active :: "svc_env \<Rightarrow> ustr \<Rightarrow> sv_inst instance_map \<Rightarrow> bool" where
  "socket_active E name inst = (case one_socket E name inst of Inr so \<Rightarrow> sk_active so | Inl _ \<Rightarrow> False)"

definition evaluate_socket ::
  "sock_env \<Rightarrow> facet_map \<Rightarrow> flow_instance option \<Rightarrow> ustr \<Rightarrow> socket_owners \<Rightarrow> sock_world \<Rightarrow> socket_owners \<times> sock_world" where
  "evaluate_socket K facets event name owners s =
     (let E = ke_svc K in
      case find_socket E name of None \<Rightarrow> (owners, s)
      | Some m \<Rightarrow>
          (let active = socket_active E name (sw_inst (snd s)) in
           if socket_wanted E facets event (so_start_on m) \<and> \<not> active then snd (start_socket K name facets owners s)
           else if socket_wanted E facets event (so_stop_on m) \<and> active then snd (stop_socket K name facets owners s)
           else (owners, s)))"

fun evaluate_sockets ::
  "sock_env \<Rightarrow> facet_map \<Rightarrow> flow_instance option \<Rightarrow> ustr list \<Rightarrow> socket_owners \<Rightarrow> sock_world \<Rightarrow> socket_owners \<times> sock_world" where
  "evaluate_sockets K facets event [] owners s = (owners, s)"
| "evaluate_sockets K facets event (name # names) owners s =
     (case evaluate_socket K facets event name owners s of (owners, s) \<Rightarrow> evaluate_sockets K facets event names owners s)"

definition sockets_evaluate :: "sock_env \<Rightarrow> emit_trigger \<Rightarrow> ustr \<Rightarrow> sock_world \<Rightarrow> (unit result \<times> sock_world) option" where
  "sockets_evaluate K t scope s =
     (case s of (rt, w) \<Rightarrow>
       (case (if kr_index rt = [] then rebuild_socket_index (ke_svc K) rt else Some rt) of
          None \<Rightarrow> None
        | Some rt \<Rightarrow>
            Some (with_registry graph_and_registry (\<lambda>facets owners s.
                    (Inr (), evaluate_sockets K facets (emit_event t) (socket_targets (ke_svc K) t scope rt) owners s)) (rt, w))))"

section \<open>The actions\<close>

text \<open>
  Starting what is listed as active: names of other units are skipped because no socket is found; any
  other error ends the loop.
\<close>

fun setup_names ::
  "sock_env \<Rightarrow> facet_map \<Rightarrow> ustr list \<Rightarrow> socket_owners \<Rightarrow> sock_world \<Rightarrow> unit result \<times> socket_owners \<times> sock_world" where
  "setup_names K facets [] owners s = (Inr (), owners, s)"
| "setup_names K facets (name # names) owners s =
     (if (case find_socket (ke_svc K) name of Some m \<Rightarrow> so_start_on m \<noteq> None | None \<Rightarrow> False)
      then setup_names K facets names owners s
      else (case start_socket K name facets owners s of
              (Inr _, owners, s) \<Rightarrow> setup_names K facets names owners s
            | (Inl (MetadataNotFound _), owners, s) \<Rightarrow> setup_names K facets names owners s
            | (Inl e, owners, s) \<Rightarrow> (Inl e, owners, s)))"

definition sockets_setup_all :: "sock_env \<Rightarrow> sock_world \<Rightarrow> unit result \<times> sock_world" where
  "sockets_setup_all K =
     with_registry graph_vars_registry (\<lambda>facets.
       setup_names K facets (map (\<lambda>b. to_string_payload (se_lib (ke_svc K)) (fi_payload b)) (branches_of facets ''rind:active'')))"

fun stop_socket_items ::
  "sock_env \<Rightarrow> facet_map \<Rightarrow> (ustr \<times> socket_meta) list \<Rightarrow> socket_owners \<Rightarrow> sock_world \<Rightarrow> unit result \<times> socket_owners \<times> sock_world" where
  "stop_socket_items K facets [] owners s = (Inr (), owners, s)"
| "stop_socket_items K facets ((grp, m) # items) owners s =
     (case stop_socket K (socket_full_name grp m) facets owners s of
        (Inl e, owners, s) \<Rightarrow> (Inl e, owners, s)
      | (Inr _, owners, s) \<Rightarrow> stop_socket_items K facets items owners s)"

definition sockets_stop_for_scope :: "sock_env \<Rightarrow> ustr \<Rightarrow> sock_world \<Rightarrow> unit result \<times> sock_world" where
  "sockets_stop_for_scope K scope =
     with_registry registry_vars_graph (\<lambda>facets. stop_socket_items K facets (scope_sockets (ke_svc K) scope))"

definition sockets_stop :: "sock_env \<Rightarrow> ustr \<Rightarrow> sock_world \<Rightarrow> unit result \<times> sock_world" where
  "sockets_stop K name = with_registry registry_vars_graph (stop_socket K name)"

definition sockets_start :: "sock_env \<Rightarrow> ustr \<Rightarrow> sock_world \<Rightarrow> unit result \<times> sock_world" where
  "sockets_start K name = with_registry registry_vars_graph (start_socket K name)"

definition sockets_bootstrap :: "sock_env \<Rightarrow> sock_world \<Rightarrow> (unit result \<times> sock_world) option" where
  "sockets_bootstrap K s =
     (case s of (rt, w) \<Rightarrow>
       (case singleton_or_insert_with tid_socket_reg sockets_key (ISocketReg []) (sw_inst w) of
          None \<Rightarrow> None
        | Some (_, inst) \<Rightarrow>
            map_option (\<lambda>rt. (Inr (), rt, w\<lparr>sw_inst := inst\<rparr>)) (rebuild_socket_index (ke_svc K) rt)))"

text \<open>Resuming what was paused for an owner; the action \<open>resume_fds\<close> is the same.\<close>

definition reset_fds :: "ustr \<Rightarrow> sock_world \<Rightarrow> sock_world" where
  "reset_fds owner s =
     (case s of (rt, w) \<Rightarrow>
       (case kr_paused rt owner of None \<Rightarrow> (rt, w)
        | Some fds \<Rightarrow>
            (rt\<lparr>kr_paused := (kr_paused rt)(owner := None)\<rparr>,
             emit_all [ENotify] (w\<lparr>sw_res := fold rs_resume fds (sw_res w)\<rparr>))))"

fun clear_owned :: "svc_env \<Rightarrow> socket_rt \<Rightarrow> (ustr \<times> i32) list \<Rightarrow> svc_world \<Rightarrow> unit result \<times> svc_world" where
  "clear_owned E rt [] w = (Inr (), w)"
| "clear_owned E rt ((_, fd) # xs) w =
     (case kr_instances rt fd of
        None \<Rightarrow> (Inl (InvalidState ''Socket for fd was not found''), w)
      | Some name \<Rightarrow>
          clear_owned E rt xs (case one_socket E name (sw_inst w) of Inr so \<Rightarrow> clear_socket so w | Inl _ \<Rightarrow> w))"

definition clear_for :: "sock_env \<Rightarrow> ustr \<Rightarrow> sock_world \<Rightarrow> unit result \<times> sock_world" where
  "clear_for K owner s =
     (case s of (rt, w) \<Rightarrow>
       (case singleton_of tid_socket_reg sockets_key (sw_inst w) of
          Some (ISocketReg owners) \<Rightarrow>
            (case map_of owners owner of
               None \<Rightarrow> (Inr (), rt, w)
             | Some xs \<Rightarrow> (case clear_owned (ke_svc K) rt xs w of (r, w) \<Rightarrow> (r, rt, w)))
        | _ \<Rightarrow> (Inr (), rt, w)))"

definition clear_one :: "sock_env \<Rightarrow> ustr \<Rightarrow> sock_world \<Rightarrow> unit result \<times> sock_world" where
  "clear_one K name s =
     (case s of (rt, w) \<Rightarrow>
       (case one_socket (ke_svc K) name (sw_inst w) of Inl e \<Rightarrow> (Inl e, rt, w) | Inr so \<Rightarrow> (Inr (), rt, clear_socket so w)))"

section \<open>A connection\<close>

text \<open>
  A socket with permissions asks who is there: any of the permissions is enough. Without a permission
  store nobody is refused.
\<close>

definition peer_allowed :: "sock_env \<Rightarrow> i32 \<Rightarrow> socket_meta \<Rightarrow> svc_world \<Rightarrow> bool option" where
  "peer_allowed K fd m w =
     (case (so_permissions m, singleton_of tid_perms perms_key (sw_inst w)) of
        (Some perms, Some (IPerms pm)) \<Rightarrow>
          (case ke_peer K (sw_calls w) fd of
             None \<Rightarrow> Some False
           | Some uid \<Rightarrow> any_opt (holds_named (ke_fuel K) pm uid) perms)
      | _ \<Rightarrow> Some True)"

definition hand_over :: "ustr \<Rightarrow> socket_inst \<Rightarrow> i32 \<Rightarrow> sock_world \<Rightarrow> sock_world" where
  "hand_over owner so fd s =
     (case s of (rt, w) \<Rightarrow>
       (let rt = rt\<lparr>kr_paused := (kr_paused rt)(owner \<mapsto> (case kr_paused rt owner of Some fds \<Rightarrow> fds | None \<Rightarrow> []) @ [fd])\<rparr>;
            fds = owner_fds owner rt
        in (rt, if so_lifecycle (sk_meta so) = SockOwned
                then emit_all [EDispatch (SvcStart ((start_named owner)\<lparr>ar_fds := map fst fds, ar_fd_names := map snd fds\<rparr>))] w
                else w)))"

definition drain_incoming :: "sock_env \<Rightarrow> i32 \<Rightarrow> sock_world \<Rightarrow> (unit result \<times> sock_world) option" where
  "drain_incoming K fd s =
     (case s of (rt, w) \<Rightarrow>
       (case kr_instances rt fd of
          None \<Rightarrow> Some (Inl (InvalidState ''Socket for fd was not found''), rt, w)
        | Some name \<Rightarrow>
            (case one_socket (ke_svc K) name (sw_inst w) of
               Inl e \<Rightarrow> Some (Inl e, rt, w)
             | Inr so \<Rightarrow>
                 (let w = w\<lparr>sw_res := rs_pause fd (sw_res w)\<rparr>; m = sk_meta so in
                  case peer_allowed K fd m w of
                    None \<Rightarrow> None
                  | Some False \<Rightarrow> Some (Inr (), rt, clear_socket so (tick w))
                  | Some True \<Rightarrow>
                      (case (case so_owner m of None \<Rightarrow> (rt, tick w) | Some owner \<Rightarrow> hand_over owner so fd (rt, tick w)) of
                         (rt, w) \<Rightarrow>
                           (case so_trigger m of
                              None \<Rightarrow> Some (Inr (), rt, w)
                            | Some ts \<Rightarrow>
                                (case with_singletons graph_singleton
                                        (\<lambda>xs w. (Inr (), run_triggers (ke_svc K) (Some ts) (Some (taken_graph xs)) w)) w of
                                   (r, w) \<Rightarrow> Some (r, rt, w))))))))"

section \<open>The messages of the socket runtime\<close>

type_synonym sock_run = "(unit result \<times> sock_world) option"

definition sockets_handle :: "sock_env \<Rightarrow> svc_cmd \<Rightarrow> sock_world \<Rightarrow> sock_run" where
  "sockets_handle K cmd s =
     (case cmd of
        SockBootstrap \<Rightarrow> sockets_bootstrap K s
      | SockSetupAll \<Rightarrow> Some (sockets_setup_all K s)
      | SockStopForScope scope \<Rightarrow> Some (sockets_stop_for_scope K scope s)
      | SockEvaluate t scope \<Rightarrow> sockets_evaluate K t scope s
      | SockClearFor owner \<Rightarrow> Some (clear_for K owner s)
      | SockResumeFds owner \<Rightarrow> Some (Inr (), reset_fds owner s)
      | SockStart name \<Rightarrow> Some (sockets_start K name s)
      | SockStop name \<Rightarrow> Some (sockets_stop K name s)
      | _ \<Rightarrow> Some (Inr (), s))"

section \<open>Requests over IPC\<close>

text \<open>\<open>ipc_owner_has_access\<close> answers no, whoever asks.\<close>

definition ipc_owner_has_access :: "ustr \<Rightarrow> user_record \<Rightarrow> bool" where
  "ipc_owner_has_access owner user = False"

definition can_manage_socket :: "nat \<Rightarrow> perm_store \<Rightarrow> u32 \<Rightarrow> socket_meta option \<Rightarrow> bool option" where
  "can_manage_socket fuel pm uid sock =
     (case (if uid = 0 then Some True else user_has fuel pm uid perm_system_services) of
        None \<Rightarrow> None
      | Some True \<Rightarrow> Some True
      | Some False \<Rightarrow>
          (case (lookup_by_uid (ps_users pm) uid, sock) of
             (Some user, Some m) \<Rightarrow>
               (case so_managed_by m of
                  Some perms \<Rightarrow> any_opt (holds_named fuel pm uid) perms
                | None \<Rightarrow> Some (case so_owner m of Some owner \<Rightarrow> ipc_owner_has_access owner user | None \<Rightarrow> False))
           | _ \<Rightarrow> Some False))"

definition socket_missing :: "ss_payload \<Rightarrow> core_error" where
  "socket_missing p = NotFound (''socket '' @ ss_name p)"

definition handle_ipc_start_socket ::
  "nat \<Rightarrow> svc_env \<Rightarrow> perm_store \<Rightarrow> ss_payload result \<Rightarrow> u32 option \<Rightarrow> (unit result \<times> svc_cmd list) option" where
  "handle_ipc_start_socket fuel E pm payload from_uid =
     (case payload of Inl e \<Rightarrow> Some (Inl e, [])
      | Inr p \<Rightarrow>
          (case from_uid of None \<Rightarrow> Some (Inl PermissionDenied, [])
           | Some uid \<Rightarrow>
               (let sock = find_socket E (ss_name p) in
                case can_manage_socket fuel pm uid sock of
                  None \<Rightarrow> None
                | Some ok \<Rightarrow>
                    Some (if sock = None then (Inl (socket_missing p), [])
                          else if \<not> ok then (Inl PermissionDenied, [])
                          else (Inr (), SockStart (ss_name p) #
                                  (if ss_persist p then [FlowSetFacet ''rind:active'' (JStr (ss_name p))] else []))))))"

definition handle_ipc_stop_socket ::
  "nat \<Rightarrow> svc_env \<Rightarrow> perm_store \<Rightarrow> ss_payload result \<Rightarrow> u32 option \<Rightarrow> (unit result \<times> svc_cmd list) option" where
  "handle_ipc_stop_socket fuel E pm payload from_uid =
     (case payload of Inl e \<Rightarrow> Some (Inl e, [])
      | Inr p \<Rightarrow>
          (case from_uid of None \<Rightarrow> Some (Inl PermissionDenied, [])
           | Some uid \<Rightarrow>
               map_option (\<lambda>ok. if \<not> ok then (Inl PermissionDenied, [])
                                else (Inr (), SockStop (ss_name p) #
                                  (if ss_persist p then [FlowRemoveFacet ''rind:active'' (JStr (ss_name p))] else [])))
                 (can_manage_socket fuel pm uid (find_socket E (ss_name p)))))"

end
