(* ===== verification/SocketProps.thy ===== *)
theory SocketProps
  imports Sockets
begin

text \<open>
  Properties of the socket runtime: what stopping one socket does to the others of its owner, what a
  running service does to opening the sockets, which sockets are stopped with a scope, and the way of a
  connection from its descriptor to the start of the owner and back.
\<close>

section \<open>Under the singletons\<close>

lemma sockets_key_differs [simp]:
  "sockets_key \<noteq> graph_key" "graph_key \<noteq> sockets_key" "sockets_key \<noteq> vars_key" "vars_key \<noteq> sockets_key"
  by (simp_all add: sockets_key_def graph_key_def vars_key_def)

text \<open>The three singletons are there, each first in its list.\<close>

definition singletons_in :: "facet_graph \<Rightarrow> variable_heap \<Rightarrow> socket_owners \<Rightarrow> sv_inst instance_map \<Rightarrow> bool" where
  "singletons_in g h owners inst \<longleftrightarrow>
     inst graph_key = Some [(tid_graph, IGraph g)] \<and> inst vars_key = Some [(tid_vars, IVars h)] \<and>
     inst sockets_key = Some [(tid_socket_reg, ISocketReg owners)]"

definition without_singletons :: "sv_inst instance_map \<Rightarrow> sv_inst instance_map" where
  "without_singletons inst = inst(graph_key := None, vars_key := None, sockets_key := None)"

definition with_owners :: "facet_graph \<Rightarrow> variable_heap \<Rightarrow> socket_owners \<Rightarrow> sv_inst instance_map \<Rightarrow> sv_inst instance_map" where
  "with_owners g h owners inst =
     inst(graph_key \<mapsto> [(tid_graph, IGraph g)], vars_key \<mapsto> [(tid_vars, IVars h)],
          sockets_key \<mapsto> [(tid_socket_reg, ISocketReg owners)])"

lemma with_owners_back: "singletons_in g h owners inst \<Longrightarrow> with_owners g h owners (without_singletons inst) = inst"
  by (auto simp: singletons_in_def with_owners_def without_singletons_def fun_eq_iff)

lemma with_registry_run:
  assumes "singletons_in g h owners (sw_inst w)"
    and "keys = registry_vars_graph \<or> keys = graph_vars_registry"
    and "F (fg_facets g) owners (rt, w\<lparr>sw_inst := without_singletons (sw_inst w)\<rparr>) = (r, owners', rt', w')"
  shows "with_registry keys F (rt, w) = (r, rt', w'\<lparr>sw_inst := with_owners g h owners' (sw_inst w')\<rparr>)"
proof -
  have twist: "(sw_inst w)(sockets_key := None, vars_key := None, graph_key := None) = without_singletons (sw_inst w)"
    "(sw_inst w)(graph_key := None, vars_key := None, sockets_key := None) = without_singletons (sw_inst w)"
    by (auto simp: without_singletons_def fun_eq_iff)
  have put: "(f(sockets_key \<mapsto> a, vars_key \<mapsto> b, graph_key \<mapsto> c)) = f(graph_key \<mapsto> c, vars_key \<mapsto> b, sockets_key \<mapsto> a)"
    for f :: "sv_inst instance_map" and a b c by (auto simp: fun_eq_iff)
  show ?thesis using assms
    by (elim disjE) (simp_all add: with_registry_def registry_vars_graph_def graph_vars_registry_def singletons_in_def twist
        downcast_def with_owners_def put)
qed

lemma scoped_not_singleton: "CHR ''@'' \<in> set key \<Longrightarrow> key \<noteq> graph_key \<and> key \<noteq> vars_key \<and> key \<noteq> sockets_key"
  by (auto simp: graph_key_def vars_key_def sockets_key_def)

lemma instance_key_scoped: "CHR ''@'' \<in> set (instance_key E ''*'' name)"
  using timer_key_scoped by (simp add: timer_key_def)

lemma without_singletons_scoped [simp]:
  "without_singletons inst (instance_key E ''*'' name) = inst (instance_key E ''*'' name)"
  using scoped_not_singleton [OF instance_key_scoped, of E name] by (simp add: without_singletons_def)

section \<open>Opening what is active\<close>

lemma open_one_taken:
  assumes "sw_inst w (instance_key (ke_svc K) ''*'' name) = Some (b # bs)"
  shows "open_one K name w = (case downcast (mt_id tid_socket) b of None \<Rightarrow> Inl instance_mismatch | Some x \<Rightarrow> Inr x, w)"
  using assms
  by (auto simp: open_one_def item_to_make_def instantiate_one_def instance_key_def Let_def split: prod.splits option.splits)

text \<open>
  When the first active unit is a service that has been started, opening the active sockets ends with an
  error and opens none of them: the instances of all kinds of units share one table, and the service is
  in the place where a socket of that name would be.
\<close>

theorem active_service_blocks_sockets:
  assumes "singletons_in g h owners (sw_inst w)"
    and "map (\<lambda>b. to_string_payload (se_lib (ke_svc K)) (fi_payload b)) (branches_of (fg_facets g) ''rind:active'') = name # names"
    and "find_socket (ke_svc K) name = None"
    and "sw_inst w (instance_key (ke_svc K) ''*'' name) = Some ((mt_id tid_service, IService s) # bs)"
  shows "sockets_setup_all K (rt, w) = (Inl instance_mismatch, rt, w)"
proof -
  let ?w = "w\<lparr>sw_inst := without_singletons (sw_inst w)\<rparr>"
  have "open_one K name ?w = (Inl instance_mismatch, ?w)"
    using open_one_taken [of ?w K name] assms(4) by (simp add: downcast_def tid_service_def tid_socket_def)
  then have "setup_names K (fg_facets g) (name # names) owners (rt, ?w) = (Inl instance_mismatch, owners, rt, ?w)"
    using assms(3) by (simp add: start_socket_def instance_mismatch_def)
  with with_registry_run [OF assms(1) disjI2 [OF refl], of "\<lambda>facets. setup_names K facets
        (map (\<lambda>b. to_string_payload (se_lib (ke_svc K)) (fi_payload b)) (branches_of facets ''rind:active''))"]
  show ?thesis using with_owners_back [OF assms(1)] assms(2) by (simp add: sockets_setup_all_def)
qed

section \<open>The other sockets of an owner\<close>

lemma take_socket_found:
  assumes "sw_inst w (instance_key E ''*'' name) = Some [(mt_id tid_socket, ISocket so)]"
  shows "take_socket E name w = (Inr so, w\<lparr>sw_inst := (sw_inst w)(instance_key E ''*'' name := None)\<rparr>)"
  using assms by (simp add: take_socket_def uninstantiate_one_def uninstantiate_def instance_key_def downcast_def List.map_filter_def)

lemma socket_triggers_frame [simp]:
  "sw_inst (socket_triggers E ts facets w) = sw_inst w" "sw_res (socket_triggers E ts facets w) = sw_res w"
  by (simp_all add: socket_triggers_def run_triggers_def emit_all_def split: option.split)

lemma socket_path_frame [simp]:
  "sw_inst (snd (get_socket_path K listen create w)) = sw_inst w" "sw_res (snd (get_socket_path K listen create w)) = sw_res w"
  by (auto simp: get_socket_path_def Let_def emit_all_def tick_def split: option.split)

lemma stop_socket_found:
  assumes "sw_inst w (instance_key (ke_svc K) ''*'' name) = Some [(mt_id tid_socket, ISocket so)]"
  shows "\<exists>v. stop_socket K name facets owners (rt, w) =
      (Inr (), case so_owner (sk_meta so) of None \<Rightarrow> owners | Some own \<Rightarrow> AList.delete own owners,
       forget_fd (sk_fd so) (so_owner (sk_meta so)) rt, v)
    \<and> sw_inst v = (sw_inst w)(instance_key (ke_svc K) ''*'' name := None)
    \<and> sw_res v = rs_terminate (sk_fd so) (sw_res w)"
  by (simp add: stop_socket_def take_socket_found [OF assms] Let_def)

text \<open>
  Stopping one socket of an owner takes all of its owner's sockets out of the registry. The others stay
  open and watched and keep their owner, but a start of the owner is no longer given any of them, and
  clearing the sockets of the owner clears none.
\<close>

theorem stop_forgets_siblings:
  assumes "singletons_in g h owners (sw_inst w)"
    and "sw_inst w (instance_key (ke_svc K) ''*'' name) = Some [(mt_id tid_socket, ISocket so)]"
    and "so_owner (sk_meta so) = Some owner"
    and "sw_inst w (instance_key (ke_svc K) ''*'' other) = Some [(mt_id tid_socket, ISocket so')]"
    and "instance_key (ke_svc K) ''*'' other \<noteq> instance_key (ke_svc K) ''*'' name"
    and "sk_fd so' \<noteq> sk_fd so" and "sk_fd so' \<in> set (rs_watched (sw_res w))"
    and "map_of (kr_owner rt) (sk_fd so') = Some owner"
  shows "\<exists>rt' w'. sockets_stop K name (rt, w) = (Inr (), rt', w') \<and>
    one_socket (ke_svc K) other (sw_inst w') = Inr so' \<and>
    sk_fd so' \<in> set (rs_watched (sw_res w')) \<and> map_of (kr_owner rt') (sk_fd so') = Some owner \<and>
    sockets_with (start_named owner) (sw_inst w') owner = None \<and>
    clear_for K owner (rt', w') = (Inr (), rt', w')"
proof -
  let ?w = "w\<lparr>sw_inst := without_singletons (sw_inst w)\<rparr>"
  let ?key = "instance_key (ke_svc K) ''*'' name" and ?other = "instance_key (ke_svc K) ''*'' other"
  obtain v where v: "stop_socket K name (fg_facets g) owners (rt, ?w) =
      (Inr (), AList.delete owner owners, forget_fd (sk_fd so) (Some owner) rt, v)"
    and inst: "sw_inst v = (without_singletons (sw_inst w))(?key := None)"
    and res: "sw_res v = rs_terminate (sk_fd so) (sw_res w)"
    using stop_socket_found [of ?w K name so "fg_facets g" owners rt] assms(2,3) by auto
  let ?w' = "v\<lparr>sw_inst := with_owners g h (AList.delete owner owners) (sw_inst v)\<rparr>"
  have run: "sockets_stop K name (rt, w) = (Inr (), forget_fd (sk_fd so) (Some owner) rt, ?w')"
    unfolding sockets_stop_def using with_registry_run [where F = "stop_socket K name", OF assms(1) disjI1 [OF refl] v] by simp
  have o: "?other \<noteq> graph_key" "?other \<noteq> vars_key" "?other \<noteq> sockets_key"
    using scoped_not_singleton [OF instance_key_scoped, of "ke_svc K" other] by simp_all
  then have "sw_inst ?w' ?other = Some [(mt_id tid_socket, ISocket so')]"
    using assms(4,5) by (simp add: inst with_owners_def)
  then have one: "one_socket (ke_svc K) other (sw_inst ?w') = Inr so'"
    by (simp add: one_socket_def as_one_def instance_key_def downcast_def)
  have reg: "singleton_of tid_socket_reg sockets_key (sw_inst ?w') = Some (ISocketReg (AList.delete owner owners))"
    by (simp add: singleton_of_def with_owners_def downcast_def)
  have "sockets_with (start_named owner) (sw_inst ?w') owner = None"
    using reg by (simp add: sockets_with_def start_named_def get_all_sockets_def)
  moreover have "clear_for K owner (rt', ?w') = (Inr (), rt', ?w')" for rt'
    using reg by (simp add: clear_for_def)
  moreover have "sk_fd so' \<in> set (rs_watched (sw_res ?w'))"
    using assms(6,7) by (simp add: res rs_terminate_def Let_def)
  moreover have "map_of (kr_owner (forget_fd (sk_fd so) (Some owner) rt)) (sk_fd so') = Some owner"
    using assms(6,8) by (simp add: forget_fd_def)
  ultimately show ?thesis using run one by blast
qed

section \<open>The sockets of a scope\<close>

lemma instance_key_static:
  assumes "has_metadata (se_meta E) ''static''" and "CHR ''@'' \<notin> set n"
  shows "instance_key E ''*'' n = n @ ''@static''"
proof -
  have "sn_scope (parse_scoped_name n) = ''static''"
    using assms(2) by (simp add: parse_scoped_name_def rslvns_res_def splitn_2_at Let_def)
  then show ?thesis using assms
    by (simp add: instance_key_def resolved_metadata_and_full_name_def resolve_metadata_key_def rslvns_scp_def Let_def)
qed

lemma scoped_key_eq:
  assumes "CHR ''@'' \<notin> set a" "CHR ''@'' \<notin> set b" "a @ ''@'' @ s = b @ ''@'' @ t"
  shows "a = b \<and> s = t"
proof -
  have "a @ CHR ''@'' # s = b @ CHR ''@'' # t" using assms(3) by simp
  then have "Some (a, s) = Some (b, t)"
    using split_once_append [OF assms(1), of s] split_once_append [OF assms(2), of t] by metis
  then show ?thesis by simp
qed

lemma uninstantiate_frame:
  "k \<noteq> instance_key E ''*'' name \<Longrightarrow> snd (uninstantiate_one (se_meta E) t ''*'' name inst) k = inst k"
  by (auto simp: uninstantiate_one_def uninstantiate_def instance_key_def Let_def split: option.split)

lemma take_socket_inst: "sw_inst (snd (take_socket E name w)) = snd (uninstantiate_one (se_meta E) tid_socket ''*'' name (sw_inst w))"
  by (simp add: take_socket_def split: prod.split sum.split sv_inst.split)

lemma take_socket_frame:
  "take_socket E name w = (r, w') \<Longrightarrow> k \<noteq> instance_key E ''*'' name \<Longrightarrow> sw_inst w' k = sw_inst w k"
  using take_socket_inst [of E name w] uninstantiate_frame [of k E name tid_socket "sw_inst w"] by simp

lemma stop_socket_frame:
  "stop_socket K name facets owners (rt, w) = (r, owners', rt', w') \<Longrightarrow> k \<noteq> instance_key (ke_svc K) ''*'' name \<Longrightarrow>
   sw_inst w' k = sw_inst w k"
  using take_socket_frame [of "ke_svc K" name w]
  by (auto simp: stop_socket_def Let_def split: prod.splits sum.splits)

lemma stop_items_frame:
  "stop_socket_items K facets items owners (rt, w) = (r, owners', rt', w') \<Longrightarrow>
   (\<forall>(grp, m) \<in> set items. k \<noteq> instance_key (ke_svc K) ''*'' (socket_full_name grp m)) \<Longrightarrow> sw_inst w' k = sw_inst w k"
proof (induction items arbitrary: owners rt w)
  case (Cons a items)
  obtain grp m where a: "a = (grp, m)" by (cases a)
  obtain r1 o1 rt1 w1 where s: "stop_socket K (socket_full_name grp m) facets owners (rt, w) = (r1, o1, rt1, w1)" by (metis prod_cases4)
  have f: "sw_inst w1 k = sw_inst w k" using stop_socket_frame [OF s] Cons.prems(2) a by auto
  show ?case
  proof (cases r1)
    case (Inl e)
    with Cons.prems(1) s a f show ?thesis by simp
  next
    case (Inr u)
    with Cons.prems s a have "stop_socket_items K facets items o1 (rt1, w1) = (r, owners', rt', w')" by simp
    from Cons.IH [OF this] Cons.prems(2) f show ?thesis by simp
  qed
qed simp

text \<open>
  Stopping the sockets of a scope other than the static one leaves every instance of that scope as it is:
  the names are built without the scope, so the static sockets of the same names are meant. If the first
  one has no such namesake, the action ends with an error.
\<close>

theorem scope_sockets_survive:
  assumes "singletons_in g h owners (sw_inst w)" and "has_metadata (se_meta (ke_svc K)) ''static''" and "scope \<noteq> ''static''"
    and "\<forall>(grp, m) \<in> set (scope_sockets (ke_svc K) scope). CHR ''@'' \<notin> set (socket_full_name grp m)"
    and "CHR ''@'' \<notin> set name"
    and "sockets_stop_for_scope K scope (rt, w) = (r, rt', w')"
  shows "sw_inst w' (name @ ''@'' @ scope) = sw_inst w (name @ ''@'' @ scope) \<and>
    (\<forall>grp m items. scope_sockets (ke_svc K) scope = (grp, m) # items \<longrightarrow>
       sw_inst w (socket_full_name grp m @ ''@static'') = None \<longrightarrow>
       r = Inl (MissingInstances (socket_full_name grp m @ ''@static'')))"
proof -
  let ?E = "ke_svc K" and ?k = "name @ ''@'' @ scope" and ?w = "w\<lparr>sw_inst := without_singletons (sw_inst w)\<rparr>"
  obtain r1 o1 rt1 w1 where run: "stop_socket_items K (fg_facets g) (scope_sockets ?E scope) owners (rt, ?w) = (r1, o1, rt1, w1)"
    by (metis prod_cases4)
  from with_registry_run [where F = "\<lambda>facets. stop_socket_items K facets (scope_sockets (ke_svc K) scope)", OF assms(1) disjI1 [OF refl] run] assms(6)
  have r: "r = r1" and w': "sw_inst w' = with_owners g h o1 (sw_inst w1)" by (auto simp: sockets_stop_for_scope_def)
  have key: "instance_key ?E ''*'' (socket_full_name grp m) = socket_full_name grp m @ ''@static''"
    if "(grp, m) \<in> set (scope_sockets ?E scope)" for grp m
    using instance_key_static [OF assms(2)] assms(4) that by auto
  have "?k \<noteq> instance_key ?E ''*'' (socket_full_name grp m)" if m: "(grp, m) \<in> set (scope_sockets ?E scope)" for grp m
    using scoped_key_eq [of name "socket_full_name grp m" scope "''static''"] key [OF m] assms(3,4,5) m by auto
  then have "sw_inst w1 ?k = sw_inst ?w ?k" by (intro stop_items_frame [OF run]) auto
  moreover have sing: "?k \<noteq> graph_key" "?k \<noteq> vars_key" "?k \<noteq> sockets_key" using scoped_not_singleton [of ?k] by auto
  ultimately have "sw_inst w' ?k = sw_inst w ?k" by (simp add: w' with_owners_def without_singletons_def)
  moreover have "r = Inl (MissingInstances (socket_full_name grp m @ ''@static''))"
    if "scope_sockets ?E scope = (grp, m) # items" "sw_inst w (socket_full_name grp m @ ''@static'') = None" for grp m items
  proof -
    have k: "instance_key ?E ''*'' (socket_full_name grp m) = socket_full_name grp m @ ''@static''" using key that(1) by simp
    then have "sw_inst ?w (snd (resolved_metadata_and_full_name (se_meta ?E) ''*'' (socket_full_name grp m))) = None"
      using that(2) by (simp add: without_singletons_def flip: instance_key_def)
    then have "stop_socket K (socket_full_name grp m) (fg_facets g) owners (rt, ?w) =
        (Inl (MissingInstances (socket_full_name grp m @ ''@static'')), owners, rt, ?w)"
      using k by (simp add: stop_socket_def take_socket_def uninstantiate_one_def uninstantiate_def instance_key_def Let_def)
    with run that(1) show ?thesis by (simp add: r)
  qed
  ultimately show ?thesis by blast
qed

section \<open>A refused connection\<close>

text \<open>
  What goes on around one descriptor while its own socket is neither started nor stopped: connections to
  others, resuming and clearing for owners, starting and stopping other sockets (the kernel does not give out a
  descriptor that is open), rounds of the event loop, and anything that leaves the event loop alone.
\<close>

inductive traffic :: "sock_env \<Rightarrow> i32 \<Rightarrow> sock_world \<Rightarrow> sock_world \<Rightarrow> bool" for K fd where
  traffic_connection: "drain_incoming K fd' (rt, w) = Some (r, rt', w') \<Longrightarrow> fd' \<noteq> fd \<Longrightarrow> traffic K fd (rt, w) (rt', w')"
| traffic_resumed: "reset_fds owner (rt, w) = (rt', w') \<Longrightarrow> traffic K fd (rt, w) (rt', w')"
| traffic_cleared: "clear_for K owner (rt, w) = (r, rt', w') \<Longrightarrow> traffic K fd (rt, w) (rt', w')"
| traffic_pumped: "traffic K fd (rt, w) (rt, w\<lparr>sw_res := fst (pump_sync fails (sw_res w, ep))\<rparr>)"
| traffic_started: "start_socket K name facets owners (rt, w) = (r, owners', rt', w') \<Longrightarrow> \<forall>n m. ke_open K n m \<noteq> Inr fd \<Longrightarrow>
    \<forall>so v. open_one K name w = (Inr (ISocket so), v) \<longrightarrow> sk_fd so \<noteq> fd \<Longrightarrow> traffic K fd (rt, w) (rt', w')"
| traffic_stopped: "stop_socket K name facets owners (rt, w) = (r, owners', rt', w') \<Longrightarrow>
    \<forall>so v. take_socket (ke_svc K) name w = (Inr so, v) \<longrightarrow> sk_fd so \<noteq> fd \<Longrightarrow> traffic K fd (rt, w) (rt', w')"
| traffic_elsewhere: "sw_res w' = sw_res w \<Longrightarrow> traffic K fd (rt, w) (rt, w')"

text \<open>Paused, and nobody who resumes remembers it.\<close>

definition held :: "i32 \<Rightarrow> sock_world \<Rightarrow> bool" where
  "held fd s \<longleftrightarrow>
     (let rs = sw_res (snd s) in rs_is_paused fd rs \<and> fd \<notin> set (rs_watched rs) \<and> fd \<notin> set (rs_unwatched rs))
     \<and> (\<forall>own fds. kr_paused (fst s) own = Some fds \<longrightarrow> fd \<notin> set fds)"

lemma paused_other:
  "fd' \<noteq> fd \<Longrightarrow> fd \<in> set (rs_paused (rs_pause fd' rs)) \<longleftrightarrow> fd \<in> set (rs_paused rs)"
  "fd' \<noteq> fd \<Longrightarrow> fd \<in> set (rs_watched (rs_pause fd' rs)) \<longleftrightarrow> fd \<in> set (rs_watched rs)"
  "set (rs_unwatched (rs_pause fd' rs)) = set (rs_unwatched rs)"
  by (auto simp: rs_pause_def)

lemma resume_other:
  assumes "fd' \<noteq> fd"
  shows "fd \<in> set (rs_paused (rs_resume fd' rs)) \<longleftrightarrow> fd \<in> set (rs_paused rs)"
    and "fd \<in> set (rs_watched (rs_resume fd' rs)) \<longleftrightarrow> fd \<in> set (rs_watched rs)"
    and "fd \<in> set (rs_unwatched (rs_resume fd' rs)) \<longleftrightarrow> fd \<in> set (rs_unwatched rs)"
  using assms by (auto simp: rs_resume_def register_resource_def)

lemma resume_others:
  "fd \<notin> set fds \<Longrightarrow>
   (fd \<in> set (rs_paused (fold rs_resume fds rs)) \<longleftrightarrow> fd \<in> set (rs_paused rs)) \<and>
   (fd \<in> set (rs_watched (fold rs_resume fds rs)) \<longleftrightarrow> fd \<in> set (rs_watched rs)) \<and>
   (fd \<in> set (rs_unwatched (fold rs_resume fds rs)) \<longleftrightarrow> fd \<in> set (rs_unwatched rs))"
proof (induction fds arbitrary: rs)
  case (Cons f fds)
  then have "f \<noteq> fd" by (metis list.set_intros(1))
  from Cons.IH [of "rs_resume f rs"] Cons.prems resume_other [OF this, of rs] show ?case by simp
qed simp

lemma singletons_res:
  assumes "\<forall>xs v. sw_res (snd (F xs v)) = sw_res v"
  shows "sw_res (snd (with_singletons keys F w)) = sw_res w"
proof -
  have "sw_res v' = sw_res v" if "F xs v = (r, v')" for xs v r v' using assms that by (metis snd_conv)
  then show ?thesis by (auto simp: with_singletons_def split: prod.split sum.split)
qed

lemma clear_owned_res: "clear_owned E rt xs w = (r, w') \<Longrightarrow> sw_res w' = sw_res w"
proof (induction xs arbitrary: w)
  case (Cons a xs)
  then show ?case
    by (cases a) (auto simp: clear_socket_def emit_all_def split: option.splits sum.splits)
qed simp

lemma clear_for_frame: "clear_for K owner (rt, w) = (r, rt', w') \<Longrightarrow> rt' = rt \<and> sw_res w' = sw_res w"
  by (auto simp: clear_for_def split: option.splits sv_inst.splits prod.splits dest: clear_owned_res)

lemma drain_frame:
  assumes "drain_incoming K fd' (rt, w) = Some (r, rt', w')"
  shows "sw_res w' \<in> {sw_res w, rs_pause fd' (sw_res w)} \<and>
    (\<forall>own fds. kr_paused rt' own = Some fds \<longrightarrow> set fds \<subseteq> insert fd' (case kr_paused rt own of Some l \<Rightarrow> set l | None \<Rightarrow> {}))"
proof -
  have t: "sw_res v' = sw_res v" if "with_singletons graph_singleton
      (\<lambda>xs w. (Inr (), run_triggers (ke_svc K) ts (Some (taken_graph xs)) w)) v = (q, v')" for ts v q v'
    using singletons_res [of "\<lambda>xs w. (Inr (), run_triggers (ke_svc K) ts (Some (taken_graph xs)) w)" graph_singleton v] that
    by (simp add: run_triggers_def emit_all_def split: option.splits)
  have h: "sw_res (snd (hand_over own so fd' (rt, v))) = sw_res v \<and>
     kr_paused (fst (hand_over own so fd' (rt, v))) = (kr_paused rt)(own \<mapsto> (case kr_paused rt own of Some fds \<Rightarrow> fds | None \<Rightarrow> []) @ [fd'])"
    for own so v by (simp add: hand_over_def Let_def emit_all_def)
  show ?thesis using assms
    by (auto simp: drain_incoming_def Let_def clear_socket_def emit_all_def tick_def hand_over_def
        split: option.splits sum.splits prod.splits bool.splits if_splits dest!: t)
qed

lemma create_socket_res: "create_socket K m w = (r, w') \<Longrightarrow> sw_res w' = sw_res w"
  by (auto simp: create_socket_def get_socket_path_def emit_all_def tick_def Let_def split: option.splits if_splits)

lemma triggers_res: "sw_res (socket_triggers E ts facets w) = sw_res w"
  by (simp add: socket_triggers_def run_triggers_def emit_all_def split: option.split)

lemma create_socket_fd: "create_socket K m w = (Inr fd', w') \<Longrightarrow> \<exists>n m. ke_open K n m = Inr fd'"
  by (auto simp: create_socket_def split: prod.splits sum.splits)

definition opened :: "sock_env \<Rightarrow> res_payload resources \<Rightarrow> res_payload resources \<Rightarrow> bool" where
  "opened K rs rs' \<longleftrightarrow> rs' = rs \<or>
     (\<exists>n m fd'. ke_open K n m = Inr fd' \<and> rs' = rs_action fd' drain_action (rs_own fd' (Owned (unat fd')) rs))"

lemma make_socket_res: "make_socket K name item w = (r, w') \<Longrightarrow> opened K (sw_res w) (sw_res w')"
proof (cases item)
  case (USocket m)
  assume make: "make_socket K name item w = (r, w')"
  obtain q v where c: "create_socket K m w = (q, v)" by fastforce
  note res = create_socket_res [OF c]
  show ?thesis
  proof (cases q)
    case (Inl e)
    with make USocket c res show ?thesis by (auto simp: make_socket_def opened_def)
  next
    case (Inr fd')
    with c obtain n m' where "ke_open K n m' = Inr fd'" using create_socket_fd by blast
    moreover have "sw_res w' = rs_action fd' drain_action (rs_own fd' (Owned (unat fd')) (sw_res w))"
      using make USocket c Inr res by (auto simp: make_socket_def)
    ultimately show ?thesis unfolding opened_def by blast
  qed
qed (auto simp: make_socket_def opened_def)

lemma open_one_res:
  assumes "open_one K name w = (r, w')"
  shows "opened K (sw_res w) (sw_res w')"
proof (cases "item_to_make (ke_svc K) tid_socket ''*'' name (sw_inst w)")
  case None
  with assms show ?thesis by (auto simp: open_one_def opened_def Let_def split: prod.splits)
next
  case (Some item)
  obtain made v where m: "make_socket K name item w = (made, v)" by fastforce
  have "sw_res w' = sw_res v" using assms Some m by (auto simp: open_one_def Let_def split: prod.splits)
  with make_socket_res [OF m] show ?thesis by simp
qed

definition same_watch :: "i32 \<Rightarrow> res_payload resources \<Rightarrow> res_payload resources \<Rightarrow> bool" where
  "same_watch fd rs rs' \<longleftrightarrow> (fd \<in> set (rs_paused rs') \<longleftrightarrow> fd \<in> set (rs_paused rs)) \<and>
     (fd \<in> set (rs_watched rs') \<longleftrightarrow> fd \<in> set (rs_watched rs)) \<and> (fd \<in> set (rs_unwatched rs') \<longleftrightarrow> fd \<in> set (rs_unwatched rs))"

lemma same_watch_open:
  assumes "open_one K name w = (r, w')" "\<forall>n m. ke_open K n m \<noteq> Inr fd"
  shows "same_watch fd (sw_res w) (sw_res w')"
  using open_one_res [OF assms(1)] unfolding opened_def
proof (elim disjE exE conjE)
  fix n m fd' assume k: "ke_open K n m = Inr fd'" "sw_res w' = rs_action fd' drain_action (rs_own fd' (Owned (unat fd')) (sw_res w))"
  then have "fd' \<noteq> fd" using assms(2) by auto
  then show ?thesis unfolding k(2) by (auto simp: same_watch_def rs_action_def rs_own_def register_resource_def)
qed (simp add: same_watch_def)

lemma start_socket_watch:
  assumes "start_socket K name facets owners (rt, w) = (r, owners', rt', w')" and "\<forall>n m. ke_open K n m \<noteq> Inr fd"
    and "\<forall>so v. open_one K name w = (Inr (ISocket so), v) \<longrightarrow> sk_fd so \<noteq> fd"
  shows "same_watch fd (sw_res w) (sw_res w') \<and> kr_paused rt' = kr_paused rt"
proof -
  obtain q v where o: "open_one K name w = (q, v)" by fastforce
  note w = same_watch_open [OF o assms(2)]
  show ?thesis
  proof (cases "\<exists>so. q = Inr (ISocket so)")
    case True
    then obtain so where q: "q = Inr (ISocket so)" ..
    with o assms(3) have "sk_fd so \<noteq> fd" by blast
    with w resume_other [OF this, of "sw_res v"] have "same_watch fd (sw_res w) (rs_resume (sk_fd so) (sw_res v))"
      by (simp add: same_watch_def)
    then show ?thesis using assms(1) o q by (auto simp: start_socket_def Let_def triggers_res split: option.splits)
  next
    case False
    then show ?thesis using assms(1) o w by (auto simp: start_socket_def split: sum.splits sv_inst.splits)
  qed
qed

lemma stop_socket_watch:
  assumes "stop_socket K name facets owners (rt, w) = (r, owners', rt', w')"
    and "\<forall>so v. take_socket (ke_svc K) name w = (Inr so, v) \<longrightarrow> sk_fd so \<noteq> fd"
  shows "same_watch fd (sw_res w) (sw_res w') \<and> (\<forall>own fds. kr_paused rt' own = Some fds \<longrightarrow> (\<exists>l. kr_paused rt own = Some l \<and> set fds \<subseteq> set l))"
proof -
  obtain q v where t: "take_socket (ke_svc K) name w = (q, v)" by fastforce
  have tr: "sw_res v = sw_res w" using t by (auto simp: take_socket_def split: prod.splits sum.splits sv_inst.splits)
  show ?thesis
  proof (cases q)
    case (Inl e)
    with assms(1) t tr show ?thesis by (auto simp: stop_socket_def same_watch_def)
  next
    case (Inr so)
    with t assms(2) have "sk_fd so \<noteq> fd" by blast
    then have "same_watch fd (sw_res w) (rs_terminate (sk_fd so) (sw_res w))"
      by (auto simp: same_watch_def rs_terminate_def Let_def)
    moreover have "sw_res (snd (get_socket_path K l False u)) = sw_res u" for l u
      by (simp add: get_socket_path_def emit_all_def tick_def Let_def)
    ultimately show ?thesis
      using assms(1) t Inr tr by (auto simp: stop_socket_def Let_def forget_fd_def triggers_res split: option.splits if_splits)
  qed
qed

lemma held_same:
  assumes "held fd (rt, w)" and "same_watch fd (sw_res w) (sw_res w')"
    and "\<forall>own fds. kr_paused rt' own = Some fds \<longrightarrow> (\<exists>l. kr_paused rt own = Some l \<and> set fds \<subseteq> set l)"
  shows "held fd (rt', w')"
  using assms by (fastforce simp: held_def same_watch_def rs_is_paused_def Let_def)

lemma traffic_held: "traffic K fd s s' \<Longrightarrow> held fd s \<Longrightarrow> held fd s'"
proof (induction rule: traffic.induct)
  case (traffic_connection fd' rt w r rt' w')
  note f = drain_frame [OF traffic_connection(1)]
  have "fd \<notin> set fds" if "kr_paused rt' own = Some fds" for own fds
  proof -
    have "fd \<notin> (case kr_paused rt own of Some l \<Rightarrow> set l | None \<Rightarrow> {})"
      using traffic_connection(3) by (simp add: held_def split: option.split)
    with f that traffic_connection(2) show ?thesis by blast
  qed
  with f traffic_connection(2,3) show ?case
    by (auto simp: held_def rs_is_paused_def Let_def paused_other)
next
  case (traffic_resumed owner rt w rt' w')
  show ?case
  proof (cases "kr_paused rt owner")
    case None
    with traffic_resumed show ?thesis by (simp add: reset_fds_def)
  next
    case (Some fds)
    with traffic_resumed have "rt' = rt\<lparr>kr_paused := (kr_paused rt)(owner := None)\<rparr>" "sw_res w' = fold rs_resume fds (sw_res w)"
      by (auto simp: reset_fds_def emit_all_def)
    moreover have "fd \<notin> set fds" using traffic_resumed(2) Some by (simp add: held_def)
    ultimately show ?thesis using traffic_resumed(2) resume_others [of fd fds "sw_res w"]
      by (auto simp: held_def rs_is_paused_def Let_def)
  qed
next
  case (traffic_cleared owner rt w r rt' w')
  then show ?case using clear_for_frame [OF traffic_cleared(1)] by (simp add: held_def)
next
  case (traffic_pumped rt w fails ep)
  obtain rs' ep' where p: "pump_sync fails (sw_res w, ep) = (rs', ep')" by fastforce
  have "fd \<notin> set (rs_watched rs')" "fd \<notin> set (rs_unwatched rs')" "rs_paused rs' = rs_paused (sw_res w)"
    using traffic_pumped unfolding pump_sync_fields [OF p] by (auto simp: held_def Let_def)
  then show ?case using traffic_pumped by (simp add: p held_def rs_is_paused_def Let_def)
next
  case (traffic_started name facets owners rt w r owners' rt' w')
  with start_socket_watch [OF traffic_started(1-3)] show ?case by (intro held_same [of fd rt w w' rt']) auto
next
  case (traffic_stopped name facets owners rt w r owners' rt' w')
  with stop_socket_watch [OF traffic_stopped(1,2)] show ?case by (intro held_same [of fd rt w w' rt']) auto
next
  case (traffic_elsewhere w' w rt)
  then show ?case by (simp add: held_def)
qed

text \<open>Starting a socket that is open resumes it.\<close>

lemma start_resumes:
  assumes "held fd (rt, w)" and "open_one K name w = (Inr (ISocket so), v)" and "sk_fd so = fd" and "sw_res v = sw_res w"
  shows "fd \<in> set (rs_unwatched (sw_res (snd (snd (snd (start_socket K name facets owners (rt, w)))))))"
  using assms by (auto simp: start_socket_def Let_def triggers_res held_def rs_is_paused_def rs_resume_def register_resource_def split: option.split)

lemma traffic_keeps_held: "(traffic K fd)\<^sup>*\<^sup>* s s' \<Longrightarrow> held fd s \<Longrightarrow> held fd s'"
  by (induction rule: rtranclp_induct) (auto intro: traffic_held)

lemma peer_allowed_res [simp]: "peer_allowed K fd m (w\<lparr>sw_res := rs\<rparr>) = peer_allowed K fd m w"
  by (simp add: peer_allowed_def split: option.split sv_inst.split)

lemma pump_drops: "fd \<in> set (rs_removed rs) \<Longrightarrow> fd \<notin> set (rs_unwatched rs) \<Longrightarrow> snd (pump_sync fails (rs, ep)) fd = None"
proof -
  assume a: "fd \<in> set (rs_removed rs)" "fd \<notin> set (rs_unwatched rs)"
  obtain rs' ep' where p: "pump_sync fails (rs, ep) = (rs', ep')" by fastforce
  from pump_sync_fields(8) [OF p] a show ?thesis by (simp add: p)
qed

text \<open>
  C29. One connection by a peer without the permission turns a socket off. It is paused before the peer is
  looked at, but only the descriptors of admitted connections are remembered for resuming. So it stays
  out of the event loop whatever other connections, exits of owners, starts and stops of other sockets and rounds of
  the loop follow, until the socket itself is started again, as a reload does with what is active: then it waits to
  be watched.
\<close>

theorem denied_peer_disables_socket:
  assumes "kr_instances rt fd = Some name" and "one_socket (ke_svc K) name (sw_inst w) = Inr so"
    and "peer_allowed K fd (sk_meta so) w = Some False"
    and "fd \<in> set (rs_watched (sw_res w))" and "fd \<notin> set (rs_unwatched (sw_res w))"
    and "\<forall>own fds. kr_paused rt own = Some fds \<longrightarrow> fd \<notin> set fds"
  shows "\<exists>s1. drain_incoming K fd (rt, w) = Some (Inr (), s1) \<and>
    sw_out (snd s1) = sw_out w @ [EClearSocket (sk_fd so)] \<and>
    (\<forall>fails ep. snd (pump_sync fails (sw_res (snd s1), ep)) fd = None) \<and>
    (\<forall>s. (traffic K fd)\<^sup>*\<^sup>* s1 s \<longrightarrow>
       rs_is_paused fd (sw_res (snd s)) \<and> fd \<notin> set (rs_watched (sw_res (snd s))) \<union> set (rs_unwatched (sw_res (snd s))) \<and>
       (\<forall>name' so' v facets owners. open_one K name' (snd s) = (Inr (ISocket so'), v) \<and> sk_fd so' = fd \<and> sw_res v = sw_res (snd s) \<longrightarrow>
          fd \<in> set (rs_unwatched (sw_res (snd (snd (snd (start_socket K name' facets owners s))))))))"
proof -
  let ?w1 = "w\<lparr>sw_res := rs_pause fd (sw_res w)\<rparr>"
  let ?s1 = "(rt, clear_socket so (tick ?w1))"
  have "peer_allowed K fd (sk_meta so) ?w1 = Some False" using assms(3) by simp
  then have d: "drain_incoming K fd (rt, w) = Some (Inr (), ?s1)"
    using assms(1,2) by (simp add: drain_incoming_def Let_def)
  have "held fd ?s1" using assms(4-6)
    by (simp add: held_def clear_socket_def emit_all_def tick_def rs_is_paused_def rs_pause_def)
  then have h: "held fd s" if "(traffic K fd)\<^sup>*\<^sup>* ?s1 s" for s using traffic_keeps_held [OF that] by blast
  have "fd \<in> set (rs_unwatched (sw_res (snd (snd (snd (start_socket K name' facets owners s))))))"
    if "(traffic K fd)\<^sup>*\<^sup>* ?s1 s" "open_one K name' (snd s) = (Inr (ISocket so'), v)" "sk_fd so' = fd" "sw_res v = sw_res (snd s)"
    for s name' so' v facets owners
    using start_resumes [of fd "fst s" "snd s", OF _ that(2-4)] h [OF that(1)] by simp
  moreover have "snd (pump_sync fails (sw_res (snd ?s1), ep)) fd = None" for fails ep
    using assms(4,5) by (intro pump_drops) (simp_all add: clear_socket_def emit_all_def tick_def rs_pause_def)
  moreover have "sw_out (snd ?s1) = sw_out w @ [EClearSocket (sk_fd so)]" by (simp add: clear_socket_def emit_all_def tick_def)
  moreover have "rs_is_paused fd (sw_res (snd s)) \<and> fd \<notin> set (rs_watched (sw_res (snd s))) \<union> set (rs_unwatched (sw_res (snd s)))"
    if "(traffic K fd)\<^sup>*\<^sup>* ?s1 s" for s using h [OF that] by (simp add: held_def Let_def)
  ultimately show ?thesis using d by (intro exI [of _ ?s1] conjI allI impI) auto
qed

section \<open>A connection that starts its owner\<close>

lemma owner_fds_exact:
  assumes "keys_distinct (kr_owner rt)"
  shows "set (map fst (owner_fds owner rt)) = {f. map_of (kr_owner rt) f = Some owner}"
    and "sorted (map (sint \<circ> fst) (owner_fds owner rt))"
proof -
  show "set (map fst (owner_fds owner rt)) = {f. map_of (kr_owner rt) f = Some owner}"
    using assms by (force simp: owner_fds_def)
  have "sorted (map (\<lambda>(fd, _). sint fd) (owner_fds owner rt))" unfolding owner_fds_def by (rule sorted_sort_key)
  then show "sorted (map (sint \<circ> fst) (owner_fds owner rt))" by (simp add: comp_def case_prod_unfold)
qed

text \<open>What is resumed after the event loop took it out is watched again by the next round.\<close>

lemma resumed_again:
  fixes rs rs' :: "res_payload resources"
  assumes "fd \<in> set (rs_paused rs)" and "fd \<notin> set (rs_watched rs)" and "fd \<in> set fds" and "rs_actions rs fd = Some act" and "0 \<le> sint fd"
    and "pump_sync fails (fold rs_resume fds rs, ep) = (rs', ep')" and "\<not> fails fd" and "ep fd = None"
  shows "fd \<in> set (rs_watched rs') \<and> (\<exists>fl. ep' fd = Some (fl, event_data fd)) \<and>
    pump_event rs' (event_data fd) = pump_effect.Dispatch act fd"
proof -
  have frame: "rs_actions (fold rs_resume fds rs) = rs_actions rs" for fds and rs :: "res_payload resources"
    by (induction fds arbitrary: rs) (auto simp: rs_resume_def register_resource_def)
  have waits: "fd \<notin> set (rs_watched (fold rs_resume fds rs)) \<and> fd \<in> set (rs_unwatched (fold rs_resume fds rs))"
    if "fd \<notin> set (rs_watched rs)" "fd \<in> set (rs_unwatched rs)" for fds and rs :: "res_payload resources"
    using that by (induction fds arbitrary: rs) (auto simp: rs_resume_def register_resource_def)
  have "fd \<notin> set (rs_watched (fold rs_resume fds rs)) \<and> fd \<in> set (rs_unwatched (fold rs_resume fds rs))"
    using assms(1-3)
  proof (induction fds arbitrary: rs)
    case (Cons f fds)
    show ?case
    proof (cases "f = fd")
      case True
      with Cons.prems have "fd \<notin> set (rs_watched (rs_resume f rs))" "fd \<in> set (rs_unwatched (rs_resume f rs))"
        by (auto simp: rs_resume_def register_resource_def)
      from waits [OF this] show ?thesis by simp
    next
      case False
      with Cons.prems resume_other [OF False, of rs] Cons.IH [of "rs_resume f rs"] show ?thesis by auto
    qed
  qed simp
  then have "fd \<in> set (rs_watched rs')" and "\<exists>fl. ep' fd = Some (fl, event_data fd)"
    unfolding pump_sync_fields [OF assms(6)] using assms(7,8) by auto
  moreover have "rs_actions rs' fd = Some act" using pump_sync_fields(1) [OF assms(6)] frame assms(4) by simp
  ultimately show ?thesis using pump_event_data [OF assms(5), of rs'] by simp
qed

lemma exit_resumes:
  assumes "handle_child_exit E service pid code facets key w = (Some ExitStopDependents, service', w')"
  shows "EDispatch (SockResumeFds (instance_key_name key)) \<in> set (sw_out w')"
  using assms by (auto simp: handle_child_exit_def Let_def emit_all_def split: option.splits if_splits prod.splits)

text \<open>
  C28. A connection to a socket that is owned starts its owner with all the sockets of that owner, in the
  order of their descriptors, and the socket is left alone while the owner runs. When a child of the
  owner has exited for good, the message that is sent then resumes the socket: the next round of the
  event loop watches it again, and the next connection goes the same way.
\<close>

theorem activation_cycle:
  assumes "kr_instances rt fd = Some name" and "one_socket (ke_svc K) name (sw_inst w) = Inr so"
    and "so_owner (sk_meta so) = Some owner" and "so_lifecycle (sk_meta so) = SockOwned" and "so_trigger (sk_meta so) = None"
    and "peer_allowed K fd (sk_meta so) w = Some True" and "keys_distinct (kr_owner rt)"
    and "fd \<in> set (rs_watched (sw_res w))" and "fd \<notin> set (rs_unwatched (sw_res w))"
    and "rs_actions (sw_res w) fd = Some drain_action" and "0 \<le> sint fd"
    and "handle_child_exit (ke_svc K) service pid code facets key v = (Some ExitStopDependents, service', v')"
    and "instance_key_name key = owner"
  shows "\<exists>rt1 w1 fds. drain_incoming K fd (rt, w) = Some (Inr (), rt1, w1) \<and>
    sw_out w1 = sw_out w @
      [EDispatch (SvcStart ((start_named owner)\<lparr>ar_fds := map fst fds, ar_fd_names := map snd fds\<rparr>))] \<and>
    set (map fst fds) = {f. map_of (kr_owner rt) f = Some owner} \<and> sorted (map (sint \<circ> fst) fds) \<and>
    (\<forall>fails ep. snd (pump_sync fails (sw_res w1, ep)) fd = None) \<and>
    EDispatch (SockResumeFds owner) \<in> set (sw_out v') \<and>
    (\<forall>fails1 ep1 rt3 w3. reset_fds owner (rt1, w1\<lparr>sw_res := fst (pump_sync fails1 (sw_res w1, ep1))\<rparr>) = (rt3, w3) \<longrightarrow>
       (\<forall>fails2 ep2 rs4 ep4. pump_sync fails2 (sw_res w3, ep2) = (rs4, ep4) \<and> \<not> fails2 fd \<and> ep2 fd = None \<longrightarrow>
          fd \<in> set (rs_watched rs4) \<and> (\<exists>fl. ep4 fd = Some (fl, event_data fd)) \<and>
          pump_event rs4 (event_data fd) = pump_effect.Dispatch drain_action fd))"
proof -
  let ?fds = "owner_fds owner rt"
  let ?rt1 = "rt\<lparr>kr_paused := (kr_paused rt)(owner \<mapsto> (case kr_paused rt owner of Some fds \<Rightarrow> fds | None \<Rightarrow> []) @ [fd])\<rparr>"
  let ?w1 = "emit_all [EDispatch (SvcStart ((start_named owner)\<lparr>ar_fds := map fst ?fds, ar_fd_names := map snd ?fds\<rparr>))]
      (tick (w\<lparr>sw_res := rs_pause fd (sw_res w)\<rparr>))"
  have "owner_fds owner ?rt1 = ?fds" by (simp add: owner_fds_def)
  then have d: "drain_incoming K fd (rt, w) = Some (Inr (), ?rt1, ?w1)"
    using assms(1-6) by (simp add: drain_incoming_def hand_over_def Let_def)
  have res: "sw_res ?w1 = rs_pause fd (sw_res w)" by (simp add: emit_all_def tick_def)
  have gone: "snd (pump_sync fails (sw_res ?w1, ep)) fd = None" for fails ep
    unfolding res using assms(8,9) by (intro pump_drops) (simp_all add: rs_pause_def)
  have again: "fd \<in> set (rs_watched rs4) \<and> (\<exists>fl. ep4 fd = Some (fl, event_data fd)) \<and>
      pump_event rs4 (event_data fd) = pump_effect.Dispatch drain_action fd"
    if r: "reset_fds owner (?rt1, ?w1\<lparr>sw_res := fst (pump_sync fails1 (sw_res ?w1, ep1))\<rparr>) = (rt3, w3)"
      and p: "pump_sync fails2 (sw_res w3, ep2) = (rs4, ep4)" "\<not> fails2 fd" "ep2 fd = None"
    for fails1 ep1 rt3 w3 fails2 ep2 rs4 ep4
  proof -
    obtain rs2 e2 where p2: "pump_sync fails1 (rs_pause fd (sw_res w), ep1) = (rs2, e2)" by fastforce
    note f = pump_sync_fields [OF p2]
    have s2: "fd \<in> set (rs_paused rs2)" "fd \<notin> set (rs_watched rs2)" "rs_actions rs2 fd = Some drain_action"
      using assms(8,9,10) unfolding f by (simp_all add: rs_pause_def)
    have w3: "sw_res w3 = fold rs_resume ((case kr_paused rt owner of Some fds \<Rightarrow> fds | None \<Rightarrow> []) @ [fd]) rs2"
      using r p2 unfolding res by (auto simp: reset_fds_def emit_all_def)
    show ?thesis by (rule resumed_again [OF s2(1,2) _ s2(3) assms(11) p(1) [unfolded w3] p(2,3)]) simp
  qed
  have out: "sw_out ?w1 = sw_out w @
      [EDispatch (SvcStart ((start_named owner)\<lparr>ar_fds := map fst ?fds, ar_fd_names := map snd ?fds\<rparr>))]"
    by (simp add: emit_all_def tick_def)
  have "EDispatch (SockResumeFds owner) \<in> set (sw_out v')" using exit_resumes [OF assms(12)] assms(13) by simp
  with d out owner_fds_exact [OF assms(7), of owner] gone again show ?thesis
    by (intro exI [of _ ?rt1] exI [of _ ?w1] exI [of _ ?fds]) blast
qed

section \<open>Witnesses\<close>

definition demo_kernel :: "svc_env \<Rightarrow> sock_env" where
  "demo_kernel E = \<lparr>ke_svc = E, ke_dir = (\<lambda>_ _. None), ke_open = (\<lambda>n _. Inr (of_nat n)), ke_peer = (\<lambda>_ _. Some 1000), ke_fuel = 9\<rparr>"

definition demo_socket :: "ustr \<Rightarrow> ustr list option \<Rightarrow> socket_meta" where
  "demo_socket name perms = \<lparr>so_name = name, so_listen = name, so_type = SockUds, so_owner = Some ''g:o'', so_start_on = None,
     so_stop_on = None, so_on_start = None, so_trigger = None, so_on_stop = None, so_lifecycle = SockOwned, so_managed_by = None,
     so_permissions = perms\<rparr>"

definition demo_open :: "ustr \<Rightarrow> ustr list option \<Rightarrow> i32 \<Rightarrow> sv_inst boxed list" where
  "demo_open name perms fd = [(mt_id tid_socket, ISocket \<lparr>sk_meta = demo_socket name perms, sk_fd = fd, sk_active = True\<rparr>)]"

definition socket_world :: "facet_map \<Rightarrow> socket_owners \<Rightarrow> sv_inst instance_map \<Rightarrow> svc_world" where
  "socket_world facets owners inst = (world_with facets)
     \<lparr>sw_inst := with_owners \<lparr>fg_facets = facets, fg_scoped = []\<rparr> vh_new owners inst,
      sw_res := rs_default\<lparr>rs_watched := [5, 6], rs_actions := [5 \<mapsto> drain_action, 6 \<mapsto> drain_action]\<rparr>\<rparr>"

definition active_units :: facet_map where
  "active_units = [(''rind:active'', map (\<lambda>n. \<lparr>fi_name = ''rind:active'', fi_payload = PString n, fi_type = FacetType\<rparr>) [''g:b'', ''g:a''])]"

lemma socket_world_singletons: "singletons_in \<lparr>fg_facets = facets, fg_scoped = []\<rparr> vh_new owners (sw_inst (socket_world facets owners inst))"
  by (simp add: singletons_in_def socket_world_def with_owners_def)

lemma socket_world_inst:
  "CHR ''@'' \<in> set key \<Longrightarrow> sw_inst (socket_world facets owners inst) key = inst key"
  using scoped_not_singleton [of key] by (simp add: socket_world_def with_owners_def)

lemma demo_static: "has_metadata (se_meta (demo_svc ms)) ''static''"
  by (simp add: demo_svc_def demo_units_def has_metadata_def)

lemma demo_key: "CHR ''@'' \<notin> set n \<Longrightarrow> instance_key (demo_svc ms) ''*'' n = n @ ''@static''"
  by (rule instance_key_static [OF demo_static])

lemma active_service_blocks_sockets_witness:
  "sockets_setup_all (demo_kernel (demo_svc [])) (socket_rt_new, socket_world active_units []
      [''g:b@static'' \<mapsto> [(mt_id tid_service, IService (service_new (plain_service ''b'')))]]) =
   (Inl instance_mismatch, socket_rt_new, socket_world active_units []
      [''g:b@static'' \<mapsto> [(mt_id tid_service, IService (service_new (plain_service ''b'')))]])"
proof (rule active_service_blocks_sockets [OF socket_world_singletons])
  show "map (\<lambda>b. to_string_payload (se_lib (ke_svc (demo_kernel (demo_svc [])))) (fi_payload b))
      (branches_of (fg_facets \<lparr>fg_facets = active_units, fg_scoped = []\<rparr>) ''rind:active'') = ''g:b'' # [''g:a'']"
    by (simp add: active_units_def branches_of_def)
  show "find_socket (ke_svc (demo_kernel (demo_svc []))) ''g:b'' = None"
    by (simp add: find_socket_def mr_find_def demo_kernel_def demo_svc_def demo_units_def tid_socket_def tid_service_def Let_def
        split: prod.split)
  show "sw_inst (socket_world active_units [] [''g:b@static'' \<mapsto> [(mt_id tid_service, IService (service_new (plain_service ''b'')))]])
      (instance_key (ke_svc (demo_kernel (demo_svc []))) ''*'' ''g:b'') =
    Some ((mt_id tid_service, IService (service_new (plain_service ''b''))) # [])"
    by (simp add: demo_kernel_def demo_key socket_world_inst)
qed

lemma stop_forgets_siblings_witness:
  "\<exists>rt' w'. sockets_stop (demo_kernel (demo_svc [])) ''g:a''
      (socket_rt_new\<lparr>kr_owner := [(6, ''g:o'')]\<rparr>, socket_world [] [(''g:o'', [(''a'', 5), (''b'', 6)])]
        [''g:a@static'' \<mapsto> demo_open ''a'' None 5, ''g:b@static'' \<mapsto> demo_open ''b'' None 6]) = (Inr (), rt', w') \<and>
    6 \<in> set (rs_watched (sw_res w')) \<and> sockets_with (start_named ''g:o'') (sw_inst w') ''g:o'' = None"
proof -
  let ?E = "demo_svc []"
  let ?w = "socket_world [] [(''g:o'', [(''a'', 5), (''b'', 6)])]
      [''g:a@static'' \<mapsto> demo_open ''a'' None 5, ''g:b@static'' \<mapsto> demo_open ''b'' None 6]"
  have k: "instance_key ?E ''*'' ''g:a'' = ''g:a@static''" "instance_key ?E ''*'' ''g:b'' = ''g:b@static''" by (simp_all add: demo_key)
  have i: "sw_inst ?w ''g:a@static'' = Some (demo_open ''a'' None 5)" "sw_inst ?w ''g:b@static'' = Some (demo_open ''b'' None 6)"
    by (simp_all add: socket_world_inst)
  have e: "ke_svc (demo_kernel ?E) = ?E" by (simp add: demo_kernel_def)
  have "6 \<in> set (rs_watched (sw_res ?w))" by (simp add: socket_world_def)
  then show ?thesis
    using stop_forgets_siblings [OF socket_world_singletons [of "[]" "[(''g:o'', [(''a'', 5), (''b'', 6)])]"
          "[''g:a@static'' \<mapsto> demo_open ''a'' None 5, ''g:b@static'' \<mapsto> demo_open ''b'' None 6]"],
        where K = "demo_kernel ?E" and name = "''g:a''" and other = "''g:b''"
        and so = "\<lparr>sk_meta = demo_socket ''a'' None, sk_fd = 5, sk_active = True\<rparr>" and owner = "''g:o''"
        and so' = "\<lparr>sk_meta = demo_socket ''b'' None, sk_fd = 6, sk_active = True\<rparr>" and rt = "socket_rt_new\<lparr>kr_owner := [(6, ''g:o'')]\<rparr>"]
      i by (simp add: e k demo_open_def demo_socket_def) blast
qed

text \<open>A scope \<open>u\<close> with a socket of its own.\<close>

definition scoped_units :: svc_env where
  "scoped_units = (demo_svc [])\<lparr>se_meta :=
     \<lparr>mr_metadata = [(''static'', \<lparr>me_name = ''static'', me_name_to_type = Map.empty, me_parsers = Map.empty, me_values = []\<rparr>),
        (''u'', \<lparr>me_name = ''u'', me_name_to_type = Map.empty, me_parsers = Map.empty,
         me_values = [(''g'', [mt_meta tid_socket \<mapsto> AnyItems (mt_meta tid_socket) [USocket (demo_socket ''s'' None)]])]\<rparr>)],
       mr_indexes = [(mt_id tid_socket, Map.empty)], mr_stoppers = Map.empty\<rparr>\<rparr>"

lemma scoped_units_sockets: "scope_sockets scoped_units ''u'' = [(''g'', demo_socket ''s'' None)]"
  by (simp add: scope_sockets_def scoped_units_def mr_items_def grouped_items_def me_groups_def get_in_group_def socket_items_def
      map_filter_simps)

lemma scope_sockets_survive_witness:
  "\<exists>w'. sockets_stop_for_scope (demo_kernel scoped_units) ''u''
      (socket_rt_new, socket_world [] [] [''g:s@u'' \<mapsto> demo_open ''s'' None 5]) =
      (Inl (MissingInstances ''g:s@static''), socket_rt_new, w') \<and>
    sw_inst w' ''g:s@u'' = Some (demo_open ''s'' None 5)"
proof -
  let ?w = "socket_world [] [] [''g:s@u'' \<mapsto> demo_open ''s'' None 5]" and ?K = "demo_kernel scoped_units"
  have e: "ke_svc ?K = scoped_units" by (simp add: demo_kernel_def)
  have st: "has_metadata (se_meta (ke_svc ?K)) ''static''"
    unfolding e by (simp add: scoped_units_def has_metadata_def)
  obtain r rt' w' where run: "sockets_stop_for_scope ?K ''u'' (socket_rt_new, ?w) = (r, rt', w')" by (metis prod_cases3)
  have no: "CHR ''@'' \<notin> set ''g:s''" "sw_inst ?w ''g:s@static'' = None" "sw_inst ?w ''g:s@u'' = Some (demo_open ''s'' None 5)"
    by (simp_all add: socket_world_inst)
  have "sw_inst w' (''g:s'' @ ''@'' @ ''u'') = sw_inst ?w (''g:s'' @ ''@'' @ ''u'') \<and> r = Inl (MissingInstances ''g:s@static'')"
    using scope_sockets_survive [OF socket_world_singletons st _ _ no(1) run] no(2)
    by (simp add: e scoped_units_sockets socket_full_name_def demo_socket_def)
  moreover have "rt' = socket_rt_new"
  proof -
    have "instance_key scoped_units ''*'' ''g:s'' = ''g:s@static''" using instance_key_static [OF st] by (simp add: e)
    then have "stop_socket_items ?K [] [(''g'', demo_socket ''s'' None)] []
        (socket_rt_new, ?w\<lparr>sw_inst := without_singletons (sw_inst ?w)\<rparr>) =
      (Inl (MissingInstances ''g:s@static''), [], socket_rt_new, ?w\<lparr>sw_inst := without_singletons (sw_inst ?w)\<rparr>)"
      using no(2) without_singletons_scoped [of "sw_inst ?w" scoped_units "''g:s''"]
      by (simp add: e socket_full_name_def demo_socket_def stop_socket_def take_socket_def uninstantiate_one_def uninstantiate_def
          instance_key_def Let_def)
    with with_registry_run [where F = "\<lambda>facets. stop_socket_items ?K facets (scope_sockets (ke_svc ?K) ''u'')",
        OF socket_world_singletons disjI1 [OF refl]] run
    show ?thesis by (simp add: sockets_stop_for_scope_def e scoped_units_sockets)
  qed
  ultimately show ?thesis using run no(3) by auto
qed

lemma denied_peer_disables_socket_witness:
  "\<exists>s1. drain_incoming (demo_kernel (demo_svc [])) 5 (socket_rt_new\<lparr>kr_instances := [5 \<mapsto> ''g:a'']\<rparr>,
      socket_world [] [] [''g:a@static'' \<mapsto> demo_open ''a'' (Some [''web'']) 5, perms_key \<mapsto> [(tid_perms, IPerms (ps_new us_default))]]) =
      Some (Inr (), s1) \<and> rs_is_paused 5 (sw_res (snd s1)) \<and> sw_out (snd s1) = [EClearSocket 5]"
proof -
  let ?K = "demo_kernel (demo_svc [])" and ?rt = "socket_rt_new\<lparr>kr_instances := [5 \<mapsto> ''g:a'']\<rparr>"
    and ?inst = "[''g:a@static'' \<mapsto> demo_open ''a'' (Some [''web'']) 5, perms_key \<mapsto> [(tid_perms, IPerms (ps_new us_default))]]"
  let ?w = "socket_world [] [] ?inst" and ?so = "\<lparr>sk_meta = demo_socket ''a'' (Some [''web'']), sk_fd = 5, sk_active = True\<rparr>"
  have p: "perms_key \<noteq> ''g:a@static''" "perms_key \<noteq> graph_key" "perms_key \<noteq> vars_key" "perms_key \<noteq> sockets_key"
    by (simp_all add: perms_key_def graph_key_def vars_key_def sockets_key_def)
  have one: "one_socket (ke_svc ?K) ''g:a'' (sw_inst ?w) = Inr ?so"
    using p by (simp add: one_socket_def as_one_def demo_key [unfolded instance_key_def] demo_kernel_def socket_world_inst demo_open_def
        downcast_def)
  have "sw_inst ?w perms_key = Some [(tid_perms, IPerms (ps_new us_default))]"
    using p by (simp add: socket_world_def with_owners_def)
  then have "peer_allowed ?K 5 (sk_meta ?so) ?w = Some False"
    by (simp add: peer_allowed_def demo_socket_def singleton_of_def downcast_def demo_kernel_def holds_named_def from_name_def ps_new_def)
  then obtain s1 where s1: "drain_incoming ?K 5 (?rt, ?w) = Some (Inr (), s1)" "sw_out (snd s1) = sw_out ?w @ [EClearSocket (sk_fd ?so)]"
    and held: "\<forall>s. (traffic ?K 5)\<^sup>*\<^sup>* s1 s \<longrightarrow> rs_is_paused 5 (sw_res (snd s))"
    using denied_peer_disables_socket [of ?rt 5 "''g:a''" ?K ?w ?so, OF _ one]
    by (auto simp: socket_rt_new_def socket_world_def world_with_def rs_default_def)
  have "rs_is_paused 5 (sw_res (snd s1))" using held rtranclp.rtrancl_refl [of "traffic ?K 5" s1] by blast
  then show ?thesis using s1 by (simp add: socket_world_def world_with_def)
qed

text \<open>A service \<open>o\<close> with one child, which is about to exit for good.\<close>

definition owner_running :: service where
  "owner_running = (service_new (plain_service ''o''))\<lparr>sv_instances := [child_new ''k'' None (Some (ProcessHandle 7))]\<rparr>"

lemma activation_cycle_witness:
  "\<exists>rt1 w1. drain_incoming (demo_kernel (demo_svc [])) 5
      (socket_rt_new\<lparr>kr_instances := [5 \<mapsto> ''g:a''], kr_owner := [(5, ''g:o'')]\<rparr>,
       socket_world [] [] [''g:a@static'' \<mapsto> demo_open ''a'' None 5]) = Some (Inr (), rt1, w1) \<and>
    (\<forall>fails ep. snd (pump_sync fails (sw_res w1, ep)) 5 = None)"
proof -
  let ?K = "demo_kernel (demo_svc [])" and ?rt = "socket_rt_new\<lparr>kr_instances := [5 \<mapsto> ''g:a''], kr_owner := [(5, ''g:o'')]\<rparr>"
    and ?w = "socket_world [] [] [''g:a@static'' \<mapsto> demo_open ''a'' None 5]"
    and ?so = "\<lparr>sk_meta = demo_socket ''a'' None, sk_fd = 5, sk_active = True\<rparr>"
  have one: "one_socket (ke_svc ?K) ''g:a'' (sw_inst ?w) = Inr ?so"
    by (simp add: one_socket_def as_one_def demo_key [unfolded instance_key_def] demo_kernel_def socket_world_inst demo_open_def
        downcast_def)
  have exit: "fst (handle_child_exit (ke_svc ?K) owner_running 7 0 None ''g:o@static'' quiet_world) = Some ExitStopDependents"
    unfolding demo_kernel_def by code_simp
  then obtain service' v' where x:
    "handle_child_exit (ke_svc ?K) owner_running 7 0 None ''g:o@static'' quiet_world = (Some ExitStopDependents, service', v')"
    by (metis prod.collapse)
  have key: "instance_key_name ''g:o@static'' = ''g:o''" by code_simp
  show ?thesis
    using activation_cycle [of ?rt 5 "''g:a''" ?K ?w ?so, OF _ one _ _ _ _ _ _ _ _ _ x key]
    by (simp add: socket_rt_new_def socket_world_def world_with_def rs_default_def demo_socket_def peer_allowed_def) blast
qed

end
