(* ===== verification/Systemd.thy ===== *)
theory Systemd
  imports Timers
begin

text \<open>
  The translation of systemd units, \<^verbatim>\<open>crates/systemd-loader/src/systemd.rs\<close>: reading
  the sections and keys of a unit file, splitting commands and values, durations, targets as facets,
  and the units of the daemon that result. A panic (an overflow, or a split inside a character) is
  \<open>None\<close>.
\<close>

section \<open>Unit files\<close>

type_synonym unit_section = "string \<rightharpoonup> string list"

record ini_state =
  in_sections :: "(string \<times> unit_section) list"
  in_current :: "string option"
  in_map :: unit_section
  in_pending :: string

definition trim_start :: "string \<Rightarrow> string" where
  "trim_start s = strip_ws id s"

definition trim_end :: "string \<Rightarrow> string" where
  "trim_end s = rev (strip_ws rev (rev s))"

text \<open>\<open>trim_end_matches\<close> on one character.\<close>

definition trim_end_char :: "char \<Rightarrow> string \<Rightarrow> string" where
  "trim_end_char c s = rev (dropWhile (\<lambda>x. x = c) (rev s))"

abbreviation quote1 :: char where "quote1 \<equiv> CHR 0x27"
abbreviation quote2 :: char where "quote2 \<equiv> CHR 0x22"
abbreviation backslash :: char where "backslash \<equiv> CHR 0x5C"

definition line_continues :: "string \<Rightarrow> bool" where
  "line_continues l \<longleftrightarrow> ends_with [backslash] l \<and> \<not> ends_with [backslash, backslash] l"

definition strip_trailing_backslash :: "string \<Rightarrow> string" where
  "strip_trailing_backslash l = trim_end_char backslash (trim_end l)"

fun strip_comment :: "bool \<Rightarrow> bool \<Rightarrow> string \<Rightarrow> string" where
  "strip_comment in1 in2 [] = []"
| "strip_comment in1 in2 (b # bs) =
     (if b = quote1 \<and> \<not> in2 then b # strip_comment (\<not> in1) in2 bs
      else if b = quote2 \<and> \<not> in1 then b # strip_comment in1 (\<not> in2) bs
      else if b \<in> {CHR ''#'', CHR '';''} \<and> \<not> in1 \<and> \<not> in2 then []
      else b # strip_comment in1 in2 bs)"

definition parse_section_header :: "string \<Rightarrow> string option" where
  "parse_section_header l =
     (let t = trim l in
      if starts_with ''['' t \<and> ends_with '']'' t \<and> length t \<ge> 2
      then Some (trim (butlast (tl t))) else None)"

definition split_kv :: "string \<Rightarrow> (string \<times> string) option" where
  "split_kv l = split_once (CHR ''='') l"

definition section_push :: "string \<Rightarrow> string \<Rightarrow> unit_section \<Rightarrow> unit_section" where
  "section_push k v sec = sec(k \<mapsto> (case sec k of Some vs \<Rightarrow> vs | None \<Rightarrow> []) @ [v])"

text \<open>One line. The map of the current section is only emptied when a section ends.\<close>

definition ini_line :: "ini_state \<Rightarrow> string \<Rightarrow> ini_state" where
  "ini_line st raw_line =
     (let stripped = strip_comment False False (trim_start (in_pending st @ raw_line)) in
      if stripped = [] then st\<lparr>in_pending := []\<rparr>
      else if line_continues stripped then st\<lparr>in_pending := strip_trailing_backslash stripped @ '' ''\<rparr>
      else (let st = st\<lparr>in_pending := []\<rparr> in
            case parse_section_header stripped of
              Some sec \<Rightarrow>
                (case in_current st of
                   Some name \<Rightarrow> st\<lparr>in_sections := in_sections st @ [(name, in_map st)], in_map := Map.empty, in_current := Some sec\<rparr>
                 | None \<Rightarrow> st\<lparr>in_current := Some sec\<rparr>)
            | None \<Rightarrow>
                (case split_kv stripped of
                   None \<Rightarrow> st
                 | Some (key, value) \<Rightarrow>
                     if trim value = [] then st else st\<lparr>in_map := section_push (trim key) (trim value) (in_map st)\<rparr>)))"

definition ini_start :: ini_state where
  "ini_start = \<lparr>in_sections = [], in_current = None, in_map = Map.empty, in_pending = []\<rparr>"

definition ini_end :: "ini_state \<Rightarrow> (string \<times> unit_section) list" where
  "ini_end st = (case in_current st of Some name \<Rightarrow> in_sections st @ [(name, in_map st)] | None \<Rightarrow> in_sections st)"

definition parse_ini :: "string \<Rightarrow> (string \<times> unit_section) list" where
  "parse_ini content = ini_end (fold (\<lambda>l st. ini_line st l) (lines content) ini_start)"

definition first_value :: "unit_section \<Rightarrow> string \<Rightarrow> string option" where
  "first_value sec key = (case sec key of Some (v # _) \<Rightarrow> Some v | _ \<Rightarrow> None)"

definition all_values :: "unit_section \<Rightarrow> string \<Rightarrow> string list" where
  "all_values sec key = (case sec key of Some vs \<Rightarrow> vs | None \<Rightarrow> [])"

section \<open>Values\<close>

text \<open>The words of a value, without commas at their ends.\<close>

definition value_words :: "string \<Rightarrow> string list" where
  "value_words v = filter (\<lambda>s. s \<noteq> []) (map (trim_end_char (CHR '','')) (split_whitespace v))"

definition systemd_env_value :: "string \<Rightarrow> (string \<times> string) list" where
  "systemd_env_value v =
     fold (\<lambda>e env. case split_once (CHR ''='') e of Some (k, x) \<Rightarrow> AList.update k x env | None \<Rightarrow> AList.update e [] env)
       (value_words v) []"

text \<open>The words of a command: quotes group, a backslash escapes inside double quotes.\<close>

fun exec_tokens :: "string \<Rightarrow> bool \<Rightarrow> bool \<Rightarrow> bool \<Rightarrow> string \<Rightarrow> string list" where
  "exec_tokens [] in1 in2 had cur = (if had \<or> cur \<noteq> [] then [cur] else [])"
| "exec_tokens (c # cs) in1 in2 had cur =
     (let n = ws_len id (c # cs) in
      if n > 0 \<and> \<not> in1 \<and> \<not> in2
      then (if had then cur # exec_tokens (drop (n - 1) cs) in1 in2 False [] else exec_tokens (drop (n - 1) cs) in1 in2 had cur)
      else if c = quote1 \<and> \<not> in2 then exec_tokens cs (\<not> in1) in2 True cur
      else if c = quote2 \<and> \<not> in1 then exec_tokens cs in1 (\<not> in2) True cur
      else if c = backslash \<and> in2
      then (case cs of [] \<Rightarrow> exec_tokens [] in1 in2 True cur | n # cs' \<Rightarrow> exec_tokens cs' in1 in2 True (cur @ [n]))
      else exec_tokens cs in1 in2 True (cur @ [c]))"

definition systemd_exec :: "string \<Rightarrow> (string \<times> string list) option" where
  "systemd_exec value =
     (let trimmed = trim value in
      if trimmed = [] then None
      else (case exec_tokens trimmed False False False [] of [] \<Rightarrow> None | exec # args \<Rightarrow> Some (exec, args)))"

text \<open>Durations: a number with a unit of one byte.\<close>

definition parse_time_spec :: "bool \<Rightarrow> string \<Rightarrow> string option option" where
  "parse_time_spec checked value =
     (let s = trim value in
      if s = [] then Some None
      else if continuation_byte (last s) then None
      else (case parse_u64 (butlast s) of
              None \<Rightarrow> Some None
            | Some n \<Rightarrow>
                (let u = last s; plain = (\<lambda>c. Some (Some (show_nat (unat n) @ [c])));
                     times = (\<lambda>k. map_option (\<lambda>p. Some (show_nat (unat p) @ ''d'')) (mul_u64 checked n k)) in
                 if u \<in> {CHR ''s'', CHR ''S''} then plain (CHR ''s'')
                 else if u \<in> {CHR ''m'', CHR ''M''} then plain (CHR ''m'')
                 else if u \<in> {CHR ''h'', CHR ''H''} then plain (CHR ''h'')
                 else if u \<in> {CHR ''d'', CHR ''D''} then plain (CHR ''d'')
                 else if u \<in> {CHR ''w'', CHR ''W''} then times 7
                 else if u \<in> {CHR ''y'', CHR ''Y''} then times 365
                 else if u \<in> {CHR ''u'', CHR ''U''} then Some None
                 else Some (Some s))))"

definition calendar_words :: "(string \<times> string) list" where
  "calendar_words =
     [(''minutely'', ''1m''), (''hourly'', ''1h''), (''daily'', ''1d''), (''weekly'', ''7d''), (''monthly'', ''30d''),
      (''quarterly'', ''90d''), (''semi-annually'', ''180d''), (''yearly'', ''365d''), (''annually'', ''365d'')]"

definition parse_on_calendar :: "string \<Rightarrow> string option" where
  "parse_on_calendar value =
     (let v = trim value; lower = map ascii_lower v in
      if v = [] then None
      else map_option snd (find (\<lambda>(prefix, _). case strip_prefix prefix lower of Some rest \<Rightarrow> trim rest = [] | None \<Rightarrow> False)
             calendar_words))"

fun timer_duration_of :: "bool \<Rightarrow> unit_section \<Rightarrow> string list \<Rightarrow> string option option" where
  "timer_duration_of checked tmr [] = Some None"
| "timer_duration_of checked tmr (key # keys) =
     (case first_value tmr key of
        None \<Rightarrow> timer_duration_of checked tmr keys
      | Some v \<Rightarrow>
          (case parse_on_calendar v of
             Some d \<Rightarrow> Some (Some d)
           | None \<Rightarrow>
               (case parse_time_spec checked v of
                  None \<Rightarrow> None
                | Some (Some d) \<Rightarrow> Some (Some d)
                | Some None \<Rightarrow> timer_duration_of checked tmr keys)))"

definition timer_duration_from :: "bool \<Rightarrow> unit_section \<Rightarrow> string option option" where
  "timer_duration_from checked tmr =
     timer_duration_of checked tmr [''OnCalendar'', ''OnBootSec'', ''OnUnitActiveSec'', ''OnUnitInactiveSec'', ''OnActiveSec'']"

section \<open>Targets and dependencies\<close>

definition target_to_facet :: "string \<Rightarrow> string" where
  "target_to_facet target =
     (let t = trim_end_matches ''.target'' target in
      if t = ''network-online'' then ''net:online!''
      else if t = ''network'' then ''net:configured!''
      else if t = ''network-pre'' then ''net:configured!''
      else if t = ''multi-user'' then ''rind:up!''
      else if t = ''graphical'' then ''rind:graphical''
      else if t = ''sockets'' then ''rind:sockets''
      else if t = ''timers'' then ''rind:timers''
      else if t = ''paths'' then ''rind:paths''
      else if t = ''basic'' then ''rind:basic''
      else if t = ''sysinit'' then ''rind:sysinit''
      else if t = ''rescue'' then ''rind:rescue''
      else if t = ''emergency'' then ''rind:emergency''
      else ''systemd:'' @ t)"

definition target_ref :: "string \<Rightarrow> string option" where
  "target_ref value =
     (let t = trim value in
      if \<not> ends_with ''.target'' t then None
      else if target_to_facet t = [] then None else Some (target_to_facet t))"

definition key_words :: "unit_section \<Rightarrow> string list \<Rightarrow> string list" where
  "key_words sec keys = concat (map (\<lambda>key. concat (map value_words (all_values sec key))) keys)"

definition collect_dependencies :: "unit_section option \<Rightarrow> string list \<times> string list" where
  "collect_dependencies unit =
     (case unit of None \<Rightarrow> ([], [])
      | Some sec \<Rightarrow>
          (let needs = key_words sec [''After'', ''Requires'', ''Wants''] in
           (filter (\<lambda>t. target_ref t = None) needs,
            List.map_filter target_ref (needs @ key_words sec [''WantedBy'', ''RequiredBy'']))))"

text \<open>A \<open>BTreeSet\<close> of strings, as the sorted list of its elements.\<close>

definition btree_set :: "string list \<Rightarrow> string list" where
  "btree_set xs = remdups (sort xs)"

definition referenced_targets_from :: "unit_section option \<Rightarrow> string list \<Rightarrow> string list" where
  "referenced_targets_from unit wanted =
     btree_set (filter (\<lambda>f. f \<noteq> []) wanted @
       (case unit of None \<Rightarrow> []
        | Some sec \<Rightarrow> List.map_filter target_ref (key_words sec [''After'', ''Requires'', ''Wants'', ''WantedBy'', ''RequiredBy''])))"

section \<open>The units that result\<close>

definition build_facet_meta :: "ustr \<Rightarrow> flow_facet" where
  "build_facet_meta name =
     \<lparr>ff_name = name, ff_payload = TJson, ff_stop_on = None, ff_after = None, ff_branch = None, ff_auto_payload = None,
      ff_subscribers = None, ff_broadcast = None, ff_permissions = None\<rparr>"

definition run_default :: run_option where
  "run_default = \<lparr>ro_exec = [], ro_args = [], ro_env = None, ro_variable = None, ro_executor = None, ro_files = None\<rparr>"

definition service_default :: service_meta where
  "service_default =
     \<lparr>sm_name = [], sm_run = RunOne run_default, sm_after = None, sm_type = TypeFork, sm_start_on = None, sm_stop_on = None,
      sm_on_start = None, sm_on_stop = None, sm_working_dir = None, sm_space = SpaceSystem, sm_options = None,
      sm_singleton = False, sm_cleanup = False, sm_user_source = None, sm_transport = None, sm_branching = None,
      sm_restart = None, sm_managed_by = None, sm_cgroup = None, sm_namespaces = None, sm_watchdog = None\<rparr>"

definition collect_env :: "unit_section \<Rightarrow> (string \<times> string) list" where
  "collect_env svc =
     fold (\<lambda>v env. fold (\<lambda>(k, x) env. AList.update k x env) (systemd_env_value v) env) (all_values svc ''Environment'') []"

definition facet_item :: "string \<Rightarrow> flow_item" where
  "facet_item name = Detailed (Some name) None None None"

definition systemd_restart_to_policy :: "string \<Rightarrow> restart_policy option" where
  "systemd_restart_to_policy value =
     (let v = trim value in
      if v \<in> {''no'', ''''} then None
      else if v = ''always'' then Some (RestartBool True)
      else if v \<in> {''on-success'', ''on-failure'', ''on-abnormal'', ''on-abort'', ''on-watchdog''}
      then Some (OnFailure 4294967295)
      else None)"

definition some_unless_empty :: "'a list \<Rightarrow> 'a list option" where
  "some_unless_empty xs = (if xs = [] then None else Some xs)"

definition build_run :: "unit_section \<Rightarrow> run_options" where
  "build_run svc =
     (case Option.bind (first_value svc ''ExecStart'') systemd_exec of
        None \<Rightarrow> RunOne run_default
      | Some (exec, args) \<Rightarrow>
          (let env = collect_env svc in
           RunOne (run_default\<lparr>ro_exec := exec, ro_args := args, ro_env := (if env = [] then None else Some (map_of env))\<rparr>)))"

definition build_cgroup :: "unit_section \<Rightarrow> service_cgroup option" where
  "build_cgroup svc =
     (let mem = (case first_value svc ''MemoryMax'' of Some m \<Rightarrow> if m \<noteq> [] \<and> m \<noteq> ''infinity'' then Some m else None | None \<Rightarrow> None);
          cpu = first_value svc ''CPUQuota''; pids = first_value svc ''TasksMax''
      in if mem = None \<and> cpu = None \<and> pids = None then None
         else Some \<lparr>cg_path = None, cg_memory_max = mem, cg_cpu_max = cpu, cg_pids_max = pids\<rparr>)"

definition build_service_meta :: "ustr \<Rightarrow> unit_section \<Rightarrow> string list \<Rightarrow> string list \<Rightarrow> service_meta" where
  "build_service_meta name svc after start_on =
     service_default\<lparr>sm_name := name, sm_run := build_run svc,
       sm_restart := Option.bind (first_value svc ''Restart'') systemd_restart_to_policy,
       sm_working_dir := first_value svc ''WorkingDirectory'',
       sm_space := (case first_value svc ''User'' of Some user \<Rightarrow> if user \<noteq> ''root'' then SpaceSelective user else SpaceSystem
                    | None \<Rightarrow> SpaceSystem),
       sm_cgroup := build_cgroup svc,
       sm_after := some_unless_empty after,
       sm_start_on := map_option (map facet_item) (some_unless_empty start_on)\<rparr>"

definition socket_listen :: "unit_section \<Rightarrow> socket_type option \<times> string option" where
  "socket_listen sock =
     (case first_value sock ''ListenStream'' of Some v \<Rightarrow> (Some SockTcp, Some v) | None \<Rightarrow>
      (case first_value sock ''ListenDatagram'' of Some v \<Rightarrow> (Some SockUdp, Some v) | None \<Rightarrow>
       (case first_value sock ''ListenSequentialPacket'' of Some v \<Rightarrow> (Some SockTcp, Some v) | None \<Rightarrow>
        (case first_value sock ''ListenUNIXSocket'' of Some v \<Rightarrow> (Some SockUds, Some v) | None \<Rightarrow>
         (case first_value sock ''ListenUNIXGRAM'' of Some v \<Rightarrow> (Some SockUdp, Some v) | None \<Rightarrow>
          (case first_value sock ''ListenFIFO'' of Some v \<Rightarrow> (None, Some v) | None \<Rightarrow> (None, None)))))))"

definition build_socket_meta :: "ustr \<Rightarrow> unit_section \<Rightarrow> string list \<Rightarrow> socket_meta" where
  "build_socket_meta name sock start_on =
     (let (kind, listen) = socket_listen sock in
      \<lparr>so_name = name, so_listen = (case listen of Some l \<Rightarrow> l | None \<Rightarrow> ''/''),
       so_type = (case kind of Some k \<Rightarrow> k | None \<Rightarrow> SockTcp), so_owner = None,
       so_start_on = map_option (map facet_item) (some_unless_empty start_on), so_stop_on = None, so_on_start = None,
       so_trigger = None, so_on_stop = None, so_lifecycle = SockManaged, so_managed_by = None, so_permissions = None\<rparr>)"

definition build_timer_meta :: "bool \<Rightarrow> ustr \<Rightarrow> unit_section \<Rightarrow> string list \<Rightarrow> timer_meta option option" where
  "build_timer_meta checked name tmr after =
     map_option (map_option (\<lambda>duration.
         \<lparr>tm_name = name, tm_duration = duration, tm_after = some_unless_empty after, tm_finish = None\<rparr>))
       (timer_duration_from checked tmr)"

definition build_mount_meta :: "ustr \<Rightarrow> unit_section \<Rightarrow> string list \<Rightarrow> mount_unit" where
  "build_mount_meta name mnt after =
     \<lparr>mo_source = first_value mnt ''What'',
      mo_target = (case first_value mnt ''Where'' of Some t \<Rightarrow> t
                   | None \<Rightarrow> (case first_value mnt ''Path'' of Some t \<Rightarrow> t | None \<Rightarrow> name)),
      mo_fstype = first_value mnt ''Type'',
      mo_flags = map_option (\<lambda>opts. map trim (split_char (CHR '','') opts)) (first_value mnt ''Options''),
      mo_data = None, mo_create = Some True, mo_after = some_unless_empty after, mo_broadcast = False\<rparr>"

section \<open>Loading\<close>

text \<open>Of several sections with the same name the last one is used.\<close>

definition section_of :: "(string \<times> unit_section) list \<Rightarrow> string \<Rightarrow> unit_section option" where
  "section_of ini name = map_of (rev (map (\<lambda>(s, m). (map ascii_lower s, m)) ini)) name"

definition insert_opt :: "model_type \<Rightarrow> ustr \<Rightarrow> unit_item option \<Rightarrow> (toml, unit_item) metadata \<Rightarrow> (toml, unit_item) metadata" where
  "insert_opt t name i md = (case i of Some i \<Rightarrow> me_insert t name i md | None \<Rightarrow> md)"

definition target_facets :: "ustr \<Rightarrow> unit_section option \<Rightarrow> string list \<Rightarrow> string list" where
  "target_facets name unit wanted =
     (let refs = referenced_targets_from unit wanted; own = target_to_facet name in
      if own \<noteq> [] \<and> own \<notin> set refs then refs @ [own] else refs)"

definition is_target_file :: "(string \<times> unit_section) list \<Rightarrow> bool" where
  "is_target_file ini \<longleftrightarrow>
     section_of ini ''service'' = None \<and> section_of ini ''socket'' = None \<and> section_of ini ''timer'' = None \<and>
     section_of ini ''mount'' = None \<and> section_of ini ''automount'' = None \<and> section_of ini ''unit'' \<noteq> None"

definition load_into ::
  "bool \<Rightarrow> ustr \<Rightarrow> (string \<times> unit_section) list \<Rightarrow> (toml, unit_item) metadata \<Rightarrow> (toml, unit_item) metadata option" where
  "load_into checked name ini md =
     (let unit = section_of ini ''unit''; (after, wanted) = collect_dependencies unit;
          md = insert_opt tid_service name
                 (map_option (\<lambda>svc. UService (build_service_meta name svc after wanted)) (section_of ini ''service'')) md;
          md = insert_opt tid_socket name
                 (map_option (\<lambda>sock. USocket (build_socket_meta name sock wanted)) (section_of ini ''socket'')) md
      in case (case section_of ini ''timer'' of None \<Rightarrow> Some None | Some tmr \<Rightarrow> build_timer_meta checked name tmr after) of
           None \<Rightarrow> None
         | Some timer \<Rightarrow>
             (let md = insert_opt tid_timer name (map_option UTimer timer) md;
                  md = insert_opt tid_mount name
                         (map_option (\<lambda>mnt. let m = build_mount_meta name mnt after in UMount (mo_target m) m) (section_of ini ''mount'')) md
              in Some (if is_target_file ini
                       then fold (\<lambda>f. me_insert tid_facet name (UFacet (build_facet_meta f))) (target_facets name unit wanted) md
                       else md)))"

definition systemd_loader :: "bool \<Rightarrow> string \<Rightarrow> ustr \<Rightarrow> (toml, unit_item) metadata \<Rightarrow> (toml, unit_item) metadata option" where
  "systemd_loader checked content grp md = load_into checked grp (parse_ini content) md"

definition systemd_extensions :: "ustr list" where
  "systemd_extensions = [''service'', ''socket'', ''timer'', ''mount'', ''automount'', ''target'']"

end
