(* ===== verification/SystemdProps.thy ===== *)
theory SystemdProps
  imports Systemd StartOrder
begin

text \<open>
  Properties of the translation of systemd units: what is written as a unit file is read back, a quoted
  command keeps its words, the length of a translated timer, the section that is not looked at, and what
  becomes of a dependency on another service.
\<close>

section \<open>Unit files\<close>

text \<open>
  A unit file in plain form. A value may hold comment characters inside quotes; its quotes are balanced
  when it has any.
\<close>

definition newline :: char where "newline = CHR 0x0A"

definition no_breaks :: "string \<Rightarrow> bool" where
  "no_breaks s \<longleftrightarrow> newline \<notin> set s \<and> trim s = s"

definition plain_key :: "string \<Rightarrow> bool" where
  "plain_key k \<longleftrightarrow> no_breaks k \<and> k \<noteq> [] \<and> hd k \<noteq> CHR ''['' \<and>
     set k \<inter> {CHR ''='', CHR ''#'', CHR '';'', quote1, quote2} = {}"

definition plain_value :: "string \<Rightarrow> bool" where
  "plain_value v \<longleftrightarrow> no_breaks v \<and> v \<noteq> [] \<and> strip_comment False False v = v \<and> \<not> line_continues v"

definition plain_name :: "string \<Rightarrow> bool" where
  "plain_name s \<longleftrightarrow> no_breaks s \<and> set s \<inter> {CHR ''#'', CHR '';'', quote1, quote2} = {}"

type_synonym unit_text = "(string \<times> (string \<times> string) list) list"

definition key_line :: "string \<times> string \<Rightarrow> string" where
  "key_line kv = fst kv @ ''='' @ snd kv"

definition section_lines :: "string \<times> (string \<times> string) list \<Rightarrow> string list" where
  "section_lines s = (''['' @ fst s @ '']'') # map key_line (snd s)"

definition print_lines :: "string list \<Rightarrow> string" where
  "print_lines ls = concat (map (\<lambda>l. l @ [newline]) ls)"

definition print_unit :: "unit_text \<Rightarrow> string" where
  "print_unit u = print_lines (concat (map section_lines u))"

definition plain_unit :: "unit_text \<Rightarrow> bool" where
  "plain_unit u \<longleftrightarrow> (\<forall>(s, kvs) \<in> set u. plain_name s \<and> (\<forall>(k, v) \<in> set kvs. plain_key k \<and> plain_value v))"

definition section_map :: "(string \<times> string) list \<Rightarrow> unit_section \<Rightarrow> unit_section" where
  "section_map kvs m = fold (\<lambda>(k, v). section_push k v) kvs m"

subsection \<open>Lines\<close>

lemma split_char_line: "newline \<notin> set l \<Longrightarrow> split_char newline (l @ newline # rest) = l # split_char newline rest"
  by (induction l) auto

lemma split_char_nonempty [simp]: "split_char c s \<noteq> []"
  by (induction s) (auto split: list.split)

lemma split_printed: "\<forall>l \<in> set ls. newline \<notin> set l \<Longrightarrow> split_char newline (print_lines ls) = ls @ [[]]"
  by (induction ls) (simp_all add: print_lines_def split_char_line)

lemma lines_printed:
  assumes "\<forall>l \<in> set ls. newline \<notin> set l \<and> (l \<noteq> [] \<longrightarrow> last l \<noteq> CHR 0x0D)"
  shows "lines (print_lines ls) = ls"
proof -
  have "split_char (CHR 0x0A) (print_lines ls) = ls @ [[]]" using split_printed [of ls] assms by (auto simp: newline_def)
  moreover have "map (\<lambda>l. if l \<noteq> [] \<and> last l = CHR 0x0D then butlast l else l) ls = ls"
    using assms by (intro map_idI) auto
  ultimately show ?thesis by (simp add: lines_def)
qed

lemma strip_comment_plain:
  "set k \<inter> {CHR ''#'', CHR '';'', quote1, quote2} = {} \<Longrightarrow> strip_comment False False (k @ r) = k @ strip_comment False False r"
  by (induction k) auto

lemma trim_start_id: "ws_len id s = 0 \<Longrightarrow> trim_start s = s"
  by (simp add: trim_start_def strip_ws_none)

lemma ends_with_last: "ends_with [c] s \<longleftrightarrow> s \<noteq> [] \<and> last s = c"
  by (auto simp: ends_with_iff) (metis append_butlast_last_id)

lemma ends_with_tail: "length suf \<le> length b \<Longrightarrow> ends_with suf (a @ b) = ends_with suf b"
  by (simp add: ends_with_def starts_with_def)

lemma line_continues_tail:
  assumes "v \<noteq> []" "c \<noteq> backslash"
  shows "line_continues (k @ c # v) = line_continues v"
proof (cases "length v \<ge> 2")
  case True
  then have "ends_with [backslash, backslash] ((k @ [c]) @ v) = ends_with [backslash, backslash] v" by (intro ends_with_tail) simp
  moreover have "ends_with [backslash] ((k @ [c]) @ v) = ends_with [backslash] v" using assms by (intro ends_with_tail) (cases v, auto)
  ultimately show ?thesis by (simp add: line_continues_def)
next
  case False
  with assms(1) obtain x where "v = [x]" by (cases v) (auto simp: Suc_le_eq)
  with assms(2) show ?thesis by (auto simp: line_continues_def ends_with_def starts_with_def)
qed

lemma key_line_ends:
  assumes "plain_key (fst kv)" "plain_value (snd kv)"
  shows "key_line kv \<noteq> []" "hd (key_line kv) = hd (fst kv)" "last (key_line kv) = last (snd kv)" "newline \<notin> set (key_line kv)"
    "ws_len id (key_line kv) = 0" "ws_len rev (rev (key_line kv)) = 0"
  using assms trimmed_ends [of "fst kv"] trimmed_ends [of "snd kv"]
    ws_len_before [of "fst kv" id "CHR ''=''" "snd kv"] ws_len_before [of "rev (snd kv)" rev "CHR ''=''" "rev (fst kv)"]
  by (auto simp: key_line_def plain_key_def plain_value_def no_breaks_def newline_def)

lemma read_key_line:
  assumes "plain_key (fst kv)" "plain_value (snd kv)" "in_pending st = []"
  shows "ini_line st (key_line kv) = st\<lparr>in_map := section_push (fst kv) (snd kv) (in_map st)\<rparr>"
proof -
  obtain k v where kv: "kv = (k, v)" by (cases kv)
  note e = key_line_ends [OF assms(1,2)]
  have "set k \<inter> {CHR ''#'', CHR '';'', quote1, quote2} = {}" using assms(1) by (auto simp: kv plain_key_def)
  then have s: "strip_comment False False (trim_start (key_line kv)) = key_line kv"
    using assms(2) trim_start_id [OF e(5)] strip_comment_plain [of k "CHR ''='' # v"]
    by (simp add: kv key_line_def plain_value_def)
  have c: "\<not> line_continues (key_line kv)"
    using assms(2) line_continues_tail [of v "CHR ''=''" k] by (simp add: kv key_line_def plain_value_def)
  have h: "parse_section_header (key_line kv) = None"
    using assms(1) e(1,2) trim_id [OF e(5,6)]
    by (cases "key_line kv") (auto simp: parse_section_header_def starts_with_def plain_key_def Let_def)
  have "split_kv (key_line kv) = Some (k, v)" using assms(1) by (simp add: kv key_line_def split_kv_def plain_key_def)
  with s c h e(1) assms show ?thesis
    by (simp add: ini_line_def Let_def kv plain_key_def plain_value_def no_breaks_def)
qed

lemma read_key_lines:
  "\<forall>(k, v) \<in> set kvs. plain_key k \<and> plain_value v \<Longrightarrow> in_pending st = [] \<Longrightarrow>
   fold (\<lambda>l st. ini_line st l) (map key_line kvs) st = st\<lparr>in_map := section_map kvs (in_map st)\<rparr>"
proof (induction kvs arbitrary: st)
  case (Cons kv kvs)
  have "plain_key (fst kv)" "plain_value (snd kv)" using Cons.prems(1) by auto
  from read_key_line [OF this Cons.prems(2)] show ?case
    using Cons.IH [of "st\<lparr>in_map := section_push (fst kv) (snd kv) (in_map st)\<rparr>"] Cons.prems
    by (simp add: section_map_def case_prod_unfold)
qed (simp add: section_map_def)

lemma header_facts:
  assumes "plain_name s"
  shows "trim (''['' @ s @ '']'') = ''['' @ s @ '']''" "strip_comment False False (''['' @ s @ '']'') = ''['' @ s @ '']''"
proof -
  show "trim (''['' @ s @ '']'') = ''['' @ s @ '']''" by (intro trim_visible) (simp_all add: visible_def is_ws_def)
  have "set (CHR ''['' # s) \<inter> {CHR ''#'', CHR '';'', quote1, quote2} = {}" using assms by (auto simp: plain_name_def)
  from strip_comment_plain [OF this, of "'']''"] show "strip_comment False False (''['' @ s @ '']'') = ''['' @ s @ '']''" by simp
qed

lemma read_header:
  assumes "plain_name s" "in_pending st = []"
  shows "ini_line st (''['' @ s @ '']'') =
    (case in_current st of
       Some name \<Rightarrow> st\<lparr>in_sections := in_sections st @ [(name, in_map st)], in_map := Map.empty, in_current := Some s\<rparr>
     | None \<Rightarrow> st\<lparr>in_current := Some s\<rparr>)"
proof -
  let ?l = "CHR ''['' # s @ '']''"
  have t: "trim_start ?l = ?l" by (intro trim_start_id) (simp add: visible_def is_ws_def)
  have c: "\<not> line_continues ?l" by (simp add: line_continues_def ends_with_last)
  have h: "parse_section_header ?l = Some s"
    using header_facts(1) [OF assms(1)] assms(1)
    by (simp add: parse_section_header_def Let_def starts_with_def ends_with_last plain_name_def no_breaks_def butlast_append)
  have st: "st\<lparr>in_pending := []\<rparr> = st" using assms(2) by simp
  show ?thesis using header_facts(2) [OF assms(1)] t c h st assms(2)
    by (simp add: ini_line_def Let_def split: option.split)
qed


lemma read_section:
  assumes "plain_name s" "\<forall>(k, v) \<in> set kvs. plain_key k \<and> plain_value v" "in_pending st = []"
  shows "fold (\<lambda>l st. ini_line st l) (section_lines (s, kvs)) st =
    (case in_current st of
       Some name \<Rightarrow> st\<lparr>in_sections := in_sections st @ [(name, in_map st)], in_map := section_map kvs Map.empty, in_current := Some s\<rparr>
     | None \<Rightarrow> st\<lparr>in_current := Some s, in_map := section_map kvs (in_map st)\<rparr>)"
  using read_header [OF assms(1,3)] assms(2,3)
  by (cases "in_current st") (simp_all add: section_lines_def read_key_lines)

lemma read_sections:
  "plain_unit u \<Longrightarrow> in_pending st = [] \<Longrightarrow> in_current st = Some name \<Longrightarrow>
   ini_end (fold (\<lambda>l st. ini_line st l) (concat (map section_lines u)) st) =
     in_sections st @ (name, in_map st) # map (\<lambda>(s, kvs). (s, section_map kvs Map.empty)) u"
proof (induction u arbitrary: st name)
  case (Cons sec u)
  obtain s kvs where sec: "sec = (s, kvs)" by (cases sec)
  have p: "plain_name s" "\<forall>(k, v) \<in> set kvs. plain_key k \<and> plain_value v" "plain_unit u"
    using Cons.prems(1) by (auto simp: plain_unit_def sec)
  have "fold (\<lambda>l st. ini_line st l) (concat (map section_lines (sec # u))) st =
      fold (\<lambda>l st. ini_line st l) (concat (map section_lines u))
        (st\<lparr>in_sections := in_sections st @ [(name, in_map st)], in_map := section_map kvs Map.empty, in_current := Some s\<rparr>)"
    using read_section [OF p(1,2) Cons.prems(2)] Cons.prems(3) by (simp add: sec)
  then show ?case using Cons.IH [OF p(3), of "st\<lparr>in_sections := in_sections st @ [(name, in_map st)],
      in_map := section_map kvs Map.empty, in_current := Some s\<rparr>" s] Cons.prems(2) by (simp add: sec)
qed (simp add: ini_end_def)

lemma printed_lines:
  assumes "plain_unit u"
  shows "\<forall>l \<in> set (concat (map section_lines u)). newline \<notin> set l \<and> (l \<noteq> [] \<longrightarrow> last l \<noteq> CHR 0x0D)"
proof
  fix l assume "l \<in> set (concat (map section_lines u))"
  then obtain s kvs where sk: "(s, kvs) \<in> set u" "l \<in> set (section_lines (s, kvs))" by auto
  show "newline \<notin> set l \<and> (l \<noteq> [] \<longrightarrow> last l \<noteq> CHR 0x0D)"
  proof (cases "l = ''['' @ s @ '']''")
    case True
    with sk(1) assms show ?thesis by (auto simp: plain_unit_def plain_name_def no_breaks_def newline_def)
  next
    case False
    with sk(2) obtain kv where kv: "kv \<in> set kvs" "l = key_line kv" by (auto simp: section_lines_def)
    with sk(1) assms have "plain_key (fst kv)" "plain_value (snd kv)" by (force simp: plain_unit_def)+
    from key_line_ends [OF this] kv(2) ws_len_hd [of rev "rev l"] show ?thesis by (auto simp: is_ws_def hd_rev)
  qed
qed

lemma key_lines_printed:
  assumes "\<forall>(k, v) \<in> set kvs. plain_key k \<and> plain_value v"
  shows "\<forall>l \<in> set (map key_line kvs). newline \<notin> set l \<and> (l \<noteq> [] \<longrightarrow> last l \<noteq> CHR 0x0D)"
proof
  fix l assume "l \<in> set (map key_line kvs)"
  then obtain kv where kv: "kv \<in> set kvs" "l = key_line kv" by auto
  with assms have "plain_key (fst kv)" "plain_value (snd kv)" by auto
  from key_line_ends [OF this] kv(2) ws_len_hd [of rev "rev l"]
  show "newline \<notin> set l \<and> (l \<noteq> [] \<longrightarrow> last l \<noteq> CHR 0x0D)" by (auto simp: is_ws_def hd_rev)
qed

lemma print_lines_append: "print_lines (xs @ ys) = print_lines xs @ print_lines ys"
  by (simp add: print_lines_def)

lemma section_map_append: "section_map (xs @ ys) m = section_map ys (section_map xs m)"
  by (simp add: section_map_def)

lemma parse_plain:
  assumes "plain_unit ((s, kvs) # u)" and "\<forall>(k, v) \<in> set pre. plain_key k \<and> plain_value v"
  shows "parse_ini (print_lines (map key_line pre) @ print_unit ((s, kvs) # u)) =
    (s, section_map kvs (section_map pre Map.empty)) # map (\<lambda>(s, kvs). (s, section_map kvs Map.empty)) u"
proof -
  let ?ls = "map key_line pre @ concat (map section_lines ((s, kvs) # u))"
  have p: "plain_name s" "\<forall>(k, v) \<in> set kvs. plain_key k \<and> plain_value v" "plain_unit u"
    using assms(1) by (auto simp: plain_unit_def)
  from printed_lines [OF assms(1)] key_lines_printed [OF assms(2)] have l: "lines (print_lines ?ls) = ?ls"
    by (intro lines_printed) (simp only: set_append ball_Un)
  let ?st = "ini_start\<lparr>in_map := section_map pre Map.empty\<rparr>"
  let ?st' = "?st\<lparr>in_current := Some s, in_map := section_map kvs (section_map pre Map.empty)\<rparr>"
  have "fold (\<lambda>l st. ini_line st l) (map key_line pre) ini_start = ?st"
    using read_key_lines [OF assms(2), of ini_start] by (simp add: ini_start_def)
  moreover have "fold (\<lambda>l st. ini_line st l) (section_lines (s, kvs)) ?st = ?st'"
    using read_section [OF p(1,2), of ?st] by (simp add: ini_start_def)
  ultimately have "parse_ini (print_lines ?ls) = ini_end (fold (\<lambda>l st. ini_line st l) (concat (map section_lines u)) ?st')"
    using l by (simp add: parse_ini_def)
  also have "\<dots> = (s, section_map kvs (section_map pre Map.empty)) # map (\<lambda>(s, kvs). (s, section_map kvs Map.empty)) u"
    using read_sections [OF p(3), of ?st' s] by (simp add: ini_start_def)
  finally show ?thesis by (simp add: print_unit_def print_lines_append)
qed

lemma unit_parsed: "plain_unit u \<Longrightarrow> parse_ini (print_unit u) = map (\<lambda>(s, kvs). (s, section_map kvs Map.empty)) u"
proof (cases u)
  case Nil
  then show ?thesis by (simp add: parse_ini_def print_unit_def print_lines_def lines_def ini_end_def ini_start_def)
next
  case (Cons sec v)
  assume "plain_unit u"
  with Cons parse_plain [of "fst sec" "snd sec" v "[]"] show ?thesis
    by (cases sec) (simp add: print_lines_def section_map_def)
qed

text \<open>
  C33. A unit file written in plain form is read back: the sections in order, each with the values of every
  key in order. Keys in front of the first section are not refused and not dropped: they become keys of
  the first section.
\<close>

theorem unit_file_roundtrip:
  assumes "plain_unit ((s, kvs) # u)" and "\<forall>(k, v) \<in> set pre. plain_key k \<and> plain_value v"
  shows "parse_ini (print_unit ((s, kvs) # u)) = map (\<lambda>(s, kvs). (s, section_map kvs Map.empty)) ((s, kvs) # u) \<and>
    parse_ini (print_lines (map key_line pre) @ print_unit ((s, kvs) # u)) = parse_ini (print_unit ((s, pre @ kvs) # u))"
proof -
  have "plain_unit ((s, pre @ kvs) # u)" using assms by (auto simp: plain_unit_def)
  from unit_parsed [OF this] unit_parsed [OF assms(1)] parse_plain [OF assms] show ?thesis by (simp add: section_map_append)
qed

section \<open>Commands\<close>

definition quote_word :: "string \<Rightarrow> string" where
  "quote_word s = quote2 # concat (map (\<lambda>c. if c \<in> {quote2, backslash} then [backslash, c] else [c]) s) @ [quote2]"

definition command_line :: "string list \<Rightarrow> string" where
  "command_line ws = join '' '' (map quote_word ws)"

lemma quoted_tail:
  "exec_tokens (concat (map (\<lambda>c. if c \<in> {quote2, backslash} then [backslash, c] else [c]) s) @ quote2 # rest) False True True cur =
   exec_tokens rest False False True (cur @ s)"
  by (induction s arbitrary: cur) auto

lemma quoted_word: "exec_tokens (quote_word s @ rest) False False had cur = exec_tokens rest False False True (cur @ s)"
  using quoted_tail [of s rest cur] by (simp add: quote_word_def visible_def is_ws_def)

lemma command_tokens: "exec_tokens (command_line (x # xs)) False False False [] = x # xs"
proof (induction xs arbitrary: x)
  case Nil
  show ?case using quoted_word [of x "[]" False "[]"] by (simp add: command_line_def)
next
  case (Cons y ys)
  have "command_line (x # y # ys) = quote_word x @ CHR '' '' # command_line (y # ys)" by (simp add: command_line_def)
  then have "exec_tokens (command_line (x # y # ys)) False False False [] = x # exec_tokens (command_line (y # ys)) False False False []"
    using quoted_word [of x "CHR '' '' # command_line (y # ys)" False "[]"] by (simp add: ws_len_def is_ws_def)
  with Cons.IH show ?case by simp
qed

lemma command_ends: "command_line (x # xs) \<noteq> [] \<and> hd (command_line (x # xs)) = quote2 \<and> last (command_line (x # xs)) = quote2"
proof (induction xs arbitrary: x)
  case (Cons y ys)
  have "command_line (x # y # ys) = quote_word x @ CHR '' '' # command_line (y # ys)" by (simp add: command_line_def)
  with Cons.IH [of y] show ?case by (simp add: quote_word_def)
qed (simp add: command_line_def quote_word_def)

lemma command_trim: "trim (command_line (x # xs)) = command_line (x # xs)"
  using command_ends [of x xs] by (intro trim_visible) (auto simp: visible_def is_ws_def)

lemma exec_roundtrip: "systemd_exec (command_line (exec # args)) = Some (exec, args)"
  using command_ends [of exec args] by (simp add: systemd_exec_def command_trim command_tokens)

text \<open>Inside a line, quoted words are passed over when they hold no quote of their own.\<close>

lemma comment_quoted:
  "quote2 \<notin> set s \<Longrightarrow> strip_comment False True
     (concat (map (\<lambda>c. if c \<in> {quote2, backslash} then [backslash, c] else [c]) s) @ quote2 # rest) =
   concat (map (\<lambda>c. if c \<in> {quote2, backslash} then [backslash, c] else [c]) s) @ quote2 # strip_comment False False rest"
  by (induction s) auto

lemma comment_command:
  "\<forall>w \<in> set (x # xs). quote2 \<notin> set w \<Longrightarrow> strip_comment False False (command_line (x # xs)) = command_line (x # xs)"
proof (induction xs arbitrary: x)
  case Nil
  then show ?case using comment_quoted [of x "[]"] by (simp add: command_line_def quote_word_def)
next
  case (Cons y ys)
  have e: "command_line (x # y # ys) = quote_word x @ CHR '' '' # command_line (y # ys)" by (simp add: command_line_def)
  have "strip_comment False False (quote_word x @ r) = quote_word x @ strip_comment False False r" for r
    using comment_quoted [of x r] Cons.prems by (simp add: quote_word_def)
  with Cons.IH [of y] Cons.prems show ?case by (simp add: e)
qed

lemma command_newline: "\<forall>w \<in> set (x # xs). newline \<notin> set w \<Longrightarrow> newline \<notin> set (command_line (x # xs))"
proof (induction xs arbitrary: x)
  case Nil
  then show ?case by (auto simp: command_line_def quote_word_def newline_def split: if_splits)
next
  case (Cons y ys)
  have e: "command_line (x # y # ys) = quote_word x @ CHR '' '' # command_line (y # ys)" by (simp add: command_line_def)
  from Cons.prems have "newline \<notin> set (quote_word x)" by (auto simp: quote_word_def newline_def split: if_splits)
  with Cons.IH [of y] Cons.prems show ?case by (simp add: e newline_def)
qed

text \<open>
  With an escaped double quote a word may be cut at a comment character: the comment is looked for first,
  without regard to the escape.
\<close>

lemma escaped_quote_cut:
  "map_option (\<lambda>sec. sec ''ExecStart'')
     (section_of (parse_ini (print_unit [(''Service'', [(''ExecStart'', command_line [''e'', [quote2, CHR ''#'']])])])) ''service'') =
   Some (Some [command_line [''e''] @ [CHR '' '', quote2, backslash, quote2]])"
  by code_simp

lemma service_section: "section_of [(''Service'', m)] ''service'' = Some m"
  by (simp add: section_of_def) code_simp

text \<open>
  C34. A service whose command is written with every word in double quotes is started with exactly these
  words, whatever characters they hold besides a line break and a double quote.
\<close>

theorem quoted_command_runs:
  assumes "\<forall>w \<in> set (exec # args). newline \<notin> set w \<and> quote2 \<notin> set w"
  shows "\<exists>svc. section_of (parse_ini (print_unit [(''Service'', [(''ExecStart'', command_line (exec # args))])])) ''service'' = Some svc \<and>
      sm_run (build_service_meta name svc after start_on) = RunOne (run_default\<lparr>ro_exec := exec, ro_args := args\<rparr>)"
proof -
  let ?c = "command_line (exec # args)"
  have "plain_value ?c"
    using command_ends [of exec args] command_trim [of exec args] comment_command [of exec args] command_newline [of exec args] assms
    by (auto simp: plain_value_def no_breaks_def line_continues_def ends_with_last)
  moreover have "plain_key ''ExecStart''" "plain_name ''Service''"
    by (simp_all add: plain_key_def plain_name_def no_breaks_def newline_def trim_visible visible_def is_ws_def)
  ultimately have "plain_unit [(''Service'', [(''ExecStart'', ?c)])]" by (simp add: plain_unit_def)
  from unit_parsed [OF this]
  have "section_of (parse_ini (print_unit [(''Service'', [(''ExecStart'', ?c)])])) ''service'' = Some [''ExecStart'' \<mapsto> [?c]]"
    by (simp add: service_section section_map_def section_push_def)
  then show ?thesis
    by (simp add: build_service_meta_def build_run_def first_value_def exec_roundtrip collect_env_def all_values_def run_default_def)
qed


section \<open>Timers\<close>

text \<open>What a translated duration is for the timer runtime: nothing when there is no timer, otherwise seconds.\<close>

definition timer_seconds :: "bool \<Rightarrow> string \<Rightarrow> u64 option option" where
  "timer_seconds checked value =
     (case parse_time_spec checked value of
        None \<Rightarrow> None | Some None \<Rightarrow> Some None | Some (Some d) \<Rightarrow> parse_duration checked d)"

definition systemd_unit :: "char \<Rightarrow> nat option" where
  "systemd_unit c =
     (if c \<in> {CHR ''s'', CHR ''S''} then Some 1 else if c \<in> {CHR ''m'', CHR ''M''} then Some 60
      else if c \<in> {CHR ''h'', CHR ''H''} then Some 3600 else if c \<in> {CHR ''d'', CHR ''D''} then Some 86400
      else if c \<in> {CHR ''w'', CHR ''W''} then Some 604800 else if c \<in> {CHR ''y'', CHR ''Y''} then Some 31536000 else None)"

lemma shown_trim: "visible u \<Longrightarrow> trim (show_nat n @ [u]) = show_nat n @ [u]"
  using shown_plain [of "hd (show_nat n)" n] by (intro trim_visible) auto

lemma parse_u64_shown: "parse_u64 (show_nat n) = (if n < 2 ^ 64 then Some (of_nat n) else None)"
  by (simp add: parse_u64_def parse_uint_shown)

definition unit_letters :: "(char \<times> nat) list" where
  "unit_letters = [(CHR ''s'', 1), (CHR ''S'', 1), (CHR ''m'', 60), (CHR ''M'', 60), (CHR ''h'', 3600), (CHR ''H'', 3600),
     (CHR ''d'', 86400), (CHR ''D'', 86400), (CHR ''w'', 604800), (CHR ''W'', 604800), (CHR ''y'', 31536000), (CHR ''Y'', 31536000)]"

lemma unit_letter: "systemd_unit u = Some k \<Longrightarrow> (u, k) \<in> set unit_letters"
  by (simp add: systemd_unit_def unit_letters_def split: if_splits)

lemma letters_plain: "\<forall>(u, k) \<in> set unit_letters. visible u \<and> \<not> continuation_byte u"
  by code_simp

lemma unit_char: "systemd_unit u = Some k \<Longrightarrow> visible u \<and> \<not> continuation_byte u"
  using unit_letter letters_plain by fast

definition scaled_days :: "bool \<Rightarrow> u64 \<Rightarrow> u64 \<Rightarrow> string option option" where
  "scaled_days checked n k = map_option (\<lambda>p. Some (show_nat (unat p) @ ''d'')) (mul_u64 checked n k)"

lemma time_spec_shown:
  assumes "systemd_unit u = Some k" "n < 2 ^ 64"
  shows "parse_time_spec checked (show_nat n @ [u]) =
    (if k = 604800 then scaled_days checked (of_nat n) 7 else if k = 31536000 then scaled_days checked (of_nat n) 365
     else Some (Some (show_nat n @ [ascii_lower u])))"
proof -
  have n: "unat (of_nat n :: u64) = n" using assms(2) by (simp add: unat_of_nat)
  have p: "parse_time_spec checked (show_nat n @ [u]) =
      (let plain = (\<lambda>c. Some (Some (show_nat n @ [c]))); times = scaled_days checked (of_nat n) in
       if u \<in> {CHR ''s'', CHR ''S''} then plain (CHR ''s'')
       else if u \<in> {CHR ''m'', CHR ''M''} then plain (CHR ''m'')
       else if u \<in> {CHR ''h'', CHR ''H''} then plain (CHR ''h'')
       else if u \<in> {CHR ''d'', CHR ''D''} then plain (CHR ''d'')
       else if u \<in> {CHR ''w'', CHR ''W''} then times 7
       else if u \<in> {CHR ''y'', CHR ''Y''} then times 365
       else if u \<in> {CHR ''u'', CHR ''U''} then Some None
       else Some (Some (show_nat n @ [u])))"
    using unit_char [OF assms(1)] assms(2)
    by (simp add: parse_time_spec_def shown_trim Let_def parse_u64_shown n scaled_days_def del: insert_iff)
  have lower: "map ascii_lower ''smhdSMHD'' = ''smhdsmhd''" by code_simp
  from unit_letter [OF assms(1)] show ?thesis unfolding p unit_letters_def list.set
    by (elim insertE emptyE) (use lower in \<open>simp_all add: Let_def\<close>)
qed

lemma show_nat_butlast: "n \<ge> 10 \<Longrightarrow> butlast (show_nat n) = show_nat (n div 10)"
  by (subst show_nat.simps) simp

lemma show_nat_small: "n < 10 \<Longrightarrow> butlast (show_nat n) = []"
  by (subst show_nat.simps) simp

lemma scaled_seconds:
  assumes "n < 2 ^ 64" "unat k = j" "parse_duration checked = pd"
  shows "(case scaled_days checked (of_nat n) k of None \<Rightarrow> None | Some None \<Rightarrow> Some None | Some (Some d) \<Rightarrow> pd d) =
    (if checked \<and> n * (j * 86400) \<ge> 2 ^ 64 then None else Some (Some (of_nat n * k * 86400)))"
proof -
  have n: "unat (of_nat n :: u64) = n" using assms(1) by (simp add: unat_of_nat)
  have pd: "pd (show_nat m @ ''d'') = (if m \<ge> 2 ^ 64 then Some None else if checked \<and> m * 86400 \<ge> 2 ^ 64 then None
      else Some (Some (of_nat m * 86400)))" for m
    using parse_duration_exact [of "CHR ''d''" 86400 checked m] assms(3) by (simp add: unit_seconds_def)
  show ?thesis
  proof (cases "checked \<and> n * j \<ge> 2 ^ 64")
    case True
    then have "n * (j * 86400) \<ge> 2 ^ 64" by linarith
    with True show ?thesis by (simp add: scaled_days_def mul_u64_def n assms(2))
  next
    case False
    then have s: "scaled_days checked (of_nat n) k = Some (Some (show_nat (unat (of_nat n * k :: u64)) @ ''d''))"
      by (simp add: scaled_days_def mul_u64_def n assms(2) not_le)
    have lt: "unat (of_nat n * k :: u64) < 2 ^ 64" using unsigned_less [of "of_nat n * k :: u64"] by simp
    have "unat (of_nat n * k :: u64) = n * j" if checked
      using False that n assms(2) by (simp add: unat_word_ariths(2))
    with lt show ?thesis unfolding s by (auto simp: pd not_le ac_simps)
  qed
qed

lemma digit_plain:
  assumes "48 \<le> (of_char c :: nat)" "(of_char c :: nat) \<le> 57"
  shows "\<not> continuation_byte c" "unit_seconds c = None"
    "c \<notin> {CHR ''s'', CHR ''S''}" "c \<notin> {CHR ''m'', CHR ''M''}" "c \<notin> {CHR ''h'', CHR ''H''}" "c \<notin> {CHR ''d'', CHR ''D''}"
    "c \<notin> {CHR ''w'', CHR ''W''}" "c \<notin> {CHR ''y'', CHR ''Y''}" "c \<notin> {CHR ''u'', CHR ''U''}"
  using assms by (auto simp: continuation_byte_def unit_seconds_def Let_def)

lemma number_trim: "trim (show_nat n) = show_nat n"
  using shown_plain [of _ n] by (intro trim_visible) auto

text \<open>A number without a unit: the last digit is taken for the unit.\<close>

lemma plain_number:
  assumes "n < 2 ^ 64"
  shows "timer_seconds checked (show_nat n) = (if n < 10 then Some None else Some (Some (of_nat n)))"
proof -
  have last: "48 \<le> (of_char (last (show_nat n)) :: nat)" "(of_char (last (show_nat n)) :: nat) \<le> 57"
    using shown_digit [of "last (show_nat n)" n] by auto
  note d = digit_plain [OF last]
  show ?thesis
  proof (cases "n < 10")
    case True
    then have "parse_u64 (butlast (show_nat n)) = None" by (simp add: show_nat_small parse_u64_def parse_uint_def)
    with True d(1) show ?thesis by (simp add: timer_seconds_def parse_time_spec_def number_trim)
  next
    case False
    then have b: "parse_u64 (butlast (show_nat n)) = Some (of_nat (n div 10))"
      using assms by (simp add: show_nat_butlast parse_u64_shown)
    have "parse_time_spec checked (show_nat n) = Some (Some (show_nat n))"
      using d by (simp add: parse_time_spec_def number_trim b Let_def)
    moreover have "parse_duration checked (show_nat n) = Some (Some (of_nat n))"
      using d(1,2) assms by (simp add: parse_duration_def number_trim b parse_u64_shown)
    ultimately show ?thesis using False by (simp add: timer_seconds_def)
  qed
qed

text \<open>
  C35. A number with one of the units of systemd becomes a timer of exactly that many seconds, as long as the
  product fits in 64 bits; then it wraps around, or panics in a build that checks for overflow. A number
  without a unit, seconds for systemd, keeps its value only with two digits or more: with one digit there
  is no timer at all.
\<close>

theorem translated_timer_exact:
  assumes "systemd_unit u = Some k" and "n < 2 ^ 64"
  shows "timer_seconds checked (show_nat n @ [u]) =
      (if checked \<and> n * k \<ge> 2 ^ 64 then None else Some (Some (of_nat (n * k)))) \<and>
    timer_seconds checked (show_nat n) = (if n < 10 then Some None else Some (Some (of_nat n)))"
proof
  show "timer_seconds checked (show_nat n) = (if n < 10 then Some None else Some (Some (of_nat n)))"
    by (rule plain_number [OF assms(2)])
  note p = time_spec_shown [OF assms, of checked]
  have one: "timer_seconds checked (show_nat n @ [u]) =
      (if checked \<and> n * k \<ge> 2 ^ 64 then None else Some (Some (of_nat (n * k))))"
    if "unit_seconds (ascii_lower u) = Some (of_nat k)" "k < 2 ^ 64" "k \<noteq> 604800" "k \<noteq> 31536000"
    using parse_duration_exact [OF that(1), of checked n] that(2-4) assms(2)
    by (simp add: timer_seconds_def p unat_of_nat)
  have days: "timer_seconds checked (show_nat n @ [u]) =
      (if checked \<and> n * k \<ge> 2 ^ 64 then None else Some (Some (of_nat (n * k))))" if "k = 604800 \<or> k = 31536000"
    using that scaled_seconds [OF assms(2) _ refl, of 7 7 checked] scaled_seconds [OF assms(2) _ refl, of 365 365 checked]
    by (auto simp: timer_seconds_def p)
  have "\<forall>(u, k) \<in> set unit_letters. k = 604800 \<or> k = 31536000 \<or> k < 2 ^ 64 \<and> unit_seconds (ascii_lower u) = Some (of_nat k)"
    by code_simp
  then have "k = 604800 \<or> k = 31536000 \<or> k < 2 ^ 64 \<and> unit_seconds (ascii_lower u) = Some (of_nat k)"
    using unit_letter [OF assms(1)] by fast
  with one days show "timer_seconds checked (show_nat n @ [u]) =
      (if checked \<and> n * k \<ge> 2 ^ 64 then None else Some (Some (of_nat (n * k))))" by blast
qed

lemma translated_timer_exact_witness:
  "timer_seconds True ''2w'' = Some (Some 1209600) \<and> timer_seconds True ''2'' = Some None"
proof -
  have "show_nat 2 = ''2''" by code_simp
  with translated_timer_exact [of "CHR ''w''" 604800 2 True] show ?thesis by (simp add: systemd_unit_def)
qed


section \<open>Sections that are not looked at\<close>

lemma section_of_skip:
  "map ascii_lower s \<noteq> name \<Longrightarrow> section_of (xs @ (s, sec) # ys) name = section_of (xs @ ys) name"
  by (simp add: section_of_def map_add_def split: option.split)

text \<open>
  The section \<open>Install\<close>, in which systemd looks for \<open>WantedBy\<close> and
  \<open>RequiredBy\<close>, has no effect: these keys are only read from the section \<open>Unit\<close>.
\<close>

theorem install_section_ignored:
  assumes "map ascii_lower s = ''install''"
  shows "load_into checked name (xs @ (s, sec) # ys) md = load_into checked name (xs @ ys) md"
proof -
  have skip: "section_of (xs @ (s, sec) # ys) n = section_of (xs @ ys) n"
    if "n \<in> {''unit'', ''service'', ''socket'', ''timer'', ''mount'', ''automount''}" for n
    by (rule section_of_skip) (use assms that in auto)
  show ?thesis by (simp only: load_into_def is_target_file_def skip insert_iff refl simp_thms)
qed

lemma install_section_ignored_witness:
  "load_into True ''a'' [(''Unit'', Map.empty), (''Install'', [''WantedBy'' \<mapsto> [''multi-user.target'']])] md =
   load_into True ''a'' [(''Unit'', Map.empty)] md"
proof -
  have "map ascii_lower ''Install'' = ''install''" by code_simp
  from install_section_ignored [OF this, of True "''a''" "[(''Unit'', Map.empty)]" "[''WantedBy'' \<mapsto> [''multi-user.target'']]" "[]" md]
  show ?thesis by simp
qed

section \<open>A dependency on a service\<close>

lemma no_group: "CHR '':'' \<notin> set a \<Longrightarrow> fst (rslvns_res a) = []"
proof -
  assume a: "CHR '':'' \<notin> set a"
  obtain n s where n: "rslvns_res a = (let parts = rsplitn 3 (CHR '':'') n in
      (case parts of _ # p # _ \<Rightarrow> p | _ \<Rightarrow> [], case parts of c # _ \<Rightarrow> c | [] \<Rightarrow> [], s))" "set n \<subseteq> set a"
  proof (cases "split_once (CHR ''@'') a")
    case None
    with that [of a "''static''"] show ?thesis by (simp add: rslvns_res_def splitn_2_at Let_def)
  next
    case (Some p)
    obtain x y where "p = (x, y)" by (cases p)
    moreover from this Some have "set x \<subseteq> set a" using split_once_SomeD [of "CHR ''@''" a x y] by auto
    ultimately show ?thesis using Some that [of x y] by (simp add: rslvns_res_def splitn_2_at Let_def)
  qed
  moreover from this a have "CHR '':'' \<notin> set (rev n)" by auto
  then have "rsplitn 3 (CHR '':'') n = [n]" by (simp add: rsplitn_def splitn_3)
  ultimately show ?thesis by simp
qed

text \<open>No unit is in a group without a name; the groups are named by the unit files.\<close>

definition groups_named :: "svc_env \<Rightarrow> bool" where
  "groups_named E \<longleftrightarrow> list_all (\<lambda>(_, m). get_in_group tid_service [] m = None) (mr_metadata (se_meta E))"

lemma nameless_group: "groups_named E \<Longrightarrow> group_items (se_meta E) tid_service md [] \<in> {None, Some []}"
proof -
  assume g: "groups_named E"
  then have "concat (map (\<lambda>(_, m). case get_in_group tid_service [] m of None \<Rightarrow> [] | Some xs \<Rightarrow> xs) (mr_metadata (se_meta E))) = []"
    by (auto simp: groups_named_def list_all_iff)
  moreover have "get_in_group tid_service [] m = None" if "map_of (mr_metadata (se_meta E)) md = Some m" for m
    using g map_of_SomeD [OF that] by (auto simp: groups_named_def list_all_iff)
  ultimately show ?thesis by (auto simp: group_items_def split: option.split)
qed

lemma found_has_group:
  assumes "groups_named E" "find_meta E a = Some m"
  shows "CHR '':'' \<in> set a"
proof (rule ccontr)
  assume "CHR '':'' \<notin> set a"
  from no_group [OF this] obtain c s where "rslvns_res a = ([], c, s)" by (cases "rslvns_res a") simp
  with assms(2) nameless_group [OF assms(1), of "resolve_metadata_key (se_meta E) ''*'' a"]
    nameless_group [OF assms(1), of "resolve_metadata_key (se_meta E) (resolve_metadata_key (se_meta E) ''*'' a) a"] show False
    by (auto simp: find_meta_def mr_find_def mr_lookup_def Let_def split: option.splits if_splits)
qed

lemma after_order_sources: "after_order M ds \<Longrightarrow> (n, as) \<in> set ds \<Longrightarrow> set as \<subseteq> M \<union> fst ` set ds"
  by (induction M ds rule: after_order.induct) fastforce+

lemma waiting_of: "(n, as) \<in> set (waiting_services xs) \<Longrightarrow> \<exists>m. (n, m) \<in> set xs \<and> sm_start_on m = None \<and> sm_after m = Some as"
  by (auto simp: waiting_services_def List.map_filter_def split: if_splits)

text \<open>
  A service translated from a unit that depends on other services, by the names systemd gives them, and
  on no target is not started with the active services, and is not among the dependents that are
  started when another service has started: the daemon knows services by group and name.
\<close>

theorem service_dependency_never_met:
  assumes "collect_dependencies (Some sec) = (deps, [])" and "deps \<noteq> []" and "\<forall>t \<in> set deps. CHR '':'' \<notin> set t"
    and "find_meta E n = Some (build_service_meta name svc deps [])"
    and "groups_named E"
    and "start_all E rec w = Some (Inr (), w')"
  shows "(\<exists>names v. start_each E rec names v = Some w' \<and> n \<notin> set names \<and> sw_out v = sw_out w \<and> sw_pid_map v = sw_pid_map w) \<and>
    (\<forall>grp other dependent. (dependent, build_service_meta name svc deps []) \<notin> set (dependents_of E (unit_full_name grp other)))"
proof
  let ?m = "build_service_meta name svc deps []"
  have m: "sm_after ?m = Some deps" "sm_start_on ?m = None" using assms(2) by (simp_all add: build_service_meta_def some_unless_empty_def)
  from start_all_result [OF assms(6)] obtain services v ds left where
    s: "with_singletons graph_singleton (\<lambda>xs w. (Inr (active_services E (taken_graph xs)), w)) w = (Inr services, v)"
    and st: "start_each E rec (first_services services @ map fst ds) v = Some w'"
    and wait: "mset (waiting_services services) = mset ds + mset left"
    and order: "after_order (set (first_services services) \<union> found_running E rec services v) ds" by blast
  define running where "running = found_running E rec services v"
  have run: "running \<subseteq> fst ` set services" by (force simp: running_def found_running_def)
  have ord: "after_order (set (first_services services) \<union> running) ds" using order by (simp add: running_def)
  from s obtain facets where f: "services = active_services E facets" and out: "sw_out v = sw_out w" "sw_pid_map v = sw_pid_map w"
    by (auto simp: with_singletons_def split: if_splits prod.splits sum.splits)
  have found: "find_meta E x = Some y" if "(x, y) \<in> set services" for x y
    using that unfolding f by (auto simp: active_services_def List.map_filter_def Let_def split: option.splits)
  have colon: "CHR '':'' \<in> set x" if "(x, y) \<in> set services" for x y using found_has_group [OF assms(5) found [OF that]] .
  have ds: "set ds \<subseteq> set (waiting_services services)" using wait by (metis mset_subset_eq_add_left set_mset_mono set_mset_mset)
  have names: "x \<in> set (first_services services) \<union> running \<union> fst ` set ds \<Longrightarrow> CHR '':'' \<in> set x" for x
    using run ds colon waiting_of [of x _ services] by (fastforce simp: first_services_def)
  have "n \<notin> fst ` set ds"
  proof
    assume "n \<in> fst ` set ds"
    then obtain as where as: "(n, as) \<in> set ds" by auto
    then obtain y where "(n, y) \<in> set services" "sm_after y = Some as" using ds waiting_of [of n as services] by blast
    with found [of n y] assms(4) m(1) have "as = deps" by simp
    moreover have "set as \<subseteq> set (first_services services) \<union> running \<union> fst ` set ds" using after_order_sources [OF ord as] .
    ultimately show False using assms(2,3) names by (cases deps) auto
  qed
  moreover have "n \<notin> set (first_services services)"
  proof
    assume "n \<in> set (first_services services)"
    then obtain y where "(n, y) \<in> set services" "sm_after y = None" by (auto simp: first_services_def)
    with found [of n y] assms(4) m(1) show False by simp
  qed
  ultimately show "\<exists>names v. start_each E rec names v = Some w' \<and> n \<notin> set names \<and> sw_out v = sw_out w \<and> sw_pid_map v = sw_pid_map w"
    using st out by (intro exI [of _ "first_services services @ map fst ds"] exI [of _ v]) simp
  show "\<forall>grp other dependent. (dependent, ?m) \<notin> set (dependents_of E (unit_full_name grp other))"
    using assms(3) m(1) by (fastforce simp: dependents_of_def unit_full_name_def)
qed

lemma unit_file_roundtrip_witness:
  "parse_ini (''A=1'' @ [newline] @ ''[Unit]'' @ [newline] @ ''B=2'' @ [newline]) =
   parse_ini (''[Unit]'' @ [newline] @ ''A=1'' @ [newline] @ ''B=2'' @ [newline])"
proof -
  have p: "plain_unit [(''Unit'', [(''B'', ''2'')])]" "\<forall>(k, v) \<in> set [(''A'', ''1'')]. plain_key k \<and> plain_value v"
    by code_simp+
  from unit_file_roundtrip [OF p] show ?thesis
    by (simp add: print_unit_def print_lines_def section_lines_def key_line_def)
qed

lemma quoted_command_runs_witness:
  "\<exists>svc. section_of (parse_ini (print_unit [(''Service'', [(''ExecStart'', command_line [''/bin/echo'', ''a #b''])])])) ''service'' = Some svc \<and>
     sm_run (build_service_meta ''echo'' svc [] []) = RunOne (run_default\<lparr>ro_exec := ''/bin/echo'', ro_args := [''a #b'']\<rparr>)"
  by (rule quoted_command_runs) (simp add: newline_def)

text \<open>\<open>b\<close> is translated from a unit with \<open>After=a.service\<close>.\<close>

definition translated_b :: service_meta where
  "translated_b = build_service_meta ''b'' Map.empty [''a.service''] []"

definition translated_pair :: svc_env where
  "translated_pair = demo_svc [plain_service ''a'', translated_b]"

lemma translated_found: "find_meta translated_pair ''g:b'' = Some translated_b"
proof -
  let ?us = "[UService (plain_service ''a''), UService translated_b]"
  have u: "se_meta translated_pair = demo_units ?us" by (simp add: translated_pair_def demo_svc_def)
  have k: "resolve_metadata_key (demo_units ?us) ''*'' ''g:b'' = ''static''"
    "resolve_metadata_key (demo_units ?us) ''static'' ''g:b'' = ''static''" by code_simp+
  have r: "rslvns_res ''g:b'' = (''g'', ''b'', ''static'')" by code_simp
  have "map_of (mr_indexes (demo_units ?us)) (mt_id tid_service) = Some Map.empty" "group_items (demo_units ?us) tid_service ''static'' ''g'' = Some ?us"
    by (simp_all add: demo_units_def group_items_def get_in_group_def)
  moreover have "sm_name (plain_service ''a'') = ''a''" "sm_name translated_b = ''b''"
    by (simp_all add: plain_service_def translated_b_def build_service_meta_def)
  ultimately show ?thesis by (simp add: find_meta_def mr_find_def mr_lookup_def u k r)
qed

lemma service_dependency_never_met_witness:
  "\<exists>w' names v. start_all translated_pair quiet_start (world_with active_pair) = Some (Inr (), w') \<and>
     start_each translated_pair quiet_start names v = Some w' \<and> ''g:b'' \<notin> set names"
proof -
  have deps: "collect_dependencies (Some [''After'' \<mapsto> [''a.service'']]) = ([''a.service''], [])" by code_simp
  have "map_option fst (start_all translated_pair quiet_start (world_with active_pair)) = Some (Inr ())" by code_simp
  then obtain w' where w': "start_all translated_pair quiet_start (world_with active_pair) = Some (Inr (), w')" by auto
  have "groups_named translated_pair" by code_simp
  with service_dependency_never_met [OF deps _ _ translated_found [unfolded translated_b_def] _ w'] w' show ?thesis by auto
qed

end
