(* ===== verification/Ipc.thy ===== *)
theory Ipc
  imports Resources
begin

text \<open>
  Messages between the daemon and its clients, \<^verbatim>\<open>crates/ipc/src/ipc.rs\<close>: a message, the
  frame in which it goes over a stream, and the loop of \<^verbatim>\<open>crates/cfg/src/ipc.rs\<close> that reads
  the requests of a connection and says who asks. The binary encoding of a message is the library's, so
  it is an argument.
\<close>

section \<open>Messages\<close>

datatype message_type = MsgValid | MsgOk | MsgError | MsgUnknown | MsgRequestInput | MsgEnquire

record ipc_msg =
  im_type :: message_type
  im_action :: string
  im_payload :: "u8 list option"
  im_from_uid :: "u32 option"
  im_from_gid :: "u32 option"
  im_from_pid :: "i32 option"

record ipc_codec =
  ic_enc :: "ipc_msg \<Rightarrow> u8 list"
  ic_dec :: "u8 list \<Rightarrow> string + ipc_msg"
  ic_string :: "string \<Rightarrow> u8 list"

definition msg_default :: ipc_msg where
  "msg_default = \<lparr>im_type = MsgEnquire, im_action = [], im_payload = None, im_from_uid = None, im_from_gid = None, im_from_pid = None\<rparr>"

definition msg_from_type :: "message_type \<Rightarrow> ipc_msg" where
  "msg_from_type t = msg_default\<lparr>im_type := t, im_payload := None\<rparr>"

definition msg_with_string :: "ipc_codec \<Rightarrow> string \<Rightarrow> ipc_msg \<Rightarrow> ipc_msg" where
  "msg_with_string C s m = m\<lparr>im_payload := Some (ic_string C s)\<rparr>"

definition msg_ok :: "ipc_codec \<Rightarrow> string \<Rightarrow> ipc_msg" where
  "msg_ok C s = msg_with_string C s (msg_from_type MsgOk)"

definition msg_err :: "ipc_codec \<Rightarrow> string \<Rightarrow> ipc_msg" where
  "msg_err C s = msg_with_string C s (msg_from_type MsgError)"

text \<open>\<open>parse_payload\<close> with the library's decoder of the payload type.\<close>

definition parse_payload :: "(u8 list \<Rightarrow> string + 'p) \<Rightarrow> ipc_msg \<Rightarrow> string + 'p" where
  "parse_payload dec m = (case im_payload m of None \<Rightarrow> Inl ''Payload Not found'' | Some p \<Rightarrow> dec p)"

section \<open>Frames\<close>

definition ipc_magic :: "u8 list" where "ipc_magic = [82, 73, 78, 68]"

definition max_ipc_message_size :: nat where "max_ipc_message_size = 64 * 1024 * 1024"

text \<open>The length is cut to 32 bits.\<close>

definition write_signed :: "('m \<Rightarrow> u8 list) \<Rightarrow> 'm \<Rightarrow> u8 list" where
  "write_signed enc m = (let buf = enc m in ipc_magic @ u32_to_be (of_nat (length buf)) @ buf)"

datatype frame_error = EndOfStream | BadMagic | TooLarge | BadMessage string

definition frame_exact :: "nat \<Rightarrow> u8 list \<Rightarrow> (u8 list \<times> u8 list) option" where
  "frame_exact n s = (if length s < n then None else Some (take n s, drop n s))"

definition read_signed :: "(u8 list \<Rightarrow> string + 'm) \<Rightarrow> u8 list \<Rightarrow> frame_error + ('m \<times> u8 list)" where
  "read_signed dec s =
     (case frame_exact 4 s of
        None \<Rightarrow> Inl EndOfStream
      | Some (magic, s) \<Rightarrow>
          if magic \<noteq> ipc_magic then Inl BadMagic
          else (case frame_exact 4 s of
                  None \<Rightarrow> Inl EndOfStream
                | Some (len_buf, s) \<Rightarrow>
                    (let len = unat (u32_from_be len_buf) in
                     if len > max_ipc_message_size then Inl TooLarge
                     else (case frame_exact len s of
                             None \<Rightarrow> Inl EndOfStream
                           | Some (buf, s) \<Rightarrow>
                               (case dec buf of Inl e \<Rightarrow> Inl (BadMessage e) | Inr m \<Rightarrow> Inr (m, s))))))"

lemma read_signed_shorter: "read_signed dec s = Inr (m, s') \<Longrightarrow> length s' < length s"
  by (auto simp: read_signed_def frame_exact_def Let_def split: if_splits sum.splits)

section \<open>A connection\<close>

text \<open>What the kernel says about the process at the other end.\<close>

record peer_cred =
  cr_uid :: u32
  cr_gid :: u32
  cr_pid :: i32

definition msg_identified :: "peer_cred \<Rightarrow> ipc_msg \<Rightarrow> ipc_msg" where
  "msg_identified cred m =
     (if cr_uid cred = 0 \<and> im_from_uid m \<noteq> None then m
      else m\<lparr>im_from_gid := Some (cr_gid cred), im_from_uid := Some (cr_uid cred), im_from_pid := Some (cr_pid cred)\<rparr>)"

text \<open>
  The requests handed to the runtime from the bytes of a stream, until one cannot be read or the answer
  to one cannot be delivered; \<open>answered\<close> says of each in turn whether it can.
\<close>

function connection_requests ::
  "(u8 list \<Rightarrow> string + ipc_msg) \<Rightarrow> peer_cred \<Rightarrow> (nat \<Rightarrow> bool) \<Rightarrow> nat \<Rightarrow> u8 list \<Rightarrow> ipc_msg list" where
  "connection_requests dec cred answered k s =
     (case read_signed dec s of
        Inl _ \<Rightarrow> []
      | Inr (m, s) \<Rightarrow> msg_identified cred m # (if answered k then connection_requests dec cred answered (Suc k) s else []))"
  by pat_completeness auto
termination
  by (relation "measure (\<lambda>(dec, cred, answered, k, s). length s)") (auto dest: read_signed_shorter)

declare connection_requests.simps [simp del]

section \<open>What is written is read\<close>

lemma frame_exact_append: "length a = n \<Longrightarrow> frame_exact n (a @ b) = Some (a, b)"
  by (simp add: frame_exact_def)

lemma read_written:
  assumes "length (enc m) \<le> max_ipc_message_size" "dec (enc m) = Inr m"
  shows "read_signed dec (write_signed enc m @ s) = Inr (m, s)"
proof -
  have "length (enc m) < 2 ^ 32" using assms(1) by (simp add: max_ipc_message_size_def)
  then have "unat (of_nat (length (enc m)) :: u32) = length (enc m)" by (simp add: unat_of_nat)
  moreover have "write_signed enc m @ s = ipc_magic @ u32_to_be (of_nat (length (enc m))) @ enc m @ s"
    by (simp add: write_signed_def Let_def)
  moreover have "length ipc_magic = 4" by (simp add: ipc_magic_def)
  ultimately show ?thesis using assms by (simp add: read_signed_def frame_exact_append Let_def)
qed

lemma requests_identified:
  "cr_uid cred \<noteq> 0 \<longrightarrow> (\<forall>m \<in> set (connection_requests dec cred answered k bytes).
     im_from_uid m = Some (cr_uid cred) \<and> im_from_gid m = Some (cr_gid cred) \<and> im_from_pid m = Some (cr_pid cred))"
proof (induction dec cred answered k bytes rule: connection_requests.induct)
  case (1 dec cred answered k s)
  show ?case
  proof (cases "read_signed dec s")
    case (Inl e)
    then show ?thesis by (subst connection_requests.simps) simp
  next
    case (Inr p)
    obtain m s' where p: "p = (m, s')" by (cases p)
    show ?thesis
      using 1 [OF Inr p [symmetric]] by (subst connection_requests.simps) (auto simp: Inr p msg_identified_def)
  qed
qed

text \<open>
  C11. The requests of a connection are the messages the client wrote, in order, as far as their answers were
  delivered, and nothing else; and whatever bytes it wrote, a client that is not root asks under its own
  user, group and process, whoever it claims to be.
\<close>

theorem connection_identity:
  assumes "\<forall>m \<in> set ms. length (ic_enc C m) \<le> max_ipc_message_size \<and> ic_dec C (ic_enc C m) = Inr m"
  shows "connection_requests (ic_dec C) cred (\<lambda>_. True) 0 (concat (map (write_signed (ic_enc C)) ms)) = map (msg_identified cred) ms \<and>
    (cr_uid cred \<noteq> 0 \<longrightarrow> (\<forall>m \<in> set (connection_requests dec cred answered k bytes).
       im_from_uid m = Some (cr_uid cred) \<and> im_from_gid m = Some (cr_gid cred) \<and> im_from_pid m = Some (cr_pid cred)))"
proof
  have "connection_requests (ic_dec C) cred (\<lambda>_. True) k (concat (map (write_signed (ic_enc C)) ms)) = map (msg_identified cred) ms" for k
    using assms
  proof (induction ms arbitrary: k)
    case Nil
    show ?case by (subst connection_requests.simps) (simp add: read_signed_def frame_exact_def)
  next
    case (Cons m ms)
    then show ?case by (subst connection_requests.simps) (simp add: read_written)
  qed
  then show "connection_requests (ic_dec C) cred (\<lambda>_. True) 0 (concat (map (write_signed (ic_enc C)) ms)) = map (msg_identified cred) ms" .
  show "cr_uid cred \<noteq> 0 \<longrightarrow> (\<forall>m \<in> set (connection_requests dec cred answered k bytes).
       im_from_uid m = Some (cr_uid cred) \<and> im_from_gid m = Some (cr_gid cred) \<and> im_from_pid m = Some (cr_pid cred))"
    by (rule requests_identified)
qed

text \<open>A codec for one message, to see that the hypothesis can hold.\<close>

definition demo_codec :: ipc_codec where
  "demo_codec = \<lparr>ic_enc = (\<lambda>m. if im_type m = MsgOk then [1] else [2]),
     ic_dec = (\<lambda>b. if b = [1] then Inr (msg_from_type MsgOk) else if b = [2] then Inr (msg_from_type MsgError) else Inl ''bad''),
     ic_string = map of_char\<rparr>"

lemma connection_identity_witness:
  "connection_requests (ic_dec demo_codec) \<lparr>cr_uid = 1000, cr_gid = 100, cr_pid = 7\<rparr> (\<lambda>_. True) 0
     (concat (map (write_signed (ic_enc demo_codec)) [msg_from_type MsgOk, msg_from_type MsgError])) =
   map (msg_identified \<lparr>cr_uid = 1000, cr_gid = 100, cr_pid = 7\<rparr>) [msg_from_type MsgOk, msg_from_type MsgError]"
  using connection_identity [of "[msg_from_type MsgOk, msg_from_type MsgError]" demo_codec]
  by (simp add: demo_codec_def max_ipc_message_size_def msg_from_type_def msg_default_def)

end
