(* ===== verification/Sessions.thy ===== *)
theory Sessions
  imports Ipc Pam Spawn
begin

text \<open>
  Login sessions, \<^verbatim>\<open>crates/cfg/src/user.rs\<close>: the requests to log in, log out and to run a
  command as root, what the user runtime does when a session begins or ends, and how sessions are opened
  again at start-up. A panic, and a permission check that does not return, is \<open>None\<close>.
\<close>

section \<open>State and environment\<close>

record login_payload =
  lp_username :: string
  lp_password :: "string option"
  lp_seat :: string

record logout_payload =
  op_username :: string
  op_session_id :: u64
  op_seat :: "string option"

datatype user_cmd = UserLoginCmd ustr ustr u64 | UserLogoutCmd u64 ustr "ustr option"

datatype user_effect =
    UDispatch user_cmd
  | UCommand svc_cmd
  | UFlowSet ustr json
  | UFlowRemove ustr json
  | ULoginEvent login_action u64 u32
  | UMakeDir string u32 u32
  | URemoveDir string
  | UNotify

record user_world =
  uw_pam :: "pam_handle option"
  uw_perms :: "perm_store option"
  uw_queue :: "(i32 \<rightharpoonup> nat) option"
  uw_graph :: "facet_graph option"
  uw_disks :: scope_disks
  uw_scopes :: "scope_store option"
  uw_global :: scope_store
  uw_desired :: "ustr \<rightharpoonup> scope_info"
  uw_lifecycle :: lifecycle_queue
  uw_notifier :: bool
  uw_reload_static :: bool
  uw_out :: "user_effect list"

text \<open>
  Clocks, files and the decoders of the payloads. Making a runtime directory stands for making it and
  setting its mode and owner.
\<close>

record 'h user_env =
  ue_hash :: "'h hashers"
  ue_lib :: json_lib
  ue_persist :: persist_env
  ue_faults :: "ustr \<Rightarrow> faults"
  ue_fuel :: nat
  ue_timeout :: nat
  ue_now :: nat
  ue_later :: nat
  ue_today :: int
  ue_status :: "i32 \<Rightarrow> string result"
  ue_units_rel :: string
  ue_exists :: "string \<Rightarrow> bool"
  ue_make_dir :: "string \<Rightarrow> core_error option"
  ue_remove_dir :: "string \<Rightarrow> core_error option"
  ue_notify :: "core_error option"
  ue_login :: "u8 list \<Rightarrow> string + login_payload"
  ue_logout :: "u8 list \<Rightarrow> string + logout_payload"
  ue_run0 :: "u8 list \<Rightarrow> string + string"

definition u_emit :: "user_effect \<Rightarrow> user_world \<Rightarrow> user_world" where
  "u_emit e w = w\<lparr>uw_out := uw_out w @ [e]\<rparr>"

definition no_pam :: core_error where "no_pam = InvalidState ''pam handle not found''"

section \<open>Running as root\<close>

datatype run0_answer = Run0Valid | Run0Denied | Run0Input

definition perm_run0 :: u16 where "perm_run0 = 1002"

definition parse_i32 :: "string \<Rightarrow> i32 option" where
  "parse_i32 s =
     (case s of
        c # cs \<Rightarrow>
          if c = CHR ''-''
          then (if cs \<noteq> [] \<and> hd cs \<noteq> CHR ''+'' then map_option (\<lambda>n. - of_nat n) (parse_uint (2 ^ 31 + 1) cs) else None)
          else map_option of_nat (parse_uint (2 ^ 31) s)
      | [] \<Rightarrow> None)"

text \<open>The parent in the text of \<^verbatim>\<open>/proc/<pid>/status\<close>; the process itself when there is none.\<close>

definition parent_pid :: "i32 \<Rightarrow> string \<Rightarrow> i32" where
  "parent_pid pid status =
     (case find (starts_with ''PPid:'') (lines status) of
        Some l \<Rightarrow>
          (case split_whitespace l of
             _ # s # _ \<Rightarrow> (case parse_i32 s of Some p \<Rightarrow> p | None \<Rightarrow> pid)
           | _ \<Rightarrow> pid)
      | None \<Rightarrow> pid)"

definition run0_permitted :: "nat \<Rightarrow> perm_store \<Rightarrow> u32 \<Rightarrow> bool option" where
  "run0_permitted fuel pm uid =
     (case user_has fuel pm uid perm_run0 of
        None \<Rightarrow> None
      | Some True \<Rightarrow> Some True
      | Some False \<Rightarrow> map_option (\<lambda>u. user_in_group (ps_users pm) u ''wheel'') (lookup_by_uid (ps_users pm) uid))"

definition the_perms :: "user_world \<Rightarrow> perm_store" where
  "the_perms w = (case uw_perms w of Some pm \<Rightarrow> pm | None \<Rightarrow> ps_new us_default)"

definition handle_ipc_run0 :: "'h user_env \<Rightarrow> ipc_msg \<Rightarrow> user_world \<Rightarrow> (run0_answer result \<times> user_world) option" where
  "handle_ipc_run0 E m w =
     (case (im_from_pid m, im_from_uid m) of
        (Some pid, Some uid) \<Rightarrow>
          (case run0_permitted (ue_fuel E) (the_perms w) uid of
             None \<Rightarrow> None
           | Some False \<Rightarrow> Some (Inl PermissionDenied, w)
           | Some True \<Rightarrow>
               (case ue_status E pid of
                  Inl e \<Rightarrow> Some (Inl e, w)
                | Inr status \<Rightarrow>
                    (let ppid = parent_pid pid status in
                     case uw_queue w of
                       None \<Rightarrow> Some (Inl (InvalidState ''run0 queue state not found in scope''), w)
                     | Some q \<Rightarrow>
                         if (case q ppid of Some t \<Rightarrow> ue_now E - t < ue_timeout E | None \<Rightarrow> False) then Some (Inr Run0Valid, w)
                         else if im_type m = MsgRequestInput then Some (Inr Run0Denied, w)
                         else (case parse_payload (ue_run0 E) m of
                                 Inl _ \<Rightarrow> Some (Inr Run0Input, w)
                               | Inr password \<Rightarrow>
                                   (case uw_pam w of
                                      None \<Rightarrow> Some (Inl no_pam, w)
                                    | Some h \<Rightarrow>
                                        (case lookup_by_uid (ph_store h) uid of
                                           None \<Rightarrow> Some (Inl (Custom ''user not found''), w)
                                         | Some user \<Rightarrow>
                                             (case pam_authenticate (ue_hash E) h (ue_now E) (ue_later E) (ur_username user) password of
                                                (Inl e, h) \<Rightarrow> Some (Inl (PamErr e), w\<lparr>uw_pam := Some h\<rparr>)
                                              | (Inr _, h) \<Rightarrow>
                                                  Some (Inr Run0Valid,
                                                    w\<lparr>uw_pam := Some h, uw_queue := Some (q(ppid \<mapsto> ue_later E))\<rparr>))))))))
      | _ \<Rightarrow> Some (Inl PermissionDenied, w))"

section \<open>Logging in and out\<close>

definition handle_ipc_login :: "'h user_env \<Rightarrow> ipc_msg \<Rightarrow> user_world \<Rightarrow> string result \<times> user_world" where
  "handle_ipc_login E m w =
     (case parse_payload (ue_login E) m of
        Inl e \<Rightarrow> (Inl (Custom e), w)
      | Inr p \<Rightarrow>
          (case uw_pam w of
             None \<Rightarrow> (Inl no_pam, w)
           | Some h \<Rightarrow>
               if lookup_by_name (ph_store h) (lp_username p) = None then (Inl PermissionDenied, w)
               else
                 (case pam_authenticate (ue_hash E) h (ue_now E) (ue_later E) (lp_username p)
                         (case lp_password p of Some pw \<Rightarrow> pw | None \<Rightarrow> []) of
                    (Inl e, h) \<Rightarrow> (Inl (PamErr e), w\<lparr>uw_pam := Some h\<rparr>)
                  | (Inr _, h) \<Rightarrow>
                      (case pam_acct_mgmt h (ue_today E) (lp_username p) of
                         Inl e \<Rightarrow> (Inl (PamErr e), w\<lparr>uw_pam := Some h\<rparr>)
                       | Inr _ \<Rightarrow>
                           (let seat = (if starts_with ''/dev/'' (lp_seat p) then lp_seat p else ''/dev/'' @ lp_seat p) in
                            case pam_open_session h (ue_later E) (lp_username p) seat of
                              (Inl e, h) \<Rightarrow> (Inl (PamErr e), w\<lparr>uw_pam := Some h\<rparr>)
                            | (Inr s, h) \<Rightarrow>
                                (Inr (''logged in successfully as '' @ lp_username p),
                                 u_emit (UDispatch (UserLoginCmd (lp_username p) seat (ss_id s))) (w\<lparr>uw_pam := Some h\<rparr>)))))))"

definition handle_ipc_logout :: "'h user_env \<Rightarrow> ipc_msg \<Rightarrow> user_world \<Rightarrow> string result \<times> user_world" where
  "handle_ipc_logout E m w =
     (case parse_payload (ue_logout E) m of
        Inl e \<Rightarrow> (Inl (Custom e), w)
      | Inr p \<Rightarrow>
          (case uw_pam w of
             None \<Rightarrow> (Inl no_pam, w)
           | Some h \<Rightarrow>
               (case lookup_by_name (ph_store h) (op_username p) of
                  None \<Rightarrow> (Inl PermissionDenied, w)
                | Some user \<Rightarrow>
                    if im_from_uid m \<noteq> Some (ur_uid user) then (Inl PermissionDenied, w)
                    else (case pam_close_session h (op_session_id p) of
                            (Inl e, h) \<Rightarrow> (Inl (PamErr e), w\<lparr>uw_pam := Some h\<rparr>)
                          | (Inr _, h) \<Rightarrow>
                              (Inr (''logged out successfully as '' @ op_username p),
                               u_emit (UDispatch (UserLogoutCmd (op_session_id p) (op_username p) (op_seat p))) (w\<lparr>uw_pam := Some h\<rparr>))))))"

section \<open>The user runtime\<close>

definition user_scope_name :: "string \<Rightarrow> string" where
  "user_scope_name username = ''dyn-user-'' @ username"

definition runtime_dir :: "u32 \<Rightarrow> string" where
  "runtime_dir uid = ''/run/user/'' @ show_nat (unat uid)"

definition user_units_dir :: "'h user_env \<Rightarrow> user_record \<Rightarrow> string" where
  "user_units_dir E user = path_push (ur_home user) (ue_units_rel E)"

definition create_runtime_dir :: "'h user_env \<Rightarrow> user_record \<Rightarrow> user_world \<Rightarrow> unit result \<times> user_world" where
  "create_runtime_dir E user w =
     (let dir = runtime_dir (ur_uid user) in
      if ue_exists E dir then (Inr (), w)
      else (case ue_make_dir E dir of
              Some e \<Rightarrow> (Inl e, w)
            | None \<Rightarrow> (Inr (), u_emit (UMakeDir dir (ur_uid user) (ur_gid user)) w)))"

definition remove_runtime_dir :: "'h user_env \<Rightarrow> user_record \<Rightarrow> pam_handle \<Rightarrow> user_world \<Rightarrow> unit result \<times> user_world" where
  "remove_runtime_dir E user h w =
     (let dir = runtime_dir (ur_uid user) in
      if has_active_session h (ur_username user) \<or> \<not> ue_exists E dir then (Inr (), w)
      else (case ue_remove_dir E dir of Some e \<Rightarrow> (Inl e, w) | None \<Rightarrow> (Inr (), u_emit (URemoveDir dir) w)))"

definition json_of :: "(string \<times> json) list \<Rightarrow> json" where
  "json_of kvs = JObj (fold (\<lambda>(k, v). obj_insert k v) kvs [])"

definition json_u64 :: "u64 \<Rightarrow> json" where "json_u64 n = JNum (show_nat (unat n))"

definition session_key :: ustr where "session_key = ''rind:user_session''"

definition session_json :: "u64 \<Rightarrow> string \<Rightarrow> ustr \<Rightarrow> user_record \<Rightarrow> json" where
  "session_json sid username seat user =
     json_of [(''session_id'', json_u64 sid), (''username'', JStr username), (''seat'', JStr (trim_start_matches ''/dev/'' seat)),
              (''runtime_dir'', JStr (runtime_dir (ur_uid user)))]"

definition user_attrs :: "'h user_env \<Rightarrow> user_record \<Rightarrow> string \<Rightarrow> ustr \<rightharpoonup> string" where
  "user_attrs E user username = [''user'' \<mapsto> username, ''units_dir'' \<mapsto> user_units_dir E user]"

text \<open>The scope of a user, in the wanted scopes, the global store and the store of the registry.\<close>

definition add_user_scope :: "string \<Rightarrow> (ustr \<rightharpoonup> string) \<Rightarrow> user_world \<Rightarrow> user_world" where
  "add_user_scope scope attrs w =
     w\<lparr>uw_desired := (uw_desired w)(scope \<mapsto> \<lparr>si_name = scope, si_attributes = attrs, si_lifetime_state = None\<rparr>),
       uw_global := ss_upsert scope attrs None (uw_global w),
       uw_scopes := map_option (ss_upsert scope attrs None) (uw_scopes w)\<rparr>"

definition request_reload :: "user_world \<Rightarrow> user_world" where
  "request_reload w = w\<lparr>uw_lifecycle := lq_request ReloadUnits (uw_lifecycle w)\<rparr>"

definition notify_user :: "'h user_env \<Rightarrow> user_world \<Rightarrow> unit result \<times> user_world" where
  "notify_user E w =
     (if \<not> uw_notifier w then (Inr (), w)
      else (case ue_notify E of Some e \<Rightarrow> (Inl e, w) | None \<Rightarrow> (Inr (), u_emit UNotify w)))"

definition user_login :: "'h user_env \<Rightarrow> u64 \<Rightarrow> ustr \<Rightarrow> ustr \<Rightarrow> user_world \<Rightarrow> unit result \<times> user_world" where
  "user_login E sid seat username w =
     (case uw_pam w of
        None \<Rightarrow> (Inl no_pam, w)
      | Some h \<Rightarrow>
          (case lookup_by_name (ph_store h) username of
             None \<Rightarrow> (Inl (PamErr UserNotFound), w)
           | Some user \<Rightarrow>
               (let w = u_emit (ULoginEvent Login sid (ur_uid user)) (u_emit (UFlowSet session_key (session_json sid username seat user)) w) in
                case create_runtime_dir E user w of
                  (Inl e, w) \<Rightarrow> (Inl e, w)
                | (Inr _, w) \<Rightarrow>
                    (let scope = user_scope_name username in
                     notify_user E
                       (if ue_exists E (user_units_dir E user) \<and> ss_by_name (uw_global w) scope = None
                        then request_reload (add_user_scope scope (user_attrs E user username) w) else w)))))"

definition session_filter :: "u64 \<Rightarrow> ustr option \<Rightarrow> json" where
  "session_filter sid seat =
     json_of ((''session_id'', json_u64 sid) # (case seat of Some s \<Rightarrow> [(''seat'', JStr s)] | None \<Rightarrow> []))"

definition drop_user_scope :: "string \<Rightarrow> user_world \<Rightarrow> user_world" where
  "drop_user_scope scope w =
     (let w = w\<lparr>uw_desired := (uw_desired w)(scope := None), uw_global := snd (ss_remove_scope scope (uw_global w)),
                uw_scopes := map_option (\<lambda>st. snd (ss_remove_scope scope st)) (uw_scopes w)\<rparr> in
      case uw_graph w of
        None \<Rightarrow> w
      | Some g \<Rightarrow> (case drop_scope scope (g, uw_disks w) of (g, disks) \<Rightarrow> w\<lparr>uw_graph := Some g, uw_disks := disks\<rparr>))"

definition user_logout :: "'h user_env \<Rightarrow> u64 \<Rightarrow> ustr \<Rightarrow> ustr option \<Rightarrow> user_world \<Rightarrow> unit result \<times> user_world" where
  "user_logout E sid username seat w =
     (case uw_pam w of
        None \<Rightarrow> (Inl no_pam, w)
      | Some h \<Rightarrow>
          (case lookup_by_name (ph_store h) username of
             None \<Rightarrow> (Inl (PamErr UserNotFound), w)
           | Some user \<Rightarrow>
               (let w = u_emit (ULoginEvent Logout sid (ur_uid user)) (u_emit (UFlowRemove session_key (session_filter sid seat)) w) in
                case remove_runtime_dir E user h w of
                  (Inl e, w) \<Rightarrow> (Inl e, w)
                | (Inr _, w) \<Rightarrow>
                    notify_user E
                      (if \<not> has_active_session h username then request_reload (drop_user_scope (user_scope_name username) w)
                       else w))))"

text \<open>\<open>get_json_field_as::<String>\<close>\<close>

definition string_field :: "json_lib \<Rightarrow> string \<Rightarrow> flow_payload \<Rightarrow> string option" where
  "string_field L k p = (case get_json_field L k p of Some (JStr s) \<Rightarrow> Some s | _ \<Rightarrow> None)"

text \<open>At start-up the session facets are given new sessions; an error leaves the rest as it is.\<close>

fun reopen_sessions ::
  "'h user_env \<Rightarrow> flow_instance list \<Rightarrow> string list \<Rightarrow> (ustr \<times> (ustr \<rightharpoonup> string)) list \<Rightarrow> pam_handle \<Rightarrow> user_world \<Rightarrow>
   unit result \<times> flow_instance list \<times> (ustr \<times> (ustr \<rightharpoonup> string)) list \<times> pam_handle \<times> user_world" where
  "reopen_sessions E [] seen pend h w = (Inr (), [], pend, h, w)"
| "reopen_sessions E (u # us) seen pend h w =
     (case string_field (ue_lib E) ''username'' (fi_payload u) of
        None \<Rightarrow> (Inl (MissingField ''username''), u # us, pend, h, w)
      | Some username \<Rightarrow>
          (case string_field (ue_lib E) ''seat'' (fi_payload u) of
             None \<Rightarrow> (Inl (MissingField ''seat''), u # us, pend, h, w)
           | Some seat \<Rightarrow>
               (case pam_open_session h (ue_now E) username seat of
                  (Inl e, h) \<Rightarrow> (Inl (PamErr e), u # us, pend, h, w)
                | (Inr s, h) \<Rightarrow>
                    (let u = u\<lparr>fi_payload := payload_set_json (ue_lib E) ''session_id'' (json_u64 (ss_id s)) (fi_payload u)\<rparr> in
                     case lookup_by_name (ph_store h) username of
                       None \<Rightarrow> (Inl (PamErr UserNotFound), u # us, pend, h, w)
                     | Some user \<Rightarrow>
                         (case create_runtime_dir E user w of
                            (Inl e, w) \<Rightarrow> (Inl e, u # us, pend, h, w)
                          | (Inr _, w) \<Rightarrow>
                              (let pend = (if username \<notin> set seen \<and> ue_exists E (user_units_dir E user)
                                           then pend @ [(user_scope_name username, user_attrs E user username)] else pend) in
                               case reopen_sessions E us (hs_insert username seen) pend h w of
                                 (r, us, pend, h, w) \<Rightarrow> (r, u # us, pend, h, w)))))))"

definition create_sessions :: "'h user_env \<Rightarrow> user_world \<Rightarrow> unit result \<times> user_world" where
  "create_sessions E w =
     (case uw_pam w of
        None \<Rightarrow> (Inl no_pam, w)
      | Some h \<Rightarrow>
          (case uw_graph w of
             None \<Rightarrow> (Inl (InvalidState ''state machine store not found''), w)
           | Some g \<Rightarrow>
               (case map_of (fg_facets g) session_key of
                  None \<Rightarrow> (Inr (), w)
                | Some users \<Rightarrow>
                    (case reopen_sessions E users [] [] h w of
                       (r, users, pend, h, w) \<Rightarrow>
                         (let g = g\<lparr>fg_facets := AList.update session_key users (fg_facets g)\<rparr>;
                              w = w\<lparr>uw_pam := Some h, uw_graph := Some g\<rparr> in
                          case r of
                            Inl e \<Rightarrow> (Inl e, w)
                          | Inr _ \<Rightarrow>
                              (case save_all_scopes (ue_persist E) (ue_faults E) g (uw_disks w) of
                                 (saved, g, disks) \<Rightarrow>
                                   (let w = w\<lparr>uw_graph := Some g, uw_disks := disks\<rparr> in
                                    case saved of
                                      Inl e \<Rightarrow> (Inl e, w)
                                    | Inr _ \<Rightarrow>
                                        (let w = fold (\<lambda>(scope, attrs). add_user_scope scope attrs) pend w in
                                         (Inr (), if pend \<noteq> [] then request_reload w else w)))))))))"

end
