(* ===== verification/SessionProps.thy ===== *)
theory SessionProps
  imports Sessions Timers
begin

text \<open>
  Properties of login sessions: who is let in, whose session a logout ends, and who may run commands as
  root without a password.
\<close>

section \<open>Logging in\<close>

definition below_dev :: "string \<Rightarrow> string" where
  "below_dev seat = (if starts_with ''/dev/'' seat then seat else ''/dev/'' @ seat)"

lemma below_dev: "starts_with ''/dev/'' (below_dev seat)"
  by (simp add: below_dev_def starts_with_def)

lemma login_refused:
  assumes "uw_pam w = Some h" and "parse_payload (ue_login E) m = Inr p"
    and "pam_authenticate (ue_hash E) h (ue_now E) (ue_later E) (lp_username p)
      (case lp_password p of Some pw \<Rightarrow> pw | None \<Rightarrow> []) = (Inl e, h1)"
  shows "handle_ipc_login E m w \<in> {(Inl PermissionDenied, w), (Inl (PamErr e), w\<lparr>uw_pam := Some h1\<rparr>)}"
  using assms by (auto simp: handle_ipc_login_def)

text \<open>What becomes of a request whose password was right.\<close>

lemma login_admitted:
  assumes "uw_pam w = Some h" and "parse_payload (ue_login E) m = Inr p" and "lp_username p = u"
    and "pam_authenticate (ue_hash E) h (ue_now E) (ue_later E) u (case lp_password p of Some pw \<Rightarrow> pw | None \<Rightarrow> []) = (Inr user, h1)"
    and "ph_store h1 = ph_store h" "ph_sessions h1 = ph_sessions h" "ph_session_counter h1 = ph_session_counter h"
    and "lookup_by_name (ph_store h) u = Some user" "shadow_for (ph_store h) u = Some shadow" "\<not> is_locked shadow"
    and "s = \<lparr>ss_id = ph_session_counter h, ss_username = u, ss_tty = below_dev (lp_seat p), ss_started_at = ue_later E\<rparr>"
  shows "handle_ipc_login E m w =
    (if is_expired (ue_today E) shadow then (Inl (PamErr AccountExpired), w\<lparr>uw_pam := Some h1\<rparr>)
     else if password_expired (ue_today E) shadow then (Inl (PamErr PasswordExpired), w\<lparr>uw_pam := Some h1\<rparr>)
     else (Inr (''logged in successfully as '' @ u), u_emit (UDispatch (UserLoginCmd u (ss_tty s) (ss_id s)))
       (w\<lparr>uw_pam := Some (h1\<lparr>ph_session_counter := ph_session_counter h + 1,
          ph_sessions := AList.update (ph_session_counter h) s (ph_sessions h)\<rparr>)\<rparr>)))"
  using assms
  by (cases "is_expired (ue_today E) shadow"; cases "password_expired (ue_today E) shadow")
    (simp_all add: handle_ipc_login_def pam_acct_mgmt_def pam_open_session_def below_dev_def Let_def)

text \<open>
  C8. A request to log in succeeds exactly for a known account that is not locked out, whose shadow entry is
  neither locked nor expired, whose password is not due, and whose password is given; then there is one
  more session, with the seat below \<^verbatim>\<open>/dev\<close>, and the user runtime is told. Otherwise no
  session is opened and nothing is dispatched.
\<close>

theorem login_opens_session_iff:
  assumes "uw_pam w = Some h" and "parse_payload (ue_login E) m = Inr p"
    and "pw = (case lp_password p of Some pw \<Rightarrow> pw | None \<Rightarrow> [])"
    and "handle_ipc_login E m w = (r, w')" and "u = lp_username p"
  shows "((\<exists>msg. r = Inr msg) \<longleftrightarrow>
      (\<exists>user shadow. lookup_by_name (ph_store h) u = Some user \<and> shadow_for (ph_store h) u = Some shadow \<and>
         check_lockout h (ue_now E) u = Inr () \<and> \<not> is_locked shadow \<and>
         verify_password (ue_hash E) pw (sh_password_hash shadow) \<and>
         \<not> is_expired (ue_today E) shadow \<and> \<not> password_expired (ue_today E) shadow)) \<and>
    (case r of
       Inl _ \<Rightarrow> map_option ph_sessions (uw_pam w') = Some (ph_sessions h) \<and> uw_out w' = uw_out w
     | Inr _ \<Rightarrow> \<exists>s. map_option ph_sessions (uw_pam w') = Some (AList.update (ph_session_counter h) s (ph_sessions h)) \<and>
         ss_username s = u \<and> starts_with ''/dev/'' (ss_tty s) \<and>
         uw_out w' = uw_out w @ [UDispatch (UserLoginCmd u (ss_tty s) (ph_session_counter h))])"
proof (cases "pam_authenticate (ue_hash E) h (ue_now E) (ue_later E) u pw")
  case (Pair a h1)
  have frame: "ph_store h1 = ph_store h" "ph_sessions h1 = ph_sessions h" "ph_session_counter h1 = ph_session_counter h"
    using pam_authenticate_frame(1,3,4) [where hc = "ue_hash E" and h = h and t = "ue_now E" and t' = "ue_later E" and u = u and pw = pw]
      Pair by auto
  show ?thesis
  proof (cases a)
    case (Inl e)
    have "\<not> (\<exists>user shadow. lookup_by_name (ph_store h) u = Some user \<and> shadow_for (ph_store h) u = Some shadow \<and>
        check_lockout h (ue_now E) u = Inr () \<and> \<not> is_locked shadow \<and> verify_password (ue_hash E) pw (sh_password_hash shadow))"
      using Pair Inl by (auto simp: pam_authenticate_def)
    with login_refused [OF assms(1,2)] Pair Inl assms frame show ?thesis by auto
  next
    case (Inr user)
    with Pair obtain shadow where k: "lookup_by_name (ph_store h) u = Some user" "shadow_for (ph_store h) u = Some shadow"
      "check_lockout h (ue_now E) u = Inr ()" "\<not> is_locked shadow" "verify_password (ue_hash E) pw (sh_password_hash shadow)"
      by (auto simp: pam_authenticate_def split: sum.splits option.splits if_splits)
    let ?s = "\<lparr>ss_id = ph_session_counter h, ss_username = u, ss_tty = below_dev (lp_seat p), ss_started_at = ue_later E\<rparr>"
    note run = login_admitted [OF assms(1,2) assms(5) [symmetric] _ frame k(1,2,4) refl]
    show ?thesis
    proof (cases "is_expired (ue_today E) shadow \<or> password_expired (ue_today E) shadow")
      case True
      with run Pair Inr assms(3,4) have "\<exists>e. r = Inl e" "w' = w\<lparr>uw_pam := Some h1\<rparr>" by (auto split: if_splits)
      with True k frame show ?thesis by auto
    next
      case False
      with run Pair Inr assms(3,4) have r: "r = Inr (''logged in successfully as '' @ u)"
        and w': "uw_out w' = uw_out w @ [UDispatch (UserLoginCmd u (ss_tty ?s) (ph_session_counter h))]"
          "map_option ph_sessions (uw_pam w') = Some (AList.update (ph_session_counter h) ?s (ph_sessions h))"
        by (auto simp: u_emit_def)
      from w' below_dev [of "lp_seat p"] have "\<exists>s. map_option ph_sessions (uw_pam w') = Some (AList.update (ph_session_counter h) s (ph_sessions h)) \<and>
          ss_username s = u \<and> starts_with ''/dev/'' (ss_tty s) \<and>
          uw_out w' = uw_out w @ [UDispatch (UserLoginCmd u (ss_tty s) (ph_session_counter h))]"
        by (intro exI [of _ ?s]) simp
      with r False k show ?thesis by auto
    qed
  qed
qed

section \<open>Logging out\<close>

lemma show_nat_inj: "show_nat a = show_nat b \<longleftrightarrow> a = b"
  by (metis option.inject parse_shown)

lemma json_u64_inj: "json_u64 a = json_u64 b \<longleftrightarrow> a = b"
  by (simp add: json_u64_def show_nat_inj unsigned_word_eqI word_unat_eq_iff)

text \<open>The objects of the library are in key order.\<close>

lemma session_filter_eq:
  "session_filter sid seat =
    (case seat of None \<Rightarrow> JObj [(''session_id'', json_u64 sid)]
     | Some s \<Rightarrow> JObj [(''seat'', JStr s), (''session_id'', json_u64 sid)])"
proof -
  have "''seat'' < ''session_id''" by code_simp
  then show ?thesis by (cases seat) (auto simp: session_filter_def json_of_def dest: order.asym)
qed

lemma session_json_get:
  "session_json sid username seat user = JObj obj \<Longrightarrow>
     map_of obj ''session_id'' = Some (json_u64 sid) \<and> map_of obj ''seat'' = Some (JStr (trim_start_matches ''/dev/'' seat))"
  by (auto simp: session_json_def json_of_def simp del: trim_start_matches.simps)

lemma json_of_wf:
  assumes "\<forall>(k, v) \<in> set kvs. json_wf v"
  shows "json_wf (json_of kvs)"
proof -
  have "sorted_wrt (<) (map fst (fold (\<lambda>(k, v). obj_insert k v) kvs obj)) \<and>
      (\<forall>(k, v) \<in> set (fold (\<lambda>(k, v). obj_insert k v) kvs obj). json_wf v)"
    if "sorted_wrt (<) (map fst obj)" "\<forall>(k, v) \<in> set obj. json_wf v" for obj
    using that assms
  proof (induction kvs arbitrary: obj)
    case (Cons kv kvs)
    obtain k v where kv: "kv = (k, v)" by (cases kv)
    have "sorted_wrt (<) (map fst (obj_insert k v obj))" using Cons.prems(1) by (rule obj_insert_sorted)
    moreover have "\<forall>(k, v) \<in> set (obj_insert k v obj). json_wf v"
      using Cons.prems(2,3) kv by (auto dest!: obj_insert_entries)
    ultimately show ?case using Cons.IH [of "obj_insert k v obj"] Cons.prems(3) by (simp add: kv)
  qed simp
  from this [of "[]"] show ?thesis by (auto simp: json_of_def)
qed

lemma session_json_wf: "json_wf (session_json sid username seat user)"
  unfolding session_json_def by (rule json_of_wf) (simp add: json_u64_def)

text \<open>
  What a logout removes from the session facet: the branches with its session id, and with a seat only
  those whose seat, which is kept without \<^verbatim>\<open>/dev/\<close>, is the same text.
\<close>

lemma session_filter_exact:
  assumes "json_lib_ok L"
  shows "match_operation L (MatchOptions None None (Some (session_filter sid seat)))
      (payload_from_json L (Some (session_json sid' username' seat' user'))) \<longleftrightarrow>
    sid = sid' \<and> (case seat of None \<Rightarrow> True | Some s \<Rightarrow> s = trim_start_matches ''/dev/'' seat')"
proof -
  obtain obj where obj: "session_json sid' username' seat' user' = JObj obj" by (simp add: session_json_def json_of_def)
  have "into_json L (jl_print L (JObj obj)) = JObj obj"
    using session_json_wf [of sid' username' seat' user'] into_json_print [OF assms] by (simp add: obj)
  moreover have n: "subset_match (json_u64 a) (json_u64 b) \<longleftrightarrow> a = b" for a b
    using json_u64_inj [of a b] by (simp add: json_u64_def)
  ultimately show ?thesis using session_json_get [OF obj]
    by (cases seat) (auto simp: obj session_filter_eq subset_match_obj simp del: trim_start_matches.simps)
qed

text \<open>
  C10. A user may end the session of anybody: of the session only its number is asked for, of the user only
  that the name of the request is his own. The session is closed, and what the user runtime is told then
  removes every session facet with this number, whoever it belongs to.
\<close>

theorem logout_closes_any_session:
  assumes "uw_pam w = Some h" and "parse_payload (ue_logout E) m = Inr p"
    and "lookup_by_name (ph_store h) (op_username p) = Some user" and "im_from_uid m = Some (ur_uid user)"
    and "map_of (ph_sessions h) (op_session_id p) = Some s" and "op_seat p = None" and "json_lib_ok L"
  shows "\<exists>w'. handle_ipc_logout E m w = (Inr (''logged out successfully as '' @ op_username p), w') \<and>
    map_option ph_sessions (uw_pam w') = Some (AList.delete (op_session_id p) (ph_sessions h)) \<and>
    uw_out w' = uw_out w @ [UDispatch (UserLogoutCmd (op_session_id p) (op_username p) None)] \<and>
    (\<exists>flter. UFlowRemove session_key flter \<in> set (uw_out (snd (user_logout E (op_session_id p) (op_username p) None w'))) \<and>
       (\<forall>sid' username' seat' user'. match_operation L (MatchOptions None None (Some flter))
          (payload_from_json L (Some (session_json sid' username' seat' user'))) \<longleftrightarrow> sid' = op_session_id p))"
proof -
  let ?h = "h\<lparr>ph_sessions := AList.delete (op_session_id p) (ph_sessions h)\<rparr>"
  let ?w = "u_emit (UDispatch (UserLogoutCmd (op_session_id p) (op_username p) None)) (w\<lparr>uw_pam := Some ?h\<rparr>)"
  have run: "handle_ipc_logout E m w = (Inr (''logged out successfully as '' @ op_username p), ?w)"
    using assms(1-6) by (simp add: handle_ipc_logout_def pam_close_session_def)
  have "lookup_by_name (ph_store ?h) (op_username p) = Some user" using assms(3) by simp
  then have "UFlowRemove session_key (session_filter (op_session_id p) None) \<in>
      set (uw_out (snd (user_logout E (op_session_id p) (op_username p) None ?w)))"
    by (auto simp: user_logout_def u_emit_def Let_def remove_runtime_dir_def notify_user_def request_reload_def drop_user_scope_def
        split: option.split prod.split)
  moreover have "uw_out ?w = uw_out w @ [UDispatch (UserLogoutCmd (op_session_id p) (op_username p) None)]"
    "map_option ph_sessions (uw_pam ?w) = Some (AList.delete (op_session_id p) (ph_sessions h))" by (simp_all add: u_emit_def)
  ultimately show ?thesis using run session_filter_exact [OF assms(7), of "op_session_id p" None]
    by (intro exI [of _ ?w]) (auto simp del: match_operation.simps)
qed

section \<open>Running as root\<close>

lemma run0_queue:
  assumes "handle_ipc_run0 E m w = Some (r, w')" "uw_queue w = Some q" "uw_queue w' \<noteq> Some q"
  shows "\<exists>uid user password h pid status. im_from_uid m = Some uid \<and> parse_payload (ue_run0 E) m = Inr password \<and> uw_pam w = Some h \<and>
    lookup_by_uid (ph_store h) uid = Some user \<and>
    isl (fst (pam_authenticate (ue_hash E) h (ue_now E) (ue_later E) (ur_username user) password)) = False \<and>
    im_from_pid m = Some pid \<and> ue_status E pid = Inr status \<and> uw_queue w' = Some (q(parent_pid pid status \<mapsto> ue_later E))"
  using assms
  by (auto simp: handle_ipc_run0_def Let_def split: option.splits bool.splits sum.splits prod.splits if_splits)

text \<open>
  C9. An authentication is remembered for the parent of the process that asked, not for the user: while it
  lasts, every permitted user runs commands as root without a password from any process with the same
  parent.
\<close>

theorem run0_shared_by_parent:
  assumes "handle_ipc_run0 E m w = Some (r, w1)" and "uw_queue w = Some q" and "uw_queue w1 \<noteq> Some q"
    and "im_from_pid m = Some pid" and "ue_status E pid = Inr status"
    and "im_from_pid m2 = Some pid2" and "ue_status E2 pid2 = Inr status2" and "parent_pid pid2 status2 = parent_pid pid status"
    and "im_from_uid m2 = Some uid2" and "run0_permitted (ue_fuel E2) (the_perms w2) uid2 = Some True"
    and "uw_queue w2 = uw_queue w1" and "ue_now E2 - ue_later E < ue_timeout E2"
  shows "(\<exists>uid user password h. im_from_uid m = Some uid \<and> parse_payload (ue_run0 E) m = Inr password \<and> uw_pam w = Some h \<and>
      lookup_by_uid (ph_store h) uid = Some user \<and>
      \<not> isl (fst (pam_authenticate (ue_hash E) h (ue_now E) (ue_later E) (ur_username user) password))) \<and>
    handle_ipc_run0 E2 m2 w2 = Some (Inr Run0Valid, w2)"
proof -
  from run0_queue [OF assms(1-3)] obtain uid user password h where
    k: "im_from_uid m = Some uid" "parse_payload (ue_run0 E) m = Inr password" "uw_pam w = Some h"
      "lookup_by_uid (ph_store h) uid = Some user"
      "\<not> isl (fst (pam_authenticate (ue_hash E) h (ue_now E) (ue_later E) (ur_username user) password))"
    and q: "uw_queue w1 = Some (q(parent_pid pid status \<mapsto> ue_later E))"
    using assms(4,5) by auto
  have "handle_ipc_run0 E2 m2 w2 = Some (Inr Run0Valid, w2)"
    using assms(6-12) q by (simp add: handle_ipc_run0_def Let_def)
  with k show ?thesis by blast
qed

section \<open>Witnesses\<close>

definition plain_user :: "string \<Rightarrow> u32 \<Rightarrow> user_record" where
  "plain_user name uid = \<lparr>ur_username = name, ur_uid = uid, ur_gid = 100, ur_gecos = [], ur_home = ''/home/'' @ name, ur_shell = ''/bin/sh'',
     ur_permissions = []\<rparr>"

definition plain_shadow :: "string \<Rightarrow> shadow_entry" where
  "plain_shadow name = \<lparr>sh_username = name, sh_password_hash = ''$6$'' @ name, sh_last_changed = None, sh_min_days = None,
     sh_max_days = None, sh_warn_days = None, sh_inactive_days = None, sh_expire_date = None\<rparr>"

text \<open>Two users of the group \<open>wheel\<close>.\<close>

definition two_users :: user_store where
  "two_users = \<lparr>us_users = [plain_user ''ann'' 1000, plain_user ''bob'' 1001], us_shadows = [plain_shadow ''ann'', plain_shadow ''bob''],
     us_groups = [\<lparr>ge_name = ''wheel'', ge_gid = 100, ge_members = [''ann'', ''bob''], ge_permissions = []\<rparr>],
     us_name_index = [''ann'' \<mapsto> 0, ''bob'' \<mapsto> 1], us_uid_index = [1000 \<mapsto> 0, 1001 \<mapsto> 1]\<rparr>"

definition demo_user_env :: "unit user_env" where
  "demo_user_env =
     \<lparr>ue_hash = \<lparr>hc_sha512_check = (\<lambda>pw h. pw = ''pw''), hc_sha256_check = (\<lambda>_ _. False), hc_yescrypt_parse = (\<lambda>_. None),
        hc_yescrypt_verify = (\<lambda>_ _. False)\<rparr>,
      ue_lib = demo_lib, ue_persist = \<lparr>pe_crc = (\<lambda>_. 0), pe_enc = (\<lambda>_. Inr []), pe_dec = (\<lambda>_. Inl []), pe_keys = (\<lambda>_. []),
        pe_ienc = (\<lambda>_. []), pe_idec = (\<lambda>_. None)\<rparr>, ue_faults = (\<lambda>_ _. None), ue_fuel = 5, ue_timeout = 300, ue_now = 10, ue_later = 11,
      ue_today = 0, ue_status = (\<lambda>_. Inr ''PPid: 1''), ue_units_rel = ''.local'', ue_exists = (\<lambda>_. False),
      ue_make_dir = (\<lambda>_. None), ue_remove_dir = (\<lambda>_. None), ue_notify = None,
      ue_login = (\<lambda>b. Inr \<lparr>lp_username = ''ann'', lp_password = Some ''pw'', lp_seat = ''tty1''\<rparr>),
      ue_logout = (\<lambda>b. Inr \<lparr>op_username = ''ann'', op_session_id = of_nat (length b), op_seat = None\<rparr>),
      ue_run0 = (\<lambda>b. Inr ''pw'')\<rparr>"

definition demo_pam :: pam_handle where
  "demo_pam = (ph_new two_users)\<lparr>ph_sessions := [(2, \<lparr>ss_id = 2, ss_username = ''bob'', ss_tty = ''/dev/tty2'', ss_started_at = 0\<rparr>)]\<rparr>"

definition user_start :: user_world where
  "user_start = \<lparr>uw_pam = Some demo_pam, uw_perms = Some (ps_new two_users), uw_queue = Some Map.empty, uw_graph = None, uw_disks = [],
     uw_scopes = None, uw_global = ss_default, uw_desired = Map.empty, uw_lifecycle = [], uw_notifier = False,
     uw_reload_static = False, uw_out = []\<rparr>"

definition request_by :: "u32 \<Rightarrow> u8 list \<Rightarrow> ipc_msg" where
  "request_by uid p = msg_default\<lparr>im_payload := Some p, im_from_uid := Some uid, im_from_pid := Some 7\<rparr>"

lemma two_users_lookup:
  "lookup_by_name (ph_store demo_pam) ''ann'' = Some (plain_user ''ann'' 1000)" "ph_lockouts demo_pam = Map.empty"
  "shadow_for (ph_store demo_pam) ''ann'' = Some (plain_shadow ''ann'')"
  by (simp_all add: demo_pam_def ph_new_def ph_with_config_def two_users_def lookup_by_name_def shadow_for_def plain_shadow_def)

lemma login_opens_session_iff_witness:
  "\<exists>msg w'. handle_ipc_login demo_user_env (request_by 0 []) user_start = (Inr msg, w')"
proof -
  obtain r w' where run: "handle_ipc_login demo_user_env (request_by 0 []) user_start = (r, w')" by fastforce
  have s: "uw_pam user_start = Some demo_pam" by (simp add: user_start_def)
  have p: "parse_payload (ue_login demo_user_env) (request_by 0 []) = Inr \<lparr>lp_username = ''ann'', lp_password = Some ''pw'', lp_seat = ''tty1''\<rparr>"
    by (simp add: parse_payload_def request_by_def demo_user_env_def)
  from login_opens_session_iff [OF s p refl run refl] have "\<exists>msg. r = Inr msg"
    by (simp add: two_users_lookup check_lockout_def is_locked_def plain_shadow_def verify_password_def starts_with_def
        demo_user_env_def is_expired_def password_expired_def)
  with run show ?thesis by blast
qed

lemma logout_closes_any_session_witness:
  "\<exists>msg w'. handle_ipc_logout demo_user_env (request_by 1000 [0, 0]) user_start = (Inr msg, w') \<and> map_option ph_sessions (uw_pam w') = Some []"
proof -
  have s: "uw_pam user_start = Some demo_pam" by (simp add: user_start_def)
  have p: "parse_payload (ue_logout demo_user_env) (request_by 1000 [0, 0]) = Inr \<lparr>op_username = ''ann'', op_session_id = 2, op_seat = None\<rparr>"
    by (simp add: parse_payload_def request_by_def demo_user_env_def)
  have "ph_sessions demo_pam = [(2, \<lparr>ss_id = 2, ss_username = ''bob'', ss_tty = ''/dev/tty2'', ss_started_at = 0\<rparr>)]"
    by (simp add: demo_pam_def)
  then show ?thesis using logout_closes_any_session [OF s p, of "plain_user ''ann'' 1000" "\<lparr>ss_id = 2, ss_username = ''bob'',
      ss_tty = ''/dev/tty2'', ss_started_at = 0\<rparr>" demo_lib] demo_lib_ok
    by (simp add: two_users_lookup plain_user_def request_by_def) blast
qed

lemma run0_perms: "handle_ipc_run0 E m w = Some (r, w') \<Longrightarrow> uw_perms w' = uw_perms w"
  by (auto simp: handle_ipc_run0_def Let_def split: option.splits bool.splits sum.splits prod.splits if_splits)

lemma run0_shared_by_parent_witness:
  "\<exists>w1. handle_ipc_run0 demo_user_env (request_by 1000 []) user_start = Some (Inr Run0Valid, w1) \<and>
     handle_ipc_run0 demo_user_env ((request_by 1001 [])\<lparr>im_payload := None, im_from_pid := Some 8\<rparr>) w1 = Some (Inr Run0Valid, w1)"
proof -
  let ?m2 = "(request_by 1001 [])\<lparr>im_payload := None, im_from_pid := Some 8\<rparr>"
  have "map_option (\<lambda>(r, w). (case r of Inr Run0Valid \<Rightarrow> True | _ \<Rightarrow> False, map_option (\<lambda>q. q 1) (uw_queue w)))
      (handle_ipc_run0 demo_user_env (request_by 1000 []) user_start) = Some (True, Some (Some 11))"
    by code_simp
  then obtain r w1 where r: "handle_ipc_run0 demo_user_env (request_by 1000 []) user_start = Some (r, w1)"
    and valid: "case r of Inr Run0Valid \<Rightarrow> True | _ \<Rightarrow> False" and q: "map_option (\<lambda>q. q 1) (uw_queue w1) = Some (Some 11)"
    by auto
  from valid have "r = Inr Run0Valid" by (cases r) (auto split: run0_answer.splits)
  with r have w1: "handle_ipc_run0 demo_user_env (request_by 1000 []) user_start = Some (Inr Run0Valid, w1)" by simp
  have start: "uw_queue user_start = Some Map.empty" "uw_queue w1 \<noteq> Some Map.empty" using q by (auto simp: user_start_def)
  have "the_perms w1 = ps_new two_users" using run0_perms [OF w1] by (simp add: the_perms_def user_start_def)
  moreover have "run0_permitted 5 (ps_new two_users) 1001 = Some True" by code_simp
  ultimately have p: "run0_permitted (ue_fuel demo_user_env) (the_perms w1) 1001 = Some True" by (simp add: demo_user_env_def)
  have st: "im_from_pid (request_by 1000 []) = Some 7" "ue_status demo_user_env 7 = Inr ''PPid: 1''" "im_from_pid ?m2 = Some 8"
    "ue_status demo_user_env 8 = Inr ''PPid: 1''" "parent_pid 8 ''PPid: 1'' = parent_pid 7 ''PPid: 1''" "im_from_uid ?m2 = Some 1001"
    by (simp_all add: request_by_def demo_user_env_def) code_simp
  have "ue_now demo_user_env - ue_later demo_user_env < ue_timeout demo_user_env" by (simp add: demo_user_env_def)
  from run0_shared_by_parent [OF w1 start st p refl this] w1 show ?thesis by blast
qed

end
