(* ===== verification/IpcServer.thy ===== *)
theory IpcServer
  imports SessionProps Sockets
begin

text \<open>
  The requests of clients, \<^verbatim>\<open>crates/cfg/src/ipc.rs\<close> and the table of handlers of
  \<^verbatim>\<open>crates/ipc/src/recv.rs\<close>: which handler answers an action and who may ask for it, the
  requests about scopes and the life cycle of the system, and a connection from its first byte to its
  last. The handlers of the other components are modelled there; here they are an argument.
\<close>

section \<open>The table of handlers\<close>

datatype ipc_handler =
    HLogin | HLogout | HRun0 | HStart | HStop | HStartSocket | HStopSocket | HStartUnknown | HStopUnknown | HList | HSet | HRemove
  | HCreateScope | HDestroyScope | HShowPermissions | HGrant | HRevoke | HReloadUnits | HReboot | HSoftReboot | HShutdown

type_synonym ipc_sources = "(string \<times> ipc_handler \<times> perm_expr) list"

definition ipc_register :: "string \<Rightarrow> ipc_handler \<Rightarrow> perm_expr \<Rightarrow> ipc_sources \<Rightarrow> ipc_sources" where
  "ipc_register action handler perms src = AList.update action (handler, perms) src"

definition perm_login :: u16 where "perm_login = 1001"

definition init_actions :: "ipc_sources \<Rightarrow> ipc_sources" where
  "init_actions src =
     fold (\<lambda>(action, handler, perms). ipc_register action handler perms)
       [(''login'', HLogin, PPerm perm_login), (''logout'', HLogout, PAll), (''run0'', HRun0, PAll),
        (''start_service'', HStart, PAll), (''stop_service'', HStop, PAll),
        (''start_socket'', HStartSocket, PAll), (''stop_socket'', HStopSocket, PAll),
        (''start'', HStartUnknown, PAll), (''stop'', HStopUnknown, PAll), (''show'', HList, PAll),
        (''set_variable'', HSet, PAll), (''remove_variable'', HRemove, PAll),
        (''create_scope'', HCreateScope, PAll), (''destroy_scope'', HDestroyScope, PAll),
        (''show_permissions'', HShowPermissions, PAll), (''grant_permission'', HGrant, PRootOnly),
        (''revoke_permission'', HRevoke, PRootOnly), (''reload_units'', HReloadUnits, PAll), (''reboot'', HReboot, PAll),
        (''soft_reboot'', HSoftReboot, PAll), (''shutdown'', HShutdown, PAll)] src"

section \<open>Scopes and the life cycle\<close>

record scope_payload =
  sp_scope :: string
  sp_lifetime :: "string option"
  sp_attributes :: "string \<rightharpoonup> string"

record 'h server_env =
  sv_user :: "'h user_env"
  sv_codec :: ipc_codec
  sv_errno :: "int \<Rightarrow> string"
  sv_debug :: "string \<Rightarrow> string"
  sv_load_errors :: load_errors
  sv_svc :: svc_env
  sv_write :: "string \<Rightarrow> u8 list \<Rightarrow> string + unit"
  sv_perm_path :: string
  sv_ss :: "u8 list \<Rightarrow> string + ss_payload"
  sv_perm :: "u8 list \<Rightarrow> string + perm_payload"
  sv_create :: "u8 list \<Rightarrow> string + scope_payload"
  sv_destroy :: "u8 list \<Rightarrow> string + string"
  sv_bool :: "u8 list \<Rightarrow> string + bool"
  sv_list :: "ipc_handler \<Rightarrow> ipc_msg \<Rightarrow> user_world \<Rightarrow> ipc_msg result"
  sv_extension :: "string \<Rightarrow> ipc_msg \<Rightarrow> user_world \<Rightarrow> ipc_msg result \<times> user_world"
  sv_has_heap :: bool

definition from_root :: "ipc_msg \<Rightarrow> bool" where
  "from_root m \<longleftrightarrow> (case im_from_uid m of Some uid \<Rightarrow> uid | None \<Rightarrow> 0xFFFFFFFF) = 0"

definition handle_ipc_create_scope :: "'h server_env \<Rightarrow> ipc_msg \<Rightarrow> user_world \<Rightarrow> ipc_msg result \<times> user_world" where
  "handle_ipc_create_scope S m w =
     (if \<not> from_root m then (Inl PermissionDenied, w)
      else (case parse_payload (sv_create S) m of
              Inl e \<Rightarrow> (Inl (Custom e), w)
            | Inr p \<Rightarrow>
                (let scope = trim (sp_scope p) in
                 if scope = [] \<or> scope = ''static'' then (Inl (Custom ''invalid scope name''), w)
                 else (let life = sp_lifetime p; attrs = sp_attributes p;
                           w = w\<lparr>uw_global := ss_upsert scope attrs life (uw_global w),
                                 uw_desired := (uw_desired w)(scope \<mapsto>
                                   \<lparr>si_name = scope, si_attributes = attrs, si_lifetime_state = life\<rparr>),
                                 uw_scopes := map_option (ss_upsert scope attrs life) (uw_scopes w),
                                 uw_graph := map_option (\<lambda>g. snd (load_scope_from_persistence (ue_persist (sv_user S))
                                   (sv_load_errors S) (uw_disks w) scope g)) (uw_graph w)\<rparr>
                       in (Inr (msg_ok (sv_codec S) ''scope created''), request_reload w)))))"

definition handle_ipc_destroy_scope :: "'h server_env \<Rightarrow> ipc_msg \<Rightarrow> user_world \<Rightarrow> ipc_msg result \<times> user_world" where
  "handle_ipc_destroy_scope S m w =
     (if \<not> from_root m then (Inl PermissionDenied, w)
      else (case parse_payload (sv_destroy S) m of
              Inl e \<Rightarrow> (Inl (Custom e), w)
            | Inr p \<Rightarrow>
                (let scope = trim p in
                 if scope = [] \<or> scope = ''static'' then (Inl (Custom ''invalid scope name''), w)
                 else (Inr (msg_ok (sv_codec S) ''scope destroyed''), request_reload (drop_user_scope scope w)))))"

definition queue_lifecycle_action ::
  "'h server_env \<Rightarrow> ipc_msg \<Rightarrow> lifecycle_action \<Rightarrow> string \<Rightarrow> user_world \<Rightarrow> ipc_msg result \<times> user_world" where
  "queue_lifecycle_action S m act response w =
     (if \<not> from_root m then (Inl PermissionDenied, w)
      else (Inr (msg_ok (sv_codec S) response), w\<lparr>uw_lifecycle := lq_request act (uw_lifecycle w)\<rparr>))"

definition handle_ipc_reload_units :: "'h server_env \<Rightarrow> ipc_msg \<Rightarrow> user_world \<Rightarrow> ipc_msg result \<times> user_world" where
  "handle_ipc_reload_units S m w =
     queue_lifecycle_action S m ReloadUnits ''unit reload scheduled''
       (if (case parse_payload (sv_bool S) m of Inr b \<Rightarrow> b | Inl _ \<Rightarrow> False) then w\<lparr>uw_reload_static := True\<rparr> else w)"

section \<open>One request\<close>

definition run0_message :: "'h server_env \<Rightarrow> run0_answer \<Rightarrow> ipc_msg" where
  "run0_message S a =
     (case a of
        Run0Valid \<Rightarrow> msg_from_type MsgValid
      | Run0Denied \<Rightarrow> msg_with_string (sv_codec S) (error_text (sv_errno S) PermissionDenied) (msg_from_type MsgError)
      | Run0Input \<Rightarrow> msg_from_type MsgRequestInput)"

definition text_answer :: "'h server_env \<Rightarrow> string result \<times> user_world \<Rightarrow> ipc_msg result \<times> user_world" where
  "text_answer S rw = (case rw of (Inl e, w) \<Rightarrow> (Inl e, w) | (Inr s, w) \<Rightarrow> (Inr (msg_ok (sv_codec S) s), w))"

text \<open>A request about a service or a socket: what it request_by of the other runtimes is sent to them.\<close>

definition service_request ::
  "'h server_env \<Rightarrow> (nat \<Rightarrow> svc_env \<Rightarrow> perm_store \<Rightarrow> ss_payload result \<Rightarrow> u32 option \<Rightarrow> (unit result \<times> svc_cmd list) option) \<Rightarrow>
   string \<Rightarrow> ipc_msg \<Rightarrow> user_world \<Rightarrow> (ipc_msg result \<times> user_world) option" where
  "service_request S handler verb m w =
     (let parsed = parse_payload (sv_ss S) m in
      map_option (\<lambda>(r, cmds).
          (case r of Inl e \<Rightarrow> Inl e
           | Inr _ \<Rightarrow> Inr (msg_ok (sv_codec S) (verb @ (case parsed of Inr p \<Rightarrow> ss_name p | Inl _ \<Rightarrow> []))),
           fold (\<lambda>c. u_emit (UCommand c)) cmds w))
        (handler (ue_fuel (sv_user S)) (sv_svc S) (the_perms w)
           (case parsed of Inl e \<Rightarrow> Inl (Custom e) | Inr p \<Rightarrow> Inr p) (im_from_uid m)))"

definition handle_ipc_life :: "'h server_env \<Rightarrow> string \<Rightarrow> ipc_msg \<Rightarrow> user_world \<Rightarrow> ipc_msg result \<times> user_world" where
  "handle_ipc_life S act m w =
     (case parse_payload (sv_ss S) m of
        Inl e \<Rightarrow> (Inl (Custom e), w)
      | Inr _ \<Rightarrow> sv_extension S act m w)"

definition change_permission :: "'h server_env \<Rightarrow> bool \<Rightarrow> ipc_msg \<Rightarrow> user_world \<Rightarrow> ipc_msg result \<times> user_world" where
  "change_permission S grant m w =
     (case uw_perms w of
        None \<Rightarrow> (Inl RuntimeStopped, w)
      | Some pm \<Rightarrow>
          (case grant_ungrant_ipc (sv_write S) (sv_perm_path S) (parse_payload (sv_perm S) m) grant pm of
             (r, pm) \<Rightarrow> text_answer S (r, w\<lparr>uw_perms := Some pm\<rparr>)))"

definition handle_ipc_set :: "'h server_env \<Rightarrow> user_world \<Rightarrow> ipc_msg result \<times> user_world" where
  "handle_ipc_set S w =
     (if sv_has_heap S then Inr msg_default else Inl (Custom ''Failed to get variable heap''), w)"

definition run_handler :: "'h server_env \<Rightarrow> ipc_handler \<Rightarrow> ipc_msg \<Rightarrow> user_world \<Rightarrow> (ipc_msg result \<times> user_world) option" where
  "run_handler S h m w =
     (case h of
        HLogin \<Rightarrow> Some (text_answer S (handle_ipc_login (sv_user S) m w))
      | HLogout \<Rightarrow> Some (text_answer S (handle_ipc_logout (sv_user S) m w))
      | HRun0 \<Rightarrow> map_option (\<lambda>(r, w). (map_sum id (run0_message S) r, w)) (handle_ipc_run0 (sv_user S) m w)
      | HStart \<Rightarrow> service_request S handle_ipc_start ''started '' m w
      | HStop \<Rightarrow> service_request S handle_ipc_stop ''stopped '' m w
      | HStartSocket \<Rightarrow> service_request S handle_ipc_start_socket ''started socket '' m w
      | HStopSocket \<Rightarrow> service_request S handle_ipc_stop_socket ''stopped socket '' m w
      | HStartUnknown \<Rightarrow> Some (handle_ipc_life S ''start'' m w)
      | HStopUnknown \<Rightarrow> Some (handle_ipc_life S ''stop'' m w)
      | HSet \<Rightarrow> Some (handle_ipc_set S w)
      | HRemove \<Rightarrow> Some (Inr msg_default, w)
      | HCreateScope \<Rightarrow> Some (handle_ipc_create_scope S m w)
      | HDestroyScope \<Rightarrow> Some (handle_ipc_destroy_scope S m w)
      | HGrant \<Rightarrow> Some (change_permission S True m w)
      | HRevoke \<Rightarrow> Some (change_permission S False m w)
      | HReloadUnits \<Rightarrow> Some (handle_ipc_reload_units S m w)
      | HReboot \<Rightarrow> Some (queue_lifecycle_action S m Reboot ''reboot scheduled'' w)
      | HSoftReboot \<Rightarrow> Some (queue_lifecycle_action S m SoftReboot ''soft reboot scheduled'' w)
      | HShutdown \<Rightarrow> Some (queue_lifecycle_action S m Shutdown ''shutdown scheduled'' w)
      | HList \<Rightarrow> Some (sv_list S h m w, w)
      | HShowPermissions \<Rightarrow> Some (sv_list S h m w, w))"

definition handle_ipc_message ::
  "'h server_env \<Rightarrow> ipc_sources \<Rightarrow> ipc_msg \<Rightarrow> user_world \<Rightarrow> (ipc_msg \<times> user_world) option" where
  "handle_ipc_message S src m w =
     (case map_of src (im_action m) of
        None \<Rightarrow> Some (msg_err (sv_codec S) (''Message handler not found: '' @ sv_debug S (im_action m)), w)
      | Some (handler, perms) \<Rightarrow>
          (case (if perms = PAll then Some True
                 else user_check (ue_fuel (sv_user S)) (the_perms w) (case im_from_uid m of Some uid \<Rightarrow> uid | None \<Rightarrow> 0) perms) of
             None \<Rightarrow> None
           | Some False \<Rightarrow> Some (msg_err (sv_codec S) ''Permission Denied'', w)
           | Some True \<Rightarrow>
               (case run_handler S handler m w of
                  None \<Rightarrow> None
                | Some (Inr reply, w) \<Rightarrow> Some (reply, w)
                | Some (Inl e, w) \<Rightarrow> Some (msg_err (sv_codec S) (''IPC handler failed: '' @ error_text (sv_errno S) e), w))))"


section \<open>What a client that is not root can do\<close>

text \<open>The scopes, the facets, the permissions and what the system is asked to do next.\<close>

definition same_system :: "user_world \<Rightarrow> user_world \<Rightarrow> bool" where
  "same_system v w \<longleftrightarrow> uw_lifecycle w = uw_lifecycle v \<and> uw_global w = uw_global v \<and> uw_scopes w = uw_scopes v \<and>
     uw_desired w = uw_desired v \<and> uw_graph w = uw_graph v \<and> uw_disks w = uw_disks v \<and> uw_perms w = uw_perms v"

text \<open>The effects from one world to a later one, when all of them satisfy a condition.\<close>

definition only_emits :: "(user_effect \<Rightarrow> bool) \<Rightarrow> user_world \<Rightarrow> user_world \<Rightarrow> bool" where
  "only_emits P v w \<longleftrightarrow> (\<exists>es. uw_out w = uw_out v @ es \<and> list_all P es)"

lemma same_system_refl [simp]: "same_system w w"
  by (simp add: same_system_def)


lemma only_emits_refl [simp]: "only_emits P w w"
  by (simp add: only_emits_def)


lemma only_emits_one: "uw_out w = uw_out v @ [e] \<Longrightarrow> P e \<Longrightarrow> only_emits P v w"
  by (simp add: only_emits_def)


text \<open>
  A course of worlds in which the server itself keeps to that; what an extension does that
  answers a request for a unit of its own is its own affair.
\<close>

inductive confined :: "'h server_env \<Rightarrow> (user_effect \<Rightarrow> bool) \<Rightarrow> user_world \<Rightarrow> user_world \<Rightarrow> bool"
  for S :: "'h server_env" and P :: "user_effect \<Rightarrow> bool" where
  own: "same_system v w \<Longrightarrow> only_emits P v w \<Longrightarrow> confined S P v w"
| extension: "confined S P v (snd (sv_extension S act m v))"
| further: "confined S P u v \<Longrightarrow> confined S P v w \<Longrightarrow> confined S P u w"





















text \<open>
  The mark that makes the next reload renew the static units as well is set before the caller is looked
  at. So any user can have them renewed: the request is refused, but his own next logout from his last
  session request_by for the reload.
\<close>

theorem anyone_renews_static_units:
  assumes "parse_payload (sv_bool S) m = Inr True" and "im_from_uid m = Some uid" and "uid \<noteq> 0"
    and "im_action m = ''reload_units''"
    and "uw_pam w = Some h" and "lookup_by_name (ph_store h) username = Some user" and "\<not> has_active_session h username"
    and "ur_username user = username" and "uw_notifier w = False" and "ue_remove_dir (sv_user S) (runtime_dir (ur_uid user)) = None"
  shows "\<exists>v v'. handle_ipc_message S (init_actions []) m w =
      Some (msg_err (sv_codec S) (''IPC handler failed: '' @ error_text (sv_errno S) PermissionDenied), v) \<and>
    uw_reload_static v \<and>
    user_logout (sv_user S) sid username None v = (Inr (), v') \<and>
    uw_reload_static v' \<and> uw_lifecycle v' = uw_lifecycle w @ [ReloadUnits]"
proof -
  have a: "map_of (init_actions []) ''reload_units'' = Some (HReloadUnits, PAll)"
    by (simp add: init_actions_def ipc_register_def)
  let ?v = "w\<lparr>uw_reload_static := True\<rparr>"
  have m: "handle_ipc_message S (init_actions []) m w =
      Some (msg_err (sv_codec S) (''IPC handler failed: '' @ error_text (sv_errno S) PermissionDenied), ?v)"
    using a assms(1-4) by (simp add: handle_ipc_message_def run_handler_def handle_ipc_reload_units_def queue_lifecycle_action_def from_root_def)
  have d: "uw_reload_static (drop_user_scope n v) = uw_reload_static v" "uw_lifecycle (drop_user_scope n v) = uw_lifecycle v"
      "uw_notifier (drop_user_scope n v) = uw_notifier v" for n v
    by (simp_all add: drop_user_scope_def Let_def split: option.split prod.split)
  obtain r v1 where rm: "remove_runtime_dir (sv_user S) user h
      (u_emit (ULoginEvent Logout sid (ur_uid user)) (u_emit (UFlowRemove session_key (session_filter sid None)) ?v)) = (r, v1)" by fastforce
  have v1: "r = Inr ()" "uw_reload_static v1" "uw_lifecycle v1 = uw_lifecycle w" "uw_notifier v1 = False"
    using rm assms(9,10) by (auto simp: remove_runtime_dir_def u_emit_def Let_def split: if_splits)
  let ?v' = "request_reload (drop_user_scope (user_scope_name username) v1)"
  have l: "user_logout (sv_user S) sid username None ?v = (Inr (), ?v')"
    using assms(5-7) rm v1 d by (simp add: user_logout_def notify_user_def request_reload_def)
  have "uw_reload_static ?v'" "uw_lifecycle ?v' = uw_lifecycle w @ [ReloadUnits]"
    using v1 d by (simp_all add: request_reload_def lq_request_def)
  with m l show ?thesis by (intro exI [of _ ?v] exI [of _ ?v']) simp
qed

section \<open>Witnesses\<close>


definition demo_server :: "unit server_env" where
  "demo_server =
     \<lparr>sv_user = demo_user_env, sv_codec = demo_codec, sv_errno = (\<lambda>_. []), sv_debug = id,
      sv_load_errors = (\<lambda>_. (None, None)), sv_svc = demo_svc [(plain_service ''a'')\<lparr>sm_space := SpaceUser\<rparr>],
      sv_write = (\<lambda>_ _. Inr ()), sv_perm_path = [], sv_ss = (\<lambda>_. Inr \<lparr>ss_name = ''g:a'', ss_force = False, ss_persist = False\<rparr>),
      sv_perm = (\<lambda>_. Inl []), sv_create = (\<lambda>_. Inl []), sv_destroy = (\<lambda>_. Inl []), sv_bool = (\<lambda>_. Inr True),
      sv_list = (\<lambda>_ _ _. Inl UnknownError), sv_extension = (\<lambda>_ _ w. (Inl UnknownError, w)), sv_has_heap = True\<rparr>"





lemma anyone_renews_static_units_witness:
  "\<exists>v v'. handle_ipc_message demo_server (init_actions []) ((request_by 1000 [])\<lparr>im_action := ''reload_units''\<rparr>) user_start =
      Some (msg_err demo_codec (''IPC handler failed: '' @ error_text (\<lambda>_. []) PermissionDenied), v) \<and>
    user_logout demo_user_env 1 ''ann'' None v = (Inr (), v') \<and> uw_reload_static v' \<and> uw_lifecycle v' = [ReloadUnits]"
proof -
  have "parse_payload (sv_bool demo_server) ((request_by 1000 [])\<lparr>im_action := ''reload_units''\<rparr>) = Inr True"
    by (simp add: parse_payload_def request_by_def demo_server_def)
  moreover have "uw_pam user_start = Some demo_pam" by (simp add: user_start_def)
  moreover have "\<not> has_active_session demo_pam ''ann''" by code_simp
  ultimately show ?thesis
    using anyone_renews_static_units [of demo_server "(request_by 1000 [])\<lparr>im_action := ''reload_units''\<rparr>" 1000 user_start demo_pam "''ann''"
        "plain_user ''ann'' 1000" 1] two_users_lookup(1)
    by (simp add: demo_server_def request_by_def plain_user_def user_start_def demo_user_env_def) blast
qed

end
