(* ===== verification/Extensions.thy ===== *)
theory Extensions
  imports Prelude "HOL-Library.Multiset" "HOL-Library.List_Lexorder" "HOL-Library.Char_ord"
begin

text \<open>
  Where plugins join in: the extension points of \<^verbatim>\<open>crates/core/src/extensions.rs\<close> and the
  hooks of \<^verbatim>\<open>crates/core/src/hooks.rs\<close>, commands that run at points of the boot.
\<close>

section \<open>Extension points\<close>

text \<open>The extensions of one type, in the order of registration; a type without any has the empty list.\<close>

record 'v extensions =
  xn_enquire :: "(string \<Rightarrow> 'v result) list"
  xn_act :: "(string \<Rightarrow> 'v \<Rightarrow> unit result \<times> 'v) list"
  xn_resolve :: "(string \<Rightarrow> 'v \<Rightarrow> 'v result) list"

datatype 'v extension =
    ExtEnquire "string \<Rightarrow> 'v result"
  | ExtAct "string \<Rightarrow> 'v \<Rightarrow> unit result \<times> 'v"
  | ExtResolve "string \<Rightarrow> 'v \<Rightarrow> 'v result"

definition ext_none :: "'v extensions" where
  "ext_none = \<lparr>xn_enquire = [], xn_act = [], xn_resolve = []\<rparr>"

fun enquire_each :: "(string \<Rightarrow> 'v result) list \<Rightarrow> string \<Rightarrow> 'v list result" where
  "enquire_each [] name = Inr []"
| "enquire_each (f # fs) name =
     (case f name of
        Inl e \<Rightarrow> Inl e
      | Inr v \<Rightarrow> (case enquire_each fs name of Inl e \<Rightarrow> Inl e | Inr vs \<Rightarrow> Inr (v # vs)))"

definition ext_enquire :: "'v extensions \<Rightarrow> string \<Rightarrow> 'v list result" where
  "ext_enquire X name = enquire_each (xn_enquire X) name"

text \<open>An extension that fails may have changed the value already.\<close>

fun act_each :: "(string \<Rightarrow> 'v \<Rightarrow> unit result \<times> 'v) list \<Rightarrow> string \<Rightarrow> 'v \<Rightarrow> unit result \<times> 'v" where
  "act_each [] name v = (Inr (), v)"
| "act_each (f # fs) name v =
     (case f name v of (Inl e, v) \<Rightarrow> (Inl e, v) | (Inr _, v) \<Rightarrow> act_each fs name v)"

definition ext_act :: "'v extensions \<Rightarrow> string \<Rightarrow> 'v \<Rightarrow> unit result \<times> 'v" where
  "ext_act X name v = act_each (xn_act X) name v"

fun resolve_each :: "(string \<Rightarrow> 'v \<Rightarrow> 'v result) list \<Rightarrow> string \<Rightarrow> 'v \<Rightarrow> 'v result" where
  "resolve_each [] name v = Inr v"
| "resolve_each (f # fs) name v =
     (case f name v of Inl e \<Rightarrow> Inl e | Inr v \<Rightarrow> resolve_each fs name v)"

definition ext_resolve :: "'v extensions \<Rightarrow> string \<Rightarrow> 'v \<Rightarrow> 'v result" where
  "ext_resolve X name v = resolve_each (xn_resolve X) name v"

definition ext_register :: "'v extension \<Rightarrow> 'v extensions \<Rightarrow> 'v extensions" where
  "ext_register e X =
     (case e of
        ExtEnquire f \<Rightarrow> X\<lparr>xn_enquire := xn_enquire X @ [f]\<rparr>
      | ExtAct f \<Rightarrow> X\<lparr>xn_act := xn_act X @ [f]\<rparr>
      | ExtResolve f \<Rightarrow> X\<lparr>xn_resolve := xn_resolve X @ [f]\<rparr>)"

section \<open>Hooks\<close>

record hook =
  hk_name :: string
  hk_command :: string
  hk_args :: "string list"

type_synonym hook_table = "ustr \<rightharpoonup> hook list"

text \<open>A command that was started: its hook and its environment. Whether it can be started is the system's answer.\<close>

type_synonym hook_env = "(string \<times> string) list"

definition hook_options :: "string list option \<Rightarrow> hook_env" where
  "hook_options opts = (case opts of None \<Rightarrow> [] | Some os \<Rightarrow> fold (\<lambda>(k, v). AList.update k v) (List.map_filter (split_once CHR ''='') os) [])"

text \<open>The hooks of a group run one after the other until one cannot be started; its exit status does not count.\<close>

fun run_hooks :: "(hook \<Rightarrow> bool) \<Rightarrow> hook_env \<Rightarrow> hook list \<Rightarrow> (hook \<times> hook_env) list" where
  "run_hooks starts env [] = []"
| "run_hooks starts env (h # hs) = (if starts h then (h, env) # run_hooks starts env hs else [])"

definition trigger_hooks :: "(hook \<Rightarrow> bool) \<Rightarrow> ustr \<Rightarrow> string list option \<Rightarrow> hook_table option \<Rightarrow> (hook \<times> hook_env) list" where
  "trigger_hooks starts grp opts hooks =
     (case hooks of
        None \<Rightarrow> []
      | Some hs \<Rightarrow> (case hs grp of None \<Rightarrow> [] | Some l \<Rightarrow> run_hooks starts (hook_options opts) l))"

definition trigger_hooks_mut ::
  "(hook \<Rightarrow> bool) \<Rightarrow> ustr \<Rightarrow> string list option \<Rightarrow> hook_table option \<Rightarrow> (hook \<times> hook_env) list \<times> hook_table option" where
  "trigger_hooks_mut starts grp opts hooks =
     (trigger_hooks starts grp opts hooks, map_option (\<lambda>hs. hs(grp := None)) hooks)"

definition trigger_hooks_raw ::
  "(hook \<Rightarrow> bool) \<Rightarrow> ustr \<Rightarrow> hook_table option \<Rightarrow> (hook \<times> hook_env) list \<times> hook_table option" where
  "trigger_hooks_raw starts grp hooks = trigger_hooks_mut starts grp None hooks"

text \<open>
  The files of the hook directories, each with its group and its own name and what reading it gives.
  A file that cannot be read is left out, one that is no hook ends it all.
\<close>

fun collect_hooks ::
  "(string \<Rightarrow> hook result) \<Rightarrow> (ustr \<times> string \<times> string option) list \<Rightarrow> (ustr \<times> hook list) list \<Rightarrow> (ustr \<times> hook list) list result" where
  "collect_hooks parse [] acc = Inr acc"
| "collect_hooks parse ((grp, name, content) # files) acc =
     (case content of
        None \<Rightarrow> collect_hooks parse files acc
      | Some text \<Rightarrow>
          (case parse text of
             Inl e \<Rightarrow> Inl e
           | Inr h \<Rightarrow> collect_hooks parse files
               (AList.update grp ((case map_of acc grp of None \<Rightarrow> [] | Some l \<Rightarrow> l) @ [h\<lparr>hk_name := name\<rparr>]) acc)))"

definition initiate_hooks ::
  "(string \<Rightarrow> hook result) \<Rightarrow> (ustr \<times> string \<times> string option) list \<Rightarrow> hook_table option \<Rightarrow> unit result \<times> hook_table option" where
  "initiate_hooks parse files hooks =
     (case collect_hooks parse files [] of
        Inl e \<Rightarrow> (Inl e, hooks)
      | Inr all \<Rightarrow> (Inr (), Some (\<lambda>grp. map_option (sort_key hk_name) (map_of all grp))))"

section \<open>What is run\<close>

lemma run_hooks_eq: "run_hooks starts env hs = map (\<lambda>h. (h, env)) (takeWhile starts hs)"
  by (induction hs) simp_all

definition files_of :: "(string \<Rightarrow> hook result) \<Rightarrow> (ustr \<times> string \<times> string option) list \<Rightarrow> ustr \<Rightarrow> hook list" where
  "files_of parse files grp =
     List.map_filter (\<lambda>(g, name, content).
       if g = grp then Option.bind content (\<lambda>t. case parse t of Inr h \<Rightarrow> Some (h\<lparr>hk_name := name\<rparr>) | Inl _ \<Rightarrow> None) else None) files"

lemma collect_hooks_eq:
  "collect_hooks parse files acc = Inr all \<Longrightarrow>
   (case map_of all grp of None \<Rightarrow> [] | Some l \<Rightarrow> l) = (case map_of acc grp of None \<Rightarrow> [] | Some l \<Rightarrow> l) @ files_of parse files grp"
proof (induction parse files acc rule: collect_hooks.induct)
  case (2 parse g name content files acc)
  show ?case
  proof (cases content)
    case None
    with 2(1) 2(3) show ?thesis by (simp add: files_of_def List.map_filter_def)
  next
    case (Some t)
    show ?thesis
    proof (cases "parse t")
      case (Inl e)
      with 2(3) Some show ?thesis by simp
    next
      case (Inr h)
      with 2(2) [OF Some Inr] 2(3) Some show ?thesis
        by (cases "map_of acc g") (auto simp: files_of_def map_of_update List.map_filter_def)
    qed
  qed
qed (simp add: files_of_def List.map_filter_def)

text \<open>
  The hooks of a group that run are those of its files, in the order of their names, up to the first that
  cannot be started; one failing hook takes away all that come after it. A group triggered once is
  gone, so each of its hooks runs at most once.
\<close>

theorem hooks_run_by_name:
  assumes "initiate_hooks parse files before = (Inr (), hooks)"
  shows "\<exists>hs. mset hs = mset (files_of parse files grp) \<and> sorted (map hk_name hs) \<and>
      trigger_hooks starts grp opts hooks = map (\<lambda>h. (h, hook_options opts)) (takeWhile starts hs) \<and>
      fst (trigger_hooks_mut starts grp opts (snd (trigger_hooks_mut starts grp opts hooks))) = []"
proof -
  from assms obtain all where c: "collect_hooks parse files [] = Inr all"
    and h: "hooks = Some (\<lambda>grp. map_option (sort_key hk_name) (map_of all grp))"
    by (auto simp: initiate_hooks_def split: sum.splits)
  let ?hs = "sort_key hk_name (files_of parse files grp)"
  have "(case map_of all grp of None \<Rightarrow> [] | Some l \<Rightarrow> l) = files_of parse files grp"
    using collect_hooks_eq [OF c, of grp] by simp
  then have "trigger_hooks starts grp opts hooks = map (\<lambda>h. (h, hook_options opts)) (takeWhile starts ?hs)"
    by (cases "map_of all grp") (auto simp: h trigger_hooks_def run_hooks_eq)
  moreover have "fst (trigger_hooks_mut starts grp opts (snd (trigger_hooks_mut starts grp opts hooks))) = []"
    by (simp add: h trigger_hooks_mut_def trigger_hooks_def)
  ultimately show ?thesis by (intro exI [of _ ?hs]) simp
qed

lemma hooks_run_by_name_witness:
  "\<exists>hooks. initiate_hooks (\<lambda>t. Inr \<lparr>hk_name = [], hk_command = t, hk_args = []\<rparr>)
      [(''pre'', ''20-b'', Some ''b''), (''pre'', ''10-a'', Some ''a'')] None = (Inr (), hooks) \<and>
    (\<exists>hs. mset hs = {#\<lparr>hk_name = ''20-b'', hk_command = ''b'', hk_args = []\<rparr>, \<lparr>hk_name = ''10-a'', hk_command = ''a'', hk_args = []\<rparr>#} \<and>
       trigger_hooks (\<lambda>_. True) ''pre'' None hooks = map (\<lambda>h. (h, [])) hs)"
proof -
  let ?parse = "\<lambda>t. Inr \<lparr>hk_name = [], hk_command = t, hk_args = []\<rparr>"
  let ?files = "[(''pre'', ''20-b'', Some ''b''), (''pre'', ''10-a'', Some ''a'')]"
  obtain hooks where h: "initiate_hooks ?parse ?files None = (Inr (), hooks)" by (simp add: initiate_hooks_def)
  from hooks_run_by_name [OF h, of "''pre''" "\<lambda>_. True" None] h show ?thesis
    by (auto simp: files_of_def List.map_filter_def hook_options_def takeWhile_eq_all_conv [THEN iffD2])
qed

end
