(* ===== verification/Loader.thy ===== *)
theory Loader
  imports Extensions Flow Permissions LogRecord Isolation
begin

text \<open>
  Loading units: \<^verbatim>\<open>crates/cfg/src/loader.rs\<close>, \<^verbatim>\<open>dunits.rs\<close> and what
  \<^verbatim>\<open>units.rs\<close> does with them before the boot and at every reload. The decoders of the
  unit types, the loaders and extensions of plugins, and the directories are arguments.
\<close>

section \<open>Directories\<close>

text \<open>
  The entries of a directory in the order in which they are read; reading can fail, for a file, for a
  directory and for the next entry itself.
\<close>

datatype unit_node = UnitFile string "string result" | UnitDir string "unit_node list result" | UnitUnreadable core_error

type_synonym unit_fs = "string \<Rightarrow> unit_node list result option"

text \<open>\<open>Path::extension\<close> and \<open>Path::file_stem\<close>: a dot at the beginning does not count.\<close>

definition file_parts :: "string \<Rightarrow> string \<times> string option" where
  "file_parts name =
     (case rsplit_once CHR ''.'' name of
        Some (stem, ext) \<Rightarrow> if stem = [] then (name, None) else (stem, Some ext)
      | None \<Rightarrow> (name, None))"

type_synonym ('v, 'i) unit_loader = "string \<Rightarrow> ustr \<Rightarrow> ('v, 'i) metadata \<Rightarrow> unit result \<times> ('v, 'i) metadata"

record transport_route =
  tr_name :: ustr
  tr_protocol :: transport_method

record ('v, 'i) loader_env =
  ld_from_str :: "string \<Rightarrow> 'v result"
  ld_as_table :: "'v \<Rightarrow> (ustr \<times> 'v) list option"
  ld_descriptor :: "'v \<Rightarrow> metadata_descriptor result"
  ld_decode :: "model_type \<Rightarrow> 'v \<Rightarrow> 'i list result"
  ld_name :: "'i \<Rightarrow> string"
  ld_permission :: "'i \<Rightarrow> (u16 \<times> ustr) option"
  ld_facet :: "flow_facet \<Rightarrow> 'i"
  ld_impulse :: "flow_impulse \<Rightarrow> 'i"
  ld_route :: "transport_route \<Rightarrow> 'i"
  ld_loaders :: "ustr \<rightharpoonup> ('v, 'i) unit_loader"
  ld_metadata_ext :: "('v, 'i) metadata extensions"
  ld_registry_ext :: "('v, 'i) metadata_registry extensions"
  ld_variable :: "'i \<Rightarrow> (ustr \<times> toml option \<times> ustr option) option"
  ld_path :: "string \<Rightarrow> string"
  ld_text :: "core_error \<Rightarrow> string"
  ld_fs :: unit_fs

text \<open>The unit types and their sections.\<close>

definition ty :: "nat \<Rightarrow> model_type" where "ty n = \<lparr>mt_id = 2 * n, mt_meta = Suc (2 * n)\<rparr>"

definition ty_service :: model_type where "ty_service = ty 1"
definition ty_timer :: model_type where "ty_timer = ty 2"
definition ty_mount :: model_type where "ty_mount = ty 3"
definition ty_socket :: model_type where "ty_socket = ty 4"
definition ty_facet :: model_type where "ty_facet = ty 5"
definition ty_impulse :: model_type where "ty_impulse = ty 6"
definition ty_permission :: model_type where "ty_permission = ty 7"
definition ty_route :: model_type where "ty_route = ty 8"
definition ty_variable :: model_type where "ty_variable = ty 9"

definition unit_sections :: "(model_type \<times> ustr) list" where
  "unit_sections =
     [(ty_service, ''service''), (ty_timer, ''timer''), (ty_mount, ''mount''), (ty_socket, ''socket''), (ty_facet, ''facet''),
      (ty_impulse, ''impulse''), (ty_permission, ''permission''), (ty_route, ''transport-route''), (ty_variable, ''variable'')]"

definition toml_loader :: "('v, 'i) loader_env \<Rightarrow> ('v, 'i) unit_loader" where
  "toml_loader E content grp md = me_from_toml (ld_from_str E) (ld_as_table E) content grp md"

text \<open>\<open>LOADERS\<close>: the built-in one and those of plugins, which may replace it.\<close>

definition loader_for :: "('v, 'i) loader_env \<Rightarrow> ustr \<Rightarrow> ('v, 'i) unit_loader option" where
  "loader_for E ext = (case ld_loaders E ext of Some l \<Rightarrow> Some l | None \<Rightarrow> if ext = ''toml'' then Some (toml_loader E) else None)"

section \<open>Reading the units of a directory\<close>

fun reg_perms :: "(u16 \<times> ustr) list \<Rightarrow> perm_store \<Rightarrow> unit result \<times> perm_store" where
  "reg_perms [] ps = (Inr (), ps)"
| "reg_perms ((i, n) # xs) ps = (case reg_perm i n ps of (Inl e, ps) \<Rightarrow> (Inl e, ps) | (Inr _, ps) \<Rightarrow> reg_perms xs ps)"

definition group_permissions :: "('v, 'i) loader_env \<Rightarrow> ustr \<Rightarrow> ('v, 'i) metadata \<Rightarrow> (u16 \<times> ustr) list" where
  "group_permissions E grp md =
     (case get_in_group ty_permission grp md of None \<Rightarrow> [] | Some items \<Rightarrow> List.map_filter (ld_permission E) items)"

text \<open>What follows a file: its group's permissions are registered if the text of the file mentions any.\<close>

definition after_file ::
  "('v, 'i) loader_env \<Rightarrow> bool \<Rightarrow> string \<Rightarrow> ustr \<Rightarrow> ('v, 'i) metadata \<Rightarrow> perm_store \<Rightarrow> unit result \<times> perm_store" where
  "after_file E register content grp md ps =
     (if register \<and> str_contains content ''permission'' then reg_perms (group_permissions E grp md) ps else (Inr (), ps))"

definition load_unit_file ::
  "('v, 'i) loader_env \<Rightarrow> bool \<Rightarrow> string \<Rightarrow> string result \<Rightarrow> ('v, 'i) metadata \<Rightarrow> perm_store \<Rightarrow>
   unit result \<times> ('v, 'i) metadata \<times> perm_store" where
  "load_unit_file E register name content md ps =
     (case file_parts name of
        (grp, ext) \<Rightarrow>
          (case content of
             Inl e \<Rightarrow> (Inl (Custom (''failed to read unit file '' @ ld_path E name @ '': '' @ ld_text E e)), md, ps)
           | Inr text \<Rightarrow>
               (case loader_for E (case ext of Some x \<Rightarrow> x | None \<Rightarrow> ''toml'') of
                  None \<Rightarrow> (Inr (), md, ps)
                | Some loader \<Rightarrow>
                    (case loader text grp md of
                       (Inl e, md) \<Rightarrow> (Inl (Custom (''failed to parse unit file '' @ ld_path E name @ '': '' @ ld_text E e)), md, ps)
                     | (Inr _, md) \<Rightarrow> (case after_file E register text grp md ps of (r, ps) \<Rightarrow> (r, md, ps))))))"

text \<open>
  \<open>load_in_dir\<close> opens the directory, locks \<open>LOADERS\<close> until all its entries are read, and calls itself
  for an entry that is a directory. \<open>held\<close> says whether the thread has that lock. It is a mutex of the standard
  library, which the thread that has it cannot take again: the call never returns, \<open>None\<close>.
\<close>

function load_nodes ::
  "('v, 'i) loader_env \<Rightarrow> bool \<Rightarrow> bool \<Rightarrow> unit_node list \<Rightarrow> ('v, 'i) metadata \<Rightarrow> perm_store \<Rightarrow>
   (unit result \<times> ('v, 'i) metadata \<times> perm_store) option" where
  "load_nodes E register held [] md ps = Some (Inr (), md, ps)"
| "load_nodes E register held (UnitUnreadable e # ns) md ps = Some (Inl (Custom (''dir entry error: '' @ ld_text E e)), md, ps)"
| "load_nodes E register held (UnitDir name read # ns) md ps =
     (case (case read of
              Inl e \<Rightarrow> Some (Inl (Custom (''failed to read units dir '' @ ld_path E name @ '': '' @ ld_text E e)), md, ps)
            | Inr entries \<Rightarrow> if held then None else load_nodes E register True entries md ps) of
        None \<Rightarrow> None
      | Some (Inl e, md, ps) \<Rightarrow> Some (Inl e, md, ps)
      | Some (Inr _, md, ps) \<Rightarrow> load_nodes E register held ns md ps)"
| "load_nodes E register held (UnitFile name content # ns) md ps =
     (case load_unit_file E register name content md ps of
        (Inl e, md, ps) \<Rightarrow> Some (Inl e, md, ps)
      | (Inr _, md, ps) \<Rightarrow> load_nodes E register held ns md ps)"
  by pat_completeness auto
termination
  by (relation "measure (\<lambda>(E, register, held, ns, md, ps). size_list size ns)") auto

definition load_in_dir ::
  "('v, 'i) loader_env \<Rightarrow> bool \<Rightarrow> bool \<Rightarrow> string \<Rightarrow> unit_node list result \<Rightarrow> ('v, 'i) metadata \<Rightarrow> perm_store \<Rightarrow>
   (unit result \<times> ('v, 'i) metadata \<times> perm_store) option" where
  "load_in_dir E register held dir read md ps =
     (case read of
        Inl e \<Rightarrow> Some (Inl (Custom (''failed to read units dir '' @ dir @ '': '' @ ld_text E e)), md, ps)
      | Inr entries \<Rightarrow> if held then None else load_nodes E register True entries md ps)"

text \<open>An entry that is a directory is read as any directory is, with the lock as it stands.\<close>

lemma load_nodes_dir:
  "load_nodes E register held (UnitDir name read # ns) md ps =
     (case load_in_dir E register held (ld_path E name) read md ps of
        None \<Rightarrow> None
      | Some (Inl e, md, ps) \<Rightarrow> Some (Inl e, md, ps)
      | Some (Inr _, md, ps) \<Rightarrow> load_nodes E register held ns md ps)"
  by (simp add: load_in_dir_def)

fun load_dirs ::
  "('v, 'i) loader_env \<Rightarrow> bool \<Rightarrow> string list \<Rightarrow> ('v, 'i) metadata \<Rightarrow> perm_store \<Rightarrow>
   (unit result \<times> ('v, 'i) metadata \<times> perm_store) option" where
  "load_dirs E register [] md ps = Some (Inr (), md, ps)"
| "load_dirs E register (part # parts) md ps =
     (let dir = trim part in
      case (if dir = [] then None else ld_fs E dir) of
        None \<Rightarrow> load_dirs E register parts md ps
      | Some read \<Rightarrow>
          (case load_in_dir E register False dir read md ps of
             None \<Rightarrow> None
           | Some (Inl e, md, ps) \<Rightarrow> Some (Inl e, md, ps)
           | Some (Inr _, md, ps) \<Rightarrow> load_dirs E register parts md ps))"

definition load_units_from ::
  "('v, 'i) loader_env \<Rightarrow> bool \<Rightarrow> string \<Rightarrow> ('v, 'i) metadata \<Rightarrow> perm_store \<Rightarrow>
   (unit result \<times> ('v, 'i) metadata \<times> perm_store) option" where
  "load_units_from E register units_dir md ps = load_dirs E register (split_char CHR '':'' units_dir) md ps"

section \<open>The metadata of a scope\<close>

definition sys_subscribers :: "transport_method list option" where
  "sys_subscribers = Some [TMType ''route:rind:sys-uds'', TMType ''route:rind:sys-shm'']"

definition sys_route :: "ustr \<Rightarrow> ustr \<Rightarrow> transport_route" where
  "sys_route name kind = \<lparr>tr_name = name, tr_protocol = TMOptions kind [] (Some [''SystemServices''])\<rparr>"

definition built_in_facet :: "ustr \<Rightarrow> flow_payload_type \<Rightarrow> ustr list option \<Rightarrow> transport_method list option \<Rightarrow> flow_facet" where
  "built_in_facet name payload branch subs =
     \<lparr>ff_name = name, ff_payload = payload, ff_stop_on = None, ff_after = None, ff_branch = branch, ff_auto_payload = None,
      ff_subscribers = subs, ff_broadcast = None, ff_permissions = None\<rparr>"

definition built_in_impulse :: "ustr \<Rightarrow> flow_payload_type \<Rightarrow> transport_method list option \<Rightarrow> flow_impulse" where
  "built_in_impulse name payload subs =
     \<lparr>fp_name = name, fp_payload = payload, fp_after = None, fp_branch = None, fp_subscribers = subs, fp_broadcast = None,
      fp_permissions = None\<rparr>"

definition built_in_defs :: "('v, 'i) loader_env \<Rightarrow> (model_type \<times> 'i) list" where
  "built_in_defs E =
     map (\<lambda>r. (ty_route, ld_route E r)) [sys_route ''sys-uds'' ''uds'', sys_route ''sys-shm'' ''shm''] @
     map (\<lambda>f. (ty_facet, ld_facet E f))
       [built_in_facet ''up!'' TNone None None, built_in_facet ''active'' TString None sys_subscribers,
        built_in_facet ''inactive'' TString None sys_subscribers, built_in_facet ''suspended'' TString None sys_subscribers,
        built_in_facet ''user_session'' TJson (Some [''session_id'']) sys_subscribers] @
     map (\<lambda>i. (ty_impulse, ld_impulse E i))
       [built_in_impulse ''activate'' TString sys_subscribers, built_in_impulse ''deactivate'' TString sys_subscribers,
        built_in_impulse ''request_login'' TJson sys_subscribers, built_in_impulse ''request_logout'' TJson None,
        built_in_impulse ''ready'' TString sys_subscribers, built_in_impulse ''boot'' TString sys_subscribers]"

definition add_builtin_defs :: "('v, 'i) loader_env \<Rightarrow> ('v, 'i) metadata \<Rightarrow> ('v, 'i) metadata" where
  "add_builtin_defs E md = fold (\<lambda>(t, i). me_insert t ''rind'' i) (built_in_defs E) md"

definition unit_metadata :: "('v, 'i) loader_env \<Rightarrow> ustr \<Rightarrow> ('v, 'i) metadata" where
  "unit_metadata E scope =
     fold (\<lambda>(t, section). me_of (ld_decode E t) t section) unit_sections (me_descriptor (ld_descriptor E) ''unit'' (me_new scope))"

text \<open>What a scope has before its files are read.\<close>

definition prepare_metadata :: "('v, 'i) loader_env \<Rightarrow> ustr \<Rightarrow> ('v, 'i) metadata result" where
  "prepare_metadata E scope =
     (case ext_resolve (ld_metadata_ext E) ''component'' (unit_metadata E scope) of
        Inl e \<Rightarrow> Inl e
      | Inr md \<Rightarrow> if scope = ''static'' then ext_resolve (ld_metadata_ext E) ''built_in'' (add_builtin_defs E md) else Inr md)"

fun index_types ::
  "('i \<Rightarrow> string) \<Rightarrow> model_type list \<Rightarrow> ustr \<Rightarrow> ('v, 'i) metadata_registry \<Rightarrow> unit result \<times> ('v, 'i) metadata_registry" where
  "index_types nm [] scope mr = (Inr (), mr)"
| "index_types nm (t # ts) scope mr =
     (case ensure_index_for_type nm t scope mr of (Inl e, mr) \<Rightarrow> (Inl e, mr) | (Inr _, mr) \<Rightarrow> index_types nm ts scope mr)"

definition build_indexes ::
  "('v, 'i) loader_env \<Rightarrow> ustr \<Rightarrow> ('v, 'i) metadata_registry \<Rightarrow> unit result \<times> ('v, 'i) metadata_registry" where
  "build_indexes E scope mr =
     (case index_types (ld_name E) [ty_service, ty_mount, ty_socket, ty_timer, ty_facet, ty_impulse] scope mr of
        (Inl e, mr) \<Rightarrow> (Inl e, mr)
      | (Inr _, mr) \<Rightarrow> ext_act (ld_registry_ext E) ''create_index'' mr)"

definition create_units_metadata ::
  "('v, 'i) loader_env \<Rightarrow> ustr \<Rightarrow> string \<Rightarrow> bool \<Rightarrow> ('v, 'i) metadata_registry \<Rightarrow> perm_store \<Rightarrow>
   (unit result \<times> ('v, 'i) metadata_registry \<times> perm_store) option" where
  "create_units_metadata E scope units_dir register mr ps =
     (case prepare_metadata E scope of
        Inl e \<Rightarrow> Some (Inl e, mr, ps)
      | Inr md \<Rightarrow>
          (case load_units_from E register units_dir md ps of
             None \<Rightarrow> None
           | Some (Inl e, md, ps) \<Rightarrow> Some (Inl e, mr, ps)
           | Some (Inr _, md, ps) \<Rightarrow>
               (case ext_act (ld_metadata_ext E) ''loaded_units_scope'' md of
                  (Inl e, md) \<Rightarrow> Some (Inl e, mr, ps)
                | (Inr _, md) \<Rightarrow> (case build_indexes E scope (insert_metadata md mr) of (r, mr) \<Rightarrow> Some (r, mr, ps)))))"

section \<open>Before the boot and at a reload\<close>

record ('v, 'i) units_world =
  xw_meta :: "('v, 'i) metadata_registry"
  xw_perms :: perm_store
  xw_desired :: "scope_info list"
  xw_global :: scope_store
  xw_scopes :: "scope_store option"
  xw_heap :: "variable_heap option"

definition load_permissions :: "perm_store \<Rightarrow> unit result \<times> perm_store" where
  "load_permissions ps =
     (if ps_exists ps ''Login'' then (Inr (), ps)
      else reg_perms [(1001, ''Login''), (1000, ''SystemServices''), (1002, ''Run0'')] ps)"

fun index_scopes ::
  "('v, 'i) loader_env \<Rightarrow> ustr list \<Rightarrow> ('v, 'i) metadata_registry \<Rightarrow> unit result \<times> ('v, 'i) metadata_registry" where
  "index_scopes E [] mr = (Inr (), mr)"
| "index_scopes E (s # ss) mr = (case build_indexes E s mr of (Inl e, mr) \<Rightarrow> (Inl e, mr) | (Inr _, mr) \<Rightarrow> index_scopes E ss mr)"

text \<open>The static units, or only their indexes when they are still there.\<close>

definition load_static ::
  "('v, 'i) loader_env \<Rightarrow> string \<Rightarrow> ('v, 'i) units_world \<Rightarrow> (unit result \<times> ('v, 'i) units_world) option" where
  "load_static E units_dir W =
     (if has_metadata (xw_meta W) ''static''
      then (case index_scopes E (map fst (mr_metadata (xw_meta W))) (xw_meta W) of (r, mr) \<Rightarrow> Some (r, W\<lparr>xw_meta := mr\<rparr>))
      else (case create_units_metadata E ''static'' units_dir True (xw_meta W) (xw_perms W) of
              None \<Rightarrow> None
            | Some (Inl e, mr, ps) \<Rightarrow> Some (Inl e, W\<lparr>xw_meta := mr, xw_perms := ps\<rparr>)
            | Some (Inr _, mr, ps) \<Rightarrow>
                (case load_permissions ps of (r, ps) \<Rightarrow> Some (r, W\<lparr>xw_meta := mr, xw_perms := ps\<rparr>))))"

text \<open>The wanted scopes: those not yet loaded are, whatever comes of it.\<close>

fun load_scopes ::
  "('v, 'i) loader_env \<Rightarrow> string \<Rightarrow> scope_info list \<Rightarrow> ustr list \<Rightarrow> ('v, 'i) units_world \<Rightarrow>
   (ustr list \<times> ('v, 'i) units_world) option" where
  "load_scopes E units_dir [] pend W = Some (pend, W)"
| "load_scopes E units_dir (i # is) pend W =
     (if si_name i = ''static'' then load_scopes E units_dir is pend W
      else (let dir = (case si_attributes i ''units_dir'' of Some d \<Rightarrow> d | None \<Rightarrow> units_dir) in
            case (if has_metadata (xw_meta W) (si_name i) then Some (Inr (), xw_meta W, xw_perms W)
                  else create_units_metadata E (si_name i) dir True (xw_meta W) (xw_perms W)) of
              None \<Rightarrow> None
            | Some (_, mr, ps) \<Rightarrow>
                load_scopes E units_dir is (hs_insert (si_name i) pend)
                  (W\<lparr>xw_meta := mr, xw_perms := ps,
                     xw_global := ss_upsert (si_name i) (si_attributes i) (si_lifetime_state i) (xw_global W)\<rparr>)))"

definition register_variables :: "('v, 'i) loader_env \<Rightarrow> ('v, 'i) metadata_registry \<Rightarrow> variable_heap \<Rightarrow> variable_heap" where
  "register_variables E mr h =
     fold (\<lambda>(name, dflt, env). vh_register name dflt env)
       (List.map_filter (ld_variable E) (concat (map (\<lambda>(s, m). map snd (grouped_items ty_variable m)) (mr_metadata mr)))) h"

text \<open>\<open>preload\<close>, the facet graph and the login sessions apart, which other theories create.\<close>

definition units_preload ::
  "('v, 'i) loader_env \<Rightarrow> string \<Rightarrow> variable_heap \<Rightarrow> ('v, 'i) units_world \<Rightarrow> (unit result \<times> ('v, 'i) units_world) option" where
  "units_preload E units_dir saved W =
     (case load_static E units_dir W of
        None \<Rightarrow> None
      | Some (Inl e, W) \<Rightarrow> Some (Inl e, W)
      | Some (Inr _, W) \<Rightarrow>
          (case load_scopes E units_dir (xw_desired W) [] W of
             None \<Rightarrow> None
           | Some (pend, W) \<Rightarrow>
               (let fresh = (xw_scopes W = None);
                    st = (case xw_scopes W of Some st \<Rightarrow> st | None \<Rightarrow> ss_upsert ''static'' Map.empty None ss_default);
                    h = (case xw_heap W of Some h \<Rightarrow> h | None \<Rightarrow> saved)
                in Some (Inr (),
                     W\<lparr>xw_scopes := Some (st\<lparr>ss_pending := fold hs_insert pend (ss_pending st)\<rparr>),
                       xw_global := (if fresh then ss_upsert ''static'' Map.empty None (xw_global W) else xw_global W),
                       xw_heap := Some (register_variables E (xw_meta W) h)\<rparr>))))"

definition create_dynamic_scope ::
  "('v, 'i) loader_env \<Rightarrow> ustr \<Rightarrow> ustr option \<Rightarrow> (ustr \<rightharpoonup> string) \<Rightarrow> string \<Rightarrow> ('v, 'i) units_world \<Rightarrow>
   (unit result \<times> ('v, 'i) units_world) option" where
  "create_dynamic_scope E scope life attrs units_dir W =
     (case create_units_metadata E scope units_dir False (xw_meta W) (xw_perms W) of
        None \<Rightarrow> None
      | Some (Inl e, mr, ps) \<Rightarrow> Some (Inl e, W\<lparr>xw_meta := mr\<rparr>)
      | Some (Inr _, mr, ps) \<Rightarrow> Some (Inr (), W\<lparr>xw_meta := mr, xw_global := ss_upsert scope attrs life (xw_global W)\<rparr>))"

definition destroy_dynamic_scope :: "ustr \<Rightarrow> ('v, 'i) units_world \<Rightarrow> ('v, 'i) units_world" where
  "destroy_dynamic_scope scope W =
     (if scope = ''static'' then W
      else W\<lparr>xw_meta := snd (mr_remove_metadata scope (xw_meta W)), xw_global := snd (ss_remove_scope scope (xw_global W))\<rparr>)"

text \<open>What a reload that renews the static units takes away: all metadata.\<close>

definition without_metadata :: "('v, 'i) units_world \<Rightarrow> ('v, 'i) units_world" where
  "without_metadata W = W\<lparr>xw_meta := fold (\<lambda>s mr. snd (mr_remove_metadata s mr)) (map fst (mr_metadata (xw_meta W))) (xw_meta W)\<rparr>"

end
