(* ===== verification/LoaderProps.thy ===== *)
theory LoaderProps
  imports Loader
begin

text \<open>
  Properties of loading units: when it never returns, and that units with permissions load only once.
\<close>

section \<open>Directories in directories\<close>

lemma load_nodes_append:
  "load_nodes E r True (xs @ ys) md ps =
     (case load_nodes E r True xs md ps of
        None \<Rightarrow> None
      | Some (Inl e, md, ps) \<Rightarrow> Some (Inl e, md, ps)
      | Some (Inr _, md, ps) \<Rightarrow> load_nodes E r True ys md ps)"
proof (induction xs arbitrary: md ps)
  case (Cons n ns)
  show ?case
  proof (cases n)
    case (UnitFile name content)
    obtain x md1 ps1 where f: "load_unit_file E r name content md ps = (x, md1, ps1)" by (metis prod_cases3)
    show ?thesis by (cases x) (simp_all add: UnitFile f Cons)
  next
    case (UnitDir name entries)
    then show ?thesis by (cases entries) simp_all
  qed simp
qed simp

definition opens_dir :: "('v, 'i) loader_env \<Rightarrow> bool \<Rightarrow> unit_node list \<Rightarrow> ('v, 'i) metadata \<Rightarrow> perm_store \<Rightarrow> bool" where
  "opens_dir E r ns md ps \<longleftrightarrow>
     (\<exists>before name entries after md' ps'. ns = before @ UnitDir name (Inr entries) # after \<and>
        load_nodes E r True before md ps = Some (Inr (), md', ps'))"

lemma load_nodes_None: "load_nodes E r True ns md ps = None \<longleftrightarrow> opens_dir E r ns md ps"
proof
  show "opens_dir E r ns md ps \<Longrightarrow> load_nodes E r True ns md ps = None"
    by (auto simp: opens_dir_def load_nodes_append)
  show "load_nodes E r True ns md ps = None \<Longrightarrow> opens_dir E r ns md ps"
  proof (induction ns arbitrary: md ps)
    case (Cons n ns)
    show ?case
    proof (cases n)
      case (UnitFile name content)
      obtain x md1 ps1 where f: "load_unit_file E r name content md ps = (x, md1, ps1)" by (metis prod_cases3)
      with Cons.prems UnitFile have x: "x = Inr ()" and rest: "load_nodes E r True ns md1 ps1 = None" by (auto split: sum.splits)
      from Cons.IH [OF rest] obtain before name' entries after md' ps' where
        "ns = before @ UnitDir name' (Inr entries) # after" "load_nodes E r True before md1 ps1 = Some (Inr (), md', ps')"
        by (auto simp: opens_dir_def)
      then show ?thesis unfolding opens_dir_def
        by (intro exI [of _ "n # before"] exI [of _ name'] exI [of _ entries] exI [of _ after] exI [of _ md'] exI [of _ ps'])
          (simp add: UnitFile f x)
    next
      case (UnitDir name entries)
      with Cons.prems obtain es where "entries = Inr es" by (auto split: sum.splits)
      then show ?thesis unfolding opens_dir_def
        by (intro exI [of _ "[]"] exI [of _ name] exI [of _ es] exI [of _ ns] exI [of _ md] exI [of _ ps]) (simp add: UnitDir)
    qed (use Cons.prems in simp)
  qed simp
qed

definition read_dir_of :: "('v, 'i) loader_env \<Rightarrow> string \<Rightarrow> unit_node list result option" where
  "read_dir_of E part = (if trim part = [] then None else ld_fs E (trim part))"

lemma load_dirs_Cons:
  "load_dirs E r (part # parts) md ps =
     (case read_dir_of E part of
        None \<Rightarrow> load_dirs E r parts md ps
      | Some (Inl e) \<Rightarrow> Some (Inl (Custom (''failed to read units dir '' @ trim part @ '': '' @ ld_text E e)), md, ps)
      | Some (Inr entries) \<Rightarrow>
          (case load_nodes E r True entries md ps of
             None \<Rightarrow> None
           | Some (Inl e, md, ps) \<Rightarrow> Some (Inl e, md, ps)
           | Some (Inr _, md, ps) \<Rightarrow> load_dirs E r parts md ps))"
  by (auto simp: read_dir_of_def load_in_dir_def Let_def split: option.split sum.split)

declare load_dirs.simps(2) [simp del]

lemma load_dirs_append:
  "load_dirs E r (xs @ ys) md ps =
     (case load_dirs E r xs md ps of
        None \<Rightarrow> None
      | Some (Inl e, md, ps) \<Rightarrow> Some (Inl e, md, ps)
      | Some (Inr _, md, ps) \<Rightarrow> load_dirs E r ys md ps)"
proof (induction xs arbitrary: md ps)
  case (Cons p xs)
  show ?case
  proof (cases "read_dir_of E p")
    case None
    then show ?thesis by (simp add: load_dirs_Cons Cons)
  next
    case (Some d)
    show ?thesis
    proof (cases d)
      case (Inr entries)
      show ?thesis
      proof (cases "load_nodes E r True entries md ps")
        case (Some t)
        obtain x md1 ps1 where t: "t = (x, md1, ps1)" by (cases t)
        with Some Inr \<open>read_dir_of E p = Some d\<close> show ?thesis by (cases x) (simp_all add: load_dirs_Cons Cons)
      qed (simp add: load_dirs_Cons Inr \<open>read_dir_of E p = Some d\<close>)
    qed (simp add: load_dirs_Cons Some)
  qed
qed simp

text \<open>A part of the path list whose directory, reached without an error, has a directory in it.\<close>

definition dirs_nest :: "('v, 'i) loader_env \<Rightarrow> bool \<Rightarrow> string list \<Rightarrow> ('v, 'i) metadata \<Rightarrow> perm_store \<Rightarrow> bool" where
  "dirs_nest E r parts md ps \<longleftrightarrow>
     (\<exists>done part left entries md' ps'. parts = done @ part # left \<and> load_dirs E r done md ps = Some (Inr (), md', ps') \<and>
        read_dir_of E part = Some (Inr entries) \<and> opens_dir E r entries md' ps')"

lemma dirs_nest_later:
  assumes "load_dirs E r [p] md ps = Some (Inr (), md1, ps1)" "dirs_nest E r parts md1 ps1"
  shows "dirs_nest E r (p # parts) md ps"
proof -
  from assms(2) obtain before part left entries md' ps' where "parts = before @ part # left"
    "load_dirs E r before md1 ps1 = Some (Inr (), md', ps')" "read_dir_of E part = Some (Inr entries)" "opens_dir E r entries md' ps'"
    by (auto simp: dirs_nest_def)
  moreover from this(2) have "load_dirs E r (p # before) md ps = Some (Inr (), md', ps')"
    using load_dirs_append [of E r "[p]" before md ps] assms(1) by simp
  ultimately show ?thesis unfolding dirs_nest_def
    by (intro exI [of _ "p # before"] exI [of _ part] exI [of _ left] exI [of _ entries] exI [of _ md'] exI [of _ ps']) simp
qed

lemma load_dirs_None: "load_dirs E r parts md ps = None \<longleftrightarrow> dirs_nest E r parts md ps"
proof
  assume "dirs_nest E r parts md ps"
  then obtain before part left entries md' ps' where p: "parts = before @ part # left"
    "load_dirs E r before md ps = Some (Inr (), md', ps')" "read_dir_of E part = Some (Inr entries)" "opens_dir E r entries md' ps'"
    by (auto simp: dirs_nest_def)
  from p(4) have "load_nodes E r True entries md' ps' = None" by (simp add: load_nodes_None)
  then show "load_dirs E r parts md ps = None" by (simp add: p(1) load_dirs_append p(2) load_dirs_Cons p(3))
next
  show "load_dirs E r parts md ps = None \<Longrightarrow> dirs_nest E r parts md ps"
  proof (induction parts arbitrary: md ps)
    case (Cons p parts)
    show ?case
    proof (cases "load_dirs E r [p] md ps")
      case None
      then obtain entries where d: "read_dir_of E p = Some (Inr entries)" "load_nodes E r True entries md ps = None"
        by (auto simp: load_dirs_Cons split: option.splits sum.splits)
      then show ?thesis unfolding dirs_nest_def load_nodes_None
        by (intro exI [of _ "[]"] exI [of _ p] exI [of _ parts] exI [of _ entries] exI [of _ md] exI [of _ ps]) simp
    next
      case (Some t)
      obtain x md1 ps1 where t: "t = (x, md1, ps1)" by (cases t)
      with Some Cons.prems load_dirs_append [of E r "[p]" parts md ps] have x: "x = Inr ()" and "load_dirs E r parts md1 ps1 = None"
        by (auto split: sum.splits)
      from Cons.IH [OF this(2)] Some t x show ?thesis by (auto intro: dirs_nest_later)
    qed
  qed simp
qed

text \<open>
  C25. Loading the units of a scope does not return exactly when a directory of the path list that is
  reached has a directory in it that can be opened, whatever is in that one, with only good files before it:
  the table of loaders is locked while the entries of the outer directory are read, and the inner one asks for it
  again. A directory in a directory is never loaded. In every other case loading ends, with the units or an error.
\<close>

theorem nested_directory_hangs:
  assumes "prepare_metadata E scope = Inr md"
  shows "create_units_metadata E scope units_dir register mr ps = None \<longleftrightarrow>
    dirs_nest E register (split_char CHR '':'' units_dir) md ps"
proof -
  have "create_units_metadata E scope units_dir register mr ps = None \<longleftrightarrow>
      load_units_from E register units_dir md ps = None"
    using assms by (auto simp: create_units_metadata_def split: option.splits sum.splits prod.splits)
  then show ?thesis by (simp add: load_units_from_def load_dirs_None)
qed

section \<open>Permissions are registered once\<close>

definition known :: "perm_store \<Rightarrow> u16 \<Rightarrow> bool" where
  "known ps i \<longleftrightarrow> map_of (ps_by_id ps) i \<noteq> None"

lemma reg_perm_result:
  "reg_perm i n ps = (r, ps') \<Longrightarrow>
   (if known ps i then (\<exists>old. r = Inl (DuplicatePermissions i old)) \<and> ps' = ps
    else r = Inr () \<and> (\<forall>j. known ps' j \<longleftrightarrow> j = i \<or> known ps j))"
  by (auto simp: reg_perm_def known_def map_of_update split: option.splits)

lemma reg_perms_known:
  "reg_perms xs ps = (r, ps') \<Longrightarrow> known ps j \<Longrightarrow> known ps' j"
  by (induction xs ps rule: reg_perms.induct) (auto dest!: reg_perm_result split: prod.splits sum.splits if_splits)

definition grew :: "perm_store \<Rightarrow> perm_store \<Rightarrow> bool" where
  "grew ps ps' \<longleftrightarrow> (\<exists>i. known ps' i \<and> \<not> known ps i)"

lemma grew_refl [simp]: "\<not> grew ps ps"
  by (simp add: grew_def)

lemma reg_perms_again:
  assumes "reg_perms xs ps = (Inr (), ps')" and "\<forall>i. known ps' i \<longrightarrow> known ps2 i"
  shows "if grew ps ps' then \<exists>i old. reg_perms xs ps2 = (Inl (DuplicatePermissions i old), ps2)
    else reg_perms xs ps2 = (Inr (), ps2)"
proof (cases xs)
  case (Cons x ys)
  obtain i n where x: "x = (i, n)" by (cases x)
  obtain r1 ps1 where r: "reg_perm i n ps = (r1, ps1)" by fastforce
  with assms(1) x Cons have r1: "r1 = Inr ()" "reg_perms ys ps1 = (Inr (), ps')" by (auto split: sum.splits)
  with reg_perm_result [OF r] have "\<not> known ps i" "known ps1 i" by (auto split: if_splits)
  with reg_perms_known [OF r1(2)] have k: "grew ps ps'" "known ps' i" by (auto simp: grew_def)
  obtain r2 ps3 where r2: "reg_perm i n ps2 = (r2, ps3)" by fastforce
  from reg_perm_result [OF this] k(2) assms(2) have "(\<exists>old. r2 = Inl (DuplicatePermissions i old)) \<and> ps3 = ps2" by auto
  with k(1) r2 Cons x show ?thesis by auto
qed (use assms in simp)

text \<open>A step of loading that succeeded, done again with what it registered still known.\<close>

definition done_again :: "perm_store \<Rightarrow> perm_store \<Rightarrow> perm_store \<Rightarrow> 'm \<Rightarrow> unit result \<times> 'm \<times> perm_store \<Rightarrow> bool" where
  "done_again ps ps' ps2 md' res \<longleftrightarrow>
     (if grew ps ps' then \<exists>i old md2. res = (Inl (DuplicatePermissions i old), md2, ps2) else res = (Inr (), md', ps2))"

lemma load_unit_file_known: "load_unit_file E b name content md ps = (r, md', ps') \<Longrightarrow> known ps j \<Longrightarrow> known ps' j"
  by (auto simp: load_unit_file_def after_file_def dest: reg_perms_known split: prod.splits sum.splits option.splits if_splits)

lemma load_unit_file_again:
  assumes "load_unit_file E True name content md ps = (Inr (), md', ps')" and "\<forall>i. known ps' i \<longrightarrow> known ps2 i"
  shows "done_again ps ps' ps2 md' (load_unit_file E True name content md ps2)"
proof -
  obtain grp ext where p: "file_parts name = (grp, ext)" by fastforce
  from assms(1) p obtain t where c: "content = Inr t" by (auto simp: load_unit_file_def split: sum.splits)
  show ?thesis
  proof (cases "loader_for E (case ext of Some x \<Rightarrow> x | None \<Rightarrow> ''toml'')")
    case None
    with assms(1) p c show ?thesis by (simp add: load_unit_file_def done_again_def)
  next
    case (Some loader)
    obtain r md1 where l: "loader t grp md = (r, md1)" by fastforce
    with assms(1) p c Some have r: "r = Inr ()" by (auto simp: load_unit_file_def split: sum.splits)
    obtain r2 ps1 where a: "after_file E True t grp md1 ps = (r2, ps1)" by fastforce
    with assms(1) p c Some l r have m: "md1 = md'" "ps1 = ps'" "r2 = Inr ()" by (auto simp: load_unit_file_def)
    show ?thesis
    proof (cases "str_contains t ''permission''")
      case True
      with a m have "reg_perms (group_permissions E grp md') ps = (Inr (), ps')" by (simp add: after_file_def)
      from reg_perms_again [OF this assms(2)] True show ?thesis
        by (auto simp: load_unit_file_def done_again_def after_file_def p c Some l r m split: if_splits)
    next
      case False
      with a m show ?thesis by (simp add: load_unit_file_def done_again_def after_file_def p c Some l r)
    qed
  qed
qed

lemma load_nodes_known: "load_nodes E b True ns md ps = Some (r, md', ps') \<Longrightarrow> known ps j \<Longrightarrow> known ps' j"
proof (induction ns arbitrary: md ps)
  case (Cons n ns)
  show ?case
  proof (cases n)
    case (UnitFile name content)
    obtain x md1 ps1 where f: "load_unit_file E b name content md ps = (x, md1, ps1)" by (metis prod_cases3)
    from load_unit_file_known [OF f] Cons f show ?thesis by (cases x) (auto simp: UnitFile)
  next
    case (UnitDir name entries)
    with Cons.prems show ?thesis by (cases entries) auto
  qed (use Cons.prems in auto)
qed simp

lemma load_nodes_again:
  "load_nodes E True True ns md ps = Some (Inr (), md', ps') \<Longrightarrow> \<forall>i. known ps' i \<longrightarrow> known ps2 i \<Longrightarrow>
   \<exists>res. load_nodes E True True ns md ps2 = Some res \<and> done_again ps ps' ps2 md' res"
proof (induction ns arbitrary: md ps)
  case (Cons n ns)
  show ?case
  proof (cases n)
    case (UnitFile name content)
    obtain x md1 ps1 where f: "load_unit_file E True name content md ps = (x, md1, ps1)" by (metis prod_cases3)
    with Cons.prems(1) UnitFile have x: "x = Inr ()" and rest: "load_nodes E True True ns md1 ps1 = Some (Inr (), md', ps')"
      by (auto split: sum.splits)
    have "\<forall>i. known ps1 i \<longrightarrow> known ps2 i" using load_nodes_known [OF rest] Cons.prems(2) by blast
    from load_unit_file_again [OF f [unfolded x] this] have a: "done_again ps ps1 ps2 md1 (load_unit_file E True name content md ps2)" .
    show ?thesis
    proof (cases "grew ps ps1")
      case False
      with a have "load_unit_file E True name content md ps2 = (Inr (), md1, ps2)" by (simp add: done_again_def)
      moreover have "grew ps ps' = grew ps1 ps'" using False load_unit_file_known [OF f] by (auto simp: grew_def)
      ultimately show ?thesis using Cons.IH [OF rest Cons.prems(2)] by (simp add: UnitFile done_again_def)
    next
      case True
      with a obtain i old md2 where g: "load_unit_file E True name content md ps2 = (Inl (DuplicatePermissions i old), md2, ps2)"
        by (auto simp: done_again_def)
      have "grew ps ps'" using True load_nodes_known [OF rest] by (auto simp: grew_def)
      then show ?thesis by (simp add: UnitFile g done_again_def)
    qed
  next
    case (UnitDir name entries)
    with Cons.prems show ?thesis by (cases entries) auto
  qed (use Cons.prems in auto)
qed (simp add: done_again_def)

lemma load_dirs_known: "load_dirs E b parts md ps = Some (r, md', ps') \<Longrightarrow> known ps j \<Longrightarrow> known ps' j"
proof (induction parts arbitrary: md ps)
  case (Cons p parts)
  then show ?case
    by (auto simp: load_dirs_Cons dest: load_nodes_known split: option.splits sum.splits)
qed simp

lemma load_dirs_again:
  "load_dirs E True parts md ps = Some (Inr (), md', ps') \<Longrightarrow> \<forall>i. known ps' i \<longrightarrow> known ps2 i \<Longrightarrow>
   \<exists>res. load_dirs E True parts md ps2 = Some res \<and> done_again ps ps' ps2 md' res"
proof (induction parts arbitrary: md ps)
  case (Cons p parts)
  show ?case
  proof (cases "read_dir_of E p")
    case None
    with Cons show ?thesis by (simp add: load_dirs_Cons)
  next
    case (Some d)
    with Cons.prems(1) obtain entries where d: "d = Inr entries" by (cases d) (auto simp: load_dirs_Cons)
    with Some Cons.prems(1) obtain md1 ps1 where n: "load_nodes E True True entries md ps = Some (Inr (), md1, ps1)"
      and rest: "load_dirs E True parts md1 ps1 = Some (Inr (), md', ps')"
      by (auto simp: load_dirs_Cons split: option.splits sum.splits)
    have "\<forall>i. known ps1 i \<longrightarrow> known ps2 i" using load_dirs_known [OF rest] Cons.prems(2) by blast
    from load_nodes_again [OF n this] obtain res where r: "load_nodes E True True entries md ps2 = Some res" "done_again ps ps1 ps2 md1 res"
      by blast
    show ?thesis
    proof (cases "grew ps ps1")
      case False
      with r(2) have "res = (Inr (), md1, ps2)" by (simp add: done_again_def)
      moreover have "grew ps ps' = grew ps1 ps'" using False load_nodes_known [OF n] by (auto simp: grew_def)
      ultimately show ?thesis using Cons.IH [OF rest Cons.prems(2)] r(1) Some d by (simp add: load_dirs_Cons done_again_def)
    next
      case True
      with r(2) obtain i old md2 where "res = (Inl (DuplicatePermissions i old), md2, ps2)" by (auto simp: done_again_def)
      moreover have "grew ps ps'" using True load_dirs_known [OF rest] by (auto simp: grew_def)
      ultimately show ?thesis using r(1) Some d by (simp add: load_dirs_Cons done_again_def)
    qed
  qed
qed (simp add: done_again_def)

lemma create_known:
  "create_units_metadata E scope dir b mr ps = Some (r, mr', ps') \<Longrightarrow> known ps j \<Longrightarrow> known ps' j"
  by (auto simp: create_units_metadata_def load_units_from_def dest: load_dirs_known split: sum.splits option.splits prod.splits)

text \<open>A scope whose units registered a permission cannot be loaded again with the same store of permissions.\<close>

lemma create_again:
  assumes "create_units_metadata E scope dir True mr ps = Some (Inr (), mr', ps')" and "grew ps ps'"
    and "\<forall>i. known ps' i \<longrightarrow> known ps2 i"
  shows "\<exists>i old. create_units_metadata E scope dir True mr2 ps2 = Some (Inl (DuplicatePermissions i old), mr2, ps2)"
proof -
  from assms(1) obtain md md1 where md: "prepare_metadata E scope = Inr md"
    and l: "load_dirs E True (split_char CHR '':'' dir) md ps = Some (Inr (), md1, ps')"
    by (auto simp: create_units_metadata_def load_units_from_def split: sum.splits option.splits prod.splits)
  from load_dirs_again [OF l assms(3)] assms(2) md show ?thesis
    by (auto simp: done_again_def create_units_metadata_def load_units_from_def)
qed

lemma load_permissions_known: "load_permissions ps = (r, ps') \<Longrightarrow> known ps j \<Longrightarrow> known ps' j"
  by (auto simp: load_permissions_def simp del: reg_perms.simps split: if_splits dest: reg_perms_known)

lemma load_scopes_known: "load_scopes E dir is pend W = Some (pend', W') \<Longrightarrow> known (xw_perms W) j \<Longrightarrow> known (xw_perms W') j"
proof (induction E dir "is" pend W rule: load_scopes.induct)
  case (2 E dir i "is" pend W)
  then show ?case
    by (auto simp: Let_def split: if_splits option.splits prod.splits dest: create_known)
qed simp

lemma no_metadata: "\<not> has_metadata (xw_meta (without_metadata W)) s"
proof -
  have "map_of (mr_metadata (fold (\<lambda>s mr. snd (mr_remove_metadata s mr)) ks mr)) s = (if s \<in> set ks then None else map_of (mr_metadata mr) s)"
    for ks and mr :: "('a, 'b) metadata_registry"
    by (induction ks arbitrary: mr) (simp_all add: mr_remove_metadata_def map_of_delete Let_def)
  then show ?thesis by (auto simp: has_metadata_def without_metadata_def map_of_eq_None_iff [symmetric] image_image)
qed

text \<open>
  C24. If the static units declare a permission, a reload that renews them fails with a duplicate
  permission, since the permissions of the first time are still registered; the old units are gone
  by then, so no static unit is left. The same holds for every later attempt.
\<close>

theorem static_units_lost_on_reload:
  assumes "units_preload E dir saved W = Some (Inr (), W1)" and "\<not> has_metadata (xw_meta W) ''static''"
    and "create_units_metadata E ''static'' dir True (xw_meta W) (xw_perms W) = Some (Inr (), mr, ps)" and "grew (xw_perms W) ps"
  shows "\<exists>i old. units_preload E dir saved (without_metadata W1) = Some (Inl (DuplicatePermissions i old), without_metadata W1) \<and>
    \<not> has_metadata (xw_meta (without_metadata W1)) ''static''"
proof -
  obtain r ps1 where lp: "load_permissions ps = (r, ps1)" by fastforce
  let ?W = "W\<lparr>xw_meta := mr, xw_perms := ps1\<rparr>"
  have s: "load_static E dir W = Some (r, ?W)" using assms(2,3) lp by (simp add: load_static_def)
  with assms(1) have "r = Inr ()" by (cases r) (simp_all add: units_preload_def)
  with assms(1) s obtain pend W2 where "load_scopes E dir (xw_desired ?W) [] ?W = Some (pend, W2)" "xw_perms W1 = xw_perms W2"
    by (auto simp: units_preload_def Let_def split: option.splits)
  with load_scopes_known [of E dir "xw_desired ?W" "[]" ?W pend W2] load_permissions_known [OF lp]
  have "\<forall>i. known ps i \<longrightarrow> known (xw_perms W1) i" by auto
  from create_again [OF assms(3,4) this] obtain i old where
    c: "\<And>mr2. \<exists>i old. create_units_metadata E ''static'' dir True mr2 (xw_perms W1) = Some (Inl (DuplicatePermissions i old), mr2, xw_perms W1)"
    using create_again [OF assms(3,4) \<open>\<forall>i. known ps i \<longrightarrow> known (xw_perms W1) i\<close>] by blast
  have p: "xw_perms (without_metadata W1) = xw_perms W1" by (simp add: without_metadata_def)
  from c [of "xw_meta (without_metadata W1)"] no_metadata [of W1] show ?thesis
    by (auto simp: units_preload_def load_static_def p)
qed

section \<open>Witnesses\<close>

text \<open>Every file declares the permission 5 and nothing else.\<close>

definition demo_loader :: "unit_fs \<Rightarrow> (unit, u16 \<times> ustr) loader_env" where
  "demo_loader fs =
     \<lparr>ld_from_str = (\<lambda>_. Inr ()), ld_as_table = (\<lambda>_. Some [(''permission'', ())]), ld_descriptor = (\<lambda>_. Inl UnknownError),
      ld_decode = (\<lambda>_ _. Inr [(5, ''five'')]), ld_name = snd, ld_permission = Some, ld_facet = (\<lambda>f. (0, ff_name f)),
      ld_impulse = (\<lambda>i. (0, fp_name i)), ld_route = (\<lambda>r. (0, tr_name r)), ld_loaders = Map.empty, ld_metadata_ext = ext_none,
      ld_registry_ext = ext_none, ld_variable = (\<lambda>_. None), ld_path = id, ld_text = (\<lambda>_. []), ld_fs = fs\<rparr>"

definition units_start :: "(unit, u16 \<times> ustr) units_world" where
  "units_start = \<lparr>xw_meta = mr_default, xw_perms = ps_new us_default, xw_desired = [], xw_global = ss_default, xw_scopes = None, xw_heap = None\<rparr>"

lemma one_dir: "trim ''u'' = ''u''" "split_char CHR '':'' ''u'' = [''u'']" "file_parts ''a.toml'' = (''a'', Some ''toml'')"
  "str_contains ''permission'' ''permission''"
  by code_simp+

lemma nested_directory_hangs_witness:
  "\<exists>md. prepare_metadata (demo_loader [''u'' \<mapsto> Inr [UnitDir ''d'' (Inr [])]]) ''x'' = Inr md \<and>
     dirs_nest (demo_loader [''u'' \<mapsto> Inr [UnitDir ''d'' (Inr [])]]) True (split_char CHR '':'' ''u'') md (ps_new us_default)"
proof -
  let ?E = "demo_loader [''u'' \<mapsto> Inr [UnitDir ''d'' (Inr [])]]"
  obtain md where md: "prepare_metadata ?E ''x'' = Inr md"
    by (simp add: prepare_metadata_def demo_loader_def ext_none_def ext_resolve_def)
  have "ld_fs ?E ''u'' = Some (Inr [UnitDir ''d'' (Inr [])])" by (simp add: demo_loader_def)
  then have "create_units_metadata ?E ''x'' ''u'' True mr_default (ps_new us_default) = None"
    by (simp add: create_units_metadata_def md load_units_from_def one_dir load_dirs_Cons read_dir_of_def)
  with nested_directory_hangs [OF md, of "''u''" True mr_default "ps_new us_default"] md show ?thesis by simp
qed

lemma insert_frame:
  "me_name (me_insert t grp i md) = me_name md" "me_name_to_type (me_insert t grp i md) = me_name_to_type md"
  "me_parsers (me_insert t grp i md) = me_parsers md"
  by (simp_all add: me_insert_def Let_def)

lemma builtin_frame:
  "me_name (add_builtin_defs E md) = me_name md" "me_name_to_type (add_builtin_defs E md) = me_name_to_type md"
  "me_parsers (add_builtin_defs E md) = me_parsers md"
proof -
  have "me_name (fold (\<lambda>(t, i). me_insert t ''rind'' i) xs md) = me_name md \<and>
      me_name_to_type (fold (\<lambda>(t, i). me_insert t ''rind'' i) xs md) = me_name_to_type md \<and>
      me_parsers (fold (\<lambda>(t, i). me_insert t ''rind'' i) xs md) = me_parsers md" for xs
    by (induction xs arbitrary: md) (auto simp: insert_frame)
  then show "me_name (add_builtin_defs E md) = me_name md" "me_name_to_type (add_builtin_defs E md) = me_name_to_type md"
    "me_parsers (add_builtin_defs E md) = me_parsers md" by (simp_all add: add_builtin_defs_def)
qed

lemma unit_metadata_permission:
  "me_name (unit_metadata E scope) = scope" "me_name_to_type (unit_metadata E scope) ''permission'' = Some 15"
  "me_parsers (unit_metadata E scope) 15 = Some (\<lambda>v. case ld_decode E ty_permission v of Inl e \<Rightarrow> Inl e | Inr xs \<Rightarrow> Inr (AnyItems 15 xs))"
  by (simp_all add: unit_metadata_def unit_sections_def me_of_def me_descriptor_def me_new_def descriptor_type_def ty_def
      ty_service_def ty_timer_def ty_mount_def ty_socket_def ty_facet_def ty_impulse_def ty_permission_def ty_route_def ty_variable_def
      fun_eq_iff split: sum.split)

lemma index_types_present:
  "has_metadata mr scope \<Longrightarrow> \<exists>mr'. index_types nm ts scope mr = (Inr (), mr') \<and> mr_metadata mr' = mr_metadata mr"
proof (induction ts arbitrary: mr)
  case (Cons t ts)
  from Cons.prems obtain mr1 where e: "ensure_index_for_type nm t scope mr = (Inr (), mr1)" "mr_metadata mr1 = mr_metadata mr"
    by (auto simp: ensure_index_for_type_def has_metadata_def Let_def)
  with Cons.IH [of mr1] Cons.prems show ?case by (simp add: has_metadata_def)
qed simp

definition five_loader :: "(unit, u16 \<times> ustr) loader_env" where
  "five_loader = demo_loader [''u'' \<mapsto> Inr [UnitFile ''a.toml'' (Inr ''permission'')]]"

lemma five_created:
  "\<exists>mr ps. create_units_metadata five_loader ''static'' ''u'' True mr_default (ps_new us_default) = Some (Inr (), mr, ps) \<and>
     ps = snd (reg_perm 5 ''five'' (ps_new us_default))"
proof -
  define md where "md = add_builtin_defs five_loader (unit_metadata five_loader ''static'')"
  have p: "prepare_metadata five_loader ''static'' = Inr md"
    by (simp add: prepare_metadata_def md_def five_loader_def demo_loader_def ext_none_def ext_resolve_def)
  have m: "me_name md = ''static''" "me_name_to_type md ''permission'' = Some 15"
    "me_parsers md 15 = Some (\<lambda>v. case ld_decode five_loader ty_permission v of Inl e \<Rightarrow> Inl e | Inr xs \<Rightarrow> Inr (AnyItems 15 xs))"
    by (simp_all add: md_def builtin_frame unit_metadata_permission)
  define md1 where "md1 = md\<lparr>me_values := AList.update ''a'' ((group_values ''a'' md)(15 \<mapsto> AnyItems 15 [(5, ''five'')])) (me_values md)\<rparr>"
  have t: "toml_loader five_loader ''permission'' ''a'' md = (Inr (), md1)"
    using m by (simp add: toml_loader_def me_from_toml_def me_collect_value_def me_insert_value_def five_loader_def demo_loader_def md1_def)
  have g: "group_permissions five_loader ''a'' md1 = [(5, ''five'')]"
    by (simp add: group_permissions_def get_in_group_def md1_def map_of_update ty_permission_def ty_def five_loader_def demo_loader_def List.map_filter_def)
  have l: "loader_for five_loader ''toml'' = Some (toml_loader five_loader)" by (simp add: loader_for_def five_loader_def demo_loader_def)
  define ps where "ps = snd (reg_perm 5 ''five'' (ps_new us_default))"
  have r: "reg_perm 5 ''five'' (ps_new us_default) = (Inr (), ps)"
    by (simp add: ps_def reg_perm_def ps_new_def)
  have f: "ld_fs five_loader ''u'' = Some (Inr [UnitFile ''a.toml'' (Inr ''permission'')])" by (simp add: five_loader_def demo_loader_def)
  have "load_unit_file five_loader True ''a.toml'' (Inr ''permission'') md (ps_new us_default) =
      (Inr (), md1, ps)"
    by (simp add: load_unit_file_def one_dir l t after_file_def g r del: str_contains.simps)
  then have d: "load_units_from five_loader True ''u'' md (ps_new us_default) = Some (Inr (), md1, ps)"
    by (simp add: load_units_from_def one_dir load_dirs_Cons read_dir_of_def f)
  have x: "ext_act (ld_metadata_ext five_loader) n v = (Inr (), v)" "ext_act (ld_registry_ext five_loader) n' v' = (Inr (), v')" for n v n' v'
    by (simp_all add: five_loader_def demo_loader_def ext_none_def ext_act_def)
  have "has_metadata (insert_metadata md1 mr_default) ''static''"
    using m(1) by (simp add: has_metadata_def insert_metadata_def mr_default_def md1_def)
  from index_types_present [OF this] obtain mr where "index_types (ld_name five_loader)
      [ty_service, ty_mount, ty_socket, ty_timer, ty_facet, ty_impulse] ''static'' (insert_metadata md1 mr_default) = (Inr (), mr)" by blast
  with p d x show ?thesis by (simp add: create_units_metadata_def build_indexes_def ps_def)
qed

lemma static_units_lost_on_reload_witness:
  "\<exists>W1 i old. units_preload five_loader ''u'' vh_new units_start = Some (Inr (), W1) \<and>
     units_preload five_loader ''u'' vh_new (without_metadata W1) = Some (Inl (DuplicatePermissions i old), without_metadata W1)"
proof -
  have no: "\<not> has_metadata (xw_meta units_start) ''static''" by (simp add: has_metadata_def units_start_def mr_default_def)
  from five_created obtain mr ps where c: "create_units_metadata five_loader ''static'' ''u'' True (xw_meta units_start) (xw_perms units_start) = Some (Inr (), mr, ps)"
    and ps: "ps = snd (reg_perm 5 ''five'' (ps_new us_default))" by (auto simp: units_start_def)
  have "load_permissions ps = (Inr (), snd (load_permissions ps))"
    by (simp add: ps load_permissions_def ps_exists_def reg_perm_def ps_new_def)
  then obtain ps1 where "load_permissions ps = (Inr (), ps1)" by metis
  then have "load_static five_loader ''u'' units_start = Some (Inr (), units_start\<lparr>xw_meta := mr, xw_perms := ps1\<rparr>)"
    using c no by (simp add: load_static_def)
  then obtain W1 where w: "units_preload five_loader ''u'' vh_new units_start = Some (Inr (), W1)"
    by (simp add: units_preload_def units_start_def Let_def)
  have "grew (xw_perms units_start) ps" by (auto simp: grew_def known_def ps units_start_def reg_perm_def ps_new_def)
  from static_units_lost_on_reload [OF w no c this] w show ?thesis by blast
qed

end
