(* ===== verification/Daemon.thy ===== *)
theory Daemon
  imports Services
begin

text \<open>
  The two runtimes that feed the others: \<^verbatim>\<open>crates/services/src/reaper.rs\<close>, which turns the
  deaths of child processes into messages, and \<^verbatim>\<open>crates/services/src/events.rs\<close>, which takes the
  events of the flow runtime from the event bus and has services, sockets and mounts act on them.
\<close>

section \<open>Reaping\<close>

text \<open>The answers of \<open>waitpid\<close> without blocking.\<close>

datatype wait_status = WExited i32 i32 | WSignaled i32 nat | WStillAlive | WNoChild | WFailed | WOther

text \<open>
  The loop of \<open>reap_once\<close> over the answers the kernel gives; behind the last one there is no
  child left.
\<close>

fun reap_once :: "wait_status list \<Rightarrow> svc_cmd list" where
  "reap_once [] = []"
| "reap_once (s # ss) =
     (case s of
        WExited pid code \<Rightarrow> SvcChildExited pid (sint code) # reap_once ss
      | WSignaled pid signal \<Rightarrow> SvcChildExited pid (128 + int signal) # reap_once ss
      | WOther \<Rightarrow> reap_once ss
      | _ \<Rightarrow> [])"

definition reaper_sweep :: "svc_cmd list" where
  "reaper_sweep = [SvcTimeoutSweep]"

section \<open>The events runtime\<close>

text \<open>The subscription, and the bus of flow events among the others.\<close>

record events_rt =
  ev_rx :: "nat option"

definition flow_events :: nat where "flow_events = 0"

definition watch_events :: "events_rt \<Rightarrow> flow_event event_bus \<Rightarrow> events_rt \<times> flow_event event_bus" where
  "watch_events rt bus = (case eb_subscribe flow_events bus of (c, bus) \<Rightarrow> (rt\<lparr>ev_rx := Some c\<rparr>, bus))"

definition reload_scopes :: "scope_store option \<Rightarrow> unit result \<times> svc_cmd list \<times> scope_store option" where
  "reload_scopes store =
     (case store of
        None \<Rightarrow> (Inl (InvalidState ''scope store not found''), [], None)
      | Some st \<Rightarrow>
          (Inr (),
           if ss_pending st = [] then []
           else [SvcBootstrap, SockBootstrap, SvcStartAll, SockSetupAll] @
             concat (map (\<lambda>scope. [MntMountAll scope, EvEvaluate no_trigger (Some scope)]) (ss_pending st)),
           Some (st\<lparr>ss_pending := []\<rparr>)))"

definition events_evaluate :: "emit_trigger \<Rightarrow> ustr option \<Rightarrow> svc_cmd list" where
  "events_evaluate t scope =
     (let s = (case scope of Some s \<Rightarrow> s | None \<Rightarrow> ''static'') in [SvcEvaluate t s, SockEvaluate t s])"

definition json_text :: "json \<Rightarrow> string" where
  "json_text j = (case j of JStr s \<Rightarrow> s | _ \<Rightarrow> [])"

definition ends_scope :: "flow_event \<Rightarrow> bool" where
  "ends_scope e \<longleftrightarrow> fe_name e = ''rind:terminate_scope''"

definition trigger_of :: "json_lib \<Rightarrow> flow_event \<Rightarrow> emit_trigger" where
  "trigger_of L e =
     \<lparr>et_name = Some (fe_name e), et_flow_type = Some (case fe_type e of Facet \<Rightarrow> FacetType | Impulse \<Rightarrow> ImpulseType),
      et_payload = Some (payload_from_json L (Some (fe_payload e))), et_action = fe_action e\<rparr>"

definition one_event :: "json_lib \<Rightarrow> flow_event \<Rightarrow> svc_cmd list" where
  "one_event L e =
     (if ends_scope e
      then (let scope = json_text (fe_payload e) in [SvcStopForScope scope, SockStopForScope scope, MntUnmountAll scope])
      else [SvcDrain (Some e), EvEvaluate (trigger_of L e) None])"

text \<open>\<open>drain_events\<close>: as long as an event is there; without one that is forwarded, a drain without event.\<close>

function drain_loop :: "json_lib \<Rightarrow> nat \<Rightarrow> flow_event event_bus \<Rightarrow> bool \<Rightarrow> svc_cmd list \<times> bool \<times> flow_event event_bus" where
  "drain_loop L c bus trigger =
     (case eb_try_recv c bus of
        (None, bus') \<Rightarrow> ([], trigger, bus')
      | (Some e, bus') \<Rightarrow>
          (case drain_loop L c bus' (trigger \<and> ends_scope e) of
             (cmds, trigger, bus') \<Rightarrow> (one_event L e @ cmds, trigger, bus')))"
  by pat_completeness auto
termination
  by (relation "measure (\<lambda>(L, c, bus, trigger). case eb_store bus c of None \<Rightarrow> 0 | Some q \<Rightarrow> length q)")
    (auto simp: eb_try_recv_def split: option.splits list.splits)

declare drain_loop.simps [simp del]

definition events_drain :: "json_lib \<Rightarrow> events_rt \<Rightarrow> flow_event event_bus \<Rightarrow> svc_cmd list \<times> flow_event event_bus" where
  "events_drain L rt bus =
     (case (case ev_rx rt of Some c \<Rightarrow> drain_loop L c bus True | None \<Rightarrow> ([], True, bus)) of
        (cmds, trigger, bus) \<Rightarrow> (cmds @ (if trigger then [SvcDrain None] else []), bus))"

section \<open>What reaches the other runtimes\<close>

text \<open>
  The messages of one context wait in one queue. Those to the events runtime are handled when their
  turn comes and put two more at its end; the others reach their runtime in this order.
\<close>

definition is_evaluation :: "svc_cmd \<Rightarrow> bool" where
  "is_evaluation c = (case c of EvEvaluate t scope \<Rightarrow> True | _ \<Rightarrow> False)"

function delivered :: "svc_cmd list \<Rightarrow> svc_cmd list" where
  "delivered [] = []"
| "delivered (c # cs) =
     (case c of
        EvEvaluate t scope \<Rightarrow> delivered (cs @ events_evaluate t scope)
      | _ \<Rightarrow> c # delivered cs)"
  by pat_completeness auto
termination
  by (relation "measure (\<lambda>cs. length cs + 3 * length (filter is_evaluation cs))")
    (auto simp: is_evaluation_def events_evaluate_def Let_def)

declare delivered.simps(2) [simp del]

definition evaluations :: "svc_cmd list \<Rightarrow> svc_cmd list" where
  "evaluations cs = concat (map (\<lambda>c. case c of EvEvaluate t scope \<Rightarrow> events_evaluate t scope | _ \<Rightarrow> []) cs)"

lemma delivered_plain: "\<not> is_evaluation c \<Longrightarrow> delivered (c # cs) = c # delivered cs"
  by (simp add: delivered.simps is_evaluation_def split: svc_cmd.splits)

lemma delivered_evaluation: "delivered (EvEvaluate t scope # cs) = delivered (cs @ events_evaluate t scope)"
  by (simp add: delivered.simps)

lemma evaluations_append: "evaluations (cs @ ds) = evaluations cs @ evaluations ds"
  by (simp add: evaluations_def)

lemma evaluations_plain: "list_all (\<lambda>c. \<not> is_evaluation c) cs \<Longrightarrow> evaluations cs = []"
  by (induction cs) (auto simp: evaluations_def is_evaluation_def split: svc_cmd.splits)

lemma evaluate_plain: "list_all (\<lambda>c. \<not> is_evaluation c) (events_evaluate t scope)"
  by (simp add: events_evaluate_def is_evaluation_def Let_def)

lemma delivered_eq: "delivered cs = filter (\<lambda>c. \<not> is_evaluation c) cs @ evaluations cs"
proof (induction "length cs + 3 * length (filter is_evaluation cs)" arbitrary: cs rule: less_induct)
  case less
  show ?case
  proof (cases cs)
    case (Cons c ds)
    show ?thesis
    proof (cases "is_evaluation c")
      case True
      then obtain t scope where c: "c = EvEvaluate t scope" by (auto simp: is_evaluation_def split: svc_cmd.splits)
      have f: "filter is_evaluation (events_evaluate t scope) = []" "filter (\<lambda>c. \<not> is_evaluation c) (events_evaluate t scope) = events_evaluate t scope"
        "length (events_evaluate t scope) = 2"
        by (simp_all add: events_evaluate_def is_evaluation_def Let_def)
      have "delivered (ds @ events_evaluate t scope) =
          filter (\<lambda>c. \<not> is_evaluation c) (ds @ events_evaluate t scope) @ evaluations (ds @ events_evaluate t scope)"
        by (rule less) (simp add: Cons True f)
      moreover have "evaluations cs = events_evaluate t scope @ evaluations ds" by (simp add: Cons c evaluations_def)
      ultimately show ?thesis
        using f evaluate_plain [of t scope] True
        by (simp add: Cons c delivered_evaluation evaluations_append evaluations_plain)
    next
      case False
      with less [of ds] have "delivered ds = filter (\<lambda>c. \<not> is_evaluation c) ds @ evaluations ds" by (simp add: Cons)
      moreover have "evaluations cs = evaluations ds"
        using False by (simp add: Cons evaluations_def is_evaluation_def split: svc_cmd.splits)
      ultimately show ?thesis using False by (simp add: Cons delivered_plain)
    qed
  qed (simp add: evaluations_def)
qed

lemma drain_loop_eq:
  "eb_store bus c = Some es \<Longrightarrow>
   drain_loop L c bus trigger =
     (concat (map (one_event L) es), trigger \<and> list_all ends_scope es, bus\<lparr>eb_store := (eb_store bus)(c \<mapsto> [])\<rparr>)"
proof (induction es arbitrary: bus trigger)
  case Nil
  then show ?case by (subst drain_loop.simps) (auto simp: eb_try_recv_def intro!: event_bus.equality)
next
  case (Cons e es)
  let ?bus = "bus\<lparr>eb_store := (eb_store bus)(c \<mapsto> es)\<rparr>"
  have r: "eb_try_recv c bus = (Some e, ?bus)" using Cons.prems by (simp add: eb_try_recv_def)
  have b: "eb_store ?bus c = Some es" "?bus\<lparr>eb_store := (eb_store ?bus)(c \<mapsto> [])\<rparr> = bus\<lparr>eb_store := (eb_store bus)(c \<mapsto> [])\<rparr>"
    by (simp_all add: fun_eq_iff)
  note run = Cons.IH [OF b(1), of "trigger \<and> ends_scope e", unfolded b(2)]
  show ?case
    by (subst drain_loop.simps) (simp add: r run)
qed

text \<open>What is sent for an event at once, and the evaluation it causes later.\<close>

definition at_once :: "flow_event \<Rightarrow> svc_cmd list" where
  "at_once e =
     (if ends_scope e
      then [SvcStopForScope (json_text (fe_payload e)), SockStopForScope (json_text (fe_payload e)), MntUnmountAll (json_text (fe_payload e))]
      else [SvcDrain (Some e)])"

definition later_on :: "json_lib \<Rightarrow> flow_event \<Rightarrow> svc_cmd list" where
  "later_on L e = (if ends_scope e then [] else [SvcEvaluate (trigger_of L e) ''static'', SockEvaluate (trigger_of L e) ''static''])"

lemma delivered_events:
  "filter (\<lambda>c. \<not> is_evaluation c) (concat (map (one_event L) es)) = concat (map at_once es)"
  "evaluations (concat (map (one_event L) es)) = concat (map (later_on L) es)"
  by (induction es)
    (simp_all add: evaluations_def one_event_def at_once_def later_on_def events_evaluate_def is_evaluation_def Let_def)

text \<open>
  C23. No event of the flow runtime is lost, repeated or overtaken on its way: from the moment the events
  runtime watches, whatever else happens on the bus, a drain has the services handle every event in the
  order of emission, ends a scope in the order services, sockets, mounts, and only then has services
  and sockets evaluate their conditions, once per event and in the same order. A drain without
  an ordinary event runs the services' own drain once, and so does every drain after it.
\<close>

theorem flow_events_forwarded:
  assumes "fold bus_step before (eb_new notifier) = bus" and "watch_events rt bus = (rt1, bus1)"
    and "\<forall>c. ev_rx rt1 = Some c \<longrightarrow> BDrop c \<notin> set later"
    and "events_drain L rt1 (fold bus_step later bus1) = (cmds, bus2)" and "es = emitted flow_events later"
  shows "delivered cmds = concat (map at_once es) @ (if list_all ends_scope es then [SvcDrain None] else []) @ concat (map (later_on L) es) \<and>
    delivered (fst (events_drain L rt1 bus2)) = [SvcDrain None]"
proof -
  obtain c where c: "eb_subscribe flow_events bus = (c, bus1)" "ev_rx rt1 = Some c"
    using assms(2) by (auto simp: watch_events_def split: prod.splits)
  have q: "eb_store (fold bus_step later bus1) c = Some es"
    using subscribed_queue [OF assms(1) c(1)] assms(3,5) c(2) by simp
  have cmds: "cmds = concat (map (one_event L) es) @ (if list_all ends_scope es then [SvcDrain None] else [])"
    and b: "eb_store bus2 c = Some []"
    using assms(4) drain_loop_eq [OF q] c(2) by (auto simp: events_drain_def)
  have n: "\<not> is_evaluation (SvcDrain None)" "evaluations [SvcDrain None] = []" by (simp_all add: is_evaluation_def evaluations_def)
  have "delivered cmds = concat (map at_once es) @ (if list_all ends_scope es then [SvcDrain None] else []) @ concat (map (later_on L) es)"
    using n by (simp add: cmds delivered_eq evaluations_append delivered_events) (simp add: evaluations_def)
  moreover have "fst (events_drain L rt1 bus2) = [SvcDrain None]"
    using drain_loop_eq [OF b, of L True] c(2) by (simp add: events_drain_def)
  ultimately show ?thesis using n by (simp add: delivered_eq)
qed

lemma flow_events_forwarded_witness:
  "\<exists>rt1 bus1 cmds bus2.
     watch_events \<lparr>ev_rx = None\<rparr> (eb_new None) = (rt1, bus1) \<and>
     events_drain demo_lib rt1 (fold bus_step
       [BEmit 0 \<lparr>fe_name = ''g:up'', fe_payload = JNull, fe_action = Apply, fe_type = Facet\<rparr>,
        BEmit 0 \<lparr>fe_name = ''rind:terminate_scope'', fe_payload = JStr ''x'', fe_action = Apply, fe_type = Impulse\<rparr>] bus1) = (cmds, bus2) \<and>
     map is_evaluation cmds = [False, True, False, False, False] \<and> length (delivered cmds) = 6"
proof -
  let ?up = "\<lparr>fe_name = ''g:up'', fe_payload = JNull, fe_action = Apply, fe_type = Facet\<rparr>"
  let ?fin = "\<lparr>fe_name = ''rind:terminate_scope'', fe_payload = JStr ''x'', fe_action = Apply, fe_type = Impulse\<rparr>"
  obtain rt1 bus1 where w: "watch_events \<lparr>ev_rx = None\<rparr> (eb_new None) = (rt1, bus1)" by fastforce
  obtain cmds bus2 where d: "events_drain demo_lib rt1 (fold bus_step [BEmit 0 ?up, BEmit 0 ?fin] bus1) = (cmds, bus2)" by fastforce
  have start: "fold bus_step [] (eb_new None) = eb_new None" by simp
  have "delivered cmds = [SvcDrain (Some ?up), SvcStopForScope ''x'', SockStopForScope ''x'', MntUnmountAll ''x''] @ later_on demo_lib ?up"
    using flow_events_forwarded [OF start w _ d refl] by (simp add: flow_events_def at_once_def ends_scope_def json_text_def later_on_def)
  moreover have "length (later_on demo_lib ?up) = 2" by (simp add: later_on_def ends_scope_def)
  moreover have "eb_store (fold bus_step [BEmit 0 ?up, BEmit 0 ?fin] bus1) 0 = Some [?up, ?fin] \<and> ev_rx rt1 = Some 0"
    using w subscribed_queue [OF start, of 0 0 bus1 "[BEmit 0 ?up, BEmit 0 ?fin]"]
    by (auto simp: watch_events_def flow_events_def eb_subscribe_def eb_new_def Let_def split: prod.splits)
  then have "map is_evaluation cmds = [False, True, False, False, False]"
    using d drain_loop_eq [of "fold bus_step [BEmit 0 ?up, BEmit 0 ?fin] bus1" 0 "[?up, ?fin]" demo_lib True]
    by (auto simp: events_drain_def one_event_def ends_scope_def is_evaluation_def Let_def)
  ultimately show ?thesis using w d by (intro exI [of _ rt1] exI [of _ bus1] exI [of _ cmds] exI [of _ bus2]) simp
qed

end
