(* ===== verification/Transport.thy ===== *)
theory Transport
  imports Loader Services Ipc ShmRing
begin

text \<open>
  The transports of the flow runtime, \<^verbatim>\<open>crates/flow/src/transport.rs\<close> and
  \<^verbatim>\<open>shm_tp.rs\<close>: endpoints that clients connect to over a socket or a shared ring, what is
  sent to them, and what is done with the messages they send. The kernel says which bytes arrive and who
  is at the other end of a connection.
\<close>

section \<open>State\<close>

text \<open>
  What a listener was set up with, and the mode of its socket file; one that could not be bound serves nobody,
  but counts as started.
\<close>

record tp_listener =
  tl_perms :: "ustr list option"
  tl_store :: perm_store
  tl_mode :: u32
  tl_bound :: bool

text \<open>
  A write to a client waits for room and fails only when the client is gone; \<open>ud_open\<close> says whether it is there.
  A client that stays and never reads makes the write, and with it the runtime, wait, which is not modelled.
\<close>

record uds_client =
  ud_open :: bool
  ud_bytes :: "u8 list"

record shm_client =
  sc_ring :: shm_ring
  sc_events :: nat

text \<open>A message that came in: its endpoint, the user it counts for, and the client to be answered.\<close>

type_synonym tp_incoming = "ustr \<times> transport_message \<times> u32 \<times> nat option"

datatype tp_effect =
    TpPing ustr
  | TpLog log_level string "(string \<times> string) list"
  | TpSetFacet ustr "json option"
  | TpRemoveFacet ustr "json option"
  | TpImpulse ustr "json option"
  | TpReply nat transport_message
  | TpToStdio ustr transport_message
  | TpSetup svc_cmd

record tp_world =
  tw_uds :: "(ustr \<times> tp_listener) list"
  tw_shm :: "(ustr \<times> tp_listener) list"
  tw_uds_clients :: "ustr \<rightharpoonup> uds_client list"
  tw_shm_clients :: "ustr \<rightharpoonup> shm_client list"
  tw_uds_incoming :: "tp_incoming list"
  tw_shm_incoming :: "tp_incoming list"
  tw_stdio :: "ustr list"
  tw_out :: "tp_effect list"

record ('v, 'i) tp_env =
  te_meta :: "('v, 'i) metadata_registry"
  te_name :: "'i \<Rightarrow> string"
  te_facet :: "'i \<Rightarrow> flow_facet option"
  te_impulse :: "'i \<Rightarrow> flow_impulse option"
  te_route :: "'i \<Rightarrow> transport_route option"
  te_lib :: json_lib
  te_utf8 :: "u8 list \<Rightarrow> string option"
  te_enc :: "transport_message \<Rightarrow> u8 list"
  te_dec :: "u8 list \<Rightarrow> string + transport_message"
  te_scope_perms :: "perm_store option"
  te_graph :: "facet_graph option"
  te_bind :: "ustr \<Rightarrow> bool"
  te_umask :: u32
  te_group :: "u32 \<Rightarrow> bool"
  te_fuel :: nat

definition tp_emit :: "tp_effect list \<Rightarrow> tp_world \<Rightarrow> tp_world" where
  "tp_emit es w = w\<lparr>tw_out := tw_out w @ es\<rparr>"

section \<open>Endpoints\<close>

text \<open>The store of permissions is looked up in the scope of the call; a default one is empty.\<close>

definition scope_store_of :: "('v, 'i) tp_env \<Rightarrow> perm_store" where
  "scope_store_of E = (case te_scope_perms E of Some pm \<Rightarrow> pm | None \<Rightarrow> ps_new us_default)"

text \<open>
  The directory of the socket files, and a socket file when it is bound, get what the file mode creation mask of
  the process leaves; only for an endpoint with permissions is the mode of the file then set.
\<close>

definition created_mode :: "('v, 'i) tp_env \<Rightarrow> u32" where "created_mode E = 0x1FF AND NOT (te_umask E)"

definition listener_mode :: "('v, 'i) tp_env \<Rightarrow> ustr list option \<Rightarrow> u32" where
  "listener_mode E perms = (if perms = None then created_mode E else 0x1B6)"

definition new_listener :: "('v, 'i) tp_env \<Rightarrow> ustr \<Rightarrow> ustr list option \<Rightarrow> tp_listener" where
  "new_listener E endpoint perms =
     \<lparr>tl_perms = perms, tl_store = scope_store_of E, tl_mode = listener_mode E perms, tl_bound = te_bind E endpoint\<rparr>"

text \<open>
  The kernel's part of connecting: root may always, anybody else needs the search bit of the directory and
  the write bit of the socket file, of the group if it is the daemon's.
\<close>

definition mode_allows :: "('v, 'i) tp_env \<Rightarrow> u32 \<Rightarrow> u32 \<Rightarrow> u32 \<Rightarrow> bool" where
  "mode_allows E uid bits mode \<longleftrightarrow> uid = 0 \<or> mode AND (if te_group E uid then 8 * bits else bits) \<noteq> 0"

definition may_connect :: "('v, 'i) tp_env \<Rightarrow> u32 \<Rightarrow> tp_listener \<Rightarrow> bool" where
  "may_connect E uid l \<longleftrightarrow> tl_bound l \<and> mode_allows E uid 1 (created_mode E) \<and> mode_allows E uid 2 (tl_mode l)"

definition setup_uds :: "('v, 'i) tp_env \<Rightarrow> ustr \<Rightarrow> ustr list option \<Rightarrow> tp_world \<Rightarrow> tp_world" where
  "setup_uds E endpoint perms w =
     (if map_of (tw_uds w) endpoint \<noteq> None then w
      else w\<lparr>tw_uds := (endpoint, new_listener E endpoint perms) # tw_uds w\<rparr>)"

definition setup_shm :: "('v, 'i) tp_env \<Rightarrow> ustr \<Rightarrow> ustr list option \<Rightarrow> tp_world \<Rightarrow> tp_world" where
  "setup_shm E endpoint perms w =
     (if map_of (tw_shm w) endpoint \<noteq> None then w
      else w\<lparr>tw_shm := (endpoint, new_listener E endpoint perms) # tw_shm w\<rparr>)"

definition transport_endpoint :: "transport_method \<Rightarrow> string option" where
  "transport_endpoint t =
     (case t of
        TMOptions _ (x # _) _ \<Rightarrow> if starts_with ''addr:'' x then Some (trim_start_matches ''addr:'' x) else None
      | _ \<Rightarrow> None)"

definition setup_transport_endpoint :: "string \<Rightarrow> transport_method \<Rightarrow> tp_world \<Rightarrow> tp_world" where
  "setup_transport_endpoint endpoint t w =
     (let i = transport_id t; ep = (case transport_endpoint t of Some e \<Rightarrow> e | None \<Rightarrow> endpoint) in
      if i = ''uds'' then tp_emit [TpSetup (TpSetupUds ep (get_permissions t))] w
      else if i = ''shm'' then tp_emit [TpSetup (TpSetupShm ep (get_permissions t))] w
      else if starts_with ''route:'' i then tp_emit [TpSetup (TpSetupRoute i)] w
      else w)"

definition scope_from_route :: "string \<Rightarrow> ustr" where
  "scope_from_route name = (case rsplit_once CHR ''@'' name of Some (_, scope) \<Rightarrow> scope | None \<Rightarrow> ''static'')"

definition find_route :: "('v, 'i) tp_env \<Rightarrow> ustr \<Rightarrow> string \<Rightarrow> transport_route option" where
  "find_route E scope name = Option.bind (mr_lookup (te_name E) (te_meta E) ty_route scope name) (te_route E)"

definition setup_route :: "('v, 'i) tp_env \<Rightarrow> ustr \<Rightarrow> tp_world \<Rightarrow> unit result \<times> tp_world" where
  "setup_route E endpoint w =
     (let ep = trim_start_matches ''route:'' endpoint in
      case find_route E (scope_from_route ep) ep of
        None \<Rightarrow> (Inl (NotFound (''transport route '' @ ep)), w)
      | Some r \<Rightarrow> (Inr (), setup_transport_endpoint ep (tr_protocol r) w))"

definition tp_bootstrap :: "('v, 'i) tp_env \<Rightarrow> tp_world \<Rightarrow> tp_world" where
  "tp_bootstrap E w =
     fold (\<lambda>(grp, r) w.
         let ep = rslvns_join grp (tr_name r); i = transport_id (tr_protocol r) in
         if i = ''uds'' then setup_uds E ep (get_permissions (tr_protocol r)) w
         else if i = ''shm'' then setup_shm E ep (get_permissions (tr_protocol r)) w
         else w)
       (List.map_filter (\<lambda>(grp, i). map_option (Pair grp) (te_route E i))
          (case mr_items (te_meta E) ty_route ''static'' of Some xs \<Rightarrow> xs | None \<Rightarrow> [])) w"

section \<open>Clients\<close>

text \<open>
  Who is let in, and as which user: without permissions anybody who could connect, as user \<open>0\<close>; with them,
  whoever holds one of them. \<open>known\<close> says whether the kernel tells the user at the other end. Outer
  \<open>None\<close>: the check does not return.
\<close>

definition admitted :: "nat \<Rightarrow> tp_listener \<Rightarrow> u32 \<Rightarrow> bool \<Rightarrow> u32 option option" where
  "admitted fuel l uid known =
     (case tl_perms l of
        None \<Rightarrow> Some (Some 0)
      | Some perms \<Rightarrow>
          if \<not> known then Some None
          else map_option (\<lambda>ok. if ok then Some uid else None) (any_opt (holds_named fuel (tl_store l) uid) perms))"

definition uds_connect :: "('v, 'i) tp_env \<Rightarrow> ustr \<Rightarrow> u32 \<Rightarrow> bool \<Rightarrow> tp_world \<Rightarrow> (u32 option \<times> tp_world) option" where
  "uds_connect E endpoint uid known w =
     (case map_of (tw_uds w) endpoint of
        None \<Rightarrow> Some (None, w)
      | Some l \<Rightarrow>
          if \<not> may_connect E uid l then Some (None, w)
          else map_option (\<lambda>r. case r of
              None \<Rightarrow> (None, w)
            | Some uid \<Rightarrow>
                (Some uid, w\<lparr>tw_uds_clients := (tw_uds_clients w)(endpoint \<mapsto>
                   (case tw_uds_clients w endpoint of Some cs \<Rightarrow> cs | None \<Rightarrow> []) @ [\<lparr>ud_open = True, ud_bytes = []\<rparr>])\<rparr>))
            (admitted (te_fuel E) l uid known))"

definition shm_size :: u32 where "shm_size = 1024 * 1024"

definition shm_connect :: "('v, 'i) tp_env \<Rightarrow> ustr \<Rightarrow> u32 \<Rightarrow> bool \<Rightarrow> tp_world \<Rightarrow> (u32 option \<times> tp_world) option" where
  "shm_connect E endpoint uid known w =
     (case map_of (tw_shm w) endpoint of
        None \<Rightarrow> Some (None, w)
      | Some l \<Rightarrow>
          if \<not> may_connect E uid l then Some (None, w)
          else map_option (\<lambda>r. case r of
              None \<Rightarrow> (None, w)
            | Some uid \<Rightarrow>
                (Some uid, w\<lparr>tw_shm_clients := (tw_shm_clients w)(endpoint \<mapsto>
                   (case tw_shm_clients w endpoint of Some cs \<Rightarrow> cs | None \<Rightarrow> []) @
                   [\<lparr>sc_ring = ring_new shm_size (replicate (unat (shm_size - data_start)) 0), sc_events = 0\<rparr>])\<rparr>))
            (admitted (te_fuel E) l uid known))"

text \<open>The messages in the bytes of a stream, until one cannot be read.\<close>

function stream_messages :: "(u8 list \<Rightarrow> string + transport_message) \<Rightarrow> u8 list \<Rightarrow> transport_message list" where
  "stream_messages dec s = (case read_signed dec s of Inl _ \<Rightarrow> [] | Inr (m, s) \<Rightarrow> m # stream_messages dec s)"
  by pat_completeness auto
termination
  by (relation "measure (\<lambda>(dec, s). length s)") (auto dest: read_signed_shorter)

declare stream_messages.simps [simp del]

text \<open>
  What the reader of a service's standard output hands on: its messages, and one line about what is no
  message, after which it stops reading.
\<close>

definition log_message :: "string \<Rightarrow> transport_message" where
  "log_message s =
     \<lparr>tp_type = ''response'', tp_payload = Some (PString s), tp_branch = None, tp_name = Some ''log'', tp_action = ''set''\<rparr>"

fun frame_error_text :: "frame_error \<Rightarrow> string" where
  "frame_error_text EndOfStream = ''failed to fill whole buffer''"
| "frame_error_text BadMagic = ''Invalid IPC Magic''"
| "frame_error_text TooLarge = ''IPC Message too large''"
| "frame_error_text (BadMessage e) = e"

function stdout_messages :: "(u8 list \<Rightarrow> string + transport_message) \<Rightarrow> u8 list \<Rightarrow> transport_message list" where
  "stdout_messages dec s =
     (case read_signed dec s of
        Inr (m, s) \<Rightarrow> m # stdout_messages dec s
      | Inl e \<Rightarrow>
          if e = EndOfStream then [] else [log_message (''failed to recieve message: '' @ frame_error_text e)])"
  by pat_completeness auto
termination
  by (relation "measure (\<lambda>(dec, s). length s)") (auto dest: read_signed_shorter)

declare stdout_messages.simps [simp del]

definition incoming :: "ustr \<Rightarrow> u32 \<Rightarrow> nat \<Rightarrow> transport_message \<Rightarrow> tp_incoming" where
  "incoming endpoint uid client m = (endpoint, m, uid, if tp_type m = ''enquiry'' then Some client else None)"

definition uds_receive :: "('v, 'i) tp_env \<Rightarrow> ustr \<Rightarrow> u32 \<Rightarrow> nat \<Rightarrow> u8 list \<Rightarrow> tp_world \<Rightarrow> tp_world" where
  "uds_receive E endpoint uid client bytes w =
     w\<lparr>tw_uds_incoming := tw_uds_incoming w @ map (incoming endpoint uid client) (stream_messages (te_dec E) bytes)\<rparr>"

text \<open>What a client has put into its ring; a block that is no message is passed over.\<close>

definition shm_receive :: "('v, 'i) tp_env \<Rightarrow> ustr \<Rightarrow> u32 \<Rightarrow> nat \<Rightarrow> u8 list list \<Rightarrow> tp_world \<Rightarrow> tp_world" where
  "shm_receive E endpoint uid client blocks w =
     w\<lparr>tw_shm_incoming := tw_shm_incoming w @
        map (incoming endpoint uid client) (List.map_filter (\<lambda>b. case te_dec E b of Inr m \<Rightarrow> Some m | Inl _ \<Rightarrow> None) blocks)\<rparr>"

section \<open>Sending\<close>

definition uds_send :: "('v, 'i) tp_env \<Rightarrow> transport_message \<Rightarrow> uds_client list \<Rightarrow> uds_client list" where
  "uds_send E m cs = map (\<lambda>c. c\<lparr>ud_bytes := ud_bytes c @ write_signed (te_enc E) m\<rparr>) (filter ud_open cs)"

definition shm_send :: "('v, 'i) tp_env \<Rightarrow> transport_message \<Rightarrow> shm_client list \<Rightarrow> shm_client list" where
  "shm_send E m cs =
     map (\<lambda>c. case ring_write (te_enc E m) (sc_ring c) of
                (ok, rb) \<Rightarrow> if ok then \<lparr>sc_ring = rb, sc_events = Suc (sc_events c)\<rparr> else c) cs"

text \<open>\<open>send\<close> from the arguments the flow runtime publishes with; it puts the endpoint for the name.\<close>

definition sent_message :: "json_lib \<Rightarrow> flow_message \<Rightarrow> transport_message" where
  "sent_message L f =
     \<lparr>tp_type = (if fm_type f = ''signal'' then ''impulse'' else ''facet''),
      tp_payload = Some (payload_from_json L (Some (fm_payload f))), tp_branch = None, tp_name = Some (fm_endpoint f),
      tp_action = (if fm_action f = ''remove'' then ''remove'' else ''set'')\<rparr>"

definition transport_send :: "('v, 'i) tp_env \<Rightarrow> flow_message \<Rightarrow> tp_world \<Rightarrow> tp_world" where
  "transport_send E f w =
     (let m = sent_message (te_lib E) f; ep = fm_endpoint f in
      if ep \<in> set (tw_stdio w) then tp_emit [TpToStdio ep m] w
      else w\<lparr>tw_uds_clients := (case tw_uds_clients w ep of None \<Rightarrow> tw_uds_clients w
                                  | Some cs \<Rightarrow> (tw_uds_clients w)(ep \<mapsto> uds_send E m cs)),
             tw_shm_clients := (case tw_shm_clients w ep of None \<Rightarrow> tw_shm_clients w
                                  | Some cs \<Rightarrow> (tw_shm_clients w)(ep \<mapsto> shm_send E m cs))\<rparr>)"

section \<open>Acting on a message\<close>

definition parse_log_level :: "string \<Rightarrow> log_level" where
  "parse_log_level s =
     (let l = map ascii_lower s in
      if l = ''trace'' then Trace else if l = ''debug'' then Debug else if l = ''warn'' \<or> l = ''warning'' then Warn
      else if l = ''error'' then Error else if l = ''fatal'' then Fatal else Info)"

definition log_field :: "json_lib \<Rightarrow> json \<Rightarrow> string" where
  "log_field L v = (case json_as_str v of Some s \<Rightarrow> s | None \<Rightarrow> jl_print L v)"

definition stdio_log_entry ::
  "json_lib \<Rightarrow> (u8 list \<Rightarrow> string option) \<Rightarrow> ustr \<Rightarrow> transport_message \<Rightarrow> log_level \<times> string \<times> (string \<times> string) list" where
  "stdio_log_entry L utf8 service m =
     (let base = [(''service'', service), (''source'', ''stdio'')];
          str_of = (\<lambda>k v. Option.bind (json_get k v) json_as_str);
          (level, t, fs) =
            (case tp_payload m of
               Some (PString s) \<Rightarrow> (Info, s, base)
             | Some (PBytes b) \<Rightarrow> (Info, case utf8 b of Some s \<Rightarrow> s | None \<Rightarrow> [], base)
             | Some (PJson s) \<Rightarrow>
                 (let v = into_json L s in
                  (case str_of ''level'' v of Some l \<Rightarrow> parse_log_level l | None \<Rightarrow> Info,
                   case str_of ''message'' v of Some x \<Rightarrow> x | None \<Rightarrow> jl_print L v,
                   case json_get ''fields'' v of
                     Some (JObj kvs) \<Rightarrow> fold (\<lambda>(k, x). AList.update k (log_field L x)) kvs base
                   | _ \<Rightarrow> base))
             | _ \<Rightarrow> (Info, [], base))
      in (level, if t = [] then ''log'' else t, fs))"

definition handle_enquiry :: "('v, 'i) tp_env \<Rightarrow> transport_message \<Rightarrow> transport_message result" where
  "handle_enquiry E m =
     (let L = te_lib E;
          r = m\<lparr>tp_type := ''response'', tp_payload := None, tp_branch := None\<rparr> in
      case tp_name m of
        None \<Rightarrow> Inr r
      | Some name \<Rightarrow>
          if name = ''has_state''
          then (case tp_payload m of
                  None \<Rightarrow> Inr r
                | Some p \<Rightarrow>
                    (case te_graph E of
                       None \<Rightarrow> Inl (InvalidState ''state machine store not found'')
                     | Some g \<Rightarrow>
                         Inr (r\<lparr>tp_payload := Some (payload_from_json L
                           (Some (JBool (map_of (fg_facets g) (to_string_payload L p) \<noteq> None))))\<rparr>)))
          else Inr (r\<lparr>tp_payload := Some (payload_from_json L
                 (Some (JObj (obj_insert ''enquiry'' (JStr name) (obj_insert ''error'' (JStr ''unknown enquiry'') [])))))\<rparr>))"

definition message_json :: "('v, 'i) tp_env \<Rightarrow> transport_message \<Rightarrow> json option" where
  "message_json E m = map_option (payload_to_json (te_lib E)) (tp_payload m)"

text \<open>Whether a caller holds one of the permissions a facet or impulse asks for, if it does.\<close>

definition unit_allows :: "nat \<Rightarrow> perm_store \<Rightarrow> u32 \<Rightarrow> ustr list option \<Rightarrow> bool option" where
  "unit_allows fuel pm uid perms = (case perms of None \<Rightarrow> Some True | Some ps \<Rightarrow> any_opt (holds_named fuel pm uid) ps)"

definition facet_perms :: "('v, 'i) tp_env \<Rightarrow> ustr \<Rightarrow> ustr list option" where
  "facet_perms E name =
     Option.bind (Option.bind (mr_find (te_name E) (te_meta E) ty_facet ''*'' name) (te_facet E)) ff_permissions"

definition impulse_perms :: "('v, 'i) tp_env \<Rightarrow> ustr \<Rightarrow> ustr list option" where
  "impulse_perms E name =
     Option.bind (Option.bind (mr_find (te_name E) (te_meta E) ty_impulse ''*'' name) (te_impulse E)) fp_permissions"

text \<open>A name before a slash is the user the facet belongs to.\<close>

definition of_another_user :: "perm_store \<Rightarrow> u32 \<Rightarrow> ustr \<Rightarrow> bool" where
  "of_another_user pm uid name =
     (case (split_once CHR ''/'' name, lookup_by_uid (ps_users pm) uid) of
        (Some (username, _), Some u) \<Rightarrow> username \<noteq> ur_username u
      | _ \<Rightarrow> False)"

definition facet_effects :: "('v, 'i) tp_env \<Rightarrow> ustr \<Rightarrow> transport_message \<Rightarrow> tp_effect list" where
  "facet_effects E name m =
     (if tp_action m = ''remove'' then [TpRemoveFacet name (message_json E m)]
      else if tp_action m = ''set'' then [TpSetFacet name (message_json E m)] else [])"

definition tp_ingest ::
  "('v, 'i) tp_env \<Rightarrow> perm_store \<Rightarrow> tp_incoming \<Rightarrow> tp_world \<Rightarrow> (unit result \<times> tp_world) option" where
  "tp_ingest E pm x w =
     (case x of (endpoint, m, uid, responder) \<Rightarrow>
        if tp_name m = Some ''watchdog'' then Some (Inr (), tp_emit [TpPing endpoint] w)
        else if tp_name m = Some ''log''
        then (case stdio_log_entry (te_lib E) (te_utf8 E) (rslvns_snorm endpoint) m of
                (level, t, fs) \<Rightarrow> Some (Inr (), tp_emit [TpLog level t fs] w))
        else if tp_type m = ''enquiry''
        then (case responder of
                None \<Rightarrow> Some (Inr (), w)
              | Some c \<Rightarrow>
                  (case handle_enquiry E m of
                     Inl e \<Rightarrow> Some (Inl e, w)
                   | Inr r \<Rightarrow> Some (Inr (), tp_emit [TpReply c r] w)))
        else if tp_type m = ''facet''
        then (case tp_name m of
                None \<Rightarrow> Some (Inr (), w)
              | Some name \<Rightarrow>
                  if uid = 0 then Some (Inr (), tp_emit (facet_effects E name m) w)
                  else if of_another_user pm uid name then Some (Inr (), w)
                  else map_option (\<lambda>ok. (Inr (), if ok then tp_emit (facet_effects E name m) w else w))
                    (unit_allows (te_fuel E) pm uid (facet_perms E name)))
        else if tp_type m = ''impulse''
        then (case tp_name m of
                None \<Rightarrow> Some (Inr (), w)
              | Some name \<Rightarrow>
                  map_option (\<lambda>ok. (Inr (), if ok then tp_emit [TpImpulse name (message_json E m)] w else w))
                    (unit_allows (te_fuel E) pm uid (impulse_perms E name)))
        else Some (Inr (), w))"

text \<open>\<open>drain_incoming\<close>: an error ends it; what was not yet taken waits for the next time.\<close>

fun ingest_all ::
  "('v, 'i) tp_env \<Rightarrow> perm_store \<Rightarrow> tp_incoming list \<Rightarrow> tp_world \<Rightarrow> (unit result \<times> tp_incoming list \<times> tp_world) option" where
  "ingest_all E pm [] w = Some (Inr (), [], w)"
| "ingest_all E pm (x # xs) w =
     (case tp_ingest E pm x w of
        None \<Rightarrow> None
      | Some (Inl e, w) \<Rightarrow> Some (Inl e, xs, w)
      | Some (Inr _, w) \<Rightarrow> ingest_all E pm xs w)"

definition tp_drain :: "('v, 'i) tp_env \<Rightarrow> tp_world \<Rightarrow> (unit result \<times> tp_world) option" where
  "tp_drain E w =
     (let pm = scope_store_of E in
      case ingest_all E pm (tw_uds_incoming w) w of
        None \<Rightarrow> None
      | Some (Inl e, rest, w) \<Rightarrow> Some (Inl e, w\<lparr>tw_uds_incoming := rest\<rparr>)
      | Some (Inr _, rest, w) \<Rightarrow>
          (let w = w\<lparr>tw_uds_incoming := rest\<rparr> in
           case ingest_all E pm (tw_shm_incoming w) w of
             None \<Rightarrow> None
           | Some (r, rest, w) \<Rightarrow> Some (r, w\<lparr>tw_shm_incoming := rest\<rparr>)))"

definition transport_handle :: "('v, 'i) tp_env \<Rightarrow> svc_cmd \<Rightarrow> tp_world \<Rightarrow> (unit result \<times> tp_world) option" where
  "transport_handle E cmd w =
     (case cmd of
        TpSetupUds ep perms \<Rightarrow> Some (Inr (), setup_uds E ep perms w)
      | TpSetupShm ep perms \<Rightarrow> Some (Inr (), setup_shm E ep perms w)
      | TpSetupRoute ep \<Rightarrow> Some (setup_route E ep w)
      | TpRegisterStdio ep \<Rightarrow> Some (Inr (), w\<lparr>tw_stdio := hs_insert ep (tw_stdio w)\<rparr>)
      | TpUnregisterStdio ep \<Rightarrow> Some (Inr (), w\<lparr>tw_stdio := hs_remove ep (tw_stdio w)\<rparr>)
      | TpIngest ep uid m \<Rightarrow> tp_ingest E (scope_store_of E) (ep, m, uid, None) w
      | _ \<Rightarrow> Some (Inr (), w))"

end
