(* ===== verification/TransportProps.thy ===== *)
theory TransportProps
  imports Transport
begin

text \<open>
  What holds of the transports: what a client of an endpoint reads, who is let in and what is carried
  out for it, and what is left of a message that the flow runtime publishes.
\<close>

section \<open>Framing\<close>

lemma stream_of_writes:
  assumes "\<forall>m \<in> set ms. length (enc m) \<le> max_ipc_message_size \<and> dec (enc m) = Inr m"
  shows "stream_messages dec (concat (map (write_signed enc) ms)) = ms"
  using assms
proof (induction ms)
  case Nil
  show ?case by (subst stream_messages.simps) (simp add: read_signed_def frame_exact_def)
next
  case (Cons m ms)
  then show ?case by (subst stream_messages.simps) (simp add: read_written)
qed

text \<open>The messages of a service that writes nothing else are all handed on.\<close>

lemma stdout_of_writes:
  assumes "\<forall>m \<in> set ms. length (enc m) \<le> max_ipc_message_size \<and> dec (enc m) = Inr m"
  shows "stdout_messages dec (concat (map (write_signed enc) ms) @ rest) = ms @ stdout_messages dec rest"
  using assms
proof (induction ms)
  case (Cons m ms)
  then show ?case by (subst stdout_messages.simps) (simp add: read_written)
qed simp

text \<open>Text that a service prints after its messages is lost: one line says so, and nothing after it is read.\<close>

lemma plain_output_ends_reading:
  assumes "\<forall>m \<in> set ms. length (enc m) \<le> max_ipc_message_size \<and> dec (enc m) = Inr m"
    and "4 \<le> length printed" "take 4 printed \<noteq> ipc_magic"
  shows "stdout_messages dec (concat (map (write_signed enc) ms) @ printed) =
           ms @ [log_message ''failed to recieve message: Invalid IPC Magic'']"
proof -
  have "read_signed dec printed = Inl BadMagic" using assms(2,3) by (simp add: read_signed_def frame_exact_def)
  then have "stdout_messages dec printed = [log_message ''failed to recieve message: Invalid IPC Magic'']"
    by (subst stdout_messages.simps) simp
  then show ?thesis using stdout_of_writes [OF assms(1), of printed] by simp
qed

definition send_all :: "('v, 'i) tp_env \<Rightarrow> transport_message list \<Rightarrow> uds_client list \<Rightarrow> uds_client list" where
  "send_all E ms cs = fold (uds_send E) ms cs"

lemma send_all_open:
  "\<forall>c \<in> set cs. ud_open c \<Longrightarrow>
     send_all E ms cs = map (\<lambda>c. c\<lparr>ud_bytes := ud_bytes c @ concat (map (write_signed (te_enc E)) ms)\<rparr>) cs"
proof (induction ms arbitrary: cs)
  case Nil
  show ?case by (simp add: send_all_def)
next
  case (Cons m ms)
  then have f: "filter ud_open cs = cs" by simp
  have "send_all E (m # ms) cs = send_all E ms (uds_send E m cs)" by (simp add: send_all_def)
  also have "\<dots> = map (\<lambda>c. c\<lparr>ud_bytes := ud_bytes c @ concat (map (write_signed (te_enc E)) ms)\<rparr>) (uds_send E m cs)"
    using Cons by (intro Cons.IH) (auto simp: uds_send_def)
  finally show ?case by (simp add: uds_send_def f comp_def)
qed

lemma send_all_closed: "ms \<noteq> [] \<Longrightarrow> send_all E ms cs = send_all E ms (filter ud_open cs)"
  by (cases ms) (simp_all add: send_all_def uds_send_def)

section \<open>The empty store\<close>

text \<open>With no store of permissions in the scope the only permission anybody holds is \<open>any\<close>.\<close>

lemma empty_store_holds: "0 < fuel \<Longrightarrow> holds_named fuel (ps_new us_default) uid x = Some (x = ''any'')"
  by (cases fuel) (auto simp: holds_named_def from_name_def ps_new_def user_has.simps)

lemma empty_store_any: "0 < fuel \<Longrightarrow> any_opt (holds_named fuel (ps_new us_default) uid) ps = Some (''any'' \<in> set ps)"
  by (induction ps) (auto simp: empty_store_holds split: bool.splits)

lemma empty_store_nobody: "lookup_by_uid (ps_users (ps_new us_default)) uid = None"
  by (simp add: ps_new_def us_default_def lookup_by_uid_def)

lemma empty_store_of: "te_scope_perms E = None \<Longrightarrow> scope_store_of E = ps_new us_default"
  by (simp add: scope_store_of_def)

definition lets_any :: "ustr list option \<Rightarrow> bool" where
  "lets_any perms = (case perms of None \<Rightarrow> True | Some ps \<Rightarrow> ''any'' \<in> set ps)"

lemma unit_allows_empty: "0 < fuel \<Longrightarrow> unit_allows fuel (ps_new us_default) uid perms = Some (lets_any perms)"
  by (simp add: unit_allows_def lets_any_def empty_store_any split: option.splits)

lemma admitted_empty:
  "0 < te_fuel E \<Longrightarrow> te_scope_perms E = None \<Longrightarrow>
   admitted (te_fuel E) (new_listener E endpoint perms) uid True =
     Some (if lets_any perms then Some (if perms = None then 0 else uid) else None)"
  by (simp add: admitted_def new_listener_def lets_any_def empty_store_of empty_store_any split: option.splits)

section \<open>What was published\<close>

lemma published_eq:
  "\<forall>s \<in> set subs. transport_id s \<noteq> ''uds'' \<and> transport_id s \<noteq> ''shm'' \<Longrightarrow> ka \<noteq> ''signal'' \<Longrightarrow> kb \<noteq> ''signal'' \<Longrightarrow>
   fold (transport_send E) (publish_messages L n ka p act (Some subs)) w =
   fold (transport_send E) (publish_messages L n' kb p act (Some subs)) w"
  by (induction subs arbitrary: w)
    (auto simp: publish_messages_def Let_def transport_send_def sent_message_def simp del: trim_start_matches.simps)

section \<open>Properties\<close>

text \<open>
  C30. The clients of an endpoint that are still connected read the messages sent to it, each once, whole
  and in the order they were sent, however many are written before one reads; clients that are gone are dropped.
\<close>

theorem uds_clients_read_what_is_sent:
  assumes "\<forall>m \<in> set ms. length (te_enc E m) \<le> max_ipc_message_size \<and> te_dec E (te_enc E m) = Inr m"
    and "ms \<noteq> []" "\<forall>c \<in> set cs. ud_bytes c = []"
  shows "map (\<lambda>c. stream_messages (te_dec E) (ud_bytes c)) (send_all E ms cs) = replicate (length (filter ud_open cs)) ms"
proof -
  have "send_all E ms cs =
      map (\<lambda>c. c\<lparr>ud_bytes := ud_bytes c @ concat (map (write_signed (te_enc E)) ms)\<rparr>) (filter ud_open cs)"
    using assms(2) send_all_open [of "filter ud_open cs" E ms] by (simp add: send_all_closed [of ms E cs])
  with assms(1,3) show ?thesis by (simp add: comp_def stream_of_writes map_replicate_const [symmetric])
qed

text \<open>
  C31. With no store of permissions in the scope, and nothing ever puts one there, the permissions of an
  endpoint name nobody. An endpoint with permissions can be connected to by everybody whom the mask lets into the
  directory, but lets nobody in, not root either, unless one of the permissions is \<open>any\<close>. One without permissions
  lets in whoever the mode of the socket file lets connect, and takes all of them for root; under the mask
  \<open>022\<close> that is root alone. Impulses that ask for a permission are never carried out, the facets of other users
  are set by anybody who is let in, and what asks for a permission only by root.
\<close>

theorem endpoint_all_or_nothing:
  assumes "te_scope_perms E = None" "0 < te_fuel E" "map_of (tw_uds w) ep = None"
    and "tp_name m = Some n" "n \<noteq> ''watchdog''" "n \<noteq> ''log''"
  shows "map_option fst (uds_connect E ep uid True (setup_uds E ep perms w)) =
           Some (if may_connect E uid (new_listener E ep perms) \<and> lets_any perms then Some (if perms = None then 0 else uid) else None) \<and>
         (te_umask E = 0x12 \<longrightarrow> may_connect E uid (new_listener E ep perms) = (te_bind E ep \<and> (perms \<noteq> None \<or> uid = 0))) \<and>
         (tp_type m = ''facet'' \<longrightarrow> tp_ingest E (scope_store_of E) (ep, m, uid, c) w =
           Some (Inr (), if uid = 0 \<or> lets_any (facet_perms E n) then tp_emit (facet_effects E n m) w else w)) \<and>
         (tp_type m = ''impulse'' \<longrightarrow> tp_ingest E (scope_store_of E) (ep, m, uid, c) w =
           Some (Inr (), if lets_any (impulse_perms E n) then tp_emit [TpImpulse n (message_json E m)] w else w))"
proof (intro conjI impI)
  show "map_option fst (uds_connect E ep uid True (setup_uds E ep perms w)) =
      Some (if may_connect E uid (new_listener E ep perms) \<and> lets_any perms then Some (if perms = None then 0 else uid) else None)"
    using assms by (simp add: uds_connect_def setup_uds_def admitted_empty)
next
  assume "te_umask E = 0x12"
  then show "may_connect E uid (new_listener E ep perms) = (te_bind E ep \<and> (perms \<noteq> None \<or> uid = 0))"
    by (simp add: may_connect_def new_listener_def mode_allows_def listener_mode_def created_mode_def)
next
  assume "tp_type m = ''facet''"
  with assms show "tp_ingest E (scope_store_of E) (ep, m, uid, c) w =
      Some (Inr (), if uid = 0 \<or> lets_any (facet_perms E n) then tp_emit (facet_effects E n m) w else w)"
    by (auto simp: tp_ingest_def empty_store_of unit_allows_empty of_another_user_def empty_store_nobody split: option.splits)
next
  assume "tp_type m = ''impulse''"
  with assms show "tp_ingest E (scope_store_of E) (ep, m, uid, c) w =
      Some (Inr (), if lets_any (impulse_perms E n) then tp_emit [TpImpulse n (message_json E m)] w else w)"
    by (auto simp: tp_ingest_def empty_store_of unit_allows_empty)
qed

text \<open>
  C32. What subscribers that are routes are sent does not say what happened: the name of the facet or
  impulse is not in it, the message carries the name of the route instead, and an impulse is sent as a facet.
\<close>

theorem published_messages_lose_identity:
  assumes "\<forall>s \<in> set subs. transport_id s \<noteq> ''uds'' \<and> transport_id s \<noteq> ''shm''"
  shows "fold (transport_send E) (publish_messages L n ''facet'' p act (Some subs)) w =
         fold (transport_send E) (publish_messages L n' ''impulse'' p act (Some subs)) w \<and>
         map (\<lambda>f. (tp_type (sent_message (te_lib E) f), tp_name (sent_message (te_lib E) f)))
             (publish_messages L n' ''impulse'' p act (Some subs)) =
         map (\<lambda>s. (''facet'', Some (trim_start_matches ''route:'' (transport_id s)))) subs"
proof
  show "fold (transport_send E) (publish_messages L n ''facet'' p act (Some subs)) w =
      fold (transport_send E) (publish_messages L n' ''impulse'' p act (Some subs)) w"
    using assms by (rule published_eq) simp_all
  show "map (\<lambda>f. (tp_type (sent_message (te_lib E) f), tp_name (sent_message (te_lib E) f)))
        (publish_messages L n' ''impulse'' p act (Some subs)) =
      map (\<lambda>s. (''facet'', Some (trim_start_matches ''route:'' (transport_id s)))) subs"
    using assms by (simp add: publish_messages_def sent_message_def Let_def del: trim_start_matches.simps)
qed

section \<open>Witnesses\<close>

definition demo_facet :: "string \<Rightarrow> transport_message" where
  "demo_facet act = \<lparr>tp_type = ''facet'', tp_payload = None, tp_branch = None, tp_name = Some ''a/x'', tp_action = act\<rparr>"

text \<open>A runtime without units and a codec for two messages; every endpoint can be bound,
  and nobody is in the daemon's group.\<close>

definition demo_transports :: "(unit, nat) tp_env" where
  "demo_transports = \<lparr>te_meta = mr_default, te_name = (\<lambda>_. []), te_facet = (\<lambda>_. None), te_impulse = (\<lambda>_. None),
     te_route = (\<lambda>_. None), te_lib = demo_lib, te_utf8 = (\<lambda>_. None),
     te_enc = (\<lambda>m. if tp_action m = ''set'' then [1] else [2]),
     te_dec = (\<lambda>b. if b = [1] then Inr (demo_facet ''set'') else if b = [2] then Inr (demo_facet ''remove'') else Inl ''bad''),
     te_scope_perms = None, te_graph = None, te_bind = (\<lambda>_. True), te_umask = 0x12, te_group = (\<lambda>_. False), te_fuel = 1\<rparr>"

definition no_transports :: tp_world where
  "no_transports = \<lparr>tw_uds = [], tw_shm = [], tw_uds_clients = Map.empty, tw_shm_clients = Map.empty,
     tw_uds_incoming = [], tw_shm_incoming = [], tw_stdio = [], tw_out = []\<rparr>"

theorem uds_clients_read_what_is_sent_witness:
  "map (\<lambda>c. stream_messages (te_dec demo_transports) (ud_bytes c))
     (send_all demo_transports [demo_facet ''set'', demo_facet ''remove''] [\<lparr>ud_open = True, ud_bytes = []\<rparr>, \<lparr>ud_open = False, ud_bytes = []\<rparr>]) =
   [[demo_facet ''set'', demo_facet ''remove'']]"
proof -
  let ?ms = "[demo_facet ''set'', demo_facet ''remove'']"
  let ?cs = "[\<lparr>ud_open = True, ud_bytes = []\<rparr>, \<lparr>ud_open = False, ud_bytes = []\<rparr>]"
  have "\<forall>m \<in> set ?ms. length (te_enc demo_transports m) \<le> max_ipc_message_size \<and> te_dec demo_transports (te_enc demo_transports m) = Inr m"
    by (simp add: demo_transports_def demo_facet_def max_ipc_message_size_def)
  then show ?thesis
    using uds_clients_read_what_is_sent [of ?ms demo_transports ?cs] by simp
qed

theorem endpoint_all_or_nothing_witness:
  "map_option fst (uds_connect demo_transports ''e'' 0 True (setup_uds demo_transports ''e'' (Some [''admin'']) no_transports)) = Some None \<and>
   map_option fst (uds_connect demo_transports ''e'' 1000 True (setup_uds demo_transports ''e'' None no_transports)) = Some None \<and>
   map_option fst (uds_connect demo_transports ''e'' 0 True (setup_uds demo_transports ''e'' None no_transports)) = Some (Some 0) \<and>
   tp_ingest demo_transports (scope_store_of demo_transports) (''e'', demo_facet ''set'', 0, None) no_transports =
     Some (Inr (), tp_emit [TpSetFacet ''a/x'' None] no_transports)"
proof -
  have e: "te_scope_perms demo_transports = None" "0 < te_fuel demo_transports" "te_bind demo_transports ''e''"
    "te_umask demo_transports = 0x12"
    by (simp_all add: demo_transports_def)
  have m: "tp_name (demo_facet ''set'') = Some ''a/x''" "tp_type (demo_facet ''set'') = ''facet''" by (simp_all add: demo_facet_def)
  have w: "map_of (tw_uds no_transports) ''e'' = None" by (simp add: no_transports_def)
  have f: "facet_effects demo_transports ''a/x'' (demo_facet ''set'') = [TpSetFacet ''a/x'' None]"
    by (simp add: facet_effects_def demo_facet_def message_json_def)
  have n: "''a/x'' \<noteq> ''watchdog''" "''a/x'' \<noteq> ''log''" by simp_all
  note all = endpoint_all_or_nothing [OF e(1,2) w m(1) n]
  note let_in = all [THEN conjunct1] and reach = all [THEN conjunct2, THEN conjunct1, rule_format, OF e(4)]
    and facet = all [THEN conjunct2, THEN conjunct2, THEN conjunct1, rule_format, OF m(2)]
  have l: "lets_any None" "\<not> lets_any (Some [''admin''])" by (simp_all add: lets_any_def)
  have "map_option fst (uds_connect demo_transports ''e'' 0 True (setup_uds demo_transports ''e'' (Some [''admin'']) no_transports)) = Some None"
    using let_in [of 0 "Some [''admin'']"] l(2) by simp
  moreover have "map_option fst (uds_connect demo_transports ''e'' 1000 True (setup_uds demo_transports ''e'' None no_transports)) = Some None"
    using let_in [of 1000 None] reach [of 1000 None] by simp
  moreover have "map_option fst (uds_connect demo_transports ''e'' 0 True (setup_uds demo_transports ''e'' None no_transports)) = Some (Some 0)"
    unfolding let_in [of 0 None] reach [of 0 None] using e(3) l(1) by simp
  moreover have "tp_ingest demo_transports (scope_store_of demo_transports) (''e'', demo_facet ''set'', 0, None) no_transports =
     Some (Inr (), tp_emit [TpSetFacet ''a/x'' None] no_transports)"
    unfolding facet f by simp
  ultimately show ?thesis by blast
qed

theorem published_messages_lose_identity_witness:
  "fold (transport_send demo_transports) (publish_messages demo_lib ''g:up'' ''facet'' (PNone True) Apply (Some [TMType ''route:log''])) (no_transports\<lparr>tw_stdio := [''log'']\<rparr>) =
   fold (transport_send demo_transports) (publish_messages demo_lib ''g:rang'' ''impulse'' (PNone True) Apply (Some [TMType ''route:log''])) (no_transports\<lparr>tw_stdio := [''log'']\<rparr>)"
  using published_messages_lose_identity [of "[TMType ''route:log'']" demo_transports demo_lib "''g:up''" "PNone True" Apply "no_transports\<lparr>tw_stdio := [''log'']\<rparr>" "''g:rang''"]
  by simp

end
