(* ===== verification/Spec2Isabelle.thy ===== *)
theory Spec2Isabelle
  imports Prelude ScopedNames UserStore Pam Permissions Resources Registry Events Runtime
    Orchestrator Boot LogRecord Persistence ShmRing Json Triggers FacetGraph Variables Scopes
    Mounts Flow FlowFacts FlowProps Isolation ServiceData Spawn Services
    ServiceFacts ServiceInv ServiceStart StartOrder ServiceProps Timers Sockets SocketProps Systemd SystemdProps Ipc Sessions SessionProps IpcServer
    Extensions Loader LoaderProps Daemon Transport TransportProps
begin

text \<open>
  A verification library for \<^verbatim>\<open>rind\<close>, an init daemon written in Rust (the crates under
  \<^verbatim>\<open>src/crates\<close>). The daemon boots through a fixed sequence of cycles in which
  orchestrators run; they send messages to runtimes, which handle them on behalf of a context;
  metadata describes the units and instances are made from it; users, permissions and sessions
  decide who may do what; an epoll loop turns file descriptor events into further messages.

  Theories and the code they model:

  \<^item> \<open>Prelude\<close>: the error type (\<^verbatim>\<open>core/src/error.rs\<close>) and the strings, byte
    encodings and hash collections of Rust's standard library that several components use.
  \<^item> \<open>ScopedNames\<close>: names with scopes (\<^verbatim>\<open>core/src/utils.rs\<close>).
  \<^item> \<open>UserStore\<close>, \<open>Pam\<close>: the user database and authentication (\<^verbatim>\<open>core/src/user.rs\<close>).
  \<^item> \<open>Permissions\<close>: grants, groups, links and checks (\<^verbatim>\<open>core/src/permissions.rs\<close>)
    and the IPC handler that changes them (\<^verbatim>\<open>primitives/src/permissions.rs\<close>).
  \<^item> \<open>Resources\<close>: file descriptors and the epoll pump (\<^verbatim>\<open>core/src/resources.rs\<close>,
    \<^verbatim>\<open>init/src/pump.rs\<close>).
  \<^item> \<open>Registry\<close>: metadata and instances (\<^verbatim>\<open>core/src/metadata.rs\<close>, \<^verbatim>\<open>core/src/registry.rs\<close>).
  \<^item> \<open>Events\<close>: the event bus and the lifecycle queue (\<^verbatim>\<open>core/src/events.rs\<close>, \<^verbatim>\<open>core/src/lifecycle.rs\<close>).
  \<^item> \<open>Runtime\<close>: the message dispatcher (\<^verbatim>\<open>core/src/runtime.rs\<close>, \<^verbatim>\<open>core/src/context.rs\<close>).
  \<^item> \<open>Orchestrator\<close>, \<open>Boot\<close>: planning and running the boot (\<^verbatim>\<open>core/src/orchestrator.rs\<close>,
    \<^verbatim>\<open>core/src/boot.rs\<close>).
  \<^item> \<open>LogRecord\<close>: log records, segments and queries (\<^verbatim>\<open>core/src/logging.rs\<close>,
    \<^verbatim>\<open>cli/src/applets/syslogs.rs\<close>).
  \<^item> \<open>Persistence\<close>: the state snapshot (\<^verbatim>\<open>core/src/persistence.rs\<close>).
  \<^item> \<open>ShmRing\<close>: the shared-memory message ring (\<^verbatim>\<open>ipc/src/shm.rs\<close>).
  \<^item> \<open>Json\<close>, \<open>Triggers\<close>: payloads (\<^verbatim>\<open>ipc/src/ipc.rs\<close>), matching, merging and
    mapping them, and what a trigger does (\<^verbatim>\<open>flow/src/triggers.rs\<close>).
  \<^item> \<open>FacetGraph\<close>: the active facets and their files, one per scope, over the disk of
    \<open>Persistence\<close> (\<^verbatim>\<open>flow/src/flow.rs\<close>, \<^verbatim>\<open>cfg/src/units.rs\<close>).
  \<^item> \<open>Variables\<close>, \<open>Scopes\<close>, \<open>Mounts\<close>: \<^verbatim>\<open>primitives/src/variables.rs\<close>,
    \<^verbatim>\<open>scopes.rs\<close> and \<^verbatim>\<open>mounts.rs\<close>.
  \<^item> \<open>Flow\<close>, \<open>FlowFacts\<close>, \<open>FlowProps\<close>: the flow runtime (\<^verbatim>\<open>flow/src/flow.rs\<close>):
    the model, what every operation keeps and why it returns, and its properties.

  \<^item> \<open>Isolation\<close>: how the settings of a scope and of a service combine into the
    namespaces and limits of a process (\<^verbatim>\<open>services/src/services.rs\<close>, \<^verbatim>\<open>primitives/src/scopes.rs\<close>).
  \<^item> \<open>ServiceData\<close>, \<open>Spawn\<close>: service units, their children, users, environment and
    arguments, watchdog timers, and the executors (\<^verbatim>\<open>services/src/services.rs\<close>,
    \<^verbatim>\<open>services/src/executors\<close>); the messages the components send each other.
  \<^item> \<open>Services\<close>, \<open>ServiceFacts\<close>, \<open>ServiceInv\<close>, \<open>ServiceStart\<close>,
    \<open>StartOrder\<close>, \<open>ServiceProps\<close>: the service runtime (\<^verbatim>\<open>services/src/services.rs\<close>): starting,
    stopping, exits, restarts, dependents, conditions, watchdogs and its requests; what every message
    keeps and that it returns; the order of starting; and its properties.
  \<^item> \<open>Timers\<close>: timer units and durations (\<^verbatim>\<open>services/src/timers.rs\<close>).
  \<^item> \<open>Sockets\<close>, \<open>SocketProps\<close>: socket units and activation
    (\<^verbatim>\<open>services/src/sockets.rs\<close>).
  \<^item> \<open>Systemd\<close>, \<open>SystemdProps\<close>: the translation of systemd unit files
    (\<^verbatim>\<open>systemd-loader/src/systemd.rs\<close>) into the units of the other theories.
  \<^item> \<open>Ipc\<close>: messages, their frames and the identity of a client (\<^verbatim>\<open>ipc/src/ipc.rs\<close>,
    \<^verbatim>\<open>cfg/src/ipc.rs\<close>).
  \<^item> \<open>Sessions\<close>, \<open>SessionProps\<close>: logging in and out and running as root
    (\<^verbatim>\<open>cfg/src/user.rs\<close>), over \<open>Pam\<close>, \<open>Permissions\<close>, \<open>Scopes\<close> and \<open>FacetGraph\<close>.
  \<^item> \<open>IpcServer\<close>: the requests of a connection through the table of handlers
    (\<^verbatim>\<open>cfg/src/ipc.rs\<close>, \<^verbatim>\<open>ipc/src/recv.rs\<close>), over the handlers of the other theories.

  \<^item> \<open>Extensions\<close>: extension points and hooks (\<^verbatim>\<open>core/src/extensions.rs\<close>,
    \<^verbatim>\<open>core/src/hooks.rs\<close>).
  \<^item> \<open>Loader\<close>, \<open>LoaderProps\<close>: reading the units of a directory into the metadata of a scope,
    before the boot and at a reload (\<^verbatim>\<open>cfg/src/loader.rs\<close>, \<^verbatim>\<open>dunits.rs\<close>, \<^verbatim>\<open>units.rs\<close>).
  \<^item> \<open>Daemon\<close>: reaping children, and the events runtime that hands flow events to services,
    sockets and mounts (\<^verbatim>\<open>services/src/reaper.rs\<close>, \<^verbatim>\<open>services/src/events.rs\<close>).
  \<^item> \<open>Transport\<close>, \<open>TransportProps\<close>: the endpoints over which clients exchange messages
    with the flow runtime (\<^verbatim>\<open>flow/src/transport.rs\<close>, \<^verbatim>\<open>shm_tp.rs\<close>), over the frames of
    \<open>Ipc\<close> and the ring of \<open>ShmRing\<close>.

  How the model corresponds to the code. A struct is a record and an enum a datatype with the
  constructors of the source; a method takes the state it changes and returns it. Errors are the
  left side of a sum. A hash map that the code iterates over is an association list, whose order
  stands for the unspecified iteration order, otherwise a map; a string is its UTF-8 bytes; machine
  words keep their width where they can wrap. Library code (cryptographic hashes, JSON, TOML, the binary codec, the kernel) is an
  argument; where a theorem relies on it, it says so in a hypothesis, and a concrete instance in the
  same theory shows that it can hold. Effects on the outside (dispatched messages, processes, mount
  calls) are recorded in the state, in order.

  What the lemmas show. Per component: the invariant of its state and that the operations keep it
  (indexes of the user store, the registry and the scopes, the typing of the facet graph), what each
  operation returns on every branch, round trips of what is written and read (permission files, log
  segments, snapshots, facets, variables), and refinement of an abstract structure (the ring as a
  bounded queue, the channels of the event bus, a check of permissions as a closure). Where
  behaviour differs from what a comment or the documentation says, a theorem states what the code
  does.

  Fuel. Loops that end by the shape of their data are recursive functions with a measure. Where the
  code may not return, fuel makes that visible: \<open>user_has\<close> needs at most 65537 for any user
  since permission ids have 16 bits, unless links are cyclic; \<open>flush_context\<close> returns when the
  handlers only send downwards; \<open>flow_run\<close> returns for every configuration with finitely many
  facet definitions, with fuel above the number of keys its guard can hold; \<open>svc_start\<close> returns
  with fuel above the number of services when \<open>after\<close> has no cycle, and for two services that
  wait for each other and can be spawned it is shown not to return. A request over IPC takes the fuel of its permission checks from its environment.

  Locales state what components rely on: \<open>fifo\<close> (\<open>Events\<close>) for queues, \<open>passes\<close>
  (\<open>Mounts\<close>) for the repeated passes over waiting units, \<open>flow_invariant\<close> and
  \<open>flow_bounded\<close> (\<open>FlowFacts\<close>) for what the flow operations keep and that they return,
  \<open>spawn_invariant\<close> and \<open>service_invariant\<close> (\<open>ServiceInv\<close>) for what spawning and the messages of
  the service runtime keep,
  \<open>grant_overlay\<close> (\<open>Permissions\<close>) for grants and revokes of users and of groups. Each
  is interpreted on the definitions of the model in the theory that provides them.

  Not modelled: networking, setting up namespaces in the supervisor
  process, process 1 set-up, the loading of plugins, the text of listings, the client libraries, and the
  command line apart from the log reader; and everything that is a system call, a thread or printing. Log calls
  are not recorded, and a message to a runtime is taken to be accepted. Concurrency is modelled where
  one thread owns the state (the dispatcher, the writer thread); a write to a client that blocks holds up
  the daemon, which is not modelled; of the locks of the global tables only the
  one that loading asks for twice is.
\<close>

end
